(* ===== verification/Prophet_Prelude.thy ===== *)
theory Prophet_Prelude
  imports Main "HOL-Library.AList" "HOL-Library.List_Lexorder" "HOL-Library.Char_ord"
begin

text \<open>
  What the components share: results, association maps, instants, and the part of Rust's
  \<open>str\<close> interface the sources use. A Rust \<open>String\<close> is its UTF-8 byte sequence, one HOL
  \<open>char\<close> per byte; searching for ASCII text in it gives the same answer on bytes as on Unicode
  scalar values, and the few operations that count or cut scalar values are written over the
  encoding (\<open>chars_count\<close>, \<open>take_chars\<close>, \<open>trim\<close>).
\<close>

section \<open>Rule collections\<close>

named_theorems str_simps \<open>characterisations of the string operations\<close>
named_theorems eval_simps \<open>definitions unfolded to evaluate a concrete input\<close>

section \<open>Results and instants\<close>

abbreviation Err :: "'e \<Rightarrow> 'e + 'a" where
  "Err \<equiv> Inl"

abbreviation Ok :: "'a \<Rightarrow> 'e + 'a" where
  "Ok \<equiv> Inr"

abbreviation is_ok :: "'e + 'a \<Rightarrow> bool" where
  "is_ok r \<equiv> (\<exists>x. r = Ok x)"

text \<open>An \<open>OffsetDateTime\<close> is read as nanoseconds since the Unix epoch; \<open>Duration\<close> likewise.\<close>

type_synonym instant = int

definition seconds :: "int \<Rightarrow> int" where
  "seconds n = n * 1000000000"

definition hours :: "int \<Rightarrow> int" where
  "hours n = seconds (n * 3600)"

definition days :: "int \<Rightarrow> int" where
  "days n = seconds (n * 86400)"

text \<open>\<open>Duration::whole_seconds\<close> truncates towards zero.\<close>

definition whole_seconds :: "int \<Rightarrow> int" where
  "whole_seconds d = (if 0 \<le> d then d div 1000000000 else - ((- d) div 1000000000))"

text \<open>
  \<open>OffsetDateTime + Duration\<close> panics past year 9999 (the \<open>time\<close> crate without
  \<open>large-dates\<close>); \<open>None\<close> is that panic.
\<close>

definition datetime_max :: instant where
  "datetime_max = 253402300799999999999"

definition datetime_min :: instant where
  "datetime_min = - 377705116800000000000"

definition datetime_add :: "instant \<Rightarrow> int \<Rightarrow> instant option" where
  "datetime_add t d =
     (if datetime_min \<le> t + d \<and> t + d \<le> datetime_max then Some (t + d) else None)"

lemmas time_defs = seconds_def hours_def days_def

lemma seconds_mono [simp]: "seconds a \<le> seconds b \<longleftrightarrow> a \<le> b"
  by (simp add: seconds_def)

lemma seconds_strict_mono [simp]: "seconds a < seconds b \<longleftrightarrow> a < b"
  by (simp add: seconds_def)

lemma seconds_0 [simp]: "seconds 0 = 0"
  by (simp add: seconds_def)

lemma seconds_whole_le: "0 \<le> d \<Longrightarrow> seconds (whole_seconds d) \<le> d"
  by (simp add: seconds_def whole_seconds_def)

section \<open>Association maps\<close>

text \<open>
  A \<open>HashMap\<close> or \<open>BTreeMap\<close> is an association list: its order stands for the iteration
  order of the code's map, and lookups go through \<open>map_of\<close>.
\<close>

type_synonym ('k, 'v) amap = "('k \<times> 'v) list"

definition contains_key :: "'k \<Rightarrow> ('k, 'v) amap \<Rightarrow> bool" where
  "contains_key k m \<longleftrightarrow> map_of m k \<noteq> None"

definition retain :: "('k \<Rightarrow> 'v \<Rightarrow> bool) \<Rightarrow> ('k, 'v) amap \<Rightarrow> ('k, 'v) amap" where
  "retain P m = filter (\<lambda>(k, v). P k v) m"

definition distinct_keys :: "('k, 'v) amap \<Rightarrow> bool" where
  "distinct_keys m \<longleftrightarrow> distinct (map fst m)"

lemma contains_key_iff: "contains_key k m \<longleftrightarrow> k \<in> fst ` set m"
  by (simp add: contains_key_def map_of_eq_None_iff)

lemma distinct_keys_Nil [simp]: "distinct_keys []"
  by (simp add: distinct_keys_def)

lemma distinct_keys_update [simp]: "distinct_keys m \<Longrightarrow> distinct_keys (AList.update k v m)"
  by (simp add: distinct_keys_def distinct_update)

lemma distinct_keys_delete [simp]: "distinct_keys m \<Longrightarrow> distinct_keys (AList.delete k m)"
  by (simp add: distinct_keys_def distinct_delete)

lemma distinct_keys_retain [simp]: "distinct_keys m \<Longrightarrow> distinct_keys (retain P m)"
  by (simp add: distinct_keys_def retain_def distinct_map_filter)

lemma set_retain: "(k, v) \<in> set (retain P m) \<longleftrightarrow> (k, v) \<in> set m \<and> P k v"
  by (auto simp: retain_def)

lemma map_of_in_set: "distinct_keys m \<Longrightarrow> map_of m k = Some v \<longleftrightarrow> (k, v) \<in> set m"
  by (simp add: distinct_keys_def)

lemma map_of_retain:
  "distinct_keys m \<Longrightarrow> map_of (retain P m) k =
    (case map_of m k of None \<Rightarrow> None | Some v \<Rightarrow> if P k v then Some v else None)"
  by (induction m) (auto simp: retain_def distinct_keys_def map_of_eq_None_iff image_iff
      split: option.splits)

lemma map_of_update [simp]: "map_of (AList.update k v m) = (map_of m)(k \<mapsto> v)"
  by (rule update_conv')

lemma map_of_delete [simp]: "map_of (AList.delete k m) = (map_of m)(k := None)"
  by (rule delete_conv')

text \<open>How many entries satisfy a predicate, across updates and removals.\<close>

definition count_if :: "('k \<Rightarrow> 'v \<Rightarrow> bool) \<Rightarrow> ('k, 'v) amap \<Rightarrow> nat" where
  "count_if P m = length (filter (\<lambda>(k, v). P k v) m)"

lemma count_if_update: "count_if P (AList.update k v m) \<le> count_if P m + (if P k v then 1 else 0)"
  by (induction m) (auto simp: count_if_def)

lemma count_if_delete_le: "count_if P (AList.delete k m) \<le> count_if P m"
  by (induction m) (auto simp: count_if_def)

lemma count_if_delete: "(k, v) \<in> set m \<Longrightarrow> P k v \<Longrightarrow> count_if P (AList.delete k m) < count_if P m"
proof (induction m)
  case (Cons x m)
  then show ?case
    using count_if_delete_le [of P k m] by (cases "fst x = k"; cases x) (auto simp: count_if_def)
qed simp

lemma count_if_retain_le: "count_if P (retain Q m) \<le> count_if P m"
  by (induction m) (auto simp: count_if_def retain_def)

text \<open>A \<open>BTreeMap\<close> whose order of iteration matters: kept sorted by key.\<close>

fun bt_insert :: "'k::linorder \<Rightarrow> 'v \<Rightarrow> ('k, 'v) amap \<Rightarrow> ('k, 'v) amap" where
  "bt_insert k v [] = [(k, v)]"
| "bt_insert k v ((k', v') # m) =
     (if k < k' then (k, v) # (k', v') # m
      else if k = k' then (k, v) # m
      else (k', v') # bt_insert k v m)"

lemma map_of_bt_insert [simp]:
  "sorted (map fst m) \<Longrightarrow> map_of (bt_insert k v m) = (map_of m)(k \<mapsto> v)"
proof (induction m)
  case (Cons kv m)
  obtain k' v' where kv: "kv = (k', v')" by (cases kv)
  have "map_of m k = None" if "k < k'"
    using Cons.prems that by (auto simp: kv map_of_eq_None_iff)
  with Cons show ?case by (auto simp: kv fun_eq_iff)
qed auto

lemma keys_bt_insert: "fst ` set (bt_insert k v m) = insert k (fst ` set m)"
  by (induction k v m rule: bt_insert.induct) (simp_all add: insert_commute)

lemma sorted_bt_insert [simp]: "sorted (map fst m) \<Longrightarrow> sorted (map fst (bt_insert k v m))"
proof (induction m)
  case (Cons kv m)
  obtain k' v' where kv: "kv = (k', v')" by (cases kv)
  have "\<forall>x \<in> fst ` set (bt_insert k v m). k' \<le> x" if "\<not> k < k'"
    using Cons.prems that by (auto simp: kv keys_bt_insert)
  with Cons show ?case by (fastforce simp: kv)
qed auto

text \<open>Sorting by a key that identifies the elements gives the only sorted list.\<close>

lemma sort_key_determined:
  assumes "distinct ys" "set ys = set xs" "sorted (map f xs)" "distinct (map f xs)"
  shows "sort_key f ys = xs"
proof -
  have "inj_on f (set (sort_key f ys) \<union> set xs)"
    using assms(2,4) by (simp add: distinct_map)
  moreover have "distinct (map f (sort_key f ys))"
    using assms(1,2,4) by (simp add: distinct_map)
  ultimately show ?thesis
    using assms by (intro map_sorted_distinct_set_unique) simp_all
qed

section \<open>Strings\<close>

fun strip_prefix :: "string \<Rightarrow> string \<Rightarrow> string option" where
  "strip_prefix [] s = Some s"
| "strip_prefix (c # p) [] = None"
| "strip_prefix (c # p) (d # s) = (if c = d then strip_prefix p s else None)"

definition strip_suffix :: "string \<Rightarrow> string \<Rightarrow> string option" where
  "strip_suffix p s = map_option rev (strip_prefix (rev p) (rev s))"

definition starts_with :: "string \<Rightarrow> string \<Rightarrow> bool" where
  "starts_with p s \<longleftrightarrow> strip_prefix p s \<noteq> None"

definition ends_with :: "string \<Rightarrow> string \<Rightarrow> bool" where
  "ends_with p s \<longleftrightarrow> strip_suffix p s \<noteq> None"

fun contains_str :: "string \<Rightarrow> string \<Rightarrow> bool" where
  "contains_str p [] = (p = [])"
| "contains_str p (c # s) = (starts_with p (c # s) \<or> contains_str p s)"

lemma strip_prefix_Some [str_simps]: "strip_prefix p s = Some r \<longleftrightarrow> s = p @ r"
  by (induction p s rule: strip_prefix.induct) auto

lemma strip_prefix_None [str_simps]: "strip_prefix p s = None \<longleftrightarrow> (\<forall>r. s \<noteq> p @ r)"
  by (metis strip_prefix_Some not_None_eq)

lemma strip_prefix_append [simp]: "strip_prefix p (p @ r) = Some r"
  by (simp add: strip_prefix_Some)

lemma strip_suffix_Some [str_simps]: "strip_suffix p s = Some r \<longleftrightarrow> s = r @ p"
  unfolding strip_suffix_def
  by (auto simp: strip_prefix_Some) (metis rev_append rev_rev_ident)

lemma strip_suffix_None [str_simps]: "strip_suffix p s = None \<longleftrightarrow> (\<forall>r. s \<noteq> r @ p)"
  by (metis strip_suffix_Some not_None_eq)

lemma strip_suffix_append [simp]: "strip_suffix p (r @ p) = Some r"
  by (simp add: strip_suffix_Some)

lemma starts_with_iff [str_simps]: "starts_with p s \<longleftrightarrow> (\<exists>r. s = p @ r)"
  by (simp add: starts_with_def strip_prefix_None)

lemma ends_with_iff [str_simps]: "ends_with p s \<longleftrightarrow> (\<exists>r. s = r @ p)"
  by (simp add: ends_with_def strip_suffix_None)

lemma starts_with_append [simp]: "starts_with p (p @ r)"
  by (auto simp: starts_with_iff)

lemma starts_with_trans: "starts_with p q \<Longrightarrow> starts_with q s \<Longrightarrow> starts_with p s"
  by (auto simp: starts_with_iff)

lemma ends_with_trans: "ends_with p q \<Longrightarrow> ends_with q s \<Longrightarrow> ends_with p s"
  by (auto simp: ends_with_iff)

lemma contains_str_iff [str_simps]: "contains_str p s \<longleftrightarrow> (\<exists>u v. s = u @ p @ v)"
proof (induction s)
  case Nil
  then show ?case by auto
next
  case IH: (Cons c s)
  show ?case
  proof
    assume "contains_str p (c # s)"
    then consider "starts_with p (c # s)" | "contains_str p s" by auto
    then show "\<exists>u v. c # s = u @ p @ v"
    proof cases
      case 1
      then show ?thesis by (auto simp: starts_with_iff intro: exI [of _ "[]"])
    next
      case 2
      then obtain u v where "s = u @ p @ v" using IH.IH by blast
      then have "c # s = (c # u) @ p @ v" by simp
      then show ?thesis by blast
    qed
  next
    assume "\<exists>u v. c # s = u @ p @ v"
    then obtain u v where *: "c # s = u @ p @ v" by blast
    show "contains_str p (c # s)"
    proof (cases u)
      case Nil
      with * have "starts_with p (c # s)" by (simp add: starts_with_iff)
      then show ?thesis by simp
    next
      case (Cons d u')
      with * have "s = u' @ p @ v" by simp
      then have "contains_str p s" using IH.IH by blast
      then show ?thesis by simp
    qed
  qed
qed

subsection \<open>Splitting\<close>

text \<open>\<open>str::split\<close> on a one-byte separator: never empty, \<open>n\<close> separators give \<open>n + 1\<close> parts.\<close>

fun str_split :: "char \<Rightarrow> string \<Rightarrow> string list" where
  "str_split c [] = [[]]"
| "str_split c (x # xs) =
     (if x = c then [] # str_split c xs
      else (case str_split c xs of [] \<Rightarrow> [[x]] | w # ws \<Rightarrow> (x # w) # ws))"

fun split_once :: "char \<Rightarrow> string \<Rightarrow> (string \<times> string) option" where
  "split_once c [] = None"
| "split_once c (x # xs) =
     (if x = c then Some ([], xs) else map_option (\<lambda>(a, b). (x # a, b)) (split_once c xs))"

definition rsplit_once :: "char \<Rightarrow> string \<Rightarrow> (string \<times> string) option" where
  "rsplit_once c s = map_option (\<lambda>(b, a). (rev a, rev b)) (split_once c (rev s))"

lemma str_split_not_Nil [simp]: "str_split c s \<noteq> []"
  by (cases s) (auto split: list.splits)

lemma split_once_Some: "split_once c s = Some (a, b) \<longleftrightarrow> s = a @ c # b \<and> c \<notin> set a"
proof (induction s arbitrary: a)
  case Nil
  then show ?case by simp
next
  case (Cons x xs)
  show ?case
    using Cons.IH by (cases a) (auto simp: Cons.IH)
qed

lemma split_once_None: "split_once c s = None \<longleftrightarrow> c \<notin> set s"
  by (induction s) auto

lemma rsplit_once_Some: "rsplit_once c s = Some (a, b) \<longleftrightarrow> s = a @ c # b \<and> c \<notin> set b"
proof -
  have "rsplit_once c s = Some (a, b) \<longleftrightarrow> split_once c (rev s) = Some (rev b, rev a)"
    unfolding rsplit_once_def by (auto simp: rev_swap)
  also have "\<dots> \<longleftrightarrow> rev s = rev b @ c # rev a \<and> c \<notin> set b"
    by (simp add: split_once_Some)
  also have "\<dots> \<longleftrightarrow> s = a @ c # b \<and> c \<notin> set b"
    by (metis append.assoc append_Cons append_Nil rev.simps(2) rev_append rev_rev_ident)
  finally show ?thesis .
qed

lemma rsplit_once_None: "rsplit_once c s = None \<longleftrightarrow> c \<notin> set s"
  unfolding rsplit_once_def by (simp add: split_once_None)

text \<open>\<open>str::lines\<close>: the last line may lack its newline, and one \<open>\r\<close> before a newline is cut.\<close>

definition chomp_cr :: "string \<Rightarrow> string" where
  "chomp_cr l = (case strip_suffix [CHR 0x0D] l of Some r \<Rightarrow> r | None \<Rightarrow> l)"

definition split_terminator :: "char \<Rightarrow> string \<Rightarrow> string list" where
  "split_terminator c s = (let ps = str_split c s in if last ps = [] then butlast ps else ps)"

definition str_lines :: "string \<Rightarrow> string list" where
  "str_lines s =
     (let ps = str_split CHR 0x0A s;
          complete = map chomp_cr (butlast ps)
      in if last ps = [] then complete else complete @ [last ps])"

subsection \<open>Characters, numbers, scalar values\<close>

definition byte :: "char \<Rightarrow> nat" where
  "byte c = of_char c"

definition is_ascii_digit :: "char \<Rightarrow> bool" where
  "is_ascii_digit c \<longleftrightarrow> 48 \<le> byte c \<and> byte c \<le> 57"

definition is_ascii_lowercase :: "char \<Rightarrow> bool" where
  "is_ascii_lowercase c \<longleftrightarrow> 97 \<le> byte c \<and> byte c \<le> 122"

definition is_ascii_uppercase :: "char \<Rightarrow> bool" where
  "is_ascii_uppercase c \<longleftrightarrow> 65 \<le> byte c \<and> byte c \<le> 90"

definition is_ascii_alphanumeric :: "char \<Rightarrow> bool" where
  "is_ascii_alphanumeric c \<longleftrightarrow> is_ascii_digit c \<or> is_ascii_lowercase c \<or> is_ascii_uppercase c"

definition to_ascii_lowercase :: "string \<Rightarrow> string" where
  "to_ascii_lowercase s = map (\<lambda>c. if is_ascii_uppercase c then char_of (byte c + 32) else c) s"

fun digits_value :: "nat \<Rightarrow> string \<Rightarrow> nat" where
  "digits_value acc [] = acc"
| "digits_value acc (c # s) = digits_value (acc * 10 + (byte c - 48)) s"

text \<open>\<open>u64::from_str\<close> and its kin: an optional \<open>+\<close>, at least one digit, no overflow.\<close>

definition parse_unsigned :: "nat \<Rightarrow> string \<Rightarrow> nat option" where
  "parse_unsigned bound s =
     (let ds = (case strip_prefix ''+'' s of Some r \<Rightarrow> r | None \<Rightarrow> s)
      in if ds \<noteq> [] \<and> list_all is_ascii_digit ds \<and> digits_value 0 ds < bound
         then Some (digits_value 0 ds) else None)"

definition parse_u16 :: "string \<Rightarrow> nat option" where
  "parse_u16 = parse_unsigned 65536"

definition parse_u32 :: "string \<Rightarrow> nat option" where
  "parse_u32 = parse_unsigned 4294967296"

definition parse_u64 :: "string \<Rightarrow> nat option" where
  "parse_u64 = parse_unsigned 18446744073709551616"

lemma parse_unsigned_bound: "parse_unsigned bound s = Some n \<Longrightarrow> n < bound"
  by (auto simp: parse_unsigned_def Let_def split: if_splits)

text \<open>How integers are displayed.\<close>

fun show_nat :: "nat \<Rightarrow> string" where
  "show_nat n = (if n < 10 then [] else show_nat (n div 10)) @ [char_of (48 + n mod 10)]"

declare show_nat.simps [simp del]

lemma digit_chars:
  "char_of (48::nat) = CHR ''0''" "char_of (49::nat) = CHR ''1''" "char_of (50::nat) = CHR ''2''"
  "char_of (51::nat) = CHR ''3''" "char_of (52::nat) = CHR ''4''" "char_of (53::nat) = CHR ''5''"
  "char_of (54::nat) = CHR ''6''" "char_of (55::nat) = CHR ''7''" "char_of (56::nat) = CHR ''8''"
  "char_of (57::nat) = CHR ''9''"
  by (simp_all add: char_of_def bit_iff_odd)

text \<open>UTF-8 continuation bytes are \<open>0x80..0xBF\<close>; every other byte starts a scalar value.\<close>

definition is_continuation :: "char \<Rightarrow> bool" where
  "is_continuation c \<longleftrightarrow> 128 \<le> byte c \<and> byte c < 192"

definition chars_count :: "string \<Rightarrow> nat" where
  "chars_count s = length (filter (\<lambda>c. \<not> is_continuation c) s)"

fun take_chars :: "nat \<Rightarrow> string \<Rightarrow> string" where
  "take_chars n [] = []"
| "take_chars n (c # s) =
     (if is_continuation c then c # take_chars n s
      else (case n of 0 \<Rightarrow> [] | Suc m \<Rightarrow> c # take_chars m s))"

lemma chars_count_take_chars: "chars_count (take_chars n s) \<le> n"
  by (induction n s rule: take_chars.induct) (auto simp: chars_count_def split: nat.splits)

text \<open>The encodings of the scalar values with the \<open>White_Space\<close> property.\<close>

definition white_space :: "string list" where
  "white_space =
    [[CHR 0x09], [CHR 0x0A], [CHR 0x0B], [CHR 0x0C], [CHR 0x0D], [CHR 0x20],
     [CHR 0xC2, CHR 0x85], [CHR 0xC2, CHR 0xA0], [CHR 0xE1, CHR 0x9A, CHR 0x80],
     [CHR 0xE2, CHR 0x80, CHR 0x80], [CHR 0xE2, CHR 0x80, CHR 0x81],
     [CHR 0xE2, CHR 0x80, CHR 0x82], [CHR 0xE2, CHR 0x80, CHR 0x83],
     [CHR 0xE2, CHR 0x80, CHR 0x84], [CHR 0xE2, CHR 0x80, CHR 0x85],
     [CHR 0xE2, CHR 0x80, CHR 0x86], [CHR 0xE2, CHR 0x80, CHR 0x87],
     [CHR 0xE2, CHR 0x80, CHR 0x88], [CHR 0xE2, CHR 0x80, CHR 0x89],
     [CHR 0xE2, CHR 0x80, CHR 0x8A], [CHR 0xE2, CHR 0x80, CHR 0xA8],
     [CHR 0xE2, CHR 0x80, CHR 0xA9], [CHR 0xE2, CHR 0x80, CHR 0xAF],
     [CHR 0xE2, CHR 0x81, CHR 0x9F], [CHR 0xE3, CHR 0x80, CHR 0x80]]"

fun strip_any :: "string list \<Rightarrow> string \<Rightarrow> string option" where
  "strip_any [] s = None"
| "strip_any (p # ps) s =
     (if p = [] then strip_any ps s
      else (case strip_prefix p s of Some r \<Rightarrow> Some r | None \<Rightarrow> strip_any ps s))"

lemma strip_any_shorter: "strip_any ps s = Some r \<Longrightarrow> length r < length s"
  by (induction ps s rule: strip_any.induct) (auto simp: str_simps split: if_splits option.splits)

function trim_by :: "string list \<Rightarrow> string \<Rightarrow> string" where
  "trim_by ps s = (case strip_any ps s of Some r \<Rightarrow> trim_by ps r | None \<Rightarrow> s)"
  by pat_completeness auto
termination
  by (relation "measure (\<lambda>(ps, s). length s)") (auto dest: strip_any_shorter)

declare trim_by.simps [simp del]

definition trim :: "string \<Rightarrow> string" where
  "trim s = rev (trim_by (map rev white_space) (rev (trim_by white_space s)))"

fun trim_end_matches :: "char \<Rightarrow> string \<Rightarrow> string" where
  "trim_end_matches c s = rev (dropWhile (\<lambda>x. x = c) (rev s))"

lemma length_trim_by: "length (trim_by ps s) \<le> length s"
proof (induction ps s rule: trim_by.induct)
  case (1 ps s)
  show ?case
    using 1 by (subst trim_by.simps) (fastforce split: option.splits dest: strip_any_shorter)
qed

end
