(* ===== verification/Coverage.thy ===== *)
theory Coverage
  imports Prophet_Prelude
begin

text \<open>
  The contract behind delegation. A \<^emph>\<open>coverage\<close> compares two permissions (patterns,
  constraints, grants) and promises that what the covered one accepts, the covering one accepts.
  The client facts, proved once here, lift such a relation to lists of permissions, which is how a
  token carries them.
\<close>

definition covers_all :: "('p \<Rightarrow> 'p \<Rightarrow> bool) \<Rightarrow> 'p list \<Rightarrow> 'p list \<Rightarrow> bool" where
  "covers_all cov parents children \<longleftrightarrow>
     list_all (\<lambda>c. list_ex (\<lambda>p. cov p c) parents) children"

lemma covers_all_iff:
  "covers_all cov ps cs \<longleftrightarrow> (\<forall>c \<in> set cs. \<exists>p \<in> set ps. cov p c)"
  by (auto simp: covers_all_def list_all_iff list_ex_iff)

text \<open>A chain of lists, oldest first, each covered by the one before it.\<close>

fun covers_chain :: "('p \<Rightarrow> 'p \<Rightarrow> bool) \<Rightarrow> 'p list list \<Rightarrow> bool" where
  "covers_chain cov (ps # qs # rest) \<longleftrightarrow> covers_all cov ps qs \<and> covers_chain cov (qs # rest)"
| "covers_chain cov _ \<longleftrightarrow> True"

locale coverage =
  fixes cov :: "'p \<Rightarrow> 'p \<Rightarrow> bool"
    and accepts :: "'p \<Rightarrow> 't \<Rightarrow> bool"
    and wf :: "'p \<Rightarrow> bool"
  assumes cov_refl: "wf p \<Longrightarrow> cov p p"
    and cov_sound: "wf p \<Longrightarrow> wf c \<Longrightarrow> cov p c \<Longrightarrow> accepts c t \<Longrightarrow> accepts p t"
begin

lemma covers_all_refl: "\<forall>p \<in> set ps. wf p \<Longrightarrow> covers_all cov ps ps"
  using cov_refl by (auto simp: covers_all_iff)

lemma covers_all_mono: "set ps \<subseteq> set ps' \<Longrightarrow> covers_all cov ps cs \<Longrightarrow> covers_all cov ps' cs"
  by (auto simp: covers_all_iff) blast

text \<open>What some member of the covered list accepts, some member of the covering list accepts.\<close>

lemma covers_all_sound:
  assumes "covers_all cov ps cs" "\<forall>p \<in> set ps. wf p" "\<forall>c \<in> set cs. wf c"
    and "c \<in> set cs" "accepts c t"
  shows "\<exists>p \<in> set ps. cov p c \<and> accepts p t"
proof -
  from assms(1,4) obtain p where p: "p \<in> set ps" "cov p c"
    by (auto simp: covers_all_iff)
  with assms have "accepts p t"
    by (blast intro: cov_sound)
  with p show ?thesis by blast
qed

end

locale coverage_order = coverage +
  assumes cov_trans: "wf p \<Longrightarrow> wf q \<Longrightarrow> cov p q \<Longrightarrow> cov q r \<Longrightarrow> cov p r"
begin

lemma covers_all_trans:
  assumes "covers_all cov ps qs" "covers_all cov qs rs"
    and "\<forall>p \<in> set ps. wf p" "\<forall>q \<in> set qs. wf q"
  shows "covers_all cov ps rs"
  unfolding covers_all_iff
proof
  fix r assume "r \<in> set rs"
  with assms(2) obtain q where q: "q \<in> set qs" "cov q r"
    by (auto simp: covers_all_iff)
  with assms(1) obtain p where p: "p \<in> set ps" "cov p q"
    by (auto simp: covers_all_iff)
  with q assms(3,4) have "cov p r" by (blast intro: cov_trans)
  with p show "\<exists>p \<in> set ps. cov p r" by blast
qed

lemma chain_head_covers:
  assumes "covers_chain cov (ps # pss)" "\<forall>qs \<in> set (ps # pss). \<forall>q \<in> set qs. wf q" "qs \<in> set (ps # pss)"
  shows "covers_all cov ps qs"
  using assms
proof (induction pss arbitrary: ps)
  case Nil
  then show ?case by (auto intro: covers_all_refl)
next
  case (Cons q pss)
  show ?case
  proof (cases "qs = ps")
    case True
    with Cons.prems(2) show ?thesis by (auto intro: covers_all_refl)
  next
    case False
    with Cons have "covers_all cov q qs" by simp
    with Cons.prems show ?thesis by (auto intro: covers_all_trans)
  qed
qed

end

end
