(* ===== verification/Cap_Pattern.thy ===== *)
theory Cap_Pattern
  imports Coverage
begin

text \<open>
  Grant patterns (\<^verbatim>\<open>crates/prophet-types/src/pattern.rs\<close>), the confined utilities
  (\<^verbatim>\<open>exec.rs\<close>) and the resource and action names (\<^verbatim>\<open>cap.rs\<close>) they depend on:
  validation, the coverage relation between two patterns, and the match of a pattern against a
  concrete target. The main result is that coverage is sound for matching, with the exact side
  condition under which it is.
\<close>

section \<open>Resources and actions\<close>

datatype res = ResFs | ResNet | ResTool | ResProc | ResUi | ResLedger | ResMemory | ResModel
  | ResTask | ResCap

datatype act = ActRead | ActWrite | ActList | ActEgress | ActCall | ActExec | ActAct | ActVision
  | ActReadAll | ActUse | ActSpawn | ActDelegate

definition LEGAL_PAIRS :: "(res \<times> act) list" where
  "LEGAL_PAIRS =
    [(ResFs, ActRead), (ResFs, ActWrite), (ResFs, ActList), (ResNet, ActEgress),
     (ResTool, ActCall), (ResProc, ActExec), (ResUi, ActRead), (ResUi, ActAct),
     (ResUi, ActVision), (ResLedger, ActRead), (ResLedger, ActReadAll), (ResMemory, ActRead),
     (ResMemory, ActWrite), (ResModel, ActUse), (ResTask, ActSpawn), (ResCap, ActDelegate)]"

section \<open>Families and validation\<close>

datatype pattern_error = EmptyPattern | ParentTraversal string | NotAbsolute string
  | DoubleStarNotLast string | BadDomain string | BadName string

datatype family = Path | Domain | Name | Program

fun family_of :: "res \<Rightarrow> family" where
  "family_of ResFs = Path"
| "family_of ResProc = Program"
| "family_of ResNet = Domain"
| "family_of _ = Name"

fun validate_segments :: "string \<Rightarrow> string list \<Rightarrow> pattern_error + unit" where
  "validate_segments pattern [] = Ok ()"
| "validate_segments pattern (seg # rest) =
     (if seg = ''..'' then Err (ParentTraversal pattern)
      else if contains_str ''**'' seg \<and> (seg \<noteq> ''**'' \<or> rest \<noteq> [])
        then Err (DoubleStarNotLast pattern)
      else validate_segments pattern rest)"

definition validate_path :: "string \<Rightarrow> pattern_error + unit" where
  "validate_path pattern =
     (if pattern = ''*'' \<or> pattern = ''**'' then Ok ()
      else if \<not> starts_with ''/'' pattern \<and> \<not> starts_with ''~/'' pattern
        then Err (NotAbsolute pattern)
      else validate_segments pattern (str_split CHR ''/'' pattern))"

definition validate_program :: "string \<Rightarrow> pattern_error + unit" where
  "validate_program pattern =
     (if starts_with ''/'' pattern \<or> starts_with ''~/'' pattern \<or> pattern = ''*''
         \<or> pattern = ''**''
      then validate_path pattern
      else if CHR ''/'' \<in> set pattern
         \<or> \<not> list_all (\<lambda>c. is_ascii_alphanumeric c \<or> c \<in> set ''._-+'') pattern
      then Err (NotAbsolute pattern)
      else Ok ())"

definition split_host_port :: "string \<Rightarrow> string \<times> string option" where
  "split_host_port pattern =
     (case rsplit_once CHR '':'' pattern of
        Some (host, port) \<Rightarrow>
          if port \<noteq> [] \<and> list_all is_ascii_digit port then (host, Some port)
          else (pattern, None)
      | None \<Rightarrow> (pattern, None))"

definition strip_star_dot :: "string \<Rightarrow> string" where
  "strip_star_dot host = (case strip_prefix ''*.'' host of Some r \<Rightarrow> r | None \<Rightarrow> host)"

definition validate_domain :: "string \<Rightarrow> pattern_error + unit" where
  "validate_domain pattern =
     (if pattern = ''*'' then Ok ()
      else case strip_prefix ''driver:'' pattern of
        Some driver \<Rightarrow>
          if driver = [] \<or> \<not> list_all (\<lambda>c. is_ascii_alphanumeric c \<or> c \<in> set ''-_'') driver
          then Err (BadDomain pattern) else Ok ()
      | None \<Rightarrow>
          (let (host, port) = split_host_port pattern;
               bare = strip_star_dot host
           in if (case port of Some p \<Rightarrow> parse_u16 p = None | None \<Rightarrow> False)
              then Err (BadDomain pattern)
              else if bare = [] \<or> starts_with ''.'' bare \<or> ends_with ''.'' bare
                  \<or> contains_str ''..'' bare \<or> CHR ''*'' \<in> set bare
                  \<or> \<not> list_all (\<lambda>c. is_ascii_alphanumeric c \<or> c \<in> set ''.-'') bare
                  \<or> CHR ''.'' \<notin> set bare
              then Err (BadDomain pattern) else Ok ()))"

definition strip_dot_star :: "string \<Rightarrow> string" where
  "strip_dot_star name = (case strip_suffix ''.*'' name of Some r \<Rightarrow> r | None \<Rightarrow> name)"

definition validate_name :: "string \<Rightarrow> pattern_error + unit" where
  "validate_name pattern =
     (if pattern = ''*'' then Ok ()
      else let base = strip_dot_star pattern in
        if base = [] \<or> CHR ''*'' \<in> set base
           \<or> \<not> list_all (\<lambda>c. is_ascii_alphanumeric c \<or> c \<in> set ''._-:'') base
        then Err (BadName pattern) else Ok ())"

definition validate :: "family \<Rightarrow> string \<Rightarrow> pattern_error + unit" where
  "validate family pattern =
     (if pattern = [] then Err EmptyPattern
      else case family of
        Path \<Rightarrow> validate_path pattern
      | Domain \<Rightarrow> validate_domain pattern
      | Name \<Rightarrow> validate_name pattern
      | Program \<Rightarrow> validate_program pattern)"

section \<open>Coverage\<close>

definition path_covers :: "string \<Rightarrow> string \<Rightarrow> bool" where
  "path_covers parent child =
     (if parent = ''**'' \<or> parent = ''*'' then True
      else case strip_suffix ''/**'' parent of
        None \<Rightarrow> False
      | Some pre \<Rightarrow>
          if child = pre then True
          else (case strip_prefix pre child of
            None \<Rightarrow> False
          | Some rest \<Rightarrow> starts_with ''/'' rest))"

fun port_covers :: "string option \<Rightarrow> string option \<Rightarrow> bool" where
  "port_covers None _ = True"
| "port_covers (Some p) (Some c) = (p = c)"
| "port_covers (Some _) None = False"

lemma port_covers_iff: "port_covers p c \<longleftrightarrow> p = None \<or> p = c"
  by (cases p; cases c) auto

definition domain_covers :: "string \<Rightarrow> string \<Rightarrow> bool" where
  "domain_covers parent child =
     (if parent = ''*'' then True
      else if starts_with ''driver:'' parent \<or> starts_with ''driver:'' child then False
      else
        let (p_host, p_port) = split_host_port parent;
            (c_host, c_port) = split_host_port child
        in if \<not> port_covers p_port c_port then False
           else case strip_prefix ''*.'' p_host of
             None \<Rightarrow> p_host = c_host
           | Some p_suffix \<Rightarrow>
               let c_bare = strip_star_dot c_host
               in c_bare = p_suffix \<or> ends_with (''.'' @ p_suffix) c_bare)"

definition name_covers :: "string \<Rightarrow> string \<Rightarrow> bool" where
  "name_covers parent child =
     (if parent = ''*'' then True
      else case strip_suffix ''.*'' parent of
        None \<Rightarrow> False
      | Some p_base \<Rightarrow>
          let c_base = strip_dot_star child
          in c_base = p_base \<or> starts_with (p_base @ ''.'') c_base)"

definition covers :: "family \<Rightarrow> string \<Rightarrow> string \<Rightarrow> bool" where
  "covers family parent child =
     (if parent = child then True
      else case family of
        Path \<Rightarrow> path_covers parent child
      | Domain \<Rightarrow> domain_covers parent child
      | Name \<Rightarrow> name_covers parent child
      | Program \<Rightarrow>
          if starts_with ''/'' parent \<or> parent = ''*'' \<or> parent = ''**''
          then path_covers parent child else False)"

section \<open>Matching a concrete target\<close>

definition expand_home :: "string \<Rightarrow> string \<Rightarrow> string" where
  "expand_home pattern home =
     (case strip_prefix ''~/'' pattern of
        None \<Rightarrow> pattern
      | Some rest \<Rightarrow> trim_end_matches CHR ''/'' home @ ''/'' @ rest)"

definition path_matches :: "string \<Rightarrow> string \<Rightarrow> string \<Rightarrow> bool" where
  "path_matches pattern target home =
     (if pattern = ''*'' \<or> pattern = ''**'' then True
      else let expanded = expand_home pattern home in
        if expanded = target then True
        else case strip_suffix ''/**'' expanded of
          Some pre \<Rightarrow> target = pre \<or> starts_with (pre @ ''/'') target
        | None \<Rightarrow>
            (case strip_suffix ''/*'' expanded of
               Some pre \<Rightarrow>
                 (case strip_prefix (pre @ ''/'') target of
                    Some rest \<Rightarrow> CHR ''/'' \<notin> set rest
                  | None \<Rightarrow> False)
             | None \<Rightarrow> False))"

definition program_matches :: "string \<Rightarrow> string \<Rightarrow> string \<Rightarrow> bool" where
  "program_matches pattern target home =
     (if starts_with ''/'' pattern \<or> starts_with ''~/'' pattern \<or> pattern = ''*''
         \<or> pattern = ''**''
      then path_matches pattern target home
      else pattern = target)"

definition domain_matches :: "string \<Rightarrow> string \<Rightarrow> bool" where
  "domain_matches pattern target =
     (if pattern = ''*'' then True
      else
        let (p_host, p_port) = split_host_port pattern;
            (t_host, t_port) = split_host_port target
        in if p_port \<noteq> None \<and> p_port \<noteq> t_port then False
           else case strip_prefix ''*.'' p_host of
             None \<Rightarrow> p_host = t_host
           | Some suffix \<Rightarrow> t_host = suffix \<or> ends_with (''.'' @ suffix) t_host)"

definition matches :: "family \<Rightarrow> string \<Rightarrow> string \<Rightarrow> string \<Rightarrow> bool" where
  "matches family pattern target home =
     (case family of
        Path \<Rightarrow> path_matches pattern target home
      | Domain \<Rightarrow> domain_matches pattern target
      | Name \<Rightarrow> name_covers pattern target \<or> pattern = target
      | Program \<Rightarrow> program_matches pattern target home)"

section \<open>Confined utilities\<close>

definition SAFE_UTILITIES :: "string list" where
  "SAFE_UTILITIES = [''cat'', ''ls'', ''wc'', ''head'', ''tail'', ''sort'', ''uniq'', ''grep'',
     ''cut'', ''tr'', ''diff'', ''file'']"

definition is_safe_utility :: "string \<Rightarrow> bool" where
  "is_safe_utility program \<longleftrightarrow> CHR ''/'' \<notin> set program \<and> program \<in> set SAFE_UTILITIES"

section \<open>Segments\<close>

lemma str_split_append: "str_split c (a @ c # b) = str_split c a @ str_split c b"
  by (induction a) (auto split: list.splits)

lemma str_split_noocc: "c \<notin> set s \<Longrightarrow> str_split c s = [s]"
  by (induction s) auto

lemma validate_segments_butlast:
  "validate_segments pat segs = Ok () \<Longrightarrow> seg \<in> set (butlast segs) \<Longrightarrow> \<not> contains_str ''**'' seg"
  by (induction pat segs rule: validate_segments.induct) (auto split: if_splits)

text \<open>The last segment of a text decides which one-segment suffixes it has.\<close>

lemma append_slash_eq:
  assumes "a @ CHR ''/'' # q = x @ CHR ''/'' # s" "CHR ''/'' \<notin> set s"
  shows "(x = a \<and> q = s) \<or> (\<exists>y. x = a @ CHR ''/'' # y \<and> q = y @ CHR ''/'' # s)"
proof -
  from assms(1) consider us where "a = x @ us" "us @ CHR ''/'' # q = CHR ''/'' # s"
    | us where "a @ us = x" "CHR ''/'' # q = us @ CHR ''/'' # s"
    by (auto simp: append_eq_append_conv2)
  then show ?thesis
  proof cases
    case 1
    with assms(2) show ?thesis by (cases us) auto
  next
    case 2
    then show ?thesis by (cases us) auto
  qed
qed

lemma ends_with_segment:
  assumes "CHR ''/'' \<notin> set s"
  shows "ends_with (CHR ''/'' # s) (a @ CHR ''/'' # q) \<longleftrightarrow> q = s \<or> ends_with (CHR ''/'' # s) q"
proof
  assume "ends_with (CHR ''/'' # s) (a @ CHR ''/'' # q)"
  then obtain x where "a @ CHR ''/'' # q = x @ CHR ''/'' # s"
    by (auto simp: ends_with_iff)
  from append_slash_eq [OF this assms] show "q = s \<or> ends_with (CHR ''/'' # s) q"
    by (auto simp: ends_with_iff)
qed (auto simp: ends_with_iff)

section \<open>Coverage of paths\<close>

text \<open>The directory a path pattern names, with the home resolved.\<close>

definition home_root :: "string \<Rightarrow> string \<Rightarrow> string" where
  "home_root pre home =
     (if pre = ''~'' then trim_end_matches CHR ''/'' home else expand_home pre home)"

lemma expand_home_tilde: "expand_home (CHR ''~'' # CHR ''/'' # r) home
    = trim_end_matches CHR ''/'' home @ CHR ''/'' # r"
  by (simp add: expand_home_def)

lemma expand_home_other: "\<not> starts_with ''~/'' p \<Longrightarrow> expand_home p home = p"
  by (auto simp: expand_home_def starts_with_def)

lemma expand_home_append:
  "expand_home (pre @ CHR ''/'' # r) home = home_root pre home @ CHR ''/'' # r"
proof (cases "pre = ''~'' \<or> starts_with ''~/'' pre")
  case True
  then show ?thesis
    by (auto simp: home_root_def expand_home_tilde starts_with_iff)
next
  case False
  then have "\<not> starts_with ''~/'' (pre @ CHR ''/'' # r)"
    by (cases pre; cases "tl pre") (auto simp: starts_with_iff)
  with False show ?thesis by (simp add: home_root_def expand_home_other)
qed

lemma home_root_eq: "pre \<noteq> ''~'' \<Longrightarrow> home_root pre home = expand_home pre home"
  by (simp add: home_root_def)

lemma ends_with_home_root:
  assumes "CHR ''/'' \<notin> set s" "pre \<noteq> ''~''" "ends_with (CHR ''/'' # s) (home_root pre home)"
  shows "ends_with (CHR ''/'' # s) pre"
proof (cases "starts_with ''~/'' pre")
  case True
  then obtain r where r: "pre = CHR ''~'' # CHR ''/'' # r" by (auto simp: starts_with_iff)
  with assms show ?thesis
    using ends_with_segment [OF assms(1), of "''~''" r]
    by (simp add: home_root_def expand_home_tilde ends_with_segment)
next
  case False
  with assms show ?thesis by (simp add: home_root_def expand_home_other)
qed

lemma path_matches_tree:
  assumes "pre @ ''/**'' \<noteq> ''**''"
  shows "path_matches (pre @ ''/**'') t home \<longleftrightarrow>
     t = home_root pre home \<or> starts_with (home_root pre home @ ''/'') t"
proof -
  have "expand_home (pre @ ''/**'') home = home_root pre home @ ''/**''"
    using expand_home_append [of pre "''**''"] by simp
  moreover have "pre @ ''/**'' \<noteq> ''*''" by (cases pre) auto
  ultimately show ?thesis
    using assms by (auto simp: path_matches_def Let_def starts_with_iff)
qed

lemma path_matches_cases:
  assumes "path_matches p t home" "p \<noteq> ''*''" "p \<noteq> ''**''"
  obtains (same) "t = expand_home p home"
    | (tree) x where "expand_home p home = x @ ''/**''" "t = x \<or> starts_with (x @ ''/'') t"
    | (children) x r where "expand_home p home = x @ ''/*''" "t = x @ ''/'' @ r"
  using assms
  by (auto simp: path_matches_def Let_def strip_suffix_Some strip_prefix_Some
      split: if_splits option.splits)

lemma path_covers_cases:
  assumes "path_covers p c" "p \<noteq> ''*''" "p \<noteq> ''**''"
  obtains (root) pre where "p = pre @ ''/**''" "c = pre"
    | (under) pre r where "p = pre @ ''/**''" "c = pre @ CHR ''/'' # r"
  using assms
  by (auto simp: path_covers_def strip_suffix_Some strip_prefix_Some starts_with_iff
      split: if_splits option.splits)

text \<open>What lies under a covered subtree lies under the covering one.\<close>

lemma path_matches_under:
  assumes "path_matches (pre @ CHR ''/'' # r) t home" "pre @ CHR ''/'' # r \<noteq> ''*''"
    "pre @ CHR ''/'' # r \<noteq> ''**''"
  shows "t = home_root pre home \<or> starts_with (home_root pre home @ ''/'') t"
  using assms(1,2,3)
proof (cases rule: path_matches_cases)
  case same
  then show ?thesis by (simp add: expand_home_append starts_with_iff)
next
  case (tree x)
  then have "home_root pre home @ CHR ''/'' # r = x @ CHR ''/'' # ''**''"
    by (simp add: expand_home_append)
  from append_slash_eq [OF this] tree(2) show ?thesis
    by (auto simp: starts_with_iff)
next
  case (children x y)
  then have "home_root pre home @ CHR ''/'' # r = x @ CHR ''/'' # ''*''"
    by (simp add: expand_home_append)
  from append_slash_eq [OF this] children(2) show ?thesis
    by (auto simp: starts_with_iff)
qed

lemma validate_path_tree_segments:
  assumes "validate_path (pre @ ''/**'') = Ok ()" "pre @ ''/**'' \<noteq> ''**''"
  shows "\<not> ends_with ''/**'' pre"
proof
  assume "ends_with ''/**'' pre"
  then obtain a where a: "pre = a @ CHR ''/'' # ''**''" by (auto simp: ends_with_iff)
  have split: "str_split CHR ''/'' (pre @ CHR ''/'' # ''**'') = str_split CHR ''/'' a @ [''**'', ''**'']"
    by (simp only: a str_split_append) simp
  have "validate_segments (pre @ CHR ''/'' # ''**'') (str_split CHR ''/'' (pre @ CHR ''/'' # ''**'')) = Ok ()"
    using assms by (auto simp: validate_path_def split: if_splits)
  then have "\<not> contains_str ''**'' ''**''"
    by (rule validate_segments_butlast) (simp only: split, simp add: butlast_append)
  then show False by (simp add: starts_with_def)
qed

lemma path_covers_sound:
  assumes "path_covers p c" "validate_path p = Ok ()" "validate_path c = Ok ()"
    and "\<not> ends_with ''/*/**'' p" "path_matches c t home"
  shows "path_matches p t home"
proof (cases "p = ''*'' \<or> p = ''**''")
  case True
  then show ?thesis by (simp add: path_matches_def)
next
  case False
  then have p: "p \<noteq> ''*''" "p \<noteq> ''**''" by auto
  from assms(1) p show ?thesis
  proof (cases rule: path_covers_cases)
    case (under pre r)
    have "CHR ''/'' \<in> set c" using under(2) by simp
    then have "c \<noteq> ''*''" "c \<noteq> ''**''" by auto
    then have "t = home_root pre home \<or> starts_with (home_root pre home @ ''/'') t"
      using path_matches_under [of pre r t home] assms(5) under(2) by blast
    then show ?thesis using path_matches_tree [of pre t home] p under(1) by blast
  next
    case (root pre)
    have c: "c \<noteq> ''*''" "c \<noteq> ''**''"
      using assms(2) root p by (auto simp: validate_path_def starts_with_iff split: if_splits)
    with assms(3) root(2) have "pre \<noteq> ''~''"
      by (auto simp: validate_path_def starts_with_iff split: if_splits)
    note e = home_root_eq [OF this]
    have nt: "\<not> ends_with ''/**'' pre"
      using validate_path_tree_segments assms(2) p root(1) by blast
    have nc: "\<not> ends_with ''/*'' pre"
      using assms(4) root(1) by (auto simp: ends_with_iff)
    from assms(5) c have "t = expand_home pre home"
    proof (cases rule: path_matches_cases)
      case (tree x)
      then have "ends_with (CHR ''/'' # ''**'') (home_root pre home)"
        by (simp add: e root(2) ends_with_iff)
      with nt \<open>pre \<noteq> ''~''\<close> show ?thesis
        using ends_with_home_root [of "''**''" pre home] by simp
    next
      case (children x r)
      then have "ends_with (CHR ''/'' # ''*'') (home_root pre home)"
        by (simp add: e root(2) ends_with_iff)
      with nc \<open>pre \<noteq> ''~''\<close> show ?thesis
        using ends_with_home_root [of "''*''" pre home] by simp
    qed (simp add: root(2))
    then show ?thesis using path_matches_tree [of pre t home] p root(1) e by simp
  qed
qed

section \<open>Coverage of programs, names and domains\<close>

lemma program_covers_sound:
  assumes "covers Program p c" "p \<noteq> c" "validate Program p = Ok ()" "validate Program c = Ok ()"
    and "\<not> ends_with ''/*/**'' p" "program_matches c t home"
  shows "program_matches p t home"
proof -
  from assms(1,2) have p: "starts_with ''/'' p \<or> p = ''*'' \<or> p = ''**''" and pc: "path_covers p c"
    by (auto simp: covers_def split: if_splits)
  show ?thesis
  proof (cases "p = ''*'' \<or> p = ''**''")
    case True
    then show ?thesis by (auto simp: program_matches_def path_matches_def)
  next
    case False
    with p have sp: "starts_with ''/'' p" by blast
    from False have "p \<noteq> ''*''" "p \<noteq> ''**''" by auto
    with pc have "starts_with ''/'' c \<or> c = []"
      by (cases rule: path_covers_cases) (use sp in \<open>auto simp: starts_with_iff append_eq_Cons_conv\<close>)
    with assms(4) have sc: "starts_with ''/'' c" by (auto simp: validate_def)
    with sp assms(3,4) have "validate_path p = Ok ()" "validate_path c = Ok ()"
      by (auto simp: validate_def validate_program_def split: if_splits)
    moreover from sc assms(6) have "path_matches c t home" by (simp add: program_matches_def)
    ultimately have "path_matches p t home" using path_covers_sound pc assms(5) by blast
    with sp show ?thesis by (simp add: program_matches_def)
  qed
qed

lemma name_covers_cases:
  assumes "name_covers p c" "p \<noteq> ''*''"
  obtains b where "p = b @ ''.*''" "strip_dot_star c = b \<or> starts_with (b @ ''.'') (strip_dot_star c)"
  using assms by (auto simp: name_covers_def strip_suffix_Some Let_def split: if_splits option.splits)

lemma name_covers_base: "name_covers (b @ ''.*'') c \<longleftrightarrow>
    strip_dot_star c = b \<or> starts_with (b @ ''.'') (strip_dot_star c)"
proof -
  have "b @ ''.*'' \<noteq> ''*''" by (cases b) auto
  then show ?thesis by (simp add: name_covers_def Let_def del: append_Cons)
qed

lemma strip_dot_star_append [simp]: "strip_dot_star (b @ ''.*'') = b"
  by (simp add: strip_dot_star_def)

lemma validate_name_star: "validate_name (b @ ''.*'') = Ok () \<Longrightarrow> CHR ''*'' \<notin> set b \<and> b \<noteq> []"
  by (auto simp: validate_name_def Let_def split: if_splits)

text \<open>A valid name pattern covers transitively, a concrete name being a pattern too.\<close>

lemma name_covers_trans:
  assumes "name_covers p q" "name_covers q c" "validate_name p = Ok ()"
  shows "name_covers p c"
proof (cases "p = ''*''")
  case True
  then show ?thesis by (simp add: name_covers_def)
next
  case False
  with assms(1) obtain b where b: "p = b @ ''.*''"
      "strip_dot_star q = b \<or> starts_with (b @ ''.'') (strip_dot_star q)"
    by (rule name_covers_cases)
  from validate_name_star assms(3) b(1) have nb: "CHR ''*'' \<notin> set b" "b \<noteq> []" by auto
  have "q \<noteq> ''*''"
  proof
    assume q: "q = ''*''"
    then have "strip_dot_star q = ''*''" by (simp add: strip_dot_star_def strip_suffix_def)
    with b(2) nb show False by (auto simp: starts_with_iff Cons_eq_append_conv)
  qed
  with assms(2) obtain d where d: "q = d @ ''.*''"
      "strip_dot_star c = d \<or> starts_with (d @ ''.'') (strip_dot_star c)"
    by (rule name_covers_cases)
  with b(2) have "d = b \<or> starts_with (b @ ''.'') d" by simp
  with d(2) have "strip_dot_star c = b \<or> starts_with (b @ ''.'') (strip_dot_star c)"
    by (auto simp: starts_with_iff)
  with b(1) show ?thesis by (simp add: name_covers_base)
qed

lemma domain_covers_cases:
  assumes "domain_covers p c" "p \<noteq> ''*''"
  obtains ph pp ch cp where "split_host_port p = (ph, pp)" "split_host_port c = (ch, cp)"
    "pp = None \<or> pp = cp"
    "(\<exists>s. ph = ''*.'' @ s \<and> (strip_star_dot ch = s \<or> ends_with (''.'' @ s) (strip_star_dot ch)))
     \<or> (\<not> starts_with ''*.'' ph \<and> ph = ch)"
proof -
  obtain ph pp ch cp where *: "split_host_port p = (ph, pp)" "split_host_port c = (ch, cp)"
    by (metis surj_pair)
  with assms show ?thesis
    by (intro that [OF *])
      (auto simp: domain_covers_def starts_with_def strip_prefix_Some Let_def port_covers_iff
        split: if_splits option.splits)
qed

lemma domain_matches_iff:
  assumes "split_host_port p = (ph, pp)" "p \<noteq> ''*''" "split_host_port t = (th, tp)"
  shows "domain_matches p t \<longleftrightarrow> (pp = None \<or> pp = tp) \<and>
    ((\<exists>s. ph = ''*.'' @ s \<and> (th = s \<or> ends_with (''.'' @ s) th))
     \<or> (\<not> starts_with ''*.'' ph \<and> ph = th))"
  using assms
  by (auto simp: domain_matches_def starts_with_def strip_prefix_Some split: if_splits option.splits)

lemma valid_domain_bare:
  assumes "validate_domain p = Ok ()" "p \<noteq> ''*''" "\<not> starts_with ''driver:'' p"
    "split_host_port p = (ph, pp)"
  shows "CHR ''*'' \<notin> set (strip_star_dot ph)"
  using assms by (auto simp: validate_domain_def starts_with_def Let_def split: if_splits option.splits)

lemma strip_star_dot_star [simp]: "strip_star_dot (CHR ''*'' # CHR ''.'' # s) = s"
  by (simp add: strip_star_dot_def)

lemma strip_star_dot_other: "\<not> starts_with ''*.'' h \<Longrightarrow> strip_star_dot h = h"
  by (auto simp: strip_star_dot_def starts_with_def)

lemma strip_star_dot_cases: "(\<exists>s. h = ''*.'' @ s \<and> strip_star_dot h = s)
    \<or> (\<not> starts_with ''*.'' h \<and> strip_star_dot h = h)"
  by (cases "starts_with ''*.'' h") (auto simp: starts_with_iff strip_star_dot_other)

lemma split_host_port_star [simp]: "split_host_port ''*'' = (''*'', None)"
  by (simp add: split_host_port_def rsplit_once_def)

lemma domain_covers_not_star:
  assumes "domain_covers p ''*''" "validate_domain p = Ok ()"
  shows "p = ''*''"
proof (rule ccontr)
  assume p: "p \<noteq> ''*''"
  then have nd: "\<not> starts_with ''driver:'' p"
    using assms(1) by (auto simp: domain_covers_def)
  from assms(1) p obtain ph pp where ph: "split_host_port p = (ph, pp)" "pp = None"
    "(\<exists>s. ph = ''*.'' @ s \<and> (''*'' = s \<or> ends_with (''.'' @ s) ''*'')) \<or> ph = ''*''"
    by (rule domain_covers_cases) (auto simp: strip_star_dot_def)
  from valid_domain_bare [OF assms(2) p nd ph(1)] ph(3) show False
    by (auto simp: ends_with_iff append_eq_Cons_conv strip_star_dot_def Cons_eq_append_conv)
qed

lemma domain_covers_sound:
  assumes "domain_covers p c" "validate_domain p = Ok ()" "domain_matches c t"
  shows "domain_matches p t"
proof (cases "p = ''*'' \<or> c = ''*''")
  case True
  then show ?thesis
    using assms domain_covers_not_star by (auto simp: domain_matches_def)
next
  case False
  then have ne: "p \<noteq> ''*''" "c \<noteq> ''*''" by auto
  obtain th tp where t: "split_host_port t = (th, tp)" by fastforce
  from assms(1) ne(1) show ?thesis
  proof (rule domain_covers_cases)
    fix ph pp ch cp
    assume p: "split_host_port p = (ph, pp)" and c: "split_host_port c = (ch, cp)"
      and port: "pp = None \<or> pp = cp"
      and host: "(\<exists>s. ph = ''*.'' @ s \<and>
          (strip_star_dot ch = s \<or> ends_with (''.'' @ s) (strip_star_dot ch)))
        \<or> (\<not> starts_with ''*.'' ph \<and> ph = ch)"
    from assms(3) have m: "cp = None \<or> cp = tp"
      "(\<exists>s. ch = ''*.'' @ s \<and> (th = s \<or> ends_with (''.'' @ s) th))
        \<or> (\<not> starts_with ''*.'' ch \<and> ch = th)"
      using domain_matches_iff [OF c ne(2) t] by blast+
    have th: "th = strip_star_dot ch \<or> ends_with (''.'' @ strip_star_dot ch) th"
      using m(2) by (auto simp: strip_star_dot_other)
    have "(\<exists>s. ph = ''*.'' @ s \<and> (th = s \<or> ends_with (''.'' @ s) th))
        \<or> (\<not> starts_with ''*.'' ph \<and> ph = th)"
      using host
    proof (elim disjE exE conjE)
      fix s assume s: "ph = ''*.'' @ s" "strip_star_dot ch = s"
      with th show ?thesis by auto
    next
      fix s assume s: "ph = ''*.'' @ s" "ends_with (''.'' @ s) (strip_star_dot ch)"
      with th have "ends_with (''.'' @ s) th" by (auto simp: ends_with_iff)
      with s show ?thesis by blast
    next
      assume "\<not> starts_with ''*.'' ph" "ph = ch"
      with m(2) show ?thesis by (auto simp: starts_with_iff)
    qed
    moreover have "pp = None \<or> pp = tp" using port m(1) by auto
    ultimately show ?thesis using domain_matches_iff [OF p ne(1) t] by blast
  qed
qed

section \<open>Transitivity\<close>

lemma path_coversI: "p = pre @ ''/**'' \<Longrightarrow> c = pre \<or> (\<exists>r. c = pre @ CHR ''/'' # r) \<Longrightarrow> path_covers p c"
  by (auto simp: path_covers_def starts_with_iff)

lemma path_covers_trans:
  assumes "path_covers p q" "path_covers q r" "validate_path p = Ok ()"
  shows "path_covers p r"
proof (cases "p = ''*'' \<or> p = ''**''")
  case True
  then show ?thesis by (auto simp: path_covers_def)
next
  case False
  then have p: "p \<noteq> ''*''" "p \<noteq> ''**''" by auto
  with assms(3) have abs: "starts_with ''/'' p \<or> starts_with ''~/'' p"
    by (auto simp: validate_path_def split: if_splits)
  from assms(1) p obtain pre where pre: "p = pre @ ''/**''" "q = pre \<or> (\<exists>s. q = pre @ CHR ''/'' # s)"
    by (rule path_covers_cases) auto
  have "q \<noteq> ''*'' \<and> q \<noteq> ''**''"
    using pre(2)
  proof
    assume "q = pre"
    with pre(1) abs show ?thesis by (auto simp: starts_with_iff)
  next
    assume "\<exists>s. q = pre @ CHR ''/'' # s"
    then have "CHR ''/'' \<in> set q" by auto
    then show ?thesis by auto
  qed
  then obtain pq where pq: "q = pq @ ''/**''" "r = pq \<or> (\<exists>s. r = pq @ CHR ''/'' # s)"
    using path_covers_cases [OF assms(2)] by metis
  have nt: "\<not> ends_with ''/**'' pre"
    using validate_path_tree_segments assms(3) pre(1) p by blast
  have "pq = pre \<or> (\<exists>y. pq = pre @ CHR ''/'' # y)"
    using pre(2)
  proof
    assume "q = pre"
    with nt pq(1) show ?thesis by (auto simp: ends_with_iff)
  next
    assume "\<exists>s. q = pre @ CHR ''/'' # s"
    then obtain s where "pre @ CHR ''/'' # s = pq @ CHR ''/'' # ''**''" using pq(1) by auto
    from append_slash_eq [OF this] show ?thesis by auto
  qed
  with pq(2) have "r = pre \<or> (\<exists>s. r = pre @ CHR ''/'' # s)" by auto
  with pre(1) show ?thesis by (rule path_coversI)
qed

lemma domain_covers_iff:
  assumes "split_host_port p = (ph, pp)" "split_host_port c = (ch, cp)" "p \<noteq> ''*''"
  shows "domain_covers p c \<longleftrightarrow> \<not> starts_with ''driver:'' p \<and> \<not> starts_with ''driver:'' c
    \<and> (pp = None \<or> pp = cp)
    \<and> ((\<exists>s. ph = ''*.'' @ s \<and> (strip_star_dot ch = s \<or> ends_with (''.'' @ s) (strip_star_dot ch)))
       \<or> (\<not> starts_with ''*.'' ph \<and> ph = ch))"
proof (cases "strip_prefix ''*.'' ph")
  case None
  then have "\<not> starts_with ''*.'' ph" by (simp add: starts_with_def)
  moreover from this have "\<nexists>s. ph = ''*.'' @ s" by (auto simp: starts_with_iff)
  ultimately show ?thesis
    using assms None by (simp add: domain_covers_def port_covers_iff)
next
  case (Some s)
  then have ph: "ph = ''*.'' @ s" by (simp add: strip_prefix_Some)
  then have "starts_with ''*.'' ph" by (simp add: starts_with_def)
  moreover have "(\<exists>s'. ph = ''*.'' @ s' \<and> P s') \<longleftrightarrow> P s" for P
    using ph by auto
  ultimately show ?thesis
    using assms(3) Some
    by (simp only: domain_covers_def assms(1,2) prod.case Let_def option.case port_covers_iff
        if_False not_True_eq_False simp_thms) (simp only: if_bool_eq_conj, blast)
qed

lemma domain_covers_trans:
  assumes "domain_covers p q" "domain_covers q r" "validate_domain p = Ok ()"
  shows "domain_covers p r"
proof (cases "p = ''*'' \<or> q = ''*''")
  case True
  then have "p = ''*''" using assms(1,3) domain_covers_not_star by blast
  then show ?thesis by (simp add: domain_covers_def)
next
  case False
  obtain ph pp qh qp rh rp where sp: "split_host_port p = (ph, pp)" "split_host_port q = (qh, qp)"
    "split_host_port r = (rh, rp)" by fastforce
  from False have ne: "p \<noteq> ''*''" "q \<noteq> ''*''" by auto
  have pq: "\<not> starts_with ''driver:'' p" "pp = None \<or> pp = qp"
    "(\<exists>s. ph = ''*.'' @ s \<and> (strip_star_dot qh = s \<or> ends_with (''.'' @ s) (strip_star_dot qh)))
       \<or> (\<not> starts_with ''*.'' ph \<and> ph = qh)"
    using assms(1) domain_covers_iff [OF sp(1,2) ne(1)] by blast+
  have qr: "\<not> starts_with ''driver:'' r" "qp = None \<or> qp = rp"
    "(\<exists>s. qh = ''*.'' @ s \<and> (strip_star_dot rh = s \<or> ends_with (''.'' @ s) (strip_star_dot rh)))
       \<or> (\<not> starts_with ''*.'' qh \<and> qh = rh)"
    using assms(2) domain_covers_iff [OF sp(2,3) ne(2)] by blast+
  from qr(3) have qh: "strip_star_dot rh = strip_star_dot qh
      \<or> ends_with (''.'' @ strip_star_dot qh) (strip_star_dot rh)"
    by (auto simp: strip_star_dot_other)
  have "(\<exists>s. ph = ''*.'' @ s \<and> (strip_star_dot rh = s \<or> ends_with (''.'' @ s) (strip_star_dot rh)))
       \<or> (\<not> starts_with ''*.'' ph \<and> ph = rh)"
    using pq(3)
  proof (elim disjE exE conjE)
    fix s assume s: "ph = ''*.'' @ s" "strip_star_dot qh = s"
    with qh show ?thesis by auto
  next
    fix s assume s: "ph = ''*.'' @ s" "ends_with (''.'' @ s) (strip_star_dot qh)"
    with qh have "ends_with (''.'' @ s) (strip_star_dot rh)" by (auto simp: ends_with_iff)
    with s show ?thesis by blast
  next
    assume "\<not> starts_with ''*.'' ph" "ph = qh"
    with qr(3) show ?thesis by (auto simp: starts_with_iff)
  qed
  moreover have "pp = None \<or> pp = rp" using pq(2) qr(2) by auto
  ultimately show ?thesis
    using domain_covers_iff [OF sp(1,3) ne(1)] pq(1) qr(1) by blast
qed

section \<open>The coverage contract\<close>

text \<open>
  A pattern is \<^emph>\<open>well scoped\<close> when it is valid and, for a path, does not end in \<open>/*/**\<close>: that
  form covers the text of its own prefix \<open>p/*\<close>, whose star then matches more than it does.
\<close>

definition well_scoped :: "family \<Rightarrow> string \<Rightarrow> bool" where
  "well_scoped family p \<longleftrightarrow> validate family p = Ok ()
     \<and> (family = Path \<or> family = Program \<longrightarrow> \<not> ends_with ''/*/**'' p)"

lemma covers_refl: "covers f p p"
  by (simp add: covers_def)

lemma covers_trans:
  assumes "validate f p = Ok ()" "covers f p q" "covers f q r"
  shows "covers f p r"
proof (cases "p = q \<or> q = r")
  case True
  with assms show ?thesis by auto
next
  case False
  show ?thesis
  proof (cases f)
    case Path
    with assms False path_covers_trans show ?thesis
      by (auto simp: covers_def validate_def split: if_splits)
  next
    case Domain
    with assms False domain_covers_trans show ?thesis
      by (auto simp: covers_def validate_def split: if_splits)
  next
    case Name
    with assms False name_covers_trans show ?thesis
      by (auto simp: covers_def validate_def split: if_splits)
  next
    case Program
    with assms False have p: "starts_with ''/'' p \<or> p = ''*'' \<or> p = ''**''"
      "path_covers p q" "path_covers q r"
      by (auto simp: covers_def split: if_splits)
    then have "validate_path p = Ok ()"
      using assms(1) Program by (auto simp: validate_def validate_program_def split: if_splits)
    with p have "path_covers p r" by (blast intro: path_covers_trans)
    with p(1) Program show ?thesis by (simp add: covers_def)
  qed
qed

lemma covers_sound_aux:
  assumes "well_scoped f p" "validate f c = Ok ()" "covers f p c" "matches f c t home"
  shows "matches f p t home"
proof (cases "p = c")
  case True
  with assms show ?thesis by simp
next
  case False
  show ?thesis
  proof (cases f)
    case Path
    with assms False path_covers_sound show ?thesis
      by (auto simp: covers_def validate_def matches_def well_scoped_def split: if_splits)
  next
    case Domain
    with assms False domain_covers_sound show ?thesis
      by (auto simp: covers_def validate_def matches_def well_scoped_def split: if_splits)
  next
    case Name
    with assms False name_covers_trans show ?thesis
      by (auto simp: covers_def validate_def matches_def well_scoped_def split: if_splits)
  next
    case Program
    with assms False program_covers_sound [of p c t home] show ?thesis
      by (auto simp: matches_def well_scoped_def)
  qed
qed

text \<open>Every family of patterns is a coverage, and the coverage is a preorder.\<close>

interpretation pattern: coverage_order "covers f" "\<lambda>p (t, home). matches f p t home" "well_scoped f"
  for f
proof unfold_locales
  fix p c :: string and t :: "string \<times> string"
  assume "well_scoped f p" "well_scoped f c" "covers f p c" "case t of (t, home) \<Rightarrow> matches f c t home"
  then show "case t of (t, home) \<Rightarrow> matches f p t home"
    by (cases t) (auto simp: well_scoped_def intro: covers_sound_aux)
next
  fix p q r :: string
  assume "well_scoped f p" "covers f p q" "covers f q r"
  then show "covers f p r" by (auto simp: well_scoped_def intro: covers_trans)
qed (simp add: covers_refl)

section \<open>Properties\<close>

text \<open>
  C1. Coverage is sound: whatever a valid child pattern accepts, a well-scoped parent that covers
  it accepts too, for each of the four families and any home directory. This is what makes a
  delegation unable to reach a target its parent could not.
\<close>

theorem covers_sound:
  assumes "well_scoped f p" "validate f c = Ok ()" "covers f p c" "matches f c t home"
  shows "matches f p t home"
  using assms by (rule covers_sound_aux)

theorem covers_sound_witness:
  "matches Path ''~/ventes/**'' ''/home/u/ventes/out/r.pdf'' ''/home/u''"
proof (rule covers_sound [of Path _ "''~/ventes/out/**''"])
  show "well_scoped Path ''~/ventes/**''" by code_simp
  show "validate Path ''~/ventes/out/**'' = Ok ()" by code_simp
  show "covers Path ''~/ventes/**'' ''~/ventes/out/**''" by code_simp
  show "matches Path ''~/ventes/out/**'' ''/home/u/ventes/out/r.pdf'' ''/home/u''" by code_simp
qed

text \<open>
  The side condition of the soundness is needed: for any directory \<open>/d\<close> and any name in it,
  \<open>/d/*/**\<close> and \<open>/d/*\<close> are both valid, the first covers the second, the second accepts
  \<open>/d/name\<close> and the first does not. A delegation from the one to the other gains rights.
\<close>

theorem covers_unsound_star_tree:
  assumes "d \<noteq> []" "name \<noteq> []" "name \<noteq> ''*''" "list_all is_ascii_alphanumeric d"
    "list_all is_ascii_alphanumeric name"
  shows "validate Path (''/'' @ d @ ''/*/**'') = Ok () \<and> validate Path (''/'' @ d @ ''/*'') = Ok ()
    \<and> covers Path (''/'' @ d @ ''/*/**'') (''/'' @ d @ ''/*'')
    \<and> matches Path (''/'' @ d @ ''/*'') (''/'' @ d @ ''/'' @ name) home
    \<and> \<not> matches Path (''/'' @ d @ ''/*/**'') (''/'' @ d @ ''/'' @ name) home"
proof (intro conjI)
  have nd: "c \<notin> set s" if "list_all is_ascii_alphanumeric s" "\<not> is_ascii_alphanumeric c" for c s
    using that by (auto simp: list_all_iff)
  have na: "\<not> is_ascii_alphanumeric CHR ''/''" "\<not> is_ascii_alphanumeric CHR ''*''"
    "\<not> is_ascii_alphanumeric CHR ''.''" by code_simp+
  note d = nd [OF assms(4) na(1)] nd [OF assms(4) na(2)] nd [OF assms(4) na(3)]
  note name = nd [OF assms(5) na(1)] nd [OF assms(5) na(2)]
  have seg: "\<not> contains_str ''**'' d" "d \<noteq> ''..''"
    using d by (auto simp: contains_str_iff)
  have sp: "str_split CHR ''/'' (d @ CHR ''/'' # r) = d # str_split CHR ''/'' r" for r
    using str_split_append [of "CHR ''/''" d r] d(1) by (simp add: str_split_noocc)
  show "validate Path (''/'' @ d @ ''/*/**'') = Ok ()" "validate Path (''/'' @ d @ ''/*'') = Ok ()"
    using seg by (auto simp: validate_def validate_path_def starts_with_def sp)
  show "covers Path (''/'' @ d @ ''/*/**'') (''/'' @ d @ ''/*'')"
    using strip_suffix_append [of "''/**''" "''/'' @ d @ ''/*''"]
    by (simp add: covers_def path_covers_def)
  have e: "expand_home (CHR ''/'' # x) home = CHR ''/'' # x" for x
    by (simp add: expand_home_def)
  have "\<not> ends_with ''/**'' (''/'' @ d @ ''/*'')"
    using ends_with_segment [of "''**''" "''/'' @ d" "''*''"] by (simp add: ends_with_def strip_suffix_def)
  then have "strip_suffix ''/**'' (''/'' @ d @ ''/*'') = None" by (simp add: ends_with_def)
  then show "matches Path (''/'' @ d @ ''/*'') (''/'' @ d @ ''/'' @ name) home"
    using strip_suffix_append [of "''/*''" "''/'' @ d"] strip_prefix_append [of "''/'' @ d @ ''/''" name]
      name by (simp add: matches_def path_matches_def e)
  have t: "\<not> starts_with (''/'' @ d @ ''/*/'') (''/'' @ d @ ''/'' @ name)"
    using name by (auto simp: starts_with_iff)
  have "expand_home (''/'' @ d @ ''/*'') home = ''/'' @ d @ ''/*''" by (simp add: e)
  then have h: "home_root (''/'' @ d @ ''/*'') home = ''/'' @ d @ ''/*''"
    by (simp add: home_root_def)
  show "\<not> matches Path (''/'' @ d @ ''/*/**'') (''/'' @ d @ ''/'' @ name) home"
    using path_matches_tree [of "''/'' @ d @ ''/*''" "''/'' @ d @ ''/'' @ name" home] t h assms(3)
    by (simp add: matches_def)
qed

theorem covers_unsound_star_tree_witness:
  "covers Path ''/srv/*/**'' ''/srv/*'' \<and> matches Path ''/srv/*'' ''/srv/secret'' ''/home/u''
    \<and> \<not> matches Path ''/srv/*/**'' ''/srv/secret'' ''/home/u''"
proof -
  have "list_all is_ascii_alphanumeric ''srv''" "list_all is_ascii_alphanumeric ''secret''"
    by code_simp+
  then show ?thesis
    using covers_unsound_star_tree [of "''srv''" "''secret''" "''/home/u''"] by simp
qed

text \<open>
  Coverage is a preorder on the valid patterns of a family: a pattern covers itself, and a
  chain of coverages from a valid pattern collapses to one, so re-delegating cannot widen.
\<close>

theorem covers_preorder:
  assumes "validate f p = Ok ()"
  shows "covers f p p \<and> (covers f p q \<and> covers f q r \<longrightarrow> covers f p r)"
  using assms covers_refl covers_trans by blast

theorem covers_preorder_witness: "covers Name ''fs.*'' ''fs.read.text''"
proof -
  have "validate Name ''fs.*'' = Ok ()" "covers Name ''fs.*'' ''fs.read.*''"
    "covers Name ''fs.read.*'' ''fs.read.text''" by code_simp+
  then show ?thesis using covers_preorder [of Name "''fs.*''" "''fs.read.*''" "''fs.read.text''"] by blast
qed

end
