(* ===== verification/Canon.thy ===== *)
theory Canon
  imports Prophet_Prelude
begin

text \<open>
  Canonical serialisation (\<^verbatim>\<open>crates/prophet-types/src/canon.rs\<close>): the only bytes that are signed
  or hashed. A \<open>serde_json::Value\<close> is \<open>json\<close>, with objects in insertion order (the
  \<open>preserve_order\<close> feature) and a float kept as its text. Turning a value into text and the
  \<open>blake3\<close> hash are third-party code: the parameters \<open>to_vec\<close> and \<open>blake3_hex\<close>.
\<close>

section \<open>JSON values\<close>

datatype json = JNull | JBool bool | JInt int | JFloat string | JStr string
  | JArr "json list" | JObj "(string \<times> json) list"

fun field :: "string \<Rightarrow> json \<Rightarrow> json option" where
  "field k (JObj m) = map_of m k"
| "field k _ = None"

text \<open>The accessors of \<open>serde_json::Value\<close>, after a lookup.\<close>

fun as_str :: "json option \<Rightarrow> string option" where
  "as_str (Some (JStr s)) = Some s"
| "as_str _ = None"

fun as_u64 :: "json option \<Rightarrow> nat option" where
  "as_u64 (Some (JInt i)) = (if 0 \<le> i \<and> i < 18446744073709551616 then Some (nat i) else None)"
| "as_u64 _ = None"

fun as_bool :: "json option \<Rightarrow> bool option" where
  "as_bool (Some (JBool b)) = Some b"
| "as_bool _ = None"

text \<open>Objects come from a map, so no key occurs twice, at any depth.\<close>

fun json_wf :: "json \<Rightarrow> bool" where
  "json_wf (JArr js) = list_all json_wf js"
| "json_wf (JObj m) = (distinct_keys m \<and> list_all (\<lambda>(k, j). json_wf j) m)"
| "json_wf _ = True"

section \<open>The canonical form\<close>

datatype canon_error = CanonJson string | NotAnObject

text \<open>The loop of \<open>sort_value\<close>: each key in turn is removed from the old map, added to the new.\<close>

fun drain_keys :: "string list \<Rightarrow> (string, 'a) amap \<Rightarrow> (string, 'a) amap" where
  "drain_keys [] m = []"
| "drain_keys (k # ks) m =
     (case map_of m k of
        Some v \<Rightarrow> (k, v) # drain_keys ks (AList.delete k m)
      | None \<Rightarrow> drain_keys ks m)"

fun sort_value :: "json \<Rightarrow> json" where
  "sort_value (JObj m) =
     JObj (drain_keys (sort (map fst m)) (map (\<lambda>(k, v). (k, sort_value v)) m))"
| "sort_value (JArr items) = JArr (map sort_value items)"
| "sort_value JNull = JNull"
| "sort_value (JBool b) = JBool b"
| "sort_value (JInt n) = JInt n"
| "sort_value (JFloat x) = JFloat x"
| "sort_value (JStr s) = JStr s"

definition remove_keys :: "string list \<Rightarrow> (string, json) amap \<Rightarrow> (string, json) amap" where
  "remove_keys skip m = foldl (\<lambda>m k. AList.delete k m) m skip"

definition canonical_value :: "json \<Rightarrow> string list \<Rightarrow> canon_error + json" where
  "canonical_value v skip =
     (if skip = [] then Ok (sort_value v)
      else case v of JObj m \<Rightarrow> Ok (sort_value (JObj (remove_keys skip m)))
           | _ \<Rightarrow> Err NotAnObject)"

text \<open>The first argument is \<open>serde_json::to_value\<close> of the value, which may fail.\<close>

definition to_canonical_bytes ::
    "(json \<Rightarrow> string) \<Rightarrow> string + json \<Rightarrow> string list \<Rightarrow> canon_error + string" where
  "to_canonical_bytes to_vec value skip =
     (case value of
        Inl e \<Rightarrow> Err (CanonJson e)
      | Inr v \<Rightarrow>
          (case canonical_value v skip of Inl e \<Rightarrow> Err e | Inr s \<Rightarrow> Ok (to_vec s)))"

definition canonical_hash ::
    "(json \<Rightarrow> string) \<Rightarrow> (string \<Rightarrow> string) \<Rightarrow> string + json \<Rightarrow> string list \<Rightarrow> canon_error + string"
where
  "canonical_hash to_vec blake3_hex value skip =
     (case to_canonical_bytes to_vec value skip of
        Inl e \<Rightarrow> Err e
      | Inr bytes \<Rightarrow> Ok (''blake3:'' @ blake3_hex bytes))"

section \<open>What the canonical form keeps\<close>

lemma map_of_drain_keys:
  "map_of (drain_keys ks m) k = (if k \<in> set ks then map_of m k else None)"
  by (induction ks m rule: drain_keys.induct) (auto split: option.splits)

lemma keys_drain_keys:
  "distinct ks \<Longrightarrow> set ks \<subseteq> fst ` set m \<Longrightarrow> map fst (drain_keys ks m) = ks"
proof (induction ks m rule: drain_keys.induct)
  case (2 k ks m)
  then have "k \<in> fst ` set m" by auto
  then obtain v where "map_of m k = Some v"
    by (metis map_of_eq_None_iff not_None_eq)
  moreover have "set ks \<subseteq> fst ` set (AList.delete k m)"
    using 2(3,4) by (subst set_map [symmetric], subst AList.delete_keys) auto
  ultimately show ?case using 2 by auto
qed simp

lemma map_of_map_snd: "map_of (map (\<lambda>(k, v). (k, f v)) m) k = map_option f (map_of m k)"
  by (induction m) auto

lemma fst_map_snd [simp]: "map fst (map (\<lambda>(k, v). (k, f v)) m) = map fst m"
  by (simp add: case_prod_beta comp_def)

lemma field_sort_value [simp]: "field k (sort_value j) = map_option sort_value (field k j)"
proof (cases j)
  case (JObj m)
  have "k \<in> fst ` set m \<or> map_of m k = None"
    by (simp add: map_of_eq_None_iff)
  then show ?thesis by (auto simp: JObj map_of_drain_keys map_of_map_snd)
qed simp_all

lemma map_of_remove_keys:
  "map_of (remove_keys skip m) k = (if k \<in> set skip then None else map_of m k)"
  unfolding remove_keys_def
  by (induction skip arbitrary: m) auto

lemma distinct_keys_remove_keys [simp]: "distinct_keys m \<Longrightarrow> distinct_keys (remove_keys skip m)"
  unfolding remove_keys_def by (induction skip arbitrary: m) auto

lemma sort_value_keys_sorted:
  assumes "distinct_keys m" "sort_value (JObj m) = JObj m'"
  shows "sorted (map fst m') \<and> distinct_keys m'"
proof -
  from assms(2) have m': "m' = drain_keys (sort (map fst m)) (map (\<lambda>(k, v). (k, sort_value v)) m)"
    by simp
  from assms(1) have "map fst m' = sort (map fst m)"
    unfolding m' distinct_keys_def by (intro keys_drain_keys) force+
  with assms(1) show ?thesis by (simp add: distinct_keys_def)
qed

text \<open>Sorted distinct association lists are determined by their lookups.\<close>

lemma sorted_keys_unique:
  assumes "sorted (map fst m)" "distinct_keys m" "sorted (map fst m')" "distinct_keys m'"
    and "map_of m = map_of m'"
  shows "m = m'"
proof -
  have eq: "set m = set m'"
    using assms(5) by (auto simp: map_of_in_set [OF assms(2), symmetric]
        map_of_in_set [OF assms(4), symmetric])
  have "inj_on fst (set m \<union> set m')"
    using assms(2) eq by (simp add: distinct_keys_def distinct_map)
  from map_sorted_distinct_set_unique [OF this assms(1) _ assms(3) _ eq] assms(2,4)
  show ?thesis by (simp add: distinct_keys_def)
qed

section \<open>Serialised structures\<close>

text \<open>A field \<open>serde\<close> leaves out when it is \<open>None\<close>.\<close>

definition opt_field :: "string \<Rightarrow> ('a \<Rightarrow> json) \<Rightarrow> 'a option \<Rightarrow> (string, json) amap" where
  "opt_field k f v = (case v of None \<Rightarrow> [] | Some x \<Rightarrow> [(k, f x)])"

lemma map_of_opt_field [simp]:
  "map_of (opt_field k f v) k' = (if k = k' then map_option f v else None)"
  by (auto simp: opt_field_def split: option.splits)

lemma sort_value_eq_field: "sort_value v = sort_value w \<Longrightarrow>
    map_option sort_value (field k v) = map_option sort_value (field k w)"
  by (metis field_sort_value)

lemma map_JInt_eq: "map_option sort_value (map_option (JInt o int) x)
    = map_option sort_value (map_option (JInt o int) y) \<longleftrightarrow> x = y"
  by (cases x; cases y) auto

lemma map_JStr_eq: "inj f \<Longrightarrow> map_option sort_value (map_option (JStr o f) x)
    = map_option sort_value (map_option (JStr o f) y) \<longleftrightarrow> x = y"
  by (cases x; cases y) (auto dest: injD)

lemma map_option_JStr_eq: "map_option sort_value (map_option JStr x)
    = map_option sort_value (map_option JStr y) \<longleftrightarrow> x = y"
  by (cases x; cases y) auto

section \<open>A writer to evaluate on\<close>

text \<open>
  A self-delimiting, hence injective, rendering of JSON values. It stands for \<open>serde_json::to_vec\<close>
  where a theorem that assumes an injective writer is applied to concrete values.
\<close>

function show_bits :: "int \<Rightarrow> string" where
  "show_bits n =
     (if n \<le> 0 then [] else (if even n then CHR ''0'' else CHR ''1'') # show_bits (n div 2))"
  by pat_completeness auto
termination by (relation "measure nat") auto

declare show_bits.simps [simp del]

fun read_bits :: "string \<Rightarrow> int" where
  "read_bits [] = 0"
| "read_bits (c # s) = (if c = CHR ''1'' then 1 else 0) + 2 * read_bits s"

lemma read_show_bits: "0 \<le> n \<Longrightarrow> read_bits (show_bits n) = n"
proof (induction n rule: show_bits.induct)
  case (1 n)
  then show ?case by (subst show_bits.simps) (auto simp: not_le elim: oddE)
qed

fun show_int :: "int \<Rightarrow> string" where
  "show_int i = (if i < 0 then CHR ''-'' else CHR ''+'') # show_bits \<bar>i\<bar>"

lemma show_int_inject [simp]: "show_int i = show_int j \<longleftrightarrow> i = j"
proof
  assume *: "show_int i = show_int j"
  then have "read_bits (show_bits \<bar>i\<bar>) = read_bits (show_bits \<bar>j\<bar>)" by simp
  then have "\<bar>i\<bar> = \<bar>j\<bar>" by (simp add: read_show_bits)
  moreover from * have "i < 0 \<longleftrightarrow> j < 0" by (simp split: if_splits)
  ultimately show "i = j" by arith
qed simp

declare show_int.simps [simp del]

fun show_str :: "string \<Rightarrow> string" where
  "show_str [] = ''.''"
| "show_str (c # s) = CHR ''c'' # c # show_str s"

lemma show_str_inject [simp]: "show_str s @ r = show_str s' @ r' \<longleftrightarrow> s = s' \<and> r = r'"
proof (induction s arbitrary: s')
  case Nil
  then show ?case by (cases s') auto
next
  case (Cons c s)
  then show ?case by (cases s') auto
qed

fun show_json :: "json \<Rightarrow> string"
  and show_items :: "json list \<Rightarrow> string"
  and show_members :: "(string \<times> json) list \<Rightarrow> string" where
  "show_json JNull = ''n''"
| "show_json (JBool b) = (if b then ''t'' else ''f'')"
| "show_json (JInt i) = CHR ''i'' # show_str (show_int i)"
| "show_json (JFloat x) = CHR ''x'' # show_str x"
| "show_json (JStr s) = CHR ''s'' # show_str s"
| "show_json (JArr js) = CHR ''a'' # show_items js"
| "show_json (JObj m) = CHR ''o'' # show_members m"
| "show_items [] = ''.''"
| "show_items (j # js) = CHR '','' # show_json j @ show_items js"
| "show_members [] = ''.''"
| "show_members ((k, j) # m) = CHR '','' # show_str k @ show_json j @ show_members m"

lemma show_json_prefix_free:
  "show_json j @ r = show_json j' @ r' \<Longrightarrow> j = j' \<and> r = r'"
  "show_items js @ r = show_items js' @ r' \<Longrightarrow> js = js' \<and> r = r'"
  "show_members m @ r = show_members m' @ r' \<Longrightarrow> m = m' \<and> r = r'"
proof (induction j and js and m arbitrary: j' r r' and js' r r' and m' r r'
    rule: show_json_show_items_show_members.induct)
  case (9 j js)
  from 9(3) obtain j2 js2 where js': "js' = j2 # js2"
    "show_json j @ show_items js @ r = show_json j2 @ show_items js2 @ r'"
    by (cases js') auto
  from 9(1) [OF js'(2)] 9(2) show ?case unfolding js'(1) by blast
next
  case (11 k j m)
  from 11(3) obtain k2 j2 m2 where m': "m' = (k2, j2) # m2" "k = k2"
    "show_json j @ show_members m @ r = show_json j2 @ show_members m2 @ r'"
    by (cases m') auto
  from 11(1) [OF m'(3)] 11(2) show ?case unfolding m'(1,2) by blast
next
  case 8
  then show ?case by (cases js') auto
next
  case 10
  then show ?case by (cases m') auto
next
  case 2
  then show ?case by (cases j') (auto split: if_splits)
next
  case (6 js)
  from 6(2) obtain js2 where "j' = JArr js2" "show_items js @ r = show_items js2 @ r'"
    by (cases j') (auto split: if_splits)
  with 6(1) show ?case by blast
next
  case (7 m)
  from 7(2) obtain m2 where "j' = JObj m2" "show_members m @ r = show_members m2 @ r'"
    by (cases j') (auto split: if_splits)
  with 7(1) show ?case by blast
qed (case_tac j'; simp split: if_splits; fail)+

lemma inj_show_json: "inj show_json"
  using show_json_prefix_free(1) [where r = "[]" and r' = "[]"] by (auto intro: injI)

lemma inj_show_int: "inj show_int"
  by (auto intro: injI)

end
