(* ===== verification/Cap_Token.thy ===== *)
theory Cap_Token
  imports Cap_Pattern Canon
begin

text \<open>
  Capability tokens (\<^verbatim>\<open>crates/prophet-types/src/cap.rs\<close>): constraints, grants, tokens, their
  validation, serialisation, signature and delegation order, and the search of a grant for a
  concrete request. Integers are read as \<open>nat\<close>: the code only compares them here. The text of
  JSON values and instants, hashing, signature and base64 are third-party code, so they are the
  fields of \<open>crypto\<close>.
\<close>

section \<open>Data\<close>

definition TOKEN_VERSION :: nat where
  "TOKEN_VERSION = 0"

datatype approval_req = ApprovalNone | ApprovalRequired

record constraints =
  c_max_calls :: "nat option"
  c_max_bytes :: "nat option"
  c_max_bytes_out :: "nat option"
  c_rate_per_min :: "nat option"
  c_max_tokens :: "nat option"
  c_max_depth :: "nat option"
  c_max_children :: "nat option"
  c_level :: "nat option"
  c_approval :: "approval_req option"
  c_allow :: "(string, string list) amap"

definition default_constraints :: constraints where
  "default_constraints = \<lparr>c_max_calls = None, c_max_bytes = None, c_max_bytes_out = None,
     c_rate_per_min = None, c_max_tokens = None, c_max_depth = None, c_max_children = None,
     c_level = None, c_approval = None, c_allow = []\<rparr>"

record grant =
  g_res :: res
  g_act :: act
  g_pattern :: string
  g_constraints :: constraints

definition grant_new :: "res \<Rightarrow> act \<Rightarrow> string \<Rightarrow> grant" where
  "grant_new r a pattern = \<lparr>g_res = r, g_act = a, g_pattern = pattern,
     g_constraints = default_constraints\<rparr>"

definition grant_with :: "grant \<Rightarrow> constraints \<Rightarrow> grant" where
  "grant_with g c = g\<lparr>g_constraints := c\<rparr>"

record check_context =
  x_target :: string
  x_home :: string
  x_sandbox_level :: nat
  x_bytes :: "nat option"
  x_calls_so_far :: nat
  x_fields :: "(string, string list) amap"

definition default_context :: check_context where
  "default_context = \<lparr>x_target = [], x_home = [], x_sandbox_level = 0, x_bytes = None,
     x_calls_so_far = 0, x_fields = []\<rparr>"

text \<open>\<open>CapPanic\<close> is not an error of the code: it marks a Rust panic as a value.\<close>

datatype cap_error = IllegalPair res act | PatternErr pattern_error | UnknownVersionErr nat
  | NoGrants | BadSignatureFormat | BadSignatureErr | BadValidity | SerializeErr canon_error | CapPanic

datatype deny_reason = Expired | BadSignature | RevokedParent | PolicyDenied | NoGrant
  | ConstraintViolated | ApprovalRequiredDeny | UnknownVersion

text \<open>A denial names its rule, if any: the grant of an index, or an action name.\<close>

datatype deny_rule = GrantRule nat | ActionRule string

datatype decision = Allow nat | Deny deny_reason "deny_rule option"

definition deny :: "deny_reason \<Rightarrow> decision" where
  "deny reason = Deny reason None"

fun is_allow :: "decision \<Rightarrow> bool" where
  "is_allow (Allow _) = True"
| "is_allow (Deny _ _) = False"

record token =
  t_v :: nat
  t_iss :: string
  t_sub :: string
  t_agent :: string
  t_user :: string
  t_parent :: "string option"
  t_grants :: "grant list"
  t_iat :: instant
  t_exp :: instant
  t_nonce :: string
  t_sig :: "string option"

record crypto =
  k_to_vec :: "json \<Rightarrow> string"
  k_rfc3339 :: "instant \<Rightarrow> string + string"
  k_blake3_hex :: "string \<Rightarrow> string"
  k_sign :: "string \<Rightarrow> string"
  k_verify :: "string \<Rightarrow> string \<Rightarrow> bool"
  k_b64_encode :: "string \<Rightarrow> string"
  k_b64_decode :: "string \<Rightarrow> string option"

section \<open>Constraints\<close>

fun num_ok :: "nat option \<Rightarrow> nat option \<Rightarrow> bool" where
  "num_ok _ None = True"
| "num_ok (Some c) (Some p) = (c \<le> p)"
| "num_ok None (Some _) = False"

fun level_ok :: "nat option \<Rightarrow> nat option \<Rightarrow> bool" where
  "level_ok _ None = True"
| "level_ok (Some c) (Some p) = (p \<le> c)"
| "level_ok None (Some _) = False"

fun approval_ok :: "approval_req option \<Rightarrow> approval_req option \<Rightarrow> bool" where
  "approval_ok _ None = True"
| "approval_ok _ (Some ApprovalNone) = True"
| "approval_ok (Some ApprovalRequired) (Some ApprovalRequired) = True"
| "approval_ok _ (Some ApprovalRequired) = False"

definition allow_ok :: "(string, string list) amap \<Rightarrow> (string, string list) amap \<Rightarrow> bool" where
  "allow_ok child parent = list_all (\<lambda>(key, parent_values).
     case map_of child key of
       None \<Rightarrow> False
     | Some child_values \<Rightarrow> list_all (\<lambda>v. v \<in> set parent_values) child_values) parent"

definition is_at_least_as_strict_as :: "constraints \<Rightarrow> constraints \<Rightarrow> bool" where
  "is_at_least_as_strict_as c p \<longleftrightarrow>
     num_ok (c_max_calls c) (c_max_calls p)
   \<and> num_ok (c_max_bytes c) (c_max_bytes p)
   \<and> num_ok (c_max_bytes_out c) (c_max_bytes_out p)
   \<and> num_ok (c_rate_per_min c) (c_rate_per_min p)
   \<and> num_ok (c_max_tokens c) (c_max_tokens p)
   \<and> num_ok (c_max_depth c) (c_max_depth p)
   \<and> num_ok (c_max_children c) (c_max_children p)
   \<and> level_ok (c_level c) (c_level p)
   \<and> approval_ok (c_approval c) (c_approval p)
   \<and> allow_ok (c_allow c) (c_allow p)"

definition satisfied_by :: "constraints \<Rightarrow> check_context \<Rightarrow> bool" where
  "satisfied_by c ctx =
     (if (case c_level c of Some level \<Rightarrow> x_sandbox_level ctx < level | None \<Rightarrow> False) then False
      else if (case c_max_bytes c of
          Some lim \<Rightarrow> (case x_bytes ctx of Some b \<Rightarrow> lim < b | None \<Rightarrow> False)
        | None \<Rightarrow> False) then False
      else if (case c_max_calls c of Some lim \<Rightarrow> lim \<le> x_calls_so_far ctx | None \<Rightarrow> False)
        then False
      else list_all (\<lambda>(key, allowed).
        case map_of (x_fields ctx) key of
          None \<Rightarrow> True
        | Some values \<Rightarrow> list_all (\<lambda>v. v \<in> set allowed) values) (c_allow c))"

section \<open>Grants\<close>

definition grant_validate :: "grant \<Rightarrow> cap_error + unit" where
  "grant_validate g =
     (if (g_res g, g_act g) \<notin> set LEGAL_PAIRS then Err (IllegalPair (g_res g) (g_act g))
      else case validate (family_of (g_res g)) (g_pattern g) of
        Inl e \<Rightarrow> Err (PatternErr e)
      | Inr _ \<Rightarrow> Ok ())"

definition grant_is_subset_of :: "grant \<Rightarrow> grant \<Rightarrow> bool" where
  "grant_is_subset_of child parent \<longleftrightarrow>
     g_res child = g_res parent
   \<and> g_act child = g_act parent
   \<and> covers (family_of (g_res child)) (g_pattern parent) (g_pattern child)
   \<and> is_at_least_as_strict_as (g_constraints child) (g_constraints parent)"

section \<open>Tokens\<close>

fun validate_grants :: "grant list \<Rightarrow> cap_error + unit" where
  "validate_grants [] = Ok ()"
| "validate_grants (g # gs) =
     (case grant_validate g of Inl e \<Rightarrow> Err e | Inr _ \<Rightarrow> validate_grants gs)"

definition token_validate :: "token \<Rightarrow> cap_error + unit" where
  "token_validate t =
     (if t_v t \<noteq> TOKEN_VERSION then Err (UnknownVersionErr (t_v t))
      else if t_grants t = [] then Err NoGrants
      else if t_exp t \<le> t_iat t then Err BadValidity
      else validate_grants (t_grants t))"

text \<open>Serialisation, as the \<open>serde\<close> attributes of the structures say.\<close>

fun res_name :: "res \<Rightarrow> string" where
  "res_name ResFs = ''fs''" | "res_name ResNet = ''net''" | "res_name ResTool = ''tool''"
| "res_name ResProc = ''proc''" | "res_name ResUi = ''ui''" | "res_name ResLedger = ''ledger''"
| "res_name ResMemory = ''memory''" | "res_name ResModel = ''model''"
| "res_name ResTask = ''task''" | "res_name ResCap = ''cap''"

fun act_name :: "act \<Rightarrow> string" where
  "act_name ActRead = ''read''" | "act_name ActWrite = ''write''" | "act_name ActList = ''list''"
| "act_name ActEgress = ''egress''" | "act_name ActCall = ''call''" | "act_name ActExec = ''exec''"
| "act_name ActAct = ''act''" | "act_name ActVision = ''vision''"
| "act_name ActReadAll = ''read_all''" | "act_name ActUse = ''use''"
| "act_name ActSpawn = ''spawn''" | "act_name ActDelegate = ''delegate''"

fun approval_name :: "approval_req \<Rightarrow> string" where
  "approval_name ApprovalNone = ''none''" | "approval_name ApprovalRequired = ''required''"

definition constraints_json :: "constraints \<Rightarrow> json" where
  "constraints_json c = JObj
    (opt_field ''max_calls'' (JInt o int) (c_max_calls c)
   @ opt_field ''max_bytes'' (JInt o int) (c_max_bytes c)
   @ opt_field ''max_bytes_out'' (JInt o int) (c_max_bytes_out c)
   @ opt_field ''rate_per_min'' (JInt o int) (c_rate_per_min c)
   @ opt_field ''max_tokens'' (JInt o int) (c_max_tokens c)
   @ opt_field ''max_depth'' (JInt o int) (c_max_depth c)
   @ opt_field ''max_children'' (JInt o int) (c_max_children c)
   @ opt_field ''level'' (JInt o int) (c_level c)
   @ opt_field ''approval'' (JStr o approval_name) (c_approval c)
   @ (if c_allow c = [] then []
      else [(''allow'', JObj (map (\<lambda>(k, vs). (k, JArr (map JStr vs))) (c_allow c)))]))"

definition grant_json :: "grant \<Rightarrow> json" where
  "grant_json g = JObj
    ([(''res'', JStr (res_name (g_res g))), (''act'', JStr (act_name (g_act g))),
      (''match'', JStr (g_pattern g))]
   @ (if g_constraints g = default_constraints then []
      else [(''constraints'', constraints_json (g_constraints g))]))"

definition token_fields :: "token \<Rightarrow> string \<Rightarrow> string \<Rightarrow> (string, json) amap" where
  "token_fields t iat expiry =
     [(''v'', JInt (int (t_v t))), (''iss'', JStr (t_iss t)), (''sub'', JStr (t_sub t)),
      (''agent'', JStr (t_agent t)), (''user'', JStr (t_user t))]
   @ opt_field ''parent'' JStr (t_parent t)
   @ [(''grants'', JArr (map grant_json (t_grants t))), (''iat'', JStr iat),
      (''exp'', JStr expiry), (''nonce'', JStr (t_nonce t))]
   @ opt_field ''sig'' JStr (t_sig t)"

definition token_json :: "crypto \<Rightarrow> token \<Rightarrow> string + json" where
  "token_json K t =
     (case k_rfc3339 K (t_iat t) of
        Inl e \<Rightarrow> Err e
      | Inr iat \<Rightarrow>
          (case k_rfc3339 K (t_exp t) of
             Inl e \<Rightarrow> Err e
           | Inr expiry \<Rightarrow> Ok (JObj (token_fields t iat expiry))))"

definition token_digest :: "crypto \<Rightarrow> token \<Rightarrow> cap_error + string" where
  "token_digest K t =
     (case canonical_hash (k_to_vec K) (k_blake3_hex K) (token_json K t) [] of
        Inl e \<Rightarrow> Err (SerializeErr e) | Inr h \<Rightarrow> Ok h)"

definition token_signing_bytes :: "crypto \<Rightarrow> token \<Rightarrow> cap_error + string" where
  "token_signing_bytes K t =
     (case to_canonical_bytes (k_to_vec K) (token_json K t) [''sig''] of
        Inl e \<Rightarrow> Err (SerializeErr e) | Inr bytes \<Rightarrow> Ok bytes)"

definition token_sign :: "crypto \<Rightarrow> token \<Rightarrow> cap_error + token" where
  "token_sign K t =
     (let t0 = t\<lparr>t_sig := None\<rparr>
      in case token_signing_bytes K t0 of
           Inl e \<Rightarrow> Err e
         | Inr bytes \<Rightarrow> Ok (t0\<lparr>t_sig := Some (''ed25519:'' @ k_b64_encode K (k_sign K bytes))\<rparr>))"

definition token_verify :: "crypto \<Rightarrow> token \<Rightarrow> cap_error + unit" where
  "token_verify K t =
     (case t_sig t of
        None \<Rightarrow> Err BadSignatureFormat
      | Some sig \<Rightarrow>
          (case strip_prefix ''ed25519:'' sig of
             None \<Rightarrow> Err BadSignatureFormat
           | Some raw \<Rightarrow>
               (case k_b64_decode K raw of
                  None \<Rightarrow> Err BadSignatureFormat
                | Some bytes \<Rightarrow>
                    if length bytes \<noteq> 64 then Err BadSignatureFormat
                    else case token_signing_bytes K t of
                      Inl e \<Rightarrow> Err e
                    | Inr msg \<Rightarrow> if k_verify K msg bytes then Ok () else Err BadSignatureErr)))"

definition token_is_subset_of :: "token \<Rightarrow> token \<Rightarrow> bool" where
  "token_is_subset_of child parent \<longleftrightarrow>
     (if t_user child \<noteq> t_user parent \<or> t_exp parent < t_exp child then False
      else list_all (\<lambda>c. list_ex (\<lambda>p. grant_is_subset_of c p) (t_grants parent)) (t_grants child))"

definition is_expired :: "token \<Rightarrow> instant \<Rightarrow> bool" where
  "is_expired t now \<longleftrightarrow> t_exp t \<le> now"

fun find_grant_from :: "nat \<Rightarrow> bool \<Rightarrow> grant list \<Rightarrow> res \<Rightarrow> act \<Rightarrow> check_context \<Rightarrow> decision" where
  "find_grant_from index constraint_hit [] r a ctx =
     (if constraint_hit then deny ConstraintViolated else deny NoGrant)"
| "find_grant_from index constraint_hit (g # gs) r a ctx =
     (if g_res g \<noteq> r \<or> g_act g \<noteq> a then find_grant_from (Suc index) constraint_hit gs r a ctx
      else if \<not> matches (family_of r) (g_pattern g) (x_target ctx) (x_home ctx)
        then find_grant_from (Suc index) constraint_hit gs r a ctx
      else if c_approval (g_constraints g) = Some ApprovalRequired
        then Deny ApprovalRequiredDeny (Some (GrantRule index))
      else if satisfied_by (g_constraints g) ctx then Allow index
      else find_grant_from (Suc index) True gs r a ctx)"

definition find_grant :: "token \<Rightarrow> res \<Rightarrow> act \<Rightarrow> check_context \<Rightarrow> decision" where
  "find_grant t r a ctx = find_grant_from 0 False (t_grants t) r a ctx"

section \<open>Building\<close>

record token_builder =
  b_issuer :: string
  b_subject :: string
  b_agent :: string
  b_user :: string
  b_parent :: "string option"
  b_grants :: "grant list"
  b_ttl_seconds :: int

definition token_builder_new :: "string \<Rightarrow> string \<Rightarrow> string \<Rightarrow> string \<Rightarrow> token_builder" where
  "token_builder_new issuer subject agent user = \<lparr>b_issuer = issuer, b_subject = subject,
     b_agent = agent, b_user = user, b_parent = None, b_grants = [], b_ttl_seconds = 1800\<rparr>"

definition builder_grant :: "token_builder \<Rightarrow> grant \<Rightarrow> token_builder" where
  "builder_grant b g = b\<lparr>b_grants := b_grants b @ [g]\<rparr>"

definition builder_grants :: "token_builder \<Rightarrow> grant list \<Rightarrow> token_builder" where
  "builder_grants b gs = b\<lparr>b_grants := b_grants b @ gs\<rparr>"

definition builder_ttl_seconds :: "token_builder \<Rightarrow> int \<Rightarrow> token_builder" where
  "builder_ttl_seconds b s = b\<lparr>b_ttl_seconds := s\<rparr>"

definition builder_parent :: "token_builder \<Rightarrow> string \<Rightarrow> token_builder" where
  "builder_parent b digest = b\<lparr>b_parent := Some digest\<rparr>"

definition token_build :: "crypto \<Rightarrow> token_builder \<Rightarrow> instant \<Rightarrow> string \<Rightarrow> cap_error + token" where
  "token_build K b now nonce =
     (case datetime_add now (seconds (b_ttl_seconds b)) of
        None \<Rightarrow> Err CapPanic
      | Some expiry \<Rightarrow>
          let t = \<lparr>t_v = TOKEN_VERSION, t_iss = b_issuer b, t_sub = b_subject b,
                t_agent = b_agent b, t_user = b_user b, t_parent = b_parent b,
                t_grants = b_grants b, t_iat = now, t_exp = expiry,
                t_nonce = k_b64_encode K nonce, t_sig = None\<rparr>
          in case token_validate t of
               Inl e \<Rightarrow> Err e
             | Inr _ \<Rightarrow> token_sign K t)"

section \<open>Constraints form a coverage\<close>

lemma num_ok_iff: "num_ok c p \<longleftrightarrow> (\<forall>l. p = Some l \<longrightarrow> (\<exists>k. c = Some k \<and> k \<le> l))"
  by (cases c; cases p) auto

lemma level_ok_iff: "level_ok c p \<longleftrightarrow> (\<forall>l. p = Some l \<longrightarrow> (\<exists>k. c = Some k \<and> l \<le> k))"
  by (cases c; cases p) auto

lemma approval_ok_iff:
  "approval_ok c p \<longleftrightarrow> (p = Some ApprovalRequired \<longrightarrow> c = Some ApprovalRequired)"
  by (cases "(c, p)" rule: approval_ok.cases) auto

lemma allow_ok_iff: "allow_ok c p \<longleftrightarrow>
    (\<forall>key pv. (key, pv) \<in> set p \<longrightarrow> (\<exists>cv. map_of c key = Some cv \<and> set cv \<subseteq> set pv))"
  by (fastforce simp: allow_ok_def list_all_iff split: option.splits)

lemma satisfied_by_iff: "satisfied_by c ctx \<longleftrightarrow>
    (\<forall>l. c_level c = Some l \<longrightarrow> l \<le> x_sandbox_level ctx)
  \<and> (\<forall>l b. c_max_bytes c = Some l \<longrightarrow> x_bytes ctx = Some b \<longrightarrow> b \<le> l)
  \<and> (\<forall>l. c_max_calls c = Some l \<longrightarrow> x_calls_so_far ctx < l)
  \<and> (\<forall>key av vs. (key, av) \<in> set (c_allow c) \<longrightarrow> map_of (x_fields ctx) key = Some vs \<longrightarrow>
       set vs \<subseteq> set av)"
proof -
  have "list_all (\<lambda>(key, allowed).
        case map_of (x_fields ctx) key of
          None \<Rightarrow> True
        | Some values \<Rightarrow> list_all (\<lambda>v. v \<in> set allowed) values) (c_allow c)
    \<longleftrightarrow> (\<forall>key av vs. (key, av) \<in> set (c_allow c) \<longrightarrow> map_of (x_fields ctx) key = Some vs \<longrightarrow>
       set vs \<subseteq> set av)"
    by (fastforce simp: list_all_iff split: option.splits)
  then show ?thesis
    unfolding satisfied_by_def by (auto split: option.splits simp: not_less)
qed

lemma strict_refl: "distinct_keys (c_allow c) \<Longrightarrow> is_at_least_as_strict_as c c"
  by (auto simp: is_at_least_as_strict_as_def num_ok_iff level_ok_iff approval_ok_iff allow_ok_iff
      map_of_in_set)

lemma strict_trans:
  "is_at_least_as_strict_as r q \<Longrightarrow> is_at_least_as_strict_as q p \<Longrightarrow> is_at_least_as_strict_as r p"
proof -
  have n: "num_ok a b \<Longrightarrow> num_ok b c \<Longrightarrow> num_ok a c" for a b c
    by (fastforce simp: num_ok_iff)
  have l: "level_ok a b \<Longrightarrow> level_ok b c \<Longrightarrow> level_ok a c" for a b c
    by (fastforce simp: level_ok_iff)
  have a: "approval_ok a b \<Longrightarrow> approval_ok b c \<Longrightarrow> approval_ok a c" for a b c
    by (simp add: approval_ok_iff)
  have w: "allow_ok a b \<Longrightarrow> allow_ok b c \<Longrightarrow> allow_ok a c" for a b c
    unfolding allow_ok_iff by (meson map_of_SomeD order_trans)
  assume "is_at_least_as_strict_as r q" "is_at_least_as_strict_as q p"
  then show ?thesis
    unfolding is_at_least_as_strict_as_def using n l a w by blast
qed

lemma strict_sound:
  assumes "is_at_least_as_strict_as c p" "satisfied_by c ctx"
  shows "satisfied_by p ctx"
  unfolding satisfied_by_iff
proof (intro conjI allI impI)
  note s = assms(1) [unfolded is_at_least_as_strict_as_def]
  note t = assms(2) [unfolded satisfied_by_iff]
  fix l
  show "l \<le> x_sandbox_level ctx" if "c_level p = Some l"
    using that s t by (fastforce simp: level_ok_iff)
  show "b \<le> l" if "c_max_bytes p = Some l" "x_bytes ctx = Some b" for b
    using that s t by (fastforce simp: num_ok_iff)
  show "x_calls_so_far ctx < l" if "c_max_calls p = Some l"
    using that s t by (fastforce simp: num_ok_iff)
next
  fix key av vs
  assume key: "(key, av) \<in> set (c_allow p)" "map_of (x_fields ctx) key = Some vs"
  from assms(1) key(1) obtain cv where cv: "map_of (c_allow c) key = Some cv" "set cv \<subseteq> set av"
    unfolding is_at_least_as_strict_as_def allow_ok_iff by blast
  from cv(1) have "(key, cv) \<in> set (c_allow c)" by (rule map_of_SomeD)
  with assms(2) key(2) have "set vs \<subseteq> set cv" by (simp add: satisfied_by_iff)
  with cv(2) show "set vs \<subseteq> set av" by blast
qed

interpretation constraint: coverage_order "\<lambda>p c. is_at_least_as_strict_as c p" satisfied_by
    "\<lambda>c. distinct_keys (c_allow c)"
  by unfold_locales (auto intro: strict_refl strict_sound strict_trans)

section \<open>Grants form a coverage\<close>

text \<open>A request is the resource, the action and the context; a grant accepts it outright when it
  covers it, its constraints hold and it asks for no approval.\<close>

type_synonym request3 = "res \<times> act \<times> check_context"

fun candidate :: "grant \<Rightarrow> request3 \<Rightarrow> bool" where
  "candidate g (r, a, ctx) \<longleftrightarrow> g_res g = r \<and> g_act g = a
     \<and> matches (family_of r) (g_pattern g) (x_target ctx) (x_home ctx)"

definition needs_approval :: "grant \<Rightarrow> bool" where
  "needs_approval g \<longleftrightarrow> c_approval (g_constraints g) = Some ApprovalRequired"

definition grant_accepts :: "grant \<Rightarrow> request3 \<Rightarrow> bool" where
  "grant_accepts g q \<longleftrightarrow> candidate g q \<and> \<not> needs_approval g
     \<and> satisfied_by (g_constraints g) (snd (snd q))"

definition grant_wf :: "grant \<Rightarrow> bool" where
  "grant_wf g \<longleftrightarrow> grant_validate g = Ok () \<and> well_scoped (family_of (g_res g)) (g_pattern g)
     \<and> distinct_keys (c_allow (g_constraints g))"

lemma grant_subset_candidate:
  assumes "grant_wf p" "grant_wf c" "grant_is_subset_of c p" "candidate c q"
  shows "candidate p q"
proof -
  obtain r a ctx where q: "q = (r, a, ctx)" by (cases q) auto
  from assms q have "matches (family_of r) (g_pattern p) (x_target ctx) (x_home ctx)"
    by (auto simp: grant_is_subset_of_def grant_wf_def well_scoped_def
        intro: covers_sound_aux [unfolded well_scoped_def])
  with assms q show ?thesis by (auto simp: grant_is_subset_of_def)
qed

lemma grant_subset_approval: "grant_is_subset_of c p \<Longrightarrow> needs_approval p \<Longrightarrow> needs_approval c"
  by (simp add: grant_is_subset_of_def is_at_least_as_strict_as_def approval_ok_iff needs_approval_def)

lemma grant_subset_trans:
  assumes "grant_wf p" "grant_is_subset_of q p" "grant_is_subset_of r q"
  shows "grant_is_subset_of r p"
  using assms
  by (auto simp: grant_is_subset_of_def grant_wf_def well_scoped_def
      intro: covers_trans strict_trans)

interpretation authority: coverage_order "\<lambda>p c. grant_is_subset_of c p" grant_accepts grant_wf
proof unfold_locales
  fix p c :: grant and q :: request3
  assume *: "grant_wf p" "grant_wf c" "grant_is_subset_of c p" "grant_accepts c q"
  then have "candidate c q" "\<not> needs_approval c" "satisfied_by (g_constraints c) (snd (snd q))"
    by (simp_all add: grant_accepts_def)
  with * have "candidate p q" "\<not> needs_approval p"
    using grant_subset_candidate grant_subset_approval by blast+
  moreover have "satisfied_by (g_constraints p) (snd (snd q))"
    using * by (auto simp: grant_accepts_def grant_is_subset_of_def intro: strict_sound)
  ultimately show "grant_accepts p q" by (simp add: grant_accepts_def)
next
  fix p :: grant
  assume "grant_wf p"
  then show "grant_is_subset_of p p"
    by (auto simp: grant_is_subset_of_def grant_wf_def covers_refl intro: strict_refl)
qed (rule grant_subset_trans)

declare candidate.simps [simp del]

section \<open>The search of a grant\<close>

text \<open>A grant decides a request when it covers it and either asks for approval or is satisfied.\<close>

definition deciding :: "grant \<Rightarrow> request3 \<Rightarrow> bool" where
  "deciding g q \<longleftrightarrow> candidate g q \<and> (needs_approval g \<or> satisfied_by (g_constraints g) (snd (snd q)))"

lemma find_grant_from_skip:
  assumes "\<forall>g \<in> set pre. \<not> deciding g (r, a, ctx)"
  shows "find_grant_from n hit (pre @ gs) r a ctx =
    find_grant_from (n + length pre) (hit \<or> (\<exists>g \<in> set pre. candidate g (r, a, ctx))) gs r a ctx"
  using assms
  by (induction pre arbitrary: n hit) (auto simp: deciding_def needs_approval_def candidate.simps)

lemma find_grant_from_none:
  assumes "\<forall>g \<in> set gs. \<not> deciding g (r, a, ctx)"
  shows "find_grant_from n hit gs r a ctx =
    (if hit \<or> (\<exists>g \<in> set gs. candidate g (r, a, ctx)) then deny ConstraintViolated else deny NoGrant)"
  using find_grant_from_skip [OF assms, of n hit "[]"] by simp

lemma find_grant_from_deciding:
  assumes "deciding g (r, a, ctx)"
  shows "find_grant_from n hit (g # gs) r a ctx =
    (if needs_approval g then Deny ApprovalRequiredDeny (Some (GrantRule n)) else Allow n)"
  using assms by (auto simp: deciding_def needs_approval_def candidate.simps)

lemma find_grant_cases:
  obtains (none) "\<forall>g \<in> set (t_grants t). \<not> deciding g (r, a, ctx)"
      "find_grant t r a ctx = (if \<exists>g \<in> set (t_grants t). candidate g (r, a, ctx)
         then deny ConstraintViolated else deny NoGrant)"
    | (first) pre g post where "t_grants t = pre @ g # post"
      "\<forall>g' \<in> set pre. \<not> deciding g' (r, a, ctx)" "deciding g (r, a, ctx)"
      "find_grant t r a ctx = (if needs_approval g
         then Deny ApprovalRequiredDeny (Some (GrantRule (length pre))) else Allow (length pre))"
proof (cases "\<exists>g \<in> set (t_grants t). deciding g (r, a, ctx)")
  case True
  then obtain pre g post where d: "t_grants t = pre @ g # post" "deciding g (r, a, ctx)"
    "\<forall>g' \<in> set pre. \<not> deciding g' (r, a, ctx)"
    using split_list_first_prop [OF True] by blast
  show ?thesis
    by (rule first [OF d(1,3,2)])
      (simp only: find_grant_def d(1) find_grant_from_skip [OF d(3)] find_grant_from_deciding [OF d(2)]
        add_0)
next
  case False
  then have n: "\<forall>g \<in> set (t_grants t). \<not> deciding g (r, a, ctx)" by blast
  show ?thesis
    by (rule none [OF n]) (simp only: find_grant_def find_grant_from_none [OF n] simp_thms)
qed

lemma accepts_deciding: "grant_accepts g q \<Longrightarrow> deciding g q"
  by (simp add: grant_accepts_def deciding_def)

lemma deciding_cases: "deciding g q \<Longrightarrow> \<not> needs_approval g \<Longrightarrow> grant_accepts g q"
  by (simp add: grant_accepts_def deciding_def)

lemma asking_deciding: "candidate g q \<Longrightarrow> needs_approval g \<Longrightarrow> deciding g q"
  by (simp add: deciding_def)

lemma deciding_candidate: "deciding g q \<Longrightarrow> candidate g q"
  by (simp add: deciding_def)

lemma find_grant_Allow_accepts:
  assumes "find_grant t r a ctx = Allow i"
  shows "i < length (t_grants t) \<and> grant_accepts (t_grants t ! i) (r, a, ctx)"
  using assms
  by (cases rule: find_grant_cases [of t r a ctx])
    (auto simp: deny_def deciding_def grant_accepts_def split: if_splits)

lemma find_grant_accepted:
  assumes "g \<in> set (t_grants t)" "grant_accepts g (r, a, ctx)"
  shows "(\<exists>i. find_grant t r a ctx = Allow i)
    \<or> (\<exists>i. find_grant t r a ctx = Deny ApprovalRequiredDeny (Some (GrantRule i)))"
proof (cases rule: find_grant_cases [of t r a ctx])
  case none
  with assms show ?thesis by (auto simp: deciding_def grant_accepts_def)
next
  case first
  then show ?thesis by (auto split: if_splits)
qed

lemma token_subset_covers_all:
  "token_is_subset_of c p \<longleftrightarrow> t_user c = t_user p \<and> t_exp c \<le> t_exp p
     \<and> covers_all (\<lambda>p c. grant_is_subset_of c p) (t_grants p) (t_grants c)"
  by (auto simp: token_is_subset_of_def covers_all_def)

definition token_wf :: "token \<Rightarrow> bool" where
  "token_wf t \<longleftrightarrow> list_all grant_wf (t_grants t)"

lemma token_wfD: "token_wf t \<Longrightarrow> \<forall>g \<in> set (t_grants t). grant_wf g"
  by (simp add: token_wf_def list_all_iff)

section \<open>The serialisation determines the token\<close>

lemma inj_res_name: "inj res_name"
  by (rule injI) (case_tac x; case_tac y; simp)

lemma inj_act_name: "inj act_name"
  by (rule injI) (case_tac x; case_tac y; simp)

lemma inj_approval_name: "inj approval_name"
  by (rule injI) (case_tac x; case_tac y; simp)

lemma field_constraints:
  "field ''max_calls'' (constraints_json c) = map_option (JInt o int) (c_max_calls c)"
  "field ''max_bytes'' (constraints_json c) = map_option (JInt o int) (c_max_bytes c)"
  "field ''max_bytes_out'' (constraints_json c) = map_option (JInt o int) (c_max_bytes_out c)"
  "field ''rate_per_min'' (constraints_json c) = map_option (JInt o int) (c_rate_per_min c)"
  "field ''max_tokens'' (constraints_json c) = map_option (JInt o int) (c_max_tokens c)"
  "field ''max_depth'' (constraints_json c) = map_option (JInt o int) (c_max_depth c)"
  "field ''max_children'' (constraints_json c) = map_option (JInt o int) (c_max_children c)"
  "field ''level'' (constraints_json c) = map_option (JInt o int) (c_level c)"
  "field ''approval'' (constraints_json c) = map_option (JStr o approval_name) (c_approval c)"
  "field ''allow'' (constraints_json c) = (if c_allow c = [] then None
     else Some (JObj (map (\<lambda>(k, vs). (k, JArr (map JStr vs))) (c_allow c))))"
  by (auto simp: constraints_json_def map_add_def split: option.split)

lemma field_token:
  assumes "v = JObj (token_fields t iat expiry)"
  shows "field ''v'' v = Some (JInt (int (t_v t)))" "field ''iss'' v = Some (JStr (t_iss t))"
    "field ''sub'' v = Some (JStr (t_sub t))" "field ''agent'' v = Some (JStr (t_agent t))"
    "field ''user'' v = Some (JStr (t_user t))" "field ''parent'' v = map_option JStr (t_parent t)"
    "field ''grants'' v = Some (JArr (map grant_json (t_grants t)))"
    "field ''iat'' v = Some (JStr iat)" "field ''exp'' v = Some (JStr expiry)"
    "field ''nonce'' v = Some (JStr (t_nonce t))"
  by (auto simp: assms token_fields_def map_add_def split: option.split)

definition constraints_canon :: "constraints \<Rightarrow> bool" where
  "constraints_canon c \<longleftrightarrow> sorted (map fst (c_allow c)) \<and> distinct_keys (c_allow c)"

definition token_canon :: "token \<Rightarrow> bool" where
  "token_canon t \<longleftrightarrow> list_all (\<lambda>g. constraints_canon (g_constraints g)) (t_grants t)"

lemma allow_json_inject:
  assumes "sort_value (JObj (map (\<lambda>(k, vs). (k, JArr (map JStr vs))) m))
     = sort_value (JObj (map (\<lambda>(k, vs). (k, JArr (map JStr vs))) m'))"
    and "sorted (map fst m)" "distinct_keys m" "sorted (map fst m')" "distinct_keys m'"
  shows "m = m'"
proof (rule sorted_keys_unique [OF assms(2-5)], rule ext)
  fix k
  have strs: "map (sort_value \<circ> JStr) vs = map (sort_value \<circ> JStr) ws \<longleftrightarrow> vs = ws" for vs ws
    by (rule inj_map_eq_map) (simp add: inj_def)
  from sort_value_eq_field [OF assms(1), of k]
  show "map_of m k = map_of m' k"
    by (cases "map_of m k"; cases "map_of m' k") (simp_all add: map_of_map_snd strs)
qed

lemma constraints_json_inject:
  assumes eq: "sort_value (constraints_json c) = sort_value (constraints_json c')"
    and c: "constraints_canon c" "constraints_canon c'"
  shows "c = c'"
proof -
  note f = sort_value_eq_field [OF eq]
  have "c_allow c = c_allow c'"
    using f [of "''allow''"] c
    by (auto simp: field_constraints constraints_canon_def
        simp del: sort_value.simps split: if_splits intro: allow_json_inject)
  moreover have "c_max_calls c = c_max_calls c'" "c_max_bytes c = c_max_bytes c'"
    "c_max_bytes_out c = c_max_bytes_out c'" "c_rate_per_min c = c_rate_per_min c'"
    "c_max_tokens c = c_max_tokens c'" "c_max_depth c = c_max_depth c'"
    "c_max_children c = c_max_children c'" "c_level c = c_level c'" "c_approval c = c_approval c'"
    using f [of "''max_calls''"] f [of "''max_bytes''"] f [of "''max_bytes_out''"]
      f [of "''rate_per_min''"] f [of "''max_tokens''"] f [of "''max_depth''"]
      f [of "''max_children''"] f [of "''level''"] f [of "''approval''"]
    unfolding field_constraints map_JInt_eq map_JStr_eq [OF inj_approval_name] by blast+
  ultimately show ?thesis by (simp add: constraints.equality)
qed

lemma grant_json_inject:
  assumes eq: "sort_value (grant_json g) = sort_value (grant_json g')"
    and "constraints_canon (g_constraints g)" "constraints_canon (g_constraints g')"
  shows "g = g'"
proof -
  note f = sort_value_eq_field [OF eq]
  have "g_res g = g_res g'" "g_act g = g_act g'" "g_pattern g = g_pattern g'"
    using f [of "''res''"] f [of "''act''"] f [of "''match''"]
    by (simp_all add: grant_json_def map_add_def inj_eq [OF inj_res_name] inj_eq [OF inj_act_name])
  moreover have "g_constraints g = g_constraints g'"
    using f [of "''constraints''"] assms(2,3)
    by (auto simp: grant_json_def simp del: sort_value.simps split: if_splits
        intro: constraints_json_inject)
  ultimately show ?thesis by simp
qed

text \<open>The two readings of instants and JSON values the code relies on: both can be read back.\<close>

definition encoding_ok :: "crypto \<Rightarrow> bool" where
  "encoding_ok K \<longleftrightarrow> inj (k_to_vec K)
     \<and> (\<forall>i j s. k_rfc3339 K i = Ok s \<and> k_rfc3339 K j = Ok s \<longrightarrow> i = j)"

lemma token_json_inject:
  assumes K: "encoding_ok K" and json: "token_json K t = Ok v" "token_json K t' = Ok v'"
    and same: "\<And>k. k \<noteq> ''sig'' \<Longrightarrow>
      map_option sort_value (field k v) = map_option sort_value (field k v')"
    and canon: "token_canon t" "token_canon t'"
  shows "t\<lparr>t_sig := None\<rparr> = t'\<lparr>t_sig := None\<rparr>"
proof -
  from json obtain i e i' e' where iat: "k_rfc3339 K (t_iat t) = Ok i" "k_rfc3339 K (t_iat t') = Ok i'"
    and expiry: "k_rfc3339 K (t_exp t) = Ok e" "k_rfc3339 K (t_exp t') = Ok e'"
    and v: "v = JObj (token_fields t i e)" "v' = JObj (token_fields t' i' e')"
    by (auto simp: token_json_def split: sum.splits)
  note f = field_token [OF v(1)] field_token [OF v(2)]
  have "t_v t = t_v t'" "t_iss t = t_iss t'" "t_sub t = t_sub t'" "t_agent t = t_agent t'"
    "t_user t = t_user t'" "t_nonce t = t_nonce t'" "t_parent t = t_parent t'" "i = i'" "e = e'"
    using same [of "''v''"] same [of "''iss''"] same [of "''sub''"] same [of "''agent''"]
      same [of "''user''"] same [of "''nonce''"] same [of "''parent''"] same [of "''iat''"]
      same [of "''exp''"]
    by (simp_all add: f map_option_JStr_eq)
  moreover from this have "t_iat t = t_iat t'" "t_exp t = t_exp t'"
    using K iat expiry by (auto simp: encoding_ok_def)
  moreover have "t_grants t = t_grants t'"
  proof (rule list.inj_map_strong)
    show "map (sort_value \<circ> grant_json) (t_grants t) = map (sort_value \<circ> grant_json) (t_grants t')"
      using same [of "''grants''"] by (simp add: f)
  qed (use canon in \<open>auto simp: token_canon_def list_all_iff intro: grant_json_inject\<close>)
  ultimately show ?thesis by (simp add: token.equality)
qed

lemma token_signing_bytes_Ok:
  assumes "token_signing_bytes K t = Ok m"
  shows "\<exists>m' s. token_json K t = Ok (JObj m')
    \<and> s = sort_value (JObj (remove_keys [''sig''] m')) \<and> m = k_to_vec K s"
  using assms
  by (auto simp: token_signing_bytes_def to_canonical_bytes_def canonical_value_def token_json_def
      split: sum.splits json.splits if_splits)
section \<open>Properties\<close>

text \<open>
  The search of a grant is exactly "the first grant that decides": an \<open>Allow i\<close> is the first
  grant that covers the request and is either satisfied or asks for approval, and it asks for
  none; an approval denial is that same grant when it asks; a constraint violation means some
  grant covers the request but none decides; no grant means none covers it.
\<close>

theorem find_grant_spec:
  "(find_grant t r a ctx = Allow i \<longleftrightarrow> i < length (t_grants t)
      \<and> grant_accepts (t_grants t ! i) (r, a, ctx)
      \<and> (\<forall>j < i. \<not> deciding (t_grants t ! j) (r, a, ctx)))
  \<and> (find_grant t r a ctx = Deny ApprovalRequiredDeny (Some (GrantRule i)) \<longleftrightarrow>
      i < length (t_grants t) \<and> candidate (t_grants t ! i) (r, a, ctx)
      \<and> needs_approval (t_grants t ! i)
      \<and> (\<forall>j < i. \<not> deciding (t_grants t ! j) (r, a, ctx)))
  \<and> (find_grant t r a ctx = deny ConstraintViolated \<longleftrightarrow>
      (\<exists>g \<in> set (t_grants t). candidate g (r, a, ctx))
      \<and> (\<forall>g \<in> set (t_grants t). \<not> deciding g (r, a, ctx)))
  \<and> (find_grant t r a ctx = deny NoGrant \<longleftrightarrow>
      (\<forall>g \<in> set (t_grants t). \<not> candidate g (r, a, ctx)))"
  (is "(?allow \<longleftrightarrow> ?A) \<and> (?ask \<longleftrightarrow> ?B) \<and> (?violated \<longleftrightarrow> ?C) \<and> (?nogrant \<longleftrightarrow> ?D)")
proof (cases rule: find_grant_cases [of t r a ctx])
  case none
  then have "\<not> ?A" "\<not> ?B"
    using accepts_deciding asking_deciding nth_mem by blast+
  with none show ?thesis by (simp add: deny_def)
next
  case (first pre g post)
  have nth: "t_grants t ! length pre = g" "\<And>j. j < length pre \<Longrightarrow> t_grants t ! j = pre ! j"
    and len: "length pre < length (t_grants t)" "g \<in> set (t_grants t)"
    using first(1) by (auto simp: nth_append)
  have pre: "\<forall>j < length pre. \<not> deciding (t_grants t ! j) (r, a, ctx)"
    using nth(2) first(2) by auto
  have least: "i = length pre" if "deciding (t_grants t ! i) (r, a, ctx)"
    "\<forall>j < i. \<not> deciding (t_grants t ! j) (r, a, ctx)"
    using that first(3) nth(1) pre by (metis linorder_neqE_nat)
  have "?A \<longleftrightarrow> i = length pre \<and> \<not> needs_approval g"
    using least accepts_deciding deciding_cases [OF first(3)] nth(1) len(1) pre
    by (auto simp: grant_accepts_def)
  moreover have "?B \<longleftrightarrow> i = length pre \<and> needs_approval g"
    using least asking_deciding deciding_candidate [OF first(3)] nth(1) len(1) pre by auto
  moreover have "\<not> ?C" "\<not> ?D"
    using first(3) len(2) deciding_candidate by blast+
  ultimately show ?thesis
    using first(4) by (auto simp: deny_def)
qed

definition sales_grant :: grant where
  "sales_grant = grant_new ResFs ActRead ''~/ventes/**''"

definition sales_context :: check_context where
  "sales_context = default_context\<lparr>x_target := ''/home/u/ventes/q3.csv'', x_home := ''/home/u''\<rparr>"

definition sales_token :: token where
  "sales_token = \<lparr>t_v = 0, t_iss = ''capd@test'', t_sub = ''task:01'', t_agent = ''org.test'',
     t_user = ''u'', t_parent = None, t_grants = [sales_grant], t_iat = 0, t_exp = 1800,
     t_nonce = ''n'', t_sig = None\<rparr>"

theorem find_grant_spec_witness:
  "find_grant sales_token ResFs ActRead sales_context = Allow 0
   \<and> grant_accepts (t_grants sales_token ! 0) (ResFs, ActRead, sales_context)"
proof -
  have "find_grant sales_token ResFs ActRead sales_context = Allow 0" by code_simp
  then show ?thesis
    using find_grant_spec [of sales_token ResFs ActRead sales_context 0] by blast
qed

text \<open>
  C2. Delegation does not amplify authority, for tokens whose patterns are all well scoped: valid, and
  for a path not ending in \<open>/*/**\<close>. If such a child token is a subset of such a parent and the
  child's search allows a request, then the parent holds a grant that accepts that very request,
  so the parent's own search allows it or, at most, asks for a human approval first. It is never
  refused for want of a grant or for a violated constraint. Without the condition it is false:
  \<open>/d/*/**\<close> covers \<open>/d/*\<close>, which matches more (\<open>covers_unsound_star_tree\<close>).
\<close>

theorem delegation_no_amplification:
  assumes "token_wf parent" "token_wf child" "token_is_subset_of child parent"
    and "find_grant child r a ctx = Allow i"
  shows "(\<exists>p \<in> set (t_grants parent). grant_is_subset_of (t_grants child ! i) p
            \<and> grant_accepts p (r, a, ctx))
    \<and> ((\<exists>j. find_grant parent r a ctx = Allow j)
       \<or> (\<exists>j. find_grant parent r a ctx = Deny ApprovalRequiredDeny (Some (GrantRule j))))"
proof -
  from find_grant_Allow_accepts [OF assms(4)]
  have i: "t_grants child ! i \<in> set (t_grants child)" "grant_accepts (t_grants child ! i) (r, a, ctx)"
    by auto
  from assms(3) have "covers_all (\<lambda>p c. grant_is_subset_of c p) (t_grants parent) (t_grants child)"
    by (simp add: token_subset_covers_all)
  then obtain p where p: "p \<in> set (t_grants parent)" "grant_is_subset_of (t_grants child ! i) p"
      "grant_accepts p (r, a, ctx)"
    using authority.covers_all_sound [OF _ token_wfD [OF assms(1)] token_wfD [OF assms(2)] i] by blast
  with find_grant_accepted [OF p(1,3)] show ?thesis by blast
qed

theorem delegation_no_amplification_witness:
  "grant_accepts sales_grant (ResFs, ActRead, sales_context)"
proof -
  let ?c = "sales_token\<lparr>t_grants := [grant_new ResFs ActRead ''~/ventes/q3.csv''], t_exp := 600\<rparr>"
  have "token_wf sales_token" "token_wf ?c" "token_is_subset_of ?c sales_token"
    "find_grant ?c ResFs ActRead sales_context = Allow 0" by code_simp+
  from delegation_no_amplification [OF this] show ?thesis by (simp add: sales_token_def)
qed

text \<open>
  The same along a whole chain of delegations: when each token of a chain is a subset of the
  one before it, a request allowed by the last is accepted by some grant of the root, under the
  root's user and before the root's expiry.
\<close>

theorem delegation_chain_bounded_by_root:
  assumes "\<forall>t \<in> set (root # chain). token_wf t"
    and "successively (\<lambda>p c. token_is_subset_of c p) (root # chain)"
    and "t \<in> set (root # chain)" "find_grant t r a ctx = Allow i"
  shows "t_user t = t_user root \<and> t_exp t \<le> t_exp root
    \<and> (\<exists>g \<in> set (t_grants root). grant_accepts g (r, a, ctx))"
proof -
  let ?cov = "\<lambda>p c. grant_is_subset_of c p"
  have meta: "t_user t = t_user root \<and> t_exp t \<le> t_exp root"
    using assms(2,3)
  proof (induction chain arbitrary: root)
    case (Cons c chain)
    then show ?case by (cases "t = root") (fastforce simp: token_subset_covers_all)+
  qed simp
  have "covers_chain ?cov (map t_grants (root # chain))"
    using assms(2) by (induction chain arbitrary: root) (auto simp: token_subset_covers_all)
  moreover have wf: "\<forall>gs \<in> set (map t_grants (root # chain)). \<forall>g \<in> set gs. grant_wf g"
    using assms(1) token_wfD by auto
  ultimately have "covers_all ?cov (t_grants root) (t_grants t)"
    using authority.chain_head_covers [of "t_grants root" "map t_grants chain" "t_grants t"] assms(3)
    by auto
  moreover from find_grant_Allow_accepts [OF assms(4)]
  have "t_grants t ! i \<in> set (t_grants t)" "grant_accepts (t_grants t ! i) (r, a, ctx)" by auto
  ultimately have "\<exists>g \<in> set (t_grants root). grant_accepts g (r, a, ctx)"
    using authority.covers_all_sound [of "t_grants root" "t_grants t"]
      token_wfD [of root] token_wfD [of t] assms(1,3) by auto blast
  with meta show ?thesis by blast
qed

theorem delegation_chain_bounded_by_root_witness:
  "\<exists>g \<in> set (t_grants sales_token). grant_accepts g (ResFs, ActRead, sales_context)"
proof -
  let ?c = "sales_token\<lparr>t_grants := [grant_new ResFs ActRead ''~/ventes/*''], t_exp := 600\<rparr>"
  have "\<forall>t \<in> set (sales_token # [?c, ?c]). token_wf t"
    "successively (\<lambda>p c. token_is_subset_of c p) (sales_token # [?c, ?c])"
    "?c \<in> set (sales_token # [?c, ?c])"
    "find_grant ?c ResFs ActRead sales_context = Allow 0" by code_simp+
  from delegation_chain_bounded_by_root [OF this] show ?thesis by blast
qed

text \<open>
  Building signs what it validated: with a signature scheme that verifies its own signatures,
  a built token passes its own validation and verification, carries the builder's grants and
  expires after the requested time to live.
\<close>

definition crypto_ok :: "crypto \<Rightarrow> bool" where
  "crypto_ok K \<longleftrightarrow> (\<forall>m. k_verify K m (k_sign K m)) \<and> (\<forall>m. length (k_sign K m) = 64)
     \<and> (\<forall>x. k_b64_decode K (k_b64_encode K x) = Some x)"

lemma token_signing_bytes_sig [simp]:
  "token_signing_bytes K (t\<lparr>t_sig := s\<rparr>) = token_signing_bytes K t"
  by (simp add: token_signing_bytes_def token_json_def to_canonical_bytes_def canonical_value_def
      remove_keys_def token_fields_def opt_field_def AList.delete_eq split: sum.splits option.splits)

lemma token_sign_Ok:
  assumes "token_sign K t = Ok t'"
  shows "\<exists>m. token_signing_bytes K (t\<lparr>t_sig := None\<rparr>) = Ok m
    \<and> t' = t\<lparr>t_sig := Some (''ed25519:'' @ k_b64_encode K (k_sign K m))\<rparr>"
  using assms by (auto simp: token_sign_def Let_def split: sum.splits)

lemma token_validate_sig [simp]: "token_validate (t\<lparr>t_sig := s\<rparr>) = token_validate t"
  by (simp add: token_validate_def)

theorem token_build_correct:
  assumes "crypto_ok K" "token_build K b now nonce = Ok t"
  shows "token_validate t = Ok () \<and> token_verify K t = Ok () \<and> t_grants t = b_grants b
    \<and> t_iat t = now \<and> t_exp t = now + seconds (b_ttl_seconds b) \<and> 0 < b_ttl_seconds b"
proof -
  from assms(2) obtain t0 where t0: "token_validate t0 = Ok ()" "token_sign K t0 = Ok t"
    "t_grants t0 = b_grants b" "t_iat t0 = now" "t_exp t0 = now + seconds (b_ttl_seconds b)"
    by (auto simp: token_build_def datetime_add_def Let_def split: option.splits sum.splits if_splits)
  from token_sign_Ok [OF t0(2)] obtain m where m: "token_signing_bytes K (t0\<lparr>t_sig := None\<rparr>) = Ok m"
    "t = t0\<lparr>t_sig := Some (''ed25519:'' @ k_b64_encode K (k_sign K m))\<rparr>" by blast
  have "token_signing_bytes K t = Ok m"
    using m assms(1) by (simp add: crypto_ok_def)
  with m assms(1) have "token_verify K t = Ok ()"
    by (simp add: token_verify_def crypto_ok_def)
  moreover have "0 < b_ttl_seconds b"
    using t0(1,4,5) by (auto simp: token_validate_def seconds_def split: if_splits)
  ultimately show ?thesis using t0 m(2) by simp
qed

text \<open>A small scheme on which the hypotheses can be computed: the signature is a checksum.\<close>

definition demo_crypto :: crypto where
  "demo_crypto = \<lparr>k_to_vec = show_json, k_rfc3339 = (\<lambda>t. Ok (show_int t)), k_blake3_hex = rev,
     k_sign = (\<lambda>m. take 64 (m @ replicate 64 CHR ''.'')),
     k_verify = (\<lambda>m s. s = take 64 (m @ replicate 64 CHR ''.'')),
     k_b64_encode = (\<lambda>x. x), k_b64_decode = Some\<rparr>"

lemma demo_crypto_ok: "crypto_ok demo_crypto"
  by (simp add: crypto_ok_def demo_crypto_def) (simp add: min_def)

definition sales_builder :: token_builder where
  "sales_builder = (token_builder_new ''capd@test'' ''task:01'' ''org.test'' ''u'')
     \<lparr>b_grants := [sales_grant]\<rparr>"

theorem token_build_correct_witness:
  "\<exists>t. token_build demo_crypto sales_builder 0 ''n'' = Ok t \<and> token_verify demo_crypto t = Ok ()"
proof -
  have "case token_build demo_crypto sales_builder 0 ''n'' of Inl _ \<Rightarrow> False | Inr _ \<Rightarrow> True"
    by code_simp
  then obtain t where "token_build demo_crypto sales_builder 0 ''n'' = Ok t"
    by (auto split: sum.splits)
  with token_build_correct [OF demo_crypto_ok this] show ?thesis by blast
qed

text \<open>
  C18. The signed bytes bind every field of a token but the signature: two tokens with the same
  signed bytes are equal up to \<open>sig\<close>, grants and constraints included, whatever the order of their
  JSON keys. So a signature cannot be carried over to a token with wider grants, another user or
  a later expiry.
\<close>

theorem signed_bytes_bind_token:
  assumes "encoding_ok K" "token_canon t" "token_canon t'"
    and "token_signing_bytes K t = Ok m" "token_signing_bytes K t' = Ok m"
  shows "t\<lparr>t_sig := None\<rparr> = t'\<lparr>t_sig := None\<rparr>"
proof -
  from token_signing_bytes_Ok [OF assms(4)] token_signing_bytes_Ok [OF assms(5)]
  obtain v v' where v: "token_json K t = Ok (JObj v)" "token_json K t' = Ok (JObj v')"
    "k_to_vec K (sort_value (JObj (remove_keys [''sig''] v)))
       = k_to_vec K (sort_value (JObj (remove_keys [''sig''] v')))" by auto
  then have "sort_value (JObj (remove_keys [''sig''] v)) = sort_value (JObj (remove_keys [''sig''] v'))"
    using assms(1) by (auto simp: encoding_ok_def dest: injD)
  note eq = sort_value_eq_field [OF this]
  show ?thesis
  proof (rule token_json_inject [OF assms(1) v(1,2) _ assms(2,3)])
    show "map_option sort_value (field k (JObj v)) = map_option sort_value (field k (JObj v'))"
      if "k \<noteq> ''sig''" for k
      using eq [of k] that by (simp add: map_of_remove_keys)
  qed
qed

lemma demo_encoding_ok: "encoding_ok demo_crypto"
  by (simp add: encoding_ok_def demo_crypto_def inj_show_json)

theorem signed_bytes_bind_token_witness:
  "\<exists>m. token_signing_bytes demo_crypto sales_token = Ok m \<and>
     token_signing_bytes demo_crypto (sales_token\<lparr>t_exp := 9999\<rparr>) \<noteq> Ok m"
proof -
  let ?t = "sales_token\<lparr>t_exp := 9999\<rparr>"
  have ok: "token_canon sales_token" "token_canon ?t" by code_simp+
  have "\<exists>m. token_signing_bytes demo_crypto sales_token = Ok m"
    by (simp add: token_signing_bytes_def to_canonical_bytes_def canonical_value_def token_json_def
        demo_crypto_def)
  then obtain m where m: "token_signing_bytes demo_crypto sales_token = Ok m" ..
  have "token_signing_bytes demo_crypto ?t \<noteq> Ok m"
    using signed_bytes_bind_token [OF demo_encoding_ok ok m] by (auto simp: sales_token_def)
  with m show ?thesis by blast
qed

end
