(* ===== verification/Policy.thy ===== *)
theory Policy
  imports Cap_Token
begin

text \<open>
  The policy engine (\<^verbatim>\<open>crates/capd/src/policy.rs\<close>). Cedar, which compiles and evaluates policy
  texts, is third-party code: an engine is a function from the request the code builds to Cedar's
  answer. \<open>default_engine\<close> reads \<open>DEFAULT_POLICIES\<close> under Cedar's documented semantics (deny
  by default, a \<open>forbid\<close> overrides every \<open>permit\<close>).
\<close>

section \<open>Facts and requests\<close>

record resource_facts =
  f_target :: string
  f_sensitive :: bool
  f_irreversible :: bool
  f_external :: bool
  f_confined_utility :: bool

definition default_facts :: resource_facts where
  "default_facts = \<lparr>f_target = [], f_sensitive = False, f_irreversible = False, f_external = False,
     f_confined_utility = False\<rparr>"

datatype action_class = LocalRead | LocalWriteReversible | LocalWriteSensitive | NetworkRead
  | IrreversibleExternal | CodeExecution | Elevation

fun requires_approval :: "action_class \<Rightarrow> bool" where
  "requires_approval LocalWriteSensitive = True"
| "requires_approval IrreversibleExternal = True"
| "requires_approval Elevation = True"
| "requires_approval _ = False"

definition action_name :: "res \<Rightarrow> act \<Rightarrow> string" where
  "action_name r a = res_name r @ ''.'' @ act_name a"

definition classify :: "res \<Rightarrow> act \<Rightarrow> resource_facts \<Rightarrow> action_class" where
  "classify r a f =
     (if f_sensitive f \<and> a = ActWrite then LocalWriteSensitive
      else if r = ResProc \<and> a = ActExec then CodeExecution
      else if (r = ResCap \<and> a = ActDelegate) \<or> (r = ResLedger \<and> a = ActReadAll) then Elevation
      else if f_irreversible f \<or> f_external f then IrreversibleExternal
      else if (r = ResFs \<and> a = ActWrite) \<or> (r = ResMemory \<and> a = ActWrite) then LocalWriteReversible
      else if r = ResNet \<and> a = ActEgress then NetworkRead
      else LocalRead)"

section \<open>Sensitive paths\<close>

definition SENSITIVE_PATHS :: "string list" where
  "SENSITIVE_PATHS = [''~/.ssh'', ''~/.gnupg'', ''~/.aws'', ''~/.config/gh'', ''~/.netrc'',
     ''~/.git-credentials'', ''~/.prophet/vault'', ''/etc/shadow'', ''/etc/sudoers'',
     ''/etc/prophet/policies'', ''/var/lib/prophet/capd'', ''/var/lib/prophet/vault'',
     ''/var/lib/prophet/providers'']"

definition is_sensitive_path :: "string \<Rightarrow> string \<Rightarrow> bool" where
  "is_sensitive_path path home = list_ex (\<lambda>pattern.
     let expanded = expand_home pattern home
     in path = expanded \<or> starts_with (expanded @ ''/'') path) SENSITIVE_PATHS"

section \<open>Engines\<close>

record policy_request =
  p_task :: string
  p_action :: string
  p_target :: string
  p_sensitive :: bool
  p_irreversible :: bool
  p_external :: bool
  p_confined_utility :: bool
  p_sandbox_level :: nat

datatype policy_error = PolicyParse string | PolicyEntity string | PolicyRequest string

type_synonym engine = "policy_request \<Rightarrow> policy_error + bool"

definition policy_request_of :: "string \<Rightarrow> res \<Rightarrow> act \<Rightarrow> resource_facts \<Rightarrow> nat \<Rightarrow> policy_request" where
  "policy_request_of task r a f level = \<lparr>p_task = task, p_action = action_name r a,
     p_target = f_target f, p_sensitive = f_sensitive f, p_irreversible = f_irreversible f,
     p_external = f_external f, p_confined_utility = f_confined_utility f, p_sandbox_level = level\<rparr>"

definition allows :: "engine \<Rightarrow> string \<Rightarrow> res \<Rightarrow> act \<Rightarrow> resource_facts \<Rightarrow> nat \<Rightarrow> policy_error + bool" where
  "allows E task r a f level = E (policy_request_of task r a f level)"

text \<open>A Cedar policy: an effect and the condition under which it applies.\<close>

datatype policy = Forbid "policy_request \<Rightarrow> bool" | Permit "policy_request \<Rightarrow> bool"

fun forbids :: "policy_request \<Rightarrow> policy \<Rightarrow> bool" where
  "forbids q (Forbid c) = c q" | "forbids q (Permit c) = False"

fun permits :: "policy_request \<Rightarrow> policy \<Rightarrow> bool" where
  "permits q (Forbid c) = False" | "permits q (Permit c) = c q"

definition cedar :: "policy list \<Rightarrow> engine" where
  "cedar ps q = Ok (\<not> list_ex (forbids q) ps \<and> list_ex (permits q) ps)"

definition action_in :: "string list \<Rightarrow> policy_request \<Rightarrow> bool" where
  "action_in names q \<longleftrightarrow> p_action q \<in> set names"

definition DEFAULT_POLICIES :: "policy list" where
  "DEFAULT_POLICIES =
    [Forbid p_sensitive,
     Forbid (\<lambda>q. action_in [''proc.exec''] q \<and> \<not> (2 \<le> p_sandbox_level q \<or> p_confined_utility q)),
     Permit (action_in [''fs.read'', ''fs.list'', ''ui.read'', ''ledger.read'', ''memory.read'',
       ''model.use'']),
     Permit (action_in [''fs.write'', ''memory.write'']),
     Permit (action_in [''net.egress'', ''tool.call'', ''ui.act'']),
     Permit (action_in [''proc.exec'']),
     Permit (action_in [''task.spawn'', ''cap.delegate''])]"

definition default_engine :: engine where
  "default_engine = cedar DEFAULT_POLICIES"

section \<open>What the clients of an engine rely on\<close>

text \<open>
  The contract the broker's decision cache and its guards use: the answer depends on the target
  and the task only through the facts, and a sensitive target is never allowed.
\<close>

definition same_facts :: "policy_request \<Rightarrow> policy_request \<Rightarrow> bool" where
  "same_facts q q' \<longleftrightarrow> q\<lparr>p_task := [], p_target := []\<rparr> = q'\<lparr>p_task := [], p_target := []\<rparr>"

locale policy_contract =
  fixes E :: engine
  assumes fact_based: "same_facts q q' \<Longrightarrow> E q = E q'"
    and sensitive_refused: "p_sensitive q \<Longrightarrow> E q \<noteq> Ok True"
    and exec_isolated: "p_action q = ''proc.exec'' \<Longrightarrow> E q = Ok True \<Longrightarrow>
      2 \<le> p_sandbox_level q \<or> p_confined_utility q"
begin

lemma allows_target: "allows E task r a f level = allows E task' r a (f\<lparr>f_target := t\<rparr>) level"
  unfolding allows_def by (rule fact_based) (simp add: same_facts_def policy_request_of_def)

lemma allowed_not_sensitive: "allows E task r a f level = Ok True \<Longrightarrow> \<not> f_sensitive f"
  using sensitive_refused [of "policy_request_of task r a f level"]
  by (auto simp: allows_def policy_request_of_def)

lemma allowed_exec: "allows E task ResProc ActExec f level = Ok True \<Longrightarrow>
    2 \<le> level \<or> f_confined_utility f"
  using exec_isolated [of "policy_request_of task ResProc ActExec f level"]
  by (auto simp: allows_def policy_request_of_def action_name_def)

end

lemma default_engine_iff: "default_engine q = Ok b \<longleftrightarrow> (b \<longleftrightarrow>
    \<not> p_sensitive q
    \<and> (p_action q = ''proc.exec'' \<longrightarrow> 2 \<le> p_sandbox_level q \<or> p_confined_utility q)
    \<and> p_action q \<in> set [''fs.read'', ''fs.list'', ''ui.read'', ''ledger.read'', ''memory.read'',
        ''model.use'', ''fs.write'', ''memory.write'', ''net.egress'', ''tool.call'', ''ui.act'',
        ''proc.exec'', ''task.spawn'', ''cap.delegate''])"
  by (auto simp: default_engine_def cedar_def DEFAULT_POLICIES_def action_in_def)

interpretation defaults: policy_contract default_engine
proof unfold_locales
  show "default_engine q = default_engine q'" if "same_facts q q'" for q q'
    using that by (simp add: same_facts_def default_engine_def cedar_def DEFAULT_POLICIES_def
        action_in_def policy_request.ext_inject policy_request.update_convs split: if_splits)
      (cases q; cases q'; simp)
qed (auto simp: default_engine_iff)

section \<open>Properties\<close>

text \<open>
  What the shipped policies allow, for every resource and action: never a sensitive target,
  execution only in a microVM or for a confined utility, never the journal of all tasks nor a
  screen capture, and otherwise exactly the listed pairs.
\<close>

theorem default_policies_spec:
  "allows default_engine task r a f level = Ok b \<longleftrightarrow> (b \<longleftrightarrow>
     \<not> f_sensitive f
   \<and> (r = ResProc \<and> a = ActExec \<longrightarrow> 2 \<le> level \<or> f_confined_utility f)
   \<and> (r, a) \<in> set LEGAL_PAIRS - {(ResLedger, ActReadAll), (ResUi, ActVision)})"
proof -
  have "action_name r a \<in> set [''fs.read'', ''fs.list'', ''ui.read'', ''ledger.read'',
      ''memory.read'', ''model.use'', ''fs.write'', ''memory.write'', ''net.egress'', ''tool.call'',
      ''ui.act'', ''proc.exec'', ''task.spawn'', ''cap.delegate'']
    \<longleftrightarrow> (r, a) \<in> set LEGAL_PAIRS - {(ResLedger, ActReadAll), (ResUi, ActVision)}"
    by (cases r; cases a) (simp_all add: action_name_def LEGAL_PAIRS_def)
  moreover have "action_name r a = ''proc.exec'' \<longleftrightarrow> r = ResProc \<and> a = ActExec"
    by (cases r; cases a) (simp_all add: action_name_def)
  ultimately show ?thesis
    by (simp add: allows_def default_engine_iff policy_request_of_def)
qed

theorem default_policies_spec_witness:
  "allows default_engine ''task:01'' ResProc ActExec
     (default_facts\<lparr>f_target := ''wc'', f_confined_utility := True\<rparr>) 0 = Ok True"
  by (simp add: default_policies_spec LEGAL_PAIRS_def default_facts_def)

text \<open>
  A path is sensitive exactly when one of the listed roots, its tilde expanded, is the path or
  one of its parent directories; so a sensitive directory protects everything written under it,
  and no sibling that merely shares a prefix.
\<close>

theorem is_sensitive_path_iff:
  "is_sensitive_path path home \<longleftrightarrow>
     (\<exists>root \<in> set SENSITIVE_PATHS. path = expand_home root home
        \<or> (\<exists>rest. path = expand_home root home @ ''/'' @ rest))"
  by (auto simp: is_sensitive_path_def list_ex_iff Let_def starts_with_iff)

theorem is_sensitive_path_iff_witness:
  "is_sensitive_path ''/home/u/.ssh/id'' ''/home/u'' \<and> \<not> is_sensitive_path ''/etc/shadow2'' ''/home/u''"
proof
  have "expand_home ''~/.ssh'' ''/home/u'' = ''/home/u/.ssh''" by code_simp
  then show "is_sensitive_path ''/home/u/.ssh/id'' ''/home/u''"
    unfolding is_sensitive_path_iff by (intro bexI [of _ "''~/.ssh''"]) (auto simp: SENSITIVE_PATHS_def)
  show "\<not> is_sensitive_path ''/etc/shadow2'' ''/home/u''"
    by code_simp
qed

end
