(* ===== verification/Manifest.thy ===== *)
theory Manifest
  imports Policy
begin

text \<open>
  Agent manifests (\<^verbatim>\<open>crates/prophet-types/src/manifest.rs\<close>): their sections, the keys of the
  capability ceiling, durations, and validation in the order of the code, so that the error is the
  first rule violated. Reading TOML is third-party code; the model starts from the parsed manifest.
  Base64 decoding is the parameter \<open>b64_decode\<close>. \<open>ManifestPanic\<close> marks a Rust panic as a value.
\<close>

section \<open>Data\<close>

definition SCHEMA_VERSION :: nat where
  "SCHEMA_VERSION = 0"

datatype manifest_error = UnknownSchema nat | BadId string | BadVersion string
  | BadPublisherKey string | BadModelRef string | NoModelPreference | NoCapabilities
  | BadCapabilityKey string | BadPattern string pattern_error | BadSandboxLevel nat
  | ExecWithoutMicrovm | BadBudget string | BadDuration string | BadRole string | ManifestPanic

definition MODEL_ROLES :: "string list" where
  "MODEL_ROLES = [''reflect'', ''execute'', ''code'', ''review'']"

datatype privacy = LocalOnly | LocalPreferred | AnyPrivacy

datatype code_execution = CodeForbidden | Microvm

text \<open>An \<open>f64\<close>: a finite one is \<open>m * 2 ^ e\<close>.\<close>

datatype f64 = F64 int int | F64_inf bool | F64_nan

fun f64_negative :: "f64 \<Rightarrow> bool" where
  "f64_negative (F64 m e) = (m < 0)"
| "f64_negative (F64_inf neg) = neg"
| "f64_negative F64_nan = False"

record agent_section =
  ag_id :: string
  ag_version :: string
  ag_name :: string
  ag_description :: string
  ag_publisher_key :: string

record model_section =
  mo_preferred :: "string list"
  mo_privacy :: privacy
  mo_min_capability :: string
  mo_roles :: "(string, string list) amap"

definition role_of :: "model_section \<Rightarrow> string \<Rightarrow> string option" where
  "role_of m reference = find (\<lambda>role.
     case map_of (mo_roles m) role of
       Some models \<Rightarrow> list_ex (\<lambda>r. r = reference) models
     | None \<Rightarrow> False) MODEL_ROLES"

record sandbox_section =
  sb_min_level :: nat
  sb_code_execution :: code_execution

definition default_sandbox :: sandbox_section where
  "default_sandbox = \<lparr>sb_min_level = 1, sb_code_execution = CodeForbidden\<rparr>"

record budget_section =
  bu_tokens :: nat
  bu_wall_time :: string
  bu_approvals :: nat
  bu_cost_eur :: f64

definition default_budget :: budget_section where
  "default_budget = \<lparr>bu_tokens = 200000, bu_wall_time = ''20m'', bu_approvals = 5,
     bu_cost_eur = F64 0 0\<rparr>"

record action_rule =
  ar_require_approval :: bool
  ar_max_calls :: "nat option"

record manifest =
  m_schema_version :: nat
  m_agent :: agent_section
  m_model :: model_section
  m_capabilities :: "(string, string list) amap"
  m_sandbox :: sandbox_section
  m_budget :: budget_section
  m_actions :: "(string, action_rule) amap"
  m_memory_spaces :: "string list"

section \<open>Keys and durations\<close>

definition res_names :: "(string, res) amap" where
  "res_names = [(''fs'', ResFs), (''net'', ResNet), (''tool'', ResTool), (''proc'', ResProc),
     (''ui'', ResUi), (''ledger'', ResLedger), (''memory'', ResMemory), (''model'', ResModel),
     (''task'', ResTask), (''cap'', ResCap)]"

definition act_names :: "(string, act) amap" where
  "act_names = [(''read'', ActRead), (''write'', ActWrite), (''list'', ActList),
     (''egress'', ActEgress), (''call'', ActCall), (''exec'', ActExec), (''act'', ActAct),
     (''vision'', ActVision), (''read_all'', ActReadAll), (''use'', ActUse), (''spawn'', ActSpawn),
     (''delegate'', ActDelegate)]"

definition parse_capability_key :: "string \<Rightarrow> manifest_error + (res \<times> act)" where
  "parse_capability_key key =
     (case split_once CHR ''.'' key of
        None \<Rightarrow> Err (BadCapabilityKey key)
      | Some (r, a) \<Rightarrow>
          (case map_of res_names r of
             None \<Rightarrow> Err (BadCapabilityKey key)
           | Some res \<Rightarrow>
               (case map_of act_names a of
                  None \<Rightarrow> Err (BadCapabilityKey key)
                | Some act \<Rightarrow> Ok (res, act))))"

text \<open>\<open>str::split_at\<close> panics inside a scalar value.\<close>

definition split_at :: "nat \<Rightarrow> string \<Rightarrow> (string \<times> string) option" where
  "split_at n s =
     (if n < length s \<and> is_continuation (s ! n) \<or> length s < n then None
      else Some (take n s, drop n s))"

definition checked_mul_u64 :: "nat \<Rightarrow> nat \<Rightarrow> nat option" where
  "checked_mul_u64 a b = (if a * b < 18446744073709551616 then Some (a * b) else None)"

definition parse_duration :: "string \<Rightarrow> manifest_error + nat" where
  "parse_duration text =
     (case split_at (length text - 1) text of
        None \<Rightarrow> Err ManifestPanic
      | Some (value, unit) \<Rightarrow>
          (case parse_u64 value of
             None \<Rightarrow> Err (BadDuration text)
           | Some v \<Rightarrow>
               (case (if unit = ''s'' then Some v
                      else if unit = ''m'' then checked_mul_u64 v 60
                      else if unit = ''h'' then checked_mul_u64 v 3600 else None) of
                  None \<Rightarrow> Err (BadDuration text)
                | Some secs \<Rightarrow>
                    if secs = 0 \<or> 86400 < secs then Err (BadDuration text) else Ok secs)))"

section \<open>Rules on single values\<close>

definition validate_id :: "string \<Rightarrow> manifest_error + unit" where
  "validate_id i =
     (if length i < 3 \<or> 128 < length i then Err (BadId i)
      else if length (str_split CHR ''.'' i) < 2 then Err (BadId i)
      else if starts_with ''.'' i \<or> ends_with ''.'' i \<or> contains_str ''..'' i then Err (BadId i)
      else if \<not> list_all (\<lambda>c. is_ascii_lowercase c \<or> is_ascii_digit c \<or> c = CHR ''.'' \<or> c = CHR ''-'') i
        then Err (BadId i)
      else Ok ())"

definition before_dash :: "string \<Rightarrow> string" where
  "before_dash v = (case split_once CHR ''-'' v of None \<Rightarrow> v | Some (c, _) \<Rightarrow> c)"

definition semver_core :: "string \<Rightarrow> string" where
  "semver_core v =
     (case split_once CHR ''+'' (before_dash v) of None \<Rightarrow> before_dash v | Some (c, _) \<Rightarrow> c)"

definition validate_semver :: "string \<Rightarrow> manifest_error + unit" where
  "validate_semver v =
     (let parts = str_split CHR ''.'' (semver_core v)
      in if length parts \<noteq> 3 then Err (BadVersion v)
         else if list_ex (\<lambda>part. part = [] \<or> \<not> list_all is_ascii_digit part
             \<or> (1 < length part \<and> starts_with ''0'' part)) parts
           then Err (BadVersion v)
         else Ok ())"

definition validate_publisher_key ::
    "(string \<Rightarrow> string option) \<Rightarrow> string \<Rightarrow> manifest_error + unit" where
  "validate_publisher_key b64_decode key =
     (case strip_prefix ''ed25519:'' key of
        None \<Rightarrow> Err (BadPublisherKey key)
      | Some raw \<Rightarrow>
          (case b64_decode raw of
             None \<Rightarrow> Err (BadPublisherKey key)
           | Some bytes \<Rightarrow> if length bytes \<noteq> 32 then Err (BadPublisherKey key) else Ok ()))"

definition split_driver :: "string \<Rightarrow> (string \<times> string option) option" where
  "split_driver reference =
     (case strip_prefix ''driver:'' reference of
        None \<Rightarrow> None
      | Some rest \<Rightarrow>
          (case split_once CHR ''@'' rest of
             None \<Rightarrow> Some (rest, None)
           | Some (client, palier) \<Rightarrow> Some (client, Some palier)))"

definition palier_valide :: "string option \<Rightarrow> bool" where
  "palier_valide palier \<longleftrightarrow> (case palier of None \<Rightarrow> True
     | Some p \<Rightarrow> p \<noteq> [] \<and> list_all (\<lambda>c. is_ascii_alphanumeric c \<or> c \<in> set ''._-'') p)"

definition validate_model_ref :: "string \<Rightarrow> manifest_error + unit" where
  "validate_model_ref reference =
     (case split_once CHR '':'' reference of
        None \<Rightarrow> Err (BadModelRef reference)
      | Some (kind, rest) \<Rightarrow>
          if rest = [] then Err (BadModelRef reference)
          else if kind = ''local'' then Ok ()
          else if kind = ''driver'' then
            (case split_driver reference of
               None \<Rightarrow> Err (BadModelRef reference)
             | Some (client, palier) \<Rightarrow>
                 if client \<noteq> [] \<and> palier_valide palier then Ok () else Err (BadModelRef reference))
          else if kind = ''api'' then
            (if length (str_split CHR '':'' rest) = 2 \<and> \<not> list_ex (\<lambda>p. p = []) (str_split CHR '':'' rest)
             then Ok () else Err (BadModelRef reference))
          else Err (BadModelRef reference))"

section \<open>Validation of a manifest\<close>

text \<open>The \<open>?\<close> operator, and \<open>for x in xs { f(x)?; }\<close>.\<close>

definition and_then :: "('e + 'a) \<Rightarrow> ('a \<Rightarrow> 'e + 'b) \<Rightarrow> 'e + 'b" where
  "and_then r f = (case r of Inl e \<Rightarrow> Err e | Inr x \<Rightarrow> f x)"

fun for_each :: "('a \<Rightarrow> 'e + unit) \<Rightarrow> 'a list \<Rightarrow> 'e + unit" where
  "for_each f [] = Ok ()"
| "for_each f (x # xs) = and_then (f x) (\<lambda>_. for_each f xs)"

definition validate_role :: "string \<times> string list \<Rightarrow> manifest_error + unit" where
  "validate_role = (\<lambda>(role, models).
     if role \<notin> set MODEL_ROLES \<or> models = [] then Err (BadRole role)
     else for_each validate_model_ref models)"

definition validate_pattern :: "string \<Rightarrow> res \<Rightarrow> string \<Rightarrow> manifest_error + unit" where
  "validate_pattern key r pattern =
     (case validate (family_of r) pattern of
        Inl source \<Rightarrow> Err (BadPattern key source) | Inr _ \<Rightarrow> Ok ())"

definition validate_capability :: "string \<times> string list \<Rightarrow> manifest_error + unit" where
  "validate_capability = (\<lambda>(key, patterns).
     and_then (parse_capability_key key) (\<lambda>(r, _). for_each (validate_pattern key r) patterns))"

definition arbitrary_exec :: "manifest \<Rightarrow> bool" where
  "arbitrary_exec m = (case map_of (m_capabilities m) ''proc.exec'' of
     None \<Rightarrow> False | Some v \<Rightarrow> list_ex (\<lambda>p. \<not> is_safe_utility p) v)"

definition manifest_validate :: "(string \<Rightarrow> string option) \<Rightarrow> manifest \<Rightarrow> manifest_error + unit" where
  "manifest_validate b64_decode m =
     (if m_schema_version m \<noteq> SCHEMA_VERSION then Err (UnknownSchema (m_schema_version m))
      else and_then (validate_id (ag_id (m_agent m))) (\<lambda>_.
      and_then (validate_semver (ag_version (m_agent m))) (\<lambda>_.
      and_then (validate_publisher_key b64_decode (ag_publisher_key (m_agent m))) (\<lambda>_.
      if mo_preferred (m_model m) = [] then Err NoModelPreference
      else and_then (for_each validate_model_ref (mo_preferred (m_model m))) (\<lambda>_.
      and_then (for_each validate_role (mo_roles (m_model m))) (\<lambda>_.
      if m_capabilities m = [] then Err NoCapabilities
      else and_then (for_each validate_capability (m_capabilities m)) (\<lambda>_.
      if 2 < sb_min_level (m_sandbox m) then Err (BadSandboxLevel (sb_min_level (m_sandbox m)))
      else if arbitrary_exec m \<and> sb_code_execution (m_sandbox m) \<noteq> Microvm then Err ExecWithoutMicrovm
      else if bu_tokens (m_budget m) = 0 then Err (BadBudget ''tokens = 0'')
      else if bu_approvals (m_budget m) = 0 then Err (BadBudget ''approvals = 0'')
      else if f64_negative (bu_cost_eur (m_budget m))
        then Err (BadBudget (''cost_eur n'' @ map char_of [195 :: nat, 169] @ ''gatif''))
      else and_then (parse_duration (bu_wall_time (m_budget m))) (\<lambda>_. Ok ()))))))))"

fun ceiling_of :: "(string, string list) amap \<Rightarrow> manifest_error + grant list" where
  "ceiling_of [] = Ok []"
| "ceiling_of ((key, patterns) # caps) =
     and_then (parse_capability_key key) (\<lambda>(r, a).
     and_then (ceiling_of caps) (\<lambda>grants. Ok (map (grant_new r a) patterns @ grants)))"

definition ceiling :: "manifest \<Rightarrow> manifest_error + grant list" where
  "ceiling m = ceiling_of (m_capabilities m)"

definition wall_time_seconds :: "manifest \<Rightarrow> manifest_error + nat" where
  "wall_time_seconds m = parse_duration (bu_wall_time (m_budget m))"

section \<open>Helper lemmas\<close>

lemma and_then_Ok [simp]: "and_then r f = Ok y \<longleftrightarrow> (\<exists>x. r = Ok x \<and> f x = Ok y)"
  by (cases r) (auto simp: and_then_def)

lemma for_each_Ok [simp]: "for_each f xs = Ok () \<longleftrightarrow> (\<forall>x \<in> set xs. f x = Ok ())"
  by (induction xs) auto

lemma if_Err_Ok [simp]: "(if c then Err e else r) = Ok x \<longleftrightarrow> \<not> c \<and> r = Ok x"
  by auto

lemma map_of_res_names: "map_of res_names s = Some r \<longleftrightarrow> s = res_name r"
  by (cases r) (auto simp: res_names_def split: if_splits)

lemma map_of_act_names: "map_of act_names s = Some a \<longleftrightarrow> s = act_name a"
  by (cases a) (auto simp: act_names_def split: if_splits)

lemma no_dot_res_name: "CHR ''.'' \<notin> set (res_name r)"
  by (cases r) auto

lemma ceiling_Ok: "ceiling m = Ok gs \<Longrightarrow> g \<in> set gs \<longleftrightarrow>
    (\<exists>key patterns r a. (key, patterns) \<in> set (m_capabilities m) \<and> parse_capability_key key = Ok (r, a)
       \<and> g_pattern g \<in> set patterns \<and> g = grant_new r a (g_pattern g))"
proof -
  have "ceiling_of caps = Ok gs \<Longrightarrow> g \<in> set gs \<longleftrightarrow>
    (\<exists>key patterns r a. (key, patterns) \<in> set caps \<and> parse_capability_key key = Ok (r, a)
       \<and> g_pattern g \<in> set patterns \<and> g = grant_new r a (g_pattern g))" for caps
  proof (induction caps arbitrary: gs)
    case (Cons kp caps)
    obtain key patterns where kp: "kp = (key, patterns)" by (cases kp)
    with Cons.prems obtain r a gs' where *: "parse_capability_key key = Ok (r, a)"
      "ceiling_of caps = Ok gs'" "gs = map (grant_new r a) patterns @ gs'" by auto
    have "g \<in> set (map (grant_new r a) patterns) \<longleftrightarrow>
        g_pattern g \<in> set patterns \<and> g = grant_new r a (g_pattern g)"
      by (auto simp: grant_new_def)
    with Cons.IH [OF *(2)] *(1,3) show ?case unfolding kp by auto
  qed simp
  then show "ceiling m = Ok gs \<Longrightarrow> ?thesis" by (simp add: ceiling_def)
qed

lemma validate_capability_Ok: "validate_capability (key, patterns) = Ok () \<longleftrightarrow>
    (\<exists>r a. parse_capability_key key = Ok (r, a) \<and> (\<forall>p \<in> set patterns. validate_pattern key r p = Ok ()))"
  by (auto simp: validate_capability_def)

lemma ceiling_total:
  "\<forall>(key, patterns) \<in> set caps. \<exists>ra. parse_capability_key key = Ok ra \<Longrightarrow> \<exists>gs. ceiling_of caps = Ok gs"
proof (induction caps)
  case (Cons kp caps)
  then show ?case by (cases kp) (fastforce simp: and_then_def split: sum.splits)
qed simp

section \<open>Properties\<close>

text \<open>
  Capability keys and typed pairs are the same thing: a key parses to a pair exactly when it is
  the name the policy engine and the denials use for that pair.
\<close>

theorem capability_key_roundtrip:
  "parse_capability_key key = Ok (r, a) \<longleftrightarrow> key = action_name r a"
proof -
  have "parse_capability_key key = Ok (r, a) \<longleftrightarrow>
      split_once CHR ''.'' key = Some (res_name r, act_name a)"
    by (auto simp: parse_capability_key_def map_of_res_names map_of_act_names split: option.splits)
      (metis map_of_res_names map_of_act_names not_None_eq option.inject)+
  also have "\<dots> \<longleftrightarrow> key = action_name r a"
    using no_dot_res_name by (auto simp: split_once_Some action_name_def)
  finally show ?thesis .
qed

text \<open>
  Durations, on every input: a text is a number of seconds, minutes or hours, at least one
  second and at most a day; the one text that is not refused with an error is the text whose last
  scalar value has several bytes, on which the code panics.
\<close>

theorem parse_duration_spec:
  "(parse_duration text = Ok n \<longleftrightarrow> (\<exists>ds u k. text = ds @ [u] \<and> parse_u64 ds = Some k
      \<and> (u, n) \<in> {(CHR ''s'', k), (CHR ''m'', k * 60), (CHR ''h'', k * 3600)} \<and> 0 < n \<and> n \<le> 86400))
  \<and> (parse_duration text = Err ManifestPanic \<longleftrightarrow> text \<noteq> [] \<and> is_continuation (last text))
  \<and> (\<forall>e. parse_duration text = Err e \<longrightarrow> e = ManifestPanic \<or> e = BadDuration text)"
proof (cases "text" rule: rev_cases)
  case Nil
  then show ?thesis
    by (simp add: parse_duration_def split_at_def parse_u64_def parse_unsigned_def)
next
  case (snoc ds u)
  have split: "split_at (length text - 1) text = (if is_continuation u then None else Some (ds, [u]))"
    by (simp add: snoc split_at_def nth_append)
  have no: "\<not> is_continuation CHR ''s''" "\<not> is_continuation CHR ''m''" "\<not> is_continuation CHR ''h''"
    by code_simp+
  show ?thesis
  proof (cases "is_continuation u")
    case True
    then have "parse_duration text = Err ManifestPanic"
      unfolding parse_duration_def split by simp
    with True no show ?thesis by (auto simp: snoc)
  next
    case False
    then have eq: "parse_duration text = (case parse_u64 ds of None \<Rightarrow> Err (BadDuration text)
      | Some v \<Rightarrow> (case (if u = CHR ''s'' then Some v
                      else if u = CHR ''m'' then checked_mul_u64 v 60
                      else if u = CHR ''h'' then checked_mul_u64 v 3600 else None) of
                  None \<Rightarrow> Err (BadDuration text)
                | Some secs \<Rightarrow>
                    if secs = 0 \<or> 86400 < secs then Err (BadDuration text) else Ok secs))"
      unfolding parse_duration_def split by (simp cong: option.case_cong if_cong)
    show ?thesis
      unfolding eq using False
      by (auto simp: snoc checked_mul_u64_def split: option.splits if_splits)
  qed
qed

theorem parse_duration_spec_witness:
  "parse_duration ''20m'' = Ok 1200 \<and> parse_duration (CHR ''5'' # map char_of [226 :: nat, 130, 172]) = Err ManifestPanic"
proof
  have "parse_u64 ''20'' = Some 20"
    by (simp add: parse_u64_def parse_unsigned_def is_ascii_digit_def byte_def)
  then show "parse_duration ''20m'' = Ok 1200"
    by (subst parse_duration_spec [THEN conjunct1]) (intro exI [of _ "''20''"]; force)
  show "parse_duration (CHR ''5'' # map char_of [226 :: nat, 130, 172]) = Err ManifestPanic"
    using parse_duration_spec [of "CHR ''5'' # map char_of [226 :: nat, 130, 172]" 0]
    by (simp add: is_continuation_def byte_def)
qed

text \<open>
  What a validated manifest guarantees its users: its capability keys all name a resource and
  an action, so the ceiling exists and each of its patterns is valid in its family; its identifier
  and models are well formed; a program other than a confined utility is in the ceiling only with
  execution in a microVM; the sandbox level, the budgets and the wall time are within bounds.
\<close>

theorem validated_manifest:
  assumes "manifest_validate b64_decode m = Ok ()" "distinct_keys (m_capabilities m)"
  shows "m_schema_version m = SCHEMA_VERSION
    \<and> (\<exists>gs. ceiling m = Ok gs
         \<and> (\<forall>g \<in> set gs. validate (family_of (g_res g)) (g_pattern g) = Ok ()
              \<and> g_constraints g = default_constraints
              \<and> (g_res g = ResProc \<and> g_act g = ActExec \<longrightarrow>
                   is_safe_utility (g_pattern g) \<or> sb_code_execution (m_sandbox m) = Microvm)))
    \<and> (\<forall>r \<in> set (mo_preferred (m_model m)). validate_model_ref r = Ok ())
    \<and> (\<forall>role models. (role, models) \<in> set (mo_roles (m_model m)) \<longrightarrow> role \<in> set MODEL_ROLES
         \<and> models \<noteq> [] \<and> (\<forall>r \<in> set models. validate_model_ref r = Ok ()))
    \<and> sb_min_level (m_sandbox m) \<le> 2 \<and> 0 < bu_tokens (m_budget m) \<and> 0 < bu_approvals (m_budget m)
    \<and> (\<exists>n. wall_time_seconds m = Ok n \<and> 0 < n \<and> n \<le> 86400)"
proof -
  note v = assms(1) [unfolded manifest_validate_def, simplified]
  from v have caps: "\<forall>x \<in> set (m_capabilities m). validate_capability x = Ok ()" by simp
  then have keys: "\<forall>(key, patterns) \<in> set (m_capabilities m). \<exists>ra. parse_capability_key key = Ok ra"
    by (force simp: validate_capability_Ok)
  from ceiling_total [OF this] obtain gs where gs: "ceiling m = Ok gs" by (auto simp: ceiling_def)
  have grants: "validate (family_of (g_res g)) (g_pattern g) = Ok ()
      \<and> g_constraints g = default_constraints
      \<and> (g_res g = ResProc \<and> g_act g = ActExec \<longrightarrow>
           is_safe_utility (g_pattern g) \<or> sb_code_execution (m_sandbox m) = Microvm)"
    if g: "g \<in> set gs" for g
  proof -
    from ceiling_Ok [OF gs] g obtain key patterns r a where
      *: "(key, patterns) \<in> set (m_capabilities m)" "parse_capability_key key = Ok (r, a)"
        "g_pattern g \<in> set patterns" "g = grant_new r a (g_pattern g)" by auto
    then have ra: "g_res g = r" "g_act g = a" "g_constraints g = default_constraints"
      by (metis grant.select_convs grant_new_def)+
    from caps * have "validate_pattern key r (g_pattern g) = Ok ()"
      by (auto simp: validate_capability_Ok)
    then have "validate (family_of r) (g_pattern g) = Ok ()"
      by (auto simp: validate_pattern_def split: sum.splits)
    moreover have "is_safe_utility (g_pattern g) \<or> sb_code_execution (m_sandbox m) = Microvm"
      if "r = ResProc" "a = ActExec"
    proof -
      from that * have "key = ''proc.exec''"
        by (simp add: capability_key_roundtrip action_name_def)
      with *(1) assms(2) have "map_of (m_capabilities m) ''proc.exec'' = Some patterns"
        by (simp add: map_of_in_set)
      with v *(3) show ?thesis by (auto simp: arbitrary_exec_def list_ex_iff)
    qed
    ultimately show ?thesis using ra by simp
  qed
  from v have "\<forall>x \<in> set (mo_roles (m_model m)). validate_role x = Ok ()" by simp
  then have "\<forall>role models. (role, models) \<in> set (mo_roles (m_model m)) \<longrightarrow> role \<in> set MODEL_ROLES
         \<and> models \<noteq> [] \<and> (\<forall>r \<in> set models. validate_model_ref r = Ok ())"
    by (fastforce simp: validate_role_def)
  moreover from v obtain n where "parse_duration (bu_wall_time (m_budget m)) = Ok n" by auto
  then have "\<exists>n. wall_time_seconds m = Ok n \<and> 0 < n \<and> n \<le> 86400"
    by (auto simp: wall_time_seconds_def parse_duration_def split: option.splits if_splits)
  ultimately show ?thesis using v gs grants by auto
qed

definition sales_manifest :: manifest where
  "sales_manifest = \<lparr>m_schema_version = 0,
     m_agent = \<lparr>ag_id = ''org.test.analyste'', ag_version = ''1.0.0'', ag_name = ''Analyste'',
       ag_description = [], ag_publisher_key = ''ed25519:'' @ replicate 32 CHR ''A''\<rparr>,
     m_model = \<lparr>mo_preferred = [''local:qwen3-8b''], mo_privacy = LocalPreferred,
       mo_min_capability = ''standard'', mo_roles = [(''code'', [''local:qwen3-8b''])]\<rparr>,
     m_capabilities = [(''fs.read'', [''~/ventes/**'']), (''proc.exec'', [''wc''])],
     m_sandbox = default_sandbox,
     m_budget = \<lparr>bu_tokens = 100, bu_wall_time = ''20m'', bu_approvals = 5, bu_cost_eur = F64 0 0\<rparr>,
     m_actions = [], m_memory_spaces = []\<rparr>"

theorem validated_manifest_witness:
  "\<exists>gs. ceiling sales_manifest = Ok gs \<and> gs \<noteq> []"
proof -
  have "validate_id ''org.test.analyste'' = Ok ()" "validate_semver ''1.0.0'' = Ok ()"
    "validate_publisher_key Some (''ed25519:'' @ replicate 32 CHR ''A'') = Ok ()"
    "for_each validate_model_ref [''local:qwen3-8b''] = Ok ()"
    "for_each validate_role [(''code'', [''local:qwen3-8b''])] = Ok ()"
    "for_each validate_capability [(''fs.read'', [''~/ventes/**'']), (''proc.exec'', [''wc''])] = Ok ()"
    by code_simp+
  moreover have "\<not> arbitrary_exec sales_manifest" "distinct_keys (m_capabilities sales_manifest)"
    by (simp_all add: arbitrary_exec_def sales_manifest_def is_safe_utility_def SAFE_UTILITIES_def
        distinct_keys_def)
  moreover have "parse_duration ''20m'' = Ok 1200"
    by (simp add: parse_duration_def split_at_def is_continuation_def byte_def parse_u64_def
        parse_unsigned_def is_ascii_digit_def checked_mul_u64_def)
  ultimately have this: "manifest_validate Some sales_manifest = Ok ()"
    "distinct_keys (m_capabilities sales_manifest)"
    by (simp_all add: manifest_validate_def sales_manifest_def SCHEMA_VERSION_def
        default_sandbox_def)
  from validated_manifest [OF this] have "\<exists>gs. ceiling sales_manifest = Ok gs" by blast
  moreover have "ceiling sales_manifest \<noteq> Ok []"
    by (simp add: ceiling_def sales_manifest_def)
  ultimately show ?thesis by auto
qed

end
