(* ===== verification/Machine.thy ===== *)
theory Machine
  imports Prophet_Prelude
begin

text \<open>
  Services as machines: a step takes a state and an event and gives the next state and an output,
  or \<open>None\<close> where the code panics. The locales are the contracts several services share:
  an invariant kept by every step, an order every step only climbs, and an account in which what
  is spent never exceeds what was granted.
\<close>

section \<open>Runs\<close>

fun run :: "('s \<Rightarrow> 'e \<Rightarrow> ('s \<times> 'o) option) \<Rightarrow> 's \<Rightarrow> 'e list \<Rightarrow> ('s \<times> 'o list) option" where
  "run step s [] = Some (s, [])"
| "run step s (e # es) =
     (case step s e of
        None \<Rightarrow> None
      | Some (s', out) \<Rightarrow>
          (case run step s' es of
             None \<Rightarrow> None
           | Some (s'', outs) \<Rightarrow> Some (s'', out # outs)))"

lemma run_ConsE:
  assumes "run step s (e # es) = Some (s'', outs)"
  obtains s' out outs' where "step s e = Some (s', out)" "run step s' es = Some (s'', outs')"
    "outs = out # outs'"
  using assms by (auto split: option.splits)

lemma run_length: "run step s es = Some (s', outs) \<Longrightarrow> length outs = length es"
  by (induction es arbitrary: s outs) (auto elim: run_ConsE simp del: run.simps(2) simp: run.simps(1))

section \<open>Contracts\<close>

locale machine =
  fixes step :: "'s \<Rightarrow> 'e \<Rightarrow> ('s \<times> 'o) option"
    and inv :: "'s \<Rightarrow> bool"
  assumes inv_step: "inv s \<Longrightarrow> step s e = Some (s', out) \<Longrightarrow> inv s'"
begin

lemma run_inv: "inv s \<Longrightarrow> run step s es = Some (s', outs) \<Longrightarrow> inv s'"
  by (induction es arbitrary: s outs) (auto elim!: run_ConsE simp del: run.simps(2) intro: inv_step)

end

locale growing_machine = machine +
  fixes le :: "'s \<Rightarrow> 's \<Rightarrow> bool"
  assumes le_refl: "le s s"
    and le_trans: "le s t \<Longrightarrow> le t u \<Longrightarrow> le s u"
    and step_le: "inv s \<Longrightarrow> step s e = Some (s', out) \<Longrightarrow> le s s'"
begin

lemma run_le: "inv s \<Longrightarrow> run step s es = Some (s', outs) \<Longrightarrow> le s s'"
proof (induction es arbitrary: s outs)
  case Nil
  then show ?case by (simp add: le_refl)
next
  case (Cons e es)
  from Cons.prems(2) obtain t out outs' where "step s e = Some (t, out)" "run step t es = Some (s', outs')"
    by (rule run_ConsE)
  with Cons show ?case by (meson inv_step le_trans step_le)
qed

end

locale accounting_machine = machine +
  fixes stock :: "'s \<Rightarrow> nat"
    and gain :: "'e \<Rightarrow> 'o \<Rightarrow> nat"
    and spend :: "'e \<Rightarrow> 'o \<Rightarrow> nat"
  assumes balance: "inv s \<Longrightarrow> step s e = Some (s', out) \<Longrightarrow> stock s' + spend e out \<le> stock s + gain e out"
begin

lemma spent_within_granted:
  "inv s \<Longrightarrow> run step s es = Some (s', outs) \<Longrightarrow>
     stock s' + (\<Sum>(e, out) \<leftarrow> zip es outs. spend e out)
       \<le> stock s + (\<Sum>(e, out) \<leftarrow> zip es outs. gain e out)"
proof (induction es arbitrary: s outs)
  case Nil
  then show ?case by simp
next
  case (Cons e es)
  from Cons.prems(2) obtain t out outs' where t: "step s e = Some (t, out)"
    "run step t es = Some (s', outs')" "outs = out # outs'"
    by (rule run_ConsE)
  with Cons.IH [of t outs'] Cons.prems(1) balance [OF _ t(1)] inv_step [OF _ t(1)]
  show ?case by simp
qed

end

text \<open>The same for services whose steps are a relation.\<close>

locale transition =
  fixes step :: "'s \<Rightarrow> 's \<Rightarrow> bool"
    and inv :: "'s \<Rightarrow> bool"
  assumes inv_preserved: "step s s' \<Longrightarrow> inv s \<Longrightarrow> inv s'"
begin

lemma reach_inv: "step\<^sup>*\<^sup>* s s' \<Longrightarrow> inv s \<Longrightarrow> inv s'"
  by (induction rule: rtranclp_induct) (auto intro: inv_preserved)

end

locale growing_transition = transition +
  fixes le :: "'s \<Rightarrow> 's \<Rightarrow> bool"
  assumes grow_refl: "le s s"
    and grow_trans: "le s t \<Longrightarrow> le t u \<Longrightarrow> le s u"
    and grow_step: "step s s' \<Longrightarrow> inv s \<Longrightarrow> le s s'"
begin

lemma reach_le: "step\<^sup>*\<^sup>* s s' \<Longrightarrow> inv s \<Longrightarrow> le s s'"
proof (induction rule: rtranclp_induct)
  case base
  show ?case by (rule grow_refl)
next
  case (step t u)
  then show ?case using grow_step grow_trans reach_inv by blast
qed

end

end
