(* ===== verification/Approvals.thy ===== *)
theory Approvals
  imports Machine
begin

text \<open>
  The approval queue (\<^verbatim>\<open>crates/capd/src/approvals.rs\<close>): requests waiting for a human, decisions
  with their scope, standing rules. Identifiers (\<open>Id::new\<close>, a ULID) are arguments of the operations.
  An operation that adds to an instant gives \<open>None\<close> where the code would panic (past year 9999).
  The file of the queue (\<open>charger\<close>, \<open>sauver\<close>) is in \<open>Capd_Service\<close>.
\<close>

section \<open>Data\<close>

datatype approval_scope = ScopeOnce | ScopeTask | ScopeAgent nat

datatype human_decision = HAllow | HDeny

datatype approval_state = Pending | Resolved human_decision | ExpiredState

record approval =
  a_id :: string
  a_task :: string
  a_agent :: string
  a_action :: string
  a_target :: string
  a_summary :: string
  a_reason :: "string option"
  a_irreversible :: bool
  a_external :: bool
  a_created :: instant
  a_expires :: instant
  a_state :: approval_state

record standing_rule =
  sr_id :: string
  sr_decision :: human_decision
  sr_action :: string
  sr_target :: string
  sr_task :: "string option"
  sr_agent :: "string option"
  sr_expires :: "instant option"

definition rule_covers :: "standing_rule \<Rightarrow> approval \<Rightarrow> instant \<Rightarrow> bool" where
  "rule_covers r a now =
     (if (case sr_expires r of Some e \<Rightarrow> e \<le> now | None \<Rightarrow> False) then False
      else if sr_action r \<noteq> a_action a \<or> sr_target r \<noteq> a_target a then False
      else case (sr_task r, sr_agent r) of
          (Some task, _) \<Rightarrow> task = a_task a
        | (None, Some agent) \<Rightarrow> agent = a_agent a
        | (None, None) \<Rightarrow> False)"

definition DEFAULT_TTL_HOURS :: int where
  "DEFAULT_TTL_HOURS = 24"

definition RESOLVED_TTL_HOURS :: int where
  "RESOLVED_TTL_HOURS = 1"

definition REASON_MAX_CHARS :: nat where
  "REASON_MAX_CHARS = 400"

record approvals =
  q_pending :: "(string, approval) amap"
  q_rules :: "standing_rule list"
  q_resolved :: "(string, approval) amap"
  q_once :: "(string, approval) amap"

definition approvals_new :: approvals where
  "approvals_new = \<lparr>q_pending = [], q_rules = [], q_resolved = [], q_once = []\<rparr>"

record approval_request =
  rq_task :: string
  rq_agent :: string
  rq_action :: string
  rq_target :: string
  rq_summary :: string
  rq_irreversible :: bool
  rq_external :: bool

section \<open>Operations\<close>

text \<open>\<open>Iterator::min_by_key\<close>: the first of the elements with the least key.\<close>

fun min_by_key :: "('a \<Rightarrow> int) \<Rightarrow> 'a list \<Rightarrow> 'a option" where
  "min_by_key f [] = None"
| "min_by_key f (x # xs) =
     (case min_by_key f xs of
        None \<Rightarrow> Some x
      | Some y \<Rightarrow> if f x \<le> f y then Some x else Some y)"

definition new_approval :: "string \<Rightarrow> approval_request \<Rightarrow> instant \<Rightarrow> instant \<Rightarrow> approval" where
  "new_approval i r now expiry = \<lparr>a_id = i, a_task = rq_task r, a_agent = rq_agent r,
     a_action = rq_action r, a_target = rq_target r, a_summary = rq_summary r, a_reason = None,
     a_irreversible = rq_irreversible r, a_external = rq_external r, a_created = now,
     a_expires = expiry, a_state = Pending\<rparr>"

definition same_action :: "approval \<Rightarrow> approval \<Rightarrow> bool" where
  "same_action a b \<longleftrightarrow> a_task a = a_task b \<and> a_action a = a_action b \<and> a_target a = a_target b"

definition request ::
    "approvals \<Rightarrow> string \<Rightarrow> approval_request \<Rightarrow> instant \<Rightarrow> (approvals \<times> approval) option" where
  "request A i r now =
     (case datetime_add now (hours DEFAULT_TTL_HOURS) of
        None \<Rightarrow> None
      | Some expiry \<Rightarrow>
          let approval = new_approval i r now expiry
          in case find (\<lambda>rule. rule_covers rule approval now
                 \<and> \<not> (sr_decision rule = HAllow \<and> a_irreversible approval)) (q_rules A) of
               Some rule \<Rightarrow> Some (A, approval\<lparr>a_state := Resolved (sr_decision rule)\<rparr>)
             | None \<Rightarrow>
                 (case min_by_key (\<lambda>(_, a). a_created a)
                         (filter (\<lambda>(_, a). same_action a approval) (q_once A)) of
                    Some (j, a) \<Rightarrow>
                      Some (A\<lparr>q_once := AList.delete j (q_once A)\<rparr>, approval\<lparr>a_state := a_state a\<rparr>)
                  | None \<Rightarrow>
                      Some (A\<lparr>q_pending := AList.update i approval (q_pending A)\<rparr>, approval)))"

definition explain :: "approvals \<Rightarrow> string \<Rightarrow> string \<Rightarrow> approvals \<times> approval option" where
  "explain A i reason =
     (let motif = trim reason
      in if motif = [] then (A, None)
         else case map_of (q_pending A) i of
             None \<Rightarrow> (A, None)
           | Some a \<Rightarrow>
               let a' = a\<lparr>a_reason := Some (take_chars REASON_MAX_CHARS motif)\<rparr>
               in (A\<lparr>q_pending := AList.update i a' (q_pending A)\<rparr>, Some a'))"

definition status :: "approvals \<Rightarrow> string \<Rightarrow> approval option" where
  "status A i =
     (case map_of (q_pending A) i of Some a \<Rightarrow> Some a | None \<Rightarrow> map_of (q_resolved A) i)"

definition effective_scope :: "human_decision \<Rightarrow> approval \<Rightarrow> approval_scope \<Rightarrow> approval_scope" where
  "effective_scope d a s = (if d = HAllow \<and> a_irreversible a then ScopeOnce else s)"

definition resolve :: "approvals \<Rightarrow> string \<Rightarrow> string \<Rightarrow> human_decision \<Rightarrow> approval_scope \<Rightarrow> instant
    \<Rightarrow> (approvals \<times> approval option) option" where
  "resolve A i rule_id d scope now =
     (case map_of (q_pending A) i of
        None \<Rightarrow> Some (A, None)
      | Some pending \<Rightarrow>
          let a = pending\<lparr>a_state := Resolved d\<rparr>;
              A1 = A\<lparr>q_pending := AList.delete i (q_pending A),
                     q_resolved := AList.update i a (q_resolved A)\<rparr>;
              rule = \<lparr>sr_id = rule_id, sr_decision = d, sr_action = a_action a,
                     sr_target = a_target a, sr_task = None, sr_agent = None, sr_expires = None\<rparr>
          in case effective_scope d a scope of
               ScopeOnce \<Rightarrow> Some (A1\<lparr>q_once := AList.update i a (q_once A)\<rparr>, Some a)
             | ScopeTask \<Rightarrow>
                 Some (A1\<lparr>q_rules := q_rules A @ [rule\<lparr>sr_task := Some (a_task a)\<rparr>]\<rparr>, Some a)
             | ScopeAgent n \<Rightarrow>
                 (case datetime_add now (days (int n)) of
                    None \<Rightarrow> None
                  | Some e \<Rightarrow> Some (A1\<lparr>q_rules := q_rules A
                        @ [rule\<lparr>sr_agent := Some (a_agent a), sr_expires := Some e\<rparr>]\<rparr>, Some a)))"

definition pending :: "approvals \<Rightarrow> approval list" where
  "pending A = sort_key a_created (map snd (q_pending A))"

fun take_expired :: "string list \<Rightarrow> approvals \<Rightarrow> approvals \<times> approval list" where
  "take_expired [] A = (A, [])"
| "take_expired (i # is) A =
     (case map_of (q_pending A) i of
        None \<Rightarrow> take_expired is A
      | Some a \<Rightarrow>
          let (A', rest) = take_expired is (A\<lparr>q_pending := AList.delete i (q_pending A)\<rparr>)
          in (A', a\<lparr>a_state := ExpiredState\<rparr> # rest))"

definition expire :: "approvals \<Rightarrow> instant \<Rightarrow> (approvals \<times> approval list) option" where
  "expire A now =
     (case datetime_add now (- hours RESOLVED_TTL_HOURS) of
        None \<Rightarrow> None
      | Some horizon \<Rightarrow>
          let A1 = A\<lparr>q_resolved := retain (\<lambda>_ a. horizon < a_created a) (q_resolved A),
                     q_once := retain (\<lambda>_ a. horizon < a_created a) (q_once A)\<rparr>
          in Some (take_expired (map fst (filter (\<lambda>(_, a). a_expires a \<le> now) (q_pending A1))) A1))"

definition revoke_rule :: "approvals \<Rightarrow> string \<Rightarrow> approvals \<times> bool" where
  "revoke_rule A i =
     (let rules = filter (\<lambda>r. sr_id r \<noteq> i) (q_rules A)
      in (A\<lparr>q_rules := rules\<rparr>, length rules \<noteq> length (q_rules A)))"

definition clear_task_rules :: "approvals \<Rightarrow> string \<Rightarrow> approvals" where
  "clear_task_rules A task = A\<lparr>q_rules := filter (\<lambda>r. sr_task r \<noteq> Some task) (q_rules A)\<rparr>"

section \<open>The queue as a machine\<close>

datatype ap_event =
    EvRequest string approval_request instant
  | EvExplain string string
  | EvResolve string string human_decision approval_scope instant
  | EvExpire instant
  | EvRevokeRule string
  | EvClearTask string

datatype ap_out = OutApproval approval | OutMaybe "approval option" | OutExpired "approval list"
  | OutBool bool | OutUnit

fun ap_step :: "approvals \<Rightarrow> ap_event \<Rightarrow> (approvals \<times> ap_out) option" where
  "ap_step A (EvRequest i r now) = map_option (map_prod id OutApproval) (request A i r now)"
| "ap_step A (EvExplain i m) = Some (map_prod id OutMaybe (explain A i m))"
| "ap_step A (EvResolve i rid d s now) = map_option (map_prod id OutMaybe) (resolve A i rid d s now)"
| "ap_step A (EvExpire now) = map_option (map_prod id OutExpired) (expire A now)"
| "ap_step A (EvRevokeRule i) = Some (map_prod id OutBool (revoke_rule A i))"
| "ap_step A (EvClearTask t) = Some (clear_task_rules A t, OutUnit)"

section \<open>The invariant\<close>

definition entry_ok :: "string \<Rightarrow> approval \<Rightarrow> bool" where
  "entry_ok i a \<longleftrightarrow> a_id a = i \<and> a_expires a = a_created a + hours DEFAULT_TTL_HOURS"

definition resolved_entry :: "string \<Rightarrow> approval \<Rightarrow> bool" where
  "resolved_entry i a \<longleftrightarrow> entry_ok i a \<and> (\<exists>d. a_state a = Resolved d)"

definition rule_ok :: "standing_rule \<Rightarrow> bool" where
  "rule_ok r \<longleftrightarrow> (sr_task r = None) \<noteq> (sr_agent r = None) \<and> (sr_agent r \<noteq> None \<longrightarrow> sr_expires r \<noteq> None)"

definition approvals_inv :: "approvals \<Rightarrow> bool" where
  "approvals_inv A \<longleftrightarrow>
     distinct_keys (q_pending A) \<and> distinct_keys (q_resolved A) \<and> distinct_keys (q_once A)
   \<and> (\<forall>i a. map_of (q_pending A) i = Some a \<longrightarrow> entry_ok i a \<and> a_state a = Pending)
   \<and> (\<forall>i a. map_of (q_resolved A) i = Some a \<longrightarrow> resolved_entry i a)
   \<and> (\<forall>i a. map_of (q_once A) i = Some a \<longrightarrow> resolved_entry i a)
   \<and> (\<forall>r \<in> set (q_rules A). rule_ok r)"

lemma min_by_key_in: "min_by_key f xs = Some x \<Longrightarrow> x \<in> set xs"
  by (induction xs arbitrary: x) (auto split: option.splits if_splits)

lemma min_by_key_None [simp]: "min_by_key f xs = None \<longleftrightarrow> xs = []"
  by (cases xs) (auto split: option.splits)

lemma min_by_key_least: "min_by_key f xs = Some x \<Longrightarrow> y \<in> set xs \<Longrightarrow> f x \<le> f y"
proof (induction xs arbitrary: x y)
  case (Cons z xs)
  show ?case
  proof (cases "min_by_key f xs")
    case (Some w)
    with Cons.IH [OF Some] Cons.prems show ?thesis by (force split: if_splits)
  qed (use Cons.prems in simp)
qed simp

text \<open>The three ways a request ends, as one case rule.\<close>

lemma request_cases:
  assumes "request A i r now = Some (A', a')"
  obtains (rule) rule expiry where
      "expiry = now + hours DEFAULT_TTL_HOURS" "rule \<in> set (q_rules A)"
      "rule_covers rule (new_approval i r now expiry) now"
      "\<not> (sr_decision rule = HAllow \<and> rq_irreversible r)"
      "A' = A" "a' = new_approval i r now expiry\<lparr>a_state := Resolved (sr_decision rule)\<rparr>"
    | (once) j a expiry where
      "expiry = now + hours DEFAULT_TTL_HOURS" "(j, a) \<in> set (q_once A)"
      "same_action a (new_approval i r now expiry)"
      "\<forall>rule \<in> set (q_rules A). rule_covers rule (new_approval i r now expiry) now \<longrightarrow>
         sr_decision rule = HAllow \<and> rq_irreversible r"
      "A' = A\<lparr>q_once := AList.delete j (q_once A)\<rparr>"
      "a' = new_approval i r now expiry\<lparr>a_state := a_state a\<rparr>"
    | (queued) expiry where
      "expiry = now + hours DEFAULT_TTL_HOURS"
      "\<forall>rule \<in> set (q_rules A). rule_covers rule (new_approval i r now expiry) now \<longrightarrow>
         sr_decision rule = HAllow \<and> rq_irreversible r"
      "\<forall>(j, a) \<in> set (q_once A). \<not> same_action a (new_approval i r now expiry)"
      "A' = A\<lparr>q_pending := AList.update i (new_approval i r now expiry) (q_pending A)\<rparr>"
      "a' = new_approval i r now expiry"
proof -
  have irr: "a_irreversible (new_approval i r now e) = rq_irreversible r" for e
    by (simp add: new_approval_def)
  from assms obtain expiry where e: "expiry = now + hours DEFAULT_TTL_HOURS"
    and d: "datetime_add now (hours DEFAULT_TTL_HOURS) = Some expiry"
    by (auto simp: request_def datetime_add_def split: option.splits if_splits)
  let ?n = "new_approval i r now expiry"
  let ?hits = "\<lambda>rule. rule_covers rule ?n now \<and> \<not> (sr_decision rule = HAllow \<and> a_irreversible ?n)"
  let ?same = "filter (\<lambda>(_, a). same_action a ?n) (q_once A)"
  show ?thesis
  proof (cases "find ?hits (q_rules A)")
    case (Some rule)
    then have "rule \<in> set (q_rules A)" "?hits rule"
      by (auto simp: find_Some_iff)
    moreover have "request A i r now = Some (A, ?n\<lparr>a_state := Resolved (sr_decision rule)\<rparr>)"
      by (simp only: request_def d Some Let_def option.case)
    ultimately show ?thesis using assms e irr by (intro that(1) [of expiry rule]) simp_all
  next
    case None
    then have no: "\<forall>rule \<in> set (q_rules A). rule_covers rule ?n now \<longrightarrow>
        sr_decision rule = HAllow \<and> rq_irreversible r"
      by (auto simp: find_None_iff irr)
    show ?thesis
    proof (cases "min_by_key (\<lambda>(_, a). a_created a) ?same")
      case None': None
      then have "\<forall>(j, a) \<in> set (q_once A). \<not> same_action a ?n"
        by (auto simp: filter_empty_conv)
      moreover have "request A i r now = Some (A\<lparr>q_pending := AList.update i ?n (q_pending A)\<rparr>, ?n)"
        by (simp only: request_def d None None' Let_def option.case)
      ultimately show ?thesis using assms e no by (intro that(3) [of expiry]) simp_all
    next
      case (Some ja)
      obtain j a where ja: "ja = (j, a)" by (cases ja)
      have "(j, a) \<in> set (q_once A)" "same_action a ?n"
        using min_by_key_in [OF Some] ja by auto
      moreover have "request A i r now
          = Some (A\<lparr>q_once := AList.delete j (q_once A)\<rparr>, ?n\<lparr>a_state := a_state a\<rparr>)"
        by (simp only: request_def d None Some ja Let_def option.case prod.case)
      ultimately show ?thesis using assms e no by (intro that(2) [of expiry j a]) simp_all
    qed
  qed
qed

lemma resolve_cases:
  assumes "resolve A i rid d scope now = Some (A', out)"
  obtains (unknown) "map_of (q_pending A) i = None" "A' = A" "out = None"
    | (decided) p a rules once where "map_of (q_pending A) i = Some p" "a = p\<lparr>a_state := Resolved d\<rparr>"
      "out = Some a"
      "A' = \<lparr>q_pending = AList.delete i (q_pending A), q_rules = rules,
          q_resolved = AList.update i a (q_resolved A), q_once = once\<rparr>"
      "(effective_scope d a scope = ScopeOnce \<and> rules = q_rules A \<and> once = AList.update i a (q_once A))
       \<or> (\<exists>rule. effective_scope d a scope \<noteq> ScopeOnce \<and> rules = q_rules A @ [rule]
            \<and> once = q_once A \<and> rule_ok rule \<and> sr_decision rule = d)"
proof (cases "map_of (q_pending A) i")
  case None
  with assms have "A' = A" "out = None" by (auto simp: resolve_def)
  with None that(1) show ?thesis by blast
next
  case (Some p)
  let ?a = "p\<lparr>a_state := Resolved d\<rparr>"
  let ?rule = "\<lparr>sr_id = rid, sr_decision = d, sr_action = a_action ?a, sr_target = a_target ?a,
      sr_task = None, sr_agent = None, sr_expires = None\<rparr>"
  let ?A = "\<lambda>rules once. \<lparr>q_pending = AList.delete i (q_pending A), q_rules = rules,
      q_resolved = AList.update i ?a (q_resolved A), q_once = once\<rparr>"
  show ?thesis
  proof (cases "effective_scope d ?a scope")
    case ScopeOnce
    then have "resolve A i rid d scope now = Some (?A (q_rules A) (AList.update i ?a (q_once A)), Some ?a)"
      by (simp add: resolve_def Some Let_def)
    with assms ScopeOnce show ?thesis by (intro that(2) [OF Some refl, where rules = "q_rules A'" and once = "q_once A'"]) auto
  next
    case ScopeTask
    then have "resolve A i rid d scope now
        = Some (?A (q_rules A @ [?rule\<lparr>sr_task := Some (a_task p)\<rparr>]) (q_once A), Some ?a)"
      by (simp add: resolve_def Some Let_def)
    with assms ScopeTask show ?thesis
      by (intro that(2) [OF Some refl, where rules = "q_rules A'" and once = "q_once A'"])
        (auto simp: rule_ok_def)
  next
    case (ScopeAgent n)
    with assms obtain e where e: "datetime_add now (days (int n)) = Some e"
      by (auto simp: resolve_def Some Let_def split: option.splits)
    have "resolve A i rid d scope now = Some (?A (q_rules A
        @ [?rule\<lparr>sr_agent := Some (a_agent p), sr_expires := Some e\<rparr>]) (q_once A), Some ?a)"
      by (simp add: resolve_def Some Let_def ScopeAgent e)
    with assms ScopeAgent show ?thesis
      by (intro that(2) [OF Some refl, where rules = "q_rules A'" and once = "q_once A'"])
        (auto simp: rule_ok_def)
  qed
qed

lemma take_expired_spec:
  "distinct is \<Longrightarrow> \<forall>i \<in> set is. map_of (q_pending A) i \<noteq> None \<Longrightarrow> take_expired is A = (A', out) \<Longrightarrow>
     (q_rules A' = q_rules A \<and> q_resolved A' = q_resolved A \<and> q_once A' = q_once A)
   \<and> (distinct_keys (q_pending A) \<longrightarrow> distinct_keys (q_pending A'))
   \<and> (\<forall>k. map_of (q_pending A') k = (if k \<in> set is then None else map_of (q_pending A) k))
   \<and> out = map (\<lambda>i. (the (map_of (q_pending A) i))\<lparr>a_state := ExpiredState\<rparr>) is"
proof (induction "is" A arbitrary: A' out rule: take_expired.induct)
  case (1 A)
  then show ?case by auto
next
  case (2 i "is" A)
  from 2(4) obtain a where Some: "map_of (q_pending A) i = Some a" by auto
  let ?A = "A\<lparr>q_pending := AList.delete i (q_pending A)\<rparr>"
  obtain B rest where B: "take_expired is ?A = (B, rest)" by fastforce
  from 2(3,4) have "distinct is" "\<forall>i \<in> set is. map_of (q_pending ?A) i \<noteq> None" by auto
  note IH = 2(2) [OF Some this B]
  from B Some 2(5) have eq: "A' = B" "out = a\<lparr>a_state := ExpiredState\<rparr> # rest" by auto
  have "rest = map (\<lambda>i. (the (map_of (q_pending A) i))\<lparr>a_state := ExpiredState\<rparr>) is"
  proof -
    from IH have "rest = map (\<lambda>i. (the (map_of (q_pending ?A) i))\<lparr>a_state := ExpiredState\<rparr>) is"
      by blast
    also have "\<dots> = map (\<lambda>i. (the (map_of (q_pending A) i))\<lparr>a_state := ExpiredState\<rparr>) is"
      using 2(3) by (intro map_cong refl) auto
    finally show ?thesis .
  qed
  with IH Some show ?case unfolding eq by simp
qed

section \<open>Every operation keeps the invariant\<close>

lemma entry_ok_new: "entry_ok i (new_approval i r now (now + hours DEFAULT_TTL_HOURS))"
  by (simp add: entry_ok_def new_approval_def)

lemma new_approval_state [simp]: "a_state (new_approval i r now e) = Pending"
  by (simp add: new_approval_def)

lemma request_inv:
  assumes "approvals_inv A" "request A i r now = Some (A', a)"
  shows "approvals_inv A'"
  using assms(2)
proof (cases rule: request_cases)
  case (once j b expiry)
  with assms(1) show ?thesis by (simp add: approvals_inv_def)
next
  case (queued expiry)
  with assms(1) show ?thesis by (simp add: approvals_inv_def entry_ok_new)
qed (use assms(1) in simp)

lemma explain_inv:
  assumes "approvals_inv A" "explain A i m = (A', out)"
  shows "approvals_inv A'"
  using assms by (auto simp: explain_def Let_def approvals_inv_def entry_ok_def split: if_splits option.splits)

lemma resolve_inv:
  assumes "approvals_inv A" "resolve A i rid d scope now = Some (A', out)"
  shows "approvals_inv A'"
  using assms(2)
proof (cases rule: resolve_cases)
  case (decided p a rules once)
  from decided(1) assms(1) have "entry_ok i p" by (simp add: approvals_inv_def)
  then have "resolved_entry i a" by (simp add: decided(2) resolved_entry_def entry_ok_def)
  with decided(4,5) assms(1) show ?thesis by (auto simp: approvals_inv_def split: if_splits)
qed (use assms(1) in simp)

lemma expired_keys:
  assumes "distinct_keys m"
  shows "distinct (map fst (filter (\<lambda>(_, a). P a) m))"
    and "i \<in> set (map fst (filter (\<lambda>(_, a). P a) m)) \<longleftrightarrow> (\<exists>a. map_of m i = Some a \<and> P a)"
  using assms by (auto simp: map_of_in_set distinct_map_filter distinct_keys_def image_iff)

lemma expire_inv:
  assumes inv: "approvals_inv A" and "expire A now = Some (A', out)"
  shows "approvals_inv A'
    \<and> q_rules A' = q_rules A
    \<and> (\<forall>i. map_of (q_pending A') i = (case map_of (q_pending A) i of None \<Rightarrow> None
          | Some a \<Rightarrow> if a_expires a \<le> now then None else Some a))
    \<and> out = map (\<lambda>i. (the (map_of (q_pending A) i))\<lparr>a_state := ExpiredState\<rparr>)
        (map fst (filter (\<lambda>(_, a). a_expires a \<le> now) (q_pending A)))
    \<and> q_resolved A' = retain (\<lambda>_ a. now - hours RESOLVED_TTL_HOURS < a_created a) (q_resolved A)
    \<and> q_once A' = retain (\<lambda>_ a. now - hours RESOLVED_TTL_HOURS < a_created a) (q_once A)"
proof -
  let ?P = "\<lambda>a. a_expires a \<le> now"
  let ?is = "map fst (filter (\<lambda>(_, a). ?P a) (q_pending A))"
  let ?keep = "retain (\<lambda>_ a. now - hours RESOLVED_TTL_HOURS < a_created a)"
  let ?A = "A\<lparr>q_resolved := ?keep (q_resolved A), q_once := ?keep (q_once A)\<rparr>"
  from inv have d: "distinct_keys (q_pending A)" by (simp add: approvals_inv_def)
  from assms(2) have te: "take_expired ?is ?A = (A', out)"
    by (auto simp: expire_def datetime_add_def Let_def split: option.splits if_splits)
  have ex: "\<forall>i \<in> set ?is. map_of (q_pending ?A) i \<noteq> None"
  proof
    fix i
    assume "i \<in> set ?is"
    with expired_keys(2) [OF d, of i ?P] show "map_of (q_pending ?A) i \<noteq> None" by auto
  qed
  note T = take_expired_spec [OF expired_keys(1) [OF d] ex te]
  have look: "map_of (q_pending A') i = (case map_of (q_pending A) i of None \<Rightarrow> None
      | Some a \<Rightarrow> if ?P a then None else Some a)" for i
    using T expired_keys(2) [OF d, of i ?P] by (auto split: option.splits)
  have dist: "distinct_keys (q_pending A')" using T d by simp
  have "map_of (q_pending A') i = Some a \<Longrightarrow> entry_ok i a \<and> a_state a = Pending" for i a
    using inv by (auto simp: approvals_inv_def look split: option.splits if_splits)
  moreover have "resolved_entry i a" if "map_of (?keep m) i = Some a" "distinct_keys m"
    "\<forall>i a. map_of m i = Some a \<longrightarrow> resolved_entry i a" for i a m
    using that by (auto simp: map_of_retain split: option.splits if_splits)
  ultimately have "approvals_inv A'"
    using inv T dist unfolding approvals_inv_def by auto
  with T look show ?thesis by simp
qed

lemma rules_inv:
  "approvals_inv A \<Longrightarrow> approvals_inv (fst (revoke_rule A i))"
  "approvals_inv A \<Longrightarrow> approvals_inv (clear_task_rules A t)"
  by (auto simp: approvals_inv_def revoke_rule_def clear_task_rules_def Let_def)

lemma approvals_inv_new: "approvals_inv approvals_new"
  by (simp add: approvals_inv_def approvals_new_def)

lemma ap_step_inv:
  assumes "approvals_inv A" "ap_step A e = Some (A', out)"
  shows "approvals_inv A'"
proof (cases e)
  case (EvRequest i r now)
  with assms show ?thesis by (auto intro: request_inv)
next
  case (EvExplain i m)
  with assms show ?thesis by (cases "explain A i m") (auto intro: explain_inv)
next
  case (EvResolve i rid d s now)
  with assms show ?thesis by (auto intro: resolve_inv)
next
  case (EvExpire now)
  with assms show ?thesis by (auto dest: expire_inv)
next
  case (EvRevokeRule i)
  with assms rules_inv(1) [of A i] show ?thesis by (cases "revoke_rule A i") auto
next
  case (EvClearTask t)
  with assms rules_inv(2) show ?thesis by auto
qed

section \<open>One human yes, one irreversible action\<close>

type_synonym action_key = "string \<times> string \<times> string"

definition action_key :: "approval \<Rightarrow> action_key" where
  "action_key a = (a_task a, a_action a, a_target a)"

text \<open>An event and its output: a yes of the human, an irreversible request served.\<close>

fun agreed :: "action_key \<Rightarrow> ap_event \<Rightarrow> ap_out \<Rightarrow> nat" where
  "agreed k (EvResolve _ _ HAllow _ _) (OutMaybe (Some a)) = (if action_key a = k then 1 else 0)"
| "agreed k _ _ = 0"

fun served :: "action_key \<Rightarrow> ap_event \<Rightarrow> ap_out \<Rightarrow> nat" where
  "served k (EvRequest _ r _) (OutApproval a) =
     (if rq_irreversible r \<and> action_key a = k \<and> a_state a = Resolved HAllow then 1 else 0)"
| "served k _ _ = 0"

definition unused :: "action_key \<Rightarrow> approvals \<Rightarrow> nat" where
  "unused k A = count_if (\<lambda>_ a. action_key a = k \<and> a_state a = Resolved HAllow) (q_once A)"

lemma action_key_state [simp]: "action_key (a\<lparr>a_state := s\<rparr>) = action_key a"
  by (simp add: action_key_def)

lemma action_key_same: "same_action a b \<longleftrightarrow> action_key a = action_key b"
  by (auto simp: same_action_def action_key_def)

lemma request_balance:
  assumes "request A i r now = Some (A', a)"
  shows "unused k A' + served k (EvRequest i r now) (OutApproval a) \<le> unused k A"
  using assms
proof (cases rule: request_cases)
  case (rule rule expiry)
  then show ?thesis by (cases "sr_decision rule") auto
next
  case (once j b expiry)
  let ?P = "\<lambda>_ a. action_key a = k \<and> a_state a = Resolved HAllow"
  show ?thesis
  proof (cases "?P j b")
    case True
    with count_if_delete [OF once(2), of ?P] once show ?thesis by (simp add: unused_def)
  next
    case False
    with count_if_delete_le [of ?P j "q_once A"] once show ?thesis
      by (auto simp: unused_def action_key_same)
  qed
qed (simp add: unused_def)

lemma resolve_balance:
  assumes "resolve A i rid d s now = Some (A', out)"
  shows "unused k A' \<le> unused k A + agreed k (EvResolve i rid d s now) (OutMaybe out)"
  using assms
proof (cases rule: resolve_cases)
  case (decided p a rules once)
  let ?P = "\<lambda>_ a. action_key a = k \<and> a_state a = Resolved HAllow"
  from decided(4,5) count_if_update [of ?P i a "q_once A"] decided(2,3)
  show ?thesis by (cases d) (auto simp: unused_def split: if_splits)
qed simp

lemma ap_step_balance:
  assumes "approvals_inv A" "ap_step A e = Some (A', out)"
  shows "unused k A' + served k e out \<le> unused k A + agreed k e out"
proof (cases e)
  case (EvRequest i r now)
  with assms request_balance [of A i r now _ _ k] show ?thesis by (fastforce intro: le_trans)
next
  case (EvExplain i m)
  with assms show ?thesis
    by (auto simp: explain_def Let_def unused_def split: if_splits option.splits)
next
  case (EvResolve i rid d s now)
  with assms resolve_balance [of A i rid d s now _ _ k] show ?thesis by auto
next
  case (EvExpire now)
  with assms expire_inv [OF assms(1), of now] show ?thesis
    by (auto simp: unused_def count_if_retain_le)
qed (use assms in \<open>auto simp: revoke_rule_def clear_task_rules_def unused_def Let_def\<close>)

interpretation queue: accounting_machine ap_step approvals_inv "unused k" "agreed k" "served k" for k
  by unfold_locales (blast intro: ap_step_inv ap_step_balance)+

section \<open>Properties\<close>

text \<open>
  C6. One human yes serves at most one irreversible action. Over any sequence of operations on a
  fresh queue, and for each exact action (task, action, target), the irreversible requests
  answered "allowed" are no more than the times a human allowed that action, whatever the scope
  of the decisions, the standing rules and the expirations in between.
\<close>

theorem one_yes_one_irreversible_action:
  assumes "run ap_step approvals_new es = Some (A, outs)"
  shows "(\<Sum>(e, out) \<leftarrow> zip es outs. served k e out) \<le> (\<Sum>(e, out) \<leftarrow> zip es outs. agreed k e out)"
  using queue.spent_within_granted [OF approvals_inv_new assms, of k]
  by (simp add: unused_def approvals_new_def count_if_def)

definition payment :: approval_request where
  "payment = \<lparr>rq_task = ''task:01'', rq_agent = ''org.test'', rq_action = ''tool.call'',
     rq_target = ''pay'', rq_summary = ''87 EUR'', rq_irreversible = True, rq_external = True\<rparr>"

definition payment_run :: "ap_event list" where
  "payment_run = [EvRequest ''a1'' payment 0, EvResolve ''a1'' ''r1'' HAllow ScopeTask 10,
     EvRequest ''a2'' payment 20, EvRequest ''a3'' payment 30]"

theorem one_yes_one_irreversible_action_witness:
  "case run ap_step approvals_new payment_run of
     None \<Rightarrow> False
   | Some (A, outs) \<Rightarrow>
       (\<Sum>(e, out) \<leftarrow> zip payment_run outs. served (''task:01'', ''tool.call'', ''pay'') e out) \<le> 1
     \<and> map a_id (pending A) = [''a3'']"
proof -
  define result where "result = run ap_step approvals_new payment_run"
  have "case result of None \<Rightarrow> False | Some (A, outs) \<Rightarrow> map a_id (pending A) = [''a3'']
      \<and> (\<Sum>(e, out) \<leftarrow> zip payment_run outs. agreed (''task:01'', ''tool.call'', ''pay'') e out) = 1"
    unfolding result_def by code_simp
  moreover from this obtain A outs where r: "result = Some (A, outs)" by (cases result) auto
  note one_yes_one_irreversible_action
    [OF r [unfolded result_def], of "(''task:01'', ''tool.call'', ''pay'')"]
  ultimately show ?thesis using r unfolding result_def by simp
qed

text \<open>
  What a request answers, on every path. It is decided at once exactly when a standing rule
  covers it (a rule that allows never covers an irreversible action) or a one-time decision for
  the same action waits, which it then uses up; otherwise it waits in the queue, where the human
  sees it. It changes nothing else.
\<close>

definition rule_decides :: "approvals \<Rightarrow> approval \<Rightarrow> instant \<Rightarrow> standing_rule \<Rightarrow> bool" where
  "rule_decides A a now rule \<longleftrightarrow> rule \<in> set (q_rules A) \<and> rule_covers rule a now
     \<and> (sr_decision rule = HAllow \<longrightarrow> \<not> a_irreversible a)"

lemma rule_covers_state [simp]: "rule_covers r (a\<lparr>a_state := s\<rparr>) now = rule_covers r a now"
  by (simp add: rule_covers_def split: option.split)

theorem request_answers:
  assumes "approvals_inv A" "request A i r now = Some (A', a)"
  shows "a_id a = i \<and> action_key a = (rq_task r, rq_action r, rq_target r)
    \<and> q_rules A' = q_rules A \<and> q_resolved A' = q_resolved A
    \<and> (if \<exists>rule. rule_decides A a now rule
       then A' = A \<and> (\<exists>rule. rule_decides A a now rule \<and> a_state a = Resolved (sr_decision rule))
       else if \<exists>(j, b) \<in> set (q_once A). same_action b a
       then \<exists>j b. map_of (q_once A) j = Some b \<and> same_action b a \<and> a_state a = a_state b
          \<and> q_once A' = AList.delete j (q_once A) \<and> q_pending A' = q_pending A
       else a_state a = Pending \<and> q_once A' = q_once A \<and> map_of (q_pending A') i = Some a)"
proof -
  have irr: "a_irreversible (new_approval i r now e) = rq_irreversible r"
    and key: "action_key (new_approval i r now e) = (rq_task r, rq_action r, rq_target r)"
    and idn: "a_id (new_approval i r now e) = i" for e
    by (simp_all add: new_approval_def action_key_def)
  from assms(2) show ?thesis
  proof (cases rule: request_cases)
    case (rule rule expiry)
    then have d: "rule_decides A a now rule" by (auto simp: rule_decides_def irr)
    with rule show ?thesis by (auto simp: key idn)
  next
    case (once j b expiry)
    then have "\<nexists>rule. rule_decides A a now rule" by (auto simp: rule_decides_def irr)
    moreover have "map_of (q_once A) j = Some b"
      using once(2) assms(1) by (simp add: map_of_in_set approvals_inv_def)
    moreover have "same_action b a" using once(3,6) by (simp add: same_action_def)
    ultimately show ?thesis using once by (auto simp: key idn)
  next
    case (queued expiry)
    then have "\<nexists>rule. rule_decides A a now rule" by (auto simp: rule_decides_def irr)
    with queued show ?thesis by (auto simp: key idn)
  qed
qed

theorem request_answers_witness:
  "case request approvals_new ''a1'' payment 0 of
     None \<Rightarrow> False
   | Some (A', a) \<Rightarrow> a_state a = Pending \<and> map_of (q_pending A') ''a1'' = Some a"
proof -
  define result where "result = request approvals_new ''a1'' payment 0"
  have "result \<noteq> None" unfolding result_def by code_simp
  then obtain A' a where r: "result = Some (A', a)" by auto
  from request_answers [OF approvals_inv_new r [unfolded result_def]] r show ?thesis
    unfolding result_def by (simp add: approvals_new_def rule_decides_def)
qed

text \<open>
  Expiration takes exactly the requests whose deadline has come, marks them expired and
  leaves every other waiting request untouched; the queue stays well formed.
\<close>

theorem expire_takes_overdue:
  assumes "approvals_inv A" "expire A now = Some (A', out)"
  shows "approvals_inv A'
    \<and> (\<forall>a. a \<in> set out \<longleftrightarrow> (\<exists>p. map_of (q_pending A) (a_id p) = Some p \<and> a_expires p \<le> now
          \<and> a = p\<lparr>a_state := ExpiredState\<rparr>))
    \<and> (\<forall>i a. map_of (q_pending A') i = Some a \<longleftrightarrow> map_of (q_pending A) i = Some a \<and> now < a_expires a)"
proof -
  note E = expire_inv [OF assms]
  from assms(1) have d: "distinct_keys (q_pending A)"
    and ids: "\<And>i a. map_of (q_pending A) i = Some a \<Longrightarrow> a_id a = i"
    by (auto simp: approvals_inv_def entry_ok_def)
  have "a \<in> set out \<longleftrightarrow> (\<exists>p. map_of (q_pending A) (a_id p) = Some p \<and> a_expires p \<le> now
      \<and> a = p\<lparr>a_state := ExpiredState\<rparr>)" for a
  proof -
    let ?is = "map fst (filter (\<lambda>(_, a). a_expires a \<le> now) (q_pending A))"
    from E have "out = map (\<lambda>i. (the (map_of (q_pending A) i))\<lparr>a_state := ExpiredState\<rparr>) ?is"
      by blast
    then have "a \<in> set out \<longleftrightarrow>
        (\<exists>i \<in> set ?is. a = (the (map_of (q_pending A) i))\<lparr>a_state := ExpiredState\<rparr>)"
      by (simp only: set_map [of "\<lambda>i. (the (map_of (q_pending A) i))\<lparr>a_state := ExpiredState\<rparr>"]
          image_iff)
    also have "\<dots> \<longleftrightarrow> (\<exists>i p. map_of (q_pending A) i = Some p \<and> a_expires p \<le> now
        \<and> a = p\<lparr>a_state := ExpiredState\<rparr>)"
      using expired_keys(2) [OF d, of _ "\<lambda>a. a_expires a \<le> now"] by (metis option.sel)
    finally show ?thesis using ids by metis
  qed
  moreover have "map_of (q_pending A') i = Some a \<longleftrightarrow>
      map_of (q_pending A) i = Some a \<and> now < a_expires a" for i a
    using E by (auto split: option.splits if_splits)
  ultimately show ?thesis using E by blast
qed

theorem expire_takes_overdue_witness:
  "case run ap_step approvals_new [EvRequest ''a1'' payment 0, EvExpire (hours 24)] of
     None \<Rightarrow> False
   | Some (A, outs) \<Rightarrow> pending A = [] \<and> approvals_inv A"
proof -
  define A where "A = fst (the (request approvals_new ''a1'' payment 0))"
  define result where "result = expire A (hours 24)"
  have step: "run ap_step approvals_new [EvRequest ''a1'' payment 0, EvExpire (hours 24)]
      = map_option (\<lambda>(B, xs). (B, [OutApproval (snd (the (request approvals_new ''a1'' payment 0))),
          OutExpired xs])) result"
    unfolding result_def A_def
    by (cases "request approvals_new ''a1'' payment 0")
      (auto simp: request_def Let_def datetime_add_def time_defs datetime_min_def datetime_max_def
        DEFAULT_TTL_HOURS_def approvals_new_def split: option.splits)
  have inv: "approvals_inv A"
  proof -
    have "request approvals_new ''a1'' payment 0 \<noteq> None" by code_simp
    then show ?thesis unfolding A_def using request_inv [OF approvals_inv_new] by fastforce
  qed
  have "case result of None \<Rightarrow> False | Some (B, xs) \<Rightarrow> pending B = []"
    unfolding result_def A_def by code_simp
  then obtain B xs where r: "result = Some (B, xs)" "pending B = []" by (cases result) auto
  from expire_takes_overdue [OF inv r(1) [unfolded result_def]] r step show ?thesis by simp
qed

text \<open>
  A late decision does not last. The time a decided request stays readable, and a one-time
  decision waits for the call it allows, is counted from the creation of the request: if the human
  answers after that hour, the next expiration forgets the answer, and the same call asks again.
\<close>

theorem late_decision_forgotten:
  assumes "approvals_inv A" "map_of (q_pending A) i = Some p"
    and "resolve A i rid d ScopeOnce now = Some (A1, out)"
    and "a_created p + hours RESOLVED_TTL_HOURS \<le> later" "expire A1 later = Some (A2, xs)"
  shows "map_of (q_once A1) i \<noteq> None \<and> status A1 i \<noteq> None
    \<and> map_of (q_once A2) i = None \<and> status A2 i = None"
  using assms(3)
proof (cases rule: resolve_cases)
  case (decided p' a rules once)
  with assms(2) have a: "a_created a = a_created p" by simp
  from decided(5) have once: "once = AList.update i a (q_once A)"
    by (auto simp: effective_scope_def split: if_splits)
  from resolve_inv [OF assms(1,3)] have inv: "approvals_inv A1" .
  note E = expire_inv [OF inv assms(5)]
  from inv have dist: "distinct_keys (q_once A1)" "distinct_keys (q_resolved A1)"
    by (auto simp: approvals_inv_def)
  have A1: "map_of (q_once A1) i = Some a" "map_of (q_resolved A1) i = Some a"
      "map_of (q_pending A1) i = None"
    using decided(4) once by simp_all
  moreover have "\<not> later - hours RESOLVED_TTL_HOURS < a_created a"
    using a assms(4) by simp
  ultimately show ?thesis
    using E dist by (simp add: status_def map_of_retain)
qed (use assms(2) in simp)

definition late_queue :: approvals where
  "late_queue = fst (the (request approvals_new ''a1'' payment 0))"

theorem late_decision_forgotten_witness:
  "\<exists>A1 A2 out xs. resolve late_queue ''a1'' ''r1'' HAllow ScopeOnce (hours 2) = Some (A1, out)
     \<and> expire A1 (hours 2 + 1) = Some (A2, xs) \<and> status A2 ''a1'' = None"
proof -
  define A1 where "A1 = fst (the (resolve late_queue ''a1'' ''r1'' HAllow ScopeOnce (hours 2)))"
  have inv: "approvals_inv late_queue"
  proof -
    have "request approvals_new ''a1'' payment 0 \<noteq> None" by code_simp
    then show ?thesis unfolding late_queue_def using request_inv [OF approvals_inv_new] by fastforce
  qed
  have "resolve late_queue ''a1'' ''r1'' HAllow ScopeOnce (hours 2) \<noteq> None"
    "expire A1 (hours 2 + 1) \<noteq> None" "map_of (q_pending late_queue) ''a1'' \<noteq> None"
    unfolding A1_def by code_simp+
  then obtain out A2 xs p where
    *: "resolve late_queue ''a1'' ''r1'' HAllow ScopeOnce (hours 2) = Some (A1, out)"
      "expire A1 (hours 2 + 1) = Some (A2, xs)" "map_of (q_pending late_queue) ''a1'' = Some p"
    unfolding A1_def by fastforce
  have "a_created (the (map_of (q_pending late_queue) ''a1'')) = 0" by code_simp
  then have "a_created p + hours RESOLVED_TTL_HOURS \<le> hours 2 + 1"
    by (simp add: *(3) RESOLVED_TTL_HOURS_def time_defs)
  from late_decision_forgotten [OF inv *(3,1) this *(2)] * show ?thesis by blast
qed

text \<open>
  A one-time yes is not tied to the flags of the action it was given for: the yes given to a
  reversible request is used by the next request of the same name and target even when that one
  is declared irreversible, without a human seeing it.
\<close>

theorem reversible_yes_serves_irreversible:
  assumes "\<forall>rule \<in> set (q_rules A). \<not> rule_covers rule a now"
    and "q_once A = [(j, b)]" "a_state b = Resolved HAllow" "\<not> a_irreversible b"
    and "action_key b = (rq_task r, rq_action r, rq_target r)" "rq_irreversible r"
    and "request A i r now = Some (A', a)"
  shows "a_state a = Resolved HAllow \<and> a_irreversible a \<and> q_once A' = [] \<and> q_pending A' = q_pending A"
  using assms(7)
proof (cases rule: request_cases)
  case (rule rule expiry)
  from rule(3,6) have "rule_covers rule a now" by simp
  with rule(2) assms(1) show ?thesis by blast
next
  case (once j' b' expiry)
  with assms show ?thesis by (auto simp: new_approval_def)
next
  case (queued expiry)
  with assms(2,5) show ?thesis by (auto simp: action_key_same action_key_def new_approval_def)
qed

theorem reversible_yes_serves_irreversible_witness:
  "\<exists>A' a. request (fst (the (run ap_step approvals_new
       [EvRequest ''a1'' (payment\<lparr>rq_irreversible := False\<rparr>) 0,
        EvResolve ''a1'' ''r1'' HAllow ScopeOnce 10]))) ''a2'' payment 20 = Some (A', a)
     \<and> a_state a = Resolved HAllow \<and> a_irreversible a"
proof -
  define A where "A = fst (the (run ap_step approvals_new
       [EvRequest ''a1'' (payment\<lparr>rq_irreversible := False\<rparr>) 0,
        EvResolve ''a1'' ''r1'' HAllow ScopeOnce 10]))"
  define b where "b = snd (hd (q_once A))"
  have b: "q_rules A = []" "q_once A = [(''a1'', b)]" "a_state b = Resolved HAllow"
    "\<not> a_irreversible b" "action_key b = (rq_task payment, rq_action payment, rq_target payment)"
    "rq_irreversible payment" "request A ''a2'' payment 20 \<noteq> None"
    unfolding A_def b_def by code_simp+
  then obtain A' a where r: "request A ''a2'' payment 20 = Some (A', a)" by auto
  from reversible_yes_serves_irreversible [OF _ b(2-6) r] b(1) r show ?thesis
    unfolding A_def [symmetric] by simp
qed

end
