(* ===== verification/Broker.thy ===== *)
theory Broker
  imports Manifest Approvals
begin

text \<open>
  The broker (\<^verbatim>\<open>crates/capd/src/broker.rs\<close>): it mints, delegates, revokes and checks tokens.
  Nonces and identifiers are arguments. The loops over parent digests are
  \<open>partial_function (option)\<close>: \<open>None\<close> is a loop that never ends. The locks around the two caches
  are not modelled (a poisoned lock only skips the cache).
\<close>

section \<open>Data\<close>

datatype broker_error = EmptyIntersection | BrokerCap cap_error | BrokerManifest manifest_error
  | BrokerPolicy policy_error | UnknownParent | NotASubset | DepthExceeded nat

record check_request =
  cr_res :: res
  cr_act :: act
  cr_target :: string
  cr_sandbox_level :: nat
  cr_irreversible :: bool
  cr_external :: bool
  cr_context :: check_context

definition check_request_new :: "res \<Rightarrow> act \<Rightarrow> string \<Rightarrow> check_request" where
  "check_request_new r a target = \<lparr>cr_res = r, cr_act = a, cr_target = target,
     cr_sandbox_level = 0, cr_irreversible = False, cr_external = False,
     cr_context = default_context\<rparr>"

record policy_key =
  pk_action :: string
  pk_sensitive :: bool
  pk_irreversible :: bool
  pk_external :: bool
  pk_sandbox_level :: nat

record broker =
  br_issuer :: string
  br_home :: string
  br_policy :: engine
  br_issued :: "(string, token) amap"
  br_revoked :: "string set"
  br_approvals :: approvals
  br_verified :: "string set"
  br_policy_cache :: "(policy_key, bool) amap"

definition DEFAULT_MAX_DEPTH :: nat where
  "DEFAULT_MAX_DEPTH = 3"

definition broker_new :: "string \<Rightarrow> string \<Rightarrow> broker" where
  "broker_new issuer home = \<lparr>br_issuer = issuer, br_home = home, br_policy = default_engine,
     br_issued = [], br_revoked = {}, br_approvals = approvals_new, br_verified = {},
     br_policy_cache = []\<rparr>"

definition with_policy :: "broker \<Rightarrow> engine \<Rightarrow> broker" where
  "with_policy B E = B\<lparr>br_policy := E, br_policy_cache := []\<rparr>"

definition restore_approvals :: "broker \<Rightarrow> approvals \<Rightarrow> broker" where
  "restore_approvals B A = B\<lparr>br_approvals := A\<rparr>"

section \<open>Minting and delegating\<close>

text \<open>The end both operations share: build the token, register it under its digest.\<close>

definition register :: "crypto \<Rightarrow> broker \<Rightarrow> token_builder \<Rightarrow> instant \<Rightarrow> string
    \<Rightarrow> broker \<times> (broker_error + token)" where
  "register K B b now nonce =
     (case token_build K b now nonce of
        Inl e \<Rightarrow> (B, Err (BrokerCap e))
      | Inr t \<Rightarrow>
          (case token_digest K t of
             Inl e \<Rightarrow> (B, Err (BrokerCap e))
           | Inr h \<Rightarrow> (B\<lparr>br_issued := AList.update h t (br_issued B)\<rparr>, Ok t)))"

definition mint :: "crypto \<Rightarrow> broker \<Rightarrow> manifest \<Rightarrow> string \<Rightarrow> string \<Rightarrow> grant list \<Rightarrow> int \<Rightarrow> instant
    \<Rightarrow> string \<Rightarrow> broker \<times> (broker_error + token)" where
  "mint K B m task user requested ttl_seconds now nonce =
     (case ceiling m of
        Inl e \<Rightarrow> (B, Err (BrokerManifest e))
      | Inr ceil \<Rightarrow>
          let granted = filter (\<lambda>g. list_ex (\<lambda>c. grant_is_subset_of g c) ceil) requested
          in if granted = [] then (B, Err EmptyIntersection)
             else register K B
               (builder_ttl_seconds
                  (builder_grants (token_builder_new (br_issuer B) task (ag_id (m_agent m)) user) granted)
                  ttl_seconds) now nonce)"

partial_function (option) depth_from :: "(string, token) amap \<Rightarrow> token option \<Rightarrow> nat \<Rightarrow> nat option" where
  "depth_from issued current depth =
     (case current of
        None \<Rightarrow> Some depth
      | Some t \<Rightarrow>
          (case t_parent t of
             Some parent \<Rightarrow> depth_from issued (map_of issued parent) (depth + 1)
           | None \<Rightarrow> Some depth))"

definition depth_of :: "broker \<Rightarrow> string \<Rightarrow> nat option" where
  "depth_of B digest = depth_from (br_issued B) (map_of (br_issued B) digest) 0"

definition max_depth_of :: "token \<Rightarrow> nat" where
  "max_depth_of parent =
     (case find (\<lambda>g. g_res g = ResTask \<and> g_act g = ActSpawn) (t_grants parent) of
        None \<Rightarrow> DEFAULT_MAX_DEPTH
      | Some g \<Rightarrow>
          (case c_max_depth (g_constraints g) of Some d \<Rightarrow> d | None \<Rightarrow> DEFAULT_MAX_DEPTH))"

definition delegate :: "crypto \<Rightarrow> broker \<Rightarrow> token \<Rightarrow> string \<Rightarrow> grant list \<Rightarrow> int \<Rightarrow> instant \<Rightarrow> string
    \<Rightarrow> (broker \<times> (broker_error + token)) option" where
  "delegate K B parent task requested ttl_seconds now nonce =
     (case token_digest K parent of
        Inl e \<Rightarrow> Some (B, Err (BrokerCap e))
      | Inr parent_digest \<Rightarrow>
          if \<not> contains_key parent_digest (br_issued B) then Some (B, Err UnknownParent)
          else (case depth_of B parent_digest of
                  None \<Rightarrow> None
                | Some depth \<Rightarrow>
                    if max_depth_of parent < depth + 1
                      then Some (B, Err (DepthExceeded (max_depth_of parent)))
                    else if \<not> list_all (\<lambda>g. list_ex (\<lambda>p. grant_is_subset_of g p) (t_grants parent)) requested
                      then Some (B, Err NotASubset)
                    else
                      let parent_remaining = max (whole_seconds (t_exp parent - now)) 1
                      in Some (register K B
                           (builder_ttl_seconds
                              (builder_parent
                                 (builder_grants
                                    (token_builder_new (br_issuer B) task (t_agent parent) (t_user parent))
                                    requested)
                                 parent_digest)
                              (min ttl_seconds parent_remaining)) now nonce)))"

section \<open>Revocation\<close>

definition revoke :: "broker \<Rightarrow> string \<Rightarrow> broker" where
  "revoke B subject = B\<lparr>br_revoked := insert subject (br_revoked B),
     br_approvals := clear_task_rules (br_approvals B) subject\<rparr>"

definition is_revoked :: "broker \<Rightarrow> string \<Rightarrow> bool" where
  "is_revoked B subject \<longleftrightarrow> subject \<in> br_revoked B"

partial_function (option) revoked_from ::
    "(string, token) amap \<Rightarrow> string set \<Rightarrow> string option \<Rightarrow> bool option" where
  "revoked_from issued revoked current =
     (case current of
        None \<Rightarrow> Some False
      | Some digest \<Rightarrow>
          (case map_of issued digest of
             None \<Rightarrow> Some True
           | Some parent \<Rightarrow>
               if t_sub parent \<in> revoked then Some True
               else revoked_from issued revoked (t_parent parent)))"

declare depth_from.simps [code] revoked_from.simps [code]

definition has_revoked_ancestor :: "broker \<Rightarrow> token \<Rightarrow> bool option" where
  "has_revoked_ancestor B t =
     (if t_sub t \<in> br_revoked B then Some True
      else revoked_from (br_issued B) (br_revoked B) (t_parent t))"

section \<open>Checking\<close>

definition facts_for :: "broker \<Rightarrow> check_request \<Rightarrow> resource_facts" where
  "facts_for B q = \<lparr>f_target = cr_target q,
     f_sensitive = (cr_res q = ResFs \<or> cr_res q = ResProc)
       \<and> is_sensitive_path (cr_target q) (br_home B),
     f_irreversible = cr_irreversible q, f_external = cr_external q,
     f_confined_utility = cr_res q = ResProc \<and> cr_act q = ActExec \<and> is_safe_utility (cr_target q)\<rparr>"

definition signature_is_valid :: "crypto \<Rightarrow> broker \<Rightarrow> token \<Rightarrow> broker \<times> (broker_error + bool)" where
  "signature_is_valid K B t =
     (case token_digest K t of
        Inl e \<Rightarrow> (B, Err (BrokerCap e))
      | Inr digest \<Rightarrow>
          if digest \<in> br_verified B then (B, Ok True)
          else (case token_verify K t of
                  Inl _ \<Rightarrow> (B, Ok False)
                | Inr _ \<Rightarrow> (B\<lparr>br_verified := insert digest (br_verified B)\<rparr>, Ok True)))"

definition policy_key_of :: "check_request \<Rightarrow> resource_facts \<Rightarrow> policy_key" where
  "policy_key_of q f = \<lparr>pk_action = action_name (cr_res q) (cr_act q), pk_sensitive = f_sensitive f,
     pk_irreversible = f_irreversible f, pk_external = f_external f,
     pk_sandbox_level = cr_sandbox_level q\<rparr>"

definition policy_allows :: "broker \<Rightarrow> string \<Rightarrow> check_request \<Rightarrow> resource_facts
    \<Rightarrow> broker \<times> (broker_error + bool)" where
  "policy_allows B task q f =
     (let key = policy_key_of q f
      in case map_of (br_policy_cache B) key of
           Some d \<Rightarrow> (B, Ok d)
         | None \<Rightarrow>
             (case allows (br_policy B) task (cr_res q) (cr_act q) f (cr_sandbox_level q) of
                Inl e \<Rightarrow> (B, Err (BrokerPolicy e))
              | Inr d \<Rightarrow> (B\<lparr>br_policy_cache := AList.update key d (br_policy_cache B)\<rparr>, Ok d)))"

definition context_for :: "broker \<Rightarrow> check_request \<Rightarrow> check_context" where
  "context_for B q = (cr_context q)\<lparr>x_target := cr_target q,
     x_home := (if x_home (cr_context q) = [] then br_home B else x_home (cr_context q)),
     x_sandbox_level := cr_sandbox_level q\<rparr>"

text \<open>From the grants on: the search, then the class of the action.\<close>

definition decide :: "broker \<Rightarrow> token \<Rightarrow> check_request \<Rightarrow> decision" where
  "decide B t q =
     (let d = find_grant t (cr_res q) (cr_act q) (context_for B q)
      in if \<not> is_allow d then d
         else if requires_approval (classify (cr_res q) (cr_act q) (facts_for B q))
           then Deny ApprovalRequiredDeny (Some (ActionRule (action_name (cr_res q) (cr_act q))))
         else d)"

definition check :: "crypto \<Rightarrow> broker \<Rightarrow> token \<Rightarrow> check_request \<Rightarrow> instant
    \<Rightarrow> (broker \<times> (broker_error + decision)) option" where
  "check K B t q now =
     (case token_validate t of
        Inl _ \<Rightarrow> Some (B, Ok (deny UnknownVersion))
      | Inr _ \<Rightarrow>
          (case signature_is_valid K B t of
             (B1, Inl e) \<Rightarrow> Some (B1, Err e)
           | (B1, Inr False) \<Rightarrow> Some (B1, Ok (deny BadSignature))
           | (B1, Inr True) \<Rightarrow>
               (case has_revoked_ancestor B1 t of
                  None \<Rightarrow> None
                | Some True \<Rightarrow> Some (B1, Ok (deny RevokedParent))
                | Some False \<Rightarrow>
                    if is_expired t now then Some (B1, Ok (deny Expired))
                    else (case policy_allows B1 (t_sub t) q (facts_for B1 q) of
                            (B2, Inl e) \<Rightarrow> Some (B2, Err e)
                          | (B2, Inr False) \<Rightarrow>
                              Some (B2, Ok (Deny PolicyDenied
                                (Some (ActionRule (action_name (cr_res q) (cr_act q))))))
                          | (B2, Inr True) \<Rightarrow> Some (B2, Ok (decide B2 t q))))))"

section \<open>Approvals through the broker\<close>

definition broker_classify :: "broker \<Rightarrow> check_request \<Rightarrow> action_class" where
  "broker_classify B q = classify (cr_res q) (cr_act q) (facts_for B q)"

definition approval_status :: "broker \<Rightarrow> string \<Rightarrow> approval option" where
  "approval_status B i = status (br_approvals B) i"

definition explain_approval :: "broker \<Rightarrow> string \<Rightarrow> string \<Rightarrow> broker \<times> approval option" where
  "explain_approval B i reason =
     (let (A, out) = explain (br_approvals B) i reason in (B\<lparr>br_approvals := A\<rparr>, out))"

definition request_approval :: "broker \<Rightarrow> string \<Rightarrow> token \<Rightarrow> check_request \<Rightarrow> string \<Rightarrow> instant
    \<Rightarrow> (broker \<times> approval) option" where
  "request_approval B i t q summary now =
     (let r = \<lparr>rq_task = t_sub t, rq_agent = t_agent t, rq_action = action_name (cr_res q) (cr_act q),
            rq_target = cr_target q, rq_summary = summary, rq_irreversible = cr_irreversible q,
            rq_external = cr_external q\<rparr>
      in map_option (\<lambda>(A, a). (B\<lparr>br_approvals := A\<rparr>, a)) (request (br_approvals B) i r now))"

section \<open>Lineages\<close>

text \<open>The registered ancestors of a digest, nearest first, up to a root token.\<close>

inductive lineage :: "(string, token) amap \<Rightarrow> string option \<Rightarrow> token list \<Rightarrow> bool" for I where
  root: "lineage I None []"
| link: "map_of I d = Some t \<Longrightarrow> lineage I (t_parent t) ts \<Longrightarrow> lineage I (Some d) (t # ts)"

inductive_cases lineage_NoneE: "lineage I None ts"
inductive_cases lineage_SomeE: "lineage I (Some d) ts"

text \<open>Tokens are registered after their parents.\<close>

definition registry_ok :: "(string, token) amap \<Rightarrow> bool" where
  "registry_ok I \<longleftrightarrow> distinct_keys I
     \<and> (\<forall>pre h t post p. I = pre @ (h, t) # post \<longrightarrow> t_parent t = Some p \<longrightarrow> p \<in> fst ` set pre)"

lemma registry_ok_Nil [simp]: "registry_ok []"
  by (simp add: registry_ok_def)

lemma update_fresh: "h \<notin> fst ` set I \<Longrightarrow> AList.update h t I = I @ [(h, t)]"
  by (induction I) auto

lemma registry_ok_update:
  assumes "registry_ok I" "\<And>p. t_parent t = Some p \<Longrightarrow> p \<in> fst ` set I"
    and "\<And>t'. map_of I h = Some t' \<Longrightarrow> t' = t"
  shows "registry_ok (AList.update h t I)"
proof (cases "map_of I h")
  case (Some t')
  with assms(1,3) show ?thesis by (simp add: AList.update_triv)
next
  case None
  then have fresh: "h \<notin> fst ` set I" by (simp add: map_of_eq_None_iff)
  have "p \<in> fst ` set pre" if "I @ [(h, t)] = pre @ (k, u) # post" "t_parent u = Some p" for pre k u post p
  proof (cases post rule: rev_cases)
    case Nil
    with that assms(2) show ?thesis by auto
  next
    case (snoc post' x)
    with that(1) have "I = pre @ (k, u) # post'" by auto
    with assms(1) that(2) show ?thesis unfolding registry_ok_def by blast
  qed
  with assms(1) fresh show ?thesis
    unfolding registry_ok_def update_fresh [OF fresh] distinct_keys_def by auto
qed

lemma registered_lineage:
  assumes "registry_ok I" "map_of I d = Some t"
  shows "\<exists>ts. lineage I (Some d) ts"
proof -
  have "\<exists>ts. lineage I (Some d) ts" if "I = pre @ (d, t) # post" for pre post d t
    using that
  proof (induction "length pre" arbitrary: pre post d t rule: less_induct)
    case less
    have "distinct_keys I" "(d, t) \<in> set I"
      using assms(1) less.prems by (auto simp: registry_ok_def)
    then have here: "map_of I d = Some t" by (simp only: map_of_in_set)
    show ?case
    proof (cases "t_parent t")
      case None
      with lineage.link [OF here] lineage.root show ?thesis by force
    next
      case (Some p)
      with assms(1) less.prems have "p \<in> fst ` set pre" unfolding registry_ok_def by blast
      then obtain u pre1 pre2 where pre: "pre = pre1 @ (p, u) # pre2"
        by (auto simp: in_set_conv_decomp)
      with less.hyps [of pre1 p u] less.prems obtain ts where "lineage I (Some p) ts" by auto
      with lineage.link [OF here] Some show ?thesis by metis
    qed
  qed
  moreover from assms(2) obtain pre post where "I = pre @ (d, t) # post"
    by (meson map_of_SomeD in_set_conv_decomp)
  ultimately show ?thesis by blast
qed

lemma revoked_from_lineage:
  "lineage I cur ts \<Longrightarrow> revoked_from I R cur = Some (\<exists>t \<in> set ts. t_sub t \<in> R)"
  by (induction rule: lineage.induct) (subst revoked_from.simps; simp)+

lemma depth_from_lineage:
  "lineage I cur ts \<Longrightarrow> cur = Some d \<Longrightarrow> depth_from I (map_of I d) n = Some (n + length ts - 1)"
proof (induction arbitrary: d n rule: lineage.induct)
  case (link d' t ts)
  show ?case
  proof (cases "t_parent t")
    case None
    with link show ?thesis by (subst depth_from.simps) (auto elim: lineage_NoneE)
  next
    case (Some p)
    with link.hyps(2) obtain u us where "ts = u # us" by (auto elim: lineage_SomeE)
    with Some link link.IH [OF Some, of "Suc n"] show ?thesis by (subst depth_from.simps) simp
  qed
qed simp

lemma lineage_grow:
  "lineage I cur ts \<Longrightarrow> (\<And>h t. map_of I h = Some t \<Longrightarrow> map_of J h = Some t) \<Longrightarrow> lineage J cur ts"
  by (induction rule: lineage.induct) (auto intro: lineage.intros)

lemma lineage_unique: "lineage I cur ts \<Longrightarrow> lineage I cur us \<Longrightarrow> ts = us"
proof (induction arbitrary: us rule: lineage.induct)
  case root
  then show ?case by (auto elim: lineage_NoneE)
next
  case (link d t ts)
  from link.prems link.hyps(1) obtain vs where "us = t # vs" "lineage I (t_parent t) vs"
    by (auto elim: lineage_SomeE)
  with link.IH show ?case by simp
qed

text \<open>The walk up the parents ends for any token presented to the broker.\<close>

lemma ancestor_walk_ends:
  assumes "registry_ok (br_issued B)"
  obtains b where "has_revoked_ancestor B t = Some b"
    and "b = False \<Longrightarrow> t_sub t \<notin> br_revoked B
       \<and> (\<exists>ts. lineage (br_issued B) (t_parent t) ts \<and> (\<forall>u \<in> set ts. t_sub u \<notin> br_revoked B))"
proof (cases "t_parent t")
  case None
  with that lineage.root show ?thesis
    by (cases "t_sub t \<in> br_revoked B")
      (force simp: has_revoked_ancestor_def revoked_from.simps)+
next
  case (Some p)
  show ?thesis
  proof (cases "map_of (br_issued B) p")
    case None
    with Some that [of True] show ?thesis
      by (simp add: has_revoked_ancestor_def revoked_from.simps)
  next
    case (Some u)
    from registered_lineage [OF assms this] obtain ts where ts: "lineage (br_issued B) (Some p) ts" ..
    note revoked_from_lineage [OF this, of "br_revoked B"]
    with \<open>t_parent t = Some p\<close> ts that show ?thesis
      by (cases "t_sub t \<in> br_revoked B") (force simp: has_revoked_ancestor_def)+
  qed
qed

section \<open>The broker as a transition system\<close>

text \<open>
  Steps exclude digest collisions: a token whose digest is registered is the registered token.
\<close>

definition digest_agrees :: "crypto \<Rightarrow> broker \<Rightarrow> token \<Rightarrow> bool" where
  "digest_agrees K B t \<longleftrightarrow>
     (\<forall>h t'. token_digest K t = Ok h \<longrightarrow> map_of (br_issued B) h = Some t' \<longrightarrow> t' = t)"

inductive broker_step :: "crypto \<Rightarrow> broker \<Rightarrow> broker \<Rightarrow> bool" for K where
  step_mint: "mint K B m task user requested ttl now nonce = (B', res) \<Longrightarrow>
    (\<And>t. res = Ok t \<Longrightarrow> digest_agrees K B t) \<Longrightarrow> broker_step K B B'"
| step_delegate: "delegate K B parent task requested ttl now nonce = Some (B', res) \<Longrightarrow>
    digest_agrees K B parent \<Longrightarrow> (\<And>t. res = Ok t \<Longrightarrow> digest_agrees K B t) \<Longrightarrow> broker_step K B B'"
| step_revoke: "broker_step K B (revoke B subject)"
| step_check: "check K B t q now = Some (B', res) \<Longrightarrow> broker_step K B B'"
| step_queue: "ap_step (br_approvals B) e = Some (A, out) \<Longrightarrow> broker_step K B (B\<lparr>br_approvals := A\<rparr>)"

inductive_cases broker_stepE: "broker_step K B B'"

section \<open>The invariant of the broker\<close>

text \<open>What a registered token takes from its registered parent.\<close>

definition derives :: "token \<Rightarrow> token \<Rightarrow> bool" where
  "derives p t \<longleftrightarrow> t_user t = t_user p \<and> t_agent t = t_agent p
     \<and> covers_all (\<lambda>p c. grant_is_subset_of c p) (t_grants p) (t_grants t)"

definition verified_digest :: "crypto \<Rightarrow> string \<Rightarrow> bool" where
  "verified_digest K h \<longleftrightarrow> (\<exists>t. token_digest K t = Ok h \<and> token_verify K t = Ok ())"

definition cache_ok :: "broker \<Rightarrow> bool" where
  "cache_ok B \<longleftrightarrow> (\<forall>k d. map_of (br_policy_cache B) k = Some d \<longrightarrow>
     (\<exists>task q f. policy_key_of q f = k
        \<and> allows (br_policy B) task (cr_res q) (cr_act q) f (cr_sandbox_level q) = Ok d))"

definition broker_inv :: "crypto \<Rightarrow> broker \<Rightarrow> bool" where
  "broker_inv K B \<longleftrightarrow> registry_ok (br_issued B) \<and> approvals_inv (br_approvals B)
   \<and> (\<forall>h t. map_of (br_issued B) h = Some t \<longrightarrow> token_digest K t = Ok h \<and> token_validate t = Ok ())
   \<and> (\<forall>h t d p. map_of (br_issued B) h = Some t \<longrightarrow> t_parent t = Some d \<longrightarrow>
        map_of (br_issued B) d = Some p \<longrightarrow> derives p t)
   \<and> (\<forall>h \<in> br_verified B. verified_digest K h) \<and> cache_ok B"

lemma token_build_Ok:
  assumes "token_build K b now nonce = Ok t"
  shows "token_validate t = Ok ()" "t_parent t = b_parent b" "t_grants t = b_grants b"
    "t_user t = b_user b" "t_agent t = b_agent b" "t_sub t = b_subject b" "t_iat t = now"
    "t_exp t = now + seconds (b_ttl_seconds b)"
proof -
  from assms obtain t0 where t0: "token_validate t0 = Ok ()" "token_sign K t0 = Ok t"
    "t0 = \<lparr>t_v = TOKEN_VERSION, t_iss = b_issuer b, t_sub = b_subject b, t_agent = b_agent b,
      t_user = b_user b, t_parent = b_parent b, t_grants = b_grants b, t_iat = now,
      t_exp = now + seconds (b_ttl_seconds b), t_nonce = k_b64_encode K nonce, t_sig = None\<rparr>"
    by (auto simp: token_build_def datetime_add_def Let_def split: option.splits sum.splits if_splits)
  from token_sign_Ok [OF t0(2)] obtain s where "t = t0\<lparr>t_sig := s\<rparr>" by blast
  with t0(1) token_validate_sig show "token_validate t = Ok ()" by simp
  from \<open>t = t0\<lparr>t_sig := s\<rparr>\<close> t0(3) show "t_parent t = b_parent b" "t_grants t = b_grants b"
    "t_user t = b_user b" "t_agent t = b_agent b" "t_sub t = b_subject b" "t_iat t = now"
    "t_exp t = now + seconds (b_ttl_seconds b)" by simp_all
qed

lemmas builder_defs = builder_ttl_seconds_def builder_parent_def builder_grants_def token_builder_new_def

text \<open>Registration either changes nothing or adds a built token under its digest.\<close>

lemma register_cases:
  assumes "register K B b now nonce = (B', res)"
  obtains (refused) e where "B' = B" "res = Err (BrokerCap e)"
    | (registered) t h where "res = Ok t" "token_build K b now nonce = Ok t" "token_digest K t = Ok h"
        "B' = B\<lparr>br_issued := AList.update h t (br_issued B)\<rparr>"
  using assms by (auto simp: register_def split: sum.splits)

lemma mint_cases:
  assumes "mint K B m task user requested ttl now nonce = (B', res)"
  obtains (refused) e where "B' = B" "res = Err e"
    | (minted) t h ceil where "res = Ok t" "token_digest K t = Ok h" "ceiling m = Ok ceil"
        "B' = B\<lparr>br_issued := AList.update h t (br_issued B)\<rparr>" "token_validate t = Ok ()"
        "t_parent t = None" "t_sub t = task" "t_user t = user" "t_agent t = ag_id (m_agent m)"
        "t_exp t = now + seconds ttl"
        "t_grants t = filter (\<lambda>g. list_ex (\<lambda>c. grant_is_subset_of g c) ceil) requested"
proof (cases "\<exists>e. B' = B \<and> res = Err e")
  case True
  with that(1) show ?thesis by blast
next
  case False
  with assms obtain ceil where c: "ceiling m = Ok ceil"
    and r: "register K B (builder_ttl_seconds (builder_grants
        (token_builder_new (br_issuer B) task (ag_id (m_agent m)) user)
        (filter (\<lambda>g. list_ex (\<lambda>c. grant_is_subset_of g c) ceil) requested)) ttl) now nonce = (B', res)"
    by (auto simp: mint_def Let_def split: sum.splits if_splits)
  from r show ?thesis
  proof (cases rule: register_cases)
    case (registered t h)
    note t = token_build_Ok [OF registered(2), unfolded builder_defs, simplified]
    show ?thesis by (rule that(2) [OF registered(1,3) c registered(4)]) (simp_all add: t)
  qed (use False in blast)
qed

lemma delegate_cases:
  assumes "delegate K B parent task requested ttl now nonce = Some (B', res)"
  obtains (refused) e where "B' = B" "res = Err e"
    | (delegated) t h d where "res = Ok t" "token_digest K t = Ok h" "token_digest K parent = Ok d"
        "contains_key d (br_issued B)" "B' = B\<lparr>br_issued := AList.update h t (br_issued B)\<rparr>"
        "token_validate t = Ok ()" "t_parent t = Some d" "t_sub t = task"
        "t_user t = t_user parent" "t_agent t = t_agent parent"
        "t_exp t = now + seconds (min ttl (max (whole_seconds (t_exp parent - now)) 1))"
        "t_grants t = requested"
        "\<forall>g \<in> set requested. \<exists>p \<in> set (t_grants parent). grant_is_subset_of g p"
proof (cases "\<exists>e. B' = B \<and> res = Err e")
  case True
  with that(1) show ?thesis by blast
next
  case False
  with assms obtain d where d: "token_digest K parent = Ok d" "contains_key d (br_issued B)"
    and subset: "\<forall>g \<in> set requested. \<exists>p \<in> set (t_grants parent). grant_is_subset_of g p"
    and r: "register K B (builder_ttl_seconds (builder_parent (builder_grants
        (token_builder_new (br_issuer B) task (t_agent parent) (t_user parent)) requested) d)
        (min ttl (max (whole_seconds (t_exp parent - now)) 1))) now nonce = (B', res)"
    by (auto simp: delegate_def Let_def list_all_iff list_ex_iff
        split: sum.splits if_splits option.splits)
  from r show ?thesis
  proof (cases rule: register_cases)
    case (registered t h)
    note t = token_build_Ok [OF registered(2), unfolded builder_defs, simplified]
    show ?thesis
      by (rule that(2) [OF registered(1,3) d registered(4)]) (simp_all add: t subset)
  qed (use False in blast)
qed

text \<open>Checks only touch the two caches.\<close>

lemma signature_cases:
  assumes "signature_is_valid K B t = (B1, r)"
  obtains (failed) e where "B1 = B" "r = Err e"
    | (invalid) "B1 = B" "r = Ok False"
    | (valid) h V where "r = Ok True" "token_digest K t = Ok h" "B1 = B\<lparr>br_verified := V\<rparr>"
        "h \<in> br_verified B \<and> V = br_verified B
          \<or> token_verify K t = Ok () \<and> V = insert h (br_verified B)"
proof (cases "\<exists>h. token_digest K t = Ok h \<and> h \<in> br_verified B")
  case True
  with assms that(3) [of _ "br_verified B"] show ?thesis
    by (auto simp: signature_is_valid_def)
next
  case False
  with assms that show ?thesis
    by (auto simp: signature_is_valid_def split: sum.splits if_splits)
qed

lemma policy_cases:
  assumes "policy_allows B task q f = (B1, r)"
  obtains (failed) e where "B1 = B" "r = Err e"
    | (cached) d where "B1 = B" "r = Ok d" "map_of (br_policy_cache B) (policy_key_of q f) = Some d"
    | (fresh) d where "B1 = B\<lparr>br_policy_cache := AList.update (policy_key_of q f) d (br_policy_cache B)\<rparr>"
        "r = Ok d" "allows (br_policy B) task (cr_res q) (cr_act q) f (cr_sandbox_level q) = Ok d"
  using assms by (auto simp: policy_allows_def Let_def split: option.splits sum.splits)

text \<open>An answer that is not a plain refusal: allowed, or for a human to say.\<close>

definition heard :: "decision \<Rightarrow> bool" where
  "heard d \<longleftrightarrow> is_allow d \<or> (\<exists>rule. d = Deny ApprovalRequiredDeny rule)"

lemma heard_simps [simp]: "heard (Allow i)" "heard (Deny reason rule) \<longleftrightarrow> reason = ApprovalRequiredDeny"
  by (auto simp: heard_def)

lemma check_cases:
  assumes "check K B t q now = Some (B', res)"
  obtains (refused) "B' = B" "\<forall>d. res = Ok d \<longrightarrow> \<not> heard d"
    | (stopped) B1 where "signature_is_valid K B t = (B1, Ok True)" "B' = B1" "\<forall>d. res = Ok d \<longrightarrow> \<not> heard d"
    | (policy) B1 r where "signature_is_valid K B t = (B1, Ok True)" "token_validate t = Ok ()"
        "has_revoked_ancestor B1 t = Some False" "\<not> is_expired t now"
        "policy_allows B1 (t_sub t) q (facts_for B1 q) = (B', r)" "r \<noteq> Ok True" "\<forall>d. res = Ok d \<longrightarrow> \<not> heard d"
    | (decided) B1 where "signature_is_valid K B t = (B1, Ok True)" "token_validate t = Ok ()"
        "has_revoked_ancestor B1 t = Some False" "\<not> is_expired t now"
        "policy_allows B1 (t_sub t) q (facts_for B1 q) = (B', Ok True)" "res = Ok (decide B' t q)"
  using assms
  by (auto simp: check_def deny_def split: sum.splits prod.splits bool.splits option.splits if_splits
      elim: signature_cases)

lemma check_state:
  assumes "check K B t q now = Some (B', res)"
  obtains V C where "B' = B\<lparr>br_verified := V, br_policy_cache := C\<rparr>"
proof -
  have sig: "\<exists>V. B1 = B\<lparr>br_verified := V\<rparr>" if "signature_is_valid K B t = (B1, r)" for B1 r
    using that by (cases rule: signature_cases) (auto intro: exI [of _ "br_verified B"])
  have pol: "\<exists>C. B2 = B1\<lparr>br_policy_cache := C\<rparr>" if "policy_allows B1 task f u = (B2, r)" for B1 B2 task f u r
    using that by (cases rule: policy_cases) (auto intro: exI [of _ "br_policy_cache B1"])
  have "\<exists>V C. B' = B\<lparr>br_verified := V, br_policy_cache := C\<rparr>"
    using assms
  proof (cases rule: check_cases)
    case refused
    then show ?thesis by (intro exI [of _ "br_verified B"] exI [of _ "br_policy_cache B"]) simp
  next
    case stopped
    from sig [OF stopped(1)] stopped(2) obtain V where "B' = B\<lparr>br_verified := V\<rparr>" by blast
    then show ?thesis by (intro exI [of _ V] exI [of _ "br_policy_cache B"]) simp
  next
    case policy
    from sig [OF policy(1)] pol [OF policy(5)] show ?thesis by auto
  next
    case decided
    from sig [OF decided(1)] pol [OF decided(5)] show ?thesis by auto
  qed
  with that show ?thesis by blast
qed

text \<open>The part of the invariant that is about the registry.\<close>

definition issued_inv :: "crypto \<Rightarrow> (string, token) amap \<Rightarrow> bool" where
  "issued_inv K I \<longleftrightarrow> registry_ok I
   \<and> (\<forall>h t. map_of I h = Some t \<longrightarrow> token_digest K t = Ok h \<and> token_validate t = Ok ())
   \<and> (\<forall>h t d p. map_of I h = Some t \<longrightarrow> t_parent t = Some d \<longrightarrow> map_of I d = Some p \<longrightarrow> derives p t)"

lemma broker_inv_iff: "broker_inv K B \<longleftrightarrow> issued_inv K (br_issued B) \<and> approvals_inv (br_approvals B)
    \<and> (\<forall>h \<in> br_verified B. verified_digest K h) \<and> cache_ok B"
  by (auto simp: broker_inv_def issued_inv_def)

lemma issued_inv_update:
  assumes inv: "issued_inv K I" and t: "token_digest K t = Ok h" "token_validate t = Ok ()"
    and agree: "\<And>t'. map_of I h = Some t' \<Longrightarrow> t' = t"
    and parent: "\<And>d. t_parent t = Some d \<Longrightarrow> \<exists>p. map_of I d = Some p \<and> derives p t"
  shows "issued_inv K (AList.update h t I)"
proof (cases "map_of I h")
  case (Some t')
  with agree inv show ?thesis by (simp add: AList.update_triv)
next
  case None
  have keys: "d \<in> fst ` set I" if "t_parent t = Some d" for d
    using parent [OF that] by (metis map_of_eq_None_iff not_None_eq)
  have other: "h \<noteq> d" if "map_of I k = Some u" "t_parent u = Some d" for k u d
  proof
    assume "h = d"
    from inv that(1) obtain pre post where "I = pre @ (k, u) # post"
      by (metis map_of_SomeD in_set_conv_decomp)
    with inv that(2) have "d \<in> fst ` set I"
      unfolding issued_inv_def registry_ok_def by fastforce
    with None \<open>h = d\<close> show False by (simp add: map_of_eq_None_iff)
  qed
  have "h \<noteq> d" if "t_parent t = Some d" for d
    using keys [OF that] None by (auto simp: map_of_eq_None_iff)
  with inv t parent other keys agree show ?thesis
    unfolding issued_inv_def
    by (auto intro: registry_ok_update split: if_splits)
qed

lemma check_inv:
  assumes "broker_inv K B" "check K B t q now = Some (B', res)"
  shows "broker_inv K B'"
proof -
  have sig: "broker_inv K B1" if "signature_is_valid K B t = (B1, r)" for B1 r
    using that
  proof (cases rule: signature_cases)
    case (valid h V)
    from valid(2,4) assms(1) have "\<forall>h \<in> V. verified_digest K h"
      by (auto simp: broker_inv_iff verified_digest_def)
    with valid(3) assms(1) show ?thesis by (simp add: broker_inv_iff cache_ok_def)
  qed (use assms(1) in simp_all)
  have pol: "broker_inv K B2" if "policy_allows B1 task q f = (B2, r)" "broker_inv K B1" for B1 B2 task f r
    using that by (cases rule: policy_cases) (auto simp: broker_inv_iff cache_ok_def split: if_splits)
  from assms(2) show ?thesis
    by (cases rule: check_cases) (auto intro: sig pol assms(1))
qed

lemma mint_inv:
  assumes "broker_inv K B" "mint K B m task user requested ttl now nonce = (B', res)"
    and "\<And>t. res = Ok t \<Longrightarrow> digest_agrees K B t"
  shows "broker_inv K B'"
  using assms(2)
proof (cases rule: mint_cases)
  case (minted t h ceil)
  with assms(3) have "issued_inv K (AList.update h t (br_issued B))"
    using assms(1) by (intro issued_inv_update) (auto simp: broker_inv_iff digest_agrees_def)
  with minted(4) assms(1) show ?thesis by (simp add: broker_inv_iff cache_ok_def)
qed (use assms(1) in simp)

lemma delegate_inv:
  assumes "broker_inv K B" "delegate K B parent task requested ttl now nonce = Some (B', res)"
    and "digest_agrees K B parent" "\<And>t. res = Ok t \<Longrightarrow> digest_agrees K B t"
  shows "broker_inv K B'"
  using assms(2)
proof (cases rule: delegate_cases)
  case (delegated t h d)
  from delegated(3,4) assms(3) have "map_of (br_issued B) d = Some parent"
    by (auto simp: contains_key_def digest_agrees_def)
  moreover have "derives parent t"
    using delegated by (auto simp: derives_def covers_all_def list_all_iff list_ex_iff)
  ultimately have "issued_inv K (AList.update h t (br_issued B))"
    using assms(1,4) delegated
    by (intro issued_inv_update) (auto simp: broker_inv_iff digest_agrees_def)
  with delegated(5) assms(1) show ?thesis by (simp add: broker_inv_iff cache_ok_def)
qed (use assms(1) in simp)

definition broker_le :: "broker \<Rightarrow> broker \<Rightarrow> bool" where
  "broker_le B B' \<longleftrightarrow> br_revoked B \<subseteq> br_revoked B' \<and> br_home B' = br_home B \<and> br_policy B' = br_policy B
     \<and> (\<forall>h t. map_of (br_issued B) h = Some t \<longrightarrow> map_of (br_issued B') h = Some t)"

lemma broker_step_le:
  assumes "broker_step K B B'"
  shows "broker_le B B'"
  using assms
proof cases
  case (step_mint m task user requested ttl now nonce res)
  from step_mint(1) show ?thesis
    by (cases rule: mint_cases) (use step_mint(2) in \<open>auto simp: broker_le_def digest_agrees_def\<close>)
next
  case (step_delegate parent task requested ttl now nonce res)
  from step_delegate(1) show ?thesis
    by (cases rule: delegate_cases) (use step_delegate(3) in \<open>auto simp: broker_le_def digest_agrees_def\<close>)
next
  case (step_check t q now res)
  then show ?thesis by (auto simp: broker_le_def elim!: check_state)
qed (auto simp: broker_le_def revoke_def)

interpretation broker: growing_transition "broker_step K" "broker_inv K" broker_le for K
proof unfold_locales
  fix B B' :: broker
  assume *: "broker_step K B B'" "broker_inv K B"
  from *(1) show "broker_inv K B'"
  proof cases
    case (step_revoke subject)
    with *(2) show ?thesis by (simp add: broker_inv_iff revoke_def cache_ok_def rules_inv)
  next
    case (step_queue e A out)
    with *(2) ap_step_inv show ?thesis by (auto simp: broker_inv_iff cache_ok_def)
  next
    case step_mint
    with *(2) mint_inv show ?thesis by blast
  next
    case step_delegate
    with *(2) delegate_inv show ?thesis by blast
  next
    case step_check
    with *(2) check_inv show ?thesis by blast
  qed
next
  fix B B' :: broker
  assume "broker_step K B B'"
  then show "broker_le B B'" by (rule broker_step_le)
qed (auto simp: broker_le_def)

lemma broker_inv_new: "broker_inv K (broker_new issuer home)"
  by (simp add: broker_inv_iff issued_inv_def broker_new_def cache_ok_def approvals_inv_new)

section \<open>What the caches keep\<close>

lemma has_revoked_ancestor_caches [simp]:
  "has_revoked_ancestor (B\<lparr>br_verified := V\<rparr>) t = has_revoked_ancestor B t"
  "has_revoked_ancestor (B\<lparr>br_policy_cache := C\<rparr>) t = has_revoked_ancestor B t"
  by (simp_all add: has_revoked_ancestor_def)

lemma facts_for_caches [simp]:
  "facts_for (B\<lparr>br_verified := V\<rparr>) q = facts_for B q"
  "facts_for (B\<lparr>br_policy_cache := C\<rparr>) q = facts_for B q"
  by (simp_all add: facts_for_def)

lemma context_for_caches [simp]:
  "context_for (B\<lparr>br_verified := V\<rparr>) q = context_for B q"
  "context_for (B\<lparr>br_policy_cache := C\<rparr>) q = context_for B q"
  by (simp_all add: context_for_def)

lemma decide_caches [simp]:
  "decide (B\<lparr>br_verified := V\<rparr>) t q = decide B t q"
  "decide (B\<lparr>br_policy_cache := C\<rparr>) t q = decide B t q"
  by (simp_all add: decide_def Let_def)

text \<open>Under the shipped policies, away from execution, the key of the cache holds all that matters.\<close>

lemma default_allows_key:
  assumes "policy_key_of q f = policy_key_of q' f'" "\<not> (cr_res q = ResProc \<and> cr_act q = ActExec)"
    and "allows default_engine task (cr_res q) (cr_act q) f (cr_sandbox_level q) = Ok d"
  shows "allows default_engine task' (cr_res q') (cr_act q') f' (cr_sandbox_level q') = Ok d"
proof -
  have n: "action_name (cr_res q) (cr_act q) \<noteq> ''proc.exec''"
    using assms(2) by (cases "cr_res q"; cases "cr_act q") (simp_all add: action_name_def)
  with assms(1) have "action_name (cr_res q') (cr_act q') \<noteq> ''proc.exec''"
    by (simp add: policy_key_of_def)
  with n assms(1,3) show ?thesis
    by (simp add: allows_def policy_request_of_def default_engine_iff policy_key_of_def)
qed

lemma default_allows_total: "\<exists>d. allows default_engine task r a f level = Ok d"
  by (simp add: allows_def default_engine_def cedar_def)

lemma policy_allows_default:
  assumes "cache_ok B" "br_policy B = default_engine"
    and "\<not> (cr_res q = ResProc \<and> cr_act q = ActExec)"
  obtains C d where "policy_allows B task q f = (B\<lparr>br_policy_cache := C\<rparr>, Ok d)"
    "allows default_engine task (cr_res q) (cr_act q) f (cr_sandbox_level q) = Ok d"
proof -
  obtain d where d: "allows default_engine task (cr_res q) (cr_act q) f (cr_sandbox_level q) = Ok d"
    using default_allows_total by blast
  show ?thesis
  proof (cases "map_of (br_policy_cache B) (policy_key_of q f)")
    case None
    with d assms(2) that show ?thesis by (simp add: policy_allows_def)
  next
    case (Some c)
    with assms(1,2) obtain task' q' f' where q': "policy_key_of q' f' = policy_key_of q f"
      "allows default_engine task' (cr_res q') (cr_act q') f' (cr_sandbox_level q') = Ok c"
      unfolding cache_ok_def by metis
    from default_allows_key [OF q'(1) [symmetric] assms(3) d] q'(2) have "c = d" by simp
    with Some d that [of "br_policy_cache B" d] show ?thesis by (simp add: policy_allows_def)
  qed
qed

text \<open>A cached answer for a sensitive target was a refusal.\<close>

lemma policy_allows_not_sensitive:
  assumes "policy_allows B task q f = (B', Ok True)" "cache_ok B" "br_policy B = default_engine"
  shows "\<not> f_sensitive f"
  using assms(1)
proof (cases rule: policy_cases)
  case (cached d)
  with assms(2,3) obtain task' q' f' where q': "policy_key_of q' f' = policy_key_of q f"
      "allows default_engine task' (cr_res q') (cr_act q') f' (cr_sandbox_level q') = Ok True"
    unfolding cache_ok_def by (metis Inr_inject)
  from defaults.allowed_not_sensitive [OF q'(2)] q'(1) show ?thesis by (simp add: policy_key_of_def)
next
  case (fresh d)
  with assms(3) defaults.allowed_not_sensitive show ?thesis by auto
qed simp

section \<open>Properties\<close>

text \<open>What the broker has found of the token and the request once it hears it.\<close>

lemma heard_facts:
  assumes "broker_inv K B" "br_policy B = default_engine"
    and "check K B t q now = Some (B', Ok d)" "heard d"
  shows "token_validate t = Ok () \<and> (\<exists>h. token_digest K t = Ok h \<and> verified_digest K h)
    \<and> t_sub t \<notin> br_revoked B
    \<and> (\<exists>ts. lineage (br_issued B) (t_parent t) ts \<and> (\<forall>u \<in> set ts. t_sub u \<notin> br_revoked B))
    \<and> now < t_exp t
    \<and> (cr_res q \<in> {ResFs, ResProc} \<longrightarrow> \<not> is_sensitive_path (cr_target q) (br_home B))
    \<and> decide B t q = d"
  using assms(3)
proof (cases rule: check_cases)
  case (decided B1)
  from decided(1) obtain h V where sig: "token_digest K t = Ok h" "B1 = B\<lparr>br_verified := V\<rparr>"
    "h \<in> br_verified B \<and> V = br_verified B \<or> token_verify K t = Ok () \<and> V = insert h (br_verified B)"
    by (cases rule: signature_cases) auto
  have vd: "verified_digest K h"
    using sig(1,3) assms(1) by (auto simp: broker_inv_iff verified_digest_def)
  from decided(5) obtain C where C: "B' = B1\<lparr>br_policy_cache := C\<rparr>"
    by (cases rule: policy_cases) (auto intro: that [of "br_policy_cache B1"])
  have cache: "cache_ok B1" using assms(1) sig(2) by (simp add: broker_inv_iff cache_ok_def)
  from policy_allows_not_sensitive [OF decided(5) cache] assms(2) sig(2)
  have sens: "\<not> f_sensitive (facts_for B q)" by simp
  from decided(6) have d: "decide B t q = d" using sig(2) C by simp
  from assms(1) have reg: "registry_ok (br_issued B)" by (simp add: broker_inv_def)
  have "has_revoked_ancestor B t = Some False" using decided(3) sig(2) by simp
  with reg have anc: "t_sub t \<notin> br_revoked B"
    "\<exists>ts. lineage (br_issued B) (t_parent t) ts \<and> (\<forall>u \<in> set ts. t_sub u \<notin> br_revoked B)"
    by (auto elim!: ancestor_walk_ends [of B t])
  show ?thesis
    using vd sig(1) anc decided(2,4) sens d by (auto simp: is_expired_def facts_for_def)
qed (use assms(4) in auto)

text \<open>What an allowed check says of the token, the broker and the request.\<close>

lemma allowed_facts:
  assumes "broker_inv K B" "br_policy B = default_engine"
    and "check K B t q now = Some (B', Ok (Allow i))"
  shows "token_validate t = Ok () \<and> (\<exists>h. token_digest K t = Ok h \<and> verified_digest K h)
    \<and> t_sub t \<notin> br_revoked B
    \<and> (\<exists>ts. lineage (br_issued B) (t_parent t) ts \<and> (\<forall>u \<in> set ts. t_sub u \<notin> br_revoked B))
    \<and> now < t_exp t
    \<and> i < length (t_grants t) \<and> grant_accepts (t_grants t ! i) (cr_res q, cr_act q, context_for B q)
    \<and> (cr_res q \<in> {ResFs, ResProc} \<longrightarrow> \<not> is_sensitive_path (cr_target q) (br_home B))
    \<and> (cr_irreversible q \<or> cr_external q \<or> (cr_res q, cr_act q) = (ResCap, ActDelegate) \<longrightarrow>
         (cr_res q, cr_act q) = (ResProc, ActExec))"
proof -
  note facts = heard_facts [OF assms heard_simps(1)]
  then have d: "find_grant t (cr_res q) (cr_act q) (context_for B q) = Allow i"
    "\<not> requires_approval (classify (cr_res q) (cr_act q) (facts_for B q))"
    by (auto simp: decide_def Let_def split: if_splits)
  have "cr_irreversible q \<or> cr_external q \<or> (cr_res q, cr_act q) = (ResCap, ActDelegate) \<longrightarrow>
      (cr_res q, cr_act q) = (ResProc, ActExec)"
    using d(2) by (auto simp: classify_def facts_for_def split: if_splits)
  with facts find_grant_Allow_accepts [OF d(1)] show ?thesis by blast
qed

text \<open>
  C3. What a granted access proves. If the broker allows a request, then the presented token is
  well formed, its digest is that of a token the broker's key signed, neither it nor any of its
  registered ancestors up to a root is revoked, it has not expired, the grant named in the answer
  accepts the very request, the target is not a sensitive path, and the action is neither declared
  irreversible or external nor an elevation, except the execution of a program.
\<close>

theorem check_allow_sound:
  assumes "broker_inv K B" "br_policy B = default_engine"
    and "check K B t q now = Some (B', Ok (Allow i))"
  shows "token_validate t = Ok () \<and> (\<exists>h. token_digest K t = Ok h \<and> verified_digest K h)
    \<and> t_sub t \<notin> br_revoked B
    \<and> (\<exists>ts. lineage (br_issued B) (t_parent t) ts \<and> (\<forall>u \<in> set ts. t_sub u \<notin> br_revoked B))
    \<and> now < t_exp t
    \<and> i < length (t_grants t) \<and> grant_accepts (t_grants t ! i) (cr_res q, cr_act q, context_for B q)
    \<and> (cr_res q \<in> {ResFs, ResProc} \<longrightarrow> \<not> is_sensitive_path (cr_target q) (br_home B))
    \<and> (cr_irreversible q \<or> cr_external q \<or> (cr_res q, cr_act q) = (ResCap, ActDelegate) \<longrightarrow>
         (cr_res q, cr_act q) = (ResProc, ActExec))"
  by (rule allowed_facts [OF assms])


text \<open>A token, a broker and a request on which the properties can be computed.\<close>

definition demo_broker :: broker where
  "demo_broker = broker_new ''capd@test'' ''/home/u''"

definition demo_minted :: "broker \<times> (broker_error + token)" where
  "demo_minted = mint demo_crypto demo_broker sales_manifest ''task:01'' ''u''
     [sales_grant, grant_new ResFs ActRead ''~/**''] 1800 0 ''n''"

definition read_sales :: check_request where
  "read_sales = check_request_new ResFs ActRead ''/home/u/ventes/q3.csv''"

lemma demo_minted:
  obtains B t where "demo_minted = (B, Ok t)" "broker_inv demo_crypto B" "br_policy B = default_engine"
    "token_canon t" "t_grants t = [sales_grant]"
proof -
  obtain B r where m: "demo_minted = (B, r)" by fastforce
  have "case snd demo_minted of Inl e \<Rightarrow> False | Inr t \<Rightarrow> token_canon t \<and> t_grants t = [sales_grant]"
    by code_simp
  from this [unfolded m] obtain t where t: "r = Ok t" "token_canon t" "t_grants t = [sales_grant]"
    by (cases r) auto
  have inv: "broker_inv demo_crypto B"
    by (rule mint_inv [OF broker_inv_new m [unfolded demo_minted_def demo_broker_def]])
      (simp add: digest_agrees_def broker_new_def)
  have pol: "br_policy B = default_engine"
    using m unfolding demo_minted_def demo_broker_def
    by (auto elim!: mint_cases simp: broker_new_def)
  show ?thesis by (rule that [OF m [unfolded t(1)] inv pol t(2,3)])
qed

lemma demo_allowed:
  assumes "demo_minted = (B, Ok t)"
  obtains B' where "check demo_crypto B t read_sales 10 = Some (B', Ok (Allow 0))"
proof -
  have "case snd demo_minted of Inl e \<Rightarrow> False | Inr t \<Rightarrow>
      map_option snd (check demo_crypto (fst demo_minted) t read_sales 10) = Some (Ok (Allow 0))"
    by code_simp
  from this [unfolded assms] that show ?thesis by auto
qed

theorem check_allow_sound_witness:
  "\<exists>B t. demo_minted = (B, Ok t) \<and> (10 :: int) < t_exp t \<and> t_sub t \<notin> br_revoked B"
proof -
  obtain B t where m: "demo_minted = (B, Ok t)" "broker_inv demo_crypto B" "br_policy B = default_engine"
    by (rule demo_minted)
  from m(1) obtain B' where "check demo_crypto B t read_sales 10 = Some (B', Ok (Allow 0))"
    by (rule demo_allowed)
  from check_allow_sound [OF m(2,3) this] m(1) show ?thesis by blast
qed

definition check_reference :: "crypto \<Rightarrow> broker \<Rightarrow> token \<Rightarrow> check_request \<Rightarrow> instant
    \<Rightarrow> broker_error + decision" where
  "check_reference K B t q now =
     (if token_validate t \<noteq> Ok () then Ok (deny UnknownVersion)
      else case token_digest K t of
        Inl e \<Rightarrow> Err (BrokerCap e)
      | Inr _ \<Rightarrow>
          if token_verify K t \<noteq> Ok () then Ok (deny BadSignature)
          else if has_revoked_ancestor B t \<noteq> Some False then Ok (deny RevokedParent)
          else if t_exp t \<le> now then Ok (deny Expired)
          else if allows (br_policy B) (t_sub t) (cr_res q) (cr_act q) (facts_for B q)
                 (cr_sandbox_level q) \<noteq> Ok True
            then Ok (Deny PolicyDenied (Some (ActionRule (action_name (cr_res q) (cr_act q)))))
          else Ok (decide B t q))"

text \<open>
  C19. The caches change nothing, and the check always answers. Away from program execution, under
  the shipped policies and as long as no other token of the same digest verifies, the answer of
  the check is that of the plain order of the specification: structure, signature, parents,
  expiration, policy, grant, class of the action.
\<close>

theorem check_is_reference:
  assumes inv: "broker_inv K B" and policy: "br_policy B = default_engine"
    and exec: "\<not> (cr_res q = ResProc \<and> cr_act q = ActExec)"
    and digest: "\<And>t'. token_digest K t' = token_digest K t \<Longrightarrow> token_verify K t' = Ok () \<Longrightarrow>
       token_verify K t = Ok ()"
  shows "\<exists>B'. check K B t q now = Some (B', check_reference K B t q now)"
proof (cases "token_validate t")
  case (Inl e)
  then show ?thesis by (simp add: check_def check_reference_def)
next
  case valid: (Inr u)
  show ?thesis
  proof (cases "token_digest K t")
    case (Inl e)
    with valid show ?thesis by (simp add: check_def check_reference_def signature_is_valid_def)
  next
    case (Inr h)
    have verified: "token_verify K t = Ok ()" if "h \<in> br_verified B"
      using that inv digest Inr by (auto simp: broker_inv_iff verified_digest_def)
    show ?thesis
    proof (cases "token_verify K t")
      case (Inl e)
      with verified have "h \<notin> br_verified B" by auto
      with valid Inr Inl show ?thesis by (simp add: check_def check_reference_def signature_is_valid_def)
    next
      case sig: (Inr v)
      with Inr obtain V where V: "signature_is_valid K B t = (B\<lparr>br_verified := V\<rparr>, Ok True)"
        by (cases "h \<in> br_verified B")
          (auto simp: signature_is_valid_def intro: that [of "br_verified B"])
      have "registry_ok (br_issued B)" using inv by (simp add: broker_inv_def)
      then obtain b where b: "has_revoked_ancestor B t = Some b"
        by (rule ancestor_walk_ends [of B t])
      let ?B = "B\<lparr>br_verified := V\<rparr>"
      have "cache_ok ?B" "br_policy ?B = default_engine"
        using inv policy by (simp_all add: broker_inv_iff cache_ok_def)
      then obtain C d where C: "policy_allows ?B (t_sub t) q (facts_for B q) = (?B\<lparr>br_policy_cache := C\<rparr>, Ok d)"
        "allows default_engine (t_sub t) (cr_res q) (cr_act q) (facts_for B q) (cr_sandbox_level q) = Ok d"
        by (rule policy_allows_default [OF _ _ exec])
      show ?thesis
        using valid Inr sig V b C policy
        by (cases b; cases d)
          (simp_all add: check_def check_reference_def is_expired_def)
    qed
  qed
qed

theorem check_is_reference_witness:
  "\<exists>B t B'. demo_minted = (B, Ok t)
     \<and> check demo_crypto B t read_sales 10 = Some (B', check_reference demo_crypto B t read_sales 10)"
proof -
  obtain B t where m: "demo_minted = (B, Ok t)" "broker_inv demo_crypto B" "br_policy B = default_engine"
    by (rule demo_minted)
  have "case snd demo_minted of Inl e \<Rightarrow> False | Inr t \<Rightarrow> token_verify demo_crypto t = Ok ()"
    by code_simp
  then have "token_verify demo_crypto t = Ok ()" unfolding m(1) by simp
  with check_is_reference [OF m(2,3), of read_sales t 10] m(1) show ?thesis
    by (auto simp: read_sales_def check_request_new_def)
qed

lemma check_allow_ancestors:
  assumes "check K B t q now = Some (B', Ok (Allow i))"
  shows "has_revoked_ancestor B t = Some False"
  using assms
proof (cases rule: check_cases)
  case (decided B1)
  from decided(1) obtain V where "B1 = B\<lparr>br_verified := V\<rparr>" by (cases rule: signature_cases) auto
  with decided(3) show ?thesis by simp
qed auto

text \<open>
  C20. Revocation is final and reaches every descendant. Once a subject is revoked, no later state
  of the broker allows any request to a token of that subject, nor to a token that descends from
  one of its registered tokens.
\<close>

theorem revocation_is_final:
  assumes "broker_inv K B" "(broker_step K)\<^sup>*\<^sup>* B B'" "s \<in> br_revoked B"
    and "t_sub t = s \<or> (\<exists>ts u. lineage (br_issued B) (t_parent t) ts \<and> u \<in> set ts \<and> t_sub u = s)"
  shows "check K B' t q now \<noteq> Some (B'', Ok (Allow i))"
proof
  assume "check K B' t q now = Some (B'', Ok (Allow i))"
  then have no: "has_revoked_ancestor B' t = Some False" by (rule check_allow_ancestors)
  have le: "broker_le B B'" using broker.reach_le [OF assms(2,1)] .
  with assms(3) have s: "s \<in> br_revoked B'" by (auto simp: broker_le_def)
  from no have "t_sub t \<notin> br_revoked B'" by (auto simp: has_revoked_ancestor_def split: if_splits)
  with s assms(4) obtain ts u where ts: "lineage (br_issued B) (t_parent t) ts" "u \<in> set ts" "t_sub u = s"
    by auto
  from lineage_grow [OF ts(1)] le have "lineage (br_issued B') (t_parent t) ts"
    by (auto simp: broker_le_def)
  from revoked_from_lineage [OF this, of "br_revoked B'"] no ts(2,3) s show False
    by (auto simp: has_revoked_ancestor_def split: if_splits)
qed

theorem revocation_is_final_witness:
  "\<exists>B t. demo_minted = (B, Ok t)
     \<and> check demo_crypto (revoke B ''task:01'') t read_sales 10 \<noteq> Some (B, Ok (Allow 0))"
proof -
  obtain B t where m: "demo_minted = (B, Ok t)" "broker_inv demo_crypto B" by (rule demo_minted)
  have "t_sub t = ''task:01''"
    using m(1) unfolding demo_minted_def by (auto elim: mint_cases)
  moreover have "broker_inv demo_crypto (revoke B ''task:01'')"
    using broker.inv_preserved [OF step_revoke m(2)] .
  moreover have "''task:01'' \<in> br_revoked (revoke B ''task:01'')" by (simp add: revoke_def)
  ultimately show ?thesis
    using revocation_is_final [OF _ rtranclp.rtrancl_refl, of demo_crypto "revoke B ''task:01''" "''task:01''" t]
      m(1) by blast
qed

lemma lineage_derives:
  assumes inv: "broker_inv K B" and wf: "\<forall>h u. map_of (br_issued B) h = Some u \<longrightarrow> token_wf u"
    and "lineage (br_issued B) cur ts" "ts \<noteq> []"
  shows "t_user (hd ts) = t_user (last ts) \<and> t_agent (hd ts) = t_agent (last ts)
    \<and> token_wf (hd ts) \<and> token_wf (last ts)
    \<and> covers_all (\<lambda>p c. grant_is_subset_of c p) (t_grants (last ts)) (t_grants (hd ts))"
  using assms(3,4)
proof (induction rule: lineage.induct)
  case (link d t ts)
  then have wft: "token_wf t" using wf by blast
  show ?case
  proof (cases ts)
    case Nil
    with wft show ?thesis using authority.covers_all_refl [OF token_wfD] by simp
  next
    case (Cons u us)
    with link.hyps(2) obtain p where p: "t_parent t = Some p" "map_of (br_issued B) p = Some u"
      by (cases "t_parent t") (auto elim: lineage_NoneE lineage_SomeE)
    with inv link.hyps(1) have "derives u t" by (auto simp: broker_inv_def)
    with link.IH Cons wft show ?thesis
      using authority.covers_all_trans [of "t_grants (last ts)" "t_grants u" "t_grants t"]
        token_wfD [of u] token_wfD [of "last ts"]
      by (auto simp: derives_def)
  qed
qed simp

text \<open>
  C21. Authority does not grow along registered delegations, when the patterns of every registered
  token are well scoped (valid, and for a path not ending in \<open>/*/**\<close>). Then whatever a registered
  token allows is accepted by a grant of the root token at the end of its chain of parents, and
  belongs to the same user and agent. A chain through \<open>/d/*/**\<close> is the exception: that pattern
  covers \<open>/d/*\<close>, which matches more.
\<close>

theorem registered_authority_bounded:
  assumes "broker_inv K B" "\<forall>h u. map_of (br_issued B) h = Some u \<longrightarrow> token_wf u"
    and "lineage (br_issued B) (Some d) ts" "find_grant (hd ts) r a ctx = Allow i"
  shows "t_user (hd ts) = t_user (last ts) \<and> t_agent (hd ts) = t_agent (last ts)
    \<and> (\<exists>g \<in> set (t_grants (last ts)). grant_accepts g (r, a, ctx))"
proof -
  from assms(3) have "ts \<noteq> []" by (auto elim: lineage_SomeE)
  note L = lineage_derives [OF assms(1-3) this]
  from find_grant_Allow_accepts [OF assms(4)]
  have "t_grants (hd ts) ! i \<in> set (t_grants (hd ts))" "grant_accepts (t_grants (hd ts) ! i) (r, a, ctx)"
    by auto
  with L authority.covers_all_sound [of "t_grants (last ts)" "t_grants (hd ts)"] token_wfD
  show ?thesis by blast
qed

theorem registered_authority_bounded_witness:
  "\<exists>B t. demo_minted = (B, Ok t)
     \<and> (\<exists>g \<in> set (t_grants t). grant_accepts g (ResFs, ActRead, sales_context))"
proof -
  obtain B t where m: "demo_minted = (B, Ok t)" "broker_inv demo_crypto B" "t_grants t = [sales_grant]"
    by (rule demo_minted)
  have g: "grant_wf sales_grant" by code_simp
  from m(1) obtain h where B: "br_issued B = [(h, t)]" "t_parent t = None"
    unfolding demo_minted_def demo_broker_def by (auto elim!: mint_cases simp: broker_new_def)
  have wf: "\<forall>h u. map_of (br_issued B) h = Some u \<longrightarrow> token_wf u"
    using g m(3) B(1) by (auto simp: token_wf_def split: if_splits)
  have line: "lineage (br_issued B) (Some h) [t]"
    using B lineage.root [of "br_issued B"] by (auto intro!: lineage.link)
  have "find_grant t ResFs ActRead sales_context = find_grant sales_token ResFs ActRead sales_context"
    using m(3) by (simp add: find_grant_def sales_token_def)
  moreover have "find_grant sales_token ResFs ActRead sales_context = Allow 0" by code_simp
  ultimately have "find_grant (hd [t]) ResFs ActRead sales_context = Allow 0" by simp
  from registered_authority_bounded [OF m(2) wf line this] m(1) show ?thesis by auto
qed

text \<open>
  What minting gives. A minted token is a registered root for the task, user and agent asked
  for, carries exactly the requested grants that the manifest's ceiling covers, in their order,
  and expires after the requested time; a refusal leaves the broker as it was, and says so when
  nothing requested is covered.
\<close>

theorem mint_spec:
  assumes "mint K B m task user requested ttl now nonce = (B', res)"
  shows "(\<forall>t. res = Ok t \<longrightarrow> (\<exists>ceil h. ceiling m = Ok ceil \<and> token_digest K t = Ok h
        \<and> t_grants t = filter (\<lambda>g. \<exists>c \<in> set ceil. grant_is_subset_of g c) requested \<and> t_grants t \<noteq> []
        \<and> t_parent t = None \<and> t_sub t = task \<and> t_user t = user \<and> t_agent t = ag_id (m_agent m)
        \<and> t_exp t = now + seconds ttl \<and> 0 < ttl \<and> map_of (br_issued B') h = Some t))
    \<and> (\<forall>e. res = Err e \<longrightarrow> B' = B)
    \<and> (res = Err EmptyIntersection \<longleftrightarrow>
        (\<exists>ceil. ceiling m = Ok ceil \<and> (\<forall>g \<in> set requested. \<forall>c \<in> set ceil. \<not> grant_is_subset_of g c)))"
proof -
  have empty: "res = Err EmptyIntersection \<longleftrightarrow>
      (\<exists>ceil. ceiling m = Ok ceil \<and> (\<forall>g \<in> set requested. \<forall>c \<in> set ceil. \<not> grant_is_subset_of g c))"
  proof (cases "ceiling m")
    case (Inl e)
    with assms show ?thesis by (auto simp: mint_def)
  next
    case (Inr ceil)
    have "filter (\<lambda>g. list_ex (\<lambda>c. grant_is_subset_of g c) ceil) requested = [] \<longleftrightarrow>
        (\<forall>g \<in> set requested. \<forall>c \<in> set ceil. \<not> grant_is_subset_of g c)"
      by (auto simp: filter_empty_conv list_ex_iff)
    with assms Inr show ?thesis
      by (auto simp: mint_def Let_def split: if_splits elim!: register_cases)
  qed
  from assms show ?thesis
  proof (cases rule: mint_cases)
    case (refused e)
    with empty show ?thesis by simp
  next
    case (minted t h ceil)
    from minted(5) have "t_grants t \<noteq> []" "t_iat t < t_exp t"
      by (auto simp: token_validate_def split: if_splits)
    moreover have "t_iat t = now"
    proof -
      from assms minted(1) obtain b where "token_build K b now nonce = Ok t"
        by (auto simp: mint_def Let_def split: sum.splits if_splits elim!: register_cases)
      then show ?thesis by (rule token_build_Ok)
    qed
    ultimately have "t_grants t \<noteq> []" "0 < ttl"
      using minted(10) by (auto simp: seconds_def zero_less_mult_iff)
    with minted empty show ?thesis by (simp add: list_ex_iff)
  qed
qed

theorem mint_spec_witness:
  "mint demo_crypto demo_broker sales_manifest ''task:01'' ''u'' [grant_new ResFs ActRead ''~/**''] 1800 0 ''n''
     = (demo_broker, Err EmptyIntersection)"
proof -
  define res where "res = mint demo_crypto demo_broker sales_manifest ''task:01'' ''u''
    [grant_new ResFs ActRead ''~/**''] 1800 0 ''n''"
  obtain B r where r: "res = (B, r)" by (cases res)
  have "ceiling sales_manifest = Ok [grant_new ResFs ActRead ''~/ventes/**'', grant_new ResProc ActExec ''wc'']"
    by code_simp
  moreover have "\<not> grant_is_subset_of (grant_new ResFs ActRead ''~/**'') (grant_new ResFs ActRead ''~/ventes/**'')"
    "\<not> grant_is_subset_of (grant_new ResFs ActRead ''~/**'') (grant_new ResProc ActExec ''wc'')"
    by code_simp+
  ultimately have "r = Err EmptyIntersection" "B = demo_broker"
    using mint_spec [OF r [unfolded res_def]] by auto
  with r show ?thesis by (simp add: res_def)
qed

text \<open>
  How long a delegated token lives: never past the requested time, and past its parent by at
  most one second. Delegation does not look at the parent's expiration or revocation: a registered
  parent that has expired still gives a subtask a token valid for one more second, again and again.
\<close>

theorem delegated_lifetime:
  assumes "delegate K B parent task requested ttl now nonce = Some (B', Ok t)"
  shows "t_exp t \<le> now + seconds ttl \<and> t_exp t \<le> max (t_exp parent) (now + seconds 1) \<and> now < t_exp t
    \<and> (t_exp parent \<le> now \<longrightarrow> t_exp parent < t_exp t \<and> t_exp t = now + seconds 1)"
  using assms
proof (cases rule: delegate_cases)
  case (delegated u h d)
  let ?left = "whole_seconds (t_exp parent - now)"
  from delegated(1,6,11) have t: "t_exp t = now + seconds (min ttl (max ?left 1))" "t_iat t < t_exp t"
    by (auto simp: token_validate_def split: if_splits)
  have "t_iat t = now"
  proof -
    from assms obtain b where "token_build K b now nonce = Ok t"
      by (auto simp: delegate_def Let_def split: sum.splits if_splits option.splits elim!: register_cases)
    then show ?thesis by (rule token_build_Ok)
  qed
  with t have ttl: "1 \<le> ttl" by (auto simp: seconds_def)
  have left: "now + seconds ?left \<le> t_exp parent" if "1 \<le> ?left"
  proof (cases "0 \<le> t_exp parent - now")
    case True
    from seconds_whole_le [OF True] show ?thesis by simp
  next
    case False
    with that show ?thesis by (simp add: whole_seconds_def pos_imp_zdiv_nonneg_iff)
  qed
  have "?left \<le> 0" if "t_exp parent \<le> now"
    using that by (auto simp: whole_seconds_def pos_imp_zdiv_nonneg_iff)
  with t left ttl show ?thesis
    by (cases "1 \<le> ?left") (auto simp: max_def min_def seconds_def split: if_splits)
qed simp

definition demo_delegated :: "(broker \<times> (broker_error + token)) option" where
  "demo_delegated = (case demo_minted of
     (B, Inl e) \<Rightarrow> None
   | (B, Inr t) \<Rightarrow> delegate demo_crypto B t ''task:02'' [sales_grant] 60 (seconds 5000) ''m'')"

theorem delegated_lifetime_witness:
  "\<exists>B B' p t. demo_minted = (B, Ok p) \<and> demo_delegated = Some (B', Ok t)
     \<and> t_exp p \<le> seconds 5000 \<and> seconds 5000 < t_exp t"
proof -
  obtain B p where m: "demo_minted = (B, Ok p)" by (rule demo_minted)
  have "case demo_delegated of Some (B', Inr t) \<Rightarrow> True | _ \<Rightarrow> False"
    by code_simp
  then obtain B' t where d: "demo_delegated = Some (B', Ok t)"
    by (auto split: option.splits prod.splits sum.splits)
  have "case snd demo_minted of Inl e \<Rightarrow> False | Inr p \<Rightarrow> t_exp p \<le> seconds 5000" by code_simp
  then have p: "t_exp p \<le> seconds 5000" unfolding m by simp
  have "delegate demo_crypto B p ''task:02'' [sales_grant] 60 (seconds 5000) ''m'' = Some (B', Ok t)"
    using d unfolding demo_delegated_def m by simp
  from delegated_lifetime [OF this] m d p show ?thesis by blast
qed

text \<open>
  The cache of policy decisions leaves out one fact the decision depends on. Once a confined
  utility has run outside a microVM, the same token may run any other program it names there too:
  the cached answer is reused, although the policy engine itself refuses.
\<close>

theorem policy_cache_forgets_confinement:
  assumes "check K B t (check_request_new ResProc ActExec u) now = Some (B1, Ok (Allow i))"
    and "br_policy B = default_engine" "is_safe_utility u"
    and "\<not> is_safe_utility p" "\<not> is_sensitive_path u (br_home B)" "\<not> is_sensitive_path p (br_home B)"
    and "find_grant t ResProc ActExec (context_for B (check_request_new ResProc ActExec p)) = Allow j"
  shows "\<exists>B2. check K B1 t (check_request_new ResProc ActExec p) now = Some (B2, Ok (Allow j))
    \<and> allows default_engine (t_sub t) ResProc ActExec
        (facts_for B (check_request_new ResProc ActExec p)) 0 = Ok False"
  using assms(1)
proof (cases rule: check_cases)
  case (decided B0)
  let ?q = "check_request_new ResProc ActExec u" and ?r = "check_request_new ResProc ActExec p"
  from decided(1) obtain h V where sig: "token_digest K t = Ok h" "B0 = B\<lparr>br_verified := V\<rparr>" "h \<in> V"
    by (cases rule: signature_cases) auto
  have key: "policy_key_of ?q (facts_for B ?q) = policy_key_of ?r (facts_for B ?r)"
    using assms(5,6) by (simp add: policy_key_of_def facts_for_def check_request_new_def)
  from decided(5) obtain C where C: "B1 = B0\<lparr>br_policy_cache := C\<rparr>"
    "map_of C (policy_key_of ?r (facts_for B ?r)) = Some True"
    using sig(2) key
    by (cases rule: policy_cases) (auto intro: that [of "br_policy_cache B0"])
  have B1: "B1 = B\<lparr>br_verified := V, br_policy_cache := C\<rparr>" using C(1) sig(2) by simp
  have facts: "facts_for B1 ?r = facts_for B ?r" "context_for B1 ?r = context_for B ?r"
    by (simp_all add: B1 facts_for_def context_for_def)
  have "signature_is_valid K B1 t = (B1, Ok True)"
    using sig(1,3) by (simp add: signature_is_valid_def B1)
  moreover have "has_revoked_ancestor B1 t = Some False"
    using decided(3) sig(2) C(1) by simp
  moreover have "policy_allows B1 (t_sub t) ?r (facts_for B1 ?r) = (B1, Ok True)"
    using C(2) unfolding facts by (simp add: policy_allows_def B1)
  moreover have "decide B1 t ?r = Allow j"
    using assms(7) unfolding facts decide_def
    by (simp add: check_request_new_def classify_def facts_for_def)
  ultimately have "check K B1 t ?r now = Some (B1, Ok (Allow j))"
    using decided(2,4) by (simp add: check_def)
  moreover have "allows default_engine (t_sub t) ResProc ActExec (facts_for B ?r) 0 = Ok False"
    using assms(4) by (simp add: default_policies_spec facts_for_def check_request_new_def)
  ultimately show ?thesis by blast
qed auto

definition shell_minted :: "broker \<times> (broker_error + token)" where
  "shell_minted = mint demo_crypto demo_broker
     (sales_manifest\<lparr>m_capabilities := [(''proc.exec'', [''wc'', ''sh''])]\<rparr>) ''task:01'' ''u''
     [grant_new ResProc ActExec ''wc'', grant_new ResProc ActExec ''sh''] 1800 0 ''n''"

theorem policy_cache_forgets_confinement_witness:
  "\<exists>B t B1 B2. shell_minted = (B, Ok t)
     \<and> check demo_crypto B t (check_request_new ResProc ActExec ''wc'') 10 = Some (B1, Ok (Allow 0))
     \<and> check demo_crypto B1 t (check_request_new ResProc ActExec ''sh'') 10 = Some (B2, Ok (Allow 1))"
proof -
  obtain B r where m: "shell_minted = (B, r)" by fastforce
  have ev: "case snd shell_minted of Inl e \<Rightarrow> False | Inr t \<Rightarrow>
      map_option snd (check demo_crypto (fst shell_minted) t (check_request_new ResProc ActExec ''wc'') 10)
        = Some (Ok (Allow 0))
      \<and> find_grant t ResProc ActExec
          (context_for (fst shell_minted) (check_request_new ResProc ActExec ''sh'')) = Allow 1"
    by code_simp
  from this [unfolded m] obtain t B1 where t: "r = Ok t"
    "check demo_crypto B t (check_request_new ResProc ActExec ''wc'') 10 = Some (B1, Ok (Allow 0))"
    "find_grant t ResProc ActExec (context_for B (check_request_new ResProc ActExec ''sh'')) = Allow 1"
    by (cases r) auto
  have B: "br_policy B = default_engine" "br_home B = ''/home/u''"
    using m unfolding shell_minted_def demo_broker_def by (auto elim!: mint_cases simp: broker_new_def)
  have "is_safe_utility ''wc''" "\<not> is_safe_utility ''sh''" "\<not> is_sensitive_path ''wc'' ''/home/u''"
    "\<not> is_sensitive_path ''sh'' ''/home/u''" by code_simp+
  from policy_cache_forgets_confinement [OF t(2) B(1) this(1,2) _ _ t(3)] this(3,4) B(2) m t
  show ?thesis by auto
qed

end
