(* ===== verification/Ledger_Event.thy ===== *)
theory Ledger_Event
  imports Canon Machine
begin

text \<open>
  Audit events (\<^verbatim>\<open>crates/prophet-types/src/ledger.rs\<close>): sealing a draft into a chained event, the
  refusal of payloads that carry secrets, and the verification of a chain. The text of JSON values
  and instants and the hash are parameters (\<open>encoder\<close>). The reasons of a broken chain are
  constructors where the code has texts. Sequence numbers are \<open>nat\<close>: the code's \<open>u64\<close> would take
  centuries to overflow.
\<close>

section \<open>Data\<close>

definition EVENT_VERSION :: nat where
  "EVENT_VERSION = 0"

definition GENESIS :: string where
  "GENESIS = ''genesis''"

datatype event_kind = TaskCreated | TaskPlanned | TaskStarted | TaskWaiting | TaskDone |
  TaskFailed | TaskCancelled | TaskRolledBack | TaskReminded | ToolCall | ToolResult | PolicyAllow
  | PolicyDeny | PolicyRevoked | ApprovalRequested | ApprovalResolved | FsBegin | FsCommit |
  FsUndo | FsAbandon | NetRequest | NetDeny | NetExfilSuspected | ProviderStarted | ProviderQuota
  | ProviderStopped | SandboxStarted | SandboxFrozen | SandboxKilled | UiTree | UiAct |
  MemoryWrite | ModelPulled | ModelRemoved | LedgerSeal

fun event_kind_name :: "event_kind \<Rightarrow> string" where
  "event_kind_name TaskCreated = ''task.created''"
| "event_kind_name TaskPlanned = ''task.planned''"
| "event_kind_name TaskStarted = ''task.started''"
| "event_kind_name TaskWaiting = ''task.waiting''"
| "event_kind_name TaskDone = ''task.done''"
| "event_kind_name TaskFailed = ''task.failed''"
| "event_kind_name TaskCancelled = ''task.cancelled''"
| "event_kind_name TaskRolledBack = ''task.rolled_back''"
| "event_kind_name TaskReminded = ''task.reminded''"
| "event_kind_name ToolCall = ''tool.call''"
| "event_kind_name ToolResult = ''tool.result''"
| "event_kind_name PolicyAllow = ''policy.allow''"
| "event_kind_name PolicyDeny = ''policy.deny''"
| "event_kind_name PolicyRevoked = ''policy.revoked''"
| "event_kind_name ApprovalRequested = ''approval.requested''"
| "event_kind_name ApprovalResolved = ''approval.resolved''"
| "event_kind_name FsBegin = ''fs.begin''"
| "event_kind_name FsCommit = ''fs.commit''"
| "event_kind_name FsUndo = ''fs.undo''"
| "event_kind_name FsAbandon = ''fs.abandon''"
| "event_kind_name NetRequest = ''net.request''"
| "event_kind_name NetDeny = ''net.deny''"
| "event_kind_name NetExfilSuspected = ''net.exfil_suspected''"
| "event_kind_name ProviderStarted = ''provider.started''"
| "event_kind_name ProviderQuota = ''provider.quota''"
| "event_kind_name ProviderStopped = ''provider.stopped''"
| "event_kind_name SandboxStarted = ''sandbox.started''"
| "event_kind_name SandboxFrozen = ''sandbox.frozen''"
| "event_kind_name SandboxKilled = ''sandbox.killed''"
| "event_kind_name UiTree = ''ui.tree''"
| "event_kind_name UiAct = ''ui.act''"
| "event_kind_name MemoryWrite = ''memory.write''"
| "event_kind_name ModelPulled = ''model.pulled''"
| "event_kind_name ModelRemoved = ''model.removed''"
| "event_kind_name LedgerSeal = ''ledger.seal''"

definition is_system_only :: "event_kind \<Rightarrow> bool" where
  "is_system_only k \<longleftrightarrow> k \<in> {LedgerSeal, PolicyAllow, PolicyDeny, PolicyRevoked}"

record event =
  e_v :: nat
  e_seq :: nat
  e_prev :: string
  e_ts :: instant
  e_task :: "string option"
  e_step :: "nat option"
  e_actor :: string
  e_kind :: event_kind
  e_payload :: json
  e_idem :: "string option"
  e_hash :: "string option"

datatype chain_reason = HashMissing | HashMismatch | SeqExpected nat | PrevWrong

datatype event_error = UnknownEventVersion nat | ForbiddenField string | BrokenChain nat chain_reason
  | EventSerialize canon_error

definition FORBIDDEN_PAYLOAD_FIELDS :: "string list" where
  "FORBIDDEN_PAYLOAD_FIELDS = [''password'', ''secret'', ''token'', ''api_key'', ''apikey'',
     ''authorization'', ''cookie'', ''private_key'', ''content'', ''body'']"

record draft =
  d_ts :: instant
  d_task :: "string option"
  d_step :: "nat option"
  d_actor :: string
  d_kind :: event_kind
  d_payload :: json
  d_idem :: "string option"

definition draft_new :: "instant \<Rightarrow> string \<Rightarrow> event_kind \<Rightarrow> json \<Rightarrow> draft" where
  "draft_new ts actor kind payload = \<lparr>d_ts = ts, d_task = None, d_step = None, d_actor = actor,
     d_kind = kind, d_payload = payload, d_idem = None\<rparr>"

text \<open>What third-party code gives: \<open>serde_json\<close>, \<open>time\<close> and \<open>blake3\<close>.\<close>

record encoder =
  n_to_vec :: "json \<Rightarrow> string"
  n_rfc3339 :: "instant \<Rightarrow> string + string"
  n_blake3_hex :: "string \<Rightarrow> string"

section \<open>Sealing\<close>

fun check_payload :: "json \<Rightarrow> event_error + unit"
  and check_members :: "(string \<times> json) list \<Rightarrow> event_error + unit"
  and check_items :: "json list \<Rightarrow> event_error + unit" where
  "check_payload (JObj m) = check_members m"
| "check_payload (JArr items) = check_items items"
| "check_payload JNull = Ok ()"
| "check_payload (JBool b) = Ok ()"
| "check_payload (JInt n) = Ok ()"
| "check_payload (JFloat x) = Ok ()"
| "check_payload (JStr s) = Ok ()"
| "check_members [] = Ok ()"
| "check_members ((key, v) # m) =
     (if to_ascii_lowercase key \<in> set FORBIDDEN_PAYLOAD_FIELDS then Err (ForbiddenField key)
      else case check_payload v of Inl e \<Rightarrow> Err e | Inr _ \<Rightarrow> check_members m)"
| "check_items [] = Ok ()"
| "check_items (v # items) =
     (case check_payload v of Inl e \<Rightarrow> Err e | Inr _ \<Rightarrow> check_items items)"

definition event_fields :: "event \<Rightarrow> string \<Rightarrow> (string, json) amap" where
  "event_fields e ts =
     [(''v'', JInt (int (e_v e))), (''seq'', JInt (int (e_seq e))), (''prev'', JStr (e_prev e)),
      (''ts'', JStr ts)]
   @ opt_field ''task'' JStr (e_task e) @ opt_field ''step'' (JInt \<circ> int) (e_step e)
   @ [(''actor'', JStr (e_actor e)), (''kind'', JStr (event_kind_name (e_kind e))),
      (''payload'', e_payload e)]
   @ opt_field ''idem'' JStr (e_idem e) @ opt_field ''hash'' JStr (e_hash e)"

definition event_json :: "encoder \<Rightarrow> event \<Rightarrow> string + json" where
  "event_json N e = (case n_rfc3339 N (e_ts e) of
     Inl err \<Rightarrow> Err err | Inr ts \<Rightarrow> Ok (JObj (event_fields e ts)))"

definition compute_hash :: "encoder \<Rightarrow> event \<Rightarrow> event_error + string" where
  "compute_hash N e =
     (case canonical_hash (n_to_vec N) (n_blake3_hex N) (event_json N e) [''hash''] of
        Inl err \<Rightarrow> Err (EventSerialize err) | Inr h \<Rightarrow> Ok h)"

definition seal :: "encoder \<Rightarrow> draft \<Rightarrow> nat \<Rightarrow> string \<Rightarrow> event_error + event" where
  "seal N d sq prev =
     (case check_payload (d_payload d) of
        Inl err \<Rightarrow> Err err
      | Inr _ \<Rightarrow>
          let e = \<lparr>e_v = EVENT_VERSION, e_seq = sq, e_prev = prev, e_ts = d_ts d, e_task = d_task d,
                e_step = d_step d, e_actor = d_actor d, e_kind = d_kind d, e_payload = d_payload d,
                e_idem = d_idem d, e_hash = None\<rparr>
          in case compute_hash N e of
               Inl err \<Rightarrow> Err err
             | Inr h \<Rightarrow> Ok (e\<lparr>e_hash := Some h\<rparr>))"

section \<open>Verification\<close>

definition verify_hash :: "encoder \<Rightarrow> event \<Rightarrow> event_error + unit" where
  "verify_hash N e =
     (case e_hash e of
        None \<Rightarrow> Err (BrokenChain (e_seq e) HashMissing)
      | Some recorded \<Rightarrow>
          (case compute_hash N e of
             Inl err \<Rightarrow> Err err
           | Inr computed \<Rightarrow>
               if computed = recorded then Ok () else Err (BrokenChain (e_seq e) HashMismatch)))"

fun verify_from :: "encoder \<Rightarrow> string \<Rightarrow> nat option \<Rightarrow> event list \<Rightarrow> event_error + unit" where
  "verify_from N expected_prev expected_seq [] = Ok ()"
| "verify_from N expected_prev expected_seq (e # es) =
     (if e_v e \<noteq> EVENT_VERSION then Err (UnknownEventVersion (e_v e))
      else if \<not> (case expected_seq of None \<Rightarrow> True | Some s \<Rightarrow> e_seq e = s)
        then Err (BrokenChain (e_seq e) (SeqExpected (the expected_seq)))
      else if e_prev e \<noteq> expected_prev then Err (BrokenChain (e_seq e) PrevWrong)
      else case verify_hash N e of
             Inl err \<Rightarrow> Err err
           | Inr _ \<Rightarrow> verify_from N (case e_hash e of Some h \<Rightarrow> h | None \<Rightarrow> []) (Some (e_seq e + 1)) es)"

definition verify_chain :: "encoder \<Rightarrow> event list \<Rightarrow> event_error + unit" where
  "verify_chain N es = verify_from N GENESIS None es"

section \<open>Secrets stay out\<close>

text \<open>The keys of the objects of a value, at any depth.\<close>

inductive has_key :: "json \<Rightarrow> string \<Rightarrow> bool" where
  key_here: "(k, v) \<in> set m \<Longrightarrow> has_key (JObj m) k"
| key_member: "(k', v) \<in> set m \<Longrightarrow> has_key v k \<Longrightarrow> has_key (JObj m) k"
| key_item: "v \<in> set vs \<Longrightarrow> has_key v k \<Longrightarrow> has_key (JArr vs) k"

inductive_simps has_key_simps [simp]:
  "has_key (JObj m) k" "has_key (JArr vs) k" "has_key JNull k" "has_key (JBool b) k"
  "has_key (JInt n) k" "has_key (JFloat x) k" "has_key (JStr s) k"

definition forbidden :: "string \<Rightarrow> bool" where
  "forbidden k \<longleftrightarrow> to_ascii_lowercase k \<in> set FORBIDDEN_PAYLOAD_FIELDS"

lemma check_members_iff: "check_members m = Ok () \<longleftrightarrow>
    (\<forall>(k, v) \<in> set m. \<not> forbidden k \<and> check_payload v = Ok ())"
  by (induction m) (auto simp: forbidden_def split: sum.splits if_splits)

lemma check_items_iff: "check_items vs = Ok () \<longleftrightarrow> (\<forall>v \<in> set vs. check_payload v = Ok ())"
  by (induction vs) (auto split: sum.splits)

lemma check_payload_iff: "check_payload j = Ok () \<longleftrightarrow> (\<forall>k. has_key j k \<longrightarrow> \<not> forbidden k)"
proof (induction j)
  case (JArr vs)
  then show ?case by (auto simp: check_items_iff)
next
  case (JObj m)
  have "check_payload v = Ok () \<longleftrightarrow> (\<forall>k. has_key v k \<longrightarrow> \<not> forbidden k)" if "(k', v) \<in> set m" for k' v
    using JObj [OF that, of v] by simp
  then have "check_payload (JObj m) = Ok ()
      \<longleftrightarrow> (\<forall>(k', v) \<in> set m. \<not> forbidden k' \<and> (\<forall>k. has_key v k \<longrightarrow> \<not> forbidden k))"
    by (fastforce simp: check_members_iff)
  then show ?case by (simp only: has_key_simps) blast
qed simp_all

section \<open>The hash determines the event\<close>

text \<open>Up to the order of the keys of the payload, which the canonical form forgets.\<close>

definition event_norm :: "event \<Rightarrow> event" where
  "event_norm e = e\<lparr>e_payload := sort_value (e_payload e)\<rparr>"

definition encoder_ok :: "encoder \<Rightarrow> bool" where
  "encoder_ok N \<longleftrightarrow> inj (n_to_vec N) \<and> (\<forall>i j s. n_rfc3339 N i = Ok s \<and> n_rfc3339 N j = Ok s \<longrightarrow> i = j)"

definition collision :: "encoder \<Rightarrow> bool" where
  "collision N \<longleftrightarrow> (\<exists>x y. x \<noteq> y \<and> n_blake3_hex N x = n_blake3_hex N y)"

lemma inj_event_kind_name: "inj event_kind_name"
proof (rule injI)
  fix x y :: event_kind
  show "event_kind_name x = event_kind_name y \<Longrightarrow> x = y" by (cases x; cases y) simp_all
qed

lemma field_event:
  assumes "v = JObj (event_fields e ts)"
  shows "field ''v'' v = Some (JInt (int (e_v e)))" "field ''seq'' v = Some (JInt (int (e_seq e)))"
    "field ''prev'' v = Some (JStr (e_prev e))" "field ''ts'' v = Some (JStr ts)"
    "field ''task'' v = map_option JStr (e_task e)"
    "field ''step'' v = map_option (JInt \<circ> int) (e_step e)"
    "field ''actor'' v = Some (JStr (e_actor e))"
    "field ''kind'' v = Some (JStr (event_kind_name (e_kind e)))"
    "field ''payload'' v = Some (e_payload e)" "field ''idem'' v = map_option JStr (e_idem e)"
  by (auto simp: assms event_fields_def map_add_def split: option.split)

lemma compute_hash_Ok:
  assumes "compute_hash N e = Ok h"
  shows "\<exists>ts. n_rfc3339 N (e_ts e) = Ok ts \<and> h = ''blake3:'' @ n_blake3_hex N
    (n_to_vec N (sort_value (JObj (remove_keys [''hash''] (event_fields e ts)))))"
  using assms
  by (auto simp: compute_hash_def canonical_hash_def to_canonical_bytes_def canonical_value_def
      event_json_def split: sum.splits)

lemma compute_hash_inject:
  assumes N: "encoder_ok N" "\<not> collision N"
    and h: "compute_hash N e = Ok h" "compute_hash N e' = Ok h"
  shows "event_norm (e\<lparr>e_hash := None\<rparr>) = event_norm (e'\<lparr>e_hash := None\<rparr>)"
proof -
  from compute_hash_Ok [OF h(1)] compute_hash_Ok [OF h(2)] obtain ts ts' where
    ts: "n_rfc3339 N (e_ts e) = Ok ts" "n_rfc3339 N (e_ts e') = Ok ts'" and
    "n_blake3_hex N (n_to_vec N (sort_value (JObj (remove_keys [''hash''] (event_fields e ts)))))
      = n_blake3_hex N (n_to_vec N (sort_value (JObj (remove_keys [''hash''] (event_fields e' ts')))))"
    by auto
  with N have eq: "sort_value (JObj (remove_keys [''hash''] (event_fields e ts)))
      = sort_value (JObj (remove_keys [''hash''] (event_fields e' ts')))"
    unfolding encoder_ok_def collision_def by (meson injD)
  have same: "map_option sort_value (field k (JObj (event_fields e ts)))
      = map_option sort_value (field k (JObj (event_fields e' ts')))" if "k \<noteq> ''hash''" for k
    using sort_value_eq_field [OF eq, of k] that by (simp add: map_of_remove_keys)
  note f = field_event [OF refl, of e ts] field_event [OF refl, of e' ts']
  have "e_v e = e_v e'" "e_seq e = e_seq e'" "e_prev e = e_prev e'" "ts = ts'"
    "e_task e = e_task e'" "e_step e = e_step e'" "e_actor e = e_actor e'" "e_kind e = e_kind e'"
    "sort_value (e_payload e) = sort_value (e_payload e')" "e_idem e = e_idem e'"
    using same [of "''v''"] same [of "''seq''"] same [of "''prev''"] same [of "''ts''"]
      same [of "''task''"] same [of "''step''"] same [of "''actor''"] same [of "''kind''"]
      same [of "''payload''"] same [of "''idem''"]
    by (simp_all only: f map_option_JStr_eq map_JInt_eq option.map option.inject sort_value.simps
        json.inject inj_eq [OF inj_event_kind_name] of_nat_eq_iff) simp_all
  moreover from this ts N(1) have "e_ts e = e_ts e'" by (auto simp: encoder_ok_def)
  ultimately show ?thesis by (simp add: event_norm_def)
qed

section \<open>Chains\<close>

text \<open>A verified chain, seen from its end.\<close>

lemma verify_from_snoc:
  "verify_from N p s (es @ [e]) = Ok () \<longleftrightarrow>
     verify_from N p s es = Ok () \<and> e_v e = EVENT_VERSION \<and> verify_hash N e = Ok ()
   \<and> e_prev e = (if es = [] then p else case e_hash (last es) of Some h \<Rightarrow> h | None \<Rightarrow> [])
   \<and> (if es = [] then (case s of None \<Rightarrow> True | Some n \<Rightarrow> e_seq e = n)
      else e_seq e = e_seq (last es) + 1)"
proof (induction es arbitrary: p s)
  case Nil
  then show ?case by (auto split: sum.splits option.splits)
next
  case (Cons x es)
  show ?case
    by (cases "verify_hash N x") (auto simp: Cons.IH split: option.splits)
qed

lemma verify_hash_Ok:
  assumes "verify_hash N e = Ok ()"
  shows "\<exists>h. e_hash e = Some h \<and> compute_hash N e = Ok h \<and> h \<noteq> GENESIS"
  using assms compute_hash_Ok [of N e]
  by (auto simp: verify_hash_def GENESIS_def split: option.splits sum.splits if_splits)


lemma event_fields_hash [simp]:
  "remove_keys [''hash''] (event_fields (e\<lparr>e_hash := h\<rparr>) ts) = remove_keys [''hash''] (event_fields e ts)"
  by (auto simp: event_fields_def remove_keys_def opt_field_def split: option.splits)

lemma compute_hash_ignores_hash [simp]: "compute_hash N (e\<lparr>e_hash := h\<rparr>) = compute_hash N e"
  by (auto simp: compute_hash_def canonical_hash_def to_canonical_bytes_def canonical_value_def
      event_json_def split: sum.splits)

lemma seal_Ok:
  assumes "seal N d sq prev = Ok e"
  shows "check_payload (d_payload d) = Ok ()" "verify_hash N e = Ok ()" "e_v e = EVENT_VERSION"
    "e_seq e = sq" "e_prev e = prev" "e_ts e = d_ts d" "e_task e = d_task d" "e_step e = d_step d"
    "e_actor e = d_actor d" "e_kind e = d_kind d" "e_payload e = d_payload d" "e_idem e = d_idem d"
proof -
  from assms obtain e0 h where e: "check_payload (d_payload d) = Ok ()" "compute_hash N e0 = Ok h"
    "e = e0\<lparr>e_hash := Some h\<rparr>" "e0 = \<lparr>e_v = EVENT_VERSION, e_seq = sq, e_prev = prev, e_ts = d_ts d,
       e_task = d_task d, e_step = d_step d, e_actor = d_actor d, e_kind = d_kind d,
       e_payload = d_payload d, e_idem = d_idem d, e_hash = None\<rparr>"
    by (auto simp: seal_def Let_def split: sum.splits)
  from e(2) have "verify_hash N e = Ok ()" unfolding e(3) verify_hash_def by simp
  then show "check_payload (d_payload d) = Ok ()" "verify_hash N e = Ok ()" "e_v e = EVENT_VERSION"
    "e_seq e = sq" "e_prev e = prev" "e_ts e = d_ts d" "e_task e = d_task d" "e_step e = d_step d"
    "e_actor e = d_actor d" "e_kind e = d_kind d" "e_payload e = d_payload d" "e_idem e = d_idem d"
    using e(1) unfolding e(3,4) by simp_all
qed

definition chain_head :: "event list \<Rightarrow> string" where
  "chain_head es = (if es = [] then GENESIS else case e_hash (last es) of Some h \<Rightarrow> h | None \<Rightarrow> [])"

lemma verify_chain_snoc:
  "verify_chain N (es @ [e]) = Ok () \<longleftrightarrow>
     verify_chain N es = Ok () \<and> e_v e = EVENT_VERSION \<and> verify_hash N e = Ok ()
   \<and> e_prev e = chain_head es \<and> (es = [] \<or> e_seq e = e_seq (last es) + 1)"
  by (auto simp: verify_chain_def verify_from_snoc chain_head_def split: if_splits)

lemma seal_extends_chain:
  assumes "verify_chain N es = Ok ()" "seal N d sq (chain_head es) = Ok e"
    and "es = [] \<or> sq = e_seq (last es) + 1"
  shows "verify_chain N (es @ [e]) = Ok ()"
  using assms seal_Ok [OF assms(2)] by (simp add: verify_chain_snoc)

lemma check_payload_Err: "check_payload j = Err e \<Longrightarrow> \<exists>k. e = ForbiddenField k \<and> has_key j k \<and> forbidden k"
  and check_members_Err: "check_members m = Err e \<Longrightarrow> \<exists>k. e = ForbiddenField k \<and> has_key (JObj m) k \<and> forbidden k"
  and check_items_Err: "check_items vs = Err e \<Longrightarrow> \<exists>k. e = ForbiddenField k \<and> has_key (JArr vs) k \<and> forbidden k"
proof (induction j and m and vs rule: check_payload_check_members_check_items.induct)
  case (9 key v m)
  then show ?case by (fastforce simp: forbidden_def split: if_splits sum.splits)
next
  case (11 v items)
  then show ?case by (fastforce split: sum.splits)
qed simp_all

section \<open>Properties\<close>

text \<open>
  Secrets stay out of the journal: sealing a draft is refused for a forbidden field exactly when
  some object of its payload, at any depth, has a key that is, up to ASCII case, one of the listed
  names; so the payload of a sealed event, which is the payload of the draft, has none.
\<close>
theorem seal_refuses_secrets:
  "((\<exists>k. seal N d sq prev = Err (ForbiddenField k)) \<longleftrightarrow>
      (\<exists>k. has_key (d_payload d) k \<and> to_ascii_lowercase k \<in> set FORBIDDEN_PAYLOAD_FIELDS))
   \<and> (case seal N d sq prev of
        Inl _ \<Rightarrow> True
      | Inr e \<Rightarrow> e_payload e = d_payload d
          \<and> {k. has_key (e_payload e) k \<and> to_ascii_lowercase k \<in> set FORBIDDEN_PAYLOAD_FIELDS} = {})"
proof (cases "check_payload (d_payload d)")
  case (Inl err)
  with check_payload_Err [OF this] show ?thesis by (auto simp: seal_def forbidden_def)
next
  case (Inr u)
  then have "\<not> has_key (d_payload d) k" if "to_ascii_lowercase k \<in> set FORBIDDEN_PAYLOAD_FIELDS" for k
    using that check_payload_iff [of "d_payload d"] by (auto simp: forbidden_def)
  with Inr show ?thesis
    by (auto simp: seal_def Let_def compute_hash_def split: sum.splits)
qed

text \<open>
  C23. The head of the chain binds the whole history: two nonempty chains that both verify and end
  with the same hash hold the same events in every field, up to the order of the keys of the
  payloads, unless the hash function has a collision.
\<close>
theorem chain_head_binds_history:
  assumes N: "encoder_ok N" "\<not> collision N"
    and "verify_chain N es = Ok ()" "verify_chain N es' = Ok ()" "chain_head es = chain_head es'"
  shows "map event_norm es = map event_norm es'"
  using assms(3-)
proof (induction es arbitrary: es' rule: rev_induct)
  case Nil
  show ?case
  proof (cases es' rule: rev_cases)
    case (snoc fs f)
    with Nil(2) have "verify_hash N f = Ok ()" by (simp add: verify_chain_snoc)
    from verify_hash_Ok [OF this] snoc Nil(3) show ?thesis by (auto simp: chain_head_def)
  qed simp
next
  case (snoc e es)
  then have e: "verify_hash N e = Ok ()" "verify_chain N es = Ok ()" "e_prev e = chain_head es"
    by (simp_all add: verify_chain_snoc)
  from verify_hash_Ok [OF e(1)] obtain h where
    h: "e_hash e = Some h" "compute_hash N e = Ok h" "h \<noteq> GENESIS" by blast
  show ?case
  proof (cases es' rule: rev_cases)
    case Nil
    with snoc.prems(3) h show ?thesis by (simp add: chain_head_def)
  next
    case es': (snoc fs f)
    with snoc.prems(2) have f: "verify_hash N f = Ok ()" "verify_chain N fs = Ok ()" "e_prev f = chain_head fs"
      by (simp_all add: verify_chain_snoc)
    from verify_hash_Ok [OF f(1)] snoc.prems(3) h(1) es'
    have h': "e_hash f = Some h" "compute_hash N f = Ok h" by (auto simp: chain_head_def)
    have n: "event_norm (e\<lparr>e_hash := None\<rparr>) = event_norm (f\<lparr>e_hash := None\<rparr>)"
      using N h(2) h'(2) by (rule compute_hash_inject)
    from n have prev: "e_prev e = e_prev f" by (cases e; cases f) (simp add: event_norm_def)
    have "event_norm e = event_norm f"
      using n h(1) h'(1) by (cases e; cases f) (simp add: event_norm_def)
    moreover have "map event_norm es = map event_norm fs"
      using e f prev by (intro snoc.IH) simp_all
    ultimately show ?thesis by (simp add: es')
  qed
qed

section \<open>Concrete inputs\<close>

definition demo_encoder :: encoder where
  "demo_encoder = \<lparr>n_to_vec = show_json, n_rfc3339 = (\<lambda>t. Ok (show_int t)), n_blake3_hex = rev\<rparr>"

lemma demo_encoder_ok: "encoder_ok demo_encoder" "\<not> collision demo_encoder"
  by (auto simp: encoder_ok_def collision_def demo_encoder_def inj_show_json)

definition sealed_event :: "json \<Rightarrow> event" where
  "sealed_event p = (case seal demo_encoder (draft_new 7 ''agentd'' ToolCall p) 0 GENESIS of
     Inr e \<Rightarrow> e | Inl _ \<Rightarrow> undefined)"

text \<open>Two chains of one event whose payloads have the same keys in another order.\<close>

theorem chain_head_binds_history_witness:
  "map event_norm [sealed_event (JObj [(''a'', JNull), (''b'', JBool True)])]
     = map event_norm [sealed_event (JObj [(''b'', JBool True), (''a'', JNull)])]"
proof (rule chain_head_binds_history [OF demo_encoder_ok])
  show "verify_chain demo_encoder [sealed_event (JObj [(''a'', JNull), (''b'', JBool True)])] = Ok ()"
    by code_simp
  show "verify_chain demo_encoder [sealed_event (JObj [(''b'', JBool True), (''a'', JNull)])] = Ok ()"
    by code_simp
  show "chain_head [sealed_event (JObj [(''a'', JNull), (''b'', JBool True)])]
      = chain_head [sealed_event (JObj [(''b'', JBool True), (''a'', JNull)])]"
    by code_simp
qed

end
