(* ===== verification/F64.thy ===== *)
theory F64
  imports Prophet_Prelude Complex_Main
begin

text \<open>
  Rust's \<open>f64\<close> for finite values: rationals, each operation rounded to the nearest multiple of the
  unit in the last place, ties to even, as IEEE 754 double precision does. NaN, infinities and
  subnormals are not modelled. The casts \<open>as f64\<close>, \<open>as u64\<close> and \<open>as u32\<close> are included, and the
  integers of fixed width that wrap or saturate.
\<close>

type_synonym double = rat

section \<open>Rounding\<close>

fun bit_length :: "nat \<Rightarrow> nat" where
  "bit_length n = (if n = 0 then 0 else Suc (bit_length (n div 2)))"

declare bit_length.simps [simp del]

definition pow2 :: "int \<Rightarrow> rat" where
  "pow2 e = (if 0 \<le> e then 2 ^ nat e else 1 / 2 ^ nat (- e))"

text \<open>The exponent of the unit in the last place of a positive number.\<close>

definition ulp_exp :: "rat \<Rightarrow> int" where
  "ulp_exp x = (if 1 \<le> x then int (bit_length (nat \<lfloor>x\<rfloor>)) - 53
     else - int (bit_length (nat \<lceil>1 / x\<rceil> - 1)) - 52)"

definition round_half_even :: "rat \<Rightarrow> int" where
  "round_half_even y =
     (let f = \<lfloor>y\<rfloor>; d = y - of_int f
      in if d < 1 / 2 then f else if d > 1 / 2 then f + 1 else if even f then f else f + 1)"

definition fl_pos :: "rat \<Rightarrow> rat" where
  "fl_pos x = (let u = pow2 (ulp_exp x) in of_int (round_half_even (x / u)) * u)"

definition fl :: "rat \<Rightarrow> double" where
  "fl x = (if x = 0 then 0 else if x < 0 then - fl_pos (- x) else fl_pos x)"

definition f64_of_nat :: "nat \<Rightarrow> double" where
  "f64_of_nat n = fl (of_nat n)"

definition f64_clamp :: "double \<Rightarrow> double \<Rightarrow> double \<Rightarrow> double" where
  "f64_clamp lo hi x = (if x < lo then lo else if hi < x then hi else x)"

definition cast_unsigned :: "nat \<Rightarrow> double \<Rightarrow> nat" where
  "cast_unsigned bound x = (if x \<le> 0 then 0 else min (bound - 1) (nat \<lfloor>x\<rfloor>))"

definition as_u32 :: "double \<Rightarrow> nat" where
  "as_u32 = cast_unsigned 4294967296"

definition cast_u64 :: "double \<Rightarrow> nat" where
  "cast_u64 = cast_unsigned 18446744073709551616"

section \<open>Integers\<close>

definition add64 :: "nat \<Rightarrow> nat \<Rightarrow> nat" where
  "add64 a b = (a + b) mod 18446744073709551616"

definition add32 :: "nat \<Rightarrow> nat \<Rightarrow> nat" where
  "add32 a b = (a + b) mod 4294967296"

definition sat_add64 :: "nat \<Rightarrow> nat \<Rightarrow> nat" where
  "sat_add64 a b = min 18446744073709551615 (a + b)"

definition sat_add32 :: "nat \<Rightarrow> nat \<Rightarrow> nat" where
  "sat_add32 a b = min 4294967295 (a + b)"

section \<open>Bounds\<close>

lemma bit_length_bound: "n < 2 ^ bit_length n"
proof (induction n rule: bit_length.induct)
  case (1 n)
  then show ?case by (subst bit_length.simps) auto
qed

lemma bit_length_le: "n < 2 ^ k \<Longrightarrow> bit_length n \<le> k"
proof (induction n arbitrary: k rule: bit_length.induct)
  case (1 n)
  show ?case
  proof (cases "n = 0")
    case False
    with 1(2) obtain j where j: "k = Suc j" by (cases k) auto
    with 1(2) have "n div 2 < 2 ^ j" by auto
    with 1(1) [OF False] have "bit_length (n div 2) \<le> j" by blast
    with False j show ?thesis by (subst bit_length.simps) auto
  qed (simp add: bit_length.simps)
qed

lemma pow2_pos [simp]: "0 < pow2 e"
  by (simp add: pow2_def)

lemma pow2_nonzero [simp]: "pow2 e \<noteq> 0"
  using pow2_pos [of e] by linarith

lemma round_half_even_le: "y \<le> of_int m \<Longrightarrow> round_half_even y \<le> m"
proof -
  assume y: "y \<le> of_int m"
  show ?thesis
  proof (cases "\<lfloor>y\<rfloor> < m")
    case True
    then show ?thesis by (simp add: round_half_even_def Let_def)
  next
    case False
    with y have "y = of_int m" by (metis floor_mono floor_of_int le_floor_iff linorder_le_less_linear order_antisym)
    then show ?thesis by (simp add: round_half_even_def)
  qed
qed

lemma round_half_even_int [simp]: "round_half_even (of_int m) = m"
  by (simp add: round_half_even_def)

lemma round_half_even_nonneg: "0 \<le> y \<Longrightarrow> 0 \<le> round_half_even y"
  by (simp add: round_half_even_def Let_def)

text \<open>Below \<open>2 ^ 53\<close> integers are multiples of the unit.\<close>

lemma integer_multiple:
  assumes "0 < x" "x \<le> of_nat n" "n < 2 ^ 53"
  shows "\<exists>m. of_nat n = of_int m * pow2 (ulp_exp x)"
proof -
  have "ulp_exp x \<le> 0"
  proof (cases "1 \<le> x")
    case True
    from assms(2) have "\<lfloor>x\<rfloor> \<le> int n" by (metis floor_mono floor_of_nat)
    with True assms(3) have "nat \<lfloor>x\<rfloor> < 2 ^ 53" by linarith
    from bit_length_le [OF this] True show ?thesis by (simp add: ulp_exp_def)
  qed (simp add: ulp_exp_def)
  then have "pow2 (ulp_exp x) = 1 / 2 ^ nat (- ulp_exp x)"
    by (cases "ulp_exp x = 0") (simp_all add: pow2_def)
  then have "of_nat n = of_int (int n * 2 ^ nat (- ulp_exp x)) * pow2 (ulp_exp x)" by simp
  then show ?thesis by blast
qed

lemma fl_le:
  assumes "0 \<le> x" "x \<le> of_nat n" "n < 2 ^ 53"
  shows "0 \<le> fl x" "fl x \<le> of_nat n"
proof -
  have "0 \<le> fl x \<and> fl x \<le> of_nat n"
  proof (cases "x = 0")
    case False
    with assms(1) have x: "0 < x" by simp
    let ?u = "pow2 (ulp_exp x)"
    from integer_multiple [OF x assms(2,3)] obtain m where m: "of_nat n = of_int m * ?u" by blast
    have "x / ?u \<le> of_int m" using assms(2) by (simp add: m pos_divide_le_eq)
    then have "round_half_even (x / ?u) \<le> m" by (rule round_half_even_le)
    then have "of_int (round_half_even (x / ?u)) * ?u \<le> of_int m * ?u" by (simp add: mult_right_mono less_imp_le)
    moreover have "0 \<le> round_half_even (x / ?u)" using x by (intro round_half_even_nonneg) (simp add: less_imp_le)
    then have "0 \<le> of_int (round_half_even (x / ?u)) * ?u" by (simp add: less_imp_le)
    ultimately show ?thesis using x by (simp add: fl_def fl_pos_def Let_def m)
  qed (simp add: fl_def)
  then show "0 \<le> fl x" "fl x \<le> of_nat n" by blast+
qed

lemma f64_of_nat_exact:
  assumes "n < 2 ^ 53"
  shows "f64_of_nat n = of_nat n"
proof (cases "n = 0")
  case False
  then have x: "(0::rat) < of_nat n" by simp
  from integer_multiple [OF x order_refl assms] obtain m where
    m: "(of_nat n :: rat) = of_int m * pow2 (ulp_exp (of_nat n))" by blast
  have "of_nat n / pow2 (ulp_exp (of_nat n)) = (of_int m :: rat)"
    by (subst m) simp
  with x show ?thesis by (simp add: f64_of_nat_def fl_def fl_pos_def Let_def m [symmetric])
qed (simp add: f64_of_nat_def fl_def)

lemma cast_le:
  assumes "x \<le> of_nat n"
  shows "cast_unsigned b x \<le> n"
proof -
  from assms have "\<lfloor>x\<rfloor> \<le> int n" by (metis floor_mono floor_of_nat)
  then show ?thesis by (auto simp: cast_unsigned_def)
qed

text \<open>A share of a whole number of units never exceeds it.\<close>

lemma share_le:
  assumes "n < 2 ^ 53" "0 \<le> f" "f \<le> 1"
  shows "cast_unsigned b (fl (f64_of_nat n * f)) \<le> n"
proof -
  have "(0::rat) \<le> of_nat n * f" "of_nat n * f \<le> of_nat n"
    using assms(2,3) by (simp_all add: mult_left_le)
  from fl_le(2) [OF this assms(1)] show ?thesis
    by (intro cast_le) (simp add: f64_of_nat_exact [OF assms(1)])
qed

end
