(* ===== verification/Task_Life.thy ===== *)
theory Task_Life
  imports F64 Machine
begin

text \<open>
  Tasks and their budgets (\<^verbatim>\<open>crates/agentd/src/task.rs\<close>, \<^verbatim>\<open>budget.rs\<close>): states and the allowed
  transitions, spending, exhaustion, shares for children, usage by model. Counters keep their
  width; costs are \<open>f64\<close>.
\<close>

section \<open>Budgets\<close>

datatype dimension = Tokens | WallTime | Steps | Approvals | Cost | Quota

definition ECAIGU :: string where
  "ECAIGU = [CHR 0xC3, CHR 0xA9]"

definition explain :: "dimension \<Rightarrow> string" where
  "explain d = (case d of
     Tokens \<Rightarrow> ''le plafond de tokens de la t'' @ [CHR 0xC3, CHR 0xA2] @ ''che est atteint''
   | WallTime \<Rightarrow> ''la t'' @ [CHR 0xC3, CHR 0xA2] @ ''che a d'' @ ECAIGU @ ''pass'' @ ECAIGU
       @ '' sa dur'' @ ECAIGU @ ''e maximale''
   | Steps \<Rightarrow> ''la t'' @ [CHR 0xC3, CHR 0xA2] @ ''che a atteint son nombre maximal d'' @ [CHR 0x27]
       @ ECAIGU @ ''tapes''
   | Approvals \<Rightarrow> ''la t'' @ [CHR 0xC3, CHR 0xA2] @ ''che a d'' @ ECAIGU @ ''j'' @ [CHR 0xC3, CHR 0xA0]
       @ '' demand'' @ ECAIGU @ '' le nombre maximal d'' @ [CHR 0x27] @ ''approbations''
   | Cost \<Rightarrow> ''le plafond de co'' @ [CHR 0xC3, CHR 0xBB] @ ''t de la t'' @ [CHR 0xC3, CHR 0xA2]
       @ ''che est atteint''
   | Quota \<Rightarrow> ''la fen'' @ [CHR 0xC3, CHR 0xAA] @ ''tre d'' @ [CHR 0x27] @ ''usage de l'' @ [CHR 0x27]
       @ ''abonnement est '' @ ECAIGU @ ''puis'' @ ECAIGU @ ''e'')"

record limits =
  li_tokens :: nat
  li_wall_time_s :: nat
  li_steps :: nat
  li_approvals :: nat
  li_cost_eur :: double

definition default_limits :: limits where
  "default_limits = \<lparr>li_tokens = 200000, li_wall_time_s = 1200, li_steps = 200, li_approvals = 5,
     li_cost_eur = 0\<rparr>"

record spent =
  sp_tokens :: nat
  sp_wall_time_s :: nat
  sp_steps :: nat
  sp_approvals :: nat
  sp_cost_eur :: double
  sp_quota_pct :: double

definition default_spent :: spent where
  "default_spent = \<lparr>sp_tokens = 0, sp_wall_time_s = 0, sp_steps = 0, sp_approvals = 0,
     sp_cost_eur = 0, sp_quota_pct = 0\<rparr>"

record model_usage =
  mu_turns :: nat
  mu_tokens_in :: nat
  mu_tokens_out :: nat

definition default_usage :: model_usage where
  "default_usage = \<lparr>mu_turns = 0, mu_tokens_in = 0, mu_tokens_out = 0\<rparr>"

definition mu_tokens :: "model_usage \<Rightarrow> nat" where
  "mu_tokens u = sat_add64 (mu_tokens_in u) (mu_tokens_out u)"

definition mu_add :: "nat \<Rightarrow> nat \<Rightarrow> model_usage \<Rightarrow> model_usage" where
  "mu_add tin tout u = \<lparr>mu_turns = sat_add32 (mu_turns u) 1,
     mu_tokens_in = sat_add64 (mu_tokens_in u) tin, mu_tokens_out = sat_add64 (mu_tokens_out u) tout\<rparr>"

definition mu_absorb :: "model_usage \<Rightarrow> model_usage \<Rightarrow> model_usage" where
  "mu_absorb other u = \<lparr>mu_turns = sat_add32 (mu_turns u) (mu_turns other),
     mu_tokens_in = sat_add64 (mu_tokens_in u) (mu_tokens_in other),
     mu_tokens_out = sat_add64 (mu_tokens_out u) (mu_tokens_out other)\<rparr>"

type_synonym usage_by_model = "(string, model_usage) amap"

text \<open>The product by 100 is a \<open>u64\<close> product.\<close>

definition share_outside :: "usage_by_model \<Rightarrow> string \<Rightarrow> nat option" where
  "share_outside usage reference =
     (let total = foldl (\<lambda>acc (_, u). add64 acc (mu_tokens u)) 0 usage
      in if total = 0 then None
         else
           let own = (case map_of usage reference of None \<Rightarrow> 0 | Some u \<Rightarrow> mu_tokens u);
               pct = ((total - own) * 100 mod 18446744073709551616) div total
           in Some (if pct < 256 then pct else 100))"

record budget =
  bu_limits :: limits
  bu_spent :: spent

definition budget_new :: "limits \<Rightarrow> budget" where
  "budget_new l = \<lparr>bu_limits = l, bu_spent = \<lparr>sp_tokens = 0, sp_wall_time_s = 0, sp_steps = 0,
     sp_approvals = 0, sp_cost_eur = 0, sp_quota_pct = 0\<rparr>\<rparr>"

definition exhausted :: "budget \<Rightarrow> dimension option" where
  "exhausted b =
     (let l = bu_limits b; s = bu_spent b
      in if li_tokens l \<le> sp_tokens s then Some Tokens
         else if li_wall_time_s l \<le> sp_wall_time_s s then Some WallTime
         else if li_steps l \<le> sp_steps s then Some Steps
         else if li_approvals l \<le> sp_approvals s then Some Approvals
         else if 0 < li_cost_eur l \<and> li_cost_eur l \<le> sp_cost_eur s then Some Cost
         else if 100 \<le> sp_quota_pct s then Some Quota
         else None)"

definition can_continue :: "budget \<Rightarrow> bool" where
  "can_continue b \<longleftrightarrow> exhausted b = None"

text \<open>The literal \<open>0.8\<close> is the nearest double.\<close>

definition ratio_high :: "double \<Rightarrow> double \<Rightarrow> bool" where
  "ratio_high s l \<longleftrightarrow> 0 < l \<and> fl (4 / 5) \<le> fl (s / l)"

definition warnings :: "budget \<Rightarrow> dimension list" where
  "warnings b =
     (let l = bu_limits b; s = bu_spent b;
          out = (if ratio_high (f64_of_nat (sp_tokens s)) (f64_of_nat (li_tokens l)) then [Tokens] else [])
            @ (if ratio_high (f64_of_nat (sp_wall_time_s s)) (f64_of_nat (li_wall_time_s l))
               then [WallTime] else [])
            @ (if ratio_high (f64_of_nat (sp_steps s)) (f64_of_nat (li_steps l)) then [Steps] else [])
            @ (if 80 \<le> sp_quota_pct s then [Quota] else [])
      in filter (\<lambda>d. exhausted b \<noteq> Some d) out)"

definition reserve :: "budget \<Rightarrow> double \<Rightarrow> budget" where
  "reserve b fraction =
     (let f = f64_clamp 0 1 fraction; l = bu_limits b; s = bu_spent b
      in budget_new
           \<lparr>li_tokens = cast_u64 (fl (f64_of_nat (li_tokens l - sp_tokens s) * f)),
            li_wall_time_s = cast_u64 (fl (f64_of_nat (li_wall_time_s l - sp_wall_time_s s) * f)),
            li_steps = as_u32 (fl (f64_of_nat (li_steps l - sp_steps s) * f)),
            li_approvals = as_u32 (fl (f64_of_nat (li_approvals l - sp_approvals s) * f)),
            li_cost_eur = fl (max (fl (li_cost_eur l - sp_cost_eur s)) 0 * f)\<rparr>)"

definition absorb :: "budget \<Rightarrow> budget \<Rightarrow> budget" where
  "absorb child b =
     (let s = bu_spent b; c = bu_spent child
      in b\<lparr>bu_spent := s\<lparr>sp_tokens := add64 (sp_tokens s) (sp_tokens c),
            sp_steps := add32 (sp_steps s) (sp_steps c),
            sp_approvals := add32 (sp_approvals s) (sp_approvals c),
            sp_cost_eur := fl (sp_cost_eur s + sp_cost_eur c),
            sp_quota_pct := max (sp_quota_pct s) (sp_quota_pct c)\<rparr>\<rparr>)"

section \<open>Tasks\<close>

datatype state = Pending | Planned | Running | WaitingApproval | Paused | Done | Failed | Cancelled
  | RolledBack

definition is_terminal :: "state \<Rightarrow> bool" where
  "is_terminal s \<longleftrightarrow> s \<in> {Done, Failed, Cancelled, RolledBack}"

fun allowed_next :: "state \<Rightarrow> state list" where
  "allowed_next Pending = [Planned, Cancelled, Failed]"
| "allowed_next Planned = [Running, Cancelled, Failed]"
| "allowed_next Running = [WaitingApproval, Paused, Done, Failed, Cancelled]"
| "allowed_next WaitingApproval = [Running, Cancelled, Failed]"
| "allowed_next Paused = [Running, Cancelled]"
| "allowed_next Done = [RolledBack]"
| "allowed_next Failed = []"
| "allowed_next Cancelled = []"
| "allowed_next RolledBack = []"

definition can_move_to :: "state \<Rightarrow> state \<Rightarrow> bool" where
  "can_move_to s next \<longleftrightarrow> next \<in> set (allowed_next s)"

datatype task_error = BadTransition state state | BudgetExhausted dimension | DepthExceeded nat

record task =
  tk_id :: string
  tk_intent :: string
  tk_agent :: string
  tk_user :: string
  tk_parent :: "string option"
  tk_depth :: nat
  tk_state :: state
  tk_budget :: budget
  tk_driver :: "string option"
  tk_sandbox_level :: "nat option"
  tk_created :: instant
  tk_reason :: "string option"
  tk_history :: "state list"
  tk_role :: "string option"
  tk_usage :: usage_by_model

definition MAX_DEPTH :: nat where
  "MAX_DEPTH = 3"

definition task_new :: "string \<Rightarrow> string \<Rightarrow> string \<Rightarrow> string \<Rightarrow> budget \<Rightarrow> instant \<Rightarrow> task" where
  "task_new i intent agent user b created =
     \<lparr>tk_id = i, tk_intent = intent, tk_agent = agent, tk_user = user, tk_parent = None, tk_depth = 0,
      tk_state = Pending, tk_budget = b, tk_driver = None, tk_sandbox_level = None,
      tk_created = created, tk_reason = None, tk_history = [Pending], tk_role = None, tk_usage = []\<rparr>"

definition usage_entry :: "string \<Rightarrow> (model_usage \<Rightarrow> model_usage) \<Rightarrow> usage_by_model \<Rightarrow> usage_by_model" where
  "usage_entry model f m =
     bt_insert model (f (case map_of m model of None \<Rightarrow> default_usage | Some u \<Rightarrow> u)) m"

definition charge_model :: "string \<Rightarrow> nat \<Rightarrow> nat \<Rightarrow> task \<Rightarrow> task" where
  "charge_model model tin tout t = t\<lparr>tk_usage := usage_entry model (mu_add tin tout) (tk_usage t)\<rparr>"

definition absorb_usage :: "usage_by_model \<Rightarrow> task \<Rightarrow> task" where
  "absorb_usage child t =
     t\<lparr>tk_usage := foldl (\<lambda>m (model, u). usage_entry model (mu_absorb u) m) (tk_usage t) child\<rparr>"

definition spawn_child :: "string \<Rightarrow> string \<Rightarrow> double \<Rightarrow> instant \<Rightarrow> task \<Rightarrow> task_error + task" where
  "spawn_child i intent fraction created t =
     (if MAX_DEPTH < tk_depth t + 1 then Err (DepthExceeded MAX_DEPTH)
      else Ok ((task_new i intent (tk_agent t) (tk_user t) (reserve (tk_budget t) fraction) created)
             \<lparr>tk_parent := Some (tk_id t), tk_depth := tk_depth t + 1\<rparr>))"

definition transition :: "state \<Rightarrow> string option \<Rightarrow> task \<Rightarrow> task_error + task" where
  "transition next reason t =
     (if \<not> can_move_to (tk_state t) next then Err (BadTransition (tk_state t) next)
      else Ok (t\<lparr>tk_state := next, tk_history := tk_history t @ [next],
             tk_reason := (if is_terminal next then reason else tk_reason t)\<rparr>))"

text \<open>
  What the service does to a task it gives up, without asking the table of transitions: the worker
  whose last events the journal does not take, and the service when a launch cannot be saved, a
  worker dies, a client leaves or the service restarts.
\<close>

definition fail_task :: "string \<Rightarrow> task \<Rightarrow> task" where
  "fail_task why t = t\<lparr>tk_state := Failed, tk_reason := Some why, tk_history := tk_history t @ [Failed]\<rparr>"

text \<open>These two change the task and may fail: the changed task, and the error if any.\<close>

definition record_step :: "nat \<Rightarrow> nat \<Rightarrow> double \<Rightarrow> task \<Rightarrow> task \<times> (task_error + unit)" where
  "record_step tokens elapsed_s cost_eur t =
     (let b = tk_budget t; s = bu_spent b;
          b' = b\<lparr>bu_spent := s\<lparr>sp_steps := add32 (sp_steps s) 1,
                 sp_tokens := add64 (sp_tokens s) tokens, sp_wall_time_s := elapsed_s,
                 sp_cost_eur := fl (sp_cost_eur s + cost_eur)\<rparr>\<rparr>
      in (t\<lparr>tk_budget := b'\<rparr>,
          case exhausted b' of None \<Rightarrow> Ok () | Some d \<Rightarrow> Err (BudgetExhausted d)))"

definition record_approval :: "task \<Rightarrow> task \<times> (task_error + unit)" where
  "record_approval t =
     (let b = tk_budget t; s = bu_spent b; n = add32 (sp_approvals s) 1;
          t' = t\<lparr>tk_budget := b\<lparr>bu_spent := s\<lparr>sp_approvals := n\<rparr>\<rparr>\<rparr>
      in (t', if li_approvals (bu_limits b) \<le> n then Err (BudgetExhausted Approvals) else Ok ()))"

fun state_debug_name :: "state \<Rightarrow> string" where
  "state_debug_name Pending = ''Pending''"
| "state_debug_name Planned = ''Planned''"
| "state_debug_name Running = ''Running''"
| "state_debug_name WaitingApproval = ''WaitingApproval''"
| "state_debug_name Paused = ''Paused''"
| "state_debug_name Done = ''Done''"
| "state_debug_name Failed = ''Failed''"
| "state_debug_name Cancelled = ''Cancelled''"
| "state_debug_name RolledBack = ''RolledBack''"

definition truncate_chars :: "string \<Rightarrow> nat \<Rightarrow> string" where
  "truncate_chars text n =
     (if chars_count text \<le> n then text
      else take_chars (n - 1) text @ [CHR 0xE2, CHR 0x80, CHR 0xA6])"

definition task_summary :: "task \<Rightarrow> string" where
  "task_summary t =
     concat (replicate (tk_depth t) ''  '') @ tk_id t @ '' ['' @ state_debug_name (tk_state t) @ ''] ''
     @ truncate_chars (tk_intent t) 50 @ '' '' @ [CHR 0xC2, CHR 0xB7] @ '' ''
     @ show_nat (sp_steps (bu_spent (tk_budget t))) @ '' '' @ ECAIGU @ ''tapes, ''
     @ show_nat (sp_tokens (bu_spent (tk_budget t))) @ '' tokens''
     @ (case tk_driver t of None \<Rightarrow> [] | Some d \<Rightarrow> '' '' @ [CHR 0xC2, CHR 0xB7] @ '' '' @ d)"

section \<open>Lifecycles\<close>

text \<open>Two states that follow each other in a history: an allowed move, or a task given up.\<close>

definition may_follow :: "state \<Rightarrow> state \<Rightarrow> bool" where
  "may_follow a b \<longleftrightarrow> can_move_to a b \<or> b = Failed"

definition task_ok :: "task \<Rightarrow> bool" where
  "task_ok t \<longleftrightarrow> tk_history t \<noteq> [] \<and> hd (tk_history t) = Pending \<and> last (tk_history t) = tk_state t
   \<and> successively may_follow (tk_history t) \<and> tk_depth t \<le> MAX_DEPTH
   \<and> sorted (map fst (tk_usage t))"

text \<open>What the operations of a task do to it, once it exists.\<close>

inductive life_step :: "task \<Rightarrow> task \<Rightarrow> bool" where
  ls_transition: "transition next reason t = Ok t' \<Longrightarrow> life_step t t'"
| ls_step: "record_step tokens elapsed cost t = (t', r) \<Longrightarrow> life_step t t'"
| ls_approval: "record_approval t = (t', r) \<Longrightarrow> life_step t t'"
| ls_charge: "life_step t (charge_model model tin tout t)"
| ls_usage: "life_step t (absorb_usage child t)"
| ls_absorb: "life_step t (t\<lparr>tk_budget := absorb child (tk_budget t)\<rparr>)"

code_pred life_step .

inductive_cases life_stepE: "life_step t t'"

lemma transition_Ok: "transition next reason t = Ok t' \<Longrightarrow> can_move_to (tk_state t) next
    \<and> tk_state t' = next \<and> tk_history t' = tk_history t @ [next] \<and> tk_depth t' = tk_depth t
    \<and> tk_usage t' = tk_usage t \<and> tk_id t' = tk_id t \<and> tk_budget t' = tk_budget t
    \<and> tk_parent t' = tk_parent t"
  by (auto simp: transition_def split: if_splits)

lemma sorted_usage_entry: "sorted (map fst m) \<Longrightarrow> sorted (map fst (usage_entry model f m))"
  by (simp add: usage_entry_def)

lemma sorted_absorb_usage: "sorted (map fst m) \<Longrightarrow>
    sorted (map fst (foldl (\<lambda>m (model, u). usage_entry model (mu_absorb u) m) m child))"
  by (induction child arbitrary: m) (auto simp: sorted_usage_entry)

lemma life_step_cases:
  assumes "life_step t t'"
  shows "(\<exists>next. can_move_to (tk_state t) next \<and> tk_state t' = next \<and> tk_history t' = tk_history t @ [next])
      \<or> (tk_state t' = tk_state t \<and> tk_history t' = tk_history t)"
    and "tk_depth t' = tk_depth t" "sorted (map fst (tk_usage t)) \<Longrightarrow> sorted (map fst (tk_usage t'))"
  using assms
  by (auto elim!: life_stepE dest!: transition_Ok simp: record_step_def record_approval_def Let_def
      charge_model_def absorb_usage_def sorted_usage_entry sorted_absorb_usage)

text \<open>The operations, and being given up.\<close>

inductive task_move :: "task \<Rightarrow> task \<Rightarrow> bool" where
  tm_life: "life_step t t' \<Longrightarrow> task_move t t'"
| tm_fail: "task_move t (fail_task why t)"

inductive_cases task_moveE: "task_move t t'"

lemma life_step_ok: "life_step t t' \<Longrightarrow> task_ok t \<Longrightarrow> task_ok t'"
  using life_step_cases [of t t'] by (auto simp: task_ok_def successively_append_iff may_follow_def)

lemma fail_task_ok [simp]: "task_ok t \<Longrightarrow> task_ok (fail_task why t)"
  by (auto simp: task_ok_def fail_task_def successively_append_iff may_follow_def)

lemma fail_task_fields [simp]: "tk_state (fail_task why t) = Failed" "tk_id (fail_task why t) = tk_id t"
  by (simp_all add: fail_task_def)

interpretation life: transition task_move task_ok
  by unfold_locales (auto elim!: task_moveE intro: life_step_ok)

text \<open>A history made by operations alone follows the table of transitions.\<close>

definition by_the_table :: "task \<Rightarrow> bool" where
  "by_the_table t \<longleftrightarrow> tk_history t \<noteq> [] \<and> last (tk_history t) = tk_state t
     \<and> successively can_move_to (tk_history t)"

interpretation table: transition life_step by_the_table
proof
  fix t t'
  assume "life_step t t'" "by_the_table t"
  then show "by_the_table t'"
    using life_step_cases(1) [of t t'] by (auto simp: by_the_table_def successively_append_iff)
qed

lemma task_new_ok: "task_ok (task_new i intent agent user b created)"
  by (simp add: task_ok_def task_new_def)

lemma spawn_child_ok: "spawn_child i intent fraction created t = Ok c \<Longrightarrow> task_ok c"
  by (auto simp: spawn_child_def task_ok_def task_new_def split: if_splits)

text \<open>
  C25. Every task that exists is well formed: its history starts at Pending and ends in its state, its
  depth is at most 3 and its account of usage is sorted by model. This holds for a root task and for
  every child that \<open>spawn_child\<close> gives, after any spending, transitions and usage taken over from
  others, and any number of times the task is given up as failed. Every move of the history is one
  the table of transitions allows, or such a giving up; without one, every move is allowed.
\<close>
theorem tasks_well_formed:
  assumes "t = task_new i intent agent user b created \<or> spawn_child i intent fraction created p = Ok t"
    and "task_move\<^sup>*\<^sup>* t t'"
  shows "hd (tk_history t') = Pending \<and> last (tk_history t') = tk_state t'
    \<and> (\<forall>n. n + 1 < length (tk_history t') \<longrightarrow>
         tk_history t' ! (n + 1) \<in> insert Failed (set (allowed_next (tk_history t' ! n))))
    \<and> (life_step\<^sup>*\<^sup>* t t' \<longrightarrow> (\<forall>n. n + 1 < length (tk_history t') \<longrightarrow>
         tk_history t' ! (n + 1) \<in> set (allowed_next (tk_history t' ! n))))
    \<and> tk_depth t' \<le> 3 \<and> sorted (map fst (tk_usage t'))"
proof -
  from assms(1) have "task_ok t" by (auto simp: task_new_ok dest: spawn_child_ok)
  with assms(2) have ok: "task_ok t'" by (rule life.reach_inv)
  from assms(1) have "by_the_table t"
    by (auto simp: by_the_table_def spawn_child_def task_new_def split: if_splits)
  then have strict: "life_step\<^sup>*\<^sup>* t t' \<Longrightarrow> by_the_table t'" by (rule table.reach_inv [rotated])
  show ?thesis
    using ok strict
    by (auto simp: task_ok_def by_the_table_def MAX_DEPTH_def successively_conv_nth can_move_to_def may_follow_def)
qed

text \<open>
  Through its own operations a settled task stays settled: from a task that is done, failed, cancelled or rolled back, the
  only state it can ever reach besides its own is the rollback of a task that was done, and its
  history grows by at most one state.
\<close>
theorem settled_is_final:
  assumes "is_terminal (tk_state t)" "life_step\<^sup>*\<^sup>* t t'"
  shows "(tk_state t' = tk_state t \<and> tk_history t' = tk_history t)
    \<or> (tk_state t = Done \<and> tk_state t' = RolledBack \<and> tk_history t' = tk_history t @ [RolledBack])"
  using assms(2)
proof (induction rule: rtranclp_induct)
  case (step u v)
  have moves: "can_move_to s n \<longleftrightarrow> s = Done \<and> n = RolledBack" if "is_terminal s" for s n
    using that by (auto simp: is_terminal_def can_move_to_def)
  have settled: "is_terminal (tk_state u)" using step(3) assms(1) by (auto simp: is_terminal_def)
  from life_step_cases(1) [OF step(2)] have "tk_state v = tk_state u \<and> tk_history v = tk_history u
      \<or> tk_state u = Done \<and> tk_state v = RolledBack \<and> tk_history v = tk_history u @ [RolledBack]"
    using moves [OF settled] by (elim disjE exE conjE) simp_all
  with step(3) show ?case by (elim disjE conjE) simp_all
qed simp

text \<open>
  No task is stuck: while a task is not settled it can be cancelled at once, and there is a
  sequence of transitions that leads it to the end of its work.
\<close>
theorem no_task_stuck:
  assumes "\<not> is_terminal (tk_state t)"
  shows "(\<exists>t'. transition Cancelled reason t = Ok t' \<and> tk_reason t' = reason)
    \<and> (\<exists>t'. life_step\<^sup>*\<^sup>* t t' \<and> tk_state t' = Done)"
proof
  show "\<exists>t'. transition Cancelled reason t = Ok t' \<and> tk_reason t' = reason"
    using assms by (cases "tk_state t") (simp_all add: transition_def can_move_to_def is_terminal_def)
  have move: "\<exists>t'. life_step u t' \<and> tk_state t' = n" if "can_move_to (tk_state u) n" for u n
    using that ls_transition [of n None u] by (force simp: transition_def)
  have run: "\<exists>t'. life_step\<^sup>*\<^sup>* u t' \<and> tk_state t' = Done" if "tk_state u = Running" for u
    using move [of u Done] that by (auto simp: can_move_to_def)
  have via: "\<exists>t'. life_step\<^sup>*\<^sup>* u t' \<and> tk_state t' = Done" if "can_move_to (tk_state u) Running" for u
    using move [OF that] run by (meson converse_rtranclp_into_rtranclp)
  have pend: "\<exists>t'. life_step\<^sup>*\<^sup>* u t' \<and> tk_state t' = Done" if "tk_state u = Pending" for u
  proof -
    from that have "can_move_to (tk_state u) Planned" by (simp add: can_move_to_def)
    from move [OF this] obtain v where "life_step u v" "tk_state v = Planned" by blast
    with via [of v] show ?thesis by (auto simp: can_move_to_def intro: converse_rtranclp_into_rtranclp)
  qed
  show "\<exists>t'. life_step\<^sup>*\<^sup>* t t' \<and> tk_state t' = Done"
    using assms run [of t] via [of t] pend [of t]
    by (cases "tk_state t") (simp_all add: is_terminal_def can_move_to_def)
qed

section \<open>Spending\<close>

text \<open>Steps one after the other, up to the first refusal.\<close>

fun record_steps :: "(nat \<times> nat \<times> double) list \<Rightarrow> task \<Rightarrow> task \<times> (task_error + unit)" where
  "record_steps [] t = (t, Ok ())"
| "record_steps ((tokens, elapsed, cost) # cs) t =
     (case record_step tokens elapsed cost t of
        (t', Inl e) \<Rightarrow> (t', Err e) | (t', Inr _) \<Rightarrow> record_steps cs t')"

abbreviation steps_left :: "task \<Rightarrow> nat" where
  "steps_left t \<equiv> li_steps (bu_limits (tk_budget t)) - sp_steps (bu_spent (tk_budget t))"

lemma exhausted_None: "exhausted b = None \<Longrightarrow> sp_steps (bu_spent b) < li_steps (bu_limits b)"
  by (auto simp: exhausted_def Let_def split: if_splits)

lemma record_step_Ok:
  assumes "record_step tokens elapsed cost t = (t', Ok ())" "li_steps (bu_limits (tk_budget t)) < 4294967296"
    and "sp_steps (bu_spent (tk_budget t)) < 4294967295"
  shows "sp_steps (bu_spent (tk_budget t')) = sp_steps (bu_spent (tk_budget t)) + 1"
    "sp_steps (bu_spent (tk_budget t')) < li_steps (bu_limits (tk_budget t'))"
    "bu_limits (tk_budget t') = bu_limits (tk_budget t)"
proof -
  let ?b = "tk_budget t'"
  from assms(1) have ex: "exhausted ?b = None" and lim: "bu_limits ?b = bu_limits (tk_budget t)"
    and "sp_steps (bu_spent ?b) = add32 (sp_steps (bu_spent (tk_budget t))) 1"
    by (auto simp: record_step_def Let_def split: option.splits)
  with exhausted_None [OF ex] assms(3) show "sp_steps (bu_spent ?b) = sp_steps (bu_spent (tk_budget t)) + 1"
    "sp_steps (bu_spent ?b) < li_steps (bu_limits ?b)" "bu_limits ?b = bu_limits (tk_budget t)"
    by (simp_all add: add32_def)
qed

text \<open>
  C26. The budget stops every task: whatever the charges, once as many steps are recorded as the limit
  leaves (at least one), a step is refused with an exhausted dimension.
\<close>
theorem budget_stops_task:
  assumes "li_steps (bu_limits (tk_budget t)) < 4294967296" "sp_steps (bu_spent (tk_budget t)) < 4294967295"
    and "cs \<noteq> []" "steps_left t \<le> length cs"
  shows "\<exists>t' d. record_steps cs t = (t', Err (BudgetExhausted d))"
  using assms
proof (induction cs arbitrary: t)
  case (Cons c cs)
  obtain tokens elapsed cost where c: "c = (tokens, elapsed, cost)" by (cases c)
  obtain t' r where s: "record_step tokens elapsed cost t = (t', r)"
    by (cases "record_step tokens elapsed cost t")
  show ?case
  proof (cases r)
    case (Inl e)
    with s show ?thesis by (auto simp: c record_step_def Let_def split: option.splits)
  next
    case (Inr u)
    with s record_step_Ok [of tokens elapsed cost t t'] Cons.prems(1,2) have n:
      "sp_steps (bu_spent (tk_budget t')) = sp_steps (bu_spent (tk_budget t)) + 1"
      "sp_steps (bu_spent (tk_budget t')) < li_steps (bu_limits (tk_budget t'))"
      "bu_limits (tk_budget t') = bu_limits (tk_budget t)"
      by auto
    with Cons.prems have "cs \<noteq> []" "steps_left t' \<le> length cs" by auto
    with n Cons.prems Cons.IH [of t'] s Inr show ?thesis by (simp add: c)
  qed
qed simp

lemma clamp_unit: "0 \<le> f64_clamp 0 1 f" "f64_clamp 0 1 f \<le> 1"
  by (simp_all add: f64_clamp_def)

text \<open>
  A share of a budget is within what is left: for any fraction, even outside 0 to 1, a child's
  limits in tokens, time, steps and approvals are at most what its parent has left, rounding included
  (for budgets below 2^53, where \<open>f64\<close> is exact on integers).
\<close>
theorem reserve_within_remaining:
  assumes "li_tokens (bu_limits b) < 2 ^ 53" "li_wall_time_s (bu_limits b) < 2 ^ 53"
    and "li_steps (bu_limits b) < 2 ^ 32" "li_approvals (bu_limits b) < 2 ^ 32"
  shows "let l = bu_limits b; s = bu_spent b; c = reserve b fraction
    in li_tokens (bu_limits c) \<le> li_tokens l - sp_tokens s
     \<and> li_wall_time_s (bu_limits c) \<le> li_wall_time_s l - sp_wall_time_s s
     \<and> li_steps (bu_limits c) \<le> li_steps l - sp_steps s
     \<and> li_approvals (bu_limits c) \<le> li_approvals l - sp_approvals s
     \<and> bu_spent c = default_spent"
proof -
  note share = share_le [OF _ clamp_unit]
  have "cast_unsigned n (fl (f64_of_nat (a - k) * f64_clamp 0 1 fraction)) \<le> a - k"
    if "a < 2 ^ 53" for n a k
    using that by (intro share) simp
  note this [OF assms(1)] this [OF assms(2)] this [of "li_steps (bu_limits b)"]
    this [of "li_approvals (bu_limits b)"]
  with assms(3,4) show ?thesis
    by (simp add: Let_def reserve_def budget_new_def cast_u64_def as_u32_def default_spent_def)
qed

section \<open>Concrete inputs\<close>

definition demo_task :: task where
  "demo_task = task_new ''task:01'' ''rapport'' ''org.test.agent'' ''u'' (budget_new default_limits) 0"

definition moved :: "state \<Rightarrow> task \<Rightarrow> task" where
  "moved n t = (case transition n None t of Inr t' \<Rightarrow> t' | Inl _ \<Rightarrow> t)"

lemma life_step_moved: "can_move_to (tk_state t) n \<Longrightarrow> life_step t (moved n t)"
  by (rule ls_transition [of n None]) (simp add: moved_def transition_def)

theorem tasks_well_formed_witness:
  "last (tk_history (fail_task ''journal'' (moved Running (moved Planned demo_task)))) = Failed
   \<and> tk_history (moved Running (moved Planned demo_task)) ! 2 \<in> set (allowed_next Planned)
   \<and> tk_depth (fail_task ''journal'' (moved Running (moved Planned demo_task))) \<le> 3"
proof -
  let ?t = "moved Running (moved Planned demo_task)"
  have life: "life_step demo_task (moved Planned demo_task)" "life_step (moved Planned demo_task) ?t"
    by (rule life_step_moved,
        simp add: demo_task_def task_new_def moved_def transition_def can_move_to_def)+
  have hist: "tk_history ?t = [Pending, Planned, Running]"
    by (simp add: demo_task_def task_new_def moved_def transition_def can_move_to_def)
  from life have runs: "life_step\<^sup>*\<^sup>* demo_task ?t" by simp
  from life have moves: "task_move\<^sup>*\<^sup>* demo_task ?t" by (meson tm_life converse_rtranclp_into_rtranclp r_into_rtranclp)
  then have fails: "task_move\<^sup>*\<^sup>* demo_task (fail_task ''journal'' ?t)"
    by (rule rtranclp.rtrancl_into_rtrancl) (rule tm_fail)
  from tasks_well_formed [OF disjI1, of demo_task, OF demo_task_def moves] runs hist
  have "\<forall>n. n + 1 < 3 \<longrightarrow> [Pending, Planned, Running] ! (n + 1) \<in> set (allowed_next ([Pending, Planned, Running] ! n))"
    by simp
  from spec [OF this, of 1] have "tk_history ?t ! 2 \<in> set (allowed_next Planned)" by (simp add: hist numeral_2_eq_2)
  with tasks_well_formed [OF disjI1, of demo_task, OF demo_task_def fails] show ?thesis by simp
qed

theorem settled_is_final_witness:
  "tk_state (moved RolledBack (demo_task\<lparr>tk_state := Done\<rparr>)) = RolledBack"
proof -
  let ?t = "demo_task\<lparr>tk_state := Done\<rparr>"
  have "life_step\<^sup>*\<^sup>* ?t (moved RolledBack ?t)"
    by (intro r_into_rtranclp life_step_moved) (simp add: can_move_to_def)
  moreover have "tk_history (moved RolledBack ?t) \<noteq> tk_history ?t"
    by (simp add: moved_def transition_def can_move_to_def)
  ultimately show ?thesis
    using settled_is_final [of ?t "moved RolledBack ?t"] by (simp add: is_terminal_def)
qed

theorem no_task_stuck_witness:
  "\<exists>t'. life_step\<^sup>*\<^sup>* demo_task t' \<and> tk_state t' = Done"
  using no_task_stuck [of demo_task] by (simp add: demo_task_def task_new_def is_terminal_def)

theorem budget_stops_task_witness:
  "\<exists>t' d. record_steps [(10, 1, 0), (10, 2, 0)]
     (demo_task\<lparr>tk_budget := budget_new (default_limits\<lparr>li_steps := 2\<rparr>)\<rparr>) = (t', Err (BudgetExhausted d))"
  by (rule budget_stops_task) (simp_all add: demo_task_def budget_new_def default_limits_def)

theorem reserve_within_remaining_witness:
  "li_tokens (bu_limits (reserve (budget_new default_limits) (1 / 2))) \<le> 200000"
  using reserve_within_remaining [of "budget_new default_limits" "1 / 2"]
  by (simp add: budget_new_def default_limits_def Let_def)

end
