(* ===== verification/Selection.thy ===== *)
theory Selection
  imports Manifest F64
begin

text \<open>
  Which driver or model does a task get (\<^verbatim>\<open>crates/providers/src/selection.rs\<close>, \<open>resolve\<close> of
  \<^verbatim>\<open>crates/agentd/src/relay.rs\<close>), and the contract of drivers
  (\<^verbatim>\<open>crates/prophet-types/src/driver.rs\<close>). The reasons shown to the human are constructors where
  the code has sentences.
\<close>

section \<open>Preferences\<close>

record availability =
  av_logged_in_drivers :: "string list"
  av_local_models :: "string list"
  av_exhausted_drivers :: "string list"
  av_api_providers :: "string list"

datatype choice_reason = LocalModel string | Subscription string | ApiProvider string | Routed string

record choice =
  co_reference :: string
  co_reason :: choice_reason

datatype no_choice = LocalRequiredButAbsent | NothingAvailable "string list"

text \<open>The arm of the \<open>match\<close> for one reference, \<open>None\<close> for \<open>continue\<close>.\<close>

definition candidate :: "manifest \<Rightarrow> availability \<Rightarrow> string \<Rightarrow> choice option" where
  "candidate m a reference =
     (case split_once CHR '':'' reference of
        None \<Rightarrow> None
      | Some (kind, rest) \<Rightarrow>
          if kind = ''local'' \<and> rest \<in> set (av_local_models a)
          then Some \<lparr>co_reference = reference, co_reason = LocalModel rest\<rparr>
          else if kind = ''driver'' \<and> mo_privacy (m_model m) \<noteq> LocalOnly then
            (let client = hd (str_split CHR ''@'' rest)
             in if client \<in> set (av_exhausted_drivers a) \<or> client \<notin> set (av_logged_in_drivers a)
                then None
                else Some \<lparr>co_reference = reference, co_reason = Subscription client\<rparr>)
          else if kind = ''api'' \<and> mo_privacy (m_model m) \<noteq> LocalOnly then
            (let provider = hd (str_split CHR '':'' rest)
             in if provider \<notin> set (av_api_providers a) then None
                else Some \<lparr>co_reference = reference, co_reason = ApiProvider provider\<rparr>)
          else None)"

fun candidates :: "manifest \<Rightarrow> availability \<Rightarrow> string list \<Rightarrow> choice list" where
  "candidates m a [] = []"
| "candidates m a (r # rs) =
     (case candidate m a r of None \<Rightarrow> candidates m a rs | Some c \<Rightarrow> c # candidates m a rs)"

definition eligible :: "manifest \<Rightarrow> availability \<Rightarrow> choice list \<times> string list" where
  "eligible m a = (candidates m a (mo_preferred (m_model m)), mo_preferred (m_model m))"

definition choose_driver :: "manifest \<Rightarrow> availability \<Rightarrow> no_choice + choice" where
  "choose_driver m a =
     (case eligible m a of
        (first # _, _) \<Rightarrow> Ok first
      | ([], tried) \<Rightarrow>
          if mo_privacy (m_model m) = LocalOnly \<and> av_local_models a = []
          then Err LocalRequiredButAbsent else Err (NothingAvailable tried))"

datatype quota_policy = Queue | FallbackLocal | FailNow

section \<open>Roles of a relay\<close>

datatype relay_error = UnknownRole string | RoleUndefined string | NoModelAvailable string "string list"

definition model_present :: "string list \<Rightarrow> string list \<Rightarrow> string \<Rightarrow> bool" where
  "model_present available drivers reference \<longleftrightarrow>
     (case strip_prefix ''local:'' reference of Some name \<Rightarrow> name \<in> set available | None \<Rightarrow> False)
   \<or> (case strip_prefix ''driver:'' reference of
        Some name \<Rightarrow> hd (str_split CHR ''@'' name) \<in> set drivers | None \<Rightarrow> False)"

text \<open>Lower case only matters for the comparison with the four roles, which are ASCII.\<close>

definition resolve_role ::
    "(string, string list) amap \<Rightarrow> string \<Rightarrow> string list \<Rightarrow> string list \<Rightarrow> relay_error + string" where
  "resolve_role roles role0 available drivers =
     (let role = to_ascii_lowercase (trim role0)
      in if role \<notin> set MODEL_ROLES then Err (UnknownRole role)
         else case map_of roles role of
                None \<Rightarrow> Err (RoleUndefined role)
              | Some models \<Rightarrow>
                  if models = [] then Err (RoleUndefined role)
                  else (case List.find (model_present available drivers) models of
                          Some m \<Rightarrow> Ok m
                        | None \<Rightarrow> Err (NoModelAvailable role models)))"

section \<open>Drivers\<close>

datatype run_status = RunOk | RunFailed | RunCancelled

datatype tool_via = Mcp | Builtin

datatype driver_event =
  EvStep nat "string option"
| EvToolCall string string tool_via
| EvToolResult string bool "string option"
| EvText string string
| EvPermissionRequest string string string "string option"
| EvUsage "nat option" "nat option" "double option" "double option"
| EvCheckpoint string
| EvDone run_status "string option" string

definition event_is_terminal :: "driver_event \<Rightarrow> bool" where
  "event_is_terminal e \<longleftrightarrow> (case e of EvDone _ _ _ \<Rightarrow> True | _ \<Rightarrow> False)"

record sandbox_request =
  sr_level :: nat
  sr_profile :: string

record driver_limits =
  dl_wall_time_s :: nat
  dl_max_steps :: nat

record start_request =
  st_driver :: string
  st_task :: string
  st_intent :: string
  st_workdir :: string
  st_mcp_config :: string
  st_token :: string
  st_sandbox :: sandbox_request
  st_limits :: driver_limits
  st_resume :: "string option"

record start_response =
  sp_run :: string
  sp_session_ref :: string

text \<open>The level of isolation (\<open>required_level\<close> of \<^verbatim>\<open>crates/sandboxd/src/manager.rs\<close>).\<close>

definition required_level :: "nat \<Rightarrow> nat \<Rightarrow> bool \<Rightarrow> nat" where
  "required_level manifest_min token_min executes_code =
     (let base = max manifest_min token_min in if executes_code then max base 2 else base)"

section \<open>Properties\<close>

definition reference_kind :: "string \<Rightarrow> string" where
  "reference_kind r = (case split_once CHR '':'' r of Some (k, _) \<Rightarrow> k | None \<Rightarrow> [])"

lemma candidate_Some:
  assumes "candidate m a r = Some c"
  shows "co_reference c = r \<and> (mo_privacy (m_model m) = LocalOnly \<longrightarrow> reference_kind r = ''local'')"
  using assms
  by (auto simp: candidate_def reference_kind_def Let_def split: option.splits if_splits prod.splits)

lemma candidates_spec: "map co_reference (candidates m a rs) = filter (\<lambda>r. candidate m a r \<noteq> None) rs"
  by (induction rs) (auto dest: candidate_Some split: option.splits)

text \<open>
  What a manifest allows decides what may run: the driver chosen is the first preference of the
  manifest that is available, there is a choice exactly when one is, and under a local-only policy
  no reference that can be chosen is anything but a local model.
\<close>
theorem choose_spec:
  "(case filter (\<lambda>r. candidate m a r \<noteq> None) (mo_preferred (m_model m)) of
      r # _ \<Rightarrow> \<exists>c. choose_driver m a = Ok c \<and> candidate m a r = Some c \<and> co_reference c = r
    | [] \<Rightarrow> \<exists>e. choose_driver m a = Err e)
   \<and> {c \<in> set (fst (eligible m a)).
        mo_privacy (m_model m) = LocalOnly \<and> reference_kind (co_reference c) \<noteq> ''local''} = {}"
proof -
  have first: "(case filter (\<lambda>r. candidate m a r \<noteq> None) rs of
      r # _ \<Rightarrow> \<exists>c cs. candidates m a rs = c # cs \<and> candidate m a r = Some c \<and> co_reference c = r
    | [] \<Rightarrow> candidates m a rs = [])" for rs
    by (induction rs) (auto dest: candidate_Some split: list.splits option.splits)
  have "reference_kind (co_reference c) = ''local''"
    if "c \<in> set (candidates m a rs)" "mo_privacy (m_model m) = LocalOnly" for c rs
    using that by (induction rs) (auto dest: candidate_Some split: option.splits)
  with first [of "mo_preferred (m_model m)"] show ?thesis
    by (auto simp: choose_driver_def eligible_def split: list.splits)
qed

end
