(* ===== verification/Sfs_Diff.thy ===== *)
theory Sfs_Diff
  imports Prophet_Prelude
begin

text \<open>
  What a mission changed (\<^verbatim>\<open>crates/sfs/src/diff.rs\<close>, and the index of \<^verbatim>\<open>review.rs\<close>): the comparison of
  the fingerprints taken at its start with those of its work tree, the index kept with its result,
  and the text shown to the human. A relative path is the list of its components, compared one by
  one as \<open>Path\<close> does. Walking a tree and reading files are I/O: the fingerprints are arguments.
\<close>

type_synonym path = "string list"

record fingerprint =
  fp_hash :: string
  fp_size :: nat
  fp_mode :: nat

type_synonym fingerprints = "(path, fingerprint) amap"

datatype change_kind = Added | Modified | Deleted

record change =
  ch_path :: path
  ch_kind :: change_kind
  ch_size_before :: "nat option"
  ch_size_after :: "nat option"

record diff =
  df_changes :: "change list"

definition diff_is_empty :: "diff \<Rightarrow> bool" where
  "diff_is_empty d \<longleftrightarrow> df_changes d = []"

definition diff_counts :: "diff \<Rightarrow> nat \<times> nat \<times> nat" where
  "diff_counts d =
     foldl (\<lambda>(a, m, r) c. case ch_kind c of
        Added \<Rightarrow> (a + 1, m, r) | Modified \<Rightarrow> (a, m + 1, r) | Deleted \<Rightarrow> (a, m, r + 1))
       (0, 0, 0) (df_changes d)"

definition bytes_written :: "diff \<Rightarrow> nat" where
  "bytes_written d = sum_list (concat (map (\<lambda>c. case ch_size_after c of None \<Rightarrow> [] | Some n \<Rightarrow> [n])
     (df_changes d)))"

section \<open>Comparison\<close>

definition current_change :: "fingerprints \<Rightarrow> path \<times> fingerprint \<Rightarrow> change list" where
  "current_change base pn = (case pn of (p, now) \<Rightarrow>
     (case map_of base p of
        None \<Rightarrow> [\<lparr>ch_path = p, ch_kind = Added, ch_size_before = None, ch_size_after = Some (fp_size now)\<rparr>]
      | Some before \<Rightarrow>
          if fp_hash before \<noteq> fp_hash now \<or> fp_mode before \<noteq> fp_mode now
          then [\<lparr>ch_path = p, ch_kind = Modified, ch_size_before = Some (fp_size before),
                 ch_size_after = Some (fp_size now)\<rparr>]
          else []))"

definition base_change :: "fingerprints \<Rightarrow> path \<times> fingerprint \<Rightarrow> change list" where
  "base_change current pb = (case pb of (p, before) \<Rightarrow>
     if contains_key p current then []
     else [\<lparr>ch_path = p, ch_kind = Deleted, ch_size_before = Some (fp_size before), ch_size_after = None\<rparr>])"

definition diff_compute :: "fingerprints \<Rightarrow> fingerprints \<Rightarrow> diff" where
  "diff_compute base current =
     \<lparr>df_changes = sort_key ch_path
        (concat (map (current_change base) current) @ concat (map (base_change current) base))\<rparr>"

section \<open>The index kept with the result\<close>

record entry =
  en_path :: path
  en_before :: "fingerprint option"
  en_after :: "fingerprint option"

definition entry_kind :: "entry \<Rightarrow> change_kind" where
  "entry_kind e = (case (en_before e, en_after e) of
     (None, _) \<Rightarrow> Added | (_, None) \<Rightarrow> Deleted | _ \<Rightarrow> Modified)"

record review_index =
  ri_entries :: "entry list"

text \<open>The end of \<open>seal\<close>, once the work tree is read.\<close>

definition index_of :: "fingerprints \<Rightarrow> fingerprints \<Rightarrow> review_index" where
  "index_of base current =
     \<lparr>ri_entries = concat (map (\<lambda>p.
        let before = map_of base p; after = map_of current p
        in if before \<noteq> after then [\<lparr>en_path = p, en_before = before, en_after = after\<rparr>] else [])
      (sorted_list_of_set (fst ` set base \<union> fst ` set current)))\<rparr>"

definition index_diff :: "review_index \<Rightarrow> diff" where
  "index_diff r = \<lparr>df_changes = map (\<lambda>e. \<lparr>ch_path = en_path e, ch_kind = entry_kind e,
     ch_size_before = map_option fp_size (en_before e),
     ch_size_after = map_option fp_size (en_after e)\<rparr>) (ri_entries r)\<rparr>"

section \<open>The text\<close>

definition join_path :: "path \<Rightarrow> string" where
  "join_path p = (case p of [] \<Rightarrow> [] | c # cs \<Rightarrow> c @ concat (map (\<lambda>d. ''/'' @ d) cs))"

definition mark_of :: "change_kind \<Rightarrow> string" where
  "mark_of k = (case k of Added \<Rightarrow> ''+'' | Modified \<Rightarrow> ''~'' | Deleted \<Rightarrow> ''-'')"

definition size_text :: "change \<Rightarrow> string" where
  "size_text c = (case (ch_size_before c, ch_size_after c) of
     (Some b, Some a) \<Rightarrow> show_nat b @ '' '' @ [CHR 0xE2, CHR 0x86, CHR 0x92] @ '' '' @ show_nat a @ '' o''
   | (None, Some a) \<Rightarrow> show_nat a @ '' o''
   | (Some b, None) \<Rightarrow> show_nat b @ '' o supprim'' @ [CHR 0xC3, CHR 0xA9] @ ''s''
   | (None, None) \<Rightarrow> [])"

definition change_line :: "change \<Rightarrow> string" where
  "change_line c = mark_of (ch_kind c) @ '' '' @ join_path (ch_path c) @ ''  '' @ size_text c @ [CHR 0x0A]"

definition render_limited :: "nat \<Rightarrow> diff \<Rightarrow> string" where
  "render_limited n d =
     (if diff_is_empty d then ''aucun changement'' @ [CHR 0x0A]
      else
        let reste = length (df_changes d) - n
        in concat (map change_line (take n (df_changes d)))
         @ (if 0 < reste then [CHR 0xE2, CHR 0x80, CHR 0xA6] @ '' et '' @ show_nat reste
              @ '' autre(s) changement(s)'' @ [CHR 0x0A] else [])
         @ (case diff_counts d of (a, m, r) \<Rightarrow>
              [CHR 0x0A] @ show_nat a @ '' ajout'' @ [CHR 0xC3, CHR 0xA9] @ ''(s), ''
              @ show_nat m @ '' modifi'' @ [CHR 0xC3, CHR 0xA9] @ ''(s), ''
              @ show_nat r @ '' supprim'' @ [CHR 0xC3, CHR 0xA9] @ ''(s)'' @ [CHR 0x0A]))"

section \<open>Both comparisons agree\<close>

definition same_version :: "fingerprint \<Rightarrow> fingerprint \<Rightarrow> bool" where
  "same_version a b \<longleftrightarrow> fp_hash a = fp_hash b \<and> fp_mode a = fp_mode b"

lemma current_changes:
  assumes "distinct_keys current"
  shows "c \<in> set (concat (map (current_change base) current)) \<longleftrightarrow>
    (\<exists>now. map_of current (ch_path c) = Some now \<and> current_change base (ch_path c, now) = [c])"
proof
  assume "c \<in> set (concat (map (current_change base) current))"
  then obtain p now where "(p, now) \<in> set current" "c \<in> set (current_change base (p, now))" by auto
  moreover from this(2) have "current_change base (p, now) = [c]" "ch_path c = p"
    by (auto simp: current_change_def split: option.splits if_splits)
  ultimately show "\<exists>now. map_of current (ch_path c) = Some now \<and> current_change base (ch_path c, now) = [c]"
    using assms by (auto simp: map_of_in_set)
next
  assume "\<exists>now. map_of current (ch_path c) = Some now \<and> current_change base (ch_path c, now) = [c]"
  then show "c \<in> set (concat (map (current_change base) current))"
    by (force dest: map_of_SomeD)
qed

lemma base_changes:
  assumes "distinct_keys base"
  shows "c \<in> set (concat (map (base_change current) base)) \<longleftrightarrow>
    (\<exists>b. map_of base (ch_path c) = Some b \<and> base_change current (ch_path c, b) = [c])"
proof
  assume "c \<in> set (concat (map (base_change current) base))"
  then obtain p b where "(p, b) \<in> set base" "c \<in> set (base_change current (p, b))" by auto
  moreover from this(2) have "base_change current (p, b) = [c]" "ch_path c = p"
    by (auto simp: base_change_def split: if_splits)
  ultimately show "\<exists>b. map_of base (ch_path c) = Some b \<and> base_change current (ch_path c, b) = [c]"
    using assms by (auto simp: map_of_in_set)
next
  assume "\<exists>b. map_of base (ch_path c) = Some b \<and> base_change current (ch_path c, b) = [c]"
  then show "c \<in> set (concat (map (base_change current) base))"
    by (force dest: map_of_SomeD)
qed

lemma current_paths: "map ch_path (concat (map (current_change base) current))
    = map fst (filter (\<lambda>pn. current_change base pn \<noteq> []) current)"
  by (induction current) (auto simp: current_change_def split: option.splits if_splits)

lemma base_paths: "map ch_path (concat (map (base_change current) base))
    = map fst (filter (\<lambda>pb. base_change current pb \<noteq> []) base)"
  by (induction base) (auto simp: base_change_def)

lemma distinct_changes:
  assumes "distinct_keys base" "distinct_keys current"
  shows "distinct (map ch_path (concat (map (current_change base) current)
    @ concat (map (base_change current) base)))"
proof -
  have "distinct (map fst (filter P m))" if "distinct_keys m" for P :: "path \<times> fingerprint \<Rightarrow> bool" and m
    using that by (simp add: distinct_keys_def distinct_map_filter)
  then show ?thesis
    using assms
    by (simp only: map_append distinct_append current_paths base_paths)
      (force simp: base_change_def contains_key_iff split: if_splits)
qed

definition differing :: "fingerprints \<Rightarrow> fingerprints \<Rightarrow> path list" where
  "differing base current = filter (\<lambda>p. map_of base p \<noteq> map_of current p)
     (sorted_list_of_set (fst ` set base \<union> fst ` set current))"

lemma index_of_differing:
  "ri_entries (index_of base current)
     = map (\<lambda>p. \<lparr>en_path = p, en_before = map_of base p, en_after = map_of current p\<rparr>) (differing base current)"
proof -
  have "concat (map (\<lambda>p. let before = map_of base p; after = map_of current p
          in if before \<noteq> after then [\<lparr>en_path = p, en_before = before, en_after = after\<rparr>] else []) ps)
      = map (\<lambda>p. \<lparr>en_path = p, en_before = map_of base p, en_after = map_of current p\<rparr>)
          (filter (\<lambda>p. map_of base p \<noteq> map_of current p) ps)" for ps
    by (induction ps) (simp_all add: Let_def)
  then show ?thesis by (simp add: index_of_def differing_def)
qed

lemma set_differing: "p \<in> set (differing base current) \<longleftrightarrow> map_of base p \<noteq> map_of current p"
proof -
  have "p \<in> fst ` set m \<longleftrightarrow> map_of m p \<noteq> None" for m :: fingerprints
    by (simp add: map_of_eq_None_iff)
  then show ?thesis by (auto simp: differing_def)
qed

text \<open>
  C27. The two comparisons agree: the diff computed against the work tree and the one read back from
  the index kept with the result are the same list, one change per path whose version differs, in
  the order of paths, provided a fingerprint is determined by its hash and mode.
\<close>
theorem diff_is_index_diff:
  assumes "distinct_keys base" "distinct_keys current"
    and "\<And>p a b. map_of base p = Some a \<Longrightarrow> map_of current p = Some b \<Longrightarrow> same_version a b \<Longrightarrow> a = b"
  shows "diff_compute base current = index_diff (index_of base current)
    \<and> map ch_path (df_changes (diff_compute base current)) = differing base current"
proof -
  let ?ys = "concat (map (current_change base) current) @ concat (map (base_change current) base)"
  let ?xs = "df_changes (index_diff (index_of base current))"
  have paths: "map ch_path ?xs = differing base current"
    by (simp add: index_diff_def index_of_differing comp_def)
  have "sort_key ch_path ?ys = ?xs"
  proof (rule sort_key_determined)
    show "distinct ?ys" using distinct_changes [OF assms(1,2)] by (simp only: distinct_map)
    show "sorted (map ch_path ?xs)" "distinct (map ch_path ?xs)"
      by (simp_all only: paths) (simp_all add: differing_def sorted_wrt_filter)
    have "c \<in> set ?xs \<longleftrightarrow> map_of base (ch_path c) \<noteq> map_of current (ch_path c)
        \<and> c = \<lparr>ch_path = ch_path c,
            ch_kind = entry_kind \<lparr>en_path = ch_path c, en_before = map_of base (ch_path c),
              en_after = map_of current (ch_path c)\<rparr>,
            ch_size_before = map_option fp_size (map_of base (ch_path c)),
            ch_size_after = map_option fp_size (map_of current (ch_path c))\<rparr>" for c
      by (auto simp: index_diff_def index_of_differing set_differing image_iff)
    moreover have "c \<in> set ?ys \<longleftrightarrow> map_of base (ch_path c) \<noteq> map_of current (ch_path c)
        \<and> c = \<lparr>ch_path = ch_path c,
            ch_kind = entry_kind \<lparr>en_path = ch_path c, en_before = map_of base (ch_path c),
              en_after = map_of current (ch_path c)\<rparr>,
            ch_size_before = map_option fp_size (map_of base (ch_path c)),
            ch_size_after = map_option fp_size (map_of current (ch_path c))\<rparr>" for c
    proof -
      have same: "same_version a b \<longleftrightarrow> a = b"
        if "map_of base (ch_path c) = Some a" "map_of current (ch_path c) = Some b" for a b
        using assms(3) [OF that] by (auto simp: same_version_def)
      show ?thesis
        unfolding set_append Un_iff current_changes [OF assms(2)] base_changes [OF assms(1)]
        using same
        by (cases "map_of base (ch_path c)"; cases "map_of current (ch_path c)")
          (auto simp: current_change_def base_change_def entry_kind_def contains_key_def same_version_def)
    qed
    ultimately show "set ?ys = set ?xs" by blast
  qed
  then have "diff_compute base current = index_diff (index_of base current)"
    by (simp add: diff_compute_def)
  with paths show ?thesis by simp
qed

definition demo_base :: fingerprints where
  "demo_base = [([''a''], \<lparr>fp_hash = ''h1'', fp_size = 3, fp_mode = 420\<rparr>),
     ([''b'', ''c''], \<lparr>fp_hash = ''h2'', fp_size = 4, fp_mode = 420\<rparr>)]"

definition demo_current :: fingerprints where
  "demo_current = [([''n''], \<lparr>fp_hash = ''h3'', fp_size = 1, fp_mode = 420\<rparr>),
     ([''a''], \<lparr>fp_hash = ''h1'', fp_size = 3, fp_mode = 493\<rparr>)]"

theorem diff_is_index_diff_witness:
  "diff_compute demo_base demo_current = index_diff (index_of demo_base demo_current)"
proof -
  have "diff_compute demo_base demo_current = index_diff (index_of demo_base demo_current)
    \<and> map ch_path (df_changes (diff_compute demo_base demo_current)) = differing demo_base demo_current"
    by (rule diff_is_index_diff)
      (auto simp: demo_base_def demo_current_def distinct_keys_def same_version_def split: if_splits)
  then show ?thesis by blast
qed

end
