(* ===== verification/Workspace_Types.thy ===== *)
theory Workspace_Types
  imports Sfs_Diff
begin

text \<open>
  What the runtime and the workspaces share: the state of a workspace (\<^verbatim>\<open>crates/sfs/src/workspace.rs\<close>), the
  status of its publication (\<^verbatim>\<open>publication.rs\<close>) and the provenance written on published files
  (\<^verbatim>\<open>provenance.rs\<close>).
\<close>

datatype workspace_state = WOpen | WApplying | WUndoing | WConflict | WCommitted | WRolledBack
  | WAbandoned

record pub_status =
  ps_state :: workspace_state
  ps_undoing :: bool
  ps_conflict :: "path option"
  ps_kept :: "path list"

record publication_provenance =
  pp_task :: string
  pp_agent :: string
  pp_step :: nat
  pp_model :: string

end
