(* ===== verification/Runtime.thy ===== *)
theory Runtime
  imports Broker Ledger_Event Task_Life Selection Workspace_Types
begin

text \<open>
  The task runtime (\<^verbatim>\<open>crates/agentd/src/runtime.rs\<close>): planning, starting, running a driver to its
  end, cancelling, children, publication and its rights, and what is kept for the journal. A driver
  is what it answers: its start and the batches of events it gives one poll after the other. Texts
  for the human are constructors, except those that reach the journal.
\<close>

section \<open>State\<close>

text \<open>What third-party code gives: blake3, fresh keys (ULID), JSON of a token and of a
  float, and the lower case of Unicode.\<close>

record runtime_env =
  re_crypto :: crypto
  re_blake3_hex :: "string \<Rightarrow> string"
  re_nouvelle_cle :: "nat \<Rightarrow> string"
  re_token_text :: "token \<Rightarrow> string option"
  re_float :: "double \<Rightarrow> json"
  re_lowercase :: "string \<Rightarrow> string"
  re_index_of_json :: "json \<Rightarrow> review_index option"

datatype decider = DeciderJev | DeciderStatic

record jev_usage =
  us_input_tokens :: nat
  us_output_tokens :: nat

record route =
  ro_choice :: choice
  ro_decider :: decider
  ro_model :: "string option"
  ro_probabilities :: "(string, double) amap"
  ro_confidence :: "double option"
  ro_difficulty :: "double option"
  ro_risk :: "double option"
  ro_usage :: jev_usage
  ro_fallback_reason :: "string option"

record task_plan =
  tp_task :: string
  tp_intent :: string
  tp_choice :: choice
  tp_sandbox_level :: nat
  tp_grants :: "string list"
  tp_limits :: limits
  tp_scopes :: "string list"
  tp_route :: "route option"
  tp_profile :: "string option"

datatype capability_error = ChildDepth nat | BadTaskId | MintFailed broker_error | NoTokenGiven
  | TokenMissing

datatype driver_refusal = NoDriverChoice no_choice | RouteInadmissible string | NotLaunchedHere

datatype runtime_error = RtTask task_error | RtCapability capability_error
  | RtNoDriver driver_refusal | RtDriver string | RtWorkspace | RtUnknown string

record plan_request =
  pq_id :: string
  pq_intent :: string
  pq_manifest :: manifest
  pq_user :: string
  pq_requested :: "grant list"
  pq_scopes :: "string list"
  pq_availability :: availability
  pq_route :: "route option"

record report =
  rp_task :: string
  rp_state :: state
  rp_driver :: string
  rp_steps :: nat
  rp_tool_calls :: nat
  rp_approvals :: nat
  rp_tokens :: nat
  rp_final_text :: "string option"
  rp_reason :: "string option"

text \<open>\<open>rt_keys\<close> counts the keys already drawn: it stands for the state of the generator.\<close>

record runtime =
  rt_broker :: "broker option"
  rt_home :: string
  rt_tasks :: "(string, task) amap"
  rt_tokens :: "(string, token) amap"
  rt_journal :: "draft list"
  rt_quota_policy :: quota_policy
  rt_plans :: "(string, task_plan) amap"
  rt_results :: "(string, json) amap"
  rt_owners :: "(string, nat) amap"
  rt_manifests :: "(string, manifest) amap"
  rt_keys :: nat

definition runtime_new :: "broker option \<Rightarrow> string \<Rightarrow> runtime" where
  "runtime_new B home = \<lparr>rt_broker = B, rt_home = home, rt_tasks = [], rt_tokens = [], rt_journal = [],
     rt_quota_policy = Queue, rt_plans = [], rt_results = [], rt_owners = [], rt_manifests = [],
     rt_keys = 0\<rparr>"

definition runtime_sans_broker :: "string \<Rightarrow> runtime" where
  "runtime_sans_broker home = runtime_new None home"

definition with_quota_policy :: "quota_policy \<Rightarrow> runtime \<Rightarrow> runtime" where
  "with_quota_policy q r = r\<lparr>rt_quota_policy := q\<rparr>"

text \<open>What is kept from one start to the next.\<close>

record etat_persistant =
  ep_taches :: "task list"
  ep_jetons :: "(string, token) amap"
  ep_plans :: "(string, task_plan) amap"
  ep_results :: "(string, json) amap"
  ep_owners :: "(string, nat) amap"
  ep_manifests :: "(string, manifest) amap"
  ep_journal :: "draft list"

definition etat :: "runtime \<Rightarrow> etat_persistant" where
  "etat r = \<lparr>ep_taches = map snd (rt_tasks r), ep_jetons = rt_tokens r, ep_plans = rt_plans r,
     ep_results = rt_results r, ep_owners = rt_owners r, ep_manifests = rt_manifests r,
     ep_journal = rt_journal r\<rparr>"

definition bt_extend :: "('k::linorder, 'v) amap \<Rightarrow> ('k, 'v) amap \<Rightarrow> ('k, 'v) amap" where
  "bt_extend new m = foldl (\<lambda>m (k, v). bt_insert k v m) m new"

definition reprendre :: "etat_persistant \<Rightarrow> runtime \<Rightarrow> runtime" where
  "reprendre e r = r\<lparr>
     rt_tasks := foldl (\<lambda>m t. bt_insert (tk_id t) t m) (rt_tasks r) (ep_taches e),
     rt_tokens := bt_extend (ep_jetons e) (rt_tokens r), rt_plans := bt_extend (ep_plans e) (rt_plans r),
     rt_results := bt_extend (ep_results e) (rt_results r),
     rt_owners := bt_extend (ep_owners e) (rt_owners r),
     rt_manifests := bt_extend (ep_manifests e) (rt_manifests r),
     rt_journal := ep_journal e @ rt_journal r\<rparr>"

section \<open>The journal queue\<close>

definition JOURNAL_EN_ATTENTE_MAX :: nat where
  "JOURNAL_EN_ATTENTE_MAX = 10000"

definition record_event :: "runtime_env \<Rightarrow> string \<Rightarrow> event_kind \<Rightarrow> string \<Rightarrow> json \<Rightarrow> instant
    \<Rightarrow> runtime \<Rightarrow> runtime" where
  "record_event E task kind actor payload now r =
     (let j = (if JOURNAL_EN_ATTENTE_MAX \<le> length (rt_journal r) then tl (rt_journal r) else rt_journal r)
      in r\<lparr>rt_journal := j @ [(draft_new now actor kind payload)
             \<lparr>d_task := Some task, d_idem := Some (re_nouvelle_cle E (rt_keys r))\<rparr>],
           rt_keys := rt_keys r + 1\<rparr>)"

definition journal_recu :: "string \<Rightarrow> runtime \<Rightarrow> runtime" where
  "journal_recu idem r = r\<lparr>rt_journal := filter (\<lambda>d. d_idem d \<noteq> Some idem) (rt_journal r)\<rparr>"

section \<open>Owners, children, roles\<close>

definition bind_owner :: "string \<Rightarrow> nat \<Rightarrow> runtime \<Rightarrow> runtime option" where
  "bind_owner i uid r =
     (if \<not> contains_key i (rt_tasks r)
         \<or> (case map_of (rt_owners r) i of None \<Rightarrow> False | Some owner \<Rightarrow> owner \<noteq> uid)
      then None else Some (r\<lparr>rt_owners := bt_insert i uid (rt_owners r)\<rparr>))"

definition is_owner :: "string \<Rightarrow> nat \<Rightarrow> runtime \<Rightarrow> bool" where
  "is_owner i uid r \<longleftrightarrow> map_of (rt_owners r) i = Some uid"

definition link_child :: "string \<Rightarrow> string \<Rightarrow> double \<Rightarrow> runtime \<Rightarrow> runtime_error + runtime" where
  "link_child child parent fraction r =
     (case map_of (rt_tasks r) parent of
        None \<Rightarrow> Err (RtUnknown parent)
      | Some p \<Rightarrow>
          if MAX_DEPTH < tk_depth p + 1 then Err (RtCapability (ChildDepth MAX_DEPTH))
          else (case map_of (rt_tasks r) child of
                  None \<Rightarrow> Err (RtUnknown child)
                | Some t \<Rightarrow>
                    Ok (r\<lparr>rt_tasks := bt_insert child
                          (t\<lparr>tk_parent := Some parent, tk_depth := tk_depth p + 1,
                             tk_budget := reserve (tk_budget p) fraction\<rparr>) (rt_tasks r)\<rparr>)))"

definition absorb_child :: "string \<Rightarrow> string \<Rightarrow> runtime \<Rightarrow> runtime" where
  "absorb_child child parent r =
     (case map_of (rt_tasks r) child of
        None \<Rightarrow> r
      | Some c \<Rightarrow>
          (case map_of (rt_tasks r) parent of
             None \<Rightarrow> r
           | Some p \<Rightarrow> r\<lparr>rt_tasks := bt_insert parent
               (absorb_usage (tk_usage c) (p\<lparr>tk_budget := absorb (tk_budget c) (tk_budget p)\<rparr>))
               (rt_tasks r)\<rparr>))"

definition roles_of :: "string \<Rightarrow> runtime \<Rightarrow> (string, string list) amap" where
  "roles_of i r = (case map_of (rt_manifests r) i of None \<Rightarrow> [] | Some m \<Rightarrow> mo_roles (m_model m))"

definition set_profile :: "string \<Rightarrow> string \<Rightarrow> runtime \<Rightarrow> runtime" where
  "set_profile i profile r =
     (case map_of (rt_plans r) i of
        None \<Rightarrow> r
      | Some p \<Rightarrow> r\<lparr>rt_plans := bt_insert i (p\<lparr>tp_profile := Some profile\<rparr>) (rt_plans r)\<rparr>)"

definition set_role :: "string \<Rightarrow> string option \<Rightarrow> runtime \<Rightarrow> runtime" where
  "set_role i role r =
     (case map_of (rt_tasks r) i of
        None \<Rightarrow> r
      | Some t \<Rightarrow> r\<lparr>rt_tasks := bt_insert i (t\<lparr>tk_role := role\<rparr>) (rt_tasks r)\<rparr>)"

definition spawn_targets :: "string \<Rightarrow> runtime \<Rightarrow> string list" where
  "spawn_targets i r =
     (case map_of (rt_manifests r) i of
        None \<Rightarrow> []
      | Some m \<Rightarrow>
          (case Manifest.ceiling m of
             Inl _ \<Rightarrow> []
           | Inr gs \<Rightarrow> map g_pattern (filter (\<lambda>g. g_res g = ResTask \<and> g_act g = ActSpawn) gs)))"

definition children_of :: "string \<Rightarrow> runtime \<Rightarrow> task list" where
  "children_of parent r =
     sort_key tk_created (filter (\<lambda>t. tk_parent t = Some parent) (map snd (rt_tasks r)))"

section \<open>Looking and publishing\<close>

datatype review_refusal = NotCreator | NotFinished | NoVersions | BadIndex | AlreadyUndone | TaskMissing

definition review_context :: "runtime_env \<Rightarrow> string \<Rightarrow> nat \<Rightarrow> runtime
    \<Rightarrow> review_refusal + string \<times> review_index" where
  "review_context E i uid r =
     (if map_of (rt_owners r) i \<noteq> Some uid then Err NotCreator
      else if (case map_of (rt_tasks r) i of None \<Rightarrow> True | Some t \<Rightarrow> tk_state t \<noteq> Done)
        then Err NotFinished
      else (case Option.bind (map_of (rt_results r) i) (field ''review'') of
              None \<Rightarrow> Err NoVersions
            | Some j \<Rightarrow>
                (case re_index_of_json E j of
                   None \<Rightarrow> Err BadIndex | Some index \<Rightarrow> Ok (rt_home r, index))))"

definition publication_context :: "runtime_env \<Rightarrow> string \<Rightarrow> nat \<Rightarrow> runtime
    \<Rightarrow> review_refusal + string \<times> review_index \<times> publication_provenance" where
  "publication_context E i uid r =
     (if map_of (rt_owners r) i = Some uid
         \<and> (case map_of (rt_tasks r) i of None \<Rightarrow> False | Some t \<Rightarrow> tk_state t = RolledBack)
      then Err AlreadyUndone
      else (case review_context E i uid r of
              Inl e \<Rightarrow> Err e
            | Inr (home, index) \<Rightarrow>
                (case map_of (rt_tasks r) i of
                   None \<Rightarrow> Err TaskMissing
                 | Some t \<Rightarrow>
                     let model = (case tk_driver t of
                           Some d \<Rightarrow> d
                         | None \<Rightarrow> (case map_of (rt_plans r) i of
                             Some p \<Rightarrow> co_reference (tp_choice p) | None \<Rightarrow> []))
                     in Ok (home, index, \<lparr>pp_task = tk_id t, pp_agent = tk_agent t,
                          pp_step = sp_steps (bu_spent (tk_budget t)), pp_model = model\<rparr>))))"

datatype publication = Applied | Undone

definition UNDONE_REASON :: string where
  "UNDONE_REASON = ''versions annul'' @ [CHR 0xC3, CHR 0xA9] @ ''es par l'' @ [CHR 0x27] @ ''utilisateur''"

definition CANCEL_REASON :: string where
  "CANCEL_REASON = ''annul'' @ [CHR 0xC3, CHR 0xA9] @ ''e par l'' @ [CHR 0x27] @ ''utilisateur''"

definition record_publication :: "runtime_env \<Rightarrow> string \<Rightarrow> publication \<Rightarrow> diff \<Rightarrow> string list \<Rightarrow> instant
    \<Rightarrow> runtime \<Rightarrow> runtime \<times> (runtime_error + unit)" where
  "record_publication E i outcome d kept now r =
     (case diff_counts d of (added, modified, deleted) \<Rightarrow>
        let counts = JObj ([(''added'', JInt (int added)), (''modified'', JInt (int modified)),
              (''deleted'', JInt (int deleted))]
              @ (if kept = [] then [] else [(''kept'', JArr (map JStr kept))]))
        in case map_of (rt_tasks r) i of
             None \<Rightarrow> (r, Err (RtUnknown i))
           | Some t \<Rightarrow>
               (case outcome of
                  Applied \<Rightarrow> (record_event E i FsCommit ''user'' counts now r, Ok ())
                | Undone \<Rightarrow>
                    (case transition RolledBack (Some UNDONE_REASON) t of
                       Inl e \<Rightarrow> (r, Err (RtTask e))
                     | Inr t' \<Rightarrow>
                         (record_event E i TaskRolledBack ''user'' (JObj [(''reason'', JStr UNDONE_REASON)]) now
                            (record_event E i FsUndo ''user'' counts now
                               (r\<lparr>rt_tasks := bt_insert i t' (rt_tasks r)\<rparr>)), Ok ()))))"

definition publication_grants :: "string \<Rightarrow> review_index \<Rightarrow> runtime
    \<Rightarrow> review_refusal + manifest \<times> string \<times> grant list" where
  "publication_grants i review r =
     (case map_of (rt_manifests r) i of
        None \<Rightarrow> Err NoVersions
      | Some m \<Rightarrow>
          (case map_of (rt_tasks r) i of
             None \<Rightarrow> Err TaskMissing
           | Some t \<Rightarrow> Ok (m, tk_user t,
               map (\<lambda>c. grant_new ResFs ActWrite (''~/'' @ join_path (ch_path c)))
                 (df_changes (index_diff review)))))"

definition record_publication_denied :: "runtime_env \<Rightarrow> string \<Rightarrow> string \<Rightarrow> string \<Rightarrow> instant
    \<Rightarrow> runtime \<Rightarrow> runtime" where
  "record_publication_denied E i path reason now r =
     record_event E i PolicyDeny ''agentd'' (JObj [(''stage'', JStr ''publish''), (''path'', JStr path),
       (''reason'', JStr reason)]) now r"

text \<open>The view for supervision: what may be started, cancelled, published, undone, decided.\<close>

datatype start_obstacle = NoPlan | NeedsIsolation | NoPilotLauncher | NoLocalEngine | NeedsDriver

record inspection =
  in_task :: task
  in_plan :: "task_plan option"
  in_result :: "json option"
  in_can_start :: bool
  in_can_cancel :: bool
  in_start_reason :: "start_obstacle option"
  in_publication :: "workspace_state option"
  in_can_apply :: bool
  in_can_undo :: bool
  in_conflict :: "string option"
  in_conflict_in_undo :: bool
  in_can_resolve :: bool
  in_kept :: "string list"
  in_browsing :: "json option"
  in_client_hosts :: "string list option"

definition start_obstacle_of :: "task_plan option \<Rightarrow> bool \<Rightarrow> bool \<Rightarrow> start_obstacle option" where
  "start_obstacle_of plan local_configured pilot_configured =
     (case plan of
        None \<Rightarrow> Some NoPlan
      | Some p \<Rightarrow>
          let on_client = starts_with ''driver:'' (co_reference (tp_choice p))
          in if tp_sandbox_level p \<noteq> 0 then Some NeedsIsolation
             else if on_client \<and> \<not> pilot_configured then Some NoPilotLauncher
             else if \<not> on_client \<and> \<not> local_configured then Some NoLocalEngine
             else if \<not> on_client \<and> \<not> starts_with ''local:'' (co_reference (tp_choice p))
               then Some NeedsDriver
             else None)"

definition inspect_task :: "string \<Rightarrow> bool \<Rightarrow> bool \<Rightarrow> bool \<Rightarrow> runtime \<Rightarrow> runtime_error + inspection" where
  "inspect_task i local_configured pilot_configured has_worker r =
     (case map_of (rt_tasks r) i of
        None \<Rightarrow> Err (RtUnknown i)
      | Some t \<Rightarrow>
          let plan = map_of (rt_plans r) i;
              obstacle = start_obstacle_of plan local_configured pilot_configured
          in Ok \<lparr>in_task = t, in_plan = plan, in_result = map_of (rt_results r) i,
               in_can_start = (tk_state t = Planned \<and> obstacle = None \<and> \<not> has_worker),
               in_can_cancel = (\<not> is_terminal (tk_state t)
                 \<and> (has_worker \<or> tk_state t \<in> {Task_Life.Pending, Planned})),
               in_start_reason = obstacle, in_publication = None, in_can_apply = False,
               in_can_undo = False, in_conflict = None, in_conflict_in_undo = False,
               in_can_resolve = False, in_kept = [], in_browsing = None, in_client_hosts = None\<rparr>)"

definition with_publication :: "bool \<Rightarrow> workspace_state option \<Rightarrow> pub_status option
    \<Rightarrow> inspection \<Rightarrow> inspection" where
  "with_publication owner st sta v =
     (let d = (tk_state (in_task v) = Done); racine = (tk_parent (in_task v) = None);
          v = v\<lparr>in_publication := st, in_can_apply := (owner \<and> d \<and> racine \<and> st \<in> {Some WOpen, Some WApplying}),
           in_can_undo := (owner \<and> d \<and> racine \<and> st \<in> {Some WCommitted, Some WUndoing}),
           in_can_resolve := (owner \<and> d \<and> racine \<and> st = Some WConflict)\<rparr>
      in case sta of
           None \<Rightarrow> v
         | Some s \<Rightarrow> v\<lparr>in_conflict := map_option join_path (ps_conflict s),
             in_conflict_in_undo := (ps_conflict s \<noteq> None \<and> ps_undoing s),
             in_kept := map join_path (ps_kept s)\<rparr>)"

section \<open>Cancelling and starting\<close>

definition cancel_unstarted :: "runtime_env \<Rightarrow> string \<Rightarrow> instant \<Rightarrow> runtime
    \<Rightarrow> runtime \<times> (runtime_error + unit)" where
  "cancel_unstarted E i now r =
     (case map_of (rt_tasks r) i of
        None \<Rightarrow> (r, Err (RtUnknown i))
      | Some t \<Rightarrow>
          if tk_state t \<notin> {Task_Life.Pending, Planned} then (r, Err (RtTask (BadTransition (tk_state t) Cancelled)))
          else (case transition Cancelled (Some CANCEL_REASON) t of
                  Inl e \<Rightarrow> (r, Err (RtTask e))
                | Inr t' \<Rightarrow>
                    (record_event E i TaskCancelled ''user'' (JObj [(''reason'', JStr CANCEL_REASON)]) now
                       (r\<lparr>rt_tasks := bt_insert i t' (rt_tasks r)\<rparr>), Ok ())))"

text \<open>\<open>cancel\<close> once the driver has been asked to stop, whose answer is only logged.\<close>

definition cancel :: "runtime_env \<Rightarrow> string \<Rightarrow> instant \<Rightarrow> runtime \<Rightarrow> runtime \<times> (runtime_error + unit)" where
  "cancel E i now r =
     (case map_of (rt_tasks r) i of
        None \<Rightarrow> (r, Err (RtUnknown i))
      | Some t \<Rightarrow>
          (case transition Cancelled (Some CANCEL_REASON) t of
             Inl e \<Rightarrow> (r, Err (RtTask e))
           | Inr t' \<Rightarrow>
               (record_event E i TaskCancelled ''user'' (JObj [(''reason'', JStr CANCEL_REASON)]) now
                  (r\<lparr>rt_tasks := bt_insert i t' (rt_tasks r)\<rparr>), Ok ())))"

definition begin_task :: "string \<Rightarrow> bool \<Rightarrow> runtime
    \<Rightarrow> runtime \<times> (runtime_error + task \<times> token \<times> task_plan \<times> string)" where
  "begin_task i seance r =
     (case map_of (rt_tasks r) i of
        None \<Rightarrow> (r, Err (RtUnknown i))
      | Some t \<Rightarrow>
     (case map_of (rt_plans r) i of
        None \<Rightarrow> (r, Err RtWorkspace)
      | Some plan \<Rightarrow>
          let reference = co_reference (tp_choice plan);
              admissible = starts_with ''local:'' reference \<or> (seance \<and> starts_with ''driver:'' reference)
          in if \<not> admissible \<or> tp_sandbox_level plan \<noteq> 0 then (r, Err (RtNoDriver NotLaunchedHere))
             else (case map_of (rt_tokens r) i of
                     None \<Rightarrow> (r, Err (RtCapability TokenMissing))
                   | Some k \<Rightarrow>
                       if t_sub k \<noteq> i then (r, Err (RtCapability TokenMissing))
                       else (case transition Running None t of
                               Inl e \<Rightarrow> (r, Err (RtTask e))
                             | Inr t' \<Rightarrow> (r\<lparr>rt_tasks := bt_insert i t' (rt_tasks r)\<rparr>,
                                 Ok (t', k, plan, rt_home r))))))"

definition begin_local :: "string \<Rightarrow> runtime
    \<Rightarrow> runtime \<times> (runtime_error + task \<times> token \<times> task_plan \<times> string)" where
  "begin_local i r = begin_task i False r"

definition begin_seance :: "string \<Rightarrow> runtime
    \<Rightarrow> runtime \<times> (runtime_error + task \<times> token \<times> task_plan \<times> string)" where
  "begin_seance i r = begin_task i True r"

definition planned_local_model :: "string \<Rightarrow> runtime \<Rightarrow> string option" where
  "planned_local_model i r = (case map_of (rt_plans r) i of
     None \<Rightarrow> None | Some p \<Rightarrow> strip_prefix ''local:'' (co_reference (tp_choice p)))"

definition privacy_of :: "string \<Rightarrow> runtime \<Rightarrow> privacy option" where
  "privacy_of i r = map_option (\<lambda>m. mo_privacy (m_model m)) (map_of (rt_manifests r) i)"

definition publish_local :: "task \<Rightarrow> json option \<Rightarrow> runtime \<Rightarrow> runtime" where
  "publish_local t result r =
     r\<lparr>rt_results := (case result of None \<Rightarrow> rt_results r | Some j \<Rightarrow> bt_insert (tk_id t) j (rt_results r)),
       rt_tasks := bt_insert (tk_id t) t (rt_tasks r)\<rparr>"

section \<open>Planning\<close>

definition digest_text :: "runtime_env \<Rightarrow> string \<Rightarrow> string" where
  "digest_text E text = ''blake3:'' @ re_blake3_hex E text"

text \<open>
  The identifier is one normal component of a path: with its characters, that excludes only the
  empty name, \<open>.\<close> and \<open>..\<close>.
\<close>

definition valid_task_id :: "string \<Rightarrow> bool" where
  "valid_task_id i \<longleftrightarrow> list_all (\<lambda>c. is_ascii_alphanumeric c \<or> c \<in> set ''._:-'') i
     \<and> length i \<le> 160 \<and> i \<notin> {[], ''.'', ''..''}"

text \<open>A cost that is infinite or not a number limits nothing, as 0 does.\<close>

fun double_of_f64 :: "f64 \<Rightarrow> double" where
  "double_of_f64 (F64 m e) = of_int m * pow2 e"
| "double_of_f64 (F64_inf neg) = 0"
| "double_of_f64 F64_nan = 0"

definition limits_of :: "manifest \<Rightarrow> limits" where
  "limits_of m = \<lparr>li_tokens = bu_tokens (m_budget m),
     li_wall_time_s = (case wall_time_seconds m of Inr n \<Rightarrow> n | Inl _ \<Rightarrow> 1200), li_steps = 200,
     li_approvals = bu_approvals (m_budget m), li_cost_eur = double_of_f64 (bu_cost_eur (m_budget m))\<rparr>"

fun res_debug :: "res \<Rightarrow> string" where
  "res_debug ResFs = ''Fs''" | "res_debug ResNet = ''Net''" | "res_debug ResTool = ''Tool''"
| "res_debug ResProc = ''Proc''" | "res_debug ResUi = ''Ui''" | "res_debug ResLedger = ''Ledger''"
| "res_debug ResMemory = ''Memory''" | "res_debug ResModel = ''Model''"
| "res_debug ResTask = ''Task''" | "res_debug ResCap = ''Cap''"

fun act_debug :: "act \<Rightarrow> string" where
  "act_debug ActRead = ''Read''" | "act_debug ActWrite = ''Write''" | "act_debug ActList = ''List''"
| "act_debug ActEgress = ''Egress''" | "act_debug ActCall = ''Call''" | "act_debug ActExec = ''Exec''"
| "act_debug ActAct = ''Act''" | "act_debug ActVision = ''Vision''"
| "act_debug ActReadAll = ''ReadAll''" | "act_debug ActUse = ''Use''"
| "act_debug ActSpawn = ''Spawn''" | "act_debug ActDelegate = ''Delegate''"

definition grant_text :: "runtime_env \<Rightarrow> grant \<Rightarrow> string" where
  "grant_text E g = re_lowercase E
     (res_debug (g_res g) @ ''.'' @ act_debug (g_act g) @ '' sur '' @ g_pattern g)"

definition join_with :: "string \<Rightarrow> string list \<Rightarrow> string" where
  "join_with sep xs = (case xs of [] \<Rightarrow> [] | x # ys \<Rightarrow> x @ concat (map (\<lambda>y. sep @ y) ys))"

definition opt_json :: "('a \<Rightarrow> json) \<Rightarrow> 'a option \<Rightarrow> json" where
  "opt_json f x = (case x of None \<Rightarrow> JNull | Some y \<Rightarrow> f y)"

definition route_json :: "runtime_env \<Rightarrow> route \<Rightarrow> json" where
  "route_json E r = JObj [
     (''decider'', JStr (case ro_decider r of DeciderJev \<Rightarrow> ''jev'' | DeciderStatic \<Rightarrow> ''static'')),
     (''confidence'', opt_json (re_float E) (ro_confidence r)),
     (''difficulty'', opt_json (re_float E) (ro_difficulty r)),
     (''risk'', opt_json (re_float E) (ro_risk r)),
     (''input_tokens'', JInt (int (us_input_tokens (ro_usage r)))),
     (''fallback_reason'', opt_json JStr (ro_fallback_reason r))]"

definition choice_for :: "plan_request \<Rightarrow> driver_refusal + choice" where
  "choice_for q =
     (case pq_route q of
        Some route \<Rightarrow>
          if co_reference (ro_choice route) \<notin> co_reference ` set (fst (eligible (pq_manifest q) (pq_availability q)))
          then Err (RouteInadmissible (co_reference (ro_choice route)))
          else Ok (ro_choice route)
      | None \<Rightarrow>
          (case choose_driver (pq_manifest q) (pq_availability q) of
             Inl e \<Rightarrow> Err (NoDriverChoice e) | Inr c \<Rightarrow> Ok c))"

definition requested_level :: "grant list \<Rightarrow> nat" where
  "requested_level gs = foldl max 0
     (concat (map (\<lambda>g. case c_level (g_constraints g) of None \<Rightarrow> [] | Some l \<Rightarrow> [l]) gs))"

definition obtain_token :: "runtime_env \<Rightarrow> plan_request \<Rightarrow> limits \<Rightarrow> token option \<Rightarrow> string \<Rightarrow> instant
    \<Rightarrow> runtime \<Rightarrow> runtime \<times> (capability_error + token)" where
  "obtain_token E q l given nonce now r =
     (case rt_broker r of
        Some B \<Rightarrow>
          (case mint (re_crypto E) B (pq_manifest q) (pq_id q) (pq_user q) (pq_requested q)
             (if li_wall_time_s l < 9223372036854775808 then int (li_wall_time_s l) else 1800) now nonce of
             (B', res) \<Rightarrow> (r\<lparr>rt_broker := Some B'\<rparr>,
               case res of Inl e \<Rightarrow> Err (MintFailed e) | Inr t \<Rightarrow> Ok t))
      | None \<Rightarrow> (r, case given of Some t \<Rightarrow> Ok t | None \<Rightarrow> Err NoTokenGiven))"

definition planifier :: "runtime_env \<Rightarrow> plan_request \<Rightarrow> token option \<Rightarrow> string \<Rightarrow> instant \<Rightarrow> runtime
    \<Rightarrow> runtime \<times> (runtime_error + task_plan)" where
  "planifier E q given nonce now r =
     (let i = pq_id q; m = pq_manifest q
      in if \<not> valid_task_id i \<or> contains_key i (rt_tasks r) then (r, Err (RtCapability BadTaskId))
         else
           let l = limits_of m;
               t = task_new i (pq_intent q) (ag_id (m_agent m)) (pq_user q) (budget_new l) now;
               r1 = record_event E i TaskCreated ''agentd''
                 (JObj [(''agent'', JStr (ag_id (m_agent m))), (''user'', JStr (pq_user q)),
                    (''intent_digest'', JStr (digest_text E (pq_intent q)))]) now r
           in case choice_for q of
                Inl e \<Rightarrow> (r1, Err (RtNoDriver e))
              | Inr choice \<Rightarrow>
                  let level = required_level (sb_min_level (m_sandbox m)) (requested_level (pq_requested q)) False
                  in case obtain_token E q l given nonce now r1 of
                       (r2, Inl e) \<Rightarrow> (r2, Err (RtCapability e))
                     | (r2, Inr tok) \<Rightarrow>
                         let grants = map (grant_text E) (t_grants tok)
                         in case transition Planned None
                              (t\<lparr>tk_driver := Some (co_reference choice), tk_sandbox_level := Some level\<rparr>) of
                              Inl e \<Rightarrow> (r2, Err (RtTask e))
                            | Inr t' \<Rightarrow>
                                let r3 = record_event E i TaskPlanned ''agentd''
                                      (JObj [(''provider'', JStr (co_reference choice)),
                                         (''sandbox_level'', JInt (int level)),
                                         (''grants_digest'', JStr (digest_text E (join_with ''|'' grants))),
                                         (''budget'', JObj [(''tokens'', JInt (int (li_tokens l))),
                                            (''steps'', JInt (int (li_steps l)))]),
                                         (''route'', opt_json (route_json E) (pq_route q))]) now r2;
                                    plan = \<lparr>tp_task = i, tp_intent = pq_intent q, tp_choice = choice,
                                      tp_sandbox_level = level, tp_grants = grants, tp_limits = l,
                                      tp_scopes = pq_scopes q, tp_route = pq_route q, tp_profile = None\<rparr>
                                in (r3\<lparr>rt_tasks := bt_insert i t' (rt_tasks r3),
                                       rt_tokens := bt_insert i tok (rt_tokens r3),
                                       rt_plans := bt_insert i plan (rt_plans r3),
                                       rt_manifests := bt_insert i m (rt_manifests r3)\<rparr>, Ok plan))"

definition plan :: "runtime_env \<Rightarrow> plan_request \<Rightarrow> string \<Rightarrow> instant \<Rightarrow> runtime
    \<Rightarrow> runtime \<times> (runtime_error + task_plan)" where
  "plan E q nonce now r = planifier E q None nonce now r"

definition plan_with_token :: "runtime_env \<Rightarrow> plan_request \<Rightarrow> token \<Rightarrow> string \<Rightarrow> instant \<Rightarrow> runtime
    \<Rightarrow> runtime \<times> (runtime_error + task_plan)" where
  "plan_with_token E q tok nonce now r = planifier E q (Some tok) nonce now r"

section \<open>Running a driver\<close>

record driver_run =
  dr_start :: "start_request \<Rightarrow> string + start_response"
  dr_polls :: "(string + driver_event list) list"

definition driver_actor :: "string \<Rightarrow> string" where
  "driver_actor name = ''driver:'' @ name"

text \<open>What the loop carries: the runtime and its local variables.\<close>

record run_state =
  rs_runtime :: runtime
  rs_tool_calls :: nat
  rs_final_text :: "string option"
  rs_stop :: "dimension option"
  rs_status :: run_status

definition with_task :: "string \<Rightarrow> (task \<Rightarrow> task) \<Rightarrow> runtime \<Rightarrow> runtime" where
  "with_task i f r = (case map_of (rt_tasks r) i of
     None \<Rightarrow> r | Some t \<Rightarrow> r\<lparr>rt_tasks := bt_insert i (f t) (rt_tasks r)\<rparr>)"

text \<open>One event; \<open>True\<close> for \<open>break 'outer\<close>.\<close>

definition run_event :: "runtime_env \<Rightarrow> string \<Rightarrow> string \<Rightarrow> instant \<Rightarrow> driver_event \<Rightarrow> run_state
    \<Rightarrow> run_state \<times> bool" where
  "run_event E i driver now ev s =
     (let r = rs_runtime s; actor = driver_actor driver
      in case ev of
           EvStep n _ \<Rightarrow>
             (case map_of (rt_tasks r) i of
                None \<Rightarrow> (s, False)
              | Some t \<Rightarrow>
                  (case record_step 0 n 0 t of
                     (t', res) \<Rightarrow>
                       let s' = s\<lparr>rs_runtime := r\<lparr>rt_tasks := bt_insert i t' (rt_tasks r)\<rparr>\<rparr>
                       in (case res of
                             Inl (BudgetExhausted d) \<Rightarrow> (s'\<lparr>rs_stop := Some d\<rparr>, True)
                           | _ \<Rightarrow> (s', False))))
         | EvUsage _ tokens_out _ quota \<Rightarrow>
             (case map_of (rt_tasks r) i of
                None \<Rightarrow> (s, False)
              | Some t \<Rightarrow>
                  let sp = bu_spent (tk_budget t);
                      sp' = sp\<lparr>sp_tokens := add64 (sp_tokens sp)
                                 (case tokens_out of None \<Rightarrow> 0 | Some n \<Rightarrow> n),
                               sp_quota_pct := (case quota of None \<Rightarrow> sp_quota_pct sp | Some p \<Rightarrow> p)\<rparr>;
                      t' = t\<lparr>tk_budget := (tk_budget t)\<lparr>bu_spent := sp'\<rparr>\<rparr>;
                      s' = s\<lparr>rs_runtime := r\<lparr>rt_tasks := bt_insert i t' (rt_tasks r)\<rparr>\<rparr>
                  in (case exhausted (tk_budget t') of
                        Some d \<Rightarrow> (s'\<lparr>rs_stop := Some d\<rparr>, True) | None \<Rightarrow> (s', False)))
         | EvToolCall tool args_digest _ \<Rightarrow>
             (s\<lparr>rs_tool_calls := add32 (rs_tool_calls s) 1,
                rs_runtime := record_event E i ToolCall actor
                  (JObj [(''tool'', JStr tool), (''args_digest'', JStr args_digest)]) now r\<rparr>, False)
         | EvToolResult tool ok error \<Rightarrow>
             (s\<lparr>rs_runtime := record_event E i ToolResult actor
                  (JObj [(''tool'', JStr tool), (''ok'', JBool ok), (''error_code'', opt_json JStr error)])
                  now r\<rparr>, False)
         | EvPermissionRequest approval_id tool _ _ \<Rightarrow>
             (let r1 = record_event E i ApprovalRequested actor
                    (JObj [(''approval_id'', JStr approval_id), (''action'', JStr tool)]) now r
              in case map_of (rt_tasks r1) i of
                   None \<Rightarrow> (s\<lparr>rs_runtime := r1\<rparr>, False)
                 | Some t \<Rightarrow>
                     let t1 = (case transition WaitingApproval None t of Inl _ \<Rightarrow> t | Inr t1 \<Rightarrow> t1)
                     in case record_approval t1 of
                          (t2, res) \<Rightarrow>
                            let s' = s\<lparr>rs_runtime := r1\<lparr>rt_tasks := bt_insert i t2 (rt_tasks r1)\<rparr>\<rparr>
                            in (case res of
                                  Inl _ \<Rightarrow> (s'\<lparr>rs_stop := Some Approvals\<rparr>, True) | Inr _ \<Rightarrow> (s', False)))
         | EvText _ text \<Rightarrow> (s\<lparr>rs_final_text := Some text\<rparr>, False)
         | EvCheckpoint _ \<Rightarrow> (s, False)
         | EvDone st reason _ \<Rightarrow>
             (s\<lparr>rs_status := st,
                rs_runtime := (case reason of
                  None \<Rightarrow> r | Some _ \<Rightarrow> with_task i (\<lambda>t. t\<lparr>tk_reason := reason\<rparr>) r)\<rparr>, True))"

fun run_batch :: "runtime_env \<Rightarrow> string \<Rightarrow> string \<Rightarrow> instant \<Rightarrow> driver_event list \<Rightarrow> run_state
    \<Rightarrow> run_state \<times> bool" where
  "run_batch E i driver now [] s = (s, False)"
| "run_batch E i driver now (ev # evs) s =
     (case run_event E i driver now ev s of
        (s', True) \<Rightarrow> (s', True) | (s', False) \<Rightarrow> run_batch E i driver now evs s')"

text \<open>At most \<open>n\<close> polls; an empty batch ends the loop, and so does the end of the list.\<close>

fun run_loop :: "runtime_env \<Rightarrow> string \<Rightarrow> string \<Rightarrow> instant \<Rightarrow> nat \<Rightarrow> (string + driver_event list) list
    \<Rightarrow> run_state \<Rightarrow> run_state \<times> (string + unit)" where
  "run_loop E i driver now 0 polls s = (s, Ok ())"
| "run_loop E i driver now (Suc n) [] s = (s, Ok ())"
| "run_loop E i driver now (Suc n) (p # polls) s =
     (case p of
        Inl e \<Rightarrow> (s, Err e)
      | Inr [] \<Rightarrow> (s, Ok ())
      | Inr evs \<Rightarrow>
          (case run_batch E i driver now evs s of
             (s', True) \<Rightarrow> (s', Ok ()) | (s', False) \<Rightarrow> run_loop E i driver now n polls s'))"

definition stopped_as :: "run_state \<Rightarrow> string \<Rightarrow> state \<times> string option" where
  "stopped_as s i =
     (case rs_stop s of
        Some d \<Rightarrow> (Failed, Some (explain d))
      | None \<Rightarrow>
          (case rs_status s of
             RunOk \<Rightarrow> (Done, None)
           | RunCancelled \<Rightarrow> (Cancelled, Some (''annul'' @ [CHR 0xC3, CHR 0xA9] @ ''e''))
           | RunFailed \<Rightarrow> (Failed, Option.bind (map_of (rt_tasks (rs_runtime s)) i) tk_reason)))"

definition path_join :: "string \<Rightarrow> string \<Rightarrow> string" where
  "path_join a b = (if starts_with ''/'' b then b else if a = [] \<or> ends_with ''/'' a then a @ b
     else a @ ''/'' @ b)"

definition start_request_for :: "runtime_env \<Rightarrow> string \<Rightarrow> task \<Rightarrow> runtime \<Rightarrow> start_request" where
  "start_request_for E i t r =
     (let dir = path_join (path_join (rt_home r) ''.prophet/tasks'') i
      in \<lparr>st_driver = (case tk_driver t of Some d \<Rightarrow> d | None \<Rightarrow> ''inconnu''), st_task = i,
          st_intent = tk_intent t, st_workdir = path_join dir ''work'',
          st_mcp_config = path_join dir ''mcp.json'',
          st_token = (case Option.bind (map_of (rt_tokens r) i) (re_token_text E) of
            Some s \<Rightarrow> s | None \<Rightarrow> []),
          st_sandbox = \<lparr>sr_level = (case tk_sandbox_level t of Some l \<Rightarrow> l | None \<Rightarrow> 1), sr_profile = ''base''\<rparr>,
          st_limits = \<lparr>dl_wall_time_s = li_wall_time_s (bu_limits (tk_budget t)),
            dl_max_steps = li_steps (bu_limits (tk_budget t))\<rparr>,
          st_resume = None\<rparr>)"

definition final_kind :: "state \<Rightarrow> event_kind" where
  "final_kind st = (case st of Done \<Rightarrow> TaskDone | Cancelled \<Rightarrow> TaskCancelled | _ \<Rightarrow> TaskFailed)"

text \<open>The end of \<open>run\<close>: the last transition, the report, and what the journal keeps of it.\<close>

definition run_close :: "runtime_env \<Rightarrow> string \<Rightarrow> string \<Rightarrow> instant \<Rightarrow> run_state
    \<Rightarrow> runtime \<times> (runtime_error + report)" where
  "run_close E i driver now s =
     (let r = rs_runtime s; (st, reason) = stopped_as s i
      in case map_of (rt_tasks r) i of
           None \<Rightarrow> (r, Err (RtUnknown i))
         | Some t \<Rightarrow>
             let t1 = (if tk_state t = WaitingApproval
                       then (case transition Running None t of Inl _ \<Rightarrow> t | Inr t1 \<Rightarrow> t1) else t);
                 r1 = r\<lparr>rt_tasks := bt_insert i t1 (rt_tasks r)\<rparr>
             in case transition st reason t1 of
                  Inl e \<Rightarrow> (r1, Err (RtTask e))
                | Inr t2 \<Rightarrow>
                    let sp = bu_spent (tk_budget t2);
                        rep = \<lparr>rp_task = i, rp_state = st, rp_driver = driver, rp_steps = sp_steps sp,
                          rp_tool_calls = rs_tool_calls s, rp_approvals = sp_approvals sp,
                          rp_tokens = sp_tokens sp, rp_final_text = rs_final_text s, rp_reason = reason\<rparr>;
                        r2 = r1\<lparr>rt_tasks := bt_insert i t2 (rt_tasks r1)\<rparr>;
                        r3 = record_event E i (final_kind st) ''agentd''
                          (JObj [(''stats'', JObj [(''steps'', JInt (int (rp_steps rep))),
                             (''tool_calls'', JInt (int (rp_tool_calls rep))),
                             (''approvals'', JInt (int (rp_approvals rep))),
                             (''tokens'', JInt (int (rp_tokens rep)))]),
                            (''reason'', opt_json JStr reason)]) now r2
                    in (record_event E i ProviderStopped (driver_actor driver)
                          (JObj [(''driver'', JStr driver)]) now r3, Ok rep))"

definition run_driver :: "runtime_env \<Rightarrow> string \<Rightarrow> driver_run \<Rightarrow> instant \<Rightarrow> runtime
    \<Rightarrow> runtime \<times> (runtime_error + report)" where
  "run_driver E i D now r =
     (case map_of (rt_tasks r) i of
        None \<Rightarrow> (r, Err (RtUnknown i))
      | Some t \<Rightarrow>
          let q = start_request_for E i t r; driver = st_driver q
          in case dr_start D q of
               Inl e \<Rightarrow> (r, Err (RtDriver e))
             | Inr response \<Rightarrow>
                 let r1 = record_event E i ProviderStarted (driver_actor driver)
                       (JObj [(''driver'', JStr driver),
                          (''session_ref_digest'', JStr (digest_text E (sp_session_ref response)))]) now r
                 in case transition Running None t of
                      Inl e \<Rightarrow> (r1, Err (RtTask e))
                    | Inr t' \<Rightarrow>
                        let r2 = r1\<lparr>rt_tasks := bt_insert i t' (rt_tasks r1)\<rparr>;
                            s0 = \<lparr>rs_runtime = r2, rs_tool_calls = 0, rs_final_text = None,
                              rs_stop = None, rs_status = RunFailed\<rparr>
                        in case run_loop E i driver now
                             (sat_add32 (li_steps (bu_limits (tk_budget t))) 10) (dr_polls D) s0 of
                             (s, Inl e) \<Rightarrow> (rs_runtime s, Err (RtDriver e))
                           | (s, Inr _) \<Rightarrow> run_close E i driver now s)"

end
