(* ===== verification/Runtime_Life.thy ===== *)
theory Runtime_Life
  imports Runtime
begin

text \<open>
  What holds of the task runtime along every sequence of its operations: the tables agree with each
  other, tasks stay well formed, what was decided at planning never changes, and the queue of the
  journal is bounded.
\<close>

section \<open>The invariant and the order of growth\<close>

text \<open>A \<open>BTreeMap\<close>: strictly sorted keys.\<close>

definition bt_map :: "('k::linorder, 'v) amap \<Rightarrow> bool" where
  "bt_map m \<longleftrightarrow> sorted_wrt (<) (map fst m)"

lemma bt_map_sorted [simp]: "bt_map m \<Longrightarrow> sorted (map fst m)"
  by (simp add: bt_map_def strict_sorted_imp_sorted)

lemma bt_map_insert [simp]: "bt_map m \<Longrightarrow> bt_map (bt_insert k v m)"
  unfolding bt_map_def
proof (induction m)
  case (Cons kv m)
  then show ?case by (cases kv) (auto simp flip: image_set simp: keys_bt_insert)
qed simp

lemma bt_map_Nil [simp]: "bt_map []"
  by (simp add: bt_map_def)

text \<open>What planning fixes of a task.\<close>

definition identity :: "task \<Rightarrow> string \<times> string \<times> string \<times> string \<times> string option \<times> nat option \<times> instant" where
  "identity t = (tk_id t, tk_intent t, tk_agent t, tk_user t, tk_driver t, tk_sandbox_level t, tk_created t)"

definition evolves :: "task \<Rightarrow> task \<Rightarrow> bool" where
  "evolves t t' \<longleftrightarrow> identity t' = identity t \<and> (task_ok t \<longrightarrow> task_ok t')"

definition rt_ok :: "runtime \<Rightarrow> bool" where
  "rt_ok r \<longleftrightarrow>
     bt_map (rt_tasks r) \<and> bt_map (rt_tokens r) \<and> bt_map (rt_plans r) \<and> bt_map (rt_results r)
   \<and> bt_map (rt_owners r) \<and> bt_map (rt_manifests r)
   \<and> (\<forall>i t. map_of (rt_tasks r) i = Some t \<longrightarrow> tk_id t = i \<and> task_ok t)
   \<and> dom (map_of (rt_tokens r)) \<subseteq> dom (map_of (rt_tasks r))
   \<and> dom (map_of (rt_manifests r)) \<subseteq> dom (map_of (rt_tasks r))
   \<and> length (rt_journal r) \<le> JOURNAL_EN_ATTENTE_MAX"

definition rt_le :: "runtime \<Rightarrow> runtime \<Rightarrow> bool" where
  "rt_le r r' \<longleftrightarrow>
     (\<forall>i t. map_of (rt_tasks r) i = Some t \<longrightarrow>
        (\<exists>t'. map_of (rt_tasks r') i = Some t' \<and> identity t' = identity t))
   \<and> map_of (rt_tokens r) \<subseteq>\<^sub>m map_of (rt_tokens r')
   \<and> map_of (rt_manifests r) \<subseteq>\<^sub>m map_of (rt_manifests r')
   \<and> map_of (rt_owners r) \<subseteq>\<^sub>m map_of (rt_owners r')"

lemma rt_le_refl [simp]: "rt_le r r"
  by (simp add: rt_le_def)

lemma rt_le_trans: "rt_le r s \<Longrightarrow> rt_le s u \<Longrightarrow> rt_le r u"
  unfolding rt_le_def by (metis map_le_trans)

definition grows :: "runtime \<Rightarrow> runtime \<Rightarrow> bool" where
  "grows r r' \<longleftrightarrow> (rt_ok r \<longrightarrow> rt_ok r' \<and> rt_le r r')"

named_theorems grow

lemma grows_refl [grow, simp]: "grows r r"
  by (simp add: grows_def)

lemma grows_trans [trans]: "grows r s \<Longrightarrow> grows s u \<Longrightarrow> grows r u"
  unfolding grows_def by (blast intro: rt_le_trans)

lemma record_event_fields [simp]:
  "rt_tasks (record_event E i k a p now r) = rt_tasks r"
  "rt_tokens (record_event E i k a p now r) = rt_tokens r"
  "rt_plans (record_event E i k a p now r) = rt_plans r"
  "rt_results (record_event E i k a p now r) = rt_results r"
  "rt_owners (record_event E i k a p now r) = rt_owners r"
  "rt_manifests (record_event E i k a p now r) = rt_manifests r"
  "rt_broker (record_event E i k a p now r) = rt_broker r"
  "rt_home (record_event E i k a p now r) = rt_home r"
  by (simp_all add: record_event_def Let_def)

lemma record_event_length: "length (rt_journal r) \<le> JOURNAL_EN_ATTENTE_MAX \<Longrightarrow>
    length (rt_journal (record_event E i k a p now r)) \<le> JOURNAL_EN_ATTENTE_MAX"
  by (auto simp: record_event_def Let_def JOURNAL_EN_ATTENTE_MAX_def)

lemma rt_ok_record: "rt_ok r \<Longrightarrow> rt_ok (record_event E i k a p now r)"
  unfolding rt_ok_def record_event_fields using record_event_length by blast

lemma grows_record [grow]: "grows r s \<Longrightarrow> grows r (record_event E i k a p now s)"
  by (rule grows_trans, assumption) (simp add: grows_def rt_le_def rt_ok_record)

lemma grows_put:
  assumes "grows r s" "map_of (rt_tasks s) i = Some t" "evolves t t'"
  shows "grows r (s\<lparr>rt_tasks := bt_insert i t' (rt_tasks s)\<rparr>)" (is "grows r ?s")
proof (rule grows_trans [OF assms(1)])
  show "grows s ?s"
    unfolding grows_def
  proof
    assume ok: "rt_ok s"
    with assms(2) have t: "tk_id t = i" "task_ok t" by (simp_all add: rt_ok_def)
    with assms(3) have t': "tk_id t' = i" "task_ok t'" "identity t' = identity t"
      by (simp_all add: evolves_def identity_def)
    from ok have m: "map_of (rt_tasks ?s) = (map_of (rt_tasks s))(i \<mapsto> t')" by (simp add: rt_ok_def)
    from ok have "rt_ok ?s"
      unfolding rt_ok_def m by (simp add: t' subset_insertI2)
    moreover have "rt_le s ?s"
      unfolding rt_le_def m by (simp add: assms(2) t')
    ultimately show "rt_ok ?s \<and> rt_le s ?s" ..
  qed
qed

lemma grows_update:
  "grows r s \<Longrightarrow> map_of (rt_tasks s) i \<noteq> None \<Longrightarrow> evolves (the (map_of (rt_tasks s) i)) t' \<Longrightarrow>
    m = rt_tasks s \<Longrightarrow> grows r (s\<lparr>rt_tasks := bt_insert i t' m\<rparr>)"
  by (auto intro: grows_put)

lemma evolves_refl [simp]: "evolves t t"
  by (simp add: evolves_def)

lemma evolves_trans: "evolves t u \<Longrightarrow> evolves u v \<Longrightarrow> evolves t v"
  by (simp add: evolves_def)

lemma identity_life: "life_step t t' \<Longrightarrow> identity t' = identity t"
  by (auto elim!: life_stepE simp: transition_def record_step_def record_approval_def Let_def
      charge_model_def absorb_usage_def identity_def split: if_splits)

lemma evolves_life: "life_step t t' \<Longrightarrow> evolves t t'"
  by (simp add: evolves_def identity_life life_step_ok)

lemma evolves_fields [simp]:
  "evolves t (t\<lparr>tk_reason := why\<rparr>)" "evolves t (t\<lparr>tk_role := role\<rparr>)" "evolves t (t\<lparr>tk_budget := b\<rparr>)"
  by (simp_all add: evolves_def identity_def task_ok_def)

lemmas evolves_transition = evolves_life [OF ls_transition]
lemmas evolves_step = evolves_life [OF ls_step]
lemmas evolves_approval = evolves_life [OF ls_approval]

section \<open>Every operation\<close>

lemma bind_owner_grows:
  assumes "bind_owner i uid r = Some r'"
  shows "grows r r'"
proof -
  from assms have "map_of (rt_owners r) i = None \<or> map_of (rt_owners r) i = Some uid"
    and r': "r' = r\<lparr>rt_owners := bt_insert i uid (rt_owners r)\<rparr>"
    by (auto simp: bind_owner_def split: if_splits option.splits)
  then show ?thesis by (auto simp add: r' grows_def rt_ok_def rt_le_def map_le_def simp del: domIff)
qed

lemma link_child_evolves: "d \<le> MAX_DEPTH \<Longrightarrow>
    evolves t (t\<lparr>tk_parent := parent, tk_depth := d, tk_budget := b\<rparr>)"
  by (simp add: evolves_def identity_def task_ok_def)

lemma link_child_grows: "link_child child parent fraction r = Ok r' \<Longrightarrow> grows r r'"
  by (auto simp add: link_child_def simp del: bt_insert.simps intro!: grows_put link_child_evolves
      split: option.splits if_splits)

lemma absorb_child_grows: "grows r (absorb_child child parent r)"
proof -
  have "evolves p (absorb_usage u (p\<lparr>tk_budget := b\<rparr>))" for p u b
    by (rule evolves_trans [OF _ evolves_life [OF ls_usage]]) simp
  then show ?thesis by (auto simp: absorb_child_def intro: grows_put split: option.splits)
qed

lemma set_profile_grows: "grows r (set_profile i profile r)"
  by (auto simp: set_profile_def grows_def rt_ok_def rt_le_def split: option.splits)

lemma set_role_grows: "grows r (set_role i role r)"
  by (auto simp: set_role_def intro: grows_put split: option.splits)

lemma journal_recu_grows: "grows r (journal_recu idem r)"
  by (auto simp: journal_recu_def grows_def rt_ok_def rt_le_def
      intro: le_trans [OF length_filter_le])

lemma publication_denied_grows: "grows r (record_publication_denied E i path reason now r)"
  by (simp add: record_publication_denied_def grow)

lemma record_publication_grows: "record_publication E i out d kept now r = (r', res) \<Longrightarrow> grows r r'"
  by (auto simp: record_publication_def Let_def intro!: grows_record grows_put evolves_transition
      split: option.splits sum.splits publication.splits prod.splits)

lemma cancel_grows: "cancel E i now r = (r', res) \<Longrightarrow> grows r r'"
  by (auto simp: cancel_def intro!: grows_record grows_put evolves_transition split: option.splits sum.splits)

lemma cancel_unstarted_grows: "cancel_unstarted E i now r = (r', res) \<Longrightarrow> grows r r'"
  by (auto simp: cancel_unstarted_def intro!: grows_record grows_put evolves_transition
      split: option.splits sum.splits if_splits)

lemma begin_task_grows: "begin_task i seance r = (r', res) \<Longrightarrow> grows r r'"
  by (auto simp: begin_task_def Let_def intro!: grows_put evolves_transition
      split: option.splits sum.splits if_splits)

text \<open>Running a driver.\<close>

lemma approval_evolves: "record_approval u = (t', res) \<Longrightarrow> evolves t u \<Longrightarrow> evolves t t'"
  by (blast intro: evolves_trans evolves_approval)

lemma run_event_grows: "run_event E i driver now ev s = (s', stop) \<Longrightarrow>
    grows (rs_runtime s) (rs_runtime s')"
proof (cases ev)
  case (EvStep n label)
  then show "run_event E i driver now ev s = (s', stop) \<Longrightarrow> ?thesis"
    by (auto simp: run_event_def Let_def intro!: grows_update dest!: evolves_step
        split: option.splits prod.splits sum.splits task_error.splits)
next
  case (EvPermissionRequest a b c d)
  then show "run_event E i driver now ev s = (s', stop) \<Longrightarrow> ?thesis"
    by (auto simp: run_event_def Let_def intro!: grows_record grows_update dest!: evolves_transition
        elim!: approval_evolves split: option.splits prod.splits sum.splits)
qed (auto simp: run_event_def Let_def with_task_def intro!: grows_record grows_update
      split: option.splits)

text \<open>What every event of a kind keeps, a loop over such events keeps.\<close>

locale driver_loop =
  fixes E :: runtime_env and i driver :: string and now :: instant
    and P :: "driver_event \<Rightarrow> bool"
    and R :: "run_state \<Rightarrow> run_state \<Rightarrow> bool"
  assumes R_refl: "R s s"
    and R_trans: "R s u \<Longrightarrow> R u v \<Longrightarrow> R s v"
    and R_event: "P ev \<Longrightarrow> run_event E i driver now ev s = (s', stop) \<Longrightarrow> R s s'"
begin

lemma batch: "run_batch E i driver now evs s = (s', stop) \<Longrightarrow> list_all P evs \<Longrightarrow> R s s'"
proof (induction evs arbitrary: s)
  case (Cons ev evs)
  obtain s1 b where ev: "run_event E i driver now ev s = (s1, b)"
    by (cases "run_event E i driver now ev s")
  with Cons.prems(2) have "R s s1" by (auto intro: R_event)
  with Cons ev show ?case by (cases b) (auto intro: R_trans)
qed (simp add: R_refl)

lemma loop: "run_loop E i driver now n polls s = (s', res) \<Longrightarrow>
    \<forall>evs. Inr evs \<in> set polls \<longrightarrow> list_all P evs \<Longrightarrow> R s s'"
proof (induction n arbitrary: polls s)
  case (Suc n)
  show ?case
  proof (cases polls)
    case (Cons p ps)
    show ?thesis
    proof (cases "\<exists>ev evs. p = Inr (ev # evs)")
      case True
      then obtain ev evs where p: "p = Inr (ev # evs)" by blast
      obtain s1 b where b: "run_batch E i driver now (ev # evs) s = (s1, b)"
        by (cases "run_batch E i driver now (ev # evs) s")
      from Suc.prems(2) Cons p have "list_all P (ev # evs)" by simp
      with b have "R s s1" by (rule batch)
      moreover have "R s1 s'" if "\<not> b"
        using Suc.prems Cons p b that by (intro Suc.IH) (auto simp del: run_batch.simps)
      ultimately show ?thesis
        using Suc.prems(1) Cons p b by (cases b) (auto simp del: run_batch.simps intro: R_trans)
    qed (use Suc.prems Cons R_refl in \<open>auto split: sum.splits list.splits\<close>)
  qed (use Suc.prems R_refl in simp)
qed (simp add: R_refl)

end

interpretation loop_grows: driver_loop E i driver now "\<lambda>ev. True" "\<lambda>s s'. grows (rs_runtime s) (rs_runtime s')"
  for E i driver now
  by unfold_locales (auto intro: grows_trans run_event_grows)

lemma run_close_grows:
  assumes "run_close E i driver now s = (r', res)"
  shows "grows (rs_runtime s) r'"
proof (cases "map_of (rt_tasks (rs_runtime s)) i")
  case None
  with assms show ?thesis by (auto simp: run_close_def split: prod.splits)
next
  case (Some t)
  define t1 where "t1 = (if tk_state t = WaitingApproval
    then (case transition Running None t of Inl e \<Rightarrow> t | Inr t1 \<Rightarrow> t1) else t)"
  define r1 where "r1 = (rs_runtime s)\<lparr>rt_tasks := bt_insert i t1 (rt_tasks (rs_runtime s))\<rparr>"
  have "evolves t t1"
    by (auto simp: t1_def intro: evolves_transition split: sum.splits)
  with Some have g: "grows (rs_runtime s) r1" by (simp add: r1_def grows_put)
  obtain st why where st: "stopped_as s i = (st, why)" by (cases "stopped_as s i")
  show ?thesis
  proof (cases "transition st why t1")
    case (Inl e)
    with assms Some st g show ?thesis by (simp add: run_close_def Let_def flip: t1_def r1_def)
  next
    case (Inr t2)
    have "grows r1 (r1\<lparr>rt_tasks := bt_insert i t2 (rt_tasks r1)\<rparr>)"
      if "rt_ok (rs_runtime s)"
    proof (rule grows_put [OF grows_refl])
      from that have "rt_ok r1" using g by (simp add: grows_def)
      from that show "map_of (rt_tasks r1) i = Some t1" by (simp add: r1_def rt_ok_def)
    qed (rule evolves_transition [OF Inr])
    then have "grows (rs_runtime s) (r1\<lparr>rt_tasks := bt_insert i t2 (rt_tasks r1)\<rparr>)"
      using g rt_le_trans by (fastforce simp: grows_def)
    moreover from assms Some st Inr have "\<exists>k p p'. r' = record_event E i ProviderStopped (driver_actor driver) p' now
        (record_event E i k ''agentd'' p now (r1\<lparr>rt_tasks := bt_insert i t2 (rt_tasks r1)\<rparr>))"
      by (auto simp: run_close_def Let_def simp flip: t1_def r1_def)
    ultimately show ?thesis by (auto intro: grows_record)
  qed
qed

lemma run_driver_grows:
  assumes "run_driver E i D now r = (r', res)"
  shows "grows r r'"
proof (cases "map_of (rt_tasks r) i")
  case None
  with assms show ?thesis by (simp add: run_driver_def)
next
  case (Some t)
  let ?q = "start_request_for E i t r"
  show ?thesis
  proof (cases "dr_start D ?q")
    case (Inl e)
    with assms Some show ?thesis by (simp add: run_driver_def Let_def)
  next
    case (Inr response)
    define r1 where "r1 = record_event E i ProviderStarted (driver_actor (st_driver ?q))
       (JObj [(''driver'', JStr (st_driver ?q)),
          (''session_ref_digest'', JStr (digest_text E (sp_session_ref response)))]) now r"
    have g1: "grows r r1" by (simp add: r1_def grow)
    show ?thesis
    proof (cases "transition Running None t")
      case (Inl e)
      with assms Some Inr g1 show ?thesis by (simp add: run_driver_def Let_def flip: r1_def)
    next
      case (Inr t')
      define s0 where "s0 = \<lparr>rs_runtime = r1\<lparr>rt_tasks := bt_insert i t' (rt_tasks r1)\<rparr>, rs_tool_calls = 0,
         rs_final_text = None, rs_stop = None, rs_status = RunFailed\<rparr>"
      have g2: "grows r (rs_runtime s0)"
        using Some evolves_transition [OF Inr] grows_put [OF g1] by (simp add: s0_def r1_def)
      obtain s lres where loop: "run_loop E i (st_driver ?q) now
          (sat_add32 (li_steps (bu_limits (tk_budget t))) 10) (dr_polls D) s0 = (s, lres)"
        by fastforce
      have "grows (rs_runtime s0) (rs_runtime s)"
        by (rule loop_grows.loop [OF loop]) (simp add: list_all_iff)
      with g2 have g3: "grows r (rs_runtime s)" by (rule grows_trans)
      from assms Some \<open>dr_start D ?q = Inr response\<close> Inr loop
      have "(case lres of Inl e \<Rightarrow> (rs_runtime s, Err (RtDriver e))
          | Inr u \<Rightarrow> run_close E i (st_driver ?q) now s) = (r', res)"
        by (simp add: run_driver_def Let_def flip: r1_def s0_def)
      with g3 show ?thesis
        by (auto split: sum.splits dest: run_close_grows intro: grows_trans)
    qed
  qed
qed

text \<open>Planning adds a task under a name no table has.\<close>

lemma rt_ok_broker [simp]: "rt_ok (r\<lparr>rt_broker := B\<rparr>) = rt_ok r" "rt_le r (r\<lparr>rt_broker := B\<rparr>)"
  by (simp_all add: rt_ok_def rt_le_def)

lemma obtain_token_broker:
  "obtain_token E q l given nonce now r = (r', res) \<Longrightarrow> \<exists>B. r' = r\<lparr>rt_broker := B\<rparr>"
  by (auto simp: obtain_token_def split: option.splits prod.splits intro: exI [of _ "rt_broker r"])

lemma add_task_grows:
  assumes "map_of (rt_tasks r) i = None" "tk_id t = i" "task_ok t"
  shows "grows r (r\<lparr>rt_tasks := bt_insert i t (rt_tasks r), rt_tokens := bt_insert i k (rt_tokens r),
    rt_plans := bt_insert i p (rt_plans r), rt_manifests := bt_insert i m (rt_manifests r)\<rparr>)"
    (is "grows r ?s")
  unfolding grows_def
proof
  assume ok: "rt_ok r"
  with assms(1) have none: "map_of (rt_tokens r) i = None" "map_of (rt_manifests r) i = None"
    by (auto simp: rt_ok_def dom_def)
  from ok have m: "map_of (rt_tasks ?s) = (map_of (rt_tasks r))(i \<mapsto> t)"
    "map_of (rt_tokens ?s) = (map_of (rt_tokens r))(i \<mapsto> k)"
    "map_of (rt_manifests ?s) = (map_of (rt_manifests r))(i \<mapsto> m)"
    by (simp_all add: rt_ok_def)
  from ok have "rt_ok ?s"
    unfolding rt_ok_def m by (simp add: assms subset_insertI2)
  moreover have "rt_le r ?s"
    unfolding rt_le_def m using assms(1) none by (auto simp: map_le_def)
  ultimately show "rt_ok ?s \<and> rt_le r ?s" ..
qed

lemma planifier_cases:
  assumes "planifier E q given nonce now r = (r', res)"
  obtains (refused) e where "res = Err e"
      "r' = r \<or> (\<exists>p B. r' = (record_event E (pq_id q) TaskCreated ''agentd'' p now r)\<lparr>rt_broker := B\<rparr>)"
    | (planned) choice tok t pl p p' B where "res = Ok pl"
      "valid_task_id (pq_id q)" "map_of (rt_tasks r) (pq_id q) = None" "choice_for q = Ok choice"
      "obtain_token E q (limits_of (pq_manifest q)) given nonce now
         (record_event E (pq_id q) TaskCreated ''agentd'' p now r)
       = ((record_event E (pq_id q) TaskCreated ''agentd'' p now r)\<lparr>rt_broker := B\<rparr>, Ok tok)"
      "transition Planned None ((task_new (pq_id q) (pq_intent q) (ag_id (m_agent (pq_manifest q)))
          (pq_user q) (budget_new (limits_of (pq_manifest q))) now)
         \<lparr>tk_driver := Some (co_reference choice), tk_sandbox_level := Some (tp_sandbox_level pl)\<rparr>) = Ok t"
      "tp_task pl = pq_id q" "tp_choice pl = choice" "tp_limits pl = limits_of (pq_manifest q)"
      "tp_sandbox_level pl
         = required_level (sb_min_level (m_sandbox (pq_manifest q))) (requested_level (pq_requested q)) False"
      "tp_grants pl = map (grant_text E) (t_grants tok)"
      "r' = (let s = record_event E (pq_id q) TaskPlanned ''agentd'' p' now
                 ((record_event E (pq_id q) TaskCreated ''agentd'' p now r)\<lparr>rt_broker := B\<rparr>)
             in s\<lparr>rt_tasks := bt_insert (pq_id q) t (rt_tasks s),
                  rt_tokens := bt_insert (pq_id q) tok (rt_tokens s),
                  rt_plans := bt_insert (pq_id q) pl (rt_plans s),
                  rt_manifests := bt_insert (pq_id q) (pq_manifest q) (rt_manifests s)\<rparr>)"
proof (cases "\<not> valid_task_id (pq_id q) \<or> contains_key (pq_id q) (rt_tasks r)")
  case True
  with assms show ?thesis by (intro refused) (auto simp: planifier_def Let_def)
next
  case False
  define p where "p = JObj [(''agent'', JStr (ag_id (m_agent (pq_manifest q)))), (''user'', JStr (pq_user q)),
    (''intent_digest'', JStr (digest_text E (pq_intent q)))]"
  define r1 where "r1 = record_event E (pq_id q) TaskCreated ''agentd'' p now r"
  have "r1 = r1\<lparr>rt_broker := rt_broker r1\<rparr>" by simp
  then have same: "\<exists>p B. r1 = (record_event E (pq_id q) TaskCreated ''agentd'' p now r)\<lparr>rt_broker := B\<rparr>"
    unfolding r1_def by blast
  show ?thesis
  proof (cases "choice_for q")
    case (Inl e)
    with assms False have "res = Err (RtNoDriver e)" "r' = r1"
      by (auto simp: planifier_def Let_def r1_def p_def)
    with same show ?thesis by (intro refused) simp_all
  next
    case (Inr choice)
    obtain r2 tres where tok: "obtain_token E q (limits_of (pq_manifest q)) given nonce now r1 = (r2, tres)"
      by fastforce
    from obtain_token_broker [OF this] obtain B where r2: "r2 = r1\<lparr>rt_broker := B\<rparr>" ..
    show ?thesis
    proof (cases tres)
      case (Inl e)
      with assms False \<open>choice_for q = Inr choice\<close> tok have "res = Err (RtCapability e)" "r' = r2"
        by (auto simp: planifier_def Let_def r1_def p_def)
      with r2 show ?thesis by (intro refused) (auto simp: r1_def)
    next
      case (Inr k)
      note c = \<open>choice_for q = Inr choice\<close>
      define level where "level = required_level (sb_min_level (m_sandbox (pq_manifest q)))
        (requested_level (pq_requested q)) False"
      define t0 where "t0 = (task_new (pq_id q) (pq_intent q) (ag_id (m_agent (pq_manifest q)))
          (pq_user q) (budget_new (limits_of (pq_manifest q))) now)
         \<lparr>tk_driver := Some (co_reference choice), tk_sandbox_level := Some level\<rparr>"
      have "can_move_to (tk_state t0) Planned" by (simp add: t0_def task_new_def can_move_to_def)
      then obtain t where t: "transition Planned None t0 = Ok t" by (simp add: transition_def)
      show ?thesis
        by (rule planned [where choice = choice and tok = k and t = t and B = B and p = p])
          (use assms False c tok Inr t r2 in \<open>auto simp: planifier_def Let_def contains_key_def
             simp flip: r1_def p_def level_def t0_def\<close>)
    qed
  qed
qed

lemma planifier_grows:
  assumes "planifier E q given nonce now r = (r', res)"
  shows "grows r r'"
  using assms
proof (cases rule: planifier_cases)
  case (refused e)
  have broker: "grows s (s\<lparr>rt_broker := B\<rparr>)" for s B by (simp add: grows_def)
  from refused(2) show ?thesis
  proof (elim disjE exE)
    fix p B
    assume r': "r' = (record_event E (pq_id q) TaskCreated ''agentd'' p now r)\<lparr>rt_broker := B\<rparr>"
    show ?thesis unfolding r' by (rule grows_trans [OF grows_record [OF grows_refl] broker])
  qed simp
next
  case (planned choice tok t pl p p' B)
  let ?s1 = "record_event E (pq_id q) TaskCreated ''agentd'' p now r"
  let ?s = "record_event E (pq_id q) TaskPlanned ''agentd'' p' now (?s1\<lparr>rt_broker := B\<rparr>)"
  have "grows ?s1 (?s1\<lparr>rt_broker := B\<rparr>)" by (simp add: grows_def)
  then have "grows r ?s" by (intro grows_record) (rule grows_trans [OF grows_record [OF grows_refl]])
  moreover have "grows ?s r'"
    unfolding planned(12) Let_def
  proof (rule add_task_grows)
    show "map_of (rt_tasks ?s) (pq_id q) = None" using planned(3) by simp
    show "tk_id t = pq_id q" using planned(6) by (auto simp: task_new_def dest: transition_Ok)
    have "evolves (task_new (pq_id q) (pq_intent q) (ag_id (m_agent (pq_manifest q)))
        (pq_user q) (budget_new (limits_of (pq_manifest q))) now
       \<lparr>tk_driver := Some (co_reference choice), tk_sandbox_level := Some (tp_sandbox_level pl)\<rparr>) t"
      by (rule evolves_transition [OF planned(6)])
    then show "task_ok t"
      using task_new_ok [of "pq_id q"] by (simp add: evolves_def task_ok_def)
  qed
  ultimately show ?thesis by (rule grows_trans)
qed

text \<open>The service writes over its own task the copy somebody gives it.\<close>

lemma publish_local_grows:
  assumes "map_of (rt_tasks r) (tk_id t) = Some t0" "identity t = identity t0" "task_ok t"
  shows "grows r (publish_local t result r)"
proof -
  from assms(2,3) have evolves: "evolves t0 t" by (simp add: evolves_def)
  have res: "grows r (r\<lparr>rt_results := bt_insert j x (rt_results r)\<rparr>)" for j x
    by (simp add: grows_def rt_ok_def rt_le_def)
  have "grows r (r\<lparr>rt_results := (case result of None \<Rightarrow> rt_results r
      | Some j \<Rightarrow> bt_insert (tk_id t) j (rt_results r))\<rparr>)"
    using res by (simp split: option.split)
  with assms(1) evolves have "grows r ((r\<lparr>rt_results := (case result of None \<Rightarrow> rt_results r
      | Some j \<Rightarrow> bt_insert (tk_id t) j (rt_results r))\<rparr>)\<lparr>rt_tasks := bt_insert (tk_id t) t (rt_tasks r)\<rparr>)"
    by (intro grows_update) simp_all
  then show ?thesis by (simp add: publish_local_def)
qed

text \<open>Saving and reading back.\<close>

lemma bt_insert_end: "\<forall>x \<in> set m. fst x < k \<Longrightarrow> bt_insert k v m = m @ [(k, v)]"
  by (induction k v m rule: bt_insert.induct) auto

lemma bt_fold_sorted: "sorted_wrt (<) (map fst (acc @ xs)) \<Longrightarrow>
    foldl (\<lambda>m (k, v). bt_insert k v m) acc xs = acc @ xs"
proof (induction xs arbitrary: acc)
  case (Cons kv xs)
  obtain k v where kv: "kv = (k, v)" by (cases kv)
  from Cons.prems have "\<forall>x \<in> set acc. fst x < k" by (simp add: kv sorted_wrt_append)
  with Cons show ?case by (simp add: kv bt_insert_end)
qed simp

lemma bt_extend_Nil: "bt_map m \<Longrightarrow> bt_extend m [] = m"
  using bt_fold_sorted [of "[]" m] by (simp add: bt_extend_def bt_map_def)

lemma tasks_read_back:
  assumes "bt_map m" "\<forall>i t. map_of m i = Some t \<longrightarrow> tk_id t = i"
  shows "foldl (\<lambda>m t. bt_insert (tk_id t) t m) [] (map snd m) = m"
proof -
  have "distinct (map fst m)" using assms(1) strict_sorted_iff by (auto simp: bt_map_def)
  with assms(2) have "tk_id t = i" if "(i, t) \<in> set m" for i t using that by simp
  then have "foldl (\<lambda>m t. bt_insert (tk_id t) t m) acc (map snd m)
      = foldl (\<lambda>m (k, v). bt_insert k v m) acc m" for acc
    by (induction m arbitrary: acc) (auto split: prod.splits)
  with bt_fold_sorted [of "[]" m] assms(1) show ?thesis by (simp add: bt_map_def)
qed

section \<open>Every sequence of operations\<close>

text \<open>
  The operations of the runtime that no worker is part of. Starting a mission and publishing its task
  are steps of the service, with the worker they concern.
\<close>

inductive rt_step :: "runtime_env \<Rightarrow> runtime \<Rightarrow> runtime \<Rightarrow> bool" for E where
  rs_plan: "planifier E q given nonce now r = (r', res) \<Longrightarrow> rt_step E r r'"
| rs_run: "run_driver E i D now r = (r', res') \<Longrightarrow> rt_step E r r'"
| rs_cancel: "cancel E i now r = (r', done) \<Longrightarrow> rt_step E r r'"
| rs_cancel_unstarted: "cancel_unstarted E i now r = (r', done) \<Longrightarrow> rt_step E r r'"
| rs_owner: "bind_owner i uid r = Some r' \<Longrightarrow> rt_step E r r'"
| rs_link: "link_child child parent fraction r = Ok r' \<Longrightarrow> rt_step E r r'"
| rs_absorb: "rt_step E r (absorb_child child parent r)"
| rs_profile: "rt_step E r (set_profile i profile r)"
| rs_role: "rt_step E r (set_role i role r)"
| rs_publication: "record_publication E i outcome d kept now r = (r', done) \<Longrightarrow> rt_step E r r'"
| rs_denied: "rt_step E r (record_publication_denied E i path reason now r)"
| rs_received: "rt_step E r (journal_recu idem r)"

inductive_cases rt_stepE: "rt_step E r r'"

lemmas operations_grow = planifier_grows run_driver_grows cancel_grows cancel_unstarted_grows
  bind_owner_grows link_child_grows absorb_child_grows set_profile_grows set_role_grows
  record_publication_grows publication_denied_grows journal_recu_grows

lemma rt_step_grows: "rt_step E r r' \<Longrightarrow> grows r r'"
  by (erule rt_stepE) (blast intro: operations_grow)+

end
