(* ===== verification/Mission_Run.thy ===== *)
theory Mission_Run
  imports Runtime_Life
begin

text \<open>
  What \<open>run\<close> does of a driver's answers: the frame of the loop, its budget, and how it ends.
\<close>

section \<open>The loop\<close>

definition in_hand :: "task \<Rightarrow> bool" where
  "in_hand t \<longleftrightarrow> tk_state t \<in> {Running, WaitingApproval}"

text \<open>
  Only the mission's own task changes; it stays in the hands of the driver; and unless a limit
  stops the loop, the budget is not exhausted if it was not before.
\<close>

definition run_frame :: "string \<Rightarrow> run_state \<Rightarrow> run_state \<Rightarrow> bool" where
  "run_frame i s s' \<longleftrightarrow> (sorted (map fst (rt_tasks (rs_runtime s))) \<longrightarrow>
     sorted (map fst (rt_tasks (rs_runtime s')))
   \<and> (\<forall>j. j \<noteq> i \<longrightarrow> map_of (rt_tasks (rs_runtime s')) j = map_of (rt_tasks (rs_runtime s)) j)
   \<and> (\<forall>t. map_of (rt_tasks (rs_runtime s)) i = Some t \<and> in_hand t \<longrightarrow>
        (\<exists>t'. map_of (rt_tasks (rs_runtime s')) i = Some t' \<and> in_hand t'
           \<and> (rs_stop s' = None \<longrightarrow>
                rs_stop s = None \<and> (can_continue (tk_budget t) \<longrightarrow> can_continue (tk_budget t'))))))"

lemma run_frame_refl: "run_frame i s s"
  by (simp add: run_frame_def)

lemma run_frame_trans: "run_frame i s u \<Longrightarrow> run_frame i u v \<Longrightarrow> run_frame i s v"
  unfolding run_frame_def by (metis (no_types, opaque_lifting))

text \<open>A change of the one task by \<open>f\<close>, with a new stop.\<close>

lemma run_frame_put:
  assumes "rt_tasks (rs_runtime s') = bt_insert i t' (rt_tasks (rs_runtime s))"
    and "map_of (rt_tasks (rs_runtime s)) i = Some t" "in_hand t \<Longrightarrow> in_hand t'"
    and "rs_stop s' = None \<Longrightarrow> rs_stop s = None \<and> (can_continue (tk_budget t) \<longrightarrow> can_continue (tk_budget t'))"
  shows "run_frame i s s'"
  using assms by (auto simp: run_frame_def)

lemma run_frame_same: "rt_tasks (rs_runtime s') = rt_tasks (rs_runtime s) \<Longrightarrow> rs_stop s' = rs_stop s \<Longrightarrow>
    run_frame i s s'"
  by (simp add: run_frame_def)

lemma record_step_result:
  assumes "record_step tokens elapsed cost t = (t', res)"
  shows "tk_state t' = tk_state t"
    and "(\<exists>d. res = Err (BudgetExhausted d)) \<or> (res = Ok () \<and> can_continue (tk_budget t'))"
  using assms by (auto simp: record_step_def Let_def can_continue_def split: option.splits)

lemma record_approval_result:
  assumes "record_approval t = (t', res)"
  shows "tk_state t' = tk_state t"
    and "res = Ok () \<Longrightarrow> can_continue (tk_budget t) \<Longrightarrow> can_continue (tk_budget t')"
  using assms by (auto simp: record_approval_def exhausted_def can_continue_def Let_def split: if_splits)

lemma waiting_in_hand:
  assumes "Task_Life.transition WaitingApproval None t = Ok u"
  shows "in_hand u" "tk_budget u = tk_budget t"
  using transition_Ok [OF assms] by (simp_all add: in_hand_def)

lemma permission_frame:
  assumes "run_event E i driver now (EvPermissionRequest a b c d) s = (s', stop)"
    and "map_of (rt_tasks (rs_runtime s)) i = Some t"
  shows "run_frame i s s'"
proof -
  define u where "u = (case Task_Life.transition WaitingApproval None t of Inl e \<Rightarrow> t | Inr t1 \<Rightarrow> t1)"
  have u: "in_hand t \<Longrightarrow> in_hand u" "tk_budget u = tk_budget t"
    by (auto simp: u_def dest: waiting_in_hand split: sum.splits)
  obtain t2 res where t2: "record_approval u = (t2, res)" by (cases "record_approval u")
  note r = record_approval_result [OF t2]
  from assms t2 have tasks: "rt_tasks (rs_runtime s') = bt_insert i t2 (rt_tasks (rs_runtime s))"
    "rs_stop s' = (case res of Inl e \<Rightarrow> Some Task_Life.Approvals | Inr x \<Rightarrow> rs_stop s)"
    by (auto simp: run_event_def Let_def simp flip: u_def split: sum.splits)
  show ?thesis
  proof (rule run_frame_put [OF tasks(1) assms(2)])
    show "in_hand t2" if "in_hand t"
      using u(1) [OF that] r(1) by (simp add: in_hand_def)
    show "rs_stop s = None \<and> (can_continue (tk_budget t) \<longrightarrow> can_continue (tk_budget t2))"
      if "rs_stop s' = None"
      using that tasks(2) r(2) u(2) by (auto split: sum.splits)
  qed
qed

lemma run_event_frame:
  assumes "run_event E i driver now ev s = (s', stop)"
  shows "run_frame i s s'"
proof (cases "map_of (rt_tasks (rs_runtime s)) i")
  case None
  with assms show ?thesis
    by (cases ev) (auto simp: run_event_def Let_def with_task_def intro!: run_frame_same split: option.splits)
next
  case (Some t)
  show ?thesis
  proof (cases ev)
    case (EvStep n label)
    obtain t' res where "record_step 0 n 0 t = (t', res)" by fastforce
    with record_step_result [OF this] Some assms EvStep show ?thesis
      by (auto simp: run_event_def Let_def in_hand_def intro!: run_frame_put)
  next
    case (EvPermissionRequest a b c d)
    with assms Some show ?thesis by (auto intro: permission_frame)
  next
    case (EvUsage a b c d)
    with assms Some show ?thesis
      by (auto simp: run_event_def Let_def in_hand_def can_continue_def
          intro!: run_frame_put [OF _ Some] split: option.splits)
  next
    case (EvDone st reason summary)
    show ?thesis
    proof (cases reason)
      case None
      with assms EvDone show ?thesis by (auto simp: run_event_def Let_def intro: run_frame_same)
    qed (use assms Some EvDone in \<open>auto simp: run_event_def Let_def with_task_def in_hand_def
      intro!: run_frame_put [OF _ Some]\<close>)
  qed (use assms Some in \<open>auto simp: run_event_def Let_def intro!: run_frame_same\<close>)
qed

interpretation loop_frame: driver_loop E i driver now "\<lambda>ev. True" "run_frame i"
  for E i driver now
  by unfold_locales (auto intro: run_frame_refl run_frame_trans run_event_frame)

text \<open>The status is a success only if the driver said so.\<close>

definition is_success :: "driver_event \<Rightarrow> bool" where
  "is_success ev \<longleftrightarrow> (case ev of EvDone RunOk _ _ \<Rightarrow> True | _ \<Rightarrow> False)"

interpretation loop_status: driver_loop E i driver now "\<lambda>ev. \<not> is_success ev"
    "\<lambda>s s'. rs_status s' = RunOk \<longrightarrow> rs_status s = RunOk"
  for E i driver now
proof
  show "rs_status s' = RunOk \<longrightarrow> rs_status s = RunOk"
    if "\<not> is_success ev" "run_event E i driver now ev s = (s', stop)" for ev s s' stop
    using that by (cases ev) (auto simp: run_event_def Let_def is_success_def
        split: option.splits prod.splits sum.splits task_error.splits run_status.splits)
qed auto

lemma loop_success:
  assumes "run_loop E i driver now n polls s = (s', res)" "rs_status s' = RunOk" "rs_status s = RunFailed"
  shows "\<exists>evs. Inr evs \<in> set polls \<and> list_ex is_success evs"
proof (rule ccontr)
  assume "\<not> (\<exists>evs. Inr evs \<in> set polls \<and> list_ex is_success evs)"
  then have "\<forall>evs. Inr evs \<in> set polls \<longrightarrow> list_all (\<lambda>ev. \<not> is_success ev) evs"
    by (auto simp: list_ex_iff list_all_iff)
  from loop_status.loop [OF assms(1) this] assms(2,3) show False by simp
qed

section \<open>The end\<close>

lemma record_event_last: "\<exists>js d. rt_journal (record_event E i k a p now r) = js @ [d]
    \<and> d_kind d = k \<and> d_task d = Some i \<and> d_actor d = a
    \<and> (rt_journal r = ks @ [e] \<longrightarrow> (\<exists>ls. js = ls @ [e]))"
proof -
  have "tl (ks @ [e]) = tl ks @ [e]" if "JOURNAL_EN_ATTENTE_MAX \<le> length (ks @ [e])"
    using that by (cases ks) (auto simp: JOURNAL_EN_ATTENTE_MAX_def)
  then show ?thesis by (auto simp: record_event_def Let_def draft_new_def)
qed

lemma record_two_last: "\<exists>js d d'. rt_journal (record_event E i' k' a' p' now (record_event E i k a p now r)) = js @ [d, d']
    \<and> d_kind d = k \<and> d_task d = Some i \<and> d_kind d' = k' \<and> d_task d' = Some i'"
proof -
  obtain js d where d: "rt_journal (record_event E i k a p now r) = js @ [d]" "d_kind d = k" "d_task d = Some i"
    using record_event_last by blast
  with record_event_last [of E i' k' a' p' now "record_event E i k a p now r" js d]
  show ?thesis by fastforce
qed

lemma close_in_hand:
  assumes "map_of (rt_tasks (rs_runtime s)) i = Some t" "in_hand t"
    and "sorted (map fst (rt_tasks (rs_runtime s)))"
  obtains r' rep t' where "run_close E i driver now s = (r', Ok rep)"
    "map_of (rt_tasks r') = (map_of (rt_tasks (rs_runtime s)))(i \<mapsto> t')"
    "tk_state t' = rp_state rep" "tk_reason t' = rp_reason rep" "tk_budget t' = tk_budget t"
    "(rp_state rep, rp_reason rep) = stopped_as s i"
    "rp_steps rep = sp_steps (bu_spent (tk_budget t'))" "rp_tokens rep = sp_tokens (bu_spent (tk_budget t'))"
    "rp_approvals rep = sp_approvals (bu_spent (tk_budget t'))" "rp_task rep = i" "rp_driver rep = driver"
    "\<exists>js d d'. rt_journal r' = js @ [d, d'] \<and> d_kind d = final_kind (rp_state rep) \<and> d_task d = Some i
       \<and> d_kind d' = ProviderStopped \<and> d_task d' = Some i"
proof -
  obtain st why where st: "stopped_as s i = (st, why)" by (cases "stopped_as s i")
  then have ends: "st \<in> {Done, Failed, Cancelled}"
    by (auto simp: stopped_as_def split: option.splits run_status.splits)
  define t1 where "t1 = (if tk_state t = WaitingApproval
    then (case Task_Life.transition Running None t of Inl e \<Rightarrow> t | Inr t1 \<Rightarrow> t1) else t)"
  have t1: "tk_state t1 = Running" "tk_budget t1 = tk_budget t"
    using assms(2) by (auto simp: t1_def in_hand_def Task_Life.transition_def can_move_to_def)
  with ends obtain t2 where t2: "Task_Life.transition st why t1 = Ok t2" "tk_state t2 = st" "tk_reason t2 = why"
    "tk_budget t2 = tk_budget t"
    by (auto simp: Task_Life.transition_def can_move_to_def is_terminal_def)
  show ?thesis
    by (rule that [where t' = t2])
      (use assms st t2 record_two_last in \<open>auto simp: run_close_def Let_def simp flip: t1_def\<close>)
qed

lemma loop_error: "run_loop E i driver now n polls s = (s', Inl e) \<Longrightarrow> Inl e \<in> set polls"
proof (induction E i driver now n polls s rule: run_loop.induct)
  case (3 E i driver now n p polls s)
  then show ?case
    by (cases p) (auto split: list.splits prod.splits bool.splits simp del: run_batch.simps)
qed simp_all

text \<open>How a run goes, step by step.\<close>

lemma run_driver_cases:
  assumes "run_driver E i D now r = (r', res)" "rt_ok r" "map_of (rt_tasks r) i = Some t"
  obtains (not_started) e where "res = Err (RtDriver e)" "r' = r"
      "dr_start D (start_request_for E i t r) = Err e"
    | (bad_state) response p where "dr_start D (start_request_for E i t r) = Ok response"
        "\<not> can_move_to (tk_state t) Running" "res = Err (RtTask (BadTransition (tk_state t) Running))"
        "r' = record_event E i ProviderStarted (driver_actor (st_driver (start_request_for E i t r))) p now r"
    | (looped) response s lres t1 where "dr_start D (start_request_for E i t r) = Ok response"
        "can_move_to (tk_state t) Running"
        "sorted (map fst (rt_tasks (rs_runtime s)))"
        "\<forall>j. j \<noteq> i \<longrightarrow> map_of (rt_tasks (rs_runtime s)) j = map_of (rt_tasks r) j"
        "map_of (rt_tasks (rs_runtime s)) i = Some t1" "in_hand t1"
        "rs_stop s = None \<and> can_continue (tk_budget t) \<longrightarrow> can_continue (tk_budget t1)"
        "rs_status s = RunOk \<longrightarrow> (\<exists>evs. Inr evs \<in> set (dr_polls D) \<and> list_ex is_success evs)"
        "(\<exists>e. lres = Err e \<and> res = Err (RtDriver e) \<and> r' = rs_runtime s \<and> Inl e \<in> set (dr_polls D))
         \<or> (lres = Ok () \<and> run_close E i (st_driver (start_request_for E i t r)) now s = (r', res))"
proof -
  let ?q = "start_request_for E i t r"
  show ?thesis
  proof (cases "dr_start D ?q")
    case (Inl e)
    with assms show ?thesis by (intro not_started) (auto simp: run_driver_def Let_def)
  next
    case (Inr response)
    define r1 where "r1 = record_event E i ProviderStarted (driver_actor (st_driver ?q))
       (JObj [(''driver'', JStr (st_driver ?q)),
          (''session_ref_digest'', JStr (digest_text E (sp_session_ref response)))]) now r"
    show ?thesis
    proof (cases "can_move_to (tk_state t) Running")
      case False
      with assms Inr show ?thesis
        by (intro bad_state) (auto simp: run_driver_def Let_def Task_Life.transition_def)
    next
      case True
      then obtain t' where t': "Task_Life.transition Running None t = Ok t'" "tk_state t' = Running"
        "tk_budget t' = tk_budget t"
        by (simp add: Task_Life.transition_def)
      define s0 where "s0 = \<lparr>rs_runtime = r1\<lparr>rt_tasks := bt_insert i t' (rt_tasks r1)\<rparr>, rs_tool_calls = 0,
         rs_final_text = None, rs_stop = None, rs_status = RunFailed\<rparr>"
      obtain s lres where loop: "run_loop E i (st_driver ?q) now
          (sat_add32 (li_steps (bu_limits (tk_budget t))) 10) (dr_polls D) s0 = (s, lres)"
        by fastforce
      have "run_frame i s0 s" by (rule loop_frame.loop [OF loop]) (simp add: list_all_iff)
      moreover have "sorted (map fst (rt_tasks r))" using assms(2) by (simp add: rt_ok_def)
      ultimately obtain t1 where frame: "sorted (map fst (rt_tasks (rs_runtime s)))"
        "\<forall>j. j \<noteq> i \<longrightarrow> map_of (rt_tasks (rs_runtime s)) j = map_of (rt_tasks r) j"
        "map_of (rt_tasks (rs_runtime s)) i = Some t1" "in_hand t1"
        "rs_stop s = None \<and> can_continue (tk_budget t) \<longrightarrow> can_continue (tk_budget t1)"
        using t' by (auto simp: run_frame_def s0_def r1_def in_hand_def)
      have ok: "rs_status s = RunOk \<longrightarrow> (\<exists>evs. Inr evs \<in> set (dr_polls D) \<and> list_ex is_success evs)"
        using loop_success [OF loop] by (simp add: s0_def)
      from assms Inr t'(1) loop
      have "(case lres of Inl e \<Rightarrow> (rs_runtime s, Err (RtDriver e))
          | Inr u \<Rightarrow> run_close E i (st_driver ?q) now s) = (r', res)"
        by (simp add: run_driver_def Let_def flip: r1_def s0_def)
      then show ?thesis
        by (intro looped [OF Inr True frame ok, of lres])
          (use loop loop_error in \<open>auto split: sum.splits\<close>)
    qed
  qed
qed

end
