(* ===== verification/Mission_Worker.thy ===== *)
theory Mission_Worker
  imports Mission_Run
begin

text \<open>
  The worker of a mission (\<^verbatim>\<open>crates/agentd/src/local.rs\<close>, \<open>Control\<close> and \<open>Mission::conclude\<close>). It
  holds its own copy of the task, charges every turn to it, adds what sub-missions have spent, and at
  the end settles it and writes the end to the journal. After each change it hands the copy to the
  service. The clock, the answers of the journal and the outcome of the work are arguments.
\<close>

section \<open>What is written of a task\<close>

fun state_name :: "state \<Rightarrow> string" where
  "state_name Task_Life.Pending = ''pending''" | "state_name Planned = ''planned''"
| "state_name Running = ''running''" | "state_name WaitingApproval = ''waiting_approval''"
| "state_name Paused = ''paused''" | "state_name Done = ''done''" | "state_name Failed = ''failed''"
| "state_name Cancelled = ''cancelled''" | "state_name RolledBack = ''rolled_back''"

definition limits_json :: "runtime_env \<Rightarrow> limits \<Rightarrow> json" where
  "limits_json E l = JObj [(''tokens'', JInt (int (li_tokens l))),
     (''wall_time_s'', JInt (int (li_wall_time_s l))), (''steps'', JInt (int (li_steps l))),
     (''approvals'', JInt (int (li_approvals l))), (''cost_eur'', re_float E (li_cost_eur l))]"

definition spent_json :: "runtime_env \<Rightarrow> spent \<Rightarrow> json" where
  "spent_json E s = JObj [(''tokens'', JInt (int (sp_tokens s))),
     (''wall_time_s'', JInt (int (sp_wall_time_s s))), (''steps'', JInt (int (sp_steps s))),
     (''approvals'', JInt (int (sp_approvals s))), (''cost_eur'', re_float E (sp_cost_eur s)),
     (''quota_pct'', re_float E (sp_quota_pct s))]"

definition budget_json :: "runtime_env \<Rightarrow> budget \<Rightarrow> json" where
  "budget_json E b = JObj [(''limits'', limits_json E (bu_limits b)), (''spent'', spent_json E (bu_spent b))]"

definition usage_json :: "usage_by_model \<Rightarrow> json" where
  "usage_json m = JObj (map (\<lambda>(model, u). (model, JObj [(''turns'', JInt (int (mu_turns u))),
     (''tokens_in'', JInt (int (mu_tokens_in u))), (''tokens_out'', JInt (int (mu_tokens_out u)))])) m)"

text \<open>Setting a key of a JSON object: in its place, or at the end.\<close>

fun json_set :: "string \<Rightarrow> json \<Rightarrow> (string \<times> json) list \<Rightarrow> (string \<times> json) list" where
  "json_set k v [] = [(k, v)]"
| "json_set k v ((k', v') # m) = (if k' = k then (k, v) # m else (k', v') # json_set k v m)"

lemma map_of_json_set [simp]: "map_of (json_set k v m) = (map_of m)(k \<mapsto> v)"
  by (induction k v m rule: json_set.induct) auto

section \<open>The operations\<close>

datatype worker_refusal = StateNotSaved | TokenCeiling | CancelAsked | TimeOver | FatalError string

definition check_live :: "bool \<Rightarrow> bool \<Rightarrow> string option \<Rightarrow> worker_refusal + unit" where
  "check_live stop late fatal =
     (if stop then Err CancelAsked else if late then Err TimeOver
      else (case fatal of Some e \<Rightarrow> Err (FatalError e) | None \<Rightarrow> Ok ()))"

text \<open>The charge of one turn; the service may fail to save the copy it is given.\<close>

definition charged :: "nat \<Rightarrow> string \<Rightarrow> nat \<Rightarrow> nat \<Rightarrow> task \<Rightarrow> task" where
  "charged elapsed model tin tout t =
     (let t1 = charge_model model tin tout t; b = tk_budget t; s = bu_spent b
      in t1\<lparr>tk_budget := b\<lparr>bu_spent := s\<lparr>sp_steps := sat_add32 (sp_steps s) 1,
              sp_tokens := sat_add64 (sat_add64 (sp_tokens s) tin) tout,
              sp_wall_time_s := elapsed\<rparr>\<rparr>\<rparr>)"

definition charge :: "nat \<Rightarrow> string \<Rightarrow> nat \<Rightarrow> nat \<Rightarrow> bool \<Rightarrow> bool \<Rightarrow> bool \<Rightarrow> string option \<Rightarrow> task
    \<Rightarrow> task \<times> (worker_refusal + unit)" where
  "charge elapsed model tin tout saved stop late fatal t =
     (let t' = charged elapsed model tin tout t; b = tk_budget t'
      in (t', if \<not> saved then Err StateNotSaved
              else if li_tokens (bu_limits b) \<le> sp_tokens (bu_spent b) then Err TokenCeiling
              else check_live stop late fatal))"

text \<open>What the result of a sub-mission says was spent; \<open>None\<close> when nothing changes.\<close>

definition absorb_result :: "spent option \<Rightarrow> usage_by_model option \<Rightarrow> task \<Rightarrow> task option" where
  "absorb_result sp usage t =
     (if sp = None \<and> usage = None then None
      else
        let t1 = (case sp of None \<Rightarrow> t
                  | Some s \<Rightarrow> t\<lparr>tk_budget := absorb \<lparr>bu_limits = bu_limits (tk_budget t), bu_spent = s\<rparr> (tk_budget t)\<rparr>)
        in Some (case usage of None \<Rightarrow> t1 | Some u \<Rightarrow> absorb_usage u t1))"

definition worker_draft :: "instant \<Rightarrow> event_kind \<Rightarrow> json \<Rightarrow> task \<Rightarrow> draft" where
  "worker_draft now kind payload t = (draft_new now ''agentd'' kind payload)
     \<lparr>d_task := Some (tk_id t), d_step := Some (sp_steps (bu_spent (tk_budget t)))\<rparr>"

definition JOURNAL_NOT_CONFIRMED :: string where
  "JOURNAL_NOT_CONFIRMED = ''journal final non confirm'' @ ECAIGU @ '' : ''"

text \<open>
  The end. \<open>outcome\<close> is the error of the work or the fields of its result; the flag that asks for a
  stop is read twice; the journal takes the two last events or answers with an error.
\<close>

definition verdict :: "string + (string \<times> json) list \<Rightarrow> bool \<Rightarrow> bool
    \<Rightarrow> state \<times> string option \<times> (string \<times> json) list" where
  "verdict outcome stop1 stop2 =
     (let (st, reason, data) = (case outcome of
            Inr data \<Rightarrow> (Done, None, data)
          | Inl e \<Rightarrow> if stop1 then (Cancelled, Some CANCEL_REASON, []) else (Failed, Some e, []))
      in (if stop2 then Cancelled else st, reason, data))"

definition conclude :: "runtime_env \<Rightarrow> nat \<Rightarrow> instant \<Rightarrow> instant \<Rightarrow> string + (string \<times> json) list \<Rightarrow> bool \<Rightarrow> bool
    \<Rightarrow> (draft \<Rightarrow> string + unit) \<Rightarrow> task \<Rightarrow> task \<times> json \<times> draft list" where
  "conclude E elapsed now1 now2 outcome stop1 stop2 journal t =
     (case verdict outcome stop1 stop2 of (st, reason, data) \<Rightarrow>
        let b = tk_budget t;
            t1 = t\<lparr>tk_budget := b\<lparr>bu_spent := (bu_spent b)\<lparr>sp_wall_time_s := elapsed\<rparr>\<rparr>\<rparr>;
            t2 = (case transition st reason t1 of Inl _ \<Rightarrow> t1 | Inr u \<Rightarrow> u);
            final = worker_draft now1 (final_kind st) (JObj
              [(''stats'', spent_json E (bu_spent (tk_budget t2))), (''by_model'', usage_json (tk_usage t2)),
               (''role'', opt_json JStr (tk_role t2)), (''reason'', opt_json JStr (tk_reason t2))]) t;
            stopped = worker_draft now2 ProviderStopped
              (JObj [(''driver'', opt_json JStr (tk_driver t2))]) t;
            answer = (case journal final of Inl e \<Rightarrow> Inl e | Inr _ \<Rightarrow> journal stopped);
            t3 = (case answer of Inr _ \<Rightarrow> t2 | Inl e \<Rightarrow> fail_task (JOURNAL_NOT_CONFIRMED @ e) t2);
            data' = json_set ''driver'' (opt_json JStr (tk_driver t3))
                   (json_set ''role'' (opt_json JStr (tk_role t3))
                   (json_set ''usage'' (usage_json (tk_usage t3))
                   (json_set ''budget'' (budget_json E (tk_budget t3))
                   (json_set ''reason'' (opt_json JStr (tk_reason t3))
                   (json_set ''state'' (JStr (state_name (tk_state t3))) data)))))
        in (t3, JObj data', case journal final of Inl _ \<Rightarrow> [final] | Inr _ \<Rightarrow> [final, stopped]))"

section \<open>What they keep\<close>

lemma charged_fields [simp]: "identity (charged e m i k t) = identity t" "tk_state (charged e m i k t) = tk_state t"
    "tk_history (charged e m i k t) = tk_history t" "tk_depth (charged e m i k t) = tk_depth t"
  by (simp_all add: charged_def charge_model_def identity_def Let_def)

lemma charged_ok: "task_ok t \<Longrightarrow> task_ok (charged e m i k t)"
  by (simp add: task_ok_def) (simp add: charged_def charge_model_def Let_def sorted_usage_entry)

lemma absorb_result_keeps:
  assumes "absorb_result sp usage t = Some t'"
  shows "identity t' = identity t" "tk_state t' = tk_state t" "task_ok t \<Longrightarrow> task_ok t'"
  using assms
  by (auto simp: absorb_result_def absorb_usage_def identity_def task_ok_def sorted_absorb_usage Let_def
      split: if_splits option.splits)

text \<open>
  A running mission is settled by its worker: it is what the verdict says, in one allowed move,
  unless the journal did not take its end; then it is failed, whatever it was.
\<close>

lemma conclude_running:
  assumes "tk_state t = Running" "conclude E e n1 n2 outcome stop1 stop2 journal t = (t', data, ds)"
    and "verdict outcome stop1 stop2 = (st, reason, kept)"
  shows "identity t' = identity t" "task_ok t \<Longrightarrow> task_ok t'"
    "(tk_state t' = st \<and> tk_reason t' = reason \<and> tk_history t' = tk_history t @ [st]
        \<and> (\<forall>d \<in> set ds. journal d = Ok ()) \<and> length ds = 2)
     \<or> (\<exists>e. tk_state t' = Failed \<and> tk_reason t' = Some (JOURNAL_NOT_CONFIRMED @ e)
        \<and> tk_history t' = tk_history t @ [st, Failed] \<and> (\<exists>d \<in> set ds. journal d = Err e))"
    "\<exists>m. data = JObj m \<and> map_of m ''state'' = Some (JStr (state_name (tk_state t')))
        \<and> map_of m ''reason'' = Some (opt_json JStr (tk_reason t'))
        \<and> (\<forall>k. k \<notin> {''state'', ''reason'', ''budget'', ''usage'', ''role'', ''driver''} \<longrightarrow> map_of m k = map_of kept k)"
    "st \<in> {Done, Failed, Cancelled}" "stop2 \<Longrightarrow> st = Cancelled"
proof -
  show st: "st \<in> {Done, Failed, Cancelled}" "stop2 \<Longrightarrow> st = Cancelled"
    using assms(3) by (auto simp: verdict_def split: sum.splits if_splits)
  define t1 where "t1 = t\<lparr>tk_budget := (tk_budget t)\<lparr>bu_spent := (bu_spent (tk_budget t))\<lparr>sp_wall_time_s := e\<rparr>\<rparr>\<rparr>"
  have "can_move_to (tk_state t1) st" "is_terminal st"
    using st(1) assms(1) by (auto simp: t1_def can_move_to_def is_terminal_def)
  then obtain t2 where t2: "Task_Life.transition st reason t1 = Ok t2" "tk_state t2 = st" "tk_reason t2 = reason"
    "tk_history t2 = tk_history t1 @ [st]"
    by (simp add: Task_Life.transition_def)
  have ident: "identity t2 = identity t" "task_ok t \<Longrightarrow> task_ok t2"
    using identity_life [OF ls_transition [OF t2(1)]] life_step_ok [OF ls_transition [OF t2(1)]]
    by (auto simp: t1_def identity_def task_ok_def)
  have fails: "identity (fail_task why t2) = identity t2" for why
    by (simp add: fail_task_def identity_def)
  obtain final stopped where run:
    "t' = (case (case journal final of Inl e \<Rightarrow> Inl e | Inr _ \<Rightarrow> journal stopped) of
        Inr _ \<Rightarrow> t2 | Inl e \<Rightarrow> fail_task (JOURNAL_NOT_CONFIRMED @ e) t2)"
    "ds = (case journal final of Inl _ \<Rightarrow> [final] | Inr _ \<Rightarrow> [final, stopped])"
    using assms(2) unfolding conclude_def assms(3) Let_def by (simp only: prod.case t2(1) [unfolded t1_def] sum.case) blast
  show "identity t' = identity t" "task_ok t \<Longrightarrow> task_ok t'"
    using ident fails by (simp_all add: run(1) split: sum.splits)
  show "(tk_state t' = st \<and> tk_reason t' = reason \<and> tk_history t' = tk_history t @ [st]
        \<and> (\<forall>d \<in> set ds. journal d = Ok ()) \<and> length ds = 2)
     \<or> (\<exists>e. tk_state t' = Failed \<and> tk_reason t' = Some (JOURNAL_NOT_CONFIRMED @ e)
        \<and> tk_history t' = tk_history t @ [st, Failed] \<and> (\<exists>d \<in> set ds. journal d = Err e))"
    using t2(2-4) by (auto simp: run fail_task_def t1_def split: sum.splits)
  show "\<exists>m. data = JObj m \<and> map_of m ''state'' = Some (JStr (state_name (tk_state t')))
        \<and> map_of m ''reason'' = Some (opt_json JStr (tk_reason t'))
        \<and> (\<forall>k. k \<notin> {''state'', ''reason'', ''budget'', ''usage'', ''role'', ''driver''} \<longrightarrow> map_of m k = map_of kept k)"
    using assms(2) unfolding conclude_def assms(3) Let_def by auto
qed

end
