(* ===== verification/Mission_Service.thy ===== *)
theory Mission_Service
  imports Mission_Worker
begin

text \<open>
  The service around the task runtime (\<^verbatim>\<open>crates/agentd/src/bin/prophet-agentd.rs\<close>): the file that
  keeps its state, its start on what an earlier one left, the workers it launches and what it does
  with the copies they hand it, cancellations and clients that leave. The file is its bytes,
  \<open>None\<close> when it does not exist; its text is given by \<open>serde_json\<close>, the two functions of
  \<open>state_file\<close>.
\<close>

section \<open>The file of the state\<close>

record state_file =
  sf_print :: "etat_persistant \<Rightarrow> string option"
  sf_parse :: "string \<Rightarrow> etat_persistant option"

text \<open>
  \<open>SaveFails\<close> is every failure before the new file takes the place of the old one, \<open>SaveUnsynced\<close> a
  failure to synchronise the folder, after it.
\<close>

datatype save_fault = SaveFine | SaveFails | SaveUnsynced

definition ecrire :: "state_file \<Rightarrow> save_fault \<Rightarrow> etat_persistant \<Rightarrow> string option
    \<Rightarrow> string option \<times> bool" where
  "ecrire F fault e fichier =
     (case sf_print F e of
        None \<Rightarrow> (fichier, False)
      | Some texte \<Rightarrow>
          (case fault of SaveFine \<Rightarrow> (Some texte, True) | SaveFails \<Rightarrow> (fichier, False)
           | SaveUnsynced \<Rightarrow> (Some texte, False)))"

definition etat_vide :: etat_persistant where
  "etat_vide = \<lparr>ep_taches = [], ep_jetons = [], ep_plans = [], ep_results = [], ep_owners = [],
     ep_manifests = [], ep_journal = []\<rparr>"

text \<open>A missing file is an empty state; a file that cannot be read stops the start.\<close>

definition relire_etat :: "state_file \<Rightarrow> bool \<Rightarrow> string option \<Rightarrow> etat_persistant option" where
  "relire_etat F lisible fichier =
     (case fichier of
        None \<Rightarrow> Some etat_vide
      | Some texte \<Rightarrow> if lisible then sf_parse F texte else None)"

section \<open>The start of the service\<close>

definition RESTART_REASON :: string where
  "RESTART_REASON = ''service red'' @ ECAIGU @ ''marr'' @ ECAIGU @ '' pendant la mission ; reprise explicite n''
     @ ECAIGU @ ''cessaire''"

definition interrupted :: "task \<Rightarrow> bool" where
  "interrupted t \<longleftrightarrow> tk_state t \<in> {Running, WaitingApproval, Paused}"

definition give_up :: "task \<Rightarrow> task" where
  "give_up t = (if interrupted t then fail_task RESTART_REASON t else t)"

definition interruption_entry :: "runtime_env \<Rightarrow> task \<Rightarrow> json" where
  "interruption_entry E t = JObj [(''state'', JStr (state_name (tk_state t))),
     (''reason'', opt_json JStr (tk_reason t)), (''budget'', budget_json E (tk_budget t))]"

definition interrompre :: "runtime_env \<Rightarrow> etat_persistant \<Rightarrow> etat_persistant" where
  "interrompre E e = e\<lparr>ep_taches := map give_up (ep_taches e),
     ep_results := foldl (\<lambda>m t. if interrupted t
         then bt_insert (tk_id t) (interruption_entry E (give_up t)) m else m) (ep_results e) (ep_taches e)\<rparr>"

definition demarrer :: "state_file \<Rightarrow> runtime_env \<Rightarrow> bool \<Rightarrow> save_fault \<Rightarrow> string \<Rightarrow> string option
    \<Rightarrow> string option \<times> runtime option" where
  "demarrer F E lisible fault home fichier =
     (case relire_etat F lisible fichier of
        None \<Rightarrow> (fichier, None)
      | Some e \<Rightarrow>
          let r = reprendre (interrompre E e) (runtime_sans_broker home)
          in case ecrire F fault (etat r) fichier of
               (fichier', ok) \<Rightarrow> (fichier', if ok then Some r else None))"

section \<open>The service and its workers\<close>

text \<open>
  A worker: the task it was launched with, its copy, the flag that asks it to stop, and whether the
  service still lists it among its jobs.
\<close>

record worker =
  wk_launch :: task
  wk_task :: task
  wk_stop :: bool
  wk_listed :: bool

record service =
  sv_runtime :: runtime
  sv_workers :: "string \<Rightarrow> worker option"
  sv_file :: "string option"

definition service_new :: "string \<Rightarrow> service" where
  "service_new home = \<lparr>sv_runtime = runtime_sans_broker home, sv_workers = (\<lambda>_. None), sv_file = None\<rparr>"

definition enregistrer :: "state_file \<Rightarrow> save_fault \<Rightarrow> service \<Rightarrow> service \<times> bool" where
  "enregistrer F fault s =
     (case ecrire F fault (etat (sv_runtime s)) (sv_file s) of (f, ok) \<Rightarrow> (s\<lparr>sv_file := f\<rparr>, ok))"

text \<open>What a worker calls with its copy.\<close>

definition publier :: "state_file \<Rightarrow> save_fault \<Rightarrow> task \<Rightarrow> json option \<Rightarrow> service \<Rightarrow> service \<times> bool" where
  "publier F fault t result s =
     enregistrer F fault (s\<lparr>sv_runtime := publish_local t result (sv_runtime s)\<rparr>)"

datatype launch_refusal = JobsBusy | NotBegun runtime_error | LaunchNotSaved

definition LAUNCH_NOT_SAVED :: string where
  "LAUNCH_NOT_SAVED = ''lancement non persist'' @ ECAIGU"

text \<open>
  A launch, of a local model or of a session of tools: \<open>busy\<close> when the mission has a job or there are
  too many. The flag may have been raised since the job was entered.
\<close>

definition lancer :: "state_file \<Rightarrow> save_fault \<Rightarrow> string \<Rightarrow> bool \<Rightarrow> bool \<Rightarrow> bool \<Rightarrow> service
    \<Rightarrow> service \<times> (launch_refusal + unit)" where
  "lancer F fault i seance busy stop s =
     (if busy then (s, Err JobsBusy)
      else (case begin_task i seance (sv_runtime s) of
              (r, Inl e) \<Rightarrow> (s\<lparr>sv_runtime := r\<rparr>, Err (NotBegun e))
            | (r, Inr (t, _)) \<Rightarrow>
                (case enregistrer F fault (s\<lparr>sv_runtime := r\<rparr>) of
                   (s1, True) \<Rightarrow> (s1\<lparr>sv_workers := (sv_workers s1)(i \<mapsto>
                       \<lparr>wk_launch = t, wk_task = t, wk_stop = stop, wk_listed = True\<rparr>)\<rparr>, Ok ())
                 | (s1, False) \<Rightarrow> (s1\<lparr>sv_runtime := publish_local (fail_task LAUNCH_NOT_SAVED t) None
                       (sv_runtime s1)\<rparr>, Err LaunchNotSaved))))"

text \<open>The launch of a sub-mission, in the thread of its parent: one that is not saved is left as begun.\<close>

definition lancer_enfant :: "state_file \<Rightarrow> save_fault \<Rightarrow> string \<Rightarrow> bool \<Rightarrow> service
    \<Rightarrow> service \<times> (launch_refusal + unit)" where
  "lancer_enfant F fault i stop s =
     (case begin_local i (sv_runtime s) of
        (r, Inl e) \<Rightarrow> (s\<lparr>sv_runtime := r\<rparr>, Err (NotBegun e))
      | (r, Inr (t, _)) \<Rightarrow>
          (case enregistrer F fault (s\<lparr>sv_runtime := r\<rparr>) of
             (s1, True) \<Rightarrow> (s1\<lparr>sv_workers := (sv_workers s1)(i \<mapsto>
                 \<lparr>wk_launch = t, wk_task = t, wk_stop = stop, wk_listed = True\<rparr>)\<rparr>, Ok ())
           | (s1, False) \<Rightarrow> (s1, Err LaunchNotSaved)))"

definition NOT_SPAWNED :: string where
  "NOT_SPAWNED = ''travailleur non lanc'' @ ECAIGU"

text \<open>The thread of a worker cannot be created.\<close>

definition non_lance :: "state_file \<Rightarrow> save_fault \<Rightarrow> string \<Rightarrow> service \<Rightarrow> service \<times> bool" where
  "non_lance F fault i s =
     (let s1 = s\<lparr>sv_workers := (sv_workers s)(i := None)\<rparr>
      in case map_of (rt_tasks (sv_runtime s)) i of
           None \<Rightarrow> enregistrer F fault s1
         | Some t \<Rightarrow> publier F fault (fail_task NOT_SPAWNED t) None s1)"

text \<open>The operations of a worker, each with the copy it hands to the service.\<close>

definition worker_charge :: "state_file \<Rightarrow> save_fault \<Rightarrow> string \<Rightarrow> nat \<Rightarrow> string \<Rightarrow> nat \<Rightarrow> nat \<Rightarrow> bool
    \<Rightarrow> string option \<Rightarrow> worker \<Rightarrow> service \<Rightarrow> service \<times> (worker_refusal + unit)" where
  "worker_charge F fault i elapsed model tin tout late fatal w s =
     (let t = charged elapsed model tin tout (wk_task w)
      in case publier F fault t None s of
           (s1, saved) \<Rightarrow> (s1\<lparr>sv_workers := (sv_workers s1)(i \<mapsto> w\<lparr>wk_task := t\<rparr>)\<rparr>,
             snd (charge elapsed model tin tout saved (wk_stop w) late fatal (wk_task w))))"

definition worker_absorb :: "state_file \<Rightarrow> save_fault \<Rightarrow> string \<Rightarrow> spent option \<Rightarrow> usage_by_model option
    \<Rightarrow> worker \<Rightarrow> service \<Rightarrow> service" where
  "worker_absorb F fault i sp usage w s =
     (case absorb_result sp usage (wk_task w) of
        None \<Rightarrow> s
      | Some t \<Rightarrow> (fst (publier F fault t None s))\<lparr>sv_workers := (sv_workers s)(i \<mapsto> w\<lparr>wk_task := t\<rparr>)\<rparr>)"

definition worker_conclude :: "runtime_env \<Rightarrow> state_file \<Rightarrow> save_fault \<Rightarrow> string \<Rightarrow> nat \<Rightarrow> instant \<Rightarrow> instant
    \<Rightarrow> string + (string \<times> json) list \<Rightarrow> bool \<Rightarrow> bool \<Rightarrow> (draft \<Rightarrow> string + unit) \<Rightarrow> worker \<Rightarrow> service \<Rightarrow> service" where
  "worker_conclude E F fault i elapsed now1 now2 outcome stop1 stop2 journal w s =
     (case conclude E elapsed now1 now2 outcome stop1 stop2 journal (wk_task w) of
        (t, data, _) \<Rightarrow> (fst (publier F fault t (Some data) s))\<lparr>sv_workers := (sv_workers s)(i := None)\<rparr>)"

text \<open>A worker that panics: the task it was launched with is given up.\<close>

definition worker_died :: "state_file \<Rightarrow> save_fault \<Rightarrow> string \<Rightarrow> string \<Rightarrow> worker \<Rightarrow> service \<Rightarrow> service" where
  "worker_died F fault i why w s =
     (fst (publier F fault (fail_task why (wk_launch w)) None s))\<lparr>sv_workers := (sv_workers s)(i := None)\<rparr>"

text \<open>
  A cancellation: the flag of the job, or the cancellation of a mission that is not started. \<open>True\<close>
  when it is only asked for.
\<close>

definition annuler :: "runtime_env \<Rightarrow> string \<Rightarrow> instant \<Rightarrow> service \<Rightarrow> service \<times> (runtime_error + bool)" where
  "annuler E i now s =
     (case sv_workers s i of
        Some w \<Rightarrow>
          if wk_listed w then (s\<lparr>sv_workers := (sv_workers s)(i \<mapsto> w\<lparr>wk_stop := True\<rparr>)\<rparr>, Ok True)
          else (case cancel_unstarted E i now (sv_runtime s) of
                  (r, Inl e) \<Rightarrow> (s\<lparr>sv_runtime := r\<rparr>, Err e) | (r, Inr _) \<Rightarrow> (s\<lparr>sv_runtime := r\<rparr>, Ok False))
      | None \<Rightarrow>
          (case cancel_unstarted E i now (sv_runtime s) of
             (r, Inl e) \<Rightarrow> (s\<lparr>sv_runtime := r\<rparr>, Err e) | (r, Inr _) \<Rightarrow> (s\<lparr>sv_runtime := r\<rparr>, Ok False)))"

definition has_job :: "string \<Rightarrow> service \<Rightarrow> bool" where
  "has_job i s \<longleftrightarrow> (case sv_workers s i of Some w \<Rightarrow> wk_listed w | None \<Rightarrow> False)"

text \<open>The service forgets the job of a worker it is about to end, or that has left.\<close>

definition retirer :: "string \<Rightarrow> service \<Rightarrow> service" where
  "retirer i s = (case sv_workers s i of
     None \<Rightarrow> s | Some w \<Rightarrow> s\<lparr>sv_workers := (sv_workers s)(i \<mapsto> w\<lparr>wk_listed := False\<rparr>)\<rparr>)"

text \<open>
  The client launched for a mission has left. A session it left open is concluded first, as the
  worker it is; then a mission that is not settled fails. A session that is still opening is not
  found, and goes on.
\<close>

definition client_resume :: "runtime_env \<Rightarrow> string \<Rightarrow> task \<Rightarrow> json" where
  "client_resume E texte t = JObj [(''state'', JStr (state_name (tk_state t))),
     (''reason'', opt_json JStr (tk_reason t)), (''budget'', budget_json E (tk_budget t)),
     (''usage'', usage_json (tk_usage t)), (''role'', opt_json JStr (tk_role t)),
     (''driver'', opt_json JStr (tk_driver t)), (''text'', JStr texte)]"

definition client_gone_reason :: "string \<Rightarrow> string option \<Rightarrow> string" where
  "client_gone_reason driver launch_error = (case launch_error of
     Some m \<Rightarrow> m
   | None \<Rightarrow> ''le client '' @ driver @ '' s'' @ [CHR 0x27] @ ''est termin'' @ ECAIGU
       @ '' sans rejoindre la mission'')"

definition client_parti :: "runtime_env \<Rightarrow> state_file \<Rightarrow> save_fault \<Rightarrow> string \<Rightarrow> string \<Rightarrow> string option
    \<Rightarrow> string \<Rightarrow> service \<Rightarrow> service" where
  "client_parti E F fault i driver launch_error texte s =
     (let s1 = retirer i s;
          s2 = (case map_of (rt_tasks (sv_runtime s1)) i of
                  None \<Rightarrow> s1
                | Some t \<Rightarrow>
                    if is_terminal (tk_state t) then s1
                    else let t' = fail_task (client_gone_reason driver launch_error) t
                         in s1\<lparr>sv_runtime := publish_local t' (Some (client_resume E texte t')) (sv_runtime s1)\<rparr>)
      in fst (enregistrer F fault s2))"

end
