(* ===== verification/Service_Restart.thy ===== *)
theory Service_Restart
  imports Mission_Service
begin

text \<open>
  What a start of the service finds of what was saved: the same missions, tokens, owners, plans,
  manifests, results and waiting drafts, floating-point numbers up to their reading back, the
  missions that were in progress given up.
\<close>

section \<open>What reading back changes\<close>

text \<open>
  \<open>serde_json\<close> reads back what it wrote, except that a floating-point number may come back as a
  neighbour (the workspace does not ask for \<open>float_roundtrip\<close>), and that it refuses values nested
  deeper than 128 levels and, where a number is expected, the \<open>null\<close> it writes for one that is not
  finite. \<open>float_drift\<close> is what becomes of a number written and read again.
\<close>

record float_drift =
  fd_double :: "double \<Rightarrow> double"
  fd_f64 :: "f64 \<Rightarrow> f64"
  fd_text :: "string \<Rightarrow> string"

fun drift_json :: "float_drift \<Rightarrow> json \<Rightarrow> json" where
  "drift_json D (JFloat x) = JFloat (fd_text D x)"
| "drift_json D (JArr js) = JArr (map (drift_json D) js)"
| "drift_json D (JObj m) = JObj (map (\<lambda>(k, j). (k, drift_json D j)) m)"
| "drift_json D JNull = JNull"
| "drift_json D (JBool b) = JBool b"
| "drift_json D (JInt i) = JInt i"
| "drift_json D (JStr t) = JStr t"

definition drift_limits :: "float_drift \<Rightarrow> limits \<Rightarrow> limits" where
  "drift_limits D l = l\<lparr>li_cost_eur := fd_double D (li_cost_eur l)\<rparr>"

definition drift_task :: "float_drift \<Rightarrow> task \<Rightarrow> task" where
  "drift_task D t =
     (let b = tk_budget t; s = bu_spent b
      in t\<lparr>tk_budget := \<lparr>bu_limits = drift_limits D (bu_limits b),
            bu_spent = s\<lparr>sp_cost_eur := fd_double D (sp_cost_eur s),
              sp_quota_pct := fd_double D (sp_quota_pct s)\<rparr>\<rparr>\<rparr>)"

definition drift_route :: "float_drift \<Rightarrow> route \<Rightarrow> route" where
  "drift_route D r = r\<lparr>ro_probabilities := map (\<lambda>(k, p). (k, fd_double D p)) (ro_probabilities r),
     ro_confidence := map_option (fd_double D) (ro_confidence r),
     ro_difficulty := map_option (fd_double D) (ro_difficulty r),
     ro_risk := map_option (fd_double D) (ro_risk r)\<rparr>"

definition drift_plan :: "float_drift \<Rightarrow> task_plan \<Rightarrow> task_plan" where
  "drift_plan D p = p\<lparr>tp_limits := drift_limits D (tp_limits p),
     tp_route := map_option (drift_route D) (tp_route p)\<rparr>"

definition drift_manifest :: "float_drift \<Rightarrow> manifest \<Rightarrow> manifest" where
  "drift_manifest D m = m\<lparr>m_budget := (m_budget m)\<lparr>bu_cost_eur := fd_f64 D (bu_cost_eur (m_budget m))\<rparr>\<rparr>"

definition drift_draft :: "float_drift \<Rightarrow> draft \<Rightarrow> draft" where
  "drift_draft D d = d\<lparr>d_payload := drift_json D (d_payload d)\<rparr>"

abbreviation map_values :: "('v \<Rightarrow> 'w) \<Rightarrow> ('k, 'v) amap \<Rightarrow> ('k, 'w) amap" where
  "map_values f \<equiv> map (\<lambda>(k, v). (k, f v))"

definition drift_etat :: "float_drift \<Rightarrow> etat_persistant \<Rightarrow> etat_persistant" where
  "drift_etat D e = \<lparr>ep_taches = map (drift_task D) (ep_taches e), ep_jetons = ep_jetons e,
     ep_plans = map_values (drift_plan D) (ep_plans e), ep_results = map_values (drift_json D) (ep_results e),
     ep_owners = ep_owners e, ep_manifests = map_values (drift_manifest D) (ep_manifests e),
     ep_journal = map (drift_draft D) (ep_journal e)\<rparr>"

text \<open>A state its reader does not refuse: JSON of at most 100 levels, manifests with finite costs.\<close>

fun shallow :: "nat \<Rightarrow> json \<Rightarrow> bool" where
  "shallow 0 (JArr js) = False"
| "shallow (Suc n) (JArr js) = list_all (shallow n) js"
| "shallow 0 (JObj m) = False"
| "shallow (Suc n) (JObj m) = list_all (\<lambda>(k, j). shallow n j) m"
| "shallow n j = True"

definition readable_etat :: "etat_persistant \<Rightarrow> bool" where
  "readable_etat e \<longleftrightarrow> list_all (\<lambda>(i, j). shallow 100 j) (ep_results e)
     \<and> list_all (\<lambda>d. shallow 100 (d_payload d)) (ep_journal e)
     \<and> list_all (\<lambda>(i, m). case bu_cost_eur (m_budget m) of F64 _ _ \<Rightarrow> True | _ \<Rightarrow> False) (ep_manifests e)"

definition file_ok :: "state_file \<Rightarrow> float_drift \<Rightarrow> bool" where
  "file_ok F D \<longleftrightarrow> (\<forall>e texte. sf_print F e = Some texte \<longrightarrow>
     sf_parse F texte \<in> {Some (drift_etat D e), None} \<and> (readable_etat e \<longrightarrow> sf_parse F texte \<noteq> None))"

section \<open>What a restart keeps\<close>

definition same_manifest :: "manifest \<Rightarrow> manifest \<Rightarrow> bool" where
  "same_manifest m m' \<longleftrightarrow> m\<lparr>m_budget := (m_budget m)\<lparr>bu_cost_eur := F64 0 0\<rparr>\<rparr>
     = m'\<lparr>m_budget := (m_budget m')\<lparr>bu_cost_eur := F64 0 0\<rparr>\<rparr>"

text \<open>
  \<open>r'\<close> still has the missions of \<open>r\<close> with what planning gave them, the cost ceiling of the manifest up
  to the last digit of a number written and read again; and the missions rolled back are so.
\<close>

definition keeps :: "runtime \<Rightarrow> runtime \<Rightarrow> bool" where
  "keeps r r' \<longleftrightarrow>
     (\<forall>i t. map_of (rt_tasks r) i = Some t \<longrightarrow> (\<exists>t'. map_of (rt_tasks r') i = Some t'
        \<and> identity t' = identity t \<and> (tk_state t = RolledBack \<longrightarrow> tk_state t' = RolledBack)))
   \<and> map_of (rt_tokens r) \<subseteq>\<^sub>m map_of (rt_tokens r')
   \<and> map_of (rt_owners r) \<subseteq>\<^sub>m map_of (rt_owners r')
   \<and> (\<forall>i m. map_of (rt_manifests r) i = Some m \<longrightarrow>
        (\<exists>m'. map_of (rt_manifests r') i = Some m' \<and> same_manifest m m'))"

lemma keeps_refl [simp]: "keeps r r"
  by (simp add: keeps_def same_manifest_def)

lemma keeps_task: "keeps r r' \<Longrightarrow> map_of (rt_tasks r) i = Some t \<Longrightarrow>
    \<exists>t'. map_of (rt_tasks r') i = Some t' \<and> identity t' = identity t
      \<and> (tk_state t = RolledBack \<longrightarrow> tk_state t' = RolledBack)"
  by (simp add: keeps_def)

lemma keeps_trans:
  assumes "keeps r s" "keeps s u"
  shows "keeps r u"
  unfolding keeps_def
proof (intro conjI allI impI)
  fix i t
  assume "map_of (rt_tasks r) i = Some t"
  from keeps_task [OF assms(1) this] obtain v where "map_of (rt_tasks s) i = Some v"
    "identity v = identity t" "tk_state t = RolledBack \<longrightarrow> tk_state v = RolledBack" by blast
  with keeps_task [OF assms(2)] show "\<exists>t'. map_of (rt_tasks u) i = Some t' \<and> identity t' = identity t
      \<and> (tk_state t = RolledBack \<longrightarrow> tk_state t' = RolledBack)" by fastforce
next
  show "map_of (rt_tokens r) \<subseteq>\<^sub>m map_of (rt_tokens u)" "map_of (rt_owners r) \<subseteq>\<^sub>m map_of (rt_owners u)"
    using assms map_le_trans unfolding keeps_def by blast+
next
  fix i m
  assume "map_of (rt_manifests r) i = Some m"
  with assms show "\<exists>m'. map_of (rt_manifests u) i = Some m' \<and> same_manifest m m'"
    unfolding keeps_def same_manifest_def by fastforce
qed

lemma map_of_map_values: "map_of (map_values f m) k = map_option f (map_of m k)"
  by (induction m) auto

lemma bt_map_values [simp]: "bt_map (map_values f m) = bt_map m"
  by (simp add: bt_map_def comp_def case_prod_unfold)

lemma drift_task_fields [simp]: "tk_id (drift_task D t) = tk_id t" "tk_state (drift_task D t) = tk_state t"
    "identity (drift_task D t) = identity t" "task_ok (drift_task D t) = task_ok t"
    "interrupted (drift_task D t) = interrupted t"
  by (simp_all add: drift_task_def Let_def identity_def task_ok_def interrupted_def)

lemma give_up_fields [simp]: "tk_id (give_up t) = tk_id t" "identity (give_up t) = identity t"
    "task_ok t \<Longrightarrow> task_ok (give_up t)" "\<not> interrupted (give_up t)"
    "tk_state t = RolledBack \<Longrightarrow> tk_state (give_up t) = RolledBack"
  by (auto simp: give_up_def identity_def fail_task_def interrupted_def) (auto simp flip: fail_task_def)

lemma same_manifest_drift [simp]: "same_manifest m (drift_manifest D m)"
  by (simp add: same_manifest_def drift_manifest_def)

text \<open>The runtime of a service that starts on the state of \<open>r\<close>.\<close>

definition restarted :: "runtime_env \<Rightarrow> float_drift \<Rightarrow> string \<Rightarrow> runtime \<Rightarrow> runtime" where
  "restarted E D home r = reprendre (interrompre E (drift_etat D (etat r))) (runtime_sans_broker home)"

lemma interruption_results:
  assumes "bt_map m" "distinct (map tk_id ts)"
  shows "let m' = foldl (\<lambda>m t. if interrupted t then bt_insert (tk_id t) (f t) m else m) m ts
    in bt_map m' \<and> map_of m' i = (case find (\<lambda>t. tk_id t = i \<and> interrupted t) ts of
         Some t \<Rightarrow> Some (f t) | None \<Rightarrow> map_of m i)"
  using assms
proof (induction ts arbitrary: m)
  case (Cons t ts)
  have "find (\<lambda>u. tk_id u = tk_id t \<and> interrupted u) ts = None"
    using Cons.prems(2) by (simp add: find_None_iff) (metis image_eqI)
  with Cons show ?case by (cases "tk_id t = i") (auto simp: Let_def split: option.split)
qed (simp add: Let_def)

lemma distinct_tasks: "rt_ok r \<Longrightarrow> distinct (map tk_id (map snd (rt_tasks r)))"
proof -
  assume ok: "rt_ok r"
  then have "distinct (map fst (rt_tasks r))" using strict_sorted_iff by (auto simp: rt_ok_def bt_map_def)
  moreover from this ok have "map tk_id (map snd (rt_tasks r)) = map fst (rt_tasks r)"
    by (auto simp: rt_ok_def)
  ultimately show ?thesis by (simp only:)
qed

lemma find_task:
  assumes "rt_ok r" and same: "\<And>t. tk_id (f t) = tk_id t"
  shows "find (\<lambda>t. tk_id t = i \<and> P t) (map f (map snd (rt_tasks r)))
    = (case map_of (rt_tasks r) i of Some t \<Rightarrow> if P (f t) then Some (f t) else None | None \<Rightarrow> None)"
proof -
  have "\<forall>(j, t) \<in> set m. tk_id t = j \<Longrightarrow> distinct (map fst m) \<Longrightarrow>
      find (\<lambda>t. tk_id t = i \<and> P t) (map f (map snd m))
    = (case map_of m i of Some t \<Rightarrow> if P (f t) then Some (f t) else None | None \<Rightarrow> None)" for m
  proof (induction m)
    case (Cons jt m)
    obtain j t where jt: "jt = (j, t)" by (cases jt)
    show ?case
    proof (cases "j = i")
      case True
      with Cons.prems have "map_of m i = None" by (auto simp: jt map_of_eq_None_iff)
      with Cons True same show ?thesis by (auto simp: jt)
    next
      case False
      with Cons same show ?thesis by (auto simp: jt)
    qed
  qed simp
  moreover from assms(1) have "distinct (map fst (rt_tasks r))" using strict_sorted_iff by (auto simp: rt_ok_def bt_map_def)
  moreover from this assms(1) have "\<forall>(j, t) \<in> set (rt_tasks r). tk_id t = j" by (auto simp: rt_ok_def)
  ultimately show ?thesis by simp
qed

lemma tables_of_list:
  assumes "bt_map m" "\<forall>i t. map_of m i = Some t \<longrightarrow> tk_id t = i" "\<And>t. tk_id (f t) = tk_id t"
  shows "foldl (\<lambda>m t. bt_insert (tk_id t) t m) [] (map f (map snd m)) = map_values f m"
proof -
  have "map snd (map_values f m) = map f (map snd m)" by (simp add: comp_def case_prod_unfold)
  moreover have "\<forall>i t. map_of (map_values f m) i = Some t \<longrightarrow> tk_id t = i"
    using assms(2,3) by (auto simp: map_of_map_values)
  moreover from this have "foldl (\<lambda>m t. bt_insert (tk_id t) t m) [] (map snd (map_values f m)) = map_values f m"
    by (intro tasks_read_back) (use assms(1) in simp_all)
  ultimately show ?thesis by (simp only:)
qed

lemma restarted_tables:
  assumes "rt_ok r"
  shows "rt_tasks (restarted E D home r) = map_values (\<lambda>t. give_up (drift_task D t)) (rt_tasks r)"
    "rt_tokens (restarted E D home r) = rt_tokens r" "rt_owners (restarted E D home r) = rt_owners r"
    "rt_plans (restarted E D home r) = map_values (drift_plan D) (rt_plans r)"
    "rt_manifests (restarted E D home r) = map_values (drift_manifest D) (rt_manifests r)"
    "rt_journal (restarted E D home r) = map (drift_draft D) (rt_journal r)"
    "rt_home (restarted E D home r) = home" "rt_broker (restarted E D home r) = None"
    "bt_map (rt_results (restarted E D home r))"
    "map_of (rt_results (restarted E D home r)) i = (case map_of (rt_tasks r) i of
        Some t \<Rightarrow> if interrupted t then Some (interruption_entry E (give_up (drift_task D t)))
                  else map_option (drift_json D) (map_of (rt_results r) i)
      | None \<Rightarrow> map_option (drift_json D) (map_of (rt_results r) i))"
proof -
  note defs = restarted_def reprendre_def interrompre_def drift_etat_def etat_def runtime_sans_broker_def
    runtime_new_def
  have "map give_up (map (drift_task D) (map snd (rt_tasks r)))
      = map (\<lambda>t. give_up (drift_task D t)) (map snd (rt_tasks r))"
    by simp
  then show "rt_tasks (restarted E D home r) = map_values (\<lambda>t. give_up (drift_task D t)) (rt_tasks r)"
    using tables_of_list [of "rt_tasks r" "\<lambda>t. give_up (drift_task D t)"] assms
    by (simp add: defs rt_ok_def del: map_map)
  show "rt_tokens (restarted E D home r) = rt_tokens r" "rt_owners (restarted E D home r) = rt_owners r"
    "rt_plans (restarted E D home r) = map_values (drift_plan D) (rt_plans r)"
    "rt_manifests (restarted E D home r) = map_values (drift_manifest D) (rt_manifests r)"
    using assms by (simp_all add: defs rt_ok_def bt_extend_Nil)
  show "rt_journal (restarted E D home r) = map (drift_draft D) (rt_journal r)"
    "rt_home (restarted E D home r) = home" "rt_broker (restarted E D home r) = None"
    by (simp_all add: defs)
  let ?f = "\<lambda>t. interruption_entry E (give_up t)"
  have dist: "distinct (map tk_id (map (drift_task D) (map snd (rt_tasks r))))"
    using distinct_tasks [OF assms] by (simp add: comp_def)
  have sorted: "bt_map (map_values (drift_json D) (rt_results r))" using assms by (simp add: rt_ok_def)
  have results: "rt_results (restarted E D home r) = foldl (\<lambda>m t. if interrupted t then bt_insert (tk_id t) (?f t) m else m)
      (map_values (drift_json D) (rt_results r)) (map (drift_task D) (map snd (rt_tasks r)))"
    using interruption_results [OF sorted dist, of ?f] by (simp add: defs bt_extend_Nil Let_def del: map_map)
  show "bt_map (rt_results (restarted E D home r))"
    unfolding results using interruption_results [OF sorted dist, of ?f] by (simp add: Let_def del: map_map)
  show "map_of (rt_results (restarted E D home r)) i = (case map_of (rt_tasks r) i of
        Some t \<Rightarrow> if interrupted t then Some (interruption_entry E (give_up (drift_task D t)))
                  else map_option (drift_json D) (map_of (rt_results r) i)
      | None \<Rightarrow> map_option (drift_json D) (map_of (rt_results r) i))"
    unfolding results
    using interruption_results [OF sorted dist, of ?f i] find_task [OF assms, of "drift_task D" i interrupted]
    by (auto simp: Let_def map_of_map_values simp del: map_map split: option.splits)
qed

lemma restarted_ok:
  assumes "rt_ok r"
  shows "rt_ok (restarted E D home r)" "keeps r (restarted E D home r)"
proof -
  note tables = restarted_tables [OF assms, of E D home]
  show "rt_ok (restarted E D home r)"
    using assms unfolding rt_ok_def tables
    by (auto simp: tables map_of_map_values dom_def subset_iff)
  show "keeps r (restarted E D home r)"
    unfolding keeps_def tables by (auto simp: map_of_map_values)
qed

text \<open>A start on a file that holds the state of \<open>r\<close>.\<close>

lemma start_reads:
  assumes "file_ok F D" "sf_print F (etat r) = Some texte"
    and "demarrer F E lisible fault home (Some texte) = (f, started)"
  obtains (unreadable) "f = Some texte" "started = None"
    | (read) ok where "ecrire F fault (etat (restarted E D home r)) (Some texte) = (f, ok)"
        "started = (if ok then Some (restarted E D home r) else None)"
proof (cases "relire_etat F lisible (Some texte)")
  case None
  with assms(3) unreadable show thesis by (simp add: demarrer_def)
next
  case (Some e)
  have "sf_parse F texte \<in> {Some (drift_etat D (etat r)), None}"
    using assms(1,2) unfolding file_ok_def by blast
  with Some have e: "e = drift_etat D (etat r)" by (auto simp: relire_etat_def split: if_splits)
  obtain f1 ok where "ecrire F fault (etat (restarted E D home r)) (Some texte) = (f1, ok)" by fastforce
  with assms(3) Some show thesis by (intro read [of ok]) (auto simp: demarrer_def e restarted_def)
qed

lemma ecrire_file: "ecrire F fault e f = (f', ok) \<Longrightarrow>
    (f' = f \<and> \<not> ok) \<or> (\<exists>texte. sf_print F e = Some texte \<and> f' = Some texte)"
  by (auto simp: ecrire_def split: option.splits save_fault.splits)

end
