(* ===== verification/Service_Life.thy ===== *)
theory Service_Life
  imports Service_Restart
begin

text \<open>
  What holds of the service of missions along every sequence of its steps, failures of the disk and
  of the journal and restarts included: the tables stay well formed, a mission with a worker is
  running, failed or cancelled, a mission rolled back stays so, and what was saved is found again.
\<close>

section \<open>The steps of the service\<close>

text \<open>
  A settled mission, and one in the hands of a worker, is moved by no operation of the runtime but a
  cancellation.
\<close>

lemma rt_step_states:
  assumes "rt_step E r r'" "rt_ok r" "map_of (rt_tasks r) i = Some t"
    and "tk_state t \<in> {Running, Failed, Cancelled, RolledBack}"
  shows "\<exists>t'. map_of (rt_tasks r') i = Some t'
    \<and> (tk_state t' = tk_state t \<or> tk_state t = Running \<and> tk_state t' = Cancelled)"
  using assms(1)
proof cases
  case rs_plan
  then show ?thesis
    using assms(2-4) by (cases rule: planifier_cases) (auto simp: Let_def rt_ok_def)
next
  case rs_run
  then obtain j D now res where run: "run_driver E j D now r = (r', res)" by blast
  show ?thesis
  proof (cases "map_of (rt_tasks r) j")
    case None
    with run assms(3) show ?thesis by (auto simp: run_driver_def)
  next
    case (Some u)
    from run assms(2) Some show ?thesis
    proof (cases rule: run_driver_cases)
      case (looped response s lres t1)
      have "i \<noteq> j" using looped(2) assms(3,4) Some by (auto simp: can_move_to_def)
      obtain r1 rep t' where c: "run_close E j (st_driver (start_request_for E j u r)) now s = (r1, Ok rep)"
        "map_of (rt_tasks r1) = (map_of (rt_tasks (rs_runtime s)))(j \<mapsto> t')"
        by (rule close_in_hand [OF looped(5,6,3)]) (erule (1) that)
      with looped(9) have "r' = rs_runtime s \<or> r' = r1" by auto
      with c(2) looped(4) \<open>i \<noteq> j\<close> assms(3) show ?thesis by auto
    qed (use assms(3) in auto)
  qed
next
  case rs_cancel
  then show ?thesis
    using assms(2-4) by (auto simp: cancel_def Task_Life.transition_def can_move_to_def rt_ok_def
        split: option.splits if_splits)
next
  case rs_cancel_unstarted
  then show ?thesis
    using assms(2-4) by (auto simp: cancel_unstarted_def Task_Life.transition_def can_move_to_def rt_ok_def
        split: option.splits if_splits)
next
  case rs_owner
  then show ?thesis using assms(3) by (auto simp: bind_owner_def split: if_splits)
next
  case rs_link
  then show ?thesis using assms(2,3) by (auto simp: link_child_def rt_ok_def split: option.splits if_splits)
next
  case rs_absorb
  then show ?thesis using assms(2,3)
    by (auto simp: absorb_child_def absorb_usage_def rt_ok_def split: option.splits)
next
  case rs_profile
  then show ?thesis using assms(3) by (auto simp: set_profile_def split: option.splits)
next
  case rs_role
  then show ?thesis using assms(2,3) by (auto simp: set_role_def rt_ok_def split: option.splits)
next
  case rs_publication
  then show ?thesis
    using assms(2-4) by (auto simp: record_publication_def Let_def Task_Life.transition_def can_move_to_def rt_ok_def
        split: option.splits if_splits publication.splits prod.splits)
next
  case rs_denied
  then show ?thesis using assms(3) by (simp add: record_publication_denied_def)
next
  case rs_received
  then show ?thesis using assms(3) by (simp add: journal_recu_def)
qed

inductive svc_work :: "state_file \<Rightarrow> runtime_env \<Rightarrow> service \<Rightarrow> service \<Rightarrow> bool" for F E where
  sw_op: "rt_step E (sv_runtime s) r \<Longrightarrow> svc_work F E s (s\<lparr>sv_runtime := r\<rparr>)"
| sw_save: "enregistrer F fault s = (s', ok) \<Longrightarrow> svc_work F E s s'"
| sw_launch: "lancer F fault i seance busy stop s = (s', out) \<Longrightarrow> svc_work F E s s'"
| sw_child: "lancer_enfant F fault i stop s = (s', out) \<Longrightarrow> svc_work F E s s'"
| sw_not_spawned: "sv_workers s i = Some w \<Longrightarrow> non_lance F fault i s = (s', ok) \<Longrightarrow> svc_work F E s s'"
| sw_charge: "sv_workers s i = Some w \<Longrightarrow>
    worker_charge F fault i elapsed model tin tout late fatal w s = (s', res) \<Longrightarrow> svc_work F E s s'"
| sw_absorb: "sv_workers s i = Some w \<Longrightarrow> svc_work F E s (worker_absorb F fault i sp usage w s)"
| sw_conclude: "sv_workers s i = Some w \<Longrightarrow> wk_stop w \<longrightarrow> stop1 \<Longrightarrow> stop1 \<longrightarrow> stop2 \<Longrightarrow>
    svc_work F E s (worker_conclude E F fault i elapsed now1 now2 outcome stop1 stop2 journal w s)"
| sw_died: "sv_workers s i = Some w \<Longrightarrow> svc_work F E s (worker_died F fault i why w s)"
| sw_stop: "annuler E i now s = (s', res') \<Longrightarrow> svc_work F E s s'"
| sw_unlist: "svc_work F E s (retirer i s)"
| sw_client: "svc_work F E s (client_parti E F fault i driver launch_error texte s)"

text \<open>
  The service is stopped at any moment and started again, perhaps after starts that failed: the
  workers are gone, the file is what is left.
\<close>

inductive failed_start :: "state_file \<Rightarrow> runtime_env \<Rightarrow> string \<Rightarrow> string option \<Rightarrow> string option \<Rightarrow> bool"
  for F E home where
  fs: "demarrer F E lisible fault home f = (f', None) \<Longrightarrow> failed_start F E home f f'"

inductive svc_step :: "state_file \<Rightarrow> runtime_env \<Rightarrow> string \<Rightarrow> service \<Rightarrow> service \<Rightarrow> bool" for F E home where
  sv_work: "svc_work F E s s' \<Longrightarrow> svc_step F E home s s'"
| sv_restart: "(failed_start F E home)\<^sup>*\<^sup>* (sv_file s) f \<Longrightarrow>
    demarrer F E lisible fault home f = (f', Some r) \<Longrightarrow>
    svc_step F E home s \<lparr>sv_runtime = r\<lparr>rt_keys := rt_keys (sv_runtime s)\<rparr>,
      sv_workers = (\<lambda>_. None), sv_file = f'\<rparr>"

section \<open>The invariant\<close>

definition copy_ok :: "task \<Rightarrow> task \<Rightarrow> bool" where
  "copy_ok t u \<longleftrightarrow> identity u = identity t \<and> tk_state u = Running \<and> task_ok u"

definition worker_ok :: "runtime \<Rightarrow> string \<Rightarrow> worker \<Rightarrow> bool" where
  "worker_ok r i w \<longleftrightarrow> (\<exists>t. map_of (rt_tasks r) i = Some t \<and> tk_state t \<in> {Running, Failed, Cancelled}
     \<and> copy_ok t (wk_launch w) \<and> copy_ok t (wk_task w))"

definition disk_ok :: "state_file \<Rightarrow> string option \<Rightarrow> bool" where
  "disk_ok F f \<longleftrightarrow> (\<forall>texte. f = Some texte \<longrightarrow> (\<exists>r. rt_ok r \<and> sf_print F (etat r) = Some texte))"

definition svc_ok :: "state_file \<Rightarrow> service \<Rightarrow> bool" where
  "svc_ok F s \<longleftrightarrow> rt_ok (sv_runtime s) \<and> disk_ok F (sv_file s)
     \<and> (\<forall>i w. sv_workers s i = Some w \<longrightarrow> worker_ok (sv_runtime s) i w)"

definition work_le :: "runtime \<Rightarrow> runtime \<Rightarrow> bool" where
  "work_le r r' \<longleftrightarrow> rt_le r r' \<and> (\<forall>i t. map_of (rt_tasks r) i = Some t \<and> tk_state t = RolledBack \<longrightarrow>
     (\<exists>t'. map_of (rt_tasks r') i = Some t' \<and> tk_state t' = RolledBack))"

definition file_step :: "state_file \<Rightarrow> service \<Rightarrow> service \<Rightarrow> bool" where
  "file_step F s s' \<longleftrightarrow> sv_file s' = sv_file s
     \<or> (\<exists>r texte. rt_ok r \<and> work_le (sv_runtime s) r \<and> sf_print F (etat r) = Some texte \<and> sv_file s' = Some texte)"

definition advances :: "state_file \<Rightarrow> service \<Rightarrow> service \<Rightarrow> bool" where
  "advances F s s' \<longleftrightarrow> svc_ok F s' \<and> work_le (sv_runtime s) (sv_runtime s') \<and> file_step F s s'"

lemma work_le_refl [simp]: "work_le r r"
  by (simp add: work_le_def)

lemma work_le_trans: "work_le r s \<Longrightarrow> work_le s u \<Longrightarrow> work_le r u"
  unfolding work_le_def using rt_le_trans by blast

lemma work_keeps:
  assumes "work_le r r'"
  shows "keeps r r'"
  unfolding keeps_def
proof (intro conjI allI impI)
  fix i t
  assume t: "map_of (rt_tasks r) i = Some t"
  with assms obtain t' where "map_of (rt_tasks r') i = Some t'" "identity t' = identity t"
    unfolding work_le_def rt_le_def by blast
  moreover have "\<exists>v. map_of (rt_tasks r') i = Some v \<and> tk_state v = RolledBack" if "tk_state t = RolledBack"
    using assms t that unfolding work_le_def by blast
  ultimately show "\<exists>t'. map_of (rt_tasks r') i = Some t' \<and> identity t' = identity t
      \<and> (tk_state t = RolledBack \<longrightarrow> tk_state t' = RolledBack)" by auto
next
  show "map_of (rt_tokens r) \<subseteq>\<^sub>m map_of (rt_tokens r')" "map_of (rt_owners r) \<subseteq>\<^sub>m map_of (rt_owners r')"
    using assms by (simp_all add: work_le_def rt_le_def)
next
  fix i m
  assume "map_of (rt_manifests r) i = Some m"
  moreover have "map_of (rt_manifests r) \<subseteq>\<^sub>m map_of (rt_manifests r')"
    using assms by (simp add: work_le_def rt_le_def)
  ultimately have "map_of (rt_manifests r') i = Some m" by (metis domI map_le_def)
  then show "\<exists>m'. map_of (rt_manifests r') i = Some m' \<and> same_manifest m m'" by (simp add: same_manifest_def)
qed

lemma advances_refl: "svc_ok F s \<Longrightarrow> advances F s s"
  by (simp add: advances_def file_step_def)

lemma advances_trans: "advances F s u \<Longrightarrow> advances F u v \<Longrightarrow> advances F s v"
  unfolding advances_def file_step_def using work_le_trans by metis

lemma advances_save:
  assumes "svc_ok F s" "enregistrer F fault s = (s', ok)"
  shows "advances F s s'" "sv_runtime s' = sv_runtime s" "sv_workers s' = sv_workers s"
proof -
  obtain f where f: "ecrire F fault (etat (sv_runtime s)) (sv_file s) = (f, ok)" "s' = s\<lparr>sv_file := f\<rparr>"
    using assms(2) by (auto simp: enregistrer_def split: prod.splits)
  from ecrire_file [OF f(1)] assms(1) show "advances F s s'"
    by (auto simp: f(2) advances_def svc_ok_def file_step_def disk_ok_def)
  show "sv_runtime s' = sv_runtime s" "sv_workers s' = sv_workers s" by (simp_all add: f(2))
qed

lemma advances_workers:
  assumes "svc_ok F s" "\<And>i w. W i = Some w \<Longrightarrow> sv_workers s i = Some w \<or> worker_ok (sv_runtime s) i w"
  shows "advances F s (s\<lparr>sv_workers := W\<rparr>)"
  using assms by (auto simp: advances_def svc_ok_def file_step_def)

lemma advances_worker: "svc_ok F s \<Longrightarrow> worker_ok (sv_runtime s) i w \<Longrightarrow>
    advances F s (s\<lparr>sv_workers := (sv_workers s)(i \<mapsto> w)\<rparr>)"
  by (rule advances_workers) (auto split: if_splits)

lemma advances_drop: "svc_ok F s \<Longrightarrow> advances F s (s\<lparr>sv_workers := (sv_workers s)(i := None)\<rparr>)"
  by (rule advances_workers) (auto split: if_splits)

lemma copy_ok_trans: "identity u = identity t \<Longrightarrow> copy_ok t v \<Longrightarrow> copy_ok u v"
  by (simp add: copy_ok_def)

text \<open>A task is written over the runtime's own, by somebody who may.\<close>

lemma advances_put:
  assumes "svc_ok F s" "map_of (rt_tasks (sv_runtime s)) i = Some t0" "tk_state t0 \<noteq> RolledBack"
    and "identity t = identity t0" "task_ok t"
    and "tk_state t \<in> {Running, Failed, Cancelled} \<or> sv_workers s i = None"
  shows "advances F s (s\<lparr>sv_runtime := publish_local t result (sv_runtime s)\<rparr>)" (is "advances F s ?s")
proof -
  have ok: "rt_ok (sv_runtime s)" and disk: "disk_ok F (sv_file s)" using assms(1) by (simp_all add: svc_ok_def)
  have i: "tk_id t = i" using ok assms(2,4) by (auto simp: rt_ok_def identity_def)
  have "grows (sv_runtime s) (sv_runtime ?s)"
    using publish_local_grows [of "sv_runtime s" t t0 result] assms(2,4,5) i by simp
  with ok have grown: "rt_ok (sv_runtime ?s)" "rt_le (sv_runtime s) (sv_runtime ?s)" by (simp_all add: grows_def)
  have tasks: "map_of (rt_tasks (sv_runtime ?s)) = (map_of (rt_tasks (sv_runtime s)))(i \<mapsto> t)"
    using ok i by (simp add: publish_local_def rt_ok_def)
  have workers: "worker_ok (sv_runtime ?s) j w" if "sv_workers s j = Some w" for j w
  proof -
    from that assms(1) obtain u where u: "map_of (rt_tasks (sv_runtime s)) j = Some u"
      "tk_state u \<in> {Running, Failed, Cancelled}" "copy_ok u (wk_launch w)" "copy_ok u (wk_task w)"
      by (auto simp: svc_ok_def worker_ok_def)
    show ?thesis
    proof (cases "j = i")
      case True
      with u assms(2) have "u = t0" by simp
      with u(3,4) have "copy_ok t (wk_launch w)" "copy_ok t (wk_task w)"
        using copy_ok_trans [OF assms(4)] by simp_all
      with True that assms(6) tasks show ?thesis by (auto simp: worker_ok_def)
    qed (use u tasks in \<open>auto simp: worker_ok_def\<close>)
  qed
  have "work_le (sv_runtime s) (sv_runtime ?s)"
    unfolding work_le_def using grown(2) assms(2,3) tasks by auto
  with grown workers disk show ?thesis by (simp add: advances_def svc_ok_def file_step_def)
qed

lemma advances_op:
  assumes "svc_ok F s" "rt_step E (sv_runtime s) r"
  shows "advances F s (s\<lparr>sv_runtime := r\<rparr>)"
proof -
  have ok: "rt_ok (sv_runtime s)" and disk: "disk_ok F (sv_file s)" using assms(1) by (simp_all add: svc_ok_def)
  have grown: "rt_ok r" "rt_le (sv_runtime s) r"
    using rt_step_grows [OF assms(2)] ok by (simp_all add: grows_def)
  have workers: "worker_ok r i w" if "sv_workers s i = Some w" for i w
  proof -
    from that assms(1) obtain u where u: "map_of (rt_tasks (sv_runtime s)) i = Some u"
      "tk_state u \<in> {Running, Failed, Cancelled}" "copy_ok u (wk_launch w)" "copy_ok u (wk_task w)"
      by (auto simp: svc_ok_def worker_ok_def)
    obtain t where t: "map_of (rt_tasks r) i = Some t" "tk_state t \<in> {Running, Failed, Cancelled}"
      using rt_step_states [OF assms(2) ok u(1)] u(2) by auto
    from grown(2) u(1) t(1) have "identity t = identity u" by (fastforce simp: rt_le_def)
    from copy_ok_trans [OF this u(3)] copy_ok_trans [OF this u(4)] t show ?thesis
      by (auto simp: worker_ok_def)
  qed
  have "work_le (sv_runtime s) r"
    unfolding work_le_def using grown(2) rt_step_states [OF assms(2) ok] by fastforce
  with grown workers disk show ?thesis by (simp add: advances_def svc_ok_def file_step_def)
qed

lemma begin_task_cases:
  assumes "begin_task i seance r = (r', res)" "rt_ok r"
  obtains (refused) e where "res = Err e" "r' = r"
    | (begun) t t' x where "res = Ok (t', x)" "map_of (rt_tasks r) i = Some t" "can_move_to (tk_state t) Running"
        "r' = publish_local t' None r" "identity t' = identity t" "tk_state t' = Running" "task_ok t'"
proof (cases res)
  case (Inl e)
  with assms(1) refused show thesis
    by (auto simp: begin_task_def Let_def split: option.splits if_splits sum.splits)
next
  case (Inr a)
  with assms(1) obtain t t' x where t: "a = (t', x)" "map_of (rt_tasks r) i = Some t"
    "Task_Life.transition Running None t = Ok t'" "r' = r\<lparr>rt_tasks := bt_insert i t' (rt_tasks r)\<rparr>"
    by (auto simp: begin_task_def Let_def split: option.splits if_splits sum.splits)
  have "tk_id t = i" "task_ok t" using assms(2) t(2) by (simp_all add: rt_ok_def)
  with transition_Ok [OF t(3)] have "tk_id t' = i" by simp
  then have "r' = publish_local t' None r" by (simp add: t(4) publish_local_def)
  with begun Inr t transition_Ok [OF t(3)] identity_life [OF ls_transition [OF t(3)]]
    life_step_ok [OF ls_transition [OF t(3)] \<open>task_ok t\<close>]
  show thesis by blast
qed

text \<open>A mission that may start has no worker.\<close>

lemma startable_idle:
  assumes "svc_ok F s" "map_of (rt_tasks (sv_runtime s)) i = Some t" "can_move_to (tk_state t) Running"
  shows "sv_workers s i = None" "tk_state t \<noteq> RolledBack"
proof -
  from assms(3) have "tk_state t \<notin> {Running, Failed, Cancelled, RolledBack}" by (auto simp: can_move_to_def)
  with assms(1,2) show "sv_workers s i = None" "tk_state t \<noteq> RolledBack"
    by (cases "sv_workers s i"; force simp: svc_ok_def worker_ok_def)+
qed

text \<open>A mission begun and saved gets its worker; both ways of launching share this.\<close>

lemma advances_begun:
  assumes "svc_ok F s" "begin_task i seance (sv_runtime s) = (r, Ok (t', x))"
    and "enregistrer F fault (s\<lparr>sv_runtime := r\<rparr>) = (s1, ok)"
  shows "advances F s s1" "\<And>st l. worker_ok (sv_runtime s1) i \<lparr>wk_launch = t', wk_task = t', wk_stop = st, wk_listed = l\<rparr>"
    "map_of (rt_tasks (sv_runtime s1)) i = Some t'" "tk_state t' = Running" "task_ok t'"
    "svc_ok F s1"
proof -
  have rok: "rt_ok (sv_runtime s)" using assms(1) by (simp add: svc_ok_def)
  from assms(2) rok have "advances F s s1 \<and> map_of (rt_tasks (sv_runtime s1)) i = Some t'
    \<and> tk_state t' = Running \<and> task_ok t' \<and> svc_ok F s1
    \<and> (\<forall>st l. worker_ok (sv_runtime s1) i \<lparr>wk_launch = t', wk_task = t', wk_stop = st, wk_listed = l\<rparr>)"
  proof (cases rule: begin_task_cases)
    case (begun t u y)
    then have u: "u = t'" by simp
    note idle = startable_idle [OF assms(1) begun(2,3)]
    have put: "advances F s (s\<lparr>sv_runtime := r\<rparr>)"
      unfolding begun(4) by (rule advances_put [OF assms(1) begun(2) idle(2) begun(5,7)]) (simp add: begun(6))
    then have "svc_ok F (s\<lparr>sv_runtime := r\<rparr>)" by (simp add: advances_def)
    from advances_save [OF this assms(3)] put have adv: "advances F s s1" and run: "sv_runtime s1 = r"
      using advances_trans by auto
    have "tk_id t' = i" using rok begun(2,5) by (auto simp: rt_ok_def identity_def u)
    then have task: "map_of (rt_tasks (sv_runtime s1)) i = Some t'"
      using rok by (simp add: run begun(4) u publish_local_def rt_ok_def)
    with begun(6,7) have "worker_ok (sv_runtime s1) i \<lparr>wk_launch = t', wk_task = t', wk_stop = st, wk_listed = l\<rparr>" for st l
      by (simp add: worker_ok_def copy_ok_def u)
    with adv task begun(6,7) show ?thesis by (simp add: u advances_def)
  qed simp
  then show "advances F s s1" "map_of (rt_tasks (sv_runtime s1)) i = Some t'"
    "tk_state t' = Running" "task_ok t'" "svc_ok F s1"
    "\<And>st l. worker_ok (sv_runtime s1) i \<lparr>wk_launch = t', wk_task = t', wk_stop = st, wk_listed = l\<rparr>"
    by simp_all
qed

lemma fail_task_identity [simp]: "identity (fail_task why t) = identity t"
  by (simp add: fail_task_def identity_def)

lemma lancer_advances: "lancer F fault i seance busy stop s = (s', out) \<Longrightarrow> svc_ok F s \<Longrightarrow> advances F s s'"
proof (cases busy)
  case False
  assume step: "lancer F fault i seance busy stop s = (s', out)" and ok: "svc_ok F s"
  then have rok: "rt_ok (sv_runtime s)" by (simp add: svc_ok_def)
  obtain r res where b: "begin_task i seance (sv_runtime s) = (r, res)" by fastforce
  show ?thesis
  proof (cases res)
    case (Inl e)
    with b rok have "r = sv_runtime s" by (auto elim: begin_task_cases)
    with step b Inl False ok show ?thesis by (simp add: lancer_def advances_refl)
  next
    case (Inr a)
    obtain t' x where a: "a = (t', x)" by (cases a) simp
    obtain s1 saved where e: "enregistrer F fault (s\<lparr>sv_runtime := r\<rparr>) = (s1, saved)" by fastforce
    note begun = advances_begun [OF ok b [unfolded Inr a] e]
    show ?thesis
    proof (cases saved)
      case True
      have "advances F s1 s'"
        using step b Inr a e True False advances_worker [OF begun(6,2)] by (auto simp: lancer_def)
      with begun(1) show ?thesis by (rule advances_trans)
    next
      case unsaved: False
      have "advances F s1 s'"
        using step b Inr a e unsaved False begun(4,5) advances_put [OF begun(6,3)]
        by (auto simp: lancer_def)
      with begun(1) show ?thesis by (rule advances_trans)
    qed
  qed
qed (simp add: lancer_def advances_refl)

lemma lancer_enfant_advances: "lancer_enfant F fault i stop s = (s', out) \<Longrightarrow> svc_ok F s \<Longrightarrow> advances F s s'"
proof -
  assume step: "lancer_enfant F fault i stop s = (s', out)" and ok: "svc_ok F s"
  then have rok: "rt_ok (sv_runtime s)" by (simp add: svc_ok_def)
  obtain r res where b: "begin_task i False (sv_runtime s) = (r, res)" by fastforce
  show ?thesis
  proof (cases res)
    case (Inl e)
    with b rok have "r = sv_runtime s" by (auto elim: begin_task_cases)
    with step b Inl ok show ?thesis by (simp add: lancer_enfant_def begin_local_def advances_refl)
  next
    case (Inr a)
    obtain t' x where a: "a = (t', x)" by (cases a) simp
    obtain s1 saved where e: "enregistrer F fault (s\<lparr>sv_runtime := r\<rparr>) = (s1, saved)" by fastforce
    note begun = advances_begun [OF ok b [unfolded Inr a] e]
    have "advances F s1 s'"
      using step b Inr a e advances_worker [OF begun(6,2)] advances_refl [OF begun(6)]
      by (cases saved) (auto simp: lancer_enfant_def begin_local_def)
    with begun(1) show ?thesis by (rule advances_trans)
  qed
qed

text \<open>A worker hands over a copy, which is saved; it may go on with it.\<close>

lemma advances_publish:
  assumes "svc_ok F s" "map_of (rt_tasks (sv_runtime s)) i = Some t0" "tk_state t0 \<noteq> RolledBack"
    and "identity t = identity t0" "task_ok t"
    and "tk_state t \<in> {Running, Failed, Cancelled} \<or> sv_workers s i = None"
    and "publier F fault t result s = (s', ok)"
  shows "advances F s s'" "svc_ok F s'" "sv_workers s' = sv_workers s" "map_of (rt_tasks (sv_runtime s')) i = Some t"
proof -
  let ?s = "s\<lparr>sv_runtime := publish_local t result (sv_runtime s)\<rparr>"
  have put: "advances F s ?s" by (rule advances_put [OF assms(1-6)])
  then have "svc_ok F ?s" by (simp add: advances_def)
  from advances_save [OF this assms(7) [unfolded publier_def]] put
  show adv: "advances F s s'" and "sv_workers s' = sv_workers s" using advances_trans by auto
  from adv show "svc_ok F s'" by (simp add: advances_def)
  have "rt_ok (sv_runtime s)" using assms(1) by (simp add: svc_ok_def)
  with assms(2,4) have "tk_id t = i" "sorted (map fst (rt_tasks (sv_runtime s)))"
    by (auto simp: rt_ok_def identity_def)
  with advances_save(2) [OF \<open>svc_ok F ?s\<close> assms(7) [unfolded publier_def]]
  show "map_of (rt_tasks (sv_runtime s')) i = Some t" by (simp add: publish_local_def)
qed

text \<open>A worker that goes on, or goes away, with what it has handed over.\<close>

lemma handed_over:
  assumes "svc_ok F s" "sv_workers s i = Some w" "identity t = identity (wk_task w)" "task_ok t"
    and "publier F fault t result s = (s1, ok)"
  shows "tk_state t = Running \<Longrightarrow> advances F s (s1\<lparr>sv_workers := (sv_workers s1)(i \<mapsto> w\<lparr>wk_task := t\<rparr>)\<rparr>)"
    "advances F s (s1\<lparr>sv_workers := (sv_workers s1)(i := None)\<rparr>)"
proof -
  from assms(1,2) obtain t0 where t0: "map_of (rt_tasks (sv_runtime s)) i = Some t0"
    "tk_state t0 \<in> {Running, Failed, Cancelled}" "copy_ok t0 (wk_launch w)" "copy_ok t0 (wk_task w)"
    by (auto simp: svc_ok_def worker_ok_def)
  with assms(3) have ident: "identity t = identity t0" "tk_state t0 \<noteq> RolledBack" by (auto simp: copy_ok_def)
  show "advances F s (s1\<lparr>sv_workers := (sv_workers s1)(i \<mapsto> w\<lparr>wk_task := t\<rparr>)\<rparr>)" if "tk_state t = Running"
  proof -
    note pub = advances_publish [OF assms(1) t0(1) ident(2,1) assms(4) _ assms(5)]
    have "worker_ok (sv_runtime s1) i (w\<lparr>wk_task := t\<rparr>)"
      using pub(4) that t0(3) ident(1) assms(4) by (auto simp: worker_ok_def copy_ok_def)
    with pub(1,2) that show ?thesis using advances_worker advances_trans by blast
  qed
  show "advances F s (s1\<lparr>sv_workers := (sv_workers s1)(i := None)\<rparr>)"
  proof -
    let ?s = "s\<lparr>sv_workers := (sv_workers s)(i := None)\<rparr>"
    have drop: "advances F s ?s" by (rule advances_drop [OF assms(1)])
    have "publier F fault t result ?s = (s1\<lparr>sv_workers := (sv_workers s1)(i := None)\<rparr>, ok)"
      using assms(5) by (auto simp: publier_def enregistrer_def split: prod.splits)
    moreover have "svc_ok F ?s" using drop by (simp add: advances_def)
    ultimately have "advances F ?s (s1\<lparr>sv_workers := (sv_workers s1)(i := None)\<rparr>)"
      using t0(1) by (intro advances_publish(1) [OF _ _ ident(2,1) assms(4)]) auto
    with drop show ?thesis by (rule advances_trans)
  qed
qed

lemma worker_copies:
  assumes "svc_ok F s" "sv_workers s i = Some w"
  shows "tk_state (wk_task w) = Running" "task_ok (wk_task w)" "task_ok (wk_launch w)"
    "identity (wk_launch w) = identity (wk_task w)"
    "\<exists>t. map_of (rt_tasks (sv_runtime s)) i = Some t \<and> tk_state t \<in> {Running, Failed, Cancelled}"
proof -
  from assms have "worker_ok (sv_runtime s) i w" by (simp add: svc_ok_def)
  then obtain t where t: "map_of (rt_tasks (sv_runtime s)) i = Some t" "tk_state t \<in> {Running, Failed, Cancelled}"
    "copy_ok t (wk_launch w)" "copy_ok t (wk_task w)"
    unfolding worker_ok_def by blast
  then show "tk_state (wk_task w) = Running" "task_ok (wk_task w)" "task_ok (wk_launch w)"
    "identity (wk_launch w) = identity (wk_task w)"
    "\<exists>t. map_of (rt_tasks (sv_runtime s)) i = Some t \<and> tk_state t \<in> {Running, Failed, Cancelled}"
    unfolding copy_ok_def by auto
qed

lemma charge_advances: "sv_workers s i = Some w \<Longrightarrow> svc_ok F s \<Longrightarrow>
    worker_charge F fault i elapsed model tin tout late fatal w s = (s', res) \<Longrightarrow> advances F s s'"
  using handed_over(1) [of F s i w "charged elapsed model tin tout (wk_task w)" fault None] worker_copies [of F s i w]
  by (auto simp: worker_charge_def charged_ok Let_def split: prod.splits)

lemma absorb_advances:
  assumes "sv_workers s i = Some w" "svc_ok F s"
  shows "advances F s (worker_absorb F fault i sp usage w s)"
proof (cases "absorb_result sp usage (wk_task w)")
  case None
  with assms(2) show ?thesis by (simp add: worker_absorb_def advances_refl)
next
  case (Some t)
  obtain s1 ok where p: "publier F fault t None s = (s1, ok)" by fastforce
  then have "sv_workers s1 = sv_workers s" by (auto simp: publier_def enregistrer_def split: prod.splits)
  moreover have "advances F s (s1\<lparr>sv_workers := (sv_workers s1)(i \<mapsto> w\<lparr>wk_task := t\<rparr>)\<rparr>)"
    using absorb_result_keeps [OF Some] worker_copies [OF assms(2,1)]
    by (intro handed_over(1) [OF assms(2,1) _ _ p]) simp_all
  ultimately show ?thesis using Some p by (simp add: worker_absorb_def)
qed

lemma ended:
  assumes "sv_workers s i = Some w" "svc_ok F s" "identity t = identity (wk_task w)" "task_ok t"
  shows "advances F s ((fst (publier F fault t result s))\<lparr>sv_workers := (sv_workers s)(i := None)\<rparr>)"
proof -
  obtain s1 ok where p: "publier F fault t result s = (s1, ok)" by fastforce
  then have "sv_workers s1 = sv_workers s" by (auto simp: publier_def enregistrer_def split: prod.splits)
  with handed_over(2) [OF assms(2,1,3,4) p] p show ?thesis by simp
qed

lemma conclude_advances:
  assumes "sv_workers s i = Some w" "svc_ok F s"
  shows "advances F s (worker_conclude E F fault i elapsed n1 n2 outcome stop1 stop2 journal w s)"
proof -
  obtain t data ds where c: "conclude E elapsed n1 n2 outcome stop1 stop2 journal (wk_task w) = (t, data, ds)"
    by (cases "conclude E elapsed n1 n2 outcome stop1 stop2 journal (wk_task w)")
  obtain st reason kept where v: "verdict outcome stop1 stop2 = (st, reason, kept)"
    by (cases "verdict outcome stop1 stop2")
  note copies = worker_copies [OF assms(2,1)]
  from conclude_running(1,2) [OF copies(1) c v] copies(2) ended [OF assms, of t] c show ?thesis
    by (simp add: worker_conclude_def)
qed

lemma died_advances: "sv_workers s i = Some w \<Longrightarrow> svc_ok F s \<Longrightarrow> advances F s (worker_died F fault i why w s)"
  unfolding worker_died_def using worker_copies [of F s i w] by (intro ended) simp_all

lemma not_spawned_advances:
  assumes "sv_workers s i = Some w" "svc_ok F s" "non_lance F fault i s = (s', ok)"
  shows "advances F s s'"
proof -
  obtain t where t: "map_of (rt_tasks (sv_runtime s)) i = Some t" "tk_state t \<in> {Running, Failed, Cancelled}"
    using worker_copies(5) [OF assms(2,1)] by blast
  have drop: "advances F s (s\<lparr>sv_workers := (sv_workers s)(i := None)\<rparr>)" by (rule advances_drop [OF assms(2)])
  have "task_ok t" using assms(2) t(1) by (simp add: svc_ok_def rt_ok_def)
  then have "advances F (s\<lparr>sv_workers := (sv_workers s)(i := None)\<rparr>) s'"
    using assms(3) t drop
    by (intro advances_publish(1) [of F _ i t "fail_task NOT_SPAWNED t" fault None _ ok])
      (auto simp: non_lance_def advances_def)
  with drop show ?thesis by (rule advances_trans)
qed

lemma annuler_advances:
  assumes "annuler E i now s = (s', res)" "svc_ok F s"
  shows "advances F s s'"
proof (cases "\<exists>w. sv_workers s i = Some w \<and> wk_listed w")
  case True
  then obtain w where w: "sv_workers s i = Some w" "wk_listed w" by blast
  with assms(2) have "worker_ok (sv_runtime s) i (w\<lparr>wk_stop := True\<rparr>)" by (simp add: svc_ok_def worker_ok_def)
  from advances_worker [OF assms(2) this] assms(1) w show ?thesis by (simp add: annuler_def)
next
  case False
  obtain r out where c: "cancel_unstarted E i now (sv_runtime s) = (r, out)" by fastforce
  with False assms(1) have "s' = s\<lparr>sv_runtime := r\<rparr>"
    by (auto simp: annuler_def split: option.splits sum.splits)
  with advances_op [OF assms(2) rs_cancel_unstarted [OF c]] show ?thesis by simp
qed

lemma retirer_advances: "svc_ok F s \<Longrightarrow> advances F s (retirer i s)"
proof (cases "sv_workers s i")
  case (Some w)
  assume ok: "svc_ok F s"
  with Some have "worker_ok (sv_runtime s) i (w\<lparr>wk_listed := False\<rparr>)" by (simp add: svc_ok_def worker_ok_def)
  from advances_worker [OF ok this] Some show ?thesis by (simp add: retirer_def)
qed (simp add: retirer_def advances_refl)

lemma client_advances:
  assumes "svc_ok F s"
  shows "advances F s (client_parti E F fault i driver launch_error texte s)"
proof -
  let ?s1 = "retirer i s"
  have gone: "advances F s ?s1" by (rule retirer_advances [OF assms])
  then have ok1: "svc_ok F ?s1" by (simp add: advances_def)
  define s2 where "s2 = (case map_of (rt_tasks (sv_runtime ?s1)) i of
      None \<Rightarrow> ?s1
    | Some t \<Rightarrow> if is_terminal (tk_state t) then ?s1
        else ?s1\<lparr>sv_runtime := publish_local (fail_task (client_gone_reason driver launch_error) t)
          (Some (client_resume E texte (fail_task (client_gone_reason driver launch_error) t))) (sv_runtime ?s1)\<rparr>)"
  have "advances F ?s1 s2"
  proof (cases "map_of (rt_tasks (sv_runtime ?s1)) i")
    case (Some t)
    have "task_ok t" using ok1 Some by (simp add: svc_ok_def rt_ok_def)
    with Some ok1 show ?thesis
      by (auto simp: s2_def advances_refl is_terminal_def intro!: advances_put)
  qed (simp add: s2_def advances_refl ok1)
  with gone have two: "advances F s s2" by (rule advances_trans)
  then have "svc_ok F s2" by (simp add: advances_def)
  then have "advances F s2 (fst (enregistrer F fault s2))"
    by (rule advances_save(1)) (simp add: prod_eq_iff)
  with two have "advances F s (fst (enregistrer F fault s2))" by (rule advances_trans)
  then show ?thesis unfolding client_parti_def s2_def Let_def .
qed

lemma svc_work_advances: "svc_work F E s s' \<Longrightarrow> svc_ok F s \<Longrightarrow> advances F s s'"
  by (erule svc_work.cases) (auto intro: advances_op advances_save lancer_advances lancer_enfant_advances
      not_spawned_advances charge_advances absorb_advances conclude_advances died_advances
      annuler_advances retirer_advances client_advances)

interpretation service: growing_transition "svc_work F E" "svc_ok F" "\<lambda>s s'. work_le (sv_runtime s) (sv_runtime s')"
  for F E
proof
  show "svc_ok F s'" "work_le (sv_runtime s) (sv_runtime s')" if "svc_work F E s s'" "svc_ok F s" for s s'
    using svc_work_advances [OF that] by (simp_all add: advances_def)
qed (auto intro: work_le_trans)

section \<open>Across restarts\<close>

text \<open>What is kept both in memory and on the disk.\<close>

definition disk_keeps :: "state_file \<Rightarrow> runtime \<Rightarrow> string option \<Rightarrow> bool" where
  "disk_keeps F q f \<longleftrightarrow> (\<exists>r texte. f = Some texte \<and> rt_ok r \<and> sf_print F (etat r) = Some texte \<and> keeps q r)"

definition held :: "state_file \<Rightarrow> runtime \<Rightarrow> service \<Rightarrow> bool" where
  "held F q s \<longleftrightarrow> disk_keeps F q (sv_file s) \<and> keeps q (sv_runtime s)"

definition saved :: "state_file \<Rightarrow> service \<Rightarrow> bool" where
  "saved F s \<longleftrightarrow> (\<exists>texte. sv_file s = Some texte \<and> sf_print F (etat (sv_runtime s)) = Some texte)"

lemma saved_held: "svc_ok F s \<Longrightarrow> saved F s \<Longrightarrow> held F (sv_runtime s) s"
  by (auto simp: held_def disk_keeps_def saved_def svc_ok_def intro!: exI [of _ "sv_runtime s"])

lemma disk_ok_None [simp]: "disk_ok F None"
  by (simp add: disk_ok_def)

lemma start_from_disk:
  assumes "file_ok F D" "disk_keeps F q f" "demarrer F E lisible fault home f = (f', res)"
  shows "disk_keeps F q f'" "res = Some R \<Longrightarrow> rt_ok R \<and> keeps q R"
proof -
  from assms(2) obtain r texte where r: "f = Some texte" "rt_ok r" "sf_print F (etat r) = Some texte" "keeps q r"
    by (auto simp: disk_keeps_def)
  note new = restarted_ok [OF r(2), of E D home]
  have kept: "keeps q (restarted E D home r)" by (rule keeps_trans [OF r(4) new(2)])
  from assms(1) r(3) assms(3) [unfolded r(1)]
  have "disk_keeps F q f' \<and> (\<forall>R. res = Some R \<longrightarrow> rt_ok R \<and> keeps q R)"
  proof (cases rule: start_reads)
    case unreadable
    with r show ?thesis by (auto simp: disk_keeps_def)
  next
    case (read ok)
    from ecrire_file [OF read(1)] read(2) r new(1) kept show ?thesis
      by (auto simp: disk_keeps_def split: if_splits)
  qed
  then show "disk_keeps F q f'" "res = Some R \<Longrightarrow> rt_ok R \<and> keeps q R" by auto
qed

lemma runtime_empty_ok: "rt_ok (runtime_sans_broker home)"
  by (simp add: rt_ok_def runtime_sans_broker_def runtime_new_def)

lemma start_empty:
  assumes "demarrer F E lisible fault home None = (f', res)"
  shows "disk_ok F f'" "res = Some R \<Longrightarrow> R = runtime_sans_broker home"
proof -
  have "reprendre (interrompre E etat_vide) (runtime_sans_broker home) = runtime_sans_broker home"
    by (simp add: reprendre_def interrompre_def etat_vide_def bt_extend_def runtime_sans_broker_def runtime_new_def)
  with assms obtain ok where e: "ecrire F fault (etat (runtime_sans_broker home)) None = (f', ok)"
    "res = (if ok then Some (runtime_sans_broker home) else None)"
    by (auto simp: demarrer_def relire_etat_def Let_def split: prod.splits)
  from ecrire_file [OF e(1)] show "disk_ok F f'"
    using runtime_empty_ok by (auto simp: disk_ok_def)
  from e(2) show "res = Some R \<Longrightarrow> R = runtime_sans_broker home" by (simp split: if_splits)
qed

lemma disk_ok_keeps: "disk_ok F (Some texte) \<Longrightarrow> \<exists>r. disk_keeps F r (Some texte)"
  by (auto simp: disk_ok_def disk_keeps_def) (metis keeps_refl)

lemma disk_keeps_ok: "disk_keeps F q f \<Longrightarrow> disk_ok F f"
  by (auto simp: disk_keeps_def disk_ok_def)

lemma start_ok:
  assumes "file_ok F D" "disk_ok F f" "demarrer F E lisible fault home f = (f', res)"
  shows "disk_ok F f'" "res = Some R \<Longrightarrow> rt_ok R"
proof -
  show "disk_ok F f'"
  proof (cases f)
    case None
    with assms(3) show ?thesis by (auto intro: start_empty)
  next
    case (Some texte)
    with assms(2) obtain q where "disk_keeps F q f" using disk_ok_keeps by blast
    with start_from_disk(1) [OF assms(1) this assms(3)] show ?thesis by (auto intro: disk_keeps_ok)
  qed
  show "rt_ok R" if "res = Some R"
  proof (cases f)
    case None
    with assms(3) start_empty(2) [of F E lisible fault home f' res R] that runtime_empty_ok show ?thesis by simp
  next
    case (Some texte)
    with assms(2) obtain q where "disk_keeps F q f" using disk_ok_keeps by blast
    with start_from_disk(2) [OF assms(1) this assms(3) that] show ?thesis by simp
  qed
qed

lemma failed_starts:
  assumes "(failed_start F E home)\<^sup>*\<^sup>* f f'" "file_ok F D"
  shows "disk_ok F f \<Longrightarrow> disk_ok F f'" "disk_keeps F q f \<Longrightarrow> disk_keeps F q f'"
proof -
  show "disk_ok F f \<Longrightarrow> disk_ok F f'"
    using assms(1) by (induction rule: rtranclp_induct) (auto elim!: failed_start.cases dest: start_ok(1) [OF assms(2)])
  show "disk_keeps F q f \<Longrightarrow> disk_keeps F q f'"
    using assms(1) by (induction rule: rtranclp_induct)
      (auto elim!: failed_start.cases dest: start_from_disk(1) [OF assms(2)])
qed

lemma rt_ok_keys [simp]: "rt_ok (r\<lparr>rt_keys := n\<rparr>) = rt_ok r" "keeps q (r\<lparr>rt_keys := n\<rparr>) = keeps q r"
  by (simp_all add: rt_ok_def keeps_def)

lemma svc_step_ok:
  assumes "file_ok F D" "svc_step F E home s s'" "svc_ok F s"
  shows "svc_ok F s'"
  using assms(2)
proof cases
  case sv_work
  with svc_work_advances [OF _ assms(3)] show ?thesis by (simp add: advances_def)
next
  case (sv_restart f lisible fault f' r)
  have "disk_ok F f" using failed_starts(1) [OF sv_restart(2) assms(1)] assms(3) by (simp add: svc_ok_def)
  from start_ok [OF assms(1) this sv_restart(3)] sv_restart(1) show ?thesis by (simp add: svc_ok_def)
qed

lemma svc_step_held:
  assumes "file_ok F D" "svc_step F E home s s'" "svc_ok F s" "held F q s"
  shows "held F q s'"
  using assms(2)
proof cases
  case sv_work
  from svc_work_advances [OF sv_work assms(3)] have w: "work_le (sv_runtime s) (sv_runtime s')" "file_step F s s'"
    by (simp_all add: advances_def)
  from assms(4) have q: "keeps q (sv_runtime s)" "disk_keeps F q (sv_file s)" by (simp_all add: held_def)
  have "disk_keeps F q (sv_file s')"
    using w(2) q keeps_trans [OF q(1) work_keeps] unfolding file_step_def disk_keeps_def by metis
  with keeps_trans [OF q(1) work_keeps [OF w(1)]] show ?thesis by (simp add: held_def)
next
  case (sv_restart f lisible fault f' r)
  have "disk_keeps F q f" using failed_starts(2) [OF sv_restart(2) assms(1)] assms(4) by (simp add: held_def)
  from start_from_disk [OF assms(1) this sv_restart(3)] sv_restart(1) show ?thesis by (simp add: held_def)
qed

lemma service_reach:
  assumes "file_ok F D" "(svc_step F E home)\<^sup>*\<^sup>* s s'" "svc_ok F s"
  shows "svc_ok F s'" "held F q s \<Longrightarrow> held F q s'"
proof -
  have "svc_ok F s' \<and> (held F q s \<longrightarrow> held F q s')"
    using assms(2)
  proof (induction rule: rtranclp_induct)
    case base
    with assms(3) show ?case by simp
  next
    case (step u v)
    with svc_step_ok [OF assms(1) step(2)] svc_step_held [OF assms(1) step(2)] show ?case by blast
  qed
  then show "svc_ok F s'" "held F q s \<Longrightarrow> held F q s'" by simp_all
qed

lemma service_new_ok: "svc_ok F (service_new home)"
  by (simp add: svc_ok_def service_new_def runtime_empty_ok)

end
