(* ===== verification/Missions.thy ===== *)
theory Missions
  imports Service_Life
begin

text \<open>
  What the task runtime and its service promise: nothing decided at planning changes afterwards,
  planning is all or nothing, what the view offers can be done, a run ends in one settled state with
  a true report, publication is for the creator of a mission that is done, and a restart restores
  what was saved, the missions in progress given up.
\<close>

section \<open>Along every history\<close>

lemma runtime_new_ok: "rt_ok (runtime_new B home)"
  by (simp add: rt_ok_def runtime_new_def)

text \<open>
  C8. What planning decides is final. Through any steps of the service and its workers, in any order,
  with any failures, a mission keeps its capability token, its manifest, its owner once bound, its
  agent, user, intent, driver and isolation level, and never disappears, as long as the service runs.
  What was saved is kept across any restarts too, the cost ceiling of the manifest up to the last
  digit of a floating-point number.
\<close>
theorem mission_authority_fixed:
  assumes "file_ok F D" "(svc_step F E home)\<^sup>*\<^sup>* (service_new home) s"
    and "r = sv_runtime s" "r' = sv_runtime s'"
  shows "((svc_work F E)\<^sup>*\<^sup>* s s' \<longrightarrow> map_of (rt_manifests r) \<subseteq>\<^sub>m map_of (rt_manifests r'))
    \<and> ((svc_work F E)\<^sup>*\<^sup>* s s' \<or> saved F s \<and> (svc_step F E home)\<^sup>*\<^sup>* s s' \<longrightarrow>
        map_of (rt_tokens r) \<subseteq>\<^sub>m map_of (rt_tokens r') \<and> map_of (rt_owners r) \<subseteq>\<^sub>m map_of (rt_owners r')
      \<and> (\<forall>i m. map_of (rt_manifests r) i = Some m \<longrightarrow>
           (\<exists>m' c. map_of (rt_manifests r') i = Some m' \<and> m = m'\<lparr>m_budget := (m_budget m')\<lparr>bu_cost_eur := c\<rparr>\<rparr>))
      \<and> (\<forall>i t. map_of (rt_tasks r) i = Some t \<longrightarrow> (\<exists>t'. map_of (rt_tasks r') i = Some t'
           \<and> tk_agent t' = tk_agent t \<and> tk_user t' = tk_user t \<and> tk_intent t' = tk_intent t
           \<and> tk_driver t' = tk_driver t \<and> tk_sandbox_level t' = tk_sandbox_level t)))"
proof -
  have ok: "svc_ok F s" by (rule service_reach(1) [OF assms(1,2) service_new_ok])
  have work: "work_le r r'" if "(svc_work F E)\<^sup>*\<^sup>* s s'"
    using service.reach_le [OF that ok] by (simp add: assms(3,4))
  have keep: "keeps r r'" if "(svc_work F E)\<^sup>*\<^sup>* s s' \<or> saved F s \<and> (svc_step F E home)\<^sup>*\<^sup>* s s'"
    using that work work_keeps service_reach(2) [OF assms(1) _ ok, where home = home and E = E and s' = s' and q = "sv_runtime s"] saved_held [OF ok]
    by (auto simp: held_def assms(3,4))
  have cost: "\<exists>c. m = m'\<lparr>m_budget := (m_budget m')\<lparr>bu_cost_eur := c\<rparr>\<rparr>" if "same_manifest m m'" for m m'
    using that by (intro exI [of _ "bu_cost_eur (m_budget m)"], cases m, cases m', cases "m_budget m", cases "m_budget m'")
      (simp add: same_manifest_def)
  show ?thesis
  proof (intro conjI impI)
    show "map_of (rt_manifests r) \<subseteq>\<^sub>m map_of (rt_manifests r')" if "(svc_work F E)\<^sup>*\<^sup>* s s'"
      using work [OF that] by (simp add: work_le_def rt_le_def)
  next
    fix i m
    assume "(svc_work F E)\<^sup>*\<^sup>* s s' \<or> saved F s \<and> (svc_step F E home)\<^sup>*\<^sup>* s s'"
    from keep [OF this] show "map_of (rt_tokens r) \<subseteq>\<^sub>m map_of (rt_tokens r')"
      "map_of (rt_owners r) \<subseteq>\<^sub>m map_of (rt_owners r')"
      "\<forall>i m. map_of (rt_manifests r) i = Some m \<longrightarrow>
           (\<exists>m' c. map_of (rt_manifests r') i = Some m' \<and> m = m'\<lparr>m_budget := (m_budget m')\<lparr>bu_cost_eur := c\<rparr>\<rparr>)"
      "\<forall>i t. map_of (rt_tasks r) i = Some t \<longrightarrow> (\<exists>t'. map_of (rt_tasks r') i = Some t'
           \<and> tk_agent t' = tk_agent t \<and> tk_user t' = tk_user t \<and> tk_intent t' = tk_intent t
           \<and> tk_driver t' = tk_driver t \<and> tk_sandbox_level t' = tk_sandbox_level t)"
      using cost by (auto simp: keeps_def identity_def; blast)+
  qed
qed

text \<open>
  C29. The tables of the service always agree, and its queue is bounded, whatever its workers, its disk
  and its journal do and however often it is started again: every mission is filed under its own
  name with a history that starts at Pending, ends at its state and goes on by allowed moves or by
  giving the mission up as failed; there is no token and no manifest without a mission; at most
  10000 drafts wait for the journal; and a mission with a worker is running, or failed or cancelled
  behind its back.
\<close>
theorem missions_well_formed:
  assumes "file_ok F D" "(svc_step F E home)\<^sup>*\<^sup>* (service_new home) s" "r = sv_runtime s"
  shows "(\<forall>i t. map_of (rt_tasks r) i = Some t \<longrightarrow> tk_id t = i \<and> hd (tk_history t) = Task_Life.Pending
         \<and> last (tk_history t) = tk_state t \<and> tk_depth t \<le> 3
         \<and> successively (\<lambda>a b. b \<in> insert Failed (set (allowed_next a))) (tk_history t))
    \<and> dom (map_of (rt_tokens r)) \<subseteq> dom (map_of (rt_tasks r))
    \<and> dom (map_of (rt_manifests r)) \<subseteq> dom (map_of (rt_tasks r))
    \<and> length (rt_journal r) \<le> 10000
    \<and> (\<forall>i w. sv_workers s i = Some w \<longrightarrow>
         (\<exists>t. map_of (rt_tasks r) i = Some t \<and> tk_state t \<in> {Running, Failed, Cancelled}))"
proof -
  have ok: "svc_ok F s" by (rule service_reach(1) [OF assms(1,2) service_new_ok])
  then have rok: "rt_ok r" by (simp add: svc_ok_def assms(3))
  have may: "may_follow = (\<lambda>a b. b \<in> insert Failed (set (allowed_next a)))"
    by (auto simp: may_follow_def can_move_to_def fun_eq_iff)
  from rok have "\<forall>i t. map_of (rt_tasks r) i = Some t \<longrightarrow> tk_id t = i \<and> hd (tk_history t) = Task_Life.Pending
         \<and> last (tk_history t) = tk_state t \<and> tk_depth t \<le> 3 \<and> successively may_follow (tk_history t)"
    by (simp add: rt_ok_def task_ok_def MAX_DEPTH_def)
  note this [unfolded may]
  moreover have "\<forall>i w. sv_workers s i = Some w \<longrightarrow>
      (\<exists>t. map_of (rt_tasks r) i = Some t \<and> tk_state t \<in> {Running, Failed, Cancelled})"
    using worker_copies(5) [OF ok] by (simp add: assms(3))
  ultimately show ?thesis
    using rok unfolding rt_ok_def JOURNAL_EN_ATTENTE_MAX_def by blast
qed

text \<open>
  C32. A service that starts on what was saved has everything, and no mission in progress. The state of
  a service whose last change was saved is read back, provided its JSON is not nested beyond the
  reader's limit; the start succeeds exactly when the new state can be written. Then every token
  and owner is as it was; tasks, plans, manifests, results and waiting drafts are as they were with
  every floating-point number written and read again; a mission that was running, waiting for an
  approval or paused is failed, with that reason as its result. A file that cannot be read is left
  as it is and stops the start.
\<close>
theorem restart_restores:
  assumes "file_ok F D" "(svc_step F E home)\<^sup>*\<^sup>* (service_new home) s" "r = sv_runtime s"
    and "saved F s" "readable_etat (etat r)"
  shows "(\<exists>R. (\<forall>fault. demarrer F E True fault home (sv_file s)
          = (case ecrire F fault (etat R) (sv_file s) of (f, ok) \<Rightarrow> (f, if ok then Some R else None)))
      \<and> (\<forall>i. map_of (rt_tasks R) i = map_option (\<lambda>t. give_up (drift_task D t)) (map_of (rt_tasks r) i)
           \<and> map_of (rt_tokens R) i = map_of (rt_tokens r) i \<and> map_of (rt_owners R) i = map_of (rt_owners r) i
           \<and> map_of (rt_plans R) i = map_option (drift_plan D) (map_of (rt_plans r) i)
           \<and> map_of (rt_manifests R) i = map_option (drift_manifest D) (map_of (rt_manifests r) i)
           \<and> map_of (rt_results R) i = (case map_of (rt_tasks r) i of
                Some t \<Rightarrow> if tk_state t \<in> {Running, WaitingApproval, Paused}
                          then Some (interruption_entry E (fail_task RESTART_REASON (drift_task D t)))
                          else map_option (drift_json D) (map_of (rt_results r) i)
              | None \<Rightarrow> map_option (drift_json D) (map_of (rt_results r) i)))
      \<and> rt_journal R = map (drift_draft D) (rt_journal r)
      \<and> (\<forall>i t. map_of (rt_tasks R) i = Some t \<longrightarrow> tk_state t \<notin> {Running, WaitingApproval, Paused}))
    \<and> demarrer F E False fault home (sv_file s) = (sv_file s, None)"
proof -
  have ok: "rt_ok r" using service_reach(1) [OF assms(1,2) service_new_ok] by (simp add: svc_ok_def assms(3))
  obtain texte where texte: "sv_file s = Some texte" "sf_print F (etat r) = Some texte"
    using assms(3,4) by (auto simp: saved_def)
  then have read: "sf_parse F texte = Some (drift_etat D (etat r))"
    using assms(1,5) unfolding file_ok_def by blast
  let ?R = "restarted E D home r"
  note tables = restarted_tables [OF ok, of E D home]
  have start: "\<forall>fault. demarrer F E True fault home (sv_file s)
      = (case ecrire F fault (etat ?R) (sv_file s) of (f, ok) \<Rightarrow> (f, if ok then Some ?R else None))"
    unfolding demarrer_def relire_etat_def texte(1) restarted_def Let_def by (simp add: read)
  have results: "map_of (rt_results ?R) i = (case map_of (rt_tasks r) i of
      Some t \<Rightarrow> if tk_state t \<in> {Running, WaitingApproval, Paused}
                then Some (interruption_entry E (fail_task RESTART_REASON (drift_task D t)))
                else map_option (drift_json D) (map_of (rt_results r) i)
    | None \<Rightarrow> map_option (drift_json D) (map_of (rt_results r) i))" for i
    unfolding restarted_tables(10) [OF ok] by (auto simp: give_up_def interrupted_def split: option.split)
  have settled: "\<forall>i t. map_of (rt_tasks ?R) i = Some t \<longrightarrow> tk_state t \<notin> {Running, WaitingApproval, Paused}"
    using give_up_fields(4) by (auto simp: tables(1) map_of_map_values interrupted_def)
  have refused: "demarrer F E False fault home (sv_file s) = (sv_file s, None)"
    by (simp add: texte(1) demarrer_def relire_etat_def)
  show ?thesis
    by (rule conjI [OF exI [of _ ?R] refused], intro conjI start settled allI)
      (simp_all only: results tables map_of_map_values)
qed

section \<open>Planning and starting\<close>

text \<open>
  Planning is all or nothing. On refusal no table of the runtime changes; on success the name was
  free and valid, exactly one mission, token, plan and manifest are added, under that name, and the
  mission is planned with the driver and the isolation level of the plan, at least the manifest's.
\<close>
theorem plan_all_or_nothing:
  assumes "planifier E q given nonce now r = (r', res)" "rt_ok r"
  shows "case res of
      Inl e \<Rightarrow> rt_tasks r' = rt_tasks r \<and> rt_tokens r' = rt_tokens r \<and> rt_plans r' = rt_plans r
        \<and> rt_manifests r' = rt_manifests r \<and> rt_owners r' = rt_owners r \<and> rt_results r' = rt_results r
    | Inr p \<Rightarrow> valid_task_id (pq_id q) \<and> map_of (rt_tasks r) (pq_id q) = None
        \<and> (\<exists>t tok. tk_state t = Planned \<and> tk_history t = [Task_Life.Pending, Planned]
             \<and> tk_driver t = Some (co_reference (tp_choice p)) \<and> tk_sandbox_level t = Some (tp_sandbox_level p)
             \<and> sb_min_level (m_sandbox (pq_manifest q)) \<le> tp_sandbox_level p
             \<and> map_of (rt_tasks r') = (map_of (rt_tasks r))(pq_id q \<mapsto> t)
             \<and> map_of (rt_tokens r') = (map_of (rt_tokens r))(pq_id q \<mapsto> tok)
             \<and> map_of (rt_plans r') = (map_of (rt_plans r))(pq_id q \<mapsto> p)
             \<and> map_of (rt_manifests r') = (map_of (rt_manifests r))(pq_id q \<mapsto> pq_manifest q))"
  using assms(1)
proof (cases rule: planifier_cases)
  case (refused e)
  then show ?thesis by auto
next
  case (planned choice tok t pl p p' B)
  from planned(6) have "tk_state t = Planned" "tk_history t = [Task_Life.Pending, Planned]"
    "tk_driver t = Some (co_reference choice)" "tk_sandbox_level t = Some (tp_sandbox_level pl)"
    by (auto simp: Task_Life.transition_def task_new_def split: if_splits)
  moreover have "sb_min_level (m_sandbox (pq_manifest q)) \<le> tp_sandbox_level pl"
    by (simp add: planned(10) required_level_def)
  ultimately show ?thesis
    using assms(2) planned(2,3,7,8) by (auto simp: planned(1,12) Let_def rt_ok_def)
qed

text \<open>
  A planned mission starts, once, with the authority planning gave it: with a broker, a plan for a
  local model at level 0 starts at once, the token handed to the worker carries exactly the requested
  grants the manifest's ceiling covers, for that mission and user, and starting it again is refused
  and changes nothing.
\<close>
theorem planned_mission_starts_once:
  assumes "planifier E q given nonce now r = (r1, Ok p)" "rt_ok r" "rt_broker r = Some B"
    and "tp_sandbox_level p = 0" "starts_with ''local:'' (co_reference (tp_choice p))"
  shows "\<exists>ceil r2 t tok. Manifest.ceiling (pq_manifest q) = Ok ceil
    \<and> begin_local (pq_id q) r1 = (r2, Ok (t, tok, p, rt_home r)) \<and> tk_state t = Running
    \<and> t_sub tok = pq_id q \<and> t_user tok = pq_user q \<and> t_parent tok = None
    \<and> t_grants tok = filter (\<lambda>g. list_ex (\<lambda>c. grant_is_subset_of g c) ceil) (pq_requested q)
    \<and> begin_task (pq_id q) seance r2 = (r2, Err (RtTask (BadTransition Running Running)))"
  using assms(1)
proof (cases rule: planifier_cases)
  case (planned choice tok t pl pj pj' B')
  from planned(5) assms(3) obtain B2 where "mint (re_crypto E) B (pq_manifest q) (pq_id q) (pq_user q)
      (pq_requested q) (if li_wall_time_s (limits_of (pq_manifest q)) < 9223372036854775808
        then int (li_wall_time_s (limits_of (pq_manifest q))) else 1800) now nonce = (B2, Ok tok)"
    by (auto simp: obtain_token_def split: prod.splits sum.splits)
  then obtain ceil where tok: "Manifest.ceiling (pq_manifest q) = Ok ceil" "t_sub tok = pq_id q"
    "t_user tok = pq_user q" "t_parent tok = None"
    "t_grants tok = filter (\<lambda>g. list_ex (\<lambda>c. grant_is_subset_of g c) ceil) (pq_requested q)"
    by (cases rule: mint_cases) auto
  have pl: "pl = p" using planned(1) by simp
  have sorted: "sorted (map fst (rt_tasks r))" "sorted (map fst (rt_tokens r))" "sorted (map fst (rt_plans r))"
    using assms(2) by (simp_all add: rt_ok_def)
  have "tk_state t = Planned" using planned(6) by (auto simp: Task_Life.transition_def split: if_splits)
  then obtain t' where t': "Task_Life.transition Running None t = Ok t'" "tk_state t' = Running"
    by (simp add: Task_Life.transition_def can_move_to_def)
  let ?r2 = "r1\<lparr>rt_tasks := bt_insert (pq_id q) t' (rt_tasks r1)\<rparr>"
  have looks: "map_of (rt_tasks r1) (pq_id q) = Some t" "map_of (rt_plans r1) (pq_id q) = Some p"
    "map_of (rt_tokens r1) (pq_id q) = Some tok" "rt_home r1 = rt_home r" "sorted (map fst (rt_tasks r1))"
    using sorted by (simp_all add: planned(12) Let_def pl)
  with t' tok(2) assms(4,5) have begun: "begin_local (pq_id q) r1 = (?r2, Ok (t', tok, p, rt_home r))"
    by (simp add: begin_local_def begin_task_def Let_def)
  have "begin_task (pq_id q) seance ?r2 = (?r2, Err (RtTask (BadTransition Running Running)))"
    using looks t'(2) tok(2) assms(4,5)
    by (simp add: begin_task_def Let_def Task_Life.transition_def can_move_to_def)
  with begun tok t'(2) show ?thesis by blast
qed simp


section \<open>Running\<close>

text \<open>
  C28. A run that reports is true. The mission could be started; it ends done, failed or cancelled as the
  report says, with the report's counts and reason; done only if the driver announced success, and
  never past a limit it was within at the start; no other mission changes; and the journal ends with
  the mission's end and the driver's stop.
\<close>
theorem run_report_true:
  assumes "run_driver E i D now r = (r', Ok rep)" "rt_ok r" "map_of (rt_tasks r) i = Some t"
  shows "can_move_to (tk_state t) Running
    \<and> (\<exists>t'. map_of (rt_tasks r') = (map_of (rt_tasks r))(i \<mapsto> t')
        \<and> tk_state t' = rp_state rep \<and> tk_reason t' = rp_reason rep \<and> rp_state rep \<in> {Done, Failed, Cancelled}
        \<and> rp_steps rep = sp_steps (bu_spent (tk_budget t')) \<and> rp_tokens rep = sp_tokens (bu_spent (tk_budget t'))
        \<and> rp_approvals rep = sp_approvals (bu_spent (tk_budget t'))
        \<and> (rp_state rep = Done \<longrightarrow> rp_reason rep = None
             \<and> (\<exists>evs. Inr evs \<in> set (dr_polls D) \<and> list_ex is_success evs)
             \<and> (can_continue (tk_budget t) \<longrightarrow> can_continue (tk_budget t'))))
    \<and> (\<exists>js d d'. rt_journal r' = js @ [d, d'] \<and> d_kind d = final_kind (rp_state rep) \<and> d_task d = Some i
        \<and> d_kind d' = ProviderStopped \<and> d_task d' = Some i)"
  using assms
proof (cases rule: run_driver_cases)
  case (looped response s lres t1)
  obtain r1 rep1 t' where c: "run_close E i (st_driver (start_request_for E i t r)) now s = (r1, Ok rep1)"
    "map_of (rt_tasks r1) = (map_of (rt_tasks (rs_runtime s)))(i \<mapsto> t')"
    "tk_state t' = rp_state rep1" "tk_reason t' = rp_reason rep1" "tk_budget t' = tk_budget t1"
    "(rp_state rep1, rp_reason rep1) = stopped_as s i"
    "rp_steps rep1 = sp_steps (bu_spent (tk_budget t'))" "rp_tokens rep1 = sp_tokens (bu_spent (tk_budget t'))"
    "rp_approvals rep1 = sp_approvals (bu_spent (tk_budget t'))"
    "\<exists>js d d'. rt_journal r1 = js @ [d, d'] \<and> d_kind d = final_kind (rp_state rep1) \<and> d_task d = Some i
       \<and> d_kind d' = ProviderStopped \<and> d_task d' = Some i"
    by (rule close_in_hand [OF looped(5,6,3)])
  from looped(9) c(1) have same: "r1 = r'" "rep1 = rep" by auto
  have "map_of (rt_tasks r') = (map_of (rt_tasks r))(i \<mapsto> t')"
    using c(2) looped(4) by (auto simp: same fun_eq_iff)
  moreover have "rp_state rep \<in> {Done, Failed, Cancelled} \<and> (rp_state rep = Done \<longrightarrow> rp_reason rep = None
      \<and> rs_stop s = None \<and> rs_status s = RunOk)"
    using c(6) by (auto simp: same stopped_as_def split: option.splits run_status.splits)
  ultimately show ?thesis
    using c(3-5,7-10) looped(2,7,8) by (auto simp: same)
qed simp_all

text \<open>
  A run that fails says where. Only three things can go wrong: the driver does not start, and then
  nothing changes; the mission cannot be started, and then the driver has nevertheless been started
  and only that is recorded; or a poll fails, and then the mission is left in the driver's hands,
  neither failed nor settled, and the error is the driver's own.
\<close>
theorem run_failure_leaves:
  assumes "run_driver E i D now r = (r', Err e)" "rt_ok r" "map_of (rt_tasks r) i = Some t"
  shows "(\<exists>m. e = RtDriver m \<and> dr_start D (start_request_for E i t r) = Err m \<and> r' = r)
    \<or> (e = RtTask (BadTransition (tk_state t) Running) \<and> \<not> can_move_to (tk_state t) Running
        \<and> rt_tasks r' = rt_tasks r
        \<and> (\<exists>js d. rt_journal r' = js @ [d] \<and> d_kind d = ProviderStarted \<and> d_task d = Some i))
    \<or> (\<exists>m t'. e = RtDriver m \<and> Inl m \<in> set (dr_polls D) \<and> can_move_to (tk_state t) Running
        \<and> map_of (rt_tasks r') = (map_of (rt_tasks r))(i \<mapsto> t')
        \<and> tk_state t' \<in> {Running, WaitingApproval})"
  using assms
proof (cases rule: run_driver_cases)
  case (bad_state response p)
  then show ?thesis using record_event_last by fastforce
next
  case (looped response s lres t1)
  obtain r1 rep1 where "run_close E i (st_driver (start_request_for E i t r)) now s = (r1, Ok rep1)"
    by (rule close_in_hand [OF looped(5,6,3)])
  with looped(9) obtain m where m: "e = RtDriver m" "r' = rs_runtime s" "Inl m \<in> set (dr_polls D)" by auto
  have "map_of (rt_tasks r') = (map_of (rt_tasks r))(i \<mapsto> t1)"
    using looped(4,5) by (auto simp: m fun_eq_iff)
  with m looped(2,6) show ?thesis by (auto simp: in_hand_def)
qed auto

section \<open>Publishing\<close>

lemma undone_for_good: "keeps r r' \<Longrightarrow> map_of (rt_tasks r) i = Some t \<Longrightarrow> tk_state t = RolledBack \<Longrightarrow>
    map_of (rt_owners r) i = Some uid \<Longrightarrow>
    publication_context E i u r' = Err (if u = uid then AlreadyUndone else NotCreator)"
proof -
  assume a: "keeps r r'" "map_of (rt_tasks r) i = Some t" "tk_state t = RolledBack" "map_of (rt_owners r) i = Some uid"
  from keeps_task [OF a(1,2)] a(3) obtain t' where t': "map_of (rt_tasks r') i = Some t'" "tk_state t' = RolledBack"
    by blast
  have "map_of (rt_owners r) \<subseteq>\<^sub>m map_of (rt_owners r')" using a(1) by (simp add: keeps_def)
  with a(4) have "map_of (rt_owners r') i = Some uid" by (metis domI map_le_def)
  with t' show ?thesis by (simp add: publication_context_def review_context_def)
qed

text \<open>
  C30. Publication is for the creator of a mission that is done, once. The context of a publication is
  given only to the bound owner, only for a mission that is done and has kept versions, and names the
  mission's own agent and steps. Once the publication is undone the mission is rolled back, its
  owner is told so, and nobody is given the context again: not after any further steps of the
  service and its workers and, from a moment when the undoing is saved, not after any restarts.
\<close>
theorem publication_guarded:
  assumes "file_ok F D" "(svc_step F E hm)\<^sup>*\<^sup>* (service_new hm) s" "r = sv_runtime s"
    and "publication_context E i uid r = Ok (home, index, pv)"
  shows "is_owner i uid r \<and> home = rt_home r
    \<and> (\<exists>t. map_of (rt_tasks r) i = Some t \<and> tk_state t = Done \<and> pp_task pv = i \<and> pp_agent pv = tk_agent t
         \<and> pp_step pv = sp_steps (bu_spent (tk_budget t)))
    \<and> (\<exists>j. Option.bind (map_of (rt_results r) i) (field ''review'') = Some j \<and> re_index_of_json E j = Some index)
    \<and> (\<exists>r' t'. record_publication E i Undone d kept now r = (r', Ok ())
         \<and> map_of (rt_tasks r') i = Some t' \<and> tk_state t' = RolledBack \<and> tk_reason t' = Some UNDONE_REASON
         \<and> (\<forall>v w u. (svc_work F E)\<^sup>*\<^sup>* (s\<lparr>sv_runtime := r'\<rparr>) v
              \<and> (w = v \<or> saved F v \<and> (svc_step F E hm)\<^sup>*\<^sup>* v w) \<longrightarrow>
              publication_context E i u (sv_runtime w) = Err (if u = uid then AlreadyUndone else NotCreator)))"
proof -
  have ok: "svc_ok F s" by (rule service_reach(1) [OF assms(1,2) service_new_ok])
  then have rok: "rt_ok r" by (simp add: svc_ok_def assms(3))
  from assms(4) obtain t j where t: "map_of (rt_owners r) i = Some uid" "map_of (rt_tasks r) i = Some t"
    "tk_state t = Done" "home = rt_home r" "pp_task pv = tk_id t" "pp_agent pv = tk_agent t"
    "pp_step pv = sp_steps (bu_spent (tk_budget t))"
    "Option.bind (map_of (rt_results r) i) (field ''review'') = Some j" "re_index_of_json E j = Some index"
    by (auto simp: publication_context_def review_context_def Let_def split: if_splits sum.splits option.splits)
  have sorted: "sorted (map fst (rt_tasks r))" and i: "tk_id t = i"
    using rok t(2) by (simp_all add: rt_ok_def)
  obtain t' where t': "Task_Life.transition RolledBack (Some UNDONE_REASON) t = Ok t'" "tk_state t' = RolledBack"
    "tk_reason t' = Some UNDONE_REASON"
    using t(3) by (simp add: Task_Life.transition_def can_move_to_def is_terminal_def)
  obtain a m x where "diff_counts d = (a, m, x)" by (cases "diff_counts d")
  with t(2) t'(1) have "\<exists>r'. record_publication E i Undone d kept now r = (r', Ok ())
      \<and> rt_tasks r' = bt_insert i t' (rt_tasks r) \<and> rt_owners r' = rt_owners r"
    by (simp add: record_publication_def Let_def)
  then obtain r' where r': "record_publication E i Undone d kept now r = (r', Ok ())"
    "rt_tasks r' = bt_insert i t' (rt_tasks r)" "rt_owners r' = rt_owners r"
    by blast
  have undone: "map_of (rt_tasks r') i = Some t'" "map_of (rt_owners r') i = Some uid"
    using r' t(1) sorted by simp_all
  have "advances F s (s\<lparr>sv_runtime := r'\<rparr>)"
    by (rule advances_op [OF ok rs_publication]) (use r'(1) assms(3) in simp)
  then have ok': "svc_ok F (s\<lparr>sv_runtime := r'\<rparr>)" by (simp add: advances_def)
  have never: "\<forall>v w u. (svc_work F E)\<^sup>*\<^sup>* (s\<lparr>sv_runtime := r'\<rparr>) v
      \<and> (w = v \<or> saved F v \<and> (svc_step F E hm)\<^sup>*\<^sup>* v w) \<longrightarrow>
      publication_context E i u (sv_runtime w) = Err (if u = uid then AlreadyUndone else NotCreator)"
  proof (intro allI impI, elim conjE)
    fix v w u
    assume work: "(svc_work F E)\<^sup>*\<^sup>* (s\<lparr>sv_runtime := r'\<rparr>) v"
      and later: "w = v \<or> saved F v \<and> (svc_step F E hm)\<^sup>*\<^sup>* v w"
    have v: "svc_ok F v" "keeps r' (sv_runtime v)"
      using service.reach_inv [OF work ok'] work_keeps [OF service.reach_le [OF work ok']] by simp_all
    have "keeps (sv_runtime v) (sv_runtime w)"
      using later
    proof
      assume late: "saved F v \<and> (svc_step F E hm)\<^sup>*\<^sup>* v w"
      from service_reach(2) [OF assms(1) conjunct2 [OF late] v(1) saved_held [OF v(1) conjunct1 [OF late]]]
      show ?thesis by (simp add: held_def)
    qed simp
    from undone_for_good [OF keeps_trans [OF v(2) this] undone(1) t'(2) undone(2)]
    show "publication_context E i u (sv_runtime w) = Err (if u = uid then AlreadyUndone else NotCreator)" .
  qed
  from t(2,3,5-7) i have own: "\<exists>t. map_of (rt_tasks r) i = Some t \<and> tk_state t = Done \<and> pp_task pv = i
      \<and> pp_agent pv = tk_agent t \<and> pp_step pv = sp_steps (bu_spent (tk_budget t))"
    by simp
  show ?thesis
  proof (intro conjI)
    show "is_owner i uid r" using t(1) by (simp add: is_owner_def)
    show "home = rt_home r" by (rule t(4))
    show "\<exists>j. Option.bind (map_of (rt_results r) i) (field ''review'') = Some j \<and> re_index_of_json E j = Some index"
      using t(8,9) by blast
  qed (rule own, rule exI [of _ r'], rule exI [of _ t'], intro conjI r'(1) undone(1) t'(2,3), rule never)
qed

section \<open>Children\<close>

text \<open>
  Linking children takes nothing from the parent. Each child of the same parent is given the same
  share of what the parent has left, and the parent's own budget does not move: with the service's
  one half, three children may together spend more than the whole.
\<close>
theorem children_not_deducted:
  assumes "rt_ok r" "map_of (rt_tasks r) parent = Some p" "tk_depth p < MAX_DEPTH"
    and "map_of (rt_tasks r) c1 = Some u1" "map_of (rt_tasks r) c2 = Some u2" "distinct [parent, c1, c2]"
  shows "\<exists>r1 r2 t1 t2. link_child c1 parent f r = Ok r1 \<and> link_child c2 parent f r1 = Ok r2
    \<and> map_of (rt_tasks r2) parent = Some p
    \<and> map_of (rt_tasks r2) c1 = Some t1 \<and> tk_budget t1 = reserve (tk_budget p) f
    \<and> map_of (rt_tasks r2) c2 = Some t2 \<and> tk_budget t2 = reserve (tk_budget p) f"
proof -
  have sorted: "sorted (map fst (rt_tasks r))" using assms(1) by (simp add: rt_ok_def)
  let ?t = "\<lambda>u. u\<lparr>tk_parent := Some parent, tk_depth := tk_depth p + 1, tk_budget := reserve (tk_budget p) f\<rparr>"
  let ?r1 = "r\<lparr>rt_tasks := bt_insert c1 (?t u1) (rt_tasks r)\<rparr>"
  let ?r2 = "?r1\<lparr>rt_tasks := bt_insert c2 (?t u2) (rt_tasks ?r1)\<rparr>"
  have "c2 \<noteq> c1" "parent \<noteq> c1" "parent \<noteq> c2" using assms(6) by auto
  with assms sorted have "link_child c1 parent f r = Ok ?r1" "link_child c2 parent f ?r1 = Ok ?r2"
    by (simp_all add: link_child_def)
  moreover have "map_of (rt_tasks ?r2) parent = Some p" "map_of (rt_tasks ?r2) c1 = Some (?t u1)"
    "map_of (rt_tasks ?r2) c2 = Some (?t u2)"
    using assms sorted by simp_all
  ultimately show ?thesis by fastforce
qed

lemma fl_whole: "n < 2 ^ 53 \<Longrightarrow> fl (of_nat n) = of_nat n"
  using f64_of_nat_exact [of n] by (simp add: f64_of_nat_def)

lemma fl_multiple:
  assumes "0 < x" "x = of_int m * pow2 (ulp_exp x)"
  shows "fl x = x"
proof -
  have "x / pow2 (ulp_exp x) = of_int m" by (subst assms(2)) simp
  with assms show ?thesis by (simp add: fl_def fl_pos_def Let_def)
qed

lemma bit_length_small: "bit_length 0 = 0" "bit_length (Suc 0) = 1" "bit_length 1 = 1" "bit_length 2 = 2"
  by (simp_all add: bit_length.simps)

lemma fl_halves: "fl (5/2) = 5/2" "fl (1/2) = 1/2"
proof -
  have "\<lfloor>5 / 2 :: rat\<rfloor> = 2" by (rule floor_unique) simp_all
  then have "ulp_exp (5/2) = -51" "ulp_exp (1/2) = -53" by (simp_all add: ulp_exp_def bit_length_small)
  then show "fl (5/2) = 5/2" "fl (1/2) = 1/2" 
    using fl_multiple [of "5/2" "5 * 2 ^ 50"] fl_multiple [of "1/2" "2 ^ 52"] by (simp_all add: pow2_def)
qed
lemma fl_wholes: "fl 100000 = 100000" "fl 50000 = 50000" "fl 25000 = 25000" "fl 200000 = 200000"
    "fl 600 = 600" "fl 300 = 300" "fl 150 = 150" "fl 5 = 5" "fl 1200 = 1200"
    "fl 200 = 200" "fl 100 = 100" "fl 50 = 50" "fl 25 = 25" "fl 1 = 1" "fl 2 = 2" "fl 0 = 0"
  using fl_whole [of 100000] fl_whole [of 50000] fl_whole [of 5] fl_whole [of 25000]
    fl_whole [of 200000] fl_whole [of 600] fl_whole [of 300] fl_whole [of 150] fl_whole [of 1200]
    fl_whole [of 200] fl_whole [of 100] fl_whole [of 50] fl_whole [of 25] fl_whole [of 1] fl_whole [of 2] fl_whole [of 0] by simp_all

text \<open>
  With the service's half and the default limits, the approvals run out by rounding: 5, 2, 1, 0. A
  child of the third generation is exhausted before it has done anything.
\<close>

lemma halves:
  "reserve (budget_new \<lparr>li_tokens = 200000, li_wall_time_s = 1200, li_steps = 200, li_approvals = 5, li_cost_eur = 0\<rparr>) (1 / 2)
   = budget_new \<lparr>li_tokens = 100000, li_wall_time_s = 600, li_steps = 100, li_approvals = 2, li_cost_eur = 0\<rparr>"
  "reserve (budget_new \<lparr>li_tokens = 100000, li_wall_time_s = 600, li_steps = 100, li_approvals = 2, li_cost_eur = 0\<rparr>) (1 / 2)
   = budget_new \<lparr>li_tokens = 50000, li_wall_time_s = 300, li_steps = 50, li_approvals = 1, li_cost_eur = 0\<rparr>"
  "reserve (budget_new \<lparr>li_tokens = 50000, li_wall_time_s = 300, li_steps = 50, li_approvals = 1, li_cost_eur = 0\<rparr>) (1 / 2)
   = budget_new \<lparr>li_tokens = 25000, li_wall_time_s = 150, li_steps = 25, li_approvals = 0, li_cost_eur = 0\<rparr>"
proof -
  have "\<lfloor>5 / 2 :: rat\<rfloor> = 2" "\<lfloor>1 / 2 :: rat\<rfloor> = 0" by (rule floor_unique; simp)+
  note fls = this fl_halves fl_wholes
  show "reserve (budget_new \<lparr>li_tokens = 200000, li_wall_time_s = 1200, li_steps = 200, li_approvals = 5, li_cost_eur = 0\<rparr>) (1 / 2)
   = budget_new \<lparr>li_tokens = 100000, li_wall_time_s = 600, li_steps = 100, li_approvals = 2, li_cost_eur = 0\<rparr>"
    by (simp add: reserve_def budget_new_def Let_def f64_clamp_def f64_of_nat_def fls
        cast_u64_def as_u32_def cast_unsigned_def)
  show "reserve (budget_new \<lparr>li_tokens = 100000, li_wall_time_s = 600, li_steps = 100, li_approvals = 2, li_cost_eur = 0\<rparr>) (1 / 2)
   = budget_new \<lparr>li_tokens = 50000, li_wall_time_s = 300, li_steps = 50, li_approvals = 1, li_cost_eur = 0\<rparr>"
    by (simp add: reserve_def budget_new_def Let_def f64_clamp_def f64_of_nat_def fls
        cast_u64_def as_u32_def cast_unsigned_def)
  show "reserve (budget_new \<lparr>li_tokens = 50000, li_wall_time_s = 300, li_steps = 50, li_approvals = 1, li_cost_eur = 0\<rparr>) (1 / 2)
   = budget_new \<lparr>li_tokens = 25000, li_wall_time_s = 150, li_steps = 25, li_approvals = 0, li_cost_eur = 0\<rparr>"
    by (simp add: reserve_def budget_new_def Let_def f64_clamp_def f64_of_nat_def fls
        cast_u64_def as_u32_def cast_unsigned_def)
qed

lemma third_generation_has_no_approval:
  "exhausted (reserve (reserve (reserve (budget_new default_limits) (1 / 2)) (1 / 2)) (1 / 2))
     = Some Task_Life.Approvals"
  unfolding default_limits_def halves by (simp add: exhausted_def budget_new_def)

section \<open>Three ways a mission ends against its own rules\<close>

text \<open>
  A work that succeeded, whose end the journal does not take, goes from done to failed: the table of
  transitions has no such move.
\<close>

lemma journal_refusal_overturns:
  assumes "tk_state t = Running" "\<And>d. journal d = Err e"
  shows "\<exists>t' data ds. conclude E elapsed n1 n2 (Ok kept) False False journal t = (t', data, ds)
    \<and> tk_history t' = tk_history t @ [Done, Failed] \<and> \<not> can_move_to Done Failed"
proof -
  obtain t' data ds where c: "conclude E elapsed n1 n2 (Ok kept) False False journal t = (t', data, ds)"
    by (cases "conclude E elapsed n1 n2 (Ok kept) False False journal t")
  have v: "verdict (Ok kept) False False = (Done, None, kept)" by (simp add: verdict_def)
  from conclude_running(3) [OF assms(1) c v] assms(2) have "tk_history t' = tk_history t @ [Done, Failed]"
    by (cases ds) auto
  with c show ?thesis by (simp add: can_move_to_def)
qed

text \<open>
  The client leaves while its session is still opening: the mission is failed, and the first call of
  the session makes it running again.
\<close>

lemma failed_runs_again:
  assumes "svc_ok F s" "sv_workers s i = Some w"
  shows "\<exists>t. map_of (rt_tasks (sv_runtime (fst (worker_charge F fault i elapsed model tin tout late fatal w
      (client_parti E F fault' i driver launch_error texte s))))) i = Some t \<and> tk_state t = Running"
proof -
  let ?s = "client_parti E F fault' i driver launch_error texte s"
  have "svc_ok F ?s" using client_advances [OF assms(1)] by (simp add: advances_def)
  then have sorted: "sorted (map fst (rt_tasks (sv_runtime ?s)))" by (simp add: svc_ok_def rt_ok_def)
  have "worker_ok (sv_runtime s) i w" using assms by (simp add: svc_ok_def)
  then obtain u where "map_of (rt_tasks (sv_runtime s)) i = Some u" "copy_ok u (wk_task w)"
    by (auto simp: worker_ok_def)
  moreover have "rt_ok (sv_runtime s)" using assms(1) by (simp add: svc_ok_def)
  ultimately have "tk_id (wk_task w) = i" "tk_state (wk_task w) = Running"
    by (auto simp: copy_ok_def rt_ok_def identity_def)
  moreover have "tk_id (charged elapsed model tin tout t) = tk_id t" for t
    using charged_fields(1) [of elapsed model tin tout t] by (simp add: identity_def)
  ultimately show ?thesis
    using sorted by (auto simp: worker_charge_def publier_def enregistrer_def publish_local_def Let_def split: prod.splits)
qed

text \<open>
  A sub-mission whose launch cannot be saved is told to its parent as refused, and stays running with
  no worker: it cannot be cancelled, nor started again, before the next start of the service.
\<close>

lemma unsaved_child_stays_running:
  assumes "lancer_enfant F SaveFails i stop s = (s', out)" "svc_ok F s"
    and "begin_local i (sv_runtime s) = (r, Ok x)"
  shows "out = Err LaunchNotSaved \<and> sv_workers s' i = None
    \<and> (\<exists>t. map_of (rt_tasks (sv_runtime s')) i = Some t \<and> tk_state t = Running)
    \<and> annuler E i now s' = (s', Err (RtTask (BadTransition Running Cancelled)))"
proof -
  obtain t' y where x: "x = (t', y)" by (cases x)
  have b: "begin_task i False (sv_runtime s) = (r, Ok (t', y))" using assms(3) by (simp add: begin_local_def x)
  obtain s1 ok where e: "enregistrer F SaveFails (s\<lparr>sv_runtime := r\<rparr>) = (s1, ok)" by fastforce
  then have "\<not> ok" "sv_workers s1 = sv_workers s" by (auto simp: enregistrer_def ecrire_def split: prod.splits option.splits)
  with assms(1,3) e x have s': "s' = s1" "out = Err LaunchNotSaved" by (auto simp: lancer_enfant_def)
  note begun = advances_begun [OF assms(2) b e]
  have "rt_ok (sv_runtime s)" using assms(2) by (simp add: svc_ok_def)
  with b obtain t where "map_of (rt_tasks (sv_runtime s)) i = Some t" "can_move_to (tk_state t) Running"
    by (auto elim: begin_task_cases)
  from startable_idle(1) [OF assms(2) this] have "sv_workers s' i = None" by (simp add: s' \<open>sv_workers s1 = sv_workers s\<close>)
  with begun(3,4) s' show ?thesis by (simp add: annuler_def cancel_unstarted_def)
qed

section \<open>Concrete inputs\<close>

definition demo_env :: runtime_env where
  "demo_env = \<lparr>re_crypto = demo_crypto, re_blake3_hex = rev, re_nouvelle_cle = (\<lambda>n. ''agentd-'' @ show_nat n),
     re_token_text = (\<lambda>t. Some (t_sub t)), re_float = (\<lambda>x. JNull), re_lowercase = (\<lambda>s. s),
     re_index_of_json = (\<lambda>j. Some \<lparr>ri_entries = []\<rparr>)\<rparr>"

definition demo_request :: plan_request where
  "demo_request = \<lparr>pq_id = ''task:01'', pq_intent = ''rapport'',
     pq_manifest = sales_manifest\<lparr>m_sandbox := default_sandbox\<lparr>sb_min_level := 0\<rparr>\<rparr>,
     pq_user = ''u'', pq_requested = [sales_grant, grant_new ResFs ActRead ''~/**''], pq_scopes = [''~/ventes''],
     pq_availability = \<lparr>av_logged_in_drivers = [], av_local_models = [''qwen3-8b''],
       av_exhausted_drivers = [], av_api_providers = []\<rparr>,
     pq_route = None\<rparr>"

definition demo_planned :: "runtime \<times> (runtime_error + task_plan)" where
  "demo_planned = plan demo_env demo_request ''n'' 0 (runtime_new (Some demo_broker) ''/home/u'')"

lemma demo_name: "valid_task_id (pq_id demo_request)"
  by code_simp

lemma demo_choice: "choice_for demo_request = Ok \<lparr>co_reference = ''local:qwen3-8b'', co_reason = LocalModel ''qwen3-8b''\<rparr>"
  by code_simp

lemma demo_wall: "wall_time_seconds (pq_manifest demo_request) = Ok 1200"
  by (simp add: demo_request_def sales_manifest_def wall_time_seconds_def parse_duration_def split_at_def
      is_continuation_def byte_def parse_u64_def parse_unsigned_def is_ascii_digit_def checked_mul_u64_def)

lemma demo_level: "required_level (sb_min_level (m_sandbox (pq_manifest demo_request)))
    (requested_level (pq_requested demo_request)) False = 0"
  by code_simp

lemma demo_mint: "case snd (mint demo_crypto demo_broker (pq_manifest demo_request) ''task:01'' ''u''
     (pq_requested demo_request) 1200 0 ''n'') of Inl e \<Rightarrow> False | Inr t \<Rightarrow> True"
  by code_simp

lemma demo_planned:
  obtains r p where "planifier demo_env demo_request None ''n'' 0 (runtime_new (Some demo_broker) ''/home/u'')
      = (r, Ok p)" "tp_sandbox_level p = 0" "starts_with ''local:'' (co_reference (tp_choice p))"
proof -
  let ?r = "runtime_new (Some demo_broker) ''/home/u''"
  have wall: "li_wall_time_s (limits_of (pq_manifest demo_request)) = 1200"
    by (simp add: limits_of_def demo_wall)
  obtain B res where m: "mint demo_crypto demo_broker (pq_manifest demo_request) ''task:01'' ''u''
      (pq_requested demo_request) 1200 0 ''n'' = (B, res)"
    by fastforce
  with demo_mint obtain tok where "res = Ok tok" by (cases res) simp_all
  with m have token: "mint (re_crypto demo_env) demo_broker (pq_manifest demo_request) (pq_id demo_request)
      (pq_user demo_request) (pq_requested demo_request) 1200 0 ''n'' = (B, Ok tok)"
    by (simp add: demo_request_def demo_env_def)
  have "rt_broker ?r = Some demo_broker" "rt_tasks ?r = []" by (simp_all add: runtime_new_def)
  with token wall demo_name demo_choice
  have "\<exists>r p. planifier demo_env demo_request None ''n'' 0 ?r = (r, Ok p)"
    by (simp add: planifier_def Let_def obtain_token_def contains_key_def Task_Life.transition_def
        task_new_def can_move_to_def)
  then obtain r p where ok: "planifier demo_env demo_request None ''n'' 0 ?r = (r, Ok p)" by blast
  from ok have "tp_sandbox_level p = 0 \<and> starts_with ''local:'' (co_reference (tp_choice p))"
  proof (cases rule: planifier_cases)
    case (planned choice tok t pl j j' B)
    with demo_choice have "p = pl" "choice = \<lparr>co_reference = ''local:qwen3-8b'', co_reason = LocalModel ''qwen3-8b''\<rparr>"
      by simp_all
    with planned(8,10) demo_level show ?thesis by (simp add: starts_with_def)
  qed simp
  with that ok show ?thesis by blast
qed

theorem plan_all_or_nothing_witness:
  "\<exists>r p t. planifier demo_env demo_request None ''n'' 0 (runtime_new (Some demo_broker) ''/home/u'') = (r, Ok p)
     \<and> map_of (rt_tasks r) ''task:01'' = Some t \<and> tk_state t = Planned"
proof -
  obtain r p where p: "planifier demo_env demo_request None ''n'' 0 (runtime_new (Some demo_broker) ''/home/u'')
      = (r, Ok p)"
    by (rule demo_planned)
  have "pq_id demo_request = ''task:01''" by (simp add: demo_request_def)
  with plan_all_or_nothing [OF p runtime_new_ok] p show ?thesis by fastforce
qed

theorem planned_mission_starts_once_witness:
  "\<exists>r1 p r2 t tok. planifier demo_env demo_request None ''n'' 0 (runtime_new (Some demo_broker) ''/home/u'') = (r1, Ok p)
     \<and> begin_local ''task:01'' r1 = (r2, Ok (t, tok, p, ''/home/u'')) \<and> t_sub tok = ''task:01''
     \<and> set (t_grants tok) \<subseteq> set (pq_requested demo_request)"
proof -
  obtain r p where p: "planifier demo_env demo_request None ''n'' 0 (runtime_new (Some demo_broker) ''/home/u'')
      = (r, Ok p)" "tp_sandbox_level p = 0" "starts_with ''local:'' (co_reference (tp_choice p))"
    by (rule demo_planned)
  have "pq_id demo_request = ''task:01''" "rt_broker (runtime_new (Some demo_broker) ''/home/u'') = Some demo_broker"
    "rt_home (runtime_new (Some demo_broker) ''/home/u'') = ''/home/u''"
    by (simp_all add: demo_request_def runtime_new_def)
  with planned_mission_starts_once [OF p(1) runtime_new_ok _ p(2,3)] p(1) show ?thesis by fastforce
qed

text \<open>A runtime with one mission ready to start, and a driver that ends well at once.\<close>

definition ready_task :: task where
  "ready_task = moved Planned demo_task"

definition ready_runtime :: runtime where
  "ready_runtime = (runtime_new None ''/home/u'')\<lparr>rt_tasks := [(''task:01'', ready_task)]\<rparr>"

definition good_driver :: driver_run where
  "good_driver = \<lparr>dr_start = (\<lambda>q. Ok \<lparr>sp_run = ''run'', sp_session_ref = ''session''\<rparr>),
     dr_polls = [Ok [EvStep 1 None, EvDone RunOk None []]]\<rparr>"

lemma ready_task: "tk_state ready_task = Planned" "tk_id ready_task = ''task:01''" "task_ok ready_task"
  by (simp_all add: ready_task_def demo_task_def task_new_def moved_def Task_Life.transition_def
      can_move_to_def task_ok_def may_follow_def)

lemma ready_ok: "rt_ok ready_runtime" "map_of (rt_tasks ready_runtime) ''task:01'' = Some ready_task"
  by (simp_all add: ready_runtime_def rt_ok_def runtime_new_def bt_map_def ready_task)

theorem run_report_true_witness:
  "\<exists>r rep t. run_driver demo_env ''task:01'' good_driver 0 ready_runtime = (r, Ok rep)
     \<and> map_of (rt_tasks r) ''task:01'' = Some t \<and> tk_state t = rp_state rep"
proof -
  obtain r res where r: "run_driver demo_env ''task:01'' good_driver 0 ready_runtime = (r, res)"
    by fastforce
  then have "\<exists>rep. res = Ok rep"
    using ready_ok
  proof (cases rule: run_driver_cases)
    case (looped response s lres t1)
    obtain r1 rep where "run_close demo_env ''task:01'' (st_driver (start_request_for demo_env ''task:01''
        ready_task ready_runtime)) 0 s = (r1, Ok rep)"
      by (rule close_in_hand [OF looped(5,6,3)])
    with looped(9) show ?thesis by (auto simp: good_driver_def)
  qed (auto simp: good_driver_def ready_task can_move_to_def)
  then obtain rep where "res = Ok rep" ..
  with r have ok: "run_driver demo_env ''task:01'' good_driver 0 ready_runtime = (r, Ok rep)" by simp
  from run_report_true [OF ok ready_ok] ok show ?thesis by fastforce
qed

theorem run_failure_leaves_witness:
  "fst (run_driver demo_env ''task:01'' (good_driver\<lparr>dr_start := \<lambda>q. Err ''absent'', dr_polls := []\<rparr>) 0
     ready_runtime) = ready_runtime"
proof -
  obtain r e where r: "run_driver demo_env ''task:01'' (good_driver\<lparr>dr_start := \<lambda>q. Err ''absent'', dr_polls := []\<rparr>)
      0 ready_runtime = (r, Err e)" "e = RtDriver ''absent''"
    by (simp add: run_driver_def ready_ok Let_def)
  from run_failure_leaves [OF r(1) ready_ok] r show ?thesis by auto
qed

text \<open>A service that plans a mission under a token it is given.\<close>

lemma shallow_JObj: "0 < n \<Longrightarrow> shallow n (JObj m) = list_all (\<lambda>(k, j). shallow (n - 1) j) m"
  by (cases n) simp_all

lemma demo_given:
  obtains r p d1 d2 t where
    "planifier demo_env demo_request (Some sales_token) ''n'' 0 (runtime_sans_broker ''/home/u'') = (r, Ok p)"
    "rt_tasks r = [(''task:01'', t)]" "tk_state t = Planned" "tk_id t = ''task:01''"
    "rt_tokens r = [(''task:01'', sales_token)]" "rt_plans r = [(''task:01'', p)]" "rt_results r = []"
    "rt_owners r = []" "rt_manifests r = [(''task:01'', pq_manifest demo_request)]" "rt_journal r = [d1, d2]"
    "shallow 100 (d_payload d1)" "shallow 100 (d_payload d2)" "rt_home r = ''/home/u''"
    "tp_sandbox_level p = 0" "co_reference (tp_choice p) = ''local:qwen3-8b''"
proof -
  have fields: "pq_id demo_request = ''task:01''" "pq_route demo_request = None"
    by (simp_all add: demo_request_def)
  obtain r res where p: "planifier demo_env demo_request (Some sales_token) ''n'' 0 (runtime_sans_broker ''/home/u'')
      = (r, res)" by fastforce
  show thesis
    using p demo_name demo_choice demo_level
    by (intro that [of r]) (auto simp: planifier_def fields runtime_sans_broker_def runtime_new_def contains_key_def
        obtain_token_def Task_Life.transition_def task_new_def can_move_to_def record_event_def Let_def
        JOURNAL_EN_ATTENTE_MAX_def opt_json_def draft_new_def shallow_JObj)
qed

text \<open>A file that can hold two states, whose numbers read back exactly.\<close>

definition no_drift :: float_drift where
  "no_drift = \<lparr>fd_double = (\<lambda>x. x), fd_f64 = (\<lambda>x. x), fd_text = (\<lambda>x. x)\<rparr>"

definition two_states :: "etat_persistant \<Rightarrow> etat_persistant \<Rightarrow> state_file" where
  "two_states X Y = \<lparr>sf_print = (\<lambda>e. if e = X then Some ''x'' else if e = Y then Some ''y'' else None),
     sf_parse = (\<lambda>t. if t = ''x'' then Some X else if t = ''y'' then Some Y else None)\<rparr>"

lemma no_drift_json [simp]: "drift_json no_drift j = j"
proof (induction no_drift j rule: drift_json.induct)
  case (2 js)
  then show ?case by (simp add: map_idI)
next
  case (3 m)
  then have "map (\<lambda>(k, j). (k, drift_json no_drift j)) m = m" by (intro map_idI) auto
  then show ?case by simp
qed (simp_all add: no_drift_def)

lemma no_drift_task [simp]: "drift_task no_drift t = t"
  by (cases t rule: task.cases) (simp add: drift_task_def drift_limits_def no_drift_def Let_def)

lemma no_drift_plan [simp]: "drift_plan no_drift p = p"
proof -
  have "drift_route no_drift = id"
    by (simp add: fun_eq_iff drift_route_def no_drift_def option.map_ident)
  moreover have "drift_limits no_drift = id" by (simp add: fun_eq_iff drift_limits_def no_drift_def)
  ultimately show ?thesis by (simp add: drift_plan_def option.map_id)
qed

lemma no_drift_etat: "drift_etat no_drift e = e"
proof -
  have "drift_manifest no_drift = id" "drift_draft no_drift = id" "drift_task no_drift = id"
    by (simp_all add: fun_eq_iff drift_manifest_def drift_draft_def) (simp add: no_drift_def)
  then show ?thesis by (simp add: drift_etat_def)
qed

lemma two_states_ok: "file_ok (two_states X Y) no_drift"
  by (simp add: file_ok_def two_states_def no_drift_etat)

text \<open>
  The service plans a mission, binds its owner, launches it and saves it; its worker then ends.
\<close>

abbreviation demo_steps :: "state_file \<Rightarrow> service \<Rightarrow> service \<Rightarrow> bool" where
  "demo_steps F \<equiv> (svc_step F demo_env ''/home/u'')\<^sup>*\<^sup>*"

definition demo_end :: "state_file \<Rightarrow> worker \<Rightarrow> service \<Rightarrow> service" where
  "demo_end F w s = worker_conclude demo_env F SaveFails ''task:01'' 3 1 2 (Ok [(''review'', JArr [])])
     (wk_stop w) (wk_stop w) (\<lambda>d. Ok ()) w s"

lemma demo_service:
  obtains F s1 s2 f R p w where "file_ok F no_drift" "demo_steps F (service_new ''/home/u'') s1"
    "svc_work F demo_env s1 s2" "lancer F SaveFine ''task:01'' False False False s1 = (s2, Ok ())"
    "sv_workers s1 = (\<lambda>_. None)" "map_of (rt_plans (sv_runtime s1)) ''task:01'' = Some p"
    "tp_sandbox_level p = 0" "co_reference (tp_choice p) = ''local:qwen3-8b''"
    "map_option tk_state (map_of (rt_tasks (sv_runtime s1)) ''task:01'') = Some Planned"
    "rt_tokens (sv_runtime s1) = [(''task:01'', sales_token)]" "rt_tokens (sv_runtime s2) = [(''task:01'', sales_token)]"
    "map_option tk_state (map_of (rt_tasks (sv_runtime s2)) ''task:01'') = Some Running"
    "map_of (rt_owners (sv_runtime s2)) ''task:01'' = Some 1000"
    "sv_workers s2 ''task:01'' = Some w" "wk_listed w" "\<not> wk_stop w" "saved F s2" "readable_etat (etat (sv_runtime s2))"
    "demarrer F demo_env True SaveFine ''/home/u'' (sv_file s2) = (f, Some R)"
proof -
  obtain r p d1 d2 t where r:
    "planifier demo_env demo_request (Some sales_token) ''n'' 0 (runtime_sans_broker ''/home/u'') = (r, Ok p)"
    "rt_tasks r = [(''task:01'', t)]" "tk_state t = Planned" "tk_id t = ''task:01''"
    "rt_tokens r = [(''task:01'', sales_token)]" "rt_plans r = [(''task:01'', p)]" "rt_results r = []"
    "rt_owners r = []" "rt_manifests r = [(''task:01'', pq_manifest demo_request)]" "rt_journal r = [d1, d2]"
    "shallow 100 (d_payload d1)" "shallow 100 (d_payload d2)" "rt_home r = ''/home/u''"
    "tp_sandbox_level p = 0" "co_reference (tp_choice p) = ''local:qwen3-8b''"
    by (rule demo_given)
  obtain t' where t': "Task_Life.transition Running None t = Ok t'" "tk_state t' = Running"
    using r(3) by (simp add: Task_Life.transition_def can_move_to_def)
  let ?r1 = "r\<lparr>rt_owners := [(''task:01'', 1000)]\<rparr>"
  let ?r2 = "?r1\<lparr>rt_tasks := [(''task:01'', t')]\<rparr>"
  let ?F = "two_states (etat ?r2) (etat (restarted demo_env no_drift ''/home/u'' ?r2))"
  let ?s0 = "service_new ''/home/u''" and ?s1 = "(service_new ''/home/u'')\<lparr>sv_runtime := ?r1\<rparr>"
  have "svc_work ?F demo_env ?s0 (?s0\<lparr>sv_runtime := r\<rparr>)"
    by (rule sw_op, rule rs_plan) (use r(1) in \<open>simp add: service_new_def\<close>)
  moreover have "rt_step demo_env r ?r1"
    by (rule rs_owner [of "''task:01''" 1000]) (simp add: bind_owner_def contains_key_def r)
  then have "svc_work ?F demo_env (?s0\<lparr>sv_runtime := r\<rparr>) ((?s0\<lparr>sv_runtime := r\<rparr>)\<lparr>sv_runtime := ?r1\<rparr>)"
    by (intro sw_op) simp
  ultimately have planned: "demo_steps ?F ?s0 ?s1"
    by (auto intro: sv_work converse_rtranclp_into_rtranclp)
  have begun: "begin_task ''task:01'' False ?r1 = (?r2, Ok (t', sales_token, p, ''/home/u''))"
    using r t'(1) by (simp add: begin_task_def Let_def starts_with_def sales_token_def)
  let ?w = "\<lparr>wk_launch = t', wk_task = t', wk_stop = False, wk_listed = True\<rparr>"
  let ?s2 = "\<lparr>sv_runtime = ?r2, sv_workers = (\<lambda>_. None)(''task:01'' \<mapsto> ?w), sv_file = Some ''x''\<rparr>"
  have launch: "lancer ?F SaveFine ''task:01'' False False False ?s1 = (?s2, Ok ())"
    using begun by (simp add: lancer_def enregistrer_def ecrire_def service_new_def two_states_def)
  have start: "demarrer ?F demo_env True SaveFine ''/home/u'' (Some ''x'')
      = (sf_print ?F (etat (restarted demo_env no_drift ''/home/u'' ?r2)),
         Some (restarted demo_env no_drift ''/home/u'' ?r2))"
    by (simp add: demarrer_def relire_etat_def two_states_def ecrire_def restarted_def Let_def no_drift_etat)
  have manifest: "bu_cost_eur (m_budget (pq_manifest demo_request)) = F64 0 0"
    by (simp add: demo_request_def sales_manifest_def)
  show thesis
    by (rule that [OF two_states_ok planned sw_launch [OF launch] launch, of p ?w])
      (use r t'(2) start manifest in \<open>simp_all add: service_new_def saved_def two_states_def readable_etat_def etat_def\<close>)
qed

lemma kept_entry: "m \<subseteq>\<^sub>m m' \<Longrightarrow> m k = Some v \<Longrightarrow> m' k = Some v"
  by (metis domI map_le_def)

theorem mission_authority_fixed_witness:
  "\<exists>F s s'. demo_steps F (service_new ''/home/u'') s \<and> saved F s \<and> demo_steps F s s' \<and> sv_workers s' = (\<lambda>_. None)
     \<and> map_of (rt_tokens (sv_runtime s')) ''task:01'' = Some sales_token
     \<and> map_of (rt_owners (sv_runtime s')) ''task:01'' = Some 1000"
proof -
  obtain F s1 s2 f R where s: "file_ok F no_drift" "demo_steps F (service_new ''/home/u'') s1"
    "svc_work F demo_env s1 s2" "rt_tokens (sv_runtime s2) = [(''task:01'', sales_token)]"
    "map_of (rt_owners (sv_runtime s2)) ''task:01'' = Some 1000" "saved F s2"
    "demarrer F demo_env True SaveFine ''/home/u'' (sv_file s2) = (f, Some R)"
    by (rule demo_service)
  let ?s3 = "\<lparr>sv_runtime = R\<lparr>rt_keys := rt_keys (sv_runtime s2)\<rparr>, sv_workers = (\<lambda>_. None), sv_file = f\<rparr>"
  have s2: "demo_steps F (service_new ''/home/u'') s2"
    using s(2) sv_work [OF s(3)] by (rule rtranclp.rtrancl_into_rtrancl)
  have "svc_step F demo_env ''/home/u'' s2 ?s3" by (rule sv_restart [OF rtranclp.rtrancl_refl s(7)])
  then have s3: "demo_steps F s2 ?s3" by (rule r_into_rtranclp)
  from mission_authority_fixed [OF s(1) s2 refl refl] s(6) s3
  have "map_of (rt_tokens (sv_runtime s2)) \<subseteq>\<^sub>m map_of (rt_tokens (sv_runtime ?s3))
      \<and> map_of (rt_owners (sv_runtime s2)) \<subseteq>\<^sub>m map_of (rt_owners (sv_runtime ?s3))" by blast
  then have le: "map_of (rt_tokens (sv_runtime s2)) \<subseteq>\<^sub>m map_of (rt_tokens (sv_runtime ?s3))"
    "map_of (rt_owners (sv_runtime s2)) \<subseteq>\<^sub>m map_of (rt_owners (sv_runtime ?s3))" by simp_all
  have "map_of (rt_tokens (sv_runtime ?s3)) ''task:01'' = Some sales_token"
    by (rule kept_entry [OF le(1)]) (simp add: s(4))
  moreover have "map_of (rt_owners (sv_runtime ?s3)) ''task:01'' = Some 1000"
    by (rule kept_entry [OF le(2)]) (rule s(5))
  ultimately show ?thesis
    using s2 s3 s(6) by - (rule exI [of _ F], rule exI [of _ s2], rule exI [of _ ?s3], simp)
qed

theorem missions_well_formed_witness:
  "\<exists>F s t. demo_steps F (service_new ''/home/u'') s \<and> sv_workers s ''task:01'' \<noteq> None
     \<and> map_of (rt_tasks (sv_runtime s)) ''task:01'' = Some t \<and> last (tk_history t) = Running
     \<and> length (rt_journal (sv_runtime s)) \<le> 10000"
proof -
  obtain F s1 s2 w where s: "file_ok F no_drift" "demo_steps F (service_new ''/home/u'') s1"
    "svc_work F demo_env s1 s2" "map_option tk_state (map_of (rt_tasks (sv_runtime s2)) ''task:01'') = Some Running"
    "sv_workers s2 ''task:01'' = Some w"
    by (rule demo_service)
  have s2: "demo_steps F (service_new ''/home/u'') s2"
    using s(2) sv_work [OF s(3)] by (rule rtranclp.rtrancl_into_rtrancl)
  from s(4) obtain t where t: "map_of (rt_tasks (sv_runtime s2)) ''task:01'' = Some t" "tk_state t = Running"
    by auto
  with missions_well_formed [OF s(1) s2 refl] have "last (tk_history t) = Running"
    "length (rt_journal (sv_runtime s2)) \<le> 10000" by simp_all
  with s2 s(5) t(1) show ?thesis by auto
qed

theorem restart_restores_witness:
  "\<exists>F s f R t. demo_steps F (service_new ''/home/u'') s
     \<and> demarrer F demo_env True SaveFine ''/home/u'' (sv_file s) = (f, Some R)
     \<and> map_option tk_state (map_of (rt_tasks (sv_runtime s)) ''task:01'') = Some Running
     \<and> map_of (rt_tasks R) ''task:01'' = Some t \<and> tk_state t = Failed \<and> tk_reason t = Some RESTART_REASON
     \<and> map_of (rt_tokens R) ''task:01'' = Some sales_token"
proof -
  obtain F s1 s2 f R where s: "file_ok F no_drift" "demo_steps F (service_new ''/home/u'') s1"
    "svc_work F demo_env s1 s2" "rt_tokens (sv_runtime s2) = [(''task:01'', sales_token)]"
    "map_option tk_state (map_of (rt_tasks (sv_runtime s2)) ''task:01'') = Some Running" "saved F s2"
    "readable_etat (etat (sv_runtime s2))" "demarrer F demo_env True SaveFine ''/home/u'' (sv_file s2) = (f, Some R)"
    by (rule demo_service)
  have s2: "demo_steps F (service_new ''/home/u'') s2"
    using s(2) sv_work [OF s(3)] by (rule rtranclp.rtrancl_into_rtrancl)
  from restart_restores [OF s(1) s2 refl s(6,7)] obtain R' where R': "\<forall>fault. demarrer F demo_env True fault ''/home/u'' (sv_file s2)
      = (case ecrire F fault (etat R') (sv_file s2) of (f, ok) \<Rightarrow> (f, if ok then Some R' else None))"
    "map_of (rt_tasks R') ''task:01'' = map_option (\<lambda>t. give_up (drift_task no_drift t)) (map_of (rt_tasks (sv_runtime s2)) ''task:01'')"
    "map_of (rt_tokens R') ''task:01'' = map_of (rt_tokens (sv_runtime s2)) ''task:01''"
    by blast
  from R'(1) s(8) have "R' = R" by (auto split: prod.splits if_splits)
  moreover from s(5) obtain t where "map_of (rt_tasks (sv_runtime s2)) ''task:01'' = Some t" "tk_state t = Running"
    by auto
  ultimately have "map_of (rt_tasks R) ''task:01'' = Some (fail_task RESTART_REASON t)"
    "map_of (rt_tokens R) ''task:01'' = Some sales_token"
    using R'(2,3) s(4) by (simp_all add: give_up_def interrupted_def)
  with s2 s(5,8) show ?thesis
    by (intro exI [of _ F] exI [of _ s2] exI [of _ f] exI [of _ R] exI [of _ "fail_task RESTART_REASON t"])
      (simp add: fail_task_def)
qed


theorem publication_guarded_witness:
  "\<exists>F s r' t'. demo_steps F (service_new ''/home/u'') s
     \<and> record_publication demo_env ''task:01'' Undone \<lparr>df_changes = []\<rparr> [] 0 (sv_runtime s) = (r', Ok ())
     \<and> map_of (rt_tasks r') ''task:01'' = Some t' \<and> tk_state t' = RolledBack
     \<and> publication_context demo_env ''task:01'' 1000 r' = Err AlreadyUndone"
proof -
  obtain F s1 s2 w where s: "file_ok F no_drift" "demo_steps F (service_new ''/home/u'') s1"
    "svc_work F demo_env s1 s2" "map_of (rt_owners (sv_runtime s2)) ''task:01'' = Some 1000"
    "sv_workers s2 ''task:01'' = Some w" "\<not> wk_stop w"
    by (rule demo_service)
  have s2: "demo_steps F (service_new ''/home/u'') s2"
    using s(2) sv_work [OF s(3)] by (rule rtranclp.rtrancl_into_rtrancl)
  then have ok: "svc_ok F s2" by (rule service_reach(1) [OF s(1) _ service_new_ok])
  obtain t data ds where c: "conclude demo_env 3 1 2 (Ok [(''review'', JArr [])]) False False (\<lambda>d. Ok ()) (wk_task w) = (t, data, ds)"
    by (cases "conclude demo_env 3 1 2 (Ok [(''review'', JArr [])]) False False (\<lambda>d. Ok ()) (wk_task w)")
  have v: "verdict (Ok [(''review'', JArr [])]) False False = (Done, None, [(''review'', JArr [])])"
    by (simp add: verdict_def)
  note ended = conclude_running [OF worker_copies(1) [OF ok s(5)] c v]
  let ?s3 = "demo_end F w s2"
  have "svc_work F demo_env s2 ?s3"
    unfolding demo_end_def by (rule sw_conclude [OF s(5)]) simp_all
  then have s3: "demo_steps F (service_new ''/home/u'') ?s3"
    using s2 by (auto intro: sv_work rtranclp.rtrancl_into_rtrancl)
  have run: "sv_runtime ?s3 = publish_local t (Some data) (sv_runtime s2)"
    using c s(6) by (simp add: demo_end_def worker_conclude_def publier_def enregistrer_def split: prod.splits)
  have rok: "rt_ok (sv_runtime s2)" using ok by (simp add: svc_ok_def)
  have "worker_ok (sv_runtime s2) ''task:01'' w" using ok s(5) by (simp add: svc_ok_def)
  then obtain t0 where "map_of (rt_tasks (sv_runtime s2)) ''task:01'' = Some t0" "identity (wk_task w) = identity t0"
    by (auto simp: worker_ok_def copy_ok_def)
  with ended(1) rok have "tk_id t = ''task:01''" by (auto simp: rt_ok_def identity_def)
  then have tables: "map_of (rt_tasks (sv_runtime ?s3)) ''task:01'' = Some t"
    "map_of (rt_results (sv_runtime ?s3)) ''task:01'' = Some data"
    "map_of (rt_owners (sv_runtime ?s3)) ''task:01'' = Some 1000"
    using rok s(4) by (simp_all add: run publish_local_def rt_ok_def)
  have "tk_state t = Done" using ended(3) by auto
  moreover obtain m where m: "data = JObj m"
    "\<forall>k. k \<notin> {''state'', ''reason'', ''budget'', ''usage'', ''role'', ''driver''} \<longrightarrow>
       map_of m k = map_of [(''review'', JArr [])] k"
    using ended(4) by blast
  from spec [OF m(2), of "''review''"] have "field ''review'' data = Some (JArr [])" by (simp add: m(1))
  ultimately obtain home index pv where p: "publication_context demo_env ''task:01'' 1000 (sv_runtime ?s3) = Ok (home, index, pv)"
    using tables by (simp add: publication_context_def review_context_def demo_env_def Let_def)
  from publication_guarded [OF s(1) s3 refl p, of "\<lparr>df_changes = []\<rparr>" "[]" 0]
  obtain r' t' where r': "record_publication demo_env ''task:01'' Undone \<lparr>df_changes = []\<rparr> [] 0 (sv_runtime ?s3) = (r', Ok ())"
    "map_of (rt_tasks r') ''task:01'' = Some t'" "tk_state t' = RolledBack"
    "\<forall>v w u. (svc_work F demo_env)\<^sup>*\<^sup>* (?s3\<lparr>sv_runtime := r'\<rparr>) v \<and> (w = v \<or> saved F v \<and> demo_steps F v w) \<longrightarrow>
       publication_context demo_env ''task:01'' u (sv_runtime w) = Err (if u = 1000 then AlreadyUndone else NotCreator)"
    by blast
  from spec [OF r'(4), of "?s3\<lparr>sv_runtime := r'\<rparr>"] have "publication_context demo_env ''task:01'' 1000 r' = Err AlreadyUndone"
    by simp
  with s3 r'(1-3) show ?thesis by blast
qed

lemma moved_fields [simp]: "tk_id (moved n t) = tk_id t" "tk_depth (moved n t) = tk_depth t"
  by (simp_all add: moved_def Task_Life.transition_def)

text \<open>Three siblings.\<close>

definition family_runtime :: runtime where
  "family_runtime = ready_runtime\<lparr>rt_tasks := [(''a'', ready_task\<lparr>tk_id := ''a''\<rparr>),
     (''b'', ready_task\<lparr>tk_id := ''b''\<rparr>), (''c'', ready_task\<lparr>tk_id := ''c''\<rparr>)]\<rparr>"

theorem children_not_deducted_witness:
  "\<exists>r1 r2 t1 t2. link_child ''b'' ''a'' 1 family_runtime = Ok r1 \<and> link_child ''c'' ''a'' 1 r1 = Ok r2
     \<and> map_of (rt_tasks r2) ''b'' = Some t1 \<and> map_of (rt_tasks r2) ''c'' = Some t2 \<and> tk_budget t1 = tk_budget t2"
proof -
  have ok: "rt_ok family_runtime"
    using ready_task by (simp add: family_runtime_def ready_runtime_def rt_ok_def runtime_new_def bt_map_def
        task_ok_def)
  have "map_of (rt_tasks family_runtime) ''a'' = Some (ready_task\<lparr>tk_id := ''a''\<rparr>)"
    "map_of (rt_tasks family_runtime) ''b'' = Some (ready_task\<lparr>tk_id := ''b''\<rparr>)"
    "map_of (rt_tasks family_runtime) ''c'' = Some (ready_task\<lparr>tk_id := ''c''\<rparr>)"
    by (simp_all add: family_runtime_def)
  moreover have "tk_depth (ready_task\<lparr>tk_id := ''a''\<rparr>) < MAX_DEPTH"
    by (simp add: ready_task_def demo_task_def task_new_def MAX_DEPTH_def)
  ultimately show ?thesis
    using children_not_deducted [OF ok, of "''a''" _ "''b''" _ "''c''" _ 1] by fastforce
qed

end
