(* ===== verification/Ledger_Store.thy ===== *)
theory Ledger_Store
  imports Ledger_Event
begin

text \<open>
  The journal on disk (\<^verbatim>\<open>crates/ledger/src/store.rs\<close>, \<^verbatim>\<open>seal.rs\<close>, \<^verbatim>\<open>subscribe.rs\<close>): one file of
  JSON lines per day, an index by sequence number, idempotence keys, seals, queries, verification
  and reopening. The files of the directory are part of the state, as their bytes. Reading and
  writing a line, the calendar, base64 and Ed25519 are the parameters of \<open>journal_env\<close>; failures of
  the file system are not modelled, nor is the bounded buffer of the bus.
\<close>

section \<open>Parameters and state\<close>

record journal_env =
  j_enc :: encoder
  j_to_line :: "event \<Rightarrow> (string \<times> string) + string"
  j_from_line :: "string \<Rightarrow> string + event"
  j_date :: "instant \<Rightarrow> int \<times> nat \<times> nat"
  j_b64_encode :: "string \<Rightarrow> string"
  j_b64_decode :: "string \<Rightarrow> string option"
  j_key_ok :: "string \<Rightarrow> bool"
  j_ed_verify :: "string \<Rightarrow> string \<Rightarrow> string \<Rightarrow> bool"

text \<open>A failed \<open>to_writer\<close> gives the cause and what it had written.\<close>

record sealer =
  sk_sign :: "string \<Rightarrow> string"
  sk_public :: string

record chain_seal =
  cs_up_to_seq :: nat
  cs_head :: string
  cs_signature :: string
  cs_signer :: string

datatype ledger_error = LIo | LEvent event_error | LBadLine string nat string | LSerialize string

record log_filter =
  f_task :: "string option"
  f_kinds :: "event_kind list"
  f_since_seq :: "nat option"
  f_until_seq :: "nat option"
  f_limit :: "nat option"

definition default_filter :: log_filter where
  "default_filter = \<lparr>f_task = None, f_kinds = [], f_since_seq = None, f_until_seq = None,
     f_limit = None\<rparr>"

definition filter_accepts :: "log_filter \<Rightarrow> event \<Rightarrow> bool" where
  "filter_accepts f e \<longleftrightarrow>
     (case f_task f of None \<Rightarrow> True | Some t \<Rightarrow> e_task e = Some t)
   \<and> (f_kinds f = [] \<or> e_kind e \<in> set (f_kinds f))
   \<and> \<not> (case f_since_seq f of None \<Rightarrow> False | Some s \<Rightarrow> e_seq e < s)
   \<and> \<not> (case f_until_seq f of None \<Rightarrow> False | Some s \<Rightarrow> s < e_seq e)"

record verify_report =
  vr_ok :: bool
  vr_checked :: nat
  vr_seals :: nat
  vr_first_bad_seq :: "nat option"
  vr_reason :: "chain_reason option"
  vr_other :: "event_error option"
  vr_bad_seal :: bool

record store =
  st_disk :: "(string, string) amap"
  st_next_seq :: nat
  st_last_hash :: string
  st_index :: "(nat, string \<times> nat \<times> nat) amap"
  st_lignes :: "(string, nat) amap"
  st_premiers :: "(string, nat) amap"
  st_idems :: "(string, nat) amap"
  st_since_last_seal :: nat
  st_sealer :: "sealer option"

section \<open>Lines and names of files\<close>

definition NL :: char where
  "NL = CHR 0x0A"

text \<open>What \<open>read_line\<close> gives one after the other: each line with its newline.\<close>

fun raw_lines :: "string \<Rightarrow> string list" where
  "raw_lines [] = []"
| "raw_lines (c # s) =
     (if c = NL then [c] # raw_lines s
      else (case raw_lines s of [] \<Rightarrow> [[c]] | l # ls \<Rightarrow> (c # l) # ls))"

text \<open>\<open>BufRead::lines\<close> cuts the newline, and a carriage return before it.\<close>

definition line_text :: "string \<Rightarrow> string" where
  "line_text l = (case strip_suffix [NL] l of Some r \<Rightarrow> chomp_cr r | None \<Rightarrow> l)"

text \<open>\<open>{:0w}\<close>: the sign counts in the width.\<close>

definition zero_pad :: "nat \<Rightarrow> string \<Rightarrow> string" where
  "zero_pad w s = replicate (w - length s) CHR ''0'' @ s"

definition fmt_year :: "int \<Rightarrow> string" where
  "fmt_year y = (if y < 0 then CHR ''-'' # zero_pad 3 (show_nat (nat (- y)))
     else zero_pad 4 (show_nat (nat y)))"

definition path_for :: "journal_env \<Rightarrow> instant \<Rightarrow> string" where
  "path_for E ts = (case j_date E ts of (y, m, d) \<Rightarrow>
     fmt_year y @ ''-'' @ zero_pad 2 (show_nat m) @ ''-'' @ zero_pad 2 (show_nat d) @ ''.jsonl'')"

text \<open>\<open>Path::extension\<close>: what follows the last dot, unless that dot starts the name.\<close>

definition has_jsonl_extension :: "string \<Rightarrow> bool" where
  "has_jsonl_extension name \<longleftrightarrow>
     (case rsplit_once CHR ''.'' name of Some (a, b) \<Rightarrow> a \<noteq> [] \<and> b = ''jsonl'' | None \<Rightarrow> False)"

definition day_files :: "store \<Rightarrow> string list" where
  "day_files s = sort (filter has_jsonl_extension (map fst (st_disk s)))"

section \<open>Seals\<close>

definition seal_message :: "nat \<Rightarrow> string \<Rightarrow> string" where
  "seal_message up_to_seq head = show_nat up_to_seq @ '':'' @ head"

definition sealer_public :: "journal_env \<Rightarrow> sealer \<Rightarrow> string" where
  "sealer_public E k = ''ed25519:'' @ j_b64_encode E (sk_public k)"

definition sealer_seal :: "journal_env \<Rightarrow> sealer \<Rightarrow> nat \<Rightarrow> string \<Rightarrow> chain_seal" where
  "sealer_seal E k up_to_seq head =
     \<lparr>cs_up_to_seq = up_to_seq, cs_head = head,
      cs_signature = ''ed25519:'' @ j_b64_encode E (sk_sign k (seal_message up_to_seq head)),
      cs_signer = sealer_public E k\<rparr>"

definition verify_seal :: "journal_env \<Rightarrow> chain_seal \<Rightarrow> bool" where
  "verify_seal E c =
     (case strip_prefix ''ed25519:'' (cs_signer c) of
        None \<Rightarrow> False
      | Some key_raw \<Rightarrow>
     (case j_b64_decode E key_raw of
        None \<Rightarrow> False
      | Some key \<Rightarrow>
          if length key \<noteq> 32 \<or> \<not> j_key_ok E key then False
          else
     (case strip_prefix ''ed25519:'' (cs_signature c) of
        None \<Rightarrow> False
      | Some sig_raw \<Rightarrow>
     (case j_b64_decode E sig_raw of
        None \<Rightarrow> False
      | Some sig \<Rightarrow>
          if length sig \<noteq> 64 then False
          else j_ed_verify E key (seal_message (cs_up_to_seq c) (cs_head c)) sig))))"

definition seal_json :: "chain_seal \<Rightarrow> json" where
  "seal_json c = JObj [(''up_to_seq'', JInt (int (cs_up_to_seq c))), (''head'', JStr (cs_head c)),
     (''signature'', JStr (cs_signature c)), (''signer'', JStr (cs_signer c))]"

text \<open>The derived reader of a seal: four fields, others ignored.\<close>

definition seal_of_json :: "json \<Rightarrow> string + chain_seal" where
  "seal_of_json j =
     (case (as_u64 (field ''up_to_seq'' j), as_str (field ''head'' j), as_str (field ''signature'' j),
            as_str (field ''signer'' j)) of
        (Some n, Some h, Some g, Some k) \<Rightarrow>
          Ok \<lparr>cs_up_to_seq = n, cs_head = h, cs_signature = g, cs_signer = k\<rparr>
      | _ \<Rightarrow> Err ''seal'')"

section \<open>Reading\<close>

fun read_lines ::
    "(string \<Rightarrow> string + event) \<Rightarrow> string \<Rightarrow> nat \<Rightarrow> string list \<Rightarrow> ledger_error + event list" where
  "read_lines from_line file n [] = Ok []"
| "read_lines from_line file n (l # ls) =
     (if trim l = [] then read_lines from_line file (n + 1) ls
      else (case from_line l of
              Inl cause \<Rightarrow> Err (LBadLine file (n + 1) cause)
            | Inr e \<Rightarrow>
                (case read_lines from_line file (n + 1) ls of
                   Inl err \<Rightarrow> Err err
                 | Inr es \<Rightarrow> Ok (e # es))))"

definition lire_depuis ::
    "journal_env \<Rightarrow> store \<Rightarrow> string \<Rightarrow> nat \<Rightarrow> nat \<Rightarrow> ledger_error + event list" where
  "lire_depuis E s path octet premiere =
     (case map_of (st_disk s) path of
        None \<Rightarrow> Err LIo
      | Some bytes \<Rightarrow>
          read_lines (j_from_line E) path premiere (map line_text (raw_lines (drop octet bytes))))"

definition event_at :: "journal_env \<Rightarrow> store \<Rightarrow> nat \<Rightarrow> ledger_error + event option" where
  "event_at E s seq =
     (case map_of (st_index s) seq of
        None \<Rightarrow> Ok None
      | Some (path, ligne, octet) \<Rightarrow>
          (case map_of (st_disk s) path of
             None \<Rightarrow> Err LIo
           | Some bytes \<Rightarrow>
               (case j_from_line E (case raw_lines (drop octet bytes) of [] \<Rightarrow> [] | l # _ \<Rightarrow> l) of
                  Inl cause \<Rightarrow> Err (LBadLine path (ligne + 1) cause)
                | Inr e \<Rightarrow> Ok (if e_seq e = seq then Some e else None))))"

fun read_files :: "journal_env \<Rightarrow> store \<Rightarrow> string list \<Rightarrow> ledger_error + event list" where
  "read_files E s [] = Ok []"
| "read_files E s (path # paths) =
     (case lire_depuis E s path 0 0 of
        Inl err \<Rightarrow> Err err
      | Inr es \<Rightarrow>
          (case read_files E s paths of Inl err \<Rightarrow> Err err | Inr es' \<Rightarrow> Ok (es @ es')))"

definition read_all :: "journal_env \<Rightarrow> store \<Rightarrow> ledger_error + event list" where
  "read_all E s =
     (case read_files E s (day_files s) of
        Inl err \<Rightarrow> Err err
      | Inr es \<Rightarrow> Ok (sort_key e_seq es))"

text \<open>\<open>read_since\<close>: where to start in each file, then the files.\<close>

fun note_start :: "(string, nat \<times> nat \<times> nat) amap \<Rightarrow> nat \<times> string \<times> nat \<times> nat
    \<Rightarrow> (string, nat \<times> nat \<times> nat) amap" where
  "note_start debuts (seq, fichier, ligne, octet) =
     (case map_of debuts fichier of
        None \<Rightarrow> AList.update fichier (ligne, octet, seq) debuts
      | Some (ligne0, _) \<Rightarrow>
          if ligne < ligne0 then AList.update fichier (ligne, octet, seq) debuts else debuts)"

definition index_from :: "store \<Rightarrow> nat \<Rightarrow> (nat \<times> string \<times> nat \<times> nat) list" where
  "index_from s depuis = sort_key fst (filter (\<lambda>(seq, _). depuis \<le> seq) (st_index s))"

definition starts :: "store \<Rightarrow> nat \<Rightarrow> (string, nat \<times> nat \<times> nat) amap" where
  "starts s depuis = foldl note_start [] (index_from s depuis)"

definition read_start ::
    "journal_env \<Rightarrow> store \<Rightarrow> string \<Rightarrow> nat \<times> nat \<times> nat \<Rightarrow> ledger_error + event list" where
  "read_start E s fichier start =
     (case start of (ligne, octet, attendu) \<Rightarrow>
        (case lire_depuis E s fichier octet ligne of
           Inl err \<Rightarrow> Err err
         | Inr lus \<Rightarrow>
             if (case lus of [] \<Rightarrow> True | e # _ \<Rightarrow> e_seq e \<noteq> attendu)
             then lire_depuis E s fichier 0 0 else Ok lus))"

fun read_starts :: "journal_env \<Rightarrow> store \<Rightarrow> nat \<Rightarrow> (string \<times> nat \<times> nat \<times> nat) list
    \<Rightarrow> ledger_error + event list" where
  "read_starts E s depuis [] = Ok []"
| "read_starts E s depuis ((fichier, start) # rest) =
     (case read_start E s fichier start of
        Inl err \<Rightarrow> Err err
      | Inr lus \<Rightarrow>
          (case read_starts E s depuis rest of
             Inl err \<Rightarrow> Err err
           | Inr es \<Rightarrow> Ok (filter (\<lambda>e. depuis \<le> e_seq e) lus @ es)))"

definition read_since :: "journal_env \<Rightarrow> store \<Rightarrow> nat \<Rightarrow> ledger_error + event list" where
  "read_since E s depuis =
     (case read_starts E s depuis (sort_key fst (starts s depuis)) of
        Inl err \<Rightarrow> Err err
      | Inr es \<Rightarrow> Ok (sort_key e_seq es))"

definition query_result :: "log_filter \<Rightarrow> event list \<Rightarrow> event list" where
  "query_result f es = (case f_limit f of
     None \<Rightarrow> filter (filter_accepts f) es | Some n \<Rightarrow> take n (filter (filter_accepts f) es))"

definition query :: "journal_env \<Rightarrow> store \<Rightarrow> log_filter \<Rightarrow> ledger_error + event list" where
  "query E s f =
     (let depuis = (case f_task f of
            Some tache \<Rightarrow>
              (case map_of (st_premiers s) tache of
                 Some premier \<Rightarrow> Some (Some (case f_since_seq f of None \<Rightarrow> premier | Some n \<Rightarrow> max n premier))
               | None \<Rightarrow> None)
          | None \<Rightarrow> Some (f_since_seq f))
      in case depuis of
           None \<Rightarrow> Ok []
         | Some d \<Rightarrow>
             (case (case d of Some n \<Rightarrow> read_since E s n | None \<Rightarrow> read_all E s) of
                Inl err \<Rightarrow> Err err
              | Inr lus \<Rightarrow> Ok (query_result f lus)))"

section \<open>Opening\<close>

text \<open>What one event read or written adds to the index, the tasks and the keys.\<close>

definition index_event :: "string \<Rightarrow> nat \<Rightarrow> nat \<Rightarrow> event \<Rightarrow> store \<Rightarrow> store" where
  "index_event path ligne octet e s =
     s\<lparr>st_index := AList.update (e_seq e) (path, ligne, octet) (st_index s),
       st_premiers := (case e_task e of
          None \<Rightarrow> st_premiers s
        | Some t \<Rightarrow> if contains_key t (st_premiers s) then st_premiers s
                   else AList.update t (e_seq e) (st_premiers s)),
       st_idems := (case e_idem e of
          None \<Rightarrow> st_idems s | Some k \<Rightarrow> AList.update k (e_seq e) (st_idems s))\<rparr>"

definition hash_or_genesis :: "event \<Rightarrow> string" where
  "hash_or_genesis e = (case e_hash e of Some h \<Rightarrow> h | None \<Rightarrow> GENESIS)"

fun index_lines :: "journal_env \<Rightarrow> string \<Rightarrow> nat \<Rightarrow> nat \<Rightarrow> string list \<Rightarrow> store
    \<Rightarrow> ledger_error + store" where
  "index_lines E path n octet [] s = Ok s"
| "index_lines E path n octet (l # ls) s =
     (let s1 = s\<lparr>st_lignes := AList.update path (n + 1) (st_lignes s)\<rparr>;
          octet' = octet + length l
      in if trim l = [] then index_lines E path (n + 1) octet' ls s1
         else (case j_from_line E l of
                 Inl cause \<Rightarrow> Err (LBadLine path (n + 1) cause)
               | Inr e \<Rightarrow>
                   index_lines E path (n + 1) octet' ls
                     ((index_event path n octet e s1)
                        \<lparr>st_next_seq := e_seq e + 1, st_last_hash := hash_or_genesis e,
                         st_since_last_seal := (if e_kind e = LedgerSeal then 0
                           else st_since_last_seal s + 1)\<rparr>)))"

fun index_files :: "journal_env \<Rightarrow> string list \<Rightarrow> store \<Rightarrow> ledger_error + store" where
  "index_files E [] s = Ok s"
| "index_files E (path # paths) s =
     (case map_of (st_disk s) path of
        None \<Rightarrow> Err LIo
      | Some bytes \<Rightarrow>
          (case index_lines E path 0 0 (raw_lines bytes) s of
             Inl err \<Rightarrow> Err err
           | Inr s' \<Rightarrow> index_files E paths s'))"

definition empty_store :: "(string, string) amap \<Rightarrow> store" where
  "empty_store disk = \<lparr>st_disk = disk, st_next_seq = 0, st_last_hash = GENESIS, st_index = [],
     st_lignes = [], st_premiers = [], st_idems = [], st_since_last_seal = 0, st_sealer = None\<rparr>"

definition rebuild_index :: "journal_env \<Rightarrow> store \<Rightarrow> ledger_error + store" where
  "rebuild_index E s = index_files E (day_files s) s"

definition store_open :: "journal_env \<Rightarrow> (string, string) amap \<Rightarrow> ledger_error + store" where
  "store_open E disk = rebuild_index E (empty_store disk)"

definition with_sealer :: "store \<Rightarrow> sealer \<Rightarrow> store" where
  "with_sealer s k = s\<lparr>st_sealer := Some k\<rparr>"

section \<open>Writing\<close>

definition write_line :: "journal_env \<Rightarrow> event \<Rightarrow> instant \<Rightarrow> store \<Rightarrow> store \<times> (ledger_error + unit)" where
  "write_line E e ts s =
     (let path = path_for E ts;
          bytes = (case map_of (st_disk s) path of None \<Rightarrow> [] | Some b \<Rightarrow> b);
          existing_lines = (case map_of (st_lignes s) path of
             Some n \<Rightarrow> n
           | None \<Rightarrow> length (raw_lines bytes))
      in case j_to_line E e of
           Inl (cause, written) \<Rightarrow>
             (s\<lparr>st_disk := AList.update path (bytes @ written) (st_disk s)\<rparr>, Err (LSerialize cause))
         | Inr t \<Rightarrow>
             (index_event path existing_lines (length bytes) e
                (s\<lparr>st_disk := AList.update path (bytes @ t @ [NL]) (st_disk s),
                   st_lignes := AList.update path (existing_lines + 1) (st_lignes s)\<rparr>),
              Ok ()))"

definition append_new :: "journal_env \<Rightarrow> draft \<Rightarrow> store \<Rightarrow> store \<times> (ledger_error + event)" where
  "append_new E d s =
     (case seal (j_enc E) d (st_next_seq s) (st_last_hash s) of
        Inl err \<Rightarrow> (s, Err (LEvent err))
      | Inr e \<Rightarrow>
          (case write_line E e (d_ts d) s of
             (s', Inl err) \<Rightarrow> (s', Err err)
           | (s', Inr _) \<Rightarrow>
               (s'\<lparr>st_next_seq := st_next_seq s' + 1, st_last_hash := hash_or_genesis e,
                   st_since_last_seal := st_since_last_seal s' + 1\<rparr>, Ok e)))"

definition contains_idem :: "string \<Rightarrow> store \<Rightarrow> bool" where
  "contains_idem k s = contains_key k (st_idems s)"

definition store_append :: "journal_env \<Rightarrow> draft \<Rightarrow> store \<Rightarrow> store \<times> (ledger_error + event)" where
  "store_append E d s =
     (case Option.bind (d_idem d) (map_of (st_idems s)) of
        None \<Rightarrow> append_new E d s
      | Some seq \<Rightarrow>
          (case event_at E s seq of
             Inl err \<Rightarrow> (s, Err err)
           | Inr (Some e) \<Rightarrow> (s, Ok e)
           | Inr None \<Rightarrow> append_new E d s))"

fun append_batch :: "journal_env \<Rightarrow> draft list \<Rightarrow> store \<Rightarrow> store \<times> (ledger_error + event list)" where
  "append_batch E [] s = (s, Ok [])"
| "append_batch E (d # ds) s =
     (case store_append E d s of
        (s', Inl err) \<Rightarrow> (s', Err err)
      | (s', Inr e) \<Rightarrow>
          (case append_batch E ds s' of
             (s'', Inl err) \<Rightarrow> (s'', Err err)
           | (s'', Inr es) \<Rightarrow> (s'', Ok (e # es))))"

definition maybe_seal :: "journal_env \<Rightarrow> instant \<Rightarrow> nat \<Rightarrow> bool \<Rightarrow> store
    \<Rightarrow> store \<times> (ledger_error + event option)" where
  "maybe_seal E now threshold force s =
     (case st_sealer s of
        None \<Rightarrow> (s, Ok None)
      | Some k \<Rightarrow>
          if \<not> force \<and> st_since_last_seal s < threshold then (s, Ok None)
          else (case store_append E (draft_new now ''ledger'' LedgerSeal
                  (seal_json (sealer_seal E k (st_next_seq s - 1) (st_last_hash s)))) s of
                  (s', Inl err) \<Rightarrow> (s', Err err)
                | (s', Inr e) \<Rightarrow> (s'\<lparr>st_since_last_seal := 0\<rparr>, Ok (Some e))))"

section \<open>Verification of the journal\<close>

text \<open>The loop over the seals: the count so far, or the number of the first bad one.\<close>

fun check_seals :: "journal_env \<Rightarrow> nat \<Rightarrow> event list \<Rightarrow> ledger_error + nat \<times> nat option" where
  "check_seals E n [] = Ok (n, None)"
| "check_seals E n (e # es) =
     (if e_kind e \<noteq> LedgerSeal then check_seals E n es
      else (case seal_of_json (e_payload e) of
              Inl cause \<Rightarrow> Err (LSerialize cause)
            | Inr c \<Rightarrow>
                if \<not> verify_seal E c then Ok (n, Some (e_seq e)) else check_seals E (n + 1) es))"

definition store_verify :: "journal_env \<Rightarrow> store \<Rightarrow> ledger_error + verify_report" where
  "store_verify E s =
     (case read_all E s of
        Inl err \<Rightarrow> Err err
      | Inr es \<Rightarrow>
     (case verify_chain (j_enc E) es of
        Inl error \<Rightarrow>
          Ok \<lparr>vr_ok = False, vr_checked = length es, vr_seals = 0,
              vr_first_bad_seq = (case error of BrokenChain q _ \<Rightarrow> Some q | _ \<Rightarrow> None),
              vr_reason = (case error of BrokenChain _ r \<Rightarrow> Some r | _ \<Rightarrow> None),
              vr_other = (case error of BrokenChain _ _ \<Rightarrow> None | _ \<Rightarrow> Some error),
              vr_bad_seal = False\<rparr>
      | Inr _ \<Rightarrow>
     (case (case st_sealer s of None \<Rightarrow> Ok (0, None) | Some k \<Rightarrow> check_seals E 0 es) of
        Inl err \<Rightarrow> Err err
      | Inr (seals, bad) \<Rightarrow>
          Ok \<lparr>vr_ok = (bad = None), vr_checked = length es, vr_seals = seals,
              vr_first_bad_seq = bad, vr_reason = None, vr_other = None,
              vr_bad_seal = (bad \<noteq> None)\<rparr>)))"

section \<open>The summary of a task\<close>

definition E_ACUTE :: string where
  "E_ACUTE = [CHR 0xC3, CHR 0xA9]"

definition pad_right :: "nat \<Rightarrow> string \<Rightarrow> string" where
  "pad_right w s = s @ replicate (w - chars_count s) CHR '' ''"

definition pad_left :: "nat \<Rightarrow> string \<Rightarrow> string" where
  "pad_left w s = replicate (w - chars_count s) CHR '' '' @ s"

definition str_or :: "string \<Rightarrow> string option \<Rightarrow> string" where
  "str_or d s = (case s of Some x \<Rightarrow> x | None \<Rightarrow> d)"

definition summarize :: "event \<Rightarrow> string" where
  "summarize e =
     (let p = e_payload e; str = (\<lambda>k d. str_or d (as_str (field k p)))
      in case e_kind e of
           ToolCall \<Rightarrow> str ''tool'' ''?''
         | ToolResult \<Rightarrow> str ''tool'' ''?'' @ '' '' @
             (if as_bool (field ''ok'' p) = Some True then ''ok'' else E_ACUTE @ ''chec'')
         | PolicyDeny \<Rightarrow> str ''res'' ''?'' @ ''/'' @ str ''act'' ''?'' @ '' '' @ str ''reason'' []
         | NetRequest \<Rightarrow> str ''host'' ''?''
         | NetDeny \<Rightarrow> str ''host'' ''?''
         | FsCommit \<Rightarrow> show_nat (case as_u64 (Option.bind (field ''files'' p) (field ''modified'')) of
             Some n \<Rightarrow> n | None \<Rightarrow> 0) @ '' fichiers''
         | FsUndo \<Rightarrow> show_nat (case as_u64 (Option.bind (field ''files'' p) (field ''modified'')) of
             Some n \<Rightarrow> n | None \<Rightarrow> 0) @ '' fichiers''
         | _ \<Rightarrow> [])"

definition replay_line :: "journal_env \<Rightarrow> event \<Rightarrow> string" where
  "replay_line E e =
     (case n_rfc3339 (j_enc E) (e_ts e) of Inr t \<Rightarrow> t | Inl _ \<Rightarrow> []) @ ''  '' @ E_ACUTE @ ''tape '' @
     (case e_step e of None \<Rightarrow> ''   '' | Some n \<Rightarrow> pad_left 3 (show_nat n)) @ ''  '' @
     pad_right 22 (event_kind_name (e_kind e)) @ '' '' @ e_actor e @ '' '' @ summarize e @ [NL]"

definition replay :: "journal_env \<Rightarrow> store \<Rightarrow> string \<Rightarrow> ledger_error + string" where
  "replay E s tache =
     (case query E s (default_filter\<lparr>f_task := Some tache\<rparr>) of
        Inl err \<Rightarrow> Err err
      | Inr es \<Rightarrow> Ok (concat (map (replay_line E) es) @
          (if es = [] then ''aucun '' @ E_ACUTE @ ''v'' @ E_ACUTE @ ''nement pour cette t'' @
             [CHR 0xC3, CHR 0xA2] @ ''che'' @ [NL] else [])))"

end
