(* ===== verification/Ledger_History.thy ===== *)
theory Ledger_History
  imports Ledger_Store
begin

text \<open>
  What the journal promises: it holds one list of events, the history, which only grows at its end.
  \<open>rep\<close> relates a store to its history; writing, reading, querying, verifying and reopening are
  shown to be the operations on lists they stand for.
\<close>

section \<open>Lines\<close>

text \<open>
  \<open>serde_json\<close> reads back what it has written, except floating-point numbers, which may come back as a
  neighbour (the workspace does not ask for its feature \<open>float_roundtrip\<close>), and values nested deeper
  than its recursion limit of 128. \<open>plain_json n\<close> has no float and at most \<open>n\<close> levels.
\<close>

fun plain_json :: "nat \<Rightarrow> json \<Rightarrow> bool" where
  "plain_json n (JFloat x) = False"
| "plain_json 0 (JArr js) = False"
| "plain_json (Suc n) (JArr js) = list_all (plain_json n) js"
| "plain_json 0 (JObj m) = False"
| "plain_json (Suc n) (JObj m) = list_all (\<lambda>(k, j). plain_json n j) m"
| "plain_json n JNull = True"
| "plain_json n (JBool b) = True"
| "plain_json n (JInt i) = True"
| "plain_json n (JStr t) = True"

definition plain_payload :: "json \<Rightarrow> bool" where
  "plain_payload j = plain_json 100 j"

text \<open>An event whose line gives it back.\<close>

definition reads_back :: "journal_env \<Rightarrow> event \<Rightarrow> bool" where
  "reads_back E e \<longleftrightarrow> (\<exists>t. j_to_line E e = Inr t \<and> j_from_line E t = Ok e \<and> j_from_line E (t @ [NL]) = Ok e)"

definition codec_ok :: "journal_env \<Rightarrow> bool" where
  "codec_ok E \<longleftrightarrow> (\<forall>e t. j_to_line E e = Inr t \<longrightarrow>
     NL \<notin> set t \<and> trim t \<noteq> [] \<and> trim (t @ [NL]) \<noteq> [] \<and> (\<forall>u. t \<noteq> u @ [CHR 0x0D])
     \<and> (plain_payload (e_payload e) \<longrightarrow> reads_back E e))"

definition line :: "journal_env \<Rightarrow> event \<Rightarrow> string" where
  "line E e = (case j_to_line E e of Inr t \<Rightarrow> t | Inl _ \<Rightarrow> []) @ [NL]"

definition writable :: "journal_env \<Rightarrow> event list \<Rightarrow> bool" where
  "writable E es \<longleftrightarrow> (\<forall>e \<in> set es. reads_back E e)"

lemma writable_simps [simp]:
  "writable E []" "writable E (e # es) \<longleftrightarrow> reads_back E e \<and> writable E es"
  "writable E (es @ fs) \<longleftrightarrow> writable E es \<and> writable E fs"
  by (auto simp: writable_def)

lemma writable_filter: "writable E es \<Longrightarrow> writable E (filter P es)"
  by (simp add: writable_def)

lemma raw_lines_line: "NL \<notin> set t \<Longrightarrow> raw_lines (t @ NL # s) = (t @ [NL]) # raw_lines s"
  by (induction t) auto

lemma line_text_line: "(\<And>u. t \<noteq> u @ [CHR 0x0D]) \<Longrightarrow> line_text (t @ [NL]) = t"
  by (auto simp: line_text_def chomp_cr_def str_simps split: option.splits)

definition lines :: "journal_env \<Rightarrow> event list \<Rightarrow> string" where
  "lines E es = concat (map (line E) es)"

lemma lines_simps [simp]:
  "lines E [] = []" "lines E (e # es) = line E e @ lines E es" "lines E (es @ fs) = lines E es @ lines E fs"
  by (simp_all add: lines_def)

lemma raw_lines_lines:
  assumes "codec_ok E" "writable E es"
  shows "raw_lines (lines E es) = map (line E) es"
  using assms(2)
proof (induction es)
  case (Cons e es)
  then obtain t where t: "j_to_line E e = Inr t" by (auto simp: reads_back_def)
  with assms(1) have "NL \<notin> set t" by (simp add: codec_ok_def)
  with Cons t show ?case by (simp add: line_def raw_lines_line)
qed simp

lemma read_lines_lines:
  assumes "codec_ok E" "writable E es"
  shows "read_lines (j_from_line E) p n (map line_text (map (line E) es)) = Ok es"
  using assms(2)
proof (induction es arbitrary: n)
  case (Cons e es)
  then obtain t where t: "j_to_line E e = Inr t" "j_from_line E t = Ok e" by (auto simp: reads_back_def)
  with assms(1) have "line_text (line E e) = t" "trim t \<noteq> []"
    by (simp_all add: codec_ok_def line_def line_text_line)
  with Cons t show ?case by simp
qed simp

lemma from_line_line:
  assumes "codec_ok E" "writable E [e]"
  shows "j_from_line E (line E e) = Ok e" "trim (line E e) \<noteq> []"
  using assms by (auto simp: codec_ok_def line_def reads_back_def)

section \<open>Days\<close>

definition day :: "journal_env \<Rightarrow> event \<Rightarrow> string" where
  "day E e = path_for E (e_ts e)"

definition in_day :: "journal_env \<Rightarrow> string \<Rightarrow> event list \<Rightarrow> event list" where
  "in_day E p es = filter (\<lambda>e. day E e = p) es"

lemma in_day_simps [simp]:
  "in_day E p [] = []" "in_day E p (es @ fs) = in_day E p es @ in_day E p fs"
  "in_day E p (e # es) = (if day E e = p then e # in_day E p es else in_day E p es)"
  by (simp_all add: in_day_def)

lemma writable_in_day: "writable E es \<Longrightarrow> writable E (in_day E p es)"
  by (simp add: in_day_def writable_filter)

lemma in_day_eq_Nil: "in_day E p es = [] \<longleftrightarrow> p \<notin> day E ` set es"
  by (auto simp: in_day_def filter_empty_conv)

lemma in_day_out [simp]: "p \<notin> day E ` set es \<Longrightarrow> in_day E p es = []"
  by (simp add: in_day_eq_Nil)

lemma day_file: "has_jsonl_extension (day E e)"
proof -
  obtain y m d where ymd: "j_date E (e_ts e) = (y, m, d)" by (cases "j_date E (e_ts e)")
  let ?stem = "fmt_year y @ ''-'' @ zero_pad 2 (show_nat m) @ ''-'' @ zero_pad 2 (show_nat d)"
  have "day E e = ?stem @ CHR ''.'' # ''jsonl''"
    by (simp add: day_def path_for_def ymd)
  then have "rsplit_once CHR ''.'' (day E e) = Some (?stem, ''jsonl'')"
    by (subst rsplit_once_Some) simp
  then show ?thesis by (simp add: has_jsonl_extension_def)
qed

text \<open>The events file by file, days in the order of their names.\<close>

definition by_day :: "journal_env \<Rightarrow> event list \<Rightarrow> event list" where
  "by_day E es = concat (map (\<lambda>p. in_day E p es) (sorted_list_of_set (day E ` set es)))"

lemma distinct_concat_filter:
  "distinct ps \<Longrightarrow> distinct xs \<Longrightarrow> distinct (concat (map (\<lambda>p. filter (\<lambda>x. f x = p) xs) ps))"
  by (induction ps) auto

lemma distinct_by_day: "distinct es \<Longrightarrow> distinct (by_day E es)"
  unfolding by_day_def in_day_def by (rule distinct_concat_filter) simp_all

lemma set_by_day: "set (by_day E es) = set es"
  by (auto simp: by_day_def in_day_def)

section \<open>Positions\<close>

fun find_pos :: "('a \<Rightarrow> bool) \<Rightarrow> 'a list \<Rightarrow> nat option" where
  "find_pos P [] = None"
| "find_pos P (x # xs) = (if P x then Some 0 else map_option Suc (find_pos P xs))"

lemma find_pos_snoc: "find_pos P (xs @ [x]) =
    (case find_pos P xs of Some n \<Rightarrow> Some n | None \<Rightarrow> if P x then Some (length xs) else None)"
  by (induction xs) (auto split: option.splits)

lemma find_pos_None: "find_pos P xs = None \<longleftrightarrow> (\<forall>x \<in> set xs. \<not> P x)"
  by (induction xs) auto

lemma find_pos_Some: "find_pos P xs = Some n \<Longrightarrow>
    n < length xs \<and> P (xs ! n) \<and> (\<forall>x \<in> set (take n xs). \<not> P x)"
  by (induction xs arbitrary: n) (auto split: if_splits)

section \<open>The relation\<close>

definition numbered :: "event list \<Rightarrow> bool" where
  "numbered es \<longleftrightarrow> map e_seq es = [0..<length es]"

text \<open>The part of a store that \<open>rebuild_index\<close> computes.\<close>

definition indexed :: "journal_env \<Rightarrow> event list \<Rightarrow> store \<Rightarrow> bool" where
  "indexed E es s \<longleftrightarrow>
     distinct_keys (st_index s)
   \<and> (\<forall>n. map_of (st_index s) n = (if n < length es
        then Some (day E (es ! n), length (in_day E (day E (es ! n)) (take n es)),
                   length (lines E (in_day E (day E (es ! n)) (take n es))))
        else None))
   \<and> (\<forall>p. map_of (st_lignes s) p =
        (if p \<in> day E ` set es then Some (length (in_day E p es)) else None))
   \<and> (\<forall>t. map_of (st_premiers s) t = find_pos (\<lambda>e. e_task e = Some t) es)
   \<and> (\<forall>k. map_of (st_idems s) k = find_pos (\<lambda>e. e_idem e = Some k) es)
   \<and> st_next_seq s = length es \<and> st_last_hash s = chain_head es"

definition on_disk :: "journal_env \<Rightarrow> event list \<Rightarrow> (string, string) amap \<Rightarrow> bool" where
  "on_disk E es disk \<longleftrightarrow> distinct_keys disk
   \<and> (\<forall>p. map_of disk p = (if p \<in> day E ` set es then Some (lines E (in_day E p es)) else None))"

definition idem_keys :: "event list \<Rightarrow> string list" where
  "idem_keys es = concat (map (\<lambda>e. case e_idem e of None \<Rightarrow> [] | Some k \<Rightarrow> [k]) es)"

lemma idem_keys_simps [simp]:
  "idem_keys [] = []" "idem_keys (es @ fs) = idem_keys es @ idem_keys fs"
  "idem_keys (e # es) = (case e_idem e of None \<Rightarrow> [] | Some k \<Rightarrow> [k]) @ idem_keys es"
  by (simp_all add: idem_keys_def)

lemma in_idem_keys: "k \<in> set (idem_keys es) \<longleftrightarrow> find_pos (\<lambda>e. e_idem e = Some k) es \<noteq> None"
  by (induction es) (auto split: option.splits)

definition history_ok :: "journal_env \<Rightarrow> event list \<Rightarrow> bool" where
  "history_ok E es \<longleftrightarrow> writable E es \<and> numbered es \<and> verify_chain (j_enc E) es = Ok ()
   \<and> distinct (idem_keys es)"

definition rep :: "journal_env \<Rightarrow> event list \<Rightarrow> store \<Rightarrow> bool" where
  "rep E es s \<longleftrightarrow> history_ok E es \<and> indexed E es s \<and> on_disk E es (st_disk s)"

lemma numbered_nth: "numbered es \<Longrightarrow> n < length es \<Longrightarrow> e_seq (es ! n) = n"
  unfolding numbered_def by (metis add_0 nth_map nth_upt)

lemma numbered_snoc: "numbered (es @ [e]) \<longleftrightarrow> numbered es \<and> e_seq e = length es"
  by (simp add: numbered_def)

lemma numbered_distinct: "numbered es \<Longrightarrow> distinct es"
  unfolding numbered_def by (metis distinct_map distinct_upt)

lemma numbered_sorted: "numbered es \<Longrightarrow> sorted (map e_seq es) \<and> distinct (map e_seq es)"
  by (simp add: numbered_def)

lemma indexed_lookup: "indexed E es s \<Longrightarrow> n < length es \<Longrightarrow> p = day E (es ! n) \<Longrightarrow>
    map_of (st_index s) n = Some (p, length (in_day E p (take n es)), length (lines E (in_day E p (take n es))))"
  by (simp add: indexed_def)

section \<open>Writing\<close>

definition add_event :: "journal_env \<Rightarrow> event list \<Rightarrow> event \<Rightarrow> nat \<Rightarrow> store \<Rightarrow> store" where
  "add_event E es e since s =
     (let p = day E e; old = in_day E p es
      in (index_event p (length old) (length (lines E old)) e
            (s\<lparr>st_lignes := AList.update p (length old + 1) (st_lignes s)\<rparr>))
           \<lparr>st_next_seq := e_seq e + 1, st_last_hash := hash_or_genesis e,
            st_since_last_seal := since\<rparr>)"

lemma indexed_add_event:
  assumes "indexed E es s" "e_seq e = length es" "e_hash e = Some h"
    and "\<And>k. e_idem e = Some k \<Longrightarrow> map_of (st_idems s) k = None"
  shows "indexed E (es @ [e]) (add_event E es e since s)"
proof -
  note i = assms(1) [unfolded indexed_def]
  have "chain_head (es @ [e]) = hash_or_genesis e"
    by (simp add: chain_head_def hash_or_genesis_def assms(3))
  then show ?thesis
    using i assms(2,4)
    by (auto simp: indexed_def add_event_def index_event_def Let_def nth_append find_pos_snoc
        contains_key_def in_day_eq_Nil split: option.splits)
qed

lemma on_disk_add:
  assumes "on_disk E es disk" "j_to_line E e = Inr t"
  shows "on_disk E (es @ [e]) (AList.update (day E e)
    ((case map_of disk (day E e) of None \<Rightarrow> [] | Some b \<Rightarrow> b) @ t @ [NL]) disk)"
proof -
  have "line E e = t @ [NL]" by (simp add: line_def assms(2))
  moreover have "in_day E (day E e) es = []" if "day E e \<notin> day E ` set es"
    using that by (simp add: in_day_eq_Nil)
  ultimately show ?thesis using assms(1) by (auto simp: on_disk_def)
qed

lemma write_line_rep:
  assumes "rep E es s" "j_to_line E e = Inr t" "e_seq e = length es"
  shows "write_line E e (e_ts e) s =
    ((add_event E es e since s)\<lparr>st_next_seq := st_next_seq s, st_last_hash := st_last_hash s,
       st_since_last_seal := st_since_last_seal s,
       st_disk := AList.update (day E e)
         ((case map_of (st_disk s) (day E e) of None \<Rightarrow> [] | Some b \<Rightarrow> b) @ t @ [NL]) (st_disk s)\<rparr>, Ok ())"
proof -
  let ?p = "day E e" and ?old = "in_day E (day E e) es"
  have bytes: "(case map_of (st_disk s) ?p of None \<Rightarrow> [] | Some b \<Rightarrow> b) = lines E ?old"
    using assms(1) by (auto simp: rep_def on_disk_def)
  have existing: "(case map_of (st_lignes s) ?p of None \<Rightarrow> length (raw_lines (lines E ?old)) | Some n \<Rightarrow> n)
      = length ?old"
    using assms(1) by (auto simp: rep_def indexed_def)
  show ?thesis
    unfolding write_line_def add_event_def Let_def assms(2) day_def [of E e, symmetric] bytes existing
    by (cases s) (simp add: index_event_def cong: option.case_cong if_cong)
qed

lemma indexed_cong:
  assumes "st_index s' = st_index s" "st_lignes s' = st_lignes s" "st_premiers s' = st_premiers s"
    "st_idems s' = st_idems s" "st_next_seq s' = st_next_seq s" "st_last_hash s' = st_last_hash s"
  shows "indexed E es s' \<longleftrightarrow> indexed E es s"
  by (simp add: indexed_def assms)

lemma history_ok_snoc:
  assumes "history_ok E es" "seal (j_enc E) d (length es) (chain_head es) = Ok e"
    and "reads_back E e" "\<And>k. d_idem d = Some k \<Longrightarrow> find_pos (\<lambda>e. e_idem e = Some k) es = None"
  shows "history_ok E (es @ [e])"
proof -
  note h = assms(1) [unfolded history_ok_def] and e = seal_Ok [OF assms(2)]
  have "es = [] \<or> length es = e_seq (last es) + 1"
    using h numbered_nth [of es "length es - 1"] by (cases "es = []") (auto simp: last_conv_nth)
  then have "verify_chain (j_enc E) (es @ [e]) = Ok ()"
    using h assms(2) by (intro seal_extends_chain) auto
  moreover have "k \<notin> set (idem_keys es)" if "e_idem e = Some k" for k
    using assms(4) [of k] that e by (simp add: in_idem_keys)
  ultimately show ?thesis
    using h assms(3) e by (auto simp: history_ok_def numbered_snoc split: option.split)
qed

lemma append_new_rep:
  assumes "rep E es s" "append_new E d s = (s', r)"
    and fresh: "\<And>k. d_idem d = Some k \<Longrightarrow> find_pos (\<lambda>e. e_idem e = Some k) es = None"
  shows "case r of
      Inr e \<Rightarrow> seal (j_enc E) d (length es) (chain_head es) = Ok e \<and> is_ok (j_to_line E e)
        \<and> (reads_back E e \<longrightarrow> rep E (es @ [e]) s') \<and> st_sealer s' = st_sealer s
    | Inl (LEvent err) \<Rightarrow> seal (j_enc E) d (length es) (chain_head es) = Err err \<and> s' = s
    | Inl (LSerialize c) \<Rightarrow> \<exists>e w. seal (j_enc E) d (length es) (chain_head es) = Ok e
        \<and> j_to_line E e = Inl (c, w)
    | _ \<Rightarrow> False"
proof -
  have i: "indexed E es s" and h: "history_ok E es" and d: "on_disk E es (st_disk s)"
    using assms(1) by (simp_all add: rep_def)
  have sq: "st_next_seq s = length es" "st_last_hash s = chain_head es"
    using i by (simp_all add: indexed_def)
  show ?thesis
  proof (cases "seal (j_enc E) d (length es) (chain_head es)")
    case (Inl err)
    then show ?thesis using assms(2) by (auto simp: append_new_def sq)
  next
    case (Inr e)
    note e = seal_Ok [OF Inr]
    show ?thesis
    proof (cases "j_to_line E e")
      case (Inl cw)
      then show ?thesis using assms(2) Inr
        by (cases cw) (auto simp: append_new_def sq write_line_def Let_def)
    next
      case t: (Inr t)
      from verify_hash_Ok [OF e(2)] obtain hh where hh: "e_hash e = Some hh" by blast
      let ?disk = "AList.update (day E e)
        ((case map_of (st_disk s) (day E e) of None \<Rightarrow> [] | Some b \<Rightarrow> b) @ t @ [NL]) (st_disk s)"
      let ?since = "st_since_last_seal s + 1"
      from assms(2) Inr write_line_rep [OF assms(1) t, of ?since] e
      have s': "s' = (add_event E es e ?since s)\<lparr>st_disk := ?disk\<rparr>" and r: "r = Ok e"
        by (auto simp: append_new_def sq add_event_def Let_def)
      have free: "map_of (st_idems s) k = None" if "e_idem e = Some k" for k
      proof -
        from that e(12) have "d_idem d = Some k" by simp
        from fresh [OF this] i show ?thesis by (simp add: indexed_def)
      qed
      have "indexed E (es @ [e]) (add_event E es e ?since s)"
        using i e hh free by (intro indexed_add_event) simp_all
      then have "rep E (es @ [e]) s'" if "reads_back E e"
        using history_ok_snoc [OF h Inr that fresh] on_disk_add [OF d t]
        by (simp add: rep_def s' indexed_def)
      then show ?thesis using Inr t by (simp add: r s' add_event_def index_event_def Let_def)
    qed
  qed
qed

section \<open>Reading\<close>

lemma drop_lines: "drop (length (lines E (in_day E p (take n es)))) (lines E (in_day E p es))
    = lines E (in_day E p (drop n es))"
  by (metis append_eq_conv_conj append_take_drop_id in_day_simps(2) lines_simps(3))

lemma event_at_rep:
  assumes "codec_ok E" "rep E es s" "n < length es"
  shows "event_at E s n = Ok (Some (es ! n))"
proof -
  let ?p = "day E (es ! n)"
  have h: "writable E es" "numbered es" and d: "on_disk E es (st_disk s)" and i: "indexed E es s"
    using assms(2) by (simp_all add: rep_def history_ok_def)
  have bytes: "map_of (st_disk s) ?p = Some (lines E (in_day E ?p es))"
    using d assms(3) by (simp add: on_disk_def)
  have "raw_lines (lines E (in_day E ?p (drop n es))) = map (line E) (in_day E ?p (drop n es))"
    using h(1) by (intro raw_lines_lines [OF assms(1)] writable_in_day) (simp add: writable_def in_set_dropD)
  moreover have "in_day E ?p (drop n es) = es ! n # in_day E ?p (drop (Suc n) es)"
    using assms(3) by (simp add: Cons_nth_drop_Suc [symmetric])
  moreover have "writable E [es ! n]" using h(1) assms(3) by (simp add: writable_def)
  ultimately show ?thesis
    using indexed_lookup [OF i assms(3) refl] bytes from_line_line(1) [OF assms(1)]
      numbered_nth [OF h(2) assms(3)]
    by (simp add: event_at_def drop_lines)
qed

lemma lire_depuis_rep:
  assumes "codec_ok E" "rep E es s" "p \<in> day E ` set es"
  shows "lire_depuis E s p (length (lines E (in_day E p (take n es)))) k = Ok (in_day E p (drop n es))"
proof -
  have "writable E (drop n es)" "map_of (st_disk s) p = Some (lines E (in_day E p es))"
    using assms(2,3) by (auto simp: rep_def history_ok_def on_disk_def writable_def dest: in_set_dropD)
  then show ?thesis
    using assms(1)
    by (simp add: lire_depuis_def drop_lines raw_lines_lines read_lines_lines writable_in_day del: map_map)
qed

lemma day_files_rep:
  assumes "rep E es s"
  shows "day_files s = sorted_list_of_set (day E ` set es)"
proof -
  have d: "distinct_keys (st_disk s)"
    "\<And>p. map_of (st_disk s) p = None \<longleftrightarrow> p \<notin> day E ` set es"
    using assms by (auto simp: rep_def on_disk_def)
  have keys: "fst ` set (st_disk s) = day E ` set es"
    using d(2) by (auto simp: map_of_eq_None_iff)
  then have "filter has_jsonl_extension (map fst (st_disk s)) = map fst (st_disk s)"
    by (auto simp: filter_id_conv day_file)
  moreover have "sort (map fst (st_disk s)) = sorted_list_of_set (set (map fst (st_disk s)))"
    using d(1) by (simp only: sorted_list_of_set_sort_remdups distinct_keys_def distinct_remdups_id)
  ultimately show ?thesis using keys by (simp add: day_files_def)
qed

lemma read_files_rep:
  assumes "codec_ok E" "rep E es s" "set ps \<subseteq> day E ` set es"
  shows "read_files E s ps = Ok (concat (map (\<lambda>p. in_day E p es) ps))"
  using assms(3)
proof (induction ps)
  case (Cons p ps)
  then show ?case using lire_depuis_rep [OF assms(1,2), of p 0 0] by simp
qed simp

lemma read_all_rep:
  assumes "codec_ok E" "rep E es s"
  shows "read_all E s = Ok es"
proof -
  have n: "numbered es" using assms(2) by (simp add: rep_def history_ok_def)
  have "read_files E s (day_files s) = Ok (by_day E es)"
    using read_files_rep [OF assms, of "day_files s"] by (simp add: day_files_rep [OF assms(2)] by_day_def)
  moreover have "sort_key e_seq (by_day E es) = es"
    using numbered_sorted [OF n] numbered_distinct [OF n]
    by (intro sort_key_determined distinct_by_day set_by_day) auto
  ultimately show ?thesis by (simp add: read_all_def)
qed

text \<open>Reading from a number: the index says where each file starts to matter.\<close>

definition entry :: "journal_env \<Rightarrow> event list \<Rightarrow> nat \<Rightarrow> string \<times> nat \<times> nat" where
  "entry E es n = (let p = day E (es ! n); old = in_day E p (take n es)
     in (p, length old, length (lines E old)))"

lemma index_from_rep:
  assumes "indexed E es s"
  shows "index_from s depuis = map (\<lambda>n. (n, entry E es n)) [depuis..<length es]"
proof (rule sorted_keys_unique)
  let ?l = "filter (\<lambda>(seq, _). depuis \<le> seq) (st_index s)"
  have d: "distinct_keys (st_index s)" using assms by (simp add: indexed_def)
  then show *: "distinct_keys (index_from s depuis)"
    by (simp add: index_from_def distinct_keys_def distinct_map inj_on_filter_key_eq inj_on_def
        image_iff)
  show "sorted (map fst (index_from s depuis))" by (simp add: index_from_def)
  show "sorted (map fst (map (\<lambda>n. (n, entry E es n)) [depuis..<length es]))"
    "distinct_keys (map (\<lambda>n. (n, entry E es n)) [depuis..<length es])"
    by (simp_all add: distinct_keys_def comp_def)
  show "map_of (index_from s depuis) = map_of (map (\<lambda>n. (n, entry E es n)) [depuis..<length es])"
  proof
    fix n
    have "map_of (index_from s depuis) n = Some v \<longleftrightarrow> depuis \<le> n \<and> map_of (st_index s) n = Some v" for v
      using map_of_in_set [OF *, of n v] map_of_in_set [OF d, of n v] by (auto simp: index_from_def)
    moreover have "map_of (map (\<lambda>n. (n, entry E es n)) [depuis..<length es]) n
        = (if depuis \<le> n \<and> n < length es then Some (entry E es n) else None)"
      by (auto simp: map_of_map_restrict restrict_map_def)
    moreover have "map_of (st_index s) n = (if n < length es then Some (entry E es n) else None)"
      using assms by (simp add: indexed_def entry_def Let_def)
    ultimately show "map_of (index_from s depuis) n
        = map_of (map (\<lambda>n. (n, entry E es n)) [depuis..<length es]) n"
      by (metis not_None_eq)
  qed
qed

text \<open>The first number, from \<open>depuis\<close> on and before \<open>n\<close>, written in file \<open>p\<close>.\<close>

definition first_in :: "journal_env \<Rightarrow> event list \<Rightarrow> nat \<Rightarrow> nat \<Rightarrow> string \<Rightarrow> nat option" where
  "first_in E es depuis n p = List.find (\<lambda>i. day E (es ! i) = p) [depuis..<n]"

lemma find_snoc: "List.find P (xs @ [x]) =
    (case List.find P xs of Some y \<Rightarrow> Some y | None \<Rightarrow> if P x then Some x else None)"
  by (induction xs) auto

lemma entry_grows:
  assumes "i < n" "n < length es" "day E (es ! i) = day E (es ! n)"
  shows "fst (snd (entry E es i)) < fst (snd (entry E es n))"
proof -
  have "take n es = take i es @ take (n - i) (drop i es)"
    using assms(1) by (simp add: take_add [symmetric])
  moreover have "es ! i \<in> set (take (n - i) (drop i es))"
    using assms(1,2) by (auto simp: Cons_nth_drop_Suc [symmetric] take_Cons' )
  then have "in_day E (day E (es ! n)) (take (n - i) (drop i es)) \<noteq> []"
    using assms(3) by (metis in_day_eq_Nil image_eqI)
  ultimately show ?thesis using assms(3) by (simp add: entry_def Let_def)
qed

lemma starts_upto:
  assumes "n \<le> length es"
  shows "distinct_keys (foldl note_start [] (map (\<lambda>n. (n, entry E es n)) [depuis..<n]))
    \<and> (\<forall>p. map_of (foldl note_start [] (map (\<lambda>n. (n, entry E es n)) [depuis..<n])) p
        = map_option (\<lambda>i. (fst (snd (entry E es i)), snd (snd (entry E es i)), i)) (first_in E es depuis n p))"
  using assms
proof (induction n)
  case 0
  show ?case by (simp add: first_in_def)
next
  case (Suc n)
  show ?case
  proof (cases "depuis \<le> n")
    case False
    then show ?thesis by (simp add: first_in_def)
  next
    case True
    let ?m = "foldl note_start [] (map (\<lambda>n. (n, entry E es n)) [depuis..<n])"
    let ?q = "day E (es ! n)"
    obtain l o' where en: "entry E es n = (?q, l, o')" by (simp add: entry_def Let_def)
    have IH: "distinct_keys ?m" "\<And>p. map_of ?m p
        = map_option (\<lambda>i. (fst (snd (entry E es i)), snd (snd (entry E es i)), i)) (first_in E es depuis n p)"
      using Suc by auto
    have later: "fst (snd (entry E es i)) < l" if "first_in E es depuis n ?q = Some i" for i
    proof -
      from that have "i < n" "day E (es ! i) = ?q"
        by (auto simp: first_in_def find_Some_iff)
      then show ?thesis using entry_grows [of i n es E] Suc.prems en by simp
    qed
    have snoc: "first_in E es depuis (Suc n) p = (case first_in E es depuis n p of
        Some i \<Rightarrow> Some i | None \<Rightarrow> if ?q = p then Some n else None)" for p
      using True by (simp add: first_in_def find_snoc)
    show ?thesis
      using IH later True en by (auto simp: snoc split: option.splits)
  qed
qed

lemma read_start_rep:
  assumes "codec_ok E" "rep E es s" "first_in E es depuis (length es) p = Some i"
  shows "read_start E s p (fst (snd (entry E es i)), snd (snd (entry E es i)), i)
    = Ok (in_day E p (drop depuis es))"
proof -
  from assms(3) obtain k where k: "k < length es - depuis" "i = depuis + k" "day E (es ! i) = p"
    "\<forall>j < k. day E (es ! (depuis + j)) \<noteq> p"
    by (auto simp: first_in_def find_Some_iff)
  have "in_day E p (take k (drop depuis es)) = []"
    using k(1,4) by (auto simp: in_day_eq_Nil in_set_conv_nth) metis
  then have suffix: "in_day E p (drop depuis es) = in_day E p (drop i es)"
    unfolding k(2) by (metis append_Nil append_take_drop_id drop_drop in_day_simps(2) add.commute)
  have i: "i < length es" using k(1,2) by simp
  have n: "numbered es" using assms(2) by (simp add: rep_def history_ok_def)
  have "in_day E p (drop i es) = es ! i # in_day E p (drop (Suc i) es)"
    using i k(3) by (simp add: Cons_nth_drop_Suc [symmetric])
  moreover have "p \<in> day E ` set es" using i k(3) by auto
  ultimately show ?thesis
    using lire_depuis_rep [OF assms(1,2)] k(3) numbered_nth [OF n i]
    by (simp add: read_start_def entry_def Let_def suffix)
qed

lemma read_starts_rep:
  assumes "codec_ok E" "rep E es s"
    and "\<And>p v. (p, v) \<in> set ds \<Longrightarrow> \<exists>i. first_in E es depuis (length es) p = Some i
      \<and> v = (fst (snd (entry E es i)), snd (snd (entry E es i)), i)"
  shows "read_starts E s depuis ds = Ok (concat (map (\<lambda>p. in_day E p (drop depuis es)) (map fst ds)))"
  using assms(3)
proof (induction ds)
  case (Cons d ds)
  obtain p v where d: "d = (p, v)" by (cases d)
  with Cons.prems [of p v] obtain i where i: "first_in E es depuis (length es) p = Some i"
    "v = (fst (snd (entry E es i)), snd (snd (entry E es i)), i)" by auto
  have "numbered es" using assms(2) by (simp add: rep_def history_ok_def)
  then have "depuis \<le> e_seq e" if "e \<in> set (drop depuis es)" for e
    using that numbered_nth [of es] by (auto simp: in_set_conv_nth)
  then have "\<forall>e \<in> set (in_day E p (drop depuis es)). depuis \<le> e_seq e"
    by (auto simp: in_day_def)
  then have "filter (\<lambda>e. depuis \<le> e_seq e) (in_day E p (drop depuis es)) = in_day E p (drop depuis es)"
    by (simp only: filter_True)
  then show ?case
    using Cons read_start_rep [OF assms(1,2) i(1)] by (simp add: d i(2))
qed simp

lemma starts_rep:
  assumes "rep E es s"
  shows "distinct_keys (starts s depuis)"
    and "map_of (starts s depuis) p
      = map_option (\<lambda>i. (fst (snd (entry E es i)), snd (snd (entry E es i)), i))
          (first_in E es depuis (length es) p)"
proof -
  have "index_from s depuis = map (\<lambda>n. (n, entry E es n)) [depuis..<length es]"
    using assms by (intro index_from_rep) (simp add: rep_def)
  then show "distinct_keys (starts s depuis)" "map_of (starts s depuis) p
      = map_option (\<lambda>i. (fst (snd (entry E es i)), snd (snd (entry E es i)), i))
          (first_in E es depuis (length es) p)"
    using starts_upto [of "length es" es E depuis] by (simp_all add: starts_def)
qed

lemma in_set_drop: "x \<in> set (drop d xs) \<longleftrightarrow> (\<exists>i. d \<le> i \<and> i < length xs \<and> xs ! i = x)"
proof
  assume "x \<in> set (drop d xs)"
  then obtain j where "j < length xs - d" "xs ! (d + j) = x" by (auto simp: in_set_conv_nth)
  then show "\<exists>i. d \<le> i \<and> i < length xs \<and> xs ! i = x" by (intro exI [of _ "d + j"]) simp
next
  assume "\<exists>i. d \<le> i \<and> i < length xs \<and> xs ! i = x"
  then obtain i where "d \<le> i" "i < length xs" "xs ! i = x" by blast
  then have "i - d < length (drop d xs)" "drop d xs ! (i - d) = x" by simp_all
  then show "x \<in> set (drop d xs)" by (metis nth_mem)
qed

lemma first_in_all: "first_in E es depuis (length es) p \<noteq> None \<longleftrightarrow> p \<in> day E ` set (drop depuis es)"
  unfolding image_iff Bex_def in_set_drop by (auto simp: first_in_def find_None_iff)

lemma read_since_rep:
  assumes "codec_ok E" "rep E es s"
  shows "read_since E s depuis = Ok (drop depuis es)"
proof -
  note d = starts_rep [OF assms(2), of depuis]
  let ?ds = "sort_key fst (starts s depuis)" and ?es = "drop depuis es"
  have n: "numbered es" using assms(2) by (simp add: rep_def history_ok_def)
  have "read_starts E s depuis ?ds = Ok (concat (map (\<lambda>p. in_day E p ?es) (map fst ?ds)))"
    using d by (intro read_starts_rep [OF assms]) (auto simp flip: map_of_in_set)
  moreover have "sort_key e_seq (concat (map (\<lambda>p. in_day E p ?es) (map fst ?ds))) = ?es"
  proof (rule sort_key_determined)
    have "distinct (map fst ?ds)" "distinct ?es"
      using d(1) numbered_distinct [OF n] by (simp_all add: distinct_keys_def distinct_map)
    then show "distinct (concat (map (\<lambda>p. in_day E p ?es) (map fst ?ds)))"
      unfolding in_day_def by (rule distinct_concat_filter)
    have "p \<in> fst ` set ?ds \<longleftrightarrow> map_of (starts s depuis) p \<noteq> None" for p
      by (simp add: map_of_eq_None_iff)
    then have "p \<in> fst ` set ?ds \<longleftrightarrow> p \<in> day E ` set ?es" for p
      using first_in_all [of E es depuis p] by (simp add: d(2))
    then show "set (concat (map (\<lambda>p. in_day E p ?es) (map fst ?ds))) = set ?es"
      by (auto simp: in_day_def)
    show "sorted (map e_seq ?es)" "distinct (map e_seq ?es)"
      using numbered_sorted [OF n] by (simp_all add: drop_map [symmetric] sorted_wrt_drop)
  qed
  ultimately show ?thesis by (simp add: read_since_def)
qed

lemma filter_drop:
  assumes "\<And>x. x \<in> set (take n xs) \<Longrightarrow> \<not> P x"
  shows "filter P (drop n xs) = filter P xs"
  by (metis append_Nil append_take_drop_id assms filter_append filter_empty_conv)

lemma query_rep:
  assumes "codec_ok E" "rep E es s"
  shows "query E s f = Ok (query_result f es)"
proof -
  have n: "numbered es"
    and prem: "\<And>t. map_of (st_premiers s) t = find_pos (\<lambda>e. e_task e = Some t) es"
    using assms(2) by (simp_all add: rep_def history_ok_def indexed_def)
  have since: "\<not> filter_accepts f e" if "e \<in> set (take k es)" "f_since_seq f = Some k" for e k
    using that numbered_nth [OF n] by (auto simp: in_set_conv_nth filter_accepts_def)
  have result: "query_result f (drop k es) = query_result f es"
    if "\<And>e. e \<in> set (take k es) \<Longrightarrow> \<not> filter_accepts f e" for k
    using filter_drop [of k es "filter_accepts f"] that by (auto simp: query_result_def split: option.splits)
  show ?thesis
  proof (cases "f_task f")
    case None
    then show ?thesis
      using since by (auto simp: query_def read_all_rep [OF assms] read_since_rep [OF assms] result
          split: option.splits)
  next
    case (Some t)
    show ?thesis
    proof (cases "find_pos (\<lambda>e. e_task e = Some t) es")
      case None
      then have "filter (filter_accepts f) es = []"
        by (auto simp: find_pos_None filter_empty_conv filter_accepts_def Some)
      then show ?thesis using Some None by (simp add: query_def prem query_result_def split: option.splits)
    next
      case first: (Some k)
      have k: "\<not> filter_accepts f e" if "e \<in> set (take k es)" for e
        using find_pos_Some [OF first] that by (auto simp: filter_accepts_def Some)
      show ?thesis
        using Some first k since
        by (auto simp: query_def prem read_since_rep [OF assms] max_def result split: option.splits)
    qed
  qed
qed

section \<open>Reopening\<close>

lemma sorted_list_of_set_image_Cons:
  assumes "sorted (map f (x # xs))"
  shows "sorted_list_of_set (f ` set (x # xs)) = f x # sorted_list_of_set (f ` set xs - {f x})"
proof -
  have "Min (f ` set (x # xs)) = f x" using assms by (intro Min_eqI) auto
  moreover have "f ` set (x # xs) - {f x} = f ` set xs - {f x}" by auto
  ultimately show ?thesis by (simp add: sorted_list_of_set_nonempty)
qed

lemma concat_filter_sorted:
  "sorted (map f xs) \<Longrightarrow>
     concat (map (\<lambda>p. filter (\<lambda>x. f x = p) xs) (sorted_list_of_set (f ` set xs))) = xs"
proof (induction xs)
  case (Cons x xs)
  let ?L = "sorted_list_of_set (f ` set xs - {f x})"
  have skip: "concat (map (\<lambda>p. filter (\<lambda>y. f y = p) (x # xs)) ?L)
      = concat (map (\<lambda>p. filter (\<lambda>y. f y = p) xs) ?L)"
    by (intro arg_cong [where f = concat] map_cong refl) auto
  have rest: "filter (\<lambda>y. f y = f x) xs @ concat (map (\<lambda>p. filter (\<lambda>y. f y = p) xs) ?L) = xs"
  proof (cases "f x \<in> f ` set xs")
    case True
    then obtain y ys where xs: "xs = y # ys" by (cases xs) auto
    from True Cons.prems have "f x = f y" by (auto simp: xs)
    with Cons.prems Cons.IH sorted_list_of_set_image_Cons [of f y ys] show ?thesis by (simp add: xs)
  next
    case False
    then have "filter (\<lambda>y. f y = f x) xs = []" by (auto simp: filter_empty_conv image_iff)
    with False Cons show ?thesis by simp
  qed
  show ?case
    unfolding sorted_list_of_set_image_Cons [OF Cons.prems] using skip rest by simp
qed simp

lemma by_day_sorted: "sorted (map (day E) es) \<Longrightarrow> by_day E es = es"
  unfolding by_day_def in_day_def by (rule concat_filter_sorted)

text \<open>The head of the chain after the lines of one file, whatever their order.\<close>

definition next_of :: "event list \<Rightarrow> store \<Rightarrow> nat \<times> string" where
  "next_of es s = (if es = [] then (st_next_seq s, st_last_hash s)
     else (e_seq (last es) + 1, hash_or_genesis (last es)))"

lemma index_lines_next:
  assumes "codec_ok E" "writable E es"
  shows "\<exists>s'. index_lines E p n k (map (line E) es) s = Ok s' \<and> st_disk s' = st_disk s
    \<and> (st_next_seq s', st_last_hash s') = next_of es s"
  using assms(2)
proof (induction es arbitrary: n k s)
  case (Cons e es)
  note l = from_line_line [OF assms(1), of e]
  show ?case
    using Cons.prems Cons.IH [of "n + 1" "k + length (line E e)"] l
    by (force simp: Let_def next_of_def index_event_def)
qed (simp add: next_of_def)

lemma index_files_next:
  assumes "codec_ok E" "writable E es"
    and "\<And>p. p \<in> set ps \<Longrightarrow> map_of (st_disk s) p = Some (lines E (in_day E p es))"
  shows "\<exists>s'. index_files E ps s = Ok s'
    \<and> (st_next_seq s', st_last_hash s') = next_of (concat (map (\<lambda>p. in_day E p es) ps)) s"
  using assms(3)
proof (induction ps arbitrary: s)
  case (Cons p ps)
  obtain s1 where s1: "index_lines E p 0 0 (map (line E) (in_day E p es)) s = Ok s1"
    "st_disk s1 = st_disk s" "(st_next_seq s1, st_last_hash s1) = next_of (in_day E p es) s"
    using index_lines_next [OF assms(1) writable_in_day [OF assms(2)]] by blast
  from Cons.IH [of s1] Cons.prems s1(2) obtain s' where s': "index_files E ps s1 = Ok s'"
    "(st_next_seq s', st_last_hash s') = next_of (concat (map (\<lambda>p. in_day E p es) ps)) s1" by auto
  have "raw_lines (lines E (in_day E p es)) = map (line E) (in_day E p es)"
    by (rule raw_lines_lines [OF assms(1) writable_in_day [OF assms(2)]])
  with s1 s' Cons.prems [of p] show ?case by (auto simp: next_of_def)
qed (simp add: next_of_def)

lemma day_files_empty_store:
  "rep E es s \<Longrightarrow> day_files (empty_store (st_disk s)) = sorted_list_of_set (day E ` set es)"
  using day_files_rep [of E es s] by (simp add: day_files_def empty_store_def)

lemma open_next:
  assumes "codec_ok E" "rep E es s"
  shows "\<exists>s'. store_open E (st_disk s) = Ok s'
    \<and> (st_next_seq s', st_last_hash s') = next_of (by_day E es) (empty_store (st_disk s))"
proof -
  have w: "writable E es" and d: "on_disk E es (st_disk s)"
    using assms(2) by (simp_all add: rep_def history_ok_def)
  show ?thesis
    unfolding store_open_def rebuild_index_def day_files_empty_store [OF assms(2)] by_day_def
    using d by (intro index_files_next [OF assms(1) w]) (simp add: on_disk_def empty_store_def)
qed

text \<open>When the days follow the numbers, everything is restored.\<close>

lemma history_ok_butlast: "history_ok E (es @ [e]) \<Longrightarrow> history_ok E es"
  by (simp add: history_ok_def numbered_snoc verify_chain_snoc)

lemma history_ok_prefix: "history_ok E (es @ fs) \<Longrightarrow> history_ok E es"
proof (induction fs rule: rev_induct)
  case (snoc f fs)
  then show ?case using history_ok_butlast [of E "es @ fs" f] by simp
qed simp

lemma index_lines_rep:
  assumes "codec_ok E" "history_ok E (pre @ es)" "\<forall>e \<in> set es. day E e = p" "indexed E pre s"
  shows "\<exists>s'. index_lines E p (length (in_day E p pre)) (length (lines E (in_day E p pre)))
      (map (line E) es) s = Ok s' \<and> indexed E (pre @ es) s' \<and> st_disk s' = st_disk s"
  using assms(2-)
proof (induction es arbitrary: pre s)
  case (Cons e es)
  let ?since = "if e_kind e = LedgerSeal then 0 else st_since_last_seal s + 1"
  have pre: "verify_chain (j_enc E) (pre @ [e]) = Ok ()" "e_seq e = length pre"
    "\<And>k. e_idem e = Some k \<Longrightarrow> find_pos (\<lambda>e. e_idem e = Some k) pre = None" "writable E [e]"
    using history_ok_prefix [of E "pre @ [e]" es] Cons.prems(1)
    by (auto simp: history_ok_def numbered_snoc in_idem_keys)
  from pre(1) obtain h where "e_hash e = Some h"
    by (auto simp: verify_chain_snoc dest: verify_hash_Ok)
  with pre(2,3) Cons.prems(3) have i: "indexed E (pre @ [e]) (add_event E pre e ?since s)"
    by (intro indexed_add_event) (simp_all add: indexed_def)
  have "st_disk (add_event E pre e ?since s) = st_disk s"
    by (simp add: add_event_def index_event_def Let_def)
  with Cons.IH [of "pre @ [e]", OF _ _ i] Cons.prems show ?case
    using from_line_line [OF assms(1) pre(4)]
    by (auto simp: add_event_def Let_def)
qed simp

lemma index_files_rep:
  assumes "codec_ok E" "history_ok E (pre @ concat (map (\<lambda>p. in_day E p es) ps))" "distinct ps"
    and "\<forall>p \<in> set ps. p \<notin> day E ` set pre \<and> map_of (st_disk s) p = Some (lines E (in_day E p es))"
    and "indexed E pre s"
  shows "\<exists>s'. index_files E ps s = Ok s' \<and> st_disk s' = st_disk s
    \<and> indexed E (pre @ concat (map (\<lambda>p. in_day E p es) ps)) s'"
  using assms(2-)
proof (induction ps arbitrary: pre s)
  case (Cons p ps)
  let ?xs = "in_day E p es"
  have h: "history_ok E (pre @ ?xs)"
    using Cons.prems(1) history_ok_prefix [of E "pre @ ?xs"] by simp
  have w: "writable E ?xs" using h by (simp add: history_ok_def)
  have xs: "in_day E p pre = []" "\<forall>e \<in> set ?xs. day E e = p"
    using Cons.prems(3) by (simp, simp add: in_day_def)
  from index_lines_rep [OF assms(1) h xs(2) Cons.prems(4)] obtain s1 where
    s1: "index_lines E p 0 0 (map (line E) ?xs) s = Ok s1" "indexed E (pre @ ?xs) s1"
      "st_disk s1 = st_disk s"
    unfolding xs(1) list.size(3) lines_simps(1) by blast
  have "p' \<notin> day E ` set (pre @ ?xs)" if "p' \<in> set ps" for p'
    using that Cons.prems(2,3) by (auto simp: in_day_def)
  then have "\<exists>s'. index_files E ps s1 = Ok s' \<and> st_disk s' = st_disk s1
      \<and> indexed E ((pre @ ?xs) @ concat (map (\<lambda>p. in_day E p es) ps)) s'"
    using Cons.prems(1-3) s1(2,3) by (intro Cons.IH) simp_all
  with s1 Cons.prems(3) raw_lines_lines [OF assms(1) w] show ?case by auto
qed simp

lemma indexed_empty [simp]: "indexed E [] (empty_store disk)"
  by (simp add: indexed_def empty_store_def chain_head_def)

lemma rep_empty [simp]: "rep E [] (empty_store [])"
  by (simp add: rep_def history_ok_def numbered_def verify_chain_def on_disk_def empty_store_def
      ) (simp add: indexed_def chain_head_def)

lemma open_rep:
  assumes "codec_ok E" "rep E es s" "sorted (map (day E) es)"
  shows "\<exists>s'. store_open E (st_disk s) = Ok s' \<and> rep E es s'"
proof -
  let ?ps = "sorted_list_of_set (day E ` set es)"
  have h: "history_ok E es" and d: "on_disk E es (st_disk s)"
    using assms(2) by (simp_all add: rep_def)
  have es: "concat (map (\<lambda>p. in_day E p es) ?ps) = es"
    using by_day_sorted [OF assms(3)] by (simp add: by_day_def)
  have "\<exists>s'. index_files E ?ps (empty_store (st_disk s)) = Ok s'
      \<and> st_disk s' = st_disk (empty_store (st_disk s))
      \<and> indexed E ([] @ concat (map (\<lambda>p. in_day E p es) ?ps)) s'"
    using h d by (intro index_files_rep [OF assms(1)]) (auto simp: es on_disk_def empty_store_def indexed_def chain_head_def)
  with h d show ?thesis
    unfolding store_open_def rebuild_index_def day_files_empty_store [OF assms(2)]
    by (auto simp: rep_def es empty_store_def)
qed

lemma last_by_day:
  assumes "es \<noteq> []"
  shows "last (by_day E es) = last (in_day E (Max (day E ` set es)) es)" "by_day E es \<noteq> []"
proof -
  let ?ps = "sorted_list_of_set (day E ` set es)"
  have ps: "set ?ps = day E ` set es" "sorted ?ps" "?ps \<noteq> []" using assms by simp_all
  then obtain qs q where q: "?ps = qs @ [q]" by (cases ?ps rule: rev_cases) auto
  have "Max (day E ` set es) = q"
    using ps(1,2) unfolding q by (intro Max_eqI) (auto simp: sorted_append)
  moreover have "in_day E q es \<noteq> []" using ps(1) by (auto simp: q in_day_eq_Nil)
  ultimately show "last (by_day E es) = last (in_day E (Max (day E ` set es)) es)" "by_day E es \<noteq> []"
    by (simp_all add: by_day_def q)
qed

lemma last_in_day:
  assumes "numbered es" "es \<noteq> []" "p \<in> day E ` set es"
  shows "Suc (e_seq (last (in_day E p es))) = length es \<longleftrightarrow> day E (last es) = p"
proof -
  obtain fs f where es: "es = fs @ [f]" using assms(2) by (cases es rule: rev_cases) auto
  have f: "e_seq f = length fs" "numbered fs" using assms(1) by (simp_all add: es numbered_snoc)
  have "e_seq (last (in_day E p fs)) < length fs" if "day E f \<noteq> p"
  proof -
    have "in_day E p fs \<noteq> []" using assms(3) that by (auto simp: es in_day_eq_Nil)
    then have "last (in_day E p fs) \<in> set fs"
      using last_in_set [of "in_day E p fs"] by (auto simp: in_day_def)
    then show ?thesis using numbered_nth [OF f(2)] by (metis in_set_conv_nth)
  qed
  then show ?thesis using f by (auto simp: es)
qed

section \<open>The journal as a machine\<close>

datatype journal_op = Append draft | SealNow instant nat bool

text \<open>Appending drafts with a plain payload. \<open>None\<close> where a sealed event cannot be written as a line: a
  partial line stays in the file.\<close>

fun plain_op :: "journal_op \<Rightarrow> bool" where
  "plain_op (Append d) = plain_payload (d_payload d)"
| "plain_op (SealNow now threshold force) = True"

definition journal_step :: "journal_env \<times> store \<Rightarrow> journal_op
    \<Rightarrow> ((journal_env \<times> store) \<times> (ledger_error + event option)) option" where
  "journal_step Es op = (case Es of (E, s) \<Rightarrow>
     (let (s', r) = (case op of
            Append d \<Rightarrow> (case store_append E d s of
              (s', Inl err) \<Rightarrow> (s', Err err) | (s', Inr e) \<Rightarrow> (s', Ok (Some e)))
          | SealNow now threshold force \<Rightarrow> maybe_seal E now threshold force s)
      in case r of Inl (LSerialize _) \<Rightarrow> None | _ \<Rightarrow> if plain_op op then Some ((E, s'), r) else None))"

text \<open>What an append does, over the history.\<close>

lemma store_append_cases:
  assumes "codec_ok E" "rep E es s" "store_append E d s = (s', r)"
  obtains
    (replayed) k n where "d_idem d = Some k" "find_pos (\<lambda>e. e_idem e = Some k) es = Some n"
      "s' = s" "r = Ok (es ! n)"
  | (written) e where "r = Ok e" "seal (j_enc E) d (length es) (chain_head es) = Ok e"
      "plain_payload (d_payload d) \<or> reads_back E e \<Longrightarrow> rep E (es @ [e]) s'" "st_sealer s' = st_sealer s"
      "\<And>k. d_idem d = Some k \<Longrightarrow> find_pos (\<lambda>e. e_idem e = Some k) es = None"
  | (refused) err where "r = Err (LEvent err)" "s' = s"
      "seal (j_enc E) d (length es) (chain_head es) = Err err"
      "\<And>k. d_idem d = Some k \<Longrightarrow> find_pos (\<lambda>e. e_idem e = Some k) es = None"
  | (unwritable) c e w where "r = Err (LSerialize c)"
      "seal (j_enc E) d (length es) (chain_head es) = Ok e" "j_to_line E e = Inl (c, w)"
      "\<And>k. d_idem d = Some k \<Longrightarrow> find_pos (\<lambda>e. e_idem e = Some k) es = None"
proof -
  have idems: "\<And>k. map_of (st_idems s) k = find_pos (\<lambda>e. e_idem e = Some k) es"
    using assms(2) by (simp add: rep_def indexed_def)
  show thesis
  proof (cases "Option.bind (d_idem d) (map_of (st_idems s))")
    case None
    then have fresh: "\<And>k. d_idem d = Some k \<Longrightarrow> find_pos (\<lambda>e. e_idem e = Some k) es = None"
      by (simp add: idems)
    from None assms(3) have "append_new E d s = (s', r)" by (simp add: store_append_def)
    from append_new_rep [OF assms(2) this fresh] show thesis
    proof (cases r)
      case (Inr e)
      with append_new_rep [OF assms(2) \<open>append_new E d s = (s', r)\<close> fresh]
      have e: "seal (j_enc E) d (length es) (chain_head es) = Ok e" "is_ok (j_to_line E e)"
        "reads_back E e \<longrightarrow> rep E (es @ [e]) s'" "st_sealer s' = st_sealer s"
        by simp_all
      have "reads_back E e" if "plain_payload (d_payload d)"
        using e(2) that assms(1) seal_Ok(11) [OF e(1)] by (auto simp: codec_ok_def)
      with e Inr fresh show thesis by (intro written) auto
    qed (use fresh in \<open>auto split: ledger_error.splits elim: refused unwritable\<close>)
  next
    case (Some n)
    then obtain k where k: "d_idem d = Some k" "find_pos (\<lambda>e. e_idem e = Some k) es = Some n"
      by (auto simp: idems Option.bind_eq_Some_conv)
    with find_pos_Some [OF k(2)] event_at_rep [OF assms(1,2)] Some assms(3)
    show thesis by (intro replayed [OF k]) (auto simp: store_append_def)
  qed
qed

lemma rep_since: "rep E es (s\<lparr>st_since_last_seal := n\<rparr>) \<longleftrightarrow> rep E es s"
  by (simp add: rep_def indexed_cong [of "s\<lparr>st_since_last_seal := n\<rparr>" s])

definition journal_inv :: "journal_env \<times> store \<Rightarrow> bool" where
  "journal_inv Es \<longleftrightarrow> (case Es of (E, s) \<Rightarrow> codec_ok E \<and> (\<exists>es. rep E es s))"

definition journal_le :: "journal_env \<times> store \<Rightarrow> journal_env \<times> store \<Rightarrow> bool" where
  "journal_le Es Es' \<longleftrightarrow> fst Es = fst Es' \<and>
     (case read_all (fst Es) (snd Es) of
        Inl _ \<Rightarrow> True
      | Inr es \<Rightarrow> (case read_all (fst Es') (snd Es') of Inl _ \<Rightarrow> False | Inr es' \<Rightarrow> take (length es) es' = es))"

lemma append_grows:
  assumes "codec_ok E" "rep E es s" "store_append E d s = (s', r)" "\<And>c. r \<noteq> Err (LSerialize c)"
    and "plain_payload (d_payload d)"
  shows "\<exists>fs. rep E (es @ fs) s' \<and> st_sealer s' = st_sealer s"
  using assms(2,4,5) by (cases rule: store_append_cases [OF assms(1-3)]) (auto intro: exI [of _ "[]"])

lemma journal_step_grows:
  assumes "codec_ok E" "rep E es s" "journal_step (E, s) op = Some ((E', s'), out)"
  shows "E' = E \<and> (\<exists>fs. rep E (es @ fs) s')"
proof (cases op)
  case (Append d)
  obtain t r where t: "store_append E d s = (t, r)" by (cases "store_append E d s")
  with append_grows [OF assms(1,2) t] assms(3) Append show ?thesis
    by (cases r) (auto simp: journal_step_def split: ledger_error.splits if_splits)
next
  case (SealNow now threshold force)
  show ?thesis
  proof (cases "st_sealer s = None \<or> (\<not> force \<and> st_since_last_seal s < threshold)")
    case True
    with assms(2,3) SealNow show ?thesis
      by (auto simp: journal_step_def maybe_seal_def split: option.splits if_splits intro: exI [of _ "[]"])
  next
    case False
    then obtain k where k: "st_sealer s = Some k" by auto
    let ?d = "draft_new now ''ledger'' LedgerSeal
      (seal_json (sealer_seal E k (st_next_seq s - 1) (st_last_hash s)))"
    obtain t r where t: "store_append E ?d s = (t, r)" by (cases "store_append E ?d s")
    have "plain_payload (d_payload ?d)"
      by (simp add: draft_new_def seal_json_def plain_payload_def eval_nat_numeral)
    from append_grows [OF assms(1,2) t _ this] t assms(3) SealNow k False show ?thesis
      by (cases r) (auto simp: journal_step_def maybe_seal_def rep_since split: ledger_error.splits if_splits)
  qed
qed

interpretation journal: growing_machine journal_step journal_inv journal_le
proof
  fix Es op Es' out
  assume inv: "journal_inv Es" and step: "journal_step Es op = Some (Es', out)"
  from inv obtain E s es where *: "Es = (E, s)" "codec_ok E" "rep E es s"
    by (auto simp: journal_inv_def split: prod.splits)
  obtain E' s' where Es': "Es' = (E', s')" by (cases Es')
  from journal_step_grows [OF *(2,3)] step * Es' obtain fs where fs: "E' = E" "rep E (es @ fs) s'"
    by blast
  with * Es' show "journal_inv Es'" by (auto simp: journal_inv_def)
  from fs * Es' show "journal_le Es Es'" by (simp add: journal_le_def read_all_rep)
next
  fix s t u
  show "journal_le s s" by (auto simp: journal_le_def split: sum.splits)
  assume "journal_le s t" "journal_le t u"
  then show "journal_le s u"
    by (auto simp: journal_le_def split: sum.splits) (metis min.absorb1 take_take length_take nat_le_linear take_all_iff min.cobounded1)
qed

section \<open>Properties\<close>

text \<open>
  C22. Appending refines the list of events: for a store that holds the history \<open>es\<close>, whose events read
  back from their lines, a draft whose key is already written gives back the first event with that key
  and changes nothing; any other draft is sealed after the last event and added at the end of the
  history, or refused with nothing changed. The store holds the longer history if the payload of the
  draft is plain, without floating-point number, or the new event reads back all the same. (The
  remaining outcome is a sealed event that cannot be written as a line.)
\<close>
theorem append_refines:
  assumes "codec_ok E" "rep E es s"
  shows "case store_append E d s of (s', r) \<Rightarrow>
     (case Option.bind (d_idem d) (\<lambda>k. find_pos (\<lambda>e. e_idem e = Some k) es) of
        Some n \<Rightarrow> s' = s \<and> r = Ok (es ! n)
      | None \<Rightarrow>
          (case seal (j_enc E) d (length es) (chain_head es) of
             Inl err \<Rightarrow> s' = s \<and> r = Err (LEvent err)
           | Inr e \<Rightarrow> (r = Ok e \<and> (plain_payload (d_payload d) \<or> reads_back E e \<longrightarrow> rep E (es @ [e]) s'))
               \<or> (\<exists>c w. j_to_line E e = Inl (c, w) \<and> r = Err (LSerialize c))))"
proof -
  obtain s' r where a: "store_append E d s = (s', r)" by (cases "store_append E d s")
  have none: "Option.bind (d_idem d) (\<lambda>k. find_pos (\<lambda>e. e_idem e = Some k) es) = None"
    if "\<And>k. d_idem d = Some k \<Longrightarrow> find_pos (\<lambda>e. e_idem e = Some k) es = None"
    using that by (cases "d_idem d") simp_all
  from assms a show ?thesis
    by (cases rule: store_append_cases) (auto simp: a none)
qed

text \<open>
  Reading through the index is reading the history: whatever days the events fell on, the whole
  journal is read back in order, and a query (which starts at the first event of the task or at the
  asked number, file by file) gives exactly the events of the history the filter accepts, cut at the
  limit.
\<close>
theorem query_is_filter:
  assumes "codec_ok E" "rep E es s"
  shows "read_all E s = Ok es \<and> query E s f = Ok (case f_limit f of
      None \<Rightarrow> filter (filter_accepts f) es | Some n \<Rightarrow> take n (filter (filter_accepts f) es))"
  using read_all_rep [OF assms] query_rep [OF assms] by (simp_all add: query_result_def)

text \<open>
  C24. Reopening: when the events of the history read back from their lines, as those with a plain
  payload do, and the names of the days never go back along it, opening the directory again gives a
  store that holds the same history, with the same head and next number.
\<close>
theorem reopen_restores:
  assumes "codec_ok E" "rep E es s" "sorted (map (day E) es)"
  shows "\<exists>s'. store_open E (st_disk s) = Ok s' \<and> rep E es s'
    \<and> st_next_seq s' = st_next_seq s \<and> st_last_hash s' = st_last_hash s"
proof -
  from open_rep [OF assms] obtain s' where "store_open E (st_disk s) = Ok s'" "rep E es s'" by blast
  with assms(2) show ?thesis by (auto simp: rep_def indexed_def)
qed

text \<open>
  What reopening does in general: it always succeeds, and the next number is the right one exactly
  when the last event was written in the last file by name. After a clock that stepped back over
  midnight it is not: the number of an event already written is given again.
\<close>
theorem reopen_after_clock_step:
  assumes "codec_ok E" "rep E es s" "es \<noteq> []"
  shows "\<exists>s'. store_open E (st_disk s) = Ok s' \<and> st_next_seq s' \<le> length es
    \<and> (st_next_seq s' = length es \<longleftrightarrow> (\<forall>e \<in> set es. day E e \<le> day E (last es)))"
proof -
  let ?p = "Max (day E ` set es)"
  have n: "numbered es" using assms(2) by (simp add: rep_def history_ok_def)
  from open_next [OF assms(1,2)] obtain s' where s': "store_open E (st_disk s) = Ok s'"
    "st_next_seq s' = Suc (e_seq (last (in_day E ?p es)))"
    using last_by_day [OF assms(3)] by (auto simp: next_of_def)
  have p: "?p \<in> day E ` set es" using assms(3) by simp
  then have "last (in_day E ?p es) \<in> set (in_day E ?p es)" by (intro last_in_set) (simp add: in_day_eq_Nil)
  then have "st_next_seq s' \<le> length es"
    using numbered_nth [OF n] by (auto simp: in_day_def in_set_conv_nth s'(2) simp flip: Suc_le_eq) metis
  moreover have "day E (last es) = ?p \<longleftrightarrow> (\<forall>e \<in> set es. day E e \<le> day E (last es))"
  proof
    assume "day E (last es) = ?p"
    then show "\<forall>e \<in> set es. day E e \<le> day E (last es)" by simp
  next
    assume "\<forall>e \<in> set es. day E e \<le> day E (last es)"
    with assms(3) show "day E (last es) = ?p" by (intro Max_eqI [symmetric]) auto
  qed
  ultimately show ?thesis using last_in_day [OF n assms(3) p] s' by auto
qed

text \<open>
  C7. The journal only grows: along any run of seals and of appends of plain payloads, without
  floating-point number, from a store that holds \<open>es\<close>, what is read afterwards starts with \<open>es\<close>, and
  the whole of it is a chain that verifies.
\<close>
theorem journal_append_only:
  assumes "codec_ok E" "rep E es s" "run journal_step (E, s) ops = Some ((E', s'), outs)"
  shows "\<exists>fs. read_all E s' = Ok (es @ fs) \<and> verify_chain (j_enc E) (es @ fs) = Ok ()"
proof -
  have inv: "journal_inv (E, s)" using assms(1,2) by (auto simp: journal_inv_def)
  from journal.run_inv [OF inv assms(3)] obtain es' where es': "codec_ok E'" "rep E' es' s'"
    by (auto simp: journal_inv_def)
  from journal.run_le [OF inv assms(3)] es' assms(1,2)
  have "E' = E" "take (length es) es' = es" by (auto simp: journal_le_def read_all_rep)
  then have "es' = es @ drop (length es) es'" by (metis append_take_drop_id)
  with es' \<open>E' = E\<close> show ?thesis
    by (metis read_all_rep rep_def history_ok_def)
qed

text \<open>
  What a good report of \<open>verify\<close> says: the chain of all the events read verifies, and, when the
  store has a key, every seal event carries a seal that verifies under the key written in that seal;
  the key of the store itself plays no part, so seals made with any other key pass.
\<close>
theorem verify_report_spec:
  assumes "read_all E s = Ok es"
  shows "((\<exists>r. store_verify E s = Ok r \<and> vr_ok r \<and> vr_checked r = length es) \<longleftrightarrow>
      verify_chain (j_enc E) es = Ok () \<and>
      (st_sealer s = None \<or> (\<forall>e \<in> set es. e_kind e = LedgerSeal \<longrightarrow>
         (\<exists>c. seal_of_json (e_payload e) = Ok c \<and> verify_seal E c))))
    \<and> store_verify E (s\<lparr>st_sealer := Some k\<rparr>) = store_verify E (s\<lparr>st_sealer := Some k'\<rparr>)"
proof -
  have seals: "(\<exists>n. check_seals E m es = Ok (n, None)) \<longleftrightarrow> (\<forall>e \<in> set es. e_kind e = LedgerSeal \<longrightarrow>
      (\<exists>c. seal_of_json (e_payload e) = Ok c \<and> verify_seal E c))" for m
    by (induction es arbitrary: m) (auto split: sum.splits if_splits)
  have report: "(\<exists>r. store_verify E s = Ok r \<and> vr_ok r \<and> vr_checked r = length es) \<longleftrightarrow>
      verify_chain (j_enc E) es = Ok () \<and>
      (st_sealer s = None \<or> (\<forall>e \<in> set es. e_kind e = LedgerSeal \<longrightarrow>
         (\<exists>c. seal_of_json (e_payload e) = Ok c \<and> verify_seal E c)))"
    using seals [of 0] by (auto simp: store_verify_def assms split: sum.splits option.splits)
  have "read_files E (s\<lparr>st_sealer := x\<rparr>) ps = read_files E s ps" for x ps
    by (induction ps) (simp_all add: lire_depuis_def cong: sum.case_cong)
  then have "read_all E (s\<lparr>st_sealer := x\<rparr>) = read_all E s" for x
    by (simp add: read_all_def day_files_def)
  then have "store_verify E (s\<lparr>st_sealer := Some k\<rparr>) = store_verify E (s\<lparr>st_sealer := Some k'\<rparr>)"
    by (simp add: store_verify_def cong: sum.case_cong)
  with report show ?thesis by blast
qed

section \<open>Concrete inputs\<close>

text \<open>Two events, the second under key \<open>k\<close>; \<open>two_days\<close> gives the day numbers of their instants.\<close>

definition demo_draft :: "int \<Rightarrow> draft" where
  "demo_draft n = (draft_new n ''agentd'' ToolCall (JObj []))\<lparr>d_task := Some ''t''\<rparr>"

definition seal_or :: "draft \<Rightarrow> nat \<Rightarrow> string \<Rightarrow> event" where
  "seal_or d n h = (case seal demo_encoder d n h of Inr e \<Rightarrow> e | Inl _ \<Rightarrow> undefined)"

definition event0 :: "int \<Rightarrow> event" where
  "event0 n = seal_or (demo_draft n) 0 GENESIS"

definition event1 :: "int \<Rightarrow> int \<Rightarrow> event" where
  "event1 n m = seal_or (demo_draft m) 1 (hash_or_genesis (event0 n))"

definition demo_journal :: "int \<Rightarrow> int \<Rightarrow> journal_env" where
  "demo_journal n m = \<lparr>j_enc = demo_encoder,
     j_to_line = (\<lambda>e. if e = event0 n then Inr ''0'' else if e = event1 n m then Inr ''1''
       else Inl (''unknown'', [])),
     j_from_line = (\<lambda>l. if l \<in> {''0'', ''0'' @ [NL]} then Ok (event0 n)
       else if l \<in> {''1'', ''1'' @ [NL]} then Ok (event1 n m) else Err ''unreadable''),
     j_date = (\<lambda>t. (2026, 1, nat t)), j_b64_encode = (\<lambda>s. s), j_b64_decode = Some,
     j_key_ok = (\<lambda>_. True), j_ed_verify = (\<lambda>k m s. s = take 64 (m @ replicate 64 CHR ''.''))\<rparr>"

lemma demo_simps [simp]:
  "j_enc (demo_journal n m) = demo_encoder" "d_idem (demo_draft k) = None" "plain_payload (d_payload (demo_draft k))"
  "j_to_line (demo_journal n m) (event0 n) \<noteq> Inl x" "j_to_line (demo_journal n m) (event1 n m) \<noteq> Inl x"
  by (simp_all add: demo_journal_def demo_draft_def draft_new_def plain_payload_def eval_nat_numeral)

lemma trim_digit: "trim ''0'' \<noteq> []" "trim (''0'' @ [NL]) \<noteq> []" "trim ''1'' \<noteq> []" "trim (''1'' @ [NL]) \<noteq> []"
  by (simp_all add: trim_def trim_by.simps white_space_def NL_def)

lemma demo_codec: "codec_ok (demo_journal n m)"
  using trim_digit by (auto simp: codec_ok_def reads_back_def demo_journal_def NL_def split: if_splits)

lemma demo_seal0: "seal demo_encoder (demo_draft n) 0 GENESIS = Ok (event0 n)"
  by (simp add: event0_def seal_or_def seal_def demo_draft_def draft_new_def compute_hash_def
      canonical_hash_def to_canonical_bytes_def canonical_value_def event_json_def demo_encoder_def Let_def)

lemma demo_seal1: "seal demo_encoder (demo_draft m) 1 (hash_or_genesis (event0 n)) = Ok (event1 n m)"
  by (simp add: event1_def seal_or_def seal_def demo_draft_def draft_new_def compute_hash_def
      canonical_hash_def to_canonical_bytes_def canonical_value_def event_json_def demo_encoder_def Let_def)

definition demo_store :: "int \<Rightarrow> int \<Rightarrow> store" where
  "demo_store n m = fst (store_append (demo_journal n m) (demo_draft m)
     (fst (store_append (demo_journal n m) (demo_draft n) (empty_store []))))"

lemma demo_rep1: "rep (demo_journal n m) [event0 n]
    (fst (store_append (demo_journal n m) (demo_draft n) (empty_store [])))"
  and demo_append1: "store_append (demo_journal n m) (demo_draft n) (empty_store []) =
    (fst (store_append (demo_journal n m) (demo_draft n) (empty_store [])), Ok (event0 n))"
proof -
  obtain s r where a: "store_append (demo_journal n m) (demo_draft n) (empty_store []) = (s, r)"
    by (cases "store_append (demo_journal n m) (demo_draft n) (empty_store [])")
  from demo_codec rep_empty a have "rep (demo_journal n m) [event0 n] s \<and> r = Ok (event0 n)"
    by (cases rule: store_append_cases) (auto simp: demo_seal0 chain_head_def)
  with a show "rep (demo_journal n m) [event0 n]
      (fst (store_append (demo_journal n m) (demo_draft n) (empty_store [])))"
    "store_append (demo_journal n m) (demo_draft n) (empty_store []) =
      (fst (store_append (demo_journal n m) (demo_draft n) (empty_store [])), Ok (event0 n))"
    by simp_all
qed

lemma demo_rep2: "rep (demo_journal n m) [event0 n, event1 n m] (demo_store n m)"
  and demo_append2: "store_append (demo_journal n m) (demo_draft m)
      (fst (store_append (demo_journal n m) (demo_draft n) (empty_store [])))
    = (demo_store n m, Ok (event1 n m))"
proof -
  let ?s = "fst (store_append (demo_journal n m) (demo_draft n) (empty_store []))"
  from verify_hash_Ok [OF seal_Ok(2) [OF demo_seal0 [of n]]] obtain h where "e_hash (event0 n) = Some h"
    by blast
  then have head: "chain_head [event0 n] = hash_or_genesis (event0 n)"
    by (simp add: chain_head_def hash_or_genesis_def)
  obtain s r where a: "store_append (demo_journal n m) (demo_draft m) ?s = (s, r)"
    by (cases "store_append (demo_journal n m) (demo_draft m) ?s")
  from demo_codec demo_rep1 a have "rep (demo_journal n m) [event0 n, event1 n m] s \<and> r = Ok (event1 n m)"
    by (cases rule: store_append_cases)
      (auto simp: demo_seal1 [unfolded One_nat_def] head)
  with a show "rep (demo_journal n m) [event0 n, event1 n m] (demo_store n m)"
    "store_append (demo_journal n m) (demo_draft m) ?s = (demo_store n m, Ok (event1 n m))"
    by (simp_all add: demo_store_def)
qed

lemma demo_days: "day (demo_journal n m) (event0 n) = path_for (demo_journal n m) n"
  "day (demo_journal n m) (event1 n m) = path_for (demo_journal n m) m"
  by (simp_all add: day_def seal_Ok(6) [OF demo_seal0] seal_Ok(6) [OF demo_seal1] demo_draft_def draft_new_def)

lemma demo_path: "path_for (demo_journal n m) 1 = ''2026-01-01.jsonl''"
  "path_for (demo_journal n m) 2 = ''2026-01-02.jsonl''"
  by (simp_all add: path_for_def demo_journal_def fmt_year_def zero_pad_def show_nat.simps digit_chars)

theorem append_refines_witness:
  "case store_append (demo_journal 1 2) (demo_draft 1) (empty_store []) of
     (s', r) \<Rightarrow> r = Ok (event0 1) \<and> rep (demo_journal 1 2) [event0 1] s'"
proof -
  have "chain_head [] = GENESIS" by (simp add: chain_head_def)
  then show ?thesis
    using append_refines [OF demo_codec [of 1 2] rep_empty, of "demo_draft 1"]
    by (auto simp: demo_seal0 split: prod.splits)
qed

theorem query_is_filter_witness:
  "query (demo_journal 1 2) (demo_store 1 2) (default_filter\<lparr>f_since_seq := Some 1\<rparr>) = Ok [event1 1 2]"
proof -
  have "e_seq (event0 1) = 0" "e_seq (event1 1 2) = 1"
    by (simp_all add: seal_Ok(4) [OF demo_seal0] seal_Ok(4) [OF demo_seal1])
  then show ?thesis
    using query_is_filter [OF demo_codec demo_rep2, of 1 2 "default_filter\<lparr>f_since_seq := Some 1\<rparr>"]
    by (simp add: default_filter_def filter_accepts_def)
qed

theorem reopen_restores_witness:
  "\<exists>s'. store_open (demo_journal 1 2) (st_disk (demo_store 1 2)) = Ok s'
     \<and> rep (demo_journal 1 2) [event0 1, event1 1 2] s'"
proof -
  have "sorted (map (day (demo_journal 1 2)) [event0 1, event1 1 2])"
    by (simp add: demo_days demo_path)
  from reopen_restores [OF demo_codec demo_rep2 this] show ?thesis by blast
qed

text \<open>The second event falls on the day before the first.\<close>

theorem reopen_after_clock_step_witness:
  "\<exists>s'. store_open (demo_journal 2 1) (st_disk (demo_store 2 1)) = Ok s' \<and> st_next_seq s' < 2"
proof -
  have "\<not> day (demo_journal 2 1) (event0 2) \<le> day (demo_journal 2 1) (event1 2 1)"
    by (simp add: demo_days demo_path)
  with reopen_after_clock_step [OF demo_codec demo_rep2, of 2 1] show ?thesis by auto
qed

theorem journal_append_only_witness:
  "case run journal_step (demo_journal 1 2, empty_store []) [Append (demo_draft 1), Append (demo_draft 2)] of
     Some ((E', s'), outs) \<Rightarrow> (\<exists>fs. read_all (demo_journal 1 2) s' = Ok ([] @ fs)
       \<and> verify_chain (j_enc (demo_journal 1 2)) ([] @ fs) = Ok ())
   | None \<Rightarrow> False"
proof -
  define s0 where "s0 = fst (store_append (demo_journal 1 2) (demo_draft 1) (empty_store []))"
  have "run journal_step (demo_journal 1 2, empty_store []) [Append (demo_draft 1), Append (demo_draft 2)]
      = Some ((demo_journal 1 2, demo_store 1 2), [Ok (Some (event0 1)), Ok (Some (event1 1 2))])"
    using demo_append1 [of 1 2, folded s0_def] demo_append2 [of 1 2, folded s0_def]
    by (simp add: journal_step_def)
  with journal_append_only [OF demo_codec rep_empty this] show ?thesis by simp
qed

theorem verify_report_spec_witness:
  "\<exists>r. store_verify (demo_journal 1 2) (demo_store 1 2) = Ok r \<and> vr_ok r \<and> vr_checked r = 2"
proof -
  have r: "read_all (demo_journal 1 2) (demo_store 1 2) = Ok [event0 1, event1 1 2]"
    by (rule read_all_rep [OF demo_codec demo_rep2])
  have "e_kind (event0 1) = ToolCall" "e_kind (event1 1 2) = ToolCall"
    by (simp_all add: seal_Ok(10) [OF demo_seal0] seal_Ok(10) [OF demo_seal1] demo_draft_def draft_new_def)
  moreover have "verify_chain (j_enc (demo_journal 1 2)) [event0 1, event1 1 2] = Ok ()"
    using demo_rep2 [of 1 2] by (simp add: rep_def history_ok_def)
  ultimately show ?thesis using verify_report_spec [OF r] by (simp add: numeral_2_eq_2)
qed

text \<open>
  What a float costs: an event whose payload has one is taken by the journal, and read back with the
  neighbour of that number, the journal is no longer a chain that verifies.
\<close>

definition float_draft :: draft where
  "float_draft = draft_new 1 ''agentd'' TaskPlanned (JObj [(''confidence'', JFloat ''0.3'')])"

definition float_event :: event where
  "float_event = seal_or float_draft 0 GENESIS"

definition drifted_event :: event where
  "drifted_event = float_event\<lparr>e_payload := JObj [(''confidence'', JFloat ''0.30000000000000004'')]\<rparr>"

definition drifting_journal :: journal_env where
  "drifting_journal = (demo_journal 1 2)
     \<lparr>j_to_line := (\<lambda>e. if e = float_event then Inr ''0'' else Inl (''unknown'', [])),
      j_from_line := (\<lambda>l. Ok drifted_event)\<rparr>"

lemma float_sealed: "seal demo_encoder float_draft 0 GENESIS = Ok float_event"
  by code_simp

lemma drifting_codec: "codec_ok drifting_journal"
  using trim_digit seal_Ok(11) [OF float_sealed]
  by (auto simp: codec_ok_def drifting_journal_def NL_def float_draft_def draft_new_def plain_payload_def
      eval_nat_numeral split: if_splits)

lemma float_payload_breaks_chain:
  "case store_append drifting_journal float_draft (empty_store []) of (s, r) \<Rightarrow>
     r = Ok float_event \<and> read_all drifting_journal s = Ok [drifted_event]"
  "verify_chain (j_enc drifting_journal) [drifted_event] = Err (BrokenChain 0 HashMismatch)"
  by code_simp+

end
