(* ===== verification/Publication.thy ===== *)
theory Publication
  imports Workspace_Types "HOL-Library.Sublist"
begin

text \<open>
  Publishing the work of a mission into the documents of the human
  (\<^verbatim>\<open>crates/sfs/src/publication.rs\<close>, \<^verbatim>\<open>publication_metadata.rs\<close>): a batch of file changes, one
  atomic change of names per file, journaled so that a process killed anywhere can be resumed, and
  so that what the human changes meanwhile stops the batch and is never lost.

  A tree is a function from relative paths to files; the directories of the documents are entries of
  it, and a path below anything but a directory cannot be opened. A directory that a change of names
  moves is one entry: its contents keep their paths. The state of the disk is explicit; an operation
  returns the disk it leaves and an outcome, which may be that the process was killed at one of the
  code's checkpoints. What the human does to the documents happens at checkpoints too. Locks, temporary
  names, the size of the cursor and failing synchronisation are left out; the size of the two records is
  checked once, at the end of the preparation.
\<close>

section \<open>Files\<close>

record file_id =
  fi_device :: nat
  fi_inode :: nat

text \<open>Attributes are bytes, as characters.\<close>

record metadata =
  md_uid :: nat
  md_gid :: nat
  md_modified :: int
  md_modified_ns :: int
  md_attributes :: "(string, string) amap"

text \<open>
  A file as it is found: a directory, a regular file with one link and of bounded size, with its
  fingerprint, or anything else. \<open>nd_open\<close>: opening it under the root follows no link and no other device.
  \<open>nd_meta\<close>: its metadata when they can be read.
\<close>

datatype node_kind = Directory | Regular fingerprint | Special

record node =
  nd_id :: file_id
  nd_kind :: node_kind
  nd_open :: bool
  nd_meta :: "metadata option"

definition nd_version :: "node \<Rightarrow> fingerprint option" where
  "nd_version n = (case nd_kind n of Regular v \<Rightarrow> Some v | _ \<Rightarrow> None)"

type_synonym tree = "path \<Rightarrow> node option"

record meta_pair =
  mp_before :: "metadata option"
  mp_after :: "metadata option"

datatype pub_refusal = AlreadyPublished | NothingToRecover | NoVerifiableJournal | WrongStateForUndo
  | AllChanged | NoDecisionAwaited | UndoCannotBeUndone | TooManyChanges | BadIndex | BadVersion
  | JournalAltered | IndexAltered | MetadataInconsistent | JournalInconsistent | MetadataMissing
  | RecordTooLarge | EmptyChange | IntentMissing | BadParent | BadAcl | ProvenanceTooLarge
  | SelinuxContext

datatype pub_error = Conflict path | NotFound path | Refused path | MetadataChanged path
  | Invalid pub_refusal

text \<open>The directories above a path, and whether something else stands in their place.\<close>

definition is_dir_at :: "tree \<Rightarrow> path \<Rightarrow> bool" where
  "is_dir_at m q = (case m q of None \<Rightarrow> False | Some n \<Rightarrow> nd_kind n = Directory \<and> nd_open n)"

definition above :: "path \<Rightarrow> path list" where
  "above p = filter (\<lambda>q. q \<noteq> []) (prefixes (butlast p))"

definition blocked :: "tree \<Rightarrow> path \<Rightarrow> bool" where
  "blocked m p = list_ex (\<lambda>q. m q \<noteq> None \<and> \<not> is_dir_at m q) (above p)"

definition file_id_at :: "tree \<Rightarrow> path \<Rightarrow> pub_error + file_id option" where
  "file_id_at m p = (if blocked m p then Err (Refused p) else case m p of
     None \<Rightarrow> Ok None | Some n \<Rightarrow> if nd_open n then Ok (Some (nd_id n)) else Err (Refused p))"

definition inspect_file :: "tree \<Rightarrow> path \<Rightarrow> pub_error + fingerprint" where
  "inspect_file m p = (if blocked m p then Err (Refused p) else case m p of
     None \<Rightarrow> Err (NotFound p)
   | Some n \<Rightarrow> (case nd_version n of
       Some v \<Rightarrow> if nd_open n then Ok v else Err (Refused p) | None \<Rightarrow> Err (Refused p)))"

definition check_version :: "tree \<Rightarrow> path \<Rightarrow> fingerprint option \<Rightarrow> pub_error + file_id option" where
  "check_version m p expected =
     (case expected of
        Some v \<Rightarrow> (case inspect_file m p of
            Inl e \<Rightarrow> Err e
          | Inr actual \<Rightarrow> if actual \<noteq> v then Err (Conflict p) else file_id_at m p)
      | None \<Rightarrow> (case file_id_at m p of
            Inl e \<Rightarrow> Err e | Inr None \<Rightarrow> Ok None | Inr (Some _) \<Rightarrow> Err (Conflict p)))"

definition meta_read :: "tree \<Rightarrow> path \<Rightarrow> pub_error + metadata" where
  "meta_read m p = (if blocked m p then Err (Refused p) else case m p of
     None \<Rightarrow> Err (NotFound p)
   | Some n \<Rightarrow> if \<not> nd_open n \<or> nd_version n = None then Err (Refused p)
       else (case nd_meta n of None \<Rightarrow> Err (Refused p) | Some md \<Rightarrow> Ok md))"

definition meta_check :: "tree \<Rightarrow> path \<Rightarrow> metadata \<Rightarrow> pub_error + unit" where
  "meta_check m p md = (case meta_read m p of
     Inl e \<Rightarrow> Err e | Inr actual \<Rightarrow> if actual = md then Ok () else Err (MetadataChanged p))"

definition meta_check_opt :: "tree \<Rightarrow> path \<Rightarrow> metadata option \<Rightarrow> pub_error + unit" where
  "meta_check_opt m p md = (case md of None \<Rightarrow> Ok () | Some x \<Rightarrow> meta_check m p x)"

section \<open>The metadata of a new version\<close>

text \<open>What the existing directories say: group, default ACL, security context.\<close>

record dir_meta =
  dm_gid :: nat
  dm_default_acl :: "string option"
  dm_selinux :: bool

definition byte_of :: "char \<Rightarrow> nat" where
  "byte_of c = of_char c"

definition acl_tag :: "string \<Rightarrow> nat" where
  "acl_tag e = byte_of (e ! 0) + 256 * byte_of (e ! 1)"

definition acl_bits :: "bool \<Rightarrow> nat \<Rightarrow> nat \<Rightarrow> nat option" where
  "acl_bits masked mode tag =
     (if tag = 1 then Some (mode div 64 mod 8)
      else if tag = 16 then Some (mode div 8 mod 8)
      else if tag = 4 \<and> \<not> masked then Some (mode div 8 mod 8)
      else if tag = 32 then Some (mode mod 8)
      else None)"

definition acl_entry :: "bool \<Rightarrow> nat \<Rightarrow> string \<Rightarrow> string" where
  "acl_entry masked mode e = (case acl_bits masked mode (acl_tag e) of
     None \<Rightarrow> e
   | Some bits \<Rightarrow> e[2 := char_of (bits mod 256), 3 := char_of (bits div 256)])"

fun chunks8 :: "string \<Rightarrow> string list" where
  "chunks8 s = (if length s < 8 then [] else take 8 s # chunks8 (drop 8 s))"

declare chunks8.simps [simp del]

definition apply_mode :: "string \<Rightarrow> nat \<Rightarrow> pub_refusal + string" where
  "apply_mode acl mode =
     (if length acl < 4 \<or> take 4 acl \<noteq> [CHR 0x02, CHR 0x00, CHR 0x00, CHR 0x00]
         \<or> (length acl - 4) mod 8 \<noteq> 0
      then Err BadAcl
      else
        let es = chunks8 (drop 4 acl); masked = list_ex (\<lambda>e. acl_tag e = 16) es
        in Ok (take 4 acl @ concat (map (acl_entry masked mode) es)))"

fun put_provenance :: "(string \<times> string) list \<Rightarrow> (string, string) amap \<Rightarrow> pub_refusal + (string, string) amap" where
  "put_provenance [] attrs = Ok attrs"
| "put_provenance ((name, value) # ps) attrs =
     (if 65536 < length value then Err ProvenanceTooLarge
      else put_provenance ps (bt_insert (''user.prophet.'' @ name) value attrs))"

definition provenance_pairs :: "publication_provenance \<Rightarrow> (string \<times> string) list" where
  "provenance_pairs p = [(''task'', pp_task p), (''agent'', pp_agent p), (''step'', show_nat (pp_step p)),
     (''model'', pp_model p)]"

text \<open>The nearest existing ancestor directory of a path, from the root of the home down.\<close>

definition nearest_dir :: "tree \<Rightarrow> path \<Rightarrow> path" where
  "nearest_dir home p = last ([] # takeWhile (is_dir_at home) (above p))"

definition inherited_meta :: "(path \<Rightarrow> dir_meta) \<Rightarrow> nat \<Rightarrow> tree \<Rightarrow> path \<Rightarrow> pub_error + metadata" where
  "inherited_meta dir_of home_uid home p =
     (let dm = dir_of (nearest_dir home p); beyond = dropWhile (is_dir_at home) (above p)
      in if beyond \<noteq> [] \<and> home (hd beyond) \<noteq> None then Err (Refused (hd beyond))
         else if dm_selinux dm then Err (Invalid SelinuxContext)
         else Ok \<lparr>md_uid = home_uid, md_gid = dm_gid dm, md_modified = 0, md_modified_ns = 0,
           md_attributes = (case dm_default_acl dm of
             None \<Rightarrow> [] | Some acl \<Rightarrow> [(''system.posix_acl_access'', acl)])\<rparr>)"

definition proposed_meta :: "(path \<Rightarrow> dir_meta) \<Rightarrow> nat \<Rightarrow> tree \<Rightarrow> tree \<Rightarrow> path \<Rightarrow> nat \<Rightarrow> metadata option
    \<Rightarrow> publication_provenance option \<Rightarrow> pub_error + metadata" where
  "proposed_meta dir_of home_uid home work p mode initial provenance =
     (case (if blocked work p then None else Option.bind (work p) nd_meta) of
        None \<Rightarrow> Err (Refused p)
      | Some source \<Rightarrow>
          (case (case initial of Some b \<Rightarrow> Ok b | None \<Rightarrow> inherited_meta dir_of home_uid home p) of
             Inl e \<Rightarrow> Err e
           | Inr b \<Rightarrow>
               (case (case map_of (md_attributes b) ''system.posix_acl_access'' of
                        None \<Rightarrow> Ok (md_attributes b)
                      | Some acl \<Rightarrow> map_sum id (\<lambda>a. bt_insert ''system.posix_acl_access'' a (md_attributes b))
                          (apply_mode acl mode)) of
                  Inl e \<Rightarrow> Err (Invalid e)
                | Inr attrs \<Rightarrow>
                    (case (case provenance of None \<Rightarrow> Ok attrs
                           | Some pv \<Rightarrow> put_provenance (provenance_pairs pv) attrs) of
                       Inl e \<Rightarrow> Err (Invalid e)
                     | Inr attrs' \<Rightarrow> Ok (b\<lparr>md_modified := md_modified source,
                         md_modified_ns := md_modified_ns source, md_attributes := attrs'\<rparr>)))))"

section \<open>The disk and the journal\<close>

record pending_move =
  pm_original :: "file_id option"
  pm_proposed :: "file_id option"

text \<open>What is written at each step, and what is read back beside it.\<close>

record cursor =
  jo_version :: nat
  jo_task :: string
  jo_review_hash :: string
  jo_state :: workspace_state
  jo_committed :: int
  jo_undo :: bool
  jo_next :: nat
  jo_pending :: "pending_move option"
  jo_kept :: "nat set"

record journal = cursor +
  jo_review :: review_index
  jo_metadata :: "meta_pair list"

record pub_manifest =
  pf_review :: review_index
  pf_metadata :: "meta_pair list"

text \<open>
  \<open>dk_trace\<close> holds the documents as they stood after each checkpoint passed. Files moved aside
  under a temporary name stay in \<open>dk_orphans\<close>; nothing deletes them.
\<close>

record disk =
  dk_home :: tree
  dk_work :: tree
  dk_restore :: tree
  dk_published :: tree
  dk_slots :: tree
  dk_record :: "(cursor \<times> string) option"
  dk_review :: "pub_manifest option"
  dk_orphans :: "node list"
  dk_inode :: nat
  dk_trace :: "tree list"

datatype checkpoint_name = JournalStart | CopySynced | SlotSynced | IntentSynced | BeforeRename
  | NameChanged | DirectoriesSynced | StepRecorded | JournalFinished | SettleDone
  | ResolutionRecorded

text \<open>
  At the n-th checkpoint: the process is killed (\<open>None\<close>), or goes on with the documents as the human
  leaves them. \<open>SettleDone\<close> is the one point the code has no name for.
\<close>

type_synonym hook = "nat \<Rightarrow> checkpoint_name \<Rightarrow> tree \<Rightarrow> tree option"

text \<open>
  What third-party code and the system give: digests of the two records, whether a record is too large
  to write, the metadata of existing directories, the owner of the home, the device of new files.
\<close>

record pub_env =
  pe_hook :: hook
  pe_digest_cursor :: "cursor \<Rightarrow> string"
  pe_digest_manifest :: "pub_manifest \<Rightarrow> string"
  pe_too_large :: "pub_manifest \<Rightarrow> bool"
  pe_dir_meta :: "path \<Rightarrow> dir_meta"
  pe_home_uid :: nat
  pe_device :: nat

datatype 'a outcome = Killed | Failed pub_error | Returned 'a

type_synonym 'a io = "disk \<Rightarrow> disk \<times> 'a outcome"

definition return_io :: "'a \<Rightarrow> 'a io" where
  "return_io x d = (d, Returned x)"

definition fail_io :: "pub_error \<Rightarrow> 'a io" where
  "fail_io e d = (d, Failed e)"

definition bind_io :: "'a io \<Rightarrow> ('a \<Rightarrow> 'b io) \<Rightarrow> 'b io" where
  "bind_io m f d = (case m d of
     (d', Killed) \<Rightarrow> (d', Killed) | (d', Failed e) \<Rightarrow> (d', Failed e) | (d', Returned x) \<Rightarrow> f x d')"

definition then_io :: "'a io \<Rightarrow> 'b io \<Rightarrow> 'b io" where
  "then_io m k = bind_io m (\<lambda>_. k)"

text \<open>A check that reads the disk and changes nothing.\<close>

definition read_io :: "(disk \<Rightarrow> pub_error + 'a) \<Rightarrow> 'a io" where
  "read_io f d = (d, case f d of Inl e \<Rightarrow> Failed e | Inr x \<Rightarrow> Returned x)"

definition change_io :: "(disk \<Rightarrow> disk) \<Rightarrow> unit io" where
  "change_io f d = (f d, Returned ())"

definition checkpoint :: "pub_env \<Rightarrow> checkpoint_name \<Rightarrow> unit io" where
  "checkpoint E c d = (case pe_hook E (length (dk_trace d)) c (dk_home d) of
     None \<Rightarrow> (d, Killed)
   | Some h \<Rightarrow> (d\<lparr>dk_home := h, dk_trace := dk_trace d @ [h]\<rparr>, Returned ()))"

definition save_journal :: "pub_env \<Rightarrow> journal \<Rightarrow> unit io" where
  "save_journal E J = change_io (\<lambda>d. d\<lparr>dk_record :=
     Some (cursor.truncate J, pe_digest_cursor E (cursor.truncate J))\<rparr>)"

section \<open>Reading the journal\<close>

definition valid_path :: "path \<Rightarrow> bool" where
  "valid_path p \<longleftrightarrow> p \<noteq> [] \<and> list_all (\<lambda>c. c \<notin> {[], ''.'', ''..''} \<and> CHR ''/'' \<notin> set c) p \<and> ''.prophet'' \<notin> set p"

definition is_hex_digit :: "char \<Rightarrow> bool" where
  "is_hex_digit c \<longleftrightarrow> c \<in> set ''0123456789abcdefABCDEF''"

text \<open>Regular file, no set-user-id, set-group-id or sticky bit.\<close>

definition plain_version :: "fingerprint \<Rightarrow> bool" where
  "plain_version v \<longleftrightarrow> fp_mode v div 4096 mod 16 = 8 \<and> fp_mode v div 512 mod 8 = 0
     \<and> length (fp_hash v) = 64 \<and> list_all is_hex_digit (fp_hash v)"

definition entry_versions :: "entry \<Rightarrow> fingerprint list" where
  "entry_versions e = (case en_before e of None \<Rightarrow> [] | Some v \<Rightarrow> [v])
     @ (case en_after e of None \<Rightarrow> [] | Some v \<Rightarrow> [v])"

fun validate_entries :: "path option \<Rightarrow> nat \<Rightarrow> entry list \<Rightarrow> pub_refusal + unit" where
  "validate_entries previous bytes [] = Ok ()"
| "validate_entries previous bytes (e # es) =
     (if \<not> valid_path (en_path e) \<or> 64 < length (en_path e)
         \<or> (case previous of None \<Rightarrow> False | Some q \<Rightarrow> en_path e \<le> q) \<or> en_before e = en_after e
      then Err BadIndex
      else
        let total = foldl (\<lambda>n v. n + fp_size v) bytes (entry_versions e)
        in if 1073741824 < total \<or> \<not> list_all plain_version (entry_versions e) then Err BadVersion
           else validate_entries (Some (en_path e)) total es)"

definition validate_review :: "review_index \<Rightarrow> pub_refusal + unit" where
  "validate_review r = (if 10000 < length (ri_entries r) then Err TooManyChanges
     else validate_entries None 0 (ri_entries r))"

definition metadata_fits :: "entry \<Rightarrow> meta_pair \<Rightarrow> bool" where
  "metadata_fits e m \<longleftrightarrow> (en_before e = None) = (mp_before m = None) \<and> (en_after e = None) = (mp_after m = None)"

definition journal_coherent :: "string \<Rightarrow> journal \<Rightarrow> bool" where
  "journal_coherent task J \<longleftrightarrow>
     (let n = length (ri_entries (jo_review J))
      in jo_version J = 1 \<and> jo_task J = task \<and> jo_next J \<le> n \<and> (\<forall>rang \<in> jo_kept J. rang < n)
       \<and> \<not> (jo_pending J \<noteq> None \<and> jo_next J = n)
       \<and> (jo_state J \<in> {WCommitted, WRolledBack} \<longrightarrow> jo_next J = n \<and> jo_pending J = None)
       \<and> jo_state J \<in> {WApplying, WUndoing, WCommitted, WRolledBack, WConflict})"

definition journal_of :: "cursor \<Rightarrow> pub_manifest \<Rightarrow> journal" where
  "journal_of c m = cursor.extend c (journal.fields (pf_review m) (pf_metadata m))"

definition read_journal :: "pub_env \<Rightarrow> string \<Rightarrow> disk \<Rightarrow> pub_error + journal option" where
  "read_journal E task d =
     (case dk_record d of
        None \<Rightarrow> Ok None
      | Some (c, digest) \<Rightarrow>
          if digest \<noteq> pe_digest_cursor E c then Err (Invalid JournalAltered)
          else (case dk_review d of
                  None \<Rightarrow> Err (NotFound [''publication-review.json''])
                | Some m \<Rightarrow>
                    if jo_review_hash c \<noteq> pe_digest_manifest E m then Err (Invalid IndexAltered)
                    else
                      let J = journal_of c m
                      in case validate_review (jo_review J) of
                           Inl e \<Rightarrow> Err (Invalid e)
                         | Inr _ \<Rightarrow>
                             if length (jo_metadata J) \<noteq> length (ri_entries (jo_review J))
                                \<or> \<not> list_all2 metadata_fits (ri_entries (jo_review J)) (jo_metadata J)
                             then Err (Invalid MetadataInconsistent)
                             else if \<not> journal_coherent task J then Err (Invalid JournalInconsistent)
                             else Ok (Some J)))"

definition journal_status :: "journal \<Rightarrow> pub_status" where
  "journal_status J =
     (let path = (\<lambda>i. if i < length (ri_entries (jo_review J)) then Some (en_path (ri_entries (jo_review J) ! i))
                      else None)
      in \<lparr>ps_state = jo_state J, ps_undoing = jo_undo J,
           ps_conflict = (if jo_state J = WConflict then path (jo_next J) else None),
           ps_kept = concat (map (\<lambda>i. case path i of None \<Rightarrow> [] | Some p \<Rightarrow> [p]) (sorted_list_of_set (jo_kept J)))\<rparr>)"

definition journal_changed :: "journal \<Rightarrow> diff" where
  "journal_changed J = \<lparr>df_changes = map snd (filter (\<lambda>(rang, c). rang \<notin> jo_kept J)
     (enumerate 0 (df_changes (index_diff (jo_review J)))))\<rparr>"

definition pub_status_of :: "pub_env \<Rightarrow> string \<Rightarrow> disk \<Rightarrow> pub_error + pub_status option" where
  "pub_status_of E task d = map_sum id (map_option journal_status) (read_journal E task d)"

section \<open>Copies\<close>

datatype area = InRestore | InPublished | InSlots

definition area_of :: "area \<Rightarrow> disk \<Rightarrow> tree" where
  "area_of a d = (case a of InRestore \<Rightarrow> dk_restore d | InPublished \<Rightarrow> dk_published d | InSlots \<Rightarrow> dk_slots d)"

definition set_area :: "area \<Rightarrow> tree \<Rightarrow> disk \<Rightarrow> disk" where
  "set_area a m d = (case a of InRestore \<Rightarrow> d\<lparr>dk_restore := m\<rparr> | InPublished \<Rightarrow> d\<lparr>dk_published := m\<rparr>
     | InSlots \<Rightarrow> d\<lparr>dk_slots := m\<rparr>)"

datatype copy_policy = CopyOriginal | CopyProposed | CopyFrozen

text \<open>The file a copy writes: the bytes of its source, the mode and metadata asked for.\<close>

definition copied_node :: "pub_env \<Rightarrow> disk \<Rightarrow> fingerprint \<Rightarrow> fingerprint \<Rightarrow> metadata \<Rightarrow> node" where
  "copied_node E d source expected md = \<lparr>nd_id = \<lparr>fi_device = pe_device E, fi_inode = dk_inode d\<rparr>,
     nd_kind = Regular \<lparr>fp_hash = fp_hash source, fp_size = fp_size source, fp_mode = 32768 + fp_mode expected mod 512\<rparr>,
     nd_open = True, nd_meta = Some md\<rparr>"

text \<open>
  The version that is already there: \<open>Ok True\<close> when it is the one asked for, \<open>Ok False\<close> when the copy is
  to be made.
\<close>

definition prior_copy :: "tree \<Rightarrow> path \<Rightarrow> fingerprint \<Rightarrow> metadata \<Rightarrow> copy_policy \<Rightarrow> pub_error + bool" where
  "prior_copy target destination expected md policy =
     (case file_id_at target destination of
        Inl e \<Rightarrow> Err e
      | Inr None \<Rightarrow> Ok False
      | Inr (Some _) \<Rightarrow>
          if Option.bind (target destination) nd_version = None then Err (Conflict destination)
          else (case (case check_version target destination (Some expected) of
                   Inl e \<Rightarrow> Err e | Inr _ \<Rightarrow> meta_check target destination md) of
                  Inr _ \<Rightarrow> Ok True
                | Inl e \<Rightarrow> if policy = CopyFrozen then Err e else Ok False))"

definition copy_source :: "tree \<Rightarrow> path \<Rightarrow> fingerprint \<Rightarrow> pub_error + fingerprint" where
  "copy_source source p expected = (if blocked source p then Err (Refused p) else case source p of
     None \<Rightarrow> Err (NotFound p)
   | Some n \<Rightarrow> if \<not> nd_open n then Err (Refused p)
       else (case nd_version n of
           None \<Rightarrow> Err (Conflict p)
         | Some v \<Rightarrow> if fp_size v \<noteq> fp_size expected then Err (Conflict p) else Ok v))"

definition meta_check_if :: "bool \<Rightarrow> tree \<Rightarrow> path \<Rightarrow> metadata \<Rightarrow> pub_error + unit" where
  "meta_check_if b m p md = (if b then meta_check m p md else Ok ())"

text \<open>The new file takes the place of the old one, and is read again.\<close>

definition store_copy :: "area \<Rightarrow> path \<Rightarrow> node \<Rightarrow> unit io" where
  "store_copy a destination n = change_io (\<lambda>d. (set_area a ((area_of a d)(destination \<mapsto> n)) d)
     \<lparr>dk_inode := dk_inode d + 1,
      dk_orphans := dk_orphans d @ (case area_of a d destination of None \<Rightarrow> [] | Some old \<Rightarrow> [old])\<rparr>)"

definition write_copy :: "pub_env \<Rightarrow> area \<Rightarrow> path \<Rightarrow> fingerprint \<Rightarrow> fingerprint \<Rightarrow> metadata \<Rightarrow> unit io" where
  "write_copy E a destination source expected md =
     bind_io (read_io (\<lambda>d. let n = copied_node E d source expected md
         in if nd_version n = Some expected then Ok n else Err (Conflict destination))) (\<lambda>n.
       then_io (store_copy a destination n)
       (then_io (read_io (\<lambda>d. check_version (area_of a d) destination (Some expected)))
         (read_io (\<lambda>d. meta_check (area_of a d) destination md))))"

definition copy_version :: "pub_env \<Rightarrow> tree \<Rightarrow> path \<Rightarrow> area \<Rightarrow> path \<Rightarrow> fingerprint \<Rightarrow> metadata
    \<Rightarrow> copy_policy \<Rightarrow> unit io" where
  "copy_version E source p a destination expected md policy =
     then_io (read_io (\<lambda>d. meta_check_if (policy \<noteq> CopyProposed) source p md))
     (bind_io (read_io (\<lambda>d. prior_copy (area_of a d) destination expected md policy)) (\<lambda>already.
        if already then return_io ()
        else bind_io (read_io (\<lambda>d. copy_source source p expected)) (\<lambda>v.
          then_io (read_io (\<lambda>d. meta_check_if (policy \<noteq> CopyProposed) source p md))
          (then_io (checkpoint E CopySynced) (write_copy E a destination v expected md)))))"

section \<open>One step\<close>

definition versions_of :: "entry \<Rightarrow> bool \<Rightarrow> fingerprint option \<times> fingerprint option" where
  "versions_of e undo = (if undo then (en_after e, en_before e) else (en_before e, en_after e))"

definition metas_of :: "meta_pair \<Rightarrow> bool \<Rightarrow> metadata option \<times> metadata option" where
  "metas_of m undo = (if undo then (mp_after m, mp_before m) else (mp_before m, mp_after m))"

definition slot_of :: "bool \<Rightarrow> nat \<Rightarrow> path" where
  "slot_of undo n = [(if undo then ''undo-'' else ''apply-'') @ show_nat n]"

definition require :: "pub_refusal \<Rightarrow> 'a option \<Rightarrow> pub_error + 'a" where
  "require r x = (case x of None \<Rightarrow> Err (Invalid r) | Some y \<Rightarrow> Ok y)"

text \<open>The directory of a path of the documents: opened, and made when asked for.\<close>

definition new_dir :: "pub_env \<Rightarrow> disk \<Rightarrow> node" where
  "new_dir E d = \<lparr>nd_id = \<lparr>fi_device = pe_device E, fi_inode = dk_inode d\<rparr>, nd_kind = Directory, nd_open = True,
     nd_meta = None\<rparr>"

fun open_dirs :: "pub_env \<Rightarrow> path \<Rightarrow> bool \<Rightarrow> path list \<Rightarrow> unit io" where
  "open_dirs E p create [] = return_io ()"
| "open_dirs E p create (q # qs) =
     bind_io (read_io (\<lambda>d. if is_dir_at (dk_home d) q then Ok False
          else if dk_home d q \<noteq> None then Err (Refused p)
          else if create then Ok True else Err (NotFound p))) (\<lambda>make.
       then_io (change_io (\<lambda>d. if make then d\<lparr>dk_home := (dk_home d)(q \<mapsto> new_dir E d), dk_inode := dk_inode d + 1\<rparr>
                              else d))
         (open_dirs E p create qs))"

definition parent_dir :: "pub_env \<Rightarrow> path \<Rightarrow> bool \<Rightarrow> unit io" where
  "parent_dir E p create = (if \<not> valid_path p then fail_io (Invalid BadParent) else open_dirs E p create (above p))"

text \<open>
  The change of names between the document and its slot: an exchange, or a move that refuses to
  replace. It looks at no version: whatever is there goes to the other side.
\<close>

definition exchange_names :: "bool \<Rightarrow> bool \<Rightarrow> path \<Rightarrow> path \<Rightarrow> unit io" where
  "exchange_names had has p slot =
     (if had \<and> has then
        then_io (read_io (\<lambda>d. if dk_slots d slot = None then Err (NotFound slot)
                     else if dk_home d p = None then Err (NotFound p) else Ok ()))
          (change_io (\<lambda>d. d\<lparr>dk_home := (dk_home d)(p := dk_slots d slot),
                              dk_slots := (dk_slots d)(slot := dk_home d p)\<rparr>))
      else if has then
        then_io (read_io (\<lambda>d. if dk_slots d slot = None then Err (NotFound slot)
                     else if dk_home d p \<noteq> None then Err (Conflict p) else Ok ()))
          (change_io (\<lambda>d. d\<lparr>dk_home := (dk_home d)(p := dk_slots d slot),
                              dk_slots := (dk_slots d)(slot := None)\<rparr>))
      else if had then
        then_io (read_io (\<lambda>d. if dk_home d p = None then Err (NotFound p)
                     else if dk_slots d slot \<noteq> None then Err (Conflict slot) else Ok ()))
          (change_io (\<lambda>d. d\<lparr>dk_slots := (dk_slots d)(slot := dk_home d p),
                              dk_home := (dk_home d)(p := None)\<rparr>))
      else fail_io (Invalid EmptyChange))"

text \<open>The first half of a step: the copy in the slot and the intention in the journal.\<close>

definition prepare_step :: "pub_env \<Rightarrow> journal \<Rightarrow> journal io" where
  "prepare_step E J =
     (let e = ri_entries (jo_review J) ! jo_next J; pair = jo_metadata J ! jo_next J;
          (expected, proposed) = versions_of e (jo_undo J); (emd, pmd) = metas_of pair (jo_undo J);
          slot = slot_of (jo_undo J) (jo_next J)
      in if jo_pending J \<noteq> None then return_io J
         else bind_io (read_io (\<lambda>d. check_version (dk_home d) (en_path e) expected)) (\<lambda>original.
           then_io (read_io (\<lambda>d. meta_check_opt (dk_home d) (en_path e) emd))
           (then_io (case proposed of
                Some v \<Rightarrow> bind_io (read_io (\<lambda>d. require MetadataMissing pmd)) (\<lambda>md.
                  bind_io (read_io (\<lambda>d. Ok (if jo_undo J then dk_restore d else dk_published d))) (\<lambda>source.
                    copy_version E source (en_path e) InSlots slot v md CopyFrozen))
              | None \<Rightarrow> read_io (\<lambda>d. case file_id_at (dk_slots d) slot of
                    Inl err \<Rightarrow> Err err | Inr None \<Rightarrow> Ok () | Inr (Some _) \<Rightarrow> Err (Conflict (en_path e))))
           (then_io (checkpoint E SlotSynced)
           (bind_io (read_io (\<lambda>d. file_id_at (dk_slots d) slot)) (\<lambda>at_slot.
              let J' = J\<lparr>jo_pending := Some \<lparr>pm_original = original, pm_proposed = at_slot\<rparr>\<rparr>
              in then_io (save_journal E J') (then_io (checkpoint E IntentSynced) (return_io J'))))))))"

text \<open>Both names hold what they should: identities as given, versions and metadata as expected.\<close>

definition check_sides :: "path \<Rightarrow> path \<Rightarrow> fingerprint option \<Rightarrow> fingerprint option \<Rightarrow> metadata option
    \<Rightarrow> metadata option \<Rightarrow> unit io" where
  "check_sides p slot at_home at_slot home_md slot_md =
     then_io (read_io (\<lambda>d. check_version (dk_home d) p at_home))
     (then_io (read_io (\<lambda>d. check_version (dk_slots d) slot at_slot))
     (then_io (read_io (\<lambda>d. meta_check_opt (dk_home d) p home_md))
       (read_io (\<lambda>d. meta_check_opt (dk_slots d) slot slot_md))))"

text \<open>The second half: the change of names, unless a killed run has done it, and the checks after it.\<close>

definition make_move :: "pub_env \<Rightarrow> journal \<Rightarrow> pending_move \<Rightarrow> unit io" where
  "make_move E J m =
     (let e = ri_entries (jo_review J) ! jo_next J; pair = jo_metadata J ! jo_next J;
          (expected, proposed) = versions_of e (jo_undo J); (emd, pmd) = metas_of pair (jo_undo J);
          slot = slot_of (jo_undo J) (jo_next J); p = en_path e
      in bind_io (read_io (\<lambda>d. file_id_at (dk_home d) p)) (\<lambda>at_target.
         bind_io (read_io (\<lambda>d. file_id_at (dk_slots d) slot)) (\<lambda>at_slot.
           if at_target = pm_original m \<and> at_slot = pm_proposed m
           then then_io (check_sides p slot expected proposed emd pmd)
             (then_io (checkpoint E BeforeRename)
             (then_io (exchange_names (expected \<noteq> None) (proposed \<noteq> None) p slot)
               (checkpoint E NameChanged)))
           else if at_target \<noteq> pm_proposed m \<or> at_slot \<noteq> pm_original m then fail_io (Conflict p)
           else return_io ())))"

definition confirm_move :: "pub_env \<Rightarrow> journal \<Rightarrow> pending_move \<Rightarrow> unit io" where
  "confirm_move E J m =
     (let e = ri_entries (jo_review J) ! jo_next J; pair = jo_metadata J ! jo_next J;
          (expected, proposed) = versions_of e (jo_undo J); (emd, pmd) = metas_of pair (jo_undo J);
          slot = slot_of (jo_undo J) (jo_next J); p = en_path e
      in then_io (checkpoint E DirectoriesSynced)
         (bind_io (read_io (\<lambda>d. file_id_at (dk_home d) p)) (\<lambda>at_target.
          bind_io (read_io (\<lambda>d. file_id_at (dk_slots d) slot)) (\<lambda>at_slot.
            if at_target \<noteq> pm_proposed m \<or> at_slot \<noteq> pm_original m then fail_io (Conflict p)
            else then_io (read_io (\<lambda>d. check_version (dk_slots d) slot expected))
              (then_io (read_io (\<lambda>d. check_version (dk_home d) p proposed))
              (then_io (read_io (\<lambda>d. meta_check_opt (dk_slots d) slot emd))
                (read_io (\<lambda>d. meta_check_opt (dk_home d) p pmd))))))))"

definition move_step :: "pub_env \<Rightarrow> journal \<Rightarrow> unit io" where
  "move_step E J =
     (let e = ri_entries (jo_review J) ! jo_next J
      in bind_io (read_io (\<lambda>d. require IntentMissing (jo_pending J))) (\<lambda>m.
         then_io (parent_dir E (en_path e) (snd (versions_of e (jo_undo J)) \<noteq> None))
           (then_io (make_move E J m) (confirm_move E J m))))"

section \<open>The batch\<close>

definition catch_io :: "'a io \<Rightarrow> (pub_error \<Rightarrow> 'a io) \<Rightarrow> 'a io" where
  "catch_io m handler d = (case m d of (d', Failed e) \<Rightarrow> handler e d' | r \<Rightarrow> r)"

definition stop_on_conflict :: "pub_env \<Rightarrow> journal \<Rightarrow> pub_error \<Rightarrow> 'a io" where
  "stop_on_conflict E J e = then_io (save_journal E (J\<lparr>jo_state := WConflict\<rparr>)) (fail_io e)"

definition pub_step :: "pub_env \<Rightarrow> journal \<Rightarrow> journal io" where
  "pub_step E J = bind_io (catch_io (prepare_step E J) (stop_on_conflict E J)) (\<lambda>J'.
     catch_io (then_io (move_step E J') (return_io J')) (stop_on_conflict E J'))"

definition next_entry :: "journal \<Rightarrow> journal" where
  "next_entry J = J\<lparr>jo_next := jo_next J + 1, jo_pending := None\<rparr>"

definition pub_finish :: "pub_env \<Rightarrow> journal \<Rightarrow> diff io" where
  "pub_finish E J =
     (let J' = J\<lparr>jo_state := (if jo_undo J then WRolledBack else WCommitted)\<rparr>
      in then_io (save_journal E J') (then_io (checkpoint E JournalFinished) (return_io (journal_changed J'))))"

text \<open>The loop, with the number of entries left; a file left to the human keeps its pending mark.\<close>

fun pub_run_from :: "pub_env \<Rightarrow> nat \<Rightarrow> journal \<Rightarrow> diff io" where
  "pub_run_from E 0 J = pub_finish E J"
| "pub_run_from E (Suc k) J =
     (if jo_next J \<in> jo_kept J then pub_run_from E k (J\<lparr>jo_next := jo_next J + 1\<rparr>)
      else bind_io (pub_step E J) (\<lambda>J'.
        then_io (save_journal E (next_entry J'))
        (then_io (checkpoint E StepRecorded) (pub_run_from E k (next_entry J')))))"

definition pub_run :: "pub_env \<Rightarrow> journal \<Rightarrow> diff io" where
  "pub_run E J = pub_run_from E (length (ri_entries (jo_review J)) - jo_next J) J"

section \<open>Before the first change\<close>

definition preflight_entry :: "disk \<Rightarrow> bool \<Rightarrow> entry \<Rightarrow> meta_pair \<Rightarrow> pub_error + unit" where
  "preflight_entry d undo e m =
     (case check_version (dk_home d) (en_path e) (fst (versions_of e undo)) of
        Inl err \<Rightarrow> Err err | Inr _ \<Rightarrow> meta_check_opt (dk_home d) (en_path e) (fst (metas_of m undo)))"

definition preflight_copy :: "tree \<Rightarrow> path \<Rightarrow> fingerprint option \<Rightarrow> metadata option \<Rightarrow> pub_error + unit" where
  "preflight_copy m p v md = (case v of
     None \<Rightarrow> Ok ()
   | Some _ \<Rightarrow> (case check_version m p v of
        Inl e \<Rightarrow> Err e
      | Inr _ \<Rightarrow> (case md of None \<Rightarrow> Err (Invalid MetadataMissing) | Some x \<Rightarrow> meta_check m p x)))"

fun preflight :: "disk \<Rightarrow> bool \<Rightarrow> bool \<Rightarrow> nat \<Rightarrow> (entry \<times> meta_pair) list \<Rightarrow> nat set \<Rightarrow> pub_error + nat set" where
  "preflight d undo keep_changed rang [] kept = Ok kept"
| "preflight d undo keep_changed rang ((e, m) # es) kept =
     (if rang \<in> kept then preflight d undo keep_changed (rang + 1) es kept
      else (case preflight_entry d undo e m of
          Inl err \<Rightarrow> if keep_changed then preflight d undo keep_changed (rang + 1) es (insert rang kept)
                    else Err err
        | Inr _ \<Rightarrow>
            (case preflight_copy (dk_restore d) (en_path e) (en_before e) (mp_before m) of
               Inl err \<Rightarrow> Err err
             | Inr _ \<Rightarrow> (case preflight_copy (dk_published d) (en_path e) (en_after e) (mp_after m) of
                   Inl err \<Rightarrow> Err err | Inr _ \<Rightarrow> preflight d undo keep_changed (rang + 1) es kept))))"

definition entry_metadata :: "pub_env \<Rightarrow> publication_provenance option \<Rightarrow> entry \<Rightarrow> disk \<Rightarrow> pub_error + meta_pair" where
  "entry_metadata E provenance e d =
     (case (case en_before e of None \<Rightarrow> Ok None
            | Some _ \<Rightarrow> map_sum id Some (meta_read (dk_home d) (en_path e))) of
        Inl err \<Rightarrow> Err err
      | Inr initial \<Rightarrow>
          (case (case en_after e of None \<Rightarrow> Ok None
                 | Some v \<Rightarrow> map_sum id Some (proposed_meta (pe_dir_meta E) (pe_home_uid E) (dk_home d)
                     (dk_work d) (en_path e) (fp_mode v) initial provenance)) of
             Inl err \<Rightarrow> Err err
           | Inr proposed \<Rightarrow> Ok \<lparr>mp_before = initial, mp_after = proposed\<rparr>))"

definition copy_opt :: "pub_env \<Rightarrow> (disk \<Rightarrow> tree) \<Rightarrow> path \<Rightarrow> area \<Rightarrow> fingerprint option \<Rightarrow> metadata option
    \<Rightarrow> copy_policy \<Rightarrow> unit io" where
  "copy_opt E source p a v md policy = (case v of
     None \<Rightarrow> return_io ()
   | Some version \<Rightarrow> bind_io (read_io (\<lambda>d. require MetadataMissing md)) (\<lambda>x.
       bind_io (read_io (\<lambda>d. Ok (source d))) (\<lambda>m. copy_version E m p a p version x policy)))"

text \<open>The copies of the whole batch, with the metadata of each entry.\<close>

fun prepare_copies :: "pub_env \<Rightarrow> publication_provenance option \<Rightarrow> entry list \<Rightarrow> meta_pair list io" where
  "prepare_copies E provenance [] = return_io []"
| "prepare_copies E provenance (e # es) =
     bind_io (read_io (entry_metadata E provenance e)) (\<lambda>m.
       then_io (copy_opt E dk_home (en_path e) InRestore (en_before e) (mp_before m) CopyOriginal)
       (then_io (copy_opt E dk_work (en_path e) InPublished (en_after e) (mp_after m) CopyProposed)
       (bind_io (prepare_copies E provenance es) (\<lambda>ms. return_io (m # ms)))))"

fun check_batch :: "entry list \<Rightarrow> disk \<Rightarrow> pub_error + unit" where
  "check_batch [] d = Ok ()"
| "check_batch (e # es) d =
     (case check_version (dk_home d) (en_path e) (en_before e) of
        Inl err \<Rightarrow> Err err
      | Inr _ \<Rightarrow> (case check_version (dk_work d) (en_path e) (en_after e) of
          Inl err \<Rightarrow> Err err | Inr _ \<Rightarrow> check_batch es d))"

definition new_journal :: "pub_env \<Rightarrow> string \<Rightarrow> pub_manifest \<Rightarrow> int \<Rightarrow> journal" where
  "new_journal E task m now = \<lparr>jo_version = 1, jo_task = task, jo_review_hash = pe_digest_manifest E m,
     jo_state = WApplying, jo_committed = now, jo_undo = False, jo_next = 0, jo_pending = None, jo_kept = {},
     jo_review = pf_review m, jo_metadata = pf_metadata m\<rparr>"

definition lift_refusal :: "pub_refusal + 'a \<Rightarrow> pub_error + 'a" where
  "lift_refusal r = map_sum Invalid id r"

definition pub_apply :: "pub_env \<Rightarrow> string \<Rightarrow> review_index \<Rightarrow> int \<Rightarrow> publication_provenance option \<Rightarrow> diff io" where
  "pub_apply E task review now provenance =
     then_io (read_io (\<lambda>d. lift_refusal (validate_review review)))
     (bind_io (read_io (read_journal E task)) (\<lambda>existing.
        if existing \<noteq> None then fail_io (Invalid AlreadyPublished)
        else then_io (read_io (check_batch (ri_entries review)))
          (bind_io (prepare_copies E provenance (ri_entries review)) (\<lambda>metadata.
            then_io (read_io (\<lambda>d. preflight d False False 0 (zip (ri_entries review) metadata) {}))
            (let m = \<lparr>pf_review = review, pf_metadata = metadata\<rparr>; J = new_journal E task m now
             in if pe_too_large E m then fail_io (Invalid RecordTooLarge)
                else then_io (change_io (\<lambda>d. d\<lparr>dk_review := Some m\<rparr>))
                  (then_io (save_journal E J) (then_io (checkpoint E JournalStart) (pub_run E J))))))))"

section \<open>Undoing, resuming, deciding\<close>

definition existing_journal :: "pub_env \<Rightarrow> string \<Rightarrow> pub_refusal \<Rightarrow> disk \<Rightarrow> pub_error + journal" where
  "existing_journal E task r d = (case read_journal E task d of
     Inl e \<Rightarrow> Err e | Inr x \<Rightarrow> require r x)"

definition pub_undo :: "pub_env \<Rightarrow> string \<Rightarrow> bool \<Rightarrow> diff io" where
  "pub_undo E task keep_changed =
     bind_io (read_io (existing_journal E task NoVerifiableJournal)) (\<lambda>J.
       if jo_state J \<noteq> WCommitted then fail_io (Invalid WrongStateForUndo)
       else bind_io (read_io (\<lambda>d. preflight d True keep_changed 0
           (zip (ri_entries (jo_review J)) (jo_metadata J)) (jo_kept J))) (\<lambda>kept.
         if card kept = length (ri_entries (jo_review J)) then fail_io (Invalid AllChanged)
         else let J' = J\<lparr>jo_kept := kept, jo_undo := True, jo_next := 0, jo_pending := None, jo_state := WUndoing\<rparr>
           in then_io (save_journal E J') (then_io (checkpoint E JournalStart) (pub_run E J'))))"

definition pub_recover :: "pub_env \<Rightarrow> string \<Rightarrow> diff io" where
  "pub_recover E task =
     bind_io (read_io (existing_journal E task NothingToRecover)) (\<lambda>J.
       if jo_state J \<in> {WCommitted, WRolledBack} then return_io (journal_changed J) else pub_run E J)"

datatype resolution = KeepMine | RollBack

definition file_version :: "tree \<Rightarrow> path \<Rightarrow> pub_error + fingerprint option" where
  "file_version m p = (case file_id_at m p of
     Inl e \<Rightarrow> Err e | Inr None \<Rightarrow> Ok None | Inr (Some _) \<Rightarrow> map_sum id Some (inspect_file m p))"

definition pub_settle :: "pub_env \<Rightarrow> journal \<Rightarrow> bool io" where
  "pub_settle E J =
     (let e = ri_entries (jo_review J) ! jo_next J; (expected, proposed) = versions_of e (jo_undo J);
          slot = slot_of (jo_undo J) (jo_next J); p = en_path e
      in case jo_pending J of
           None \<Rightarrow> return_io False
         | Some m \<Rightarrow>
             bind_io (catch_io (then_io (parent_dir E p False) (return_io True))
               (\<lambda>err. case err of NotFound _ \<Rightarrow> return_io False | _ \<Rightarrow> fail_io err)) (\<lambda>found.
             if \<not> found then return_io False
             else bind_io (read_io (\<lambda>d. file_id_at (dk_home d) p)) (\<lambda>at_target.
               bind_io (read_io (\<lambda>d. file_id_at (dk_slots d) slot)) (\<lambda>at_slot.
                 if at_target \<noteq> pm_proposed m \<or> at_slot \<noteq> pm_original m then return_io False
                 else bind_io (read_io (\<lambda>d. file_version (dk_home d) p)) (\<lambda>arrived.
                   bind_io (read_io (\<lambda>d. file_version (dk_slots d) slot)) (\<lambda>departed.
                     if arrived \<noteq> proposed then return_io False
                     else if departed = expected then return_io True
                     else if expected = None then return_io False
                     else then_io (exchange_names (proposed \<noteq> None) True p slot)
                       (return_io False)))))))"

definition pub_resolve :: "pub_env \<Rightarrow> string \<Rightarrow> resolution \<Rightarrow> diff io" where
  "pub_resolve E task choice =
     bind_io (read_io (existing_journal E task NoDecisionAwaited)) (\<lambda>J.
       let n = length (ri_entries (jo_review J)); rang = jo_next J
       in if jo_state J \<noteq> WConflict \<or> n \<le> rang then fail_io (Invalid NoDecisionAwaited)
          else if choice = RollBack \<and> jo_undo J then fail_io (Invalid UndoCannotBeUndone)
          else bind_io (pub_settle E J) (\<lambda>done.
            then_io (checkpoint E SettleDone)
            (let J1 = J\<lparr>jo_kept := (if done then jo_kept J else insert rang (jo_kept J)),
                       jo_pending := None, jo_next := rang + 1\<rparr>;
                 J2 = (case choice of
                    KeepMine \<Rightarrow> J1\<lparr>jo_state := (if jo_undo J then WUndoing else WApplying)\<rparr>
                  | RollBack \<Rightarrow> J1\<lparr>jo_kept := jo_kept J1 \<union> {rang + 1..<n}, jo_undo := True, jo_next := 0,
                      jo_state := WUndoing\<rparr>)
             in then_io (save_journal E J2) (then_io (checkpoint E ResolutionRecorded) (pub_run E J2)))))"

text \<open>What a client asks of a workspace, and a life of it: a request may end with the process killed.\<close>

datatype pub_request = AskApply review_index int "publication_provenance option" | AskUndo bool
  | AskRecover | AskResolve resolution

fun pub_serve :: "pub_env \<Rightarrow> string \<Rightarrow> pub_request \<Rightarrow> diff io" where
  "pub_serve E task (AskApply review now provenance) = pub_apply E task review now provenance"
| "pub_serve E task (AskUndo keep_changed) = pub_undo E task keep_changed"
| "pub_serve E task AskRecover = pub_recover E task"
| "pub_serve E task (AskResolve choice) = pub_resolve E task choice"

definition pub_life :: "pub_env \<Rightarrow> string \<Rightarrow> pub_request list \<Rightarrow> disk \<Rightarrow> disk" where
  "pub_life E task rs d = foldl (\<lambda>d r. fst (pub_serve E task r d)) d rs"

end
