(* ===== verification/Publication_Safe.thy ===== *)
theory Publication_Safe
  imports Publication
begin

text \<open>
  Reasoning about publication. A weakest precondition with three postconditions: what holds when an
  operation returns, when it fails, and on the disk a killed process leaves. Then the first use: what
  belongs to the human is never lost.
\<close>

section \<open>Weakest preconditions\<close>

definition wp :: "'a io \<Rightarrow> ('a \<Rightarrow> disk \<Rightarrow> bool) \<Rightarrow> (pub_error \<Rightarrow> disk \<Rightarrow> bool) \<Rightarrow> (disk \<Rightarrow> bool) \<Rightarrow> disk \<Rightarrow> bool" where
  "wp m Q F C d = (case m d of
     (d', Returned x) \<Rightarrow> Q x d' | (d', Failed e) \<Rightarrow> F e d' | (d', Killed) \<Rightarrow> C d')"

lemma wp_return [simp]: "wp (return_io x) Q F C d = Q x d"
  by (simp add: wp_def return_io_def)

lemma wp_fail [simp]: "wp (fail_io e) Q F C d = F e d"
  by (simp add: wp_def fail_io_def)

lemma wp_bind [simp]: "wp (bind_io m f) Q F C d = wp m (\<lambda>x. wp (f x) Q F C) F C d"
  by (simp add: wp_def bind_io_def split: prod.splits outcome.splits)

lemma wp_then [simp]: "wp (then_io m k) Q F C d = wp m (\<lambda>_. wp k Q F C) F C d"
  by (simp add: then_io_def)

lemma wp_read [simp]: "wp (read_io f) Q F C d = (case f d of Inl e \<Rightarrow> F e d | Inr x \<Rightarrow> Q x d)"
  by (simp add: wp_def read_io_def split: sum.splits)

lemma wp_change [simp]: "wp (change_io f) Q F C d = Q () (f d)"
  by (simp add: wp_def change_io_def)

lemma wp_catch [simp]: "wp (catch_io m h) Q F C d = wp m Q (\<lambda>e. wp (h e) Q F C) C d"
  by (simp add: wp_def catch_io_def split: prod.splits outcome.splits)

lemma wp_checkpoint: "wp (checkpoint E c) Q F C d = (case pe_hook E (length (dk_trace d)) c (dk_home d) of
    None \<Rightarrow> C d | Some h \<Rightarrow> Q () (d\<lparr>dk_home := h, dk_trace := dk_trace d @ [h]\<rparr>))"
  by (simp add: wp_def checkpoint_def split: option.splits)

lemma wp_save [simp]: "wp (save_journal E J) Q F C d =
    Q () (d\<lparr>dk_record := Some (cursor.truncate J, pe_digest_cursor E (cursor.truncate J))\<rparr>)"
  by (simp add: save_journal_def)

lemma wp_mono:
  assumes "wp m Q F C d" "\<And>x d'. Q x d' \<Longrightarrow> Q' x d'" "\<And>e d'. F e d' \<Longrightarrow> F' e d'" "\<And>d'. C d' \<Longrightarrow> C' d'"
  shows "wp m Q' F' C' d"
  using assms by (auto simp: wp_def split: prod.splits outcome.splits)

lemma wp_fun: "wp (bind_io m f) Q F C = wp m (\<lambda>x. wp (f x) Q F C) F C" "wp (then_io m k) Q F C = wp m (\<lambda>_. wp k Q F C) F C"
    "wp (return_io x) Q F C = Q x"
  by (simp_all add: fun_eq_iff)

lemma wp_run: "wp m Q F C d \<Longrightarrow> m d = (d', out) \<Longrightarrow>
    (case out of Returned x \<Rightarrow> Q x d' | Failed e \<Rightarrow> F e d' | Killed \<Rightarrow> C d')"
  by (simp add: wp_def split: outcome.splits)

text \<open>A law of the disk: it holds before and after, and \<open>C\<close> holds of what a killed process leaves.\<close>

definition keeps :: "(disk \<Rightarrow> bool) \<Rightarrow> (disk \<Rightarrow> bool) \<Rightarrow> 'a io \<Rightarrow> bool" where
  "keeps I C m \<longleftrightarrow> (\<forall>d. I d \<longrightarrow> wp m (\<lambda>_. I) (\<lambda>_. I) C d)"

named_theorems keep

lemma keepsD: "keeps I C m \<Longrightarrow> I d \<Longrightarrow> wp m (\<lambda>_. I) (\<lambda>_. I) C d"
  by (simp add: keeps_def)

lemma keeps_return [keep]: "keeps I C (return_io x)"
  by (simp add: keeps_def)

lemma keeps_fail [keep]: "keeps I C (fail_io e)"
  by (simp add: keeps_def)

lemma keeps_read [keep]: "keeps I C (read_io f)"
  by (simp add: keeps_def split: sum.splits)

lemma keeps_bind [keep]: "keeps I C m \<Longrightarrow> (\<And>x. keeps I C (f x)) \<Longrightarrow> keeps I C (bind_io m f)"
  unfolding keeps_def wp_bind by (blast intro: wp_mono)

lemma keeps_then [keep]: "keeps I C m \<Longrightarrow> keeps I C k \<Longrightarrow> keeps I C (then_io m k)"
  by (simp add: then_io_def keeps_bind)

lemma keeps_catch [keep]: "keeps I C m \<Longrightarrow> (\<And>e. keeps I C (h e)) \<Longrightarrow> keeps I C (catch_io m h)"
  unfolding keeps_def wp_catch by (blast intro: wp_mono)

lemma keeps_change: "(\<And>d. I d \<Longrightarrow> I (f d)) \<Longrightarrow> keeps I C (change_io f)"
  by (simp add: keeps_def)

lemma keeps_if [keep]: "keeps I C m \<Longrightarrow> keeps I C k \<Longrightarrow> keeps I C (if b then m else k)"
  by simp

lemma wp_fst: "wp m (\<lambda>_. I) (\<lambda>_. I) I d \<Longrightarrow> I (fst (m d))"
  by (simp add: wp_def split: prod.splits outcome.splits)

lemma keeps_fst: "keeps I I m \<Longrightarrow> I d \<Longrightarrow> I (fst (m d))"
  by (rule wp_fst) (rule keepsD)

text \<open>A copy writes nothing over a slot: it finds it empty, or finds its own file there.\<close>

lemma prior_frozen: "prior_copy t q v md CopyFrozen = Ok False \<Longrightarrow> t q = None"
  by (auto simp: prior_copy_def file_id_at_def split: option.splits sum.splits if_splits)

section \<open>Laws of the disk\<close>

text \<open>
  What the operations rest on: a law kept by each elementary change of the disk (a checkpoint, a saved
  journal, a new directory, a stored copy, a change of names) is kept by every request.
\<close>

locale disk_law =
  fixes E :: pub_env and I :: "disk \<Rightarrow> bool" and C :: "disk \<Rightarrow> bool"
  assumes at_checkpoint [keep]: "keeps I C (checkpoint E c)"
    and on_save [keep]: "keeps I C (save_journal E J)"
    and on_review [keep]: "keeps I C (change_io (dk_review_update (\<lambda>_. m)))"
    and on_new_dir: "I d \<Longrightarrow> dk_home d q = None
       \<Longrightarrow> I (d\<lparr>dk_home := (dk_home d)(q \<mapsto> new_dir E d), dk_inode := dk_inode d + 1\<rparr>)"
    and on_exchange [keep]: "keeps I C (exchange_names had has p slot)"
    and on_store: "I d \<Longrightarrow> a = InSlots \<longrightarrow> dk_slots d q = None \<Longrightarrow> wp (store_copy a q n) (\<lambda>_. I) (\<lambda>_. I) C d"
begin

lemma write_kept:
  assumes "I d" "a = InSlots \<longrightarrow> dk_slots d q = None"
  shows "wp (write_copy E a q w v md) (\<lambda>_. I) (\<lambda>_. I) C d"
  unfolding write_copy_def
  using assms by (auto simp: Let_def intro!: wp_mono [OF on_store] split: sum.splits)

lemma copy_kept [keep]:
  assumes "a = InSlots \<longrightarrow> policy = CopyFrozen"
  shows "keeps I C (copy_version E source p a q v md policy)"
proof -
  have "wp (copy_version E source p a q v md policy) (\<lambda>_. I) (\<lambda>_. I) C d" if d: "I d" for d
  proof -
    have hook: "case pe_hook E (length (dk_trace d)) CopySynced (dk_home d) of None \<Rightarrow> C d
        | Some h \<Rightarrow> I (d\<lparr>dk_home := h, dk_trace := dk_trace d @ [h]\<rparr>)"
      using keepsD [OF at_checkpoint [of CopySynced] d] by (simp add: wp_checkpoint)
    have empty: "dk_slots d q = None" if "prior_copy (area_of InSlots d) q v md policy = Ok False" "a = InSlots"
      using that assms prior_frozen by (auto simp: area_of_def)
    show ?thesis
      unfolding copy_version_def
      using d hook by (auto simp: wp_checkpoint intro: empty intro!: write_kept
          split: sum.splits option.splits)
  qed
  then show ?thesis by (simp add: keeps_def)
qed

lemma dirs_kept [keep]: "keeps I C (open_dirs E p create qs)"
proof (induction qs)
  case (Cons q qs)
  have "wp (open_dirs E p create (q # qs)) (\<lambda>_. I) (\<lambda>_. I) C d" if d: "I d" for d
    using d on_new_dir [OF d] keepsD [OF Cons.IH]
    by (cases create) (simp_all add: is_dir_at_def split: option.splits)
  then show ?case by (simp add: keeps_def)
qed (simp add: keep)

lemma parent_kept [keep]: "keeps I C (parent_dir E p create)"
  by (simp add: parent_dir_def keep)

lemma prepare_kept [keep]: "keeps I C (prepare_step E J)"
  unfolding prepare_step_def Let_def
  by (auto intro!: keep split: prod.split option.split)

lemma sides_kept [keep]: "keeps I C (check_sides p slot x y mx my)"
  unfolding check_sides_def by (auto intro!: keep)

lemma move_kept [keep]: "keeps I C (move_step E J)"
  unfolding move_step_def make_move_def confirm_move_def Let_def
  by (auto intro!: keep split: prod.split)

lemma stop_kept [keep]: "keeps I C (stop_on_conflict E J e)"
  unfolding stop_on_conflict_def by (intro keep)

lemma step_kept [keep]: "keeps I C (pub_step E J)"
  unfolding pub_step_def by (intro keep)

lemma finish_kept [keep]: "keeps I C (pub_finish E J)"
  unfolding pub_finish_def Let_def by (intro keep)

lemma run_from_kept [keep]: "keeps I C (pub_run_from E n J)"
  by (induction n arbitrary: J) (auto intro!: keep)

lemma run_kept [keep]: "keeps I C (pub_run E J)"
  unfolding pub_run_def by (intro keep)

lemma copies_kept [keep]: "keeps I C (prepare_copies E pv es)"
  by (induction es) (auto simp: copy_opt_def intro!: keep split: option.split)

lemma settle_kept [keep]: "keeps I C (pub_settle E J)"
  unfolding pub_settle_def Let_def
  by (auto intro!: keep split: prod.split option.split pub_error.split)

lemma apply_kept [keep]: "keeps I C (pub_apply E task review now pv)"
  unfolding pub_apply_def Let_def by (intro keep)

lemma undo_kept [keep]: "keeps I C (pub_undo E task keep_changed)"
  unfolding pub_undo_def Let_def by (intro keep)

lemma recover_kept [keep]: "keeps I C (pub_recover E task)"
  unfolding pub_recover_def by (intro keep)

lemma resolve_kept [keep]: "keeps I C (pub_resolve E task choice)"
  unfolding pub_resolve_def Let_def by (intro keep)

lemma serve_kept: "keeps I C (pub_serve E task r)"
  by (cases r) (simp_all add: keep)

end

text \<open>A law that a killed process leaves true holds along the whole life of a workspace.\<close>

lemma law_of_life:
  assumes "\<And>r. keeps I I (pub_serve E task r)" "I d"
  shows "I (pub_life E task rs d)"
  using assms(2) unfolding pub_life_def
  by (induction rs arbitrary: d) (auto intro: keeps_fst [OF assms(1)])

section \<open>Nothing of the human is lost\<close>

text \<open>The human leaves this file alone: no checkpoint finds it gone from the documents.\<close>

definition left_alone :: "pub_env \<Rightarrow> node \<Rightarrow> bool" where
  "left_alone E n \<longleftrightarrow> (\<forall>k c h h'. pe_hook E k c h = Some h' \<longrightarrow> n \<in> ran h \<longrightarrow> n \<in> ran h')"

text \<open>Files of the documents, and files a change of names has set aside.\<close>

definition within_reach :: "disk \<Rightarrow> node set" where
  "within_reach d = ran (dk_home d) \<union> ran (dk_slots d)"

text \<open>What has been seen: at the start, or in the documents after any checkpoint since.\<close>

definition seen_since :: "node set \<Rightarrow> nat \<Rightarrow> disk \<Rightarrow> node set" where
  "seen_since N k d = N \<union> (\<Union>h \<in> set (drop k (dk_trace d)). ran h)"

definition nothing_lost :: "pub_env \<Rightarrow> node set \<Rightarrow> nat \<Rightarrow> disk \<Rightarrow> bool" where
  "nothing_lost E N k d \<longleftrightarrow> k \<le> length (dk_trace d)
     \<and> (\<forall>n \<in> seen_since N k d. left_alone E n \<longrightarrow> n \<in> within_reach d)"

lemma nothing_lost_mono:
  "nothing_lost E N k d \<Longrightarrow> dk_trace d' = dk_trace d \<Longrightarrow> within_reach d \<subseteq> within_reach d' \<Longrightarrow> nothing_lost E N k d'"
  unfolding nothing_lost_def seen_since_def by (metis subsetD)

lemma nothing_lost_checkpoint: "keeps (nothing_lost E N k) (nothing_lost E N k) (checkpoint E c)"
proof -
  have "nothing_lost E N k (d\<lparr>dk_home := h, dk_trace := dk_trace d @ [h]\<rparr>)"
    if "nothing_lost E N k d" "pe_hook E (length (dk_trace d)) c (dk_home d) = Some h" for d h
    unfolding nothing_lost_def
  proof (intro conjI ballI impI)
    show "k \<le> length (dk_trace (d\<lparr>dk_home := h, dk_trace := dk_trace d @ [h]\<rparr>))"
      using that(1) by (simp add: nothing_lost_def)
    fix n
    assume n: "n \<in> seen_since N k (d\<lparr>dk_home := h, dk_trace := dk_trace d @ [h]\<rparr>)" "left_alone E n"
    from that(1) have "k \<le> length (dk_trace d)" by (simp add: nothing_lost_def)
    with n(1) have "n \<in> seen_since N k d \<or> n \<in> ran h" by (auto simp: seen_since_def)
    with n(2) that show "n \<in> within_reach (d\<lparr>dk_home := h, dk_trace := dk_trace d @ [h]\<rparr>)"
      by (auto simp: nothing_lost_def within_reach_def left_alone_def)
  qed
  then show ?thesis by (simp add: keeps_def wp_checkpoint split: option.splits)
qed

lemma ran_upd_None: "m k = None \<Longrightarrow> ran m \<subseteq> ran (m(k \<mapsto> v))"
  by auto

text \<open>A change of names moves both files, whatever they are.\<close>

lemma within_swap: "ran h \<union> ran s \<subseteq> ran (h(p := s q)) \<union> ran (s(q := h p))" for h s :: tree
proof
  fix n
  assume "n \<in> ran h \<union> ran s"
  then consider a where "h a = Some n" | a where "s a = Some n" by (auto simp: ran_def)
  then show "n \<in> ran (h(p := s q)) \<union> ran (s(q := h p))"
  proof cases
    case (1 a) then show ?thesis by (cases "a = p") (auto intro: ranI [of _ a] ranI [of _ q])
  next
    case (2 a) then show ?thesis by (cases "a = q") (auto intro: ranI [of _ a] ranI [of _ p])
  qed
qed

lemma nothing_lost_exchange: "keeps (nothing_lost E N k) C (exchange_names had has p slot)"
proof -
  have "within_reach d \<subseteq> within_reach (d\<lparr>dk_home := (dk_home d)(p := dk_slots d slot),
      dk_slots := (dk_slots d)(slot := dk_home d p)\<rparr>)" for d
    using within_swap [of "dk_home d" "dk_slots d" p slot] by (simp add: within_reach_def)
  then have both: "nothing_lost E N k d \<Longrightarrow> nothing_lost E N k (d\<lparr>dk_home := (dk_home d)(p := dk_slots d slot),
      dk_slots := (dk_slots d)(slot := dk_home d p)\<rparr>)" for d
    by (rule nothing_lost_mono [rotated 2]) simp_all
  have put: "nothing_lost E N k d \<Longrightarrow> dk_home d p = None \<Longrightarrow> nothing_lost E N k (d\<lparr>dk_home := (dk_home d)(p := dk_slots d slot),
      dk_slots := (dk_slots d)(slot := None)\<rparr>)" for d
    using both [of d] by simp
  have take: "nothing_lost E N k d \<Longrightarrow> dk_slots d slot = None \<Longrightarrow> nothing_lost E N k
      (d\<lparr>dk_slots := (dk_slots d)(slot := dk_home d p), dk_home := (dk_home d)(p := None)\<rparr>)" for d
    by (rule nothing_lost_mono [OF both [of d]]) (simp_all add: within_reach_def)
  show ?thesis
    unfolding keeps_def using both put take by (simp add: exchange_names_def)
qed


lemma nothing_lost_store:
  assumes "nothing_lost E N k d" "a = InSlots \<longrightarrow> dk_slots d q = None"
  shows "wp (store_copy a q n) (\<lambda>_. nothing_lost E N k) F C d"
  using assms ran_upd_None [of "dk_slots d" q n] unfolding store_copy_def wp_change
  by (intro nothing_lost_mono [OF assms(1)]; cases a)
    (auto simp: within_reach_def set_area_def area_of_def)

lemma nothing_lost_dir:
  assumes "nothing_lost E N k d" "dk_home d q = None"
  shows "nothing_lost E N k (d\<lparr>dk_home := (dk_home d)(q \<mapsto> n), dk_inode := i\<rparr>)"
  using ran_upd_None [of "dk_home d" q n] assms(2)
  by (intro nothing_lost_mono [OF assms(1)]) (auto simp: within_reach_def)

interpretation lost: disk_law E "nothing_lost E N k" "nothing_lost E N k" for E N k
proof unfold_locales
  fix J m
  show "keeps (nothing_lost E N k) (nothing_lost E N k) (save_journal E J)"
    unfolding save_journal_def by (rule keeps_change, erule nothing_lost_mono) (simp_all add: within_reach_def)
  show "keeps (nothing_lost E N k) (nothing_lost E N k) (change_io (dk_review_update (\<lambda>_. m)))"
    by (rule keeps_change, erule nothing_lost_mono) (simp_all add: within_reach_def)
qed (simp_all add: nothing_lost_checkpoint nothing_lost_exchange nothing_lost_store nothing_lost_dir)

text \<open>The tree of the mission is read, never written.\<close>

lemma keeps_exchange:
  assumes "\<And>d h s. I d \<Longrightarrow> I (d\<lparr>dk_home := h, dk_slots := s\<rparr>)" "\<And>d h s. I d \<Longrightarrow> I (d\<lparr>dk_slots := s, dk_home := h\<rparr>)"
  shows "keeps I C (exchange_names had has p slot)"
  unfolding exchange_names_def by (auto intro!: keep keeps_change assms)

interpretation work: disk_law E "\<lambda>d. dk_work d = W" "\<lambda>d. dk_work d = W" for E W
proof unfold_locales
  fix had has p slot
  show "keeps (\<lambda>d. dk_work d = W) (\<lambda>d. dk_work d = W) (exchange_names had has p slot)"
    by (rule keeps_exchange) simp_all
qed (simp_all add: keeps_def wp_checkpoint store_copy_def set_area_def split: option.split area.split)

text \<open>Nobody kills this process and nobody disturbs the documents.\<close>

definition undisturbed :: hook where
  "undisturbed k c t = Some t"

interpretation alive: disk_law "E\<lparr>pe_hook := undisturbed\<rparr>" "\<lambda>_. True" "\<lambda>_. False" for E
proof unfold_locales
  fix had has p slot
  show "keeps (\<lambda>_. True) (\<lambda>_. False) (exchange_names had has p slot)"
    by (rule keeps_exchange) simp_all
qed (simp_all add: keeps_def wp_checkpoint undisturbed_def store_copy_def)

section \<open>A concrete publication\<close>

definition v_old :: fingerprint where
  "v_old = \<lparr>fp_hash = replicate 64 (CHR ''1''), fp_size = 4, fp_mode = 33188\<rparr>"

definition v_new :: fingerprint where
  "v_new = \<lparr>fp_hash = replicate 64 (CHR ''2''), fp_size = 5, fp_mode = 33188\<rparr>"

definition plain_node :: "nat \<Rightarrow> fingerprint \<Rightarrow> node" where
  "plain_node i v = \<lparr>nd_id = \<lparr>fi_device = 1, fi_inode = i\<rparr>, nd_kind = Regular v, nd_open = True,
     nd_meta = Some \<lparr>md_uid = 1000, md_gid = 1000, md_modified = 0, md_modified_ns = 0, md_attributes = []\<rparr>\<rparr>"

text \<open>One document, of which the mission has written a new version.\<close>

definition small_review :: review_index where
  "small_review = \<lparr>ri_entries = [\<lparr>en_path = [''a''], en_before = Some v_old, en_after = Some v_new\<rparr>]\<rparr>"

definition small_disk :: disk where
  "small_disk = \<lparr>dk_home = [[''a''] \<mapsto> plain_node 1 v_old], dk_work = [[''a''] \<mapsto> plain_node 2 v_new],
     dk_restore = Map.empty, dk_published = Map.empty, dk_slots = Map.empty, dk_record = None, dk_review = None,
     dk_orphans = [], dk_inode = 10, dk_trace = []\<rparr>"

definition env_with :: "hook \<Rightarrow> pub_env" where
  "env_with h = \<lparr>pe_hook = h, pe_digest_cursor = (\<lambda>c. ''c''), pe_digest_manifest = (\<lambda>m. ''m''), pe_too_large = (\<lambda>m. False),
     pe_dir_meta = (\<lambda>q. \<lparr>dm_gid = 1000, dm_default_acl = None, dm_selinux = False\<rparr>), pe_home_uid = 1000, pe_device = 1\<rparr>"

named_theorems small

lemmas small_defs [small] = small_disk_def small_review_def plain_node_def v_old_def v_new_def env_with_def undisturbed_def

text \<open>What evaluating a request on a concrete disk unfolds.\<close>

lemmas run_defs = blocked_def nd_version_def lift_refusal_def read_journal_def check_version_def inspect_file_def file_id_at_def
  entry_metadata_def meta_read_def proposed_meta_def copy_opt_def require_def copy_version_def prior_copy_def
  copy_source_def meta_check_if_def meta_check_def wp_checkpoint write_copy_def copied_node_def store_copy_def
  set_area_def area_of_def Let_def preflight_entry_def versions_of_def metas_of_def meta_check_opt_def
  preflight_copy_def pub_run_def new_journal_def pub_step_def prepare_step_def slot_of_def move_step_def
  parent_dir_def above_def valid_path_def make_move_def check_sides_def exchange_names_def confirm_move_def
  next_entry_def pub_finish_def stop_on_conflict_def

lemma small_valid: "validate_review small_review = Ok ()"
  by (simp add: validate_review_def small valid_path_def entry_versions_def Let_def
     plain_version_def is_hex_digit_def list_all_iff)

text \<open>A human who saves a new file just before the exchange.\<close>

definition late_edit :: hook where
  "late_edit k c h = Some (if c = BeforeRename then h([''a''] \<mapsto> plain_node 3 v_new) else h)"

lemma late_edit_seen:
  "\<exists>h \<in> set (dk_trace (fst (pub_apply (env_with late_edit) ''t'' small_review 7 None small_disk))).
     h [''a''] = Some (plain_node 3 v_new)"
proof -
  let ?P = "\<lambda>d. \<exists>h \<in> set (dk_trace d). h [''a''] = Some (plain_node 3 v_new)"
  have "wp (pub_apply (env_with late_edit) ''t'' small_review 7 None) (\<lambda>_. ?P) (\<lambda>_. ?P) ?P small_disk"
    unfolding pub_apply_def small_valid by (simp add: small run_defs late_edit_def)
  then show ?thesis by (rule wp_fst)
qed

section \<open>The human keeps every file\<close>

text \<open>C5. Nothing of the human is lost. Whatever is asked of a workspace (publishing, undoing, resuming,
  deciding a conflict), in any order, with the process killed at any checkpoint and the human changing
  the documents at any of them: a file that was in the documents at the start, or that stood in them
  at any checkpoint, and that the human does not remove himself, is at the end still in the documents
  or under one of the names kept aside for the mission.\<close>

theorem nothing_of_the_human_lost:
  assumes "left_alone E n" "d' = pub_life E task rs d"
    and "n \<in> ran (dk_home d) \<or> (\<exists>h \<in> set (drop (length (dk_trace d)) (dk_trace d')). n \<in> ran h)"
  shows "n \<in> ran (dk_home d') \<or> n \<in> ran (dk_slots d')"
proof -
  have "nothing_lost E (within_reach d) (length (dk_trace d)) d"
    by (simp add: nothing_lost_def seen_since_def)
  then have "nothing_lost E (within_reach d) (length (dk_trace d)) d'"
    unfolding assms(2) by (rule law_of_life [OF lost.serve_kept])
  with assms(1, 3) show ?thesis by (auto simp: nothing_lost_def seen_since_def within_reach_def)
qed

text \<open>The late edit is under the name kept aside, though the exchange has replaced it.\<close>

theorem nothing_of_the_human_lost_witness:
  "\<exists>d'. d' = pub_life (env_with late_edit) ''t'' [AskApply small_review 7 None] small_disk
     \<and> (plain_node 3 v_new \<in> ran (dk_home d') \<or> plain_node 3 v_new \<in> ran (dk_slots d'))"
proof -
  let ?d = "pub_life (env_with late_edit) ''t'' [AskApply small_review 7 None] small_disk"
  have "left_alone (env_with late_edit) (plain_node 3 v_new)"
    by (auto simp: left_alone_def env_with_def late_edit_def ran_def split: if_splits)
  moreover have "\<exists>h \<in> set (drop (length (dk_trace small_disk)) (dk_trace ?d)). plain_node 3 v_new \<in> ran h"
    using late_edit_seen by (auto simp: pub_life_def small_disk_def intro: ranI)
  ultimately show ?thesis
    using nothing_of_the_human_lost [of "env_with late_edit" "plain_node 3 v_new" ?d] by blast
qed

end
