(* ===== verification/Publication_Recovery.thy ===== *)
theory Publication_Recovery
  imports Publication_Safe
begin

text \<open>
  Publishing as a transaction. While the human leaves the documents alone, a batch that has begun ends
  with every file of the batch published, wherever and however often the process is killed, and a
  batch that has not begun leaves the documents as they were. The invariant \<open>steady\<close> ties the journal
  to the disk at every checkpoint; it is kept by each half of a step, survives a kill, and is all a
  later process needs.
\<close>

section \<open>What the journal says of the disk\<close>

text \<open>A tree holds this version with these metadata under this path, or nothing.\<close>

definition stands :: "tree \<Rightarrow> path \<Rightarrow> fingerprint option \<Rightarrow> metadata option \<Rightarrow> bool" where
  "stands m p v md \<longleftrightarrow> (case (v, m p) of
     (None, None) \<Rightarrow> md = None
   | (Some x, Some n) \<Rightarrow> nd_open n \<and> nd_version n = Some x \<and> nd_meta n = md \<and> md \<noteq> None
   | _ \<Rightarrow> False)"

definition doc :: "journal \<Rightarrow> nat \<Rightarrow> path" where
  "doc J j = en_path (ri_entries (jo_review J) ! j)"

definition slot :: "journal \<Rightarrow> nat \<Rightarrow> path" where
  "slot J j = slot_of (jo_undo J) j"

definition from_v :: "journal \<Rightarrow> nat \<Rightarrow> fingerprint option" where
  "from_v J j = fst (versions_of (ri_entries (jo_review J) ! j) (jo_undo J))"

definition to_v :: "journal \<Rightarrow> nat \<Rightarrow> fingerprint option" where
  "to_v J j = snd (versions_of (ri_entries (jo_review J) ! j) (jo_undo J))"

definition from_md :: "journal \<Rightarrow> nat \<Rightarrow> metadata option" where
  "from_md J j = fst (metas_of (jo_metadata J ! j) (jo_undo J))"

definition to_md :: "journal \<Rightarrow> nat \<Rightarrow> metadata option" where
  "to_md J j = snd (metas_of (jo_metadata J ! j) (jo_undo J))"

abbreviation changes_of :: "journal \<Rightarrow> nat" where
  "changes_of J \<equiv> length (ri_entries (jo_review J))"

text \<open>Where a change is: done, not begun (its copy may be ready), or in the middle of its exchange.\<close>

definition done_at :: "journal \<Rightarrow> disk \<Rightarrow> nat \<Rightarrow> bool" where
  "done_at J d j \<longleftrightarrow> stands (dk_home d) (doc J j) (to_v J j) (to_md J j)
     \<and> list_all (is_dir_at (dk_home d)) (above (doc J j))"

definition parents_at :: "journal \<Rightarrow> disk \<Rightarrow> nat \<Rightarrow> bool" where
  "parents_at J d j \<longleftrightarrow> list_all (\<lambda>q. is_dir_at (dk_home d) q \<or> to_v J j \<noteq> None \<and> dk_home d q = None) (above (doc J j))"

definition waiting_at :: "journal \<Rightarrow> disk \<Rightarrow> nat \<Rightarrow> bool" where
  "waiting_at J d j \<longleftrightarrow> stands (dk_home d) (doc J j) (from_v J j) (from_md J j)
     \<and> (dk_slots d (slot J j) = None \<or> to_v J j \<noteq> None \<and> stands (dk_slots d) (slot J j) (to_v J j) (to_md J j)
          \<and> map_option nd_id (dk_slots d (slot J j)) \<noteq> map_option nd_id (dk_home d (doc J j)))
     \<and> parents_at J d j"

definition moving_at :: "journal \<Rightarrow> disk \<Rightarrow> nat \<Rightarrow> pending_move \<Rightarrow> bool" where
  "moving_at J d j m \<longleftrightarrow> pm_original m \<noteq> pm_proposed m \<and> parents_at J d j
     \<and> (stands (dk_home d) (doc J j) (from_v J j) (from_md J j) \<and> stands (dk_slots d) (slot J j) (to_v J j) (to_md J j)
          \<and> map_option nd_id (dk_home d (doc J j)) = pm_original m \<and> map_option nd_id (dk_slots d (slot J j)) = pm_proposed m
        \<or> stands (dk_home d) (doc J j) (to_v J j) (to_md J j) \<and> stands (dk_slots d) (slot J j) (from_v J j) (from_md J j)
          \<and> map_option nd_id (dk_home d (doc J j)) = pm_proposed m \<and> map_option nd_id (dk_slots d (slot J j)) = pm_original m)"

definition stage_at :: "journal \<Rightarrow> disk \<Rightarrow> nat \<Rightarrow> bool" where
  "stage_at J d j \<longleftrightarrow> (if j < jo_next J then done_at J d j
     else if j = jo_next J \<and> jo_pending J \<noteq> None then moving_at J d j (the (jo_pending J)) else waiting_at J d j)"

text \<open>The journal itself: valid, coherent, modes of 16 bits, no change above another.\<close>

definition batch_ok :: "string \<Rightarrow> journal \<Rightarrow> bool" where
  "batch_ok task J \<longleftrightarrow> validate_review (jo_review J) = Ok () \<and> length (jo_metadata J) = changes_of J
     \<and> list_all2 metadata_fits (ri_entries (jo_review J)) (jo_metadata J)
     \<and> jo_version J = 1 \<and> jo_task J = task \<and> jo_next J \<le> changes_of J \<and> jo_kept J \<subseteq> {..<changes_of J}
     \<and> (jo_pending J \<noteq> None \<longrightarrow> jo_next J < changes_of J \<and> jo_next J \<notin> jo_kept J)
     \<and> jo_state J = (if jo_undo J then WUndoing else WApplying)
     \<and> list_all (\<lambda>e. list_all (\<lambda>v. fp_mode v < 65536) (entry_versions e)) (ri_entries (jo_review J))
     \<and> (\<forall>i < changes_of J. \<forall>j < changes_of J. doc J j \<notin> set (above (doc J i)))"

definition fresh_ids :: "pub_env \<Rightarrow> disk \<Rightarrow> bool" where
  "fresh_ids E d \<longleftrightarrow> (\<forall>n \<in> ran (dk_home d) \<union> ran (dk_slots d).
     fi_device (nd_id n) = pe_device E \<longrightarrow> fi_inode (nd_id n) < dk_inode d)"

definition copies_ready :: "journal \<Rightarrow> disk \<Rightarrow> bool" where
  "copies_ready J d \<longleftrightarrow> (\<forall>j < changes_of J. j \<notin> jo_kept J \<longrightarrow>
     (let e = ri_entries (jo_review J) ! j; m = jo_metadata J ! j
      in (en_before e \<noteq> None \<longrightarrow> stands (dk_restore d) (en_path e) (en_before e) (mp_before m) \<and> \<not> blocked (dk_restore d) (en_path e))
       \<and> (en_after e \<noteq> None \<longrightarrow> stands (dk_published d) (en_path e) (en_after e) (mp_after m) \<and> \<not> blocked (dk_published d) (en_path e))))"

text \<open>Outside the batch the documents are those of before, but for directories made on the way.\<close>

definition others_same :: "journal \<Rightarrow> tree \<Rightarrow> tree \<Rightarrow> bool" where
  "others_same J H h \<longleftrightarrow> (\<forall>q. q \<notin> doc J ` ({..<changes_of J} - jo_kept J) \<longrightarrow>
     h q = H q \<or> H q = None \<and> is_dir_at h q \<and> (\<exists>j < changes_of J. q \<in> set (above (doc J j))))"

definition steady :: "pub_env \<Rightarrow> string \<Rightarrow> tree \<Rightarrow> journal \<Rightarrow> disk \<Rightarrow> bool" where
  "steady E task H J d \<longleftrightarrow> batch_ok task J \<and> fresh_ids E d \<and> others_same J H (dk_home d) \<and> copies_ready J d
     \<and> (jo_undo J \<or> (\<forall>j. dk_slots d (slot_of True j) = None))
     \<and> (\<forall>j < changes_of J. j \<notin> jo_kept J \<longrightarrow> stage_at J d j)"

text \<open>The journal on the disk: this one, or one that has not yet passed files left to the human.\<close>

definition on_disk :: "pub_env \<Rightarrow> journal \<Rightarrow> disk \<Rightarrow> bool" where
  "on_disk E J d \<longleftrightarrow> dk_record d = Some (cursor.truncate J, pe_digest_cursor E (cursor.truncate J))
     \<and> dk_review d = Some \<lparr>pf_review = jo_review J, pf_metadata = jo_metadata J\<rparr>
     \<and> jo_review_hash J = pe_digest_manifest E \<lparr>pf_review = jo_review J, pf_metadata = jo_metadata J\<rparr>"

section \<open>First facts\<close>

lemma stands_cong: "m p = m' p' \<Longrightarrow> stands m p v md = stands m' p' v md"
  by (simp add: stands_def)

lemma stands_None [simp]: "stands m p None md \<longleftrightarrow> m p = None \<and> md = None"
  by (simp add: stands_def split: option.splits)

lemma stands_Some: "stands m p (Some v) md \<longleftrightarrow> (\<exists>n x. m p = Some n \<and> nd_open n \<and> nd_version n = Some v
    \<and> nd_meta n = Some x \<and> md = Some x)"
  by (auto simp: stands_def split: option.splits)

lemma not_blocked: "list_all (\<lambda>q. is_dir_at m q \<or> b \<and> m q = None) (above p) \<Longrightarrow> \<not> blocked m p"
  by (auto simp: blocked_def list_ex_iff list_all_iff)

lemma not_blocked_dirs: "list_all (is_dir_at m) (above p) \<Longrightarrow> \<not> blocked m p"
  by (auto simp: blocked_def list_ex_iff list_all_iff)

lemma parents_clear: "parents_at J d j \<Longrightarrow> \<not> blocked (dk_home d) (doc J j)"
  unfolding parents_at_def by (rule not_blocked)

lemma not_blocked_slot [simp]: "\<not> blocked m (slot_of u j)"
  by (simp add: blocked_def above_def slot_of_def)

lemma not_blocked_slot' [simp]: "\<not> blocked m (slot J j)"
  by (simp add: slot_def)

lemma stands_check:
  assumes "stands m p v md" "\<not> blocked m p"
  shows "check_version m p v = Ok (map_option nd_id (m p))" "meta_check_opt m p md = Ok ()"
  using assms by (cases v; auto simp: stands_def check_version_def file_id_at_def inspect_file_def
      meta_check_opt_def meta_check_def meta_read_def split: option.splits)+

lemma stands_id: "stands m p v md \<Longrightarrow> \<not> blocked m p \<Longrightarrow> file_id_at m p = Ok (map_option nd_id (m p))"
  by (cases v) (auto simp: stands_def file_id_at_def split: option.splits)

lemma stands_version: "stands m p v md \<Longrightarrow> v = None \<longleftrightarrow> m p = None"
  by (cases v) (auto simp: stands_def split: option.splits)

lemma is_dir_at_cong: "m q = m' q \<Longrightarrow> is_dir_at m q = is_dir_at m' q"
  by (simp add: is_dir_at_def)

lemma slot_of_inj [simp]: "slot_of u i = slot_of u' j \<longleftrightarrow> u = u' \<and> show_nat i = show_nat j"
  by (auto simp: slot_of_def)

lemma steady_trace [simp]: "steady E task H J (d\<lparr>dk_trace := t\<rparr>) = steady E task H J d"
  by (simp add: steady_def fresh_ids_def copies_ready_def stage_at_def done_at_def waiting_at_def moving_at_def parents_at_def)

lemma steady_record [simp]: "steady E task H J (d\<lparr>dk_record := r\<rparr>) = steady E task H J d"
  by (simp add: steady_def fresh_ids_def copies_ready_def stage_at_def done_at_def waiting_at_def moving_at_def parents_at_def)

lemma steady_review [simp]: "steady E task H J (d\<lparr>dk_review := r\<rparr>) = steady E task H J d"
  by (simp add: steady_def fresh_ids_def copies_ready_def stage_at_def done_at_def waiting_at_def moving_at_def parents_at_def)

lemma steady_hook [simp]: "steady (E\<lparr>pe_hook := h\<rparr>) = steady E"
  by (simp add: fun_eq_iff steady_def fresh_ids_def)

lemma on_disk_trace [simp]: "on_disk E J (d\<lparr>dk_trace := t\<rparr>) = on_disk E J d"
  by (simp add: on_disk_def)

lemma on_disk_hook [simp]: "on_disk (E\<lparr>pe_hook := h\<rparr>) = on_disk E"
  by (simp add: fun_eq_iff on_disk_def)

lemma show_nat_inj [simp]: "show_nat m = show_nat n \<longleftrightarrow> m = n"
proof
  show "show_nat m = show_nat n \<Longrightarrow> m = n"
  proof (induction m arbitrary: n rule: show_nat.induct)
    case (1 m)
    have parts: "show_nat k = (if k < 10 then [] else show_nat (k div 10)) @ [char_of (48 + k mod 10)]" for k
      by (rule show_nat.simps)
    have ne: "show_nat k \<noteq> []" for k by (subst parts) simp
    from "1.prems" have "char_of (48 + m mod 10) = (char_of (48 + n mod 10) :: char)"
      and front: "(if m < 10 then [] else show_nat (m div 10)) = (if n < 10 then [] else show_nat (n div 10))"
      by (simp_all add: parts [of m] parts [of n])
    have "(of_char (char_of (48 + k mod 10) :: char) :: nat) = 48 + k mod 10" for k :: nat
      unfolding of_char_of by (rule mod_less) (use mod_less_divisor [of 10 k] in arith)
    with \<open>char_of (48 + m mod 10) = (char_of (48 + n mod 10) :: char)\<close> have "m mod 10 = n mod 10"
      by (metis add_left_imp_eq)
    moreover from front 1 ne have "m div 10 = n div 10" by (auto split: if_splits) (metis ne)+
    ultimately show ?case by (metis div_mult_mod_eq)
  qed
qed simp

section \<open>Changing one place\<close>

text \<open>What differs is one document, its slot, and directories made above it.\<close>

definition touches :: "journal \<Rightarrow> nat \<Rightarrow> disk \<Rightarrow> disk \<Rightarrow> bool" where
  "touches J i d d' \<longleftrightarrow> (\<forall>q. q \<noteq> doc J i \<longrightarrow> dk_home d' q = dk_home d q
        \<or> dk_home d q = None \<and> is_dir_at (dk_home d') q \<and> q \<in> set (above (doc J i)))
     \<and> (\<forall>q. q \<noteq> slot J i \<longrightarrow> dk_slots d' q = dk_slots d q)
     \<and> dk_restore d' = dk_restore d \<and> dk_published d' = dk_published d"

lemma valid_distinct:
  "validate_entries x b es = Ok () \<Longrightarrow> sorted_wrt (<) (map en_path es) \<and> list_all (\<lambda>e. valid_path (en_path e) \<and> en_before e \<noteq> en_after e
     \<and> list_all plain_version (entry_versions e)) es \<and> (case x of None \<Rightarrow> True | Some q \<Rightarrow> \<forall>e \<in> set es. q < en_path e)"
proof (induction x b es rule: validate_entries.induct)
  case (2 x b e es)
  define total where "total = foldl (\<lambda>n v. n + fp_size v) b (entry_versions e)"
  from 2(2) have e: "valid_path (en_path e)" "en_before e \<noteq> en_after e" "list_all plain_version (entry_versions e)"
      "case x of None \<Rightarrow> True | Some q \<Rightarrow> q < en_path e"
    and rest: "validate_entries (Some (en_path e)) total es = Ok ()"
    by (auto simp: Let_def total_def split: if_splits option.splits)
  from 2(1) [OF _ _ _ rest] 2(2) have IH: "sorted_wrt (<) (map en_path es) \<and> list_all (\<lambda>e. valid_path (en_path e)
      \<and> en_before e \<noteq> en_after e \<and> list_all plain_version (entry_versions e)) es \<and> (\<forall>f \<in> set es. en_path e < en_path f)"
    by (simp add: Let_def total_def split: if_splits)
  with e have "case x of None \<Rightarrow> True | Some q \<Rightarrow> \<forall>f \<in> set es. q < en_path f"
    by (auto split: option.splits)
  with IH e show ?case by (simp split: option.splits)
qed (simp split: option.splits)

lemma batch_valid:
  assumes "batch_ok task J"
  shows "sorted_wrt (<) (map en_path (ri_entries (jo_review J)))"
    "list_all (\<lambda>e. valid_path (en_path e) \<and> en_before e \<noteq> en_after e \<and> list_all plain_version (entry_versions e))
      (ri_entries (jo_review J))"
proof -
  from assms have "validate_review (jo_review J) = Ok ()" by (simp add: batch_ok_def)
  then have "validate_entries None 0 (ri_entries (jo_review J)) = Ok ()"
    by (simp add: validate_review_def split: if_splits)
  from valid_distinct [OF this] show "sorted_wrt (<) (map en_path (ri_entries (jo_review J)))"
    "list_all (\<lambda>e. valid_path (en_path e) \<and> en_before e \<noteq> en_after e \<and> list_all plain_version (entry_versions e))
      (ri_entries (jo_review J))" by simp_all
qed

lemma plain_mode:
  assumes "plain_version v" "fp_mode v < 65536"
  shows "32768 + fp_mode v mod 512 = fp_mode v"
proof -
  define q where "q = fp_mode v div 512"
  have "fp_mode v div 4096 = q div 8" by (simp add: q_def div_mult2_eq [symmetric])
  with assms have q: "q div 8 mod 16 = 8" "q mod 8 = 0" "q < 128"
    by (simp_all add: plain_version_def q_def less_mult_imp_div_less)
  then have "q = 64" using div_mult_mod_eq [of q 8] by (simp add: less_mult_imp_div_less)
  then show ?thesis using div_mult_mod_eq [of "fp_mode v" 512] by (simp add: q_def)
qed

lemma batch_entry:
  assumes "batch_ok task J" "j < changes_of J"
  shows "valid_path (doc J j)" "from_v J j \<noteq> to_v J j"
    "(from_v J j = None) = (from_md J j = None)" "(to_v J j = None) = (to_md J j = None)"
    "to_v J j = Some v \<Longrightarrow> 32768 + fp_mode v mod 512 = fp_mode v"
proof -
  let ?e = "ri_entries (jo_review J) ! j"
  from batch_valid(2) [OF assms(1)] assms(2)
  have e: "valid_path (en_path ?e)" "en_before ?e \<noteq> en_after ?e" "list_all plain_version (entry_versions ?e)"
    by (simp_all add: list_all_length)
  from assms(1) have "list_all (\<lambda>e. list_all (\<lambda>v. fp_mode v < 65536) (entry_versions e)) (ri_entries (jo_review J))"
    unfolding batch_ok_def by (elim conjE)
  with assms(2) e(3) have modes: "list_all (\<lambda>v. 32768 + fp_mode v mod 512 = fp_mode v) (entry_versions ?e)"
    by (simp add: list_all_length plain_mode)
  from assms(1) have "list_all2 metadata_fits (ri_entries (jo_review J)) (jo_metadata J)"
    unfolding batch_ok_def by (elim conjE)
  then have "metadata_fits ?e (jo_metadata J ! j)"
    using assms(2) by (rule list_all2_nthD)
  with e(1,2) modes show "valid_path (doc J j)" "from_v J j \<noteq> to_v J j"
    "(from_v J j = None) = (from_md J j = None)" "(to_v J j = None) = (to_md J j = None)"
    "to_v J j = Some v \<Longrightarrow> 32768 + fp_mode v mod 512 = fp_mode v"
    by (cases "jo_undo J"; simp add: doc_def from_v_def to_v_def from_md_def to_md_def versions_of_def metas_of_def
        metadata_fits_def entry_versions_def)+
qed

lemma doc_inj:
  assumes "batch_ok task J" "i < changes_of J" "j < changes_of J" "i \<noteq> j"
  shows "doc J i \<noteq> doc J j"
proof -
  from batch_valid(1) [OF assms(1)] have "a < b \<Longrightarrow> b < changes_of J \<Longrightarrow> doc J a < doc J b" for a b
    by (simp add: sorted_wrt_iff_nth_less doc_def)
  with assms(2-4) show ?thesis by (metis less_irrefl linorder_neqE_nat)
qed

lemma slot_inj: "i \<noteq> j \<Longrightarrow> slot J i \<noteq> slot J j"
  by (simp add: slot_def)

text \<open>The place in the batch is not part of what a stage says.\<close>

lemma place_simps [simp]:
  "doc (J\<lparr>jo_pending := m\<rparr>) = doc J" "doc (J\<lparr>jo_next := k\<rparr>) = doc J"
  "done_at (J\<lparr>jo_pending := m\<rparr>) = done_at J" "done_at (J\<lparr>jo_next := k\<rparr>) = done_at J"
  "waiting_at (J\<lparr>jo_pending := m\<rparr>) = waiting_at J" "waiting_at (J\<lparr>jo_next := k\<rparr>) = waiting_at J"
  "moving_at (J\<lparr>jo_pending := m\<rparr>) = moving_at J" "moving_at (J\<lparr>jo_next := k\<rparr>) = moving_at J"
  "copies_ready (J\<lparr>jo_pending := m\<rparr>) = copies_ready J" "copies_ready (J\<lparr>jo_next := k\<rparr>) = copies_ready J"
  "others_same (J\<lparr>jo_pending := m\<rparr>) = others_same J" "others_same (J\<lparr>jo_next := k\<rparr>) = others_same J"
  by (simp_all add: fun_eq_iff doc_def slot_def from_v_def to_v_def from_md_def to_md_def done_at_def waiting_at_def
      moving_at_def parents_at_def copies_ready_def others_same_def)

lemma batch_pending: "batch_ok task J \<Longrightarrow> jo_next J < changes_of J \<Longrightarrow> jo_next J \<notin> jo_kept J \<Longrightarrow> batch_ok task (J\<lparr>jo_pending := m\<rparr>)"
  unfolding batch_ok_def by simp

lemma batch_next: "batch_ok task J \<Longrightarrow> k \<le> changes_of J \<Longrightarrow> batch_ok task (J\<lparr>jo_pending := None, jo_next := k\<rparr>)"
  unfolding batch_ok_def by simp

lemma batch_apart: "batch_ok task J \<Longrightarrow> i < changes_of J \<Longrightarrow> j < changes_of J \<Longrightarrow> doc J j \<notin> set (above (doc J i))"
  unfolding batch_ok_def by blast

lemma touches_other:
  assumes "batch_ok task J" "touches J i d d'" "i < changes_of J" "j < changes_of J" "j \<noteq> i"
  shows "dk_home d' (doc J j) = dk_home d (doc J j)" "dk_slots d' (slot J j) = dk_slots d (slot J j)"
  using assms batch_apart [OF assms(1, 3, 4)] doc_inj [OF assms(1, 4, 3, 5)] slot_inj [OF assms(5), of J]
  unfolding touches_def by metis+

lemma touches_dirs:
  assumes "batch_ok task J" "touches J i d d'" "i < changes_of J" "j < changes_of J" "q \<in> set (above (doc J j))"
  shows "is_dir_at (dk_home d) q \<Longrightarrow> is_dir_at (dk_home d') q"
    "is_dir_at (dk_home d) q \<or> b \<and> dk_home d q = None \<Longrightarrow> is_dir_at (dk_home d') q \<or> b \<and> dk_home d' q = None"
proof -
  have "q \<noteq> doc J i" using batch_apart [OF assms(1, 4, 3)] assms(5) by metis
  with assms(2) have q: "dk_home d' q = dk_home d q \<or> dk_home d q = None \<and> is_dir_at (dk_home d') q"
    unfolding touches_def by metis
  show "is_dir_at (dk_home d') q" if "is_dir_at (dk_home d) q"
    using that q by (auto simp: is_dir_at_def)
  then show "is_dir_at (dk_home d) q \<or> b \<and> dk_home d q = None \<Longrightarrow> is_dir_at (dk_home d') q \<or> b \<and> dk_home d' q = None"
    using q by metis
qed

lemma touches_parents:
  assumes "batch_ok task J" "touches J i d d'" "i < changes_of J" "j < changes_of J"
  shows "parents_at J d j \<Longrightarrow> parents_at J d' j"
    "list_all (is_dir_at (dk_home d)) (above (doc J j)) \<Longrightarrow> list_all (is_dir_at (dk_home d')) (above (doc J j))"
  unfolding parents_at_def list_all_iff using touches_dirs [OF assms] by blast+

lemma touches_stages:
  assumes "batch_ok task J" "touches J i d d'" "i < changes_of J" "j < changes_of J" "j \<noteq> i"
  shows "done_at J d j \<Longrightarrow> done_at J d' j" "waiting_at J d j \<Longrightarrow> waiting_at J d' j"
  unfolding done_at_def waiting_at_def
  using touches_other [OF assms] touches_parents [OF assms(1-4)]
    stands_cong [of "dk_home d'" "doc J j" "dk_home d" "doc J j"]
    stands_cong [of "dk_slots d'" "slot J j" "dk_slots d" "slot J j"] by simp_all

lemma touches_frame:
  assumes "batch_ok task J" "touches J i d d'" "i < changes_of J" "i \<notin> jo_kept J" "others_same J H (dk_home d)"
  shows "others_same J H (dk_home d')"
  unfolding others_same_def
proof (intro allI impI)
  fix q
  assume q: "q \<notin> doc J ` ({..<changes_of J} - jo_kept J)"
  with assms(3, 4) have "q \<noteq> doc J i" by auto
  with assms(2) have "dk_home d' q = dk_home d q
      \<or> dk_home d q = None \<and> is_dir_at (dk_home d') q \<and> q \<in> set (above (doc J i))"
    unfolding touches_def by metis
  moreover from assms(5) q have "dk_home d q = H q
      \<or> H q = None \<and> is_dir_at (dk_home d) q \<and> (\<exists>j < changes_of J. q \<in> set (above (doc J j)))"
    unfolding others_same_def by blast
  ultimately show "dk_home d' q = H q \<or> H q = None \<and> is_dir_at (dk_home d') q \<and> (\<exists>j < changes_of J. q \<in> set (above (doc J j)))"
    using assms(3) is_dir_at_cong [of "dk_home d'" q "dk_home d"] by (metis (no_types, lifting))
qed

text \<open>One place changes, and the invariant holds again once its own stage does.\<close>

lemma steady_touch:
  assumes S: "steady E task H J d" and i: "i = jo_next J" "i < changes_of J" "i \<notin> jo_kept J"
    and T: "touches J i d d'" and F: "fresh_ids E d'"
  shows "(if m = None then waiting_at J d' i else moving_at J d' i (the m)) \<Longrightarrow> steady E task H (J\<lparr>jo_pending := m\<rparr>) d'"
    "done_at J d' i \<Longrightarrow> steady E task H (J\<lparr>jo_pending := None, jo_next := i + 1\<rparr>) d'"
proof -
  from S have B: "batch_ok task J" and O: "others_same J H (dk_home d)" and C: "copies_ready J d"
    and U: "jo_undo J \<or> (\<forall>j. dk_slots d (slot_of True j) = None)"
    and G: "\<And>j. j < changes_of J \<Longrightarrow> j \<notin> jo_kept J \<Longrightarrow> stage_at J d j"
    by (simp_all add: steady_def)
  have C': "copies_ready J d'" using C T by (simp add: copies_ready_def touches_def)
  have O': "others_same J H (dk_home d')" by (rule touches_frame [OF B T i(2,3) O])
  have U': "jo_undo J \<or> (\<forall>j. dk_slots d' (slot_of True j) = None)"
    using U T by (auto simp: touches_def slot_def)
  have st: "(j < i \<longrightarrow> done_at J d' j) \<and> (i < j \<longrightarrow> waiting_at J d' j)" if j: "j < changes_of J" "j \<notin> jo_kept J" "j \<noteq> i" for j
    using G [OF j(1,2)] touches_stages [OF B T i(2) j(1,3)] j(3) by (auto simp: stage_at_def i(1))
  have next_le: "i + 1 \<le> changes_of J" using i(2) by simp
  { assume "if m = None then waiting_at J d' i else moving_at J d' i (the m)"
    then have "stage_at (J\<lparr>jo_pending := m\<rparr>) d' j" if "j < changes_of J" "j \<notin> jo_kept J" for j
      using st [OF that] by (cases "j = i") (auto simp: stage_at_def i(1))
    with C' O' U' F batch_pending [OF B i(2,3) [unfolded i(1)]] show "steady E task H (J\<lparr>jo_pending := m\<rparr>) d'"
      by (simp add: steady_def) }
  { assume "done_at J d' i"
    then have "stage_at (J\<lparr>jo_pending := None, jo_next := i + 1\<rparr>) d' j" if "j < changes_of J" "j \<notin> jo_kept J" for j
      using st [OF that] by (cases "j = i") (auto simp: stage_at_def)
    with C' O' U' F batch_next [OF B next_le] show "steady E task H (J\<lparr>jo_pending := None, jo_next := i + 1\<rparr>) d'"
      by (simp add: steady_def) }
qed

section \<open>Without the human, with kills\<close>

text \<open>At a checkpoint the process is killed or goes on; the documents stay as they are.\<close>

definition calm :: "hook \<Rightarrow> bool" where
  "calm h \<longleftrightarrow> (\<forall>k c t. h k c t = None \<or> h k c t = Some t)"

lemma wp_calm:
  assumes "calm (pe_hook E)" "C d" "Q () (d\<lparr>dk_trace := dk_trace d @ [dk_home d]\<rparr>)"
  shows "wp (checkpoint E c) Q F C d"
proof -
  from assms(1) have "pe_hook E (length (dk_trace d)) c (dk_home d) \<in> {None, Some (dk_home d)}"
    by (auto simp: calm_def)
  moreover have "d\<lparr>dk_home := dk_home d, dk_trace := t\<rparr> = d\<lparr>dk_trace := t\<rparr>" for t by simp
  ultimately show ?thesis using assms(2, 3) by (auto simp: wp_checkpoint)
qed

text \<open>What a killed process leaves: a journal of the same batch on the disk, true of the disk.\<close>

definition resumable :: "pub_env \<Rightarrow> string \<Rightarrow> tree \<Rightarrow> journal \<Rightarrow> disk \<Rightarrow> bool" where
  "resumable E task H J d \<longleftrightarrow> (\<exists>k m. steady E task H (J\<lparr>jo_pending := m, jo_next := k\<rparr>) d \<and> on_disk E (J\<lparr>jo_pending := m, jo_next := k\<rparr>) d)"

lemma resumable_place [simp]:
  "resumable E task H (J\<lparr>jo_pending := m\<rparr>) d = resumable E task H J d"
  "resumable E task H (J\<lparr>jo_next := k\<rparr>) d = resumable E task H J d"
  by (simp_all add: resumable_def)

lemma resumable_trace [simp]: "resumable E task H J (d\<lparr>dk_trace := t\<rparr>) = resumable E task H J d"
  by (simp add: resumable_def)

text \<open>The journal in memory may be ahead of the one on the disk by files left to the human.\<close>

definition recorded :: "pub_env \<Rightarrow> journal \<Rightarrow> disk \<Rightarrow> bool" where
  "recorded E J d \<longleftrightarrow> (\<exists>r \<le> jo_next J. {r..<jo_next J} \<subseteq> jo_kept J \<and> (r < jo_next J \<longrightarrow> jo_pending J = None)
     \<and> on_disk E (J\<lparr>jo_next := r\<rparr>) d)"

lemma recorded_trace [simp]: "recorded E J (d\<lparr>dk_trace := t\<rparr>) = recorded E J d"
  by (simp add: recorded_def)

lemma on_disk_recorded: "on_disk E J d \<Longrightarrow> recorded E J d"
  unfolding recorded_def by (intro exI [of _ "jo_next J"]) simp

lemma steady_back:
  assumes "steady E task H J d" "r \<le> jo_next J" "{r..<jo_next J} \<subseteq> jo_kept J" "r < jo_next J \<longrightarrow> jo_pending J = None"
  shows "steady E task H (J\<lparr>jo_next := r\<rparr>) d"
proof (cases "r = jo_next J")
  case False
  with assms(2, 4) have r: "r < jo_next J" "jo_pending J = None" by simp_all
  from assms(1) have "batch_ok task J" by (simp add: steady_def)
  then have "batch_ok task (J\<lparr>jo_next := r\<rparr>)" using r unfolding batch_ok_def by simp
  moreover have "stage_at (J\<lparr>jo_next := r\<rparr>) d j" if j: "stage_at J d j" "j \<notin> jo_kept J" for j
  proof -
    have "j < r \<or> jo_next J \<le> j" using j(2) assms(3) by (meson atLeastLessThan_iff linorder_not_less subsetD)
    with j r show ?thesis by (auto simp: stage_at_def split: if_splits)
  qed
  ultimately show ?thesis using assms(1) by (simp add: steady_def)
qed (use assms(1) in simp)

lemma recorded_resumable: "steady E task H J d \<Longrightarrow> recorded E J d \<Longrightarrow> resumable E task H J d"
  unfolding recorded_def resumable_def
  by (elim exE conjE, rule exI, rule exI [of _ "jo_pending J"]) (auto dest: steady_back)

lemma saved_on_disk:
  assumes "recorded E J d" "jo_review J' = jo_review J" "jo_metadata J' = jo_metadata J" "jo_review_hash J' = jo_review_hash J"
  shows "on_disk E J' (d\<lparr>dk_record := Some (cursor.truncate J', pe_digest_cursor E (cursor.truncate J'))\<rparr>)"
  using assms by (auto simp: recorded_def on_disk_def)

section \<open>The first half of a step\<close>

lemma prepare_step_alt:
  "prepare_step E J = (let i = jo_next J in
     if jo_pending J \<noteq> None then return_io J
     else bind_io (read_io (\<lambda>d. check_version (dk_home d) (doc J i) (from_v J i))) (\<lambda>original.
       then_io (read_io (\<lambda>d. meta_check_opt (dk_home d) (doc J i) (from_md J i)))
       (then_io (case to_v J i of
            Some v \<Rightarrow> bind_io (read_io (\<lambda>d. require MetadataMissing (to_md J i))) (\<lambda>md.
              bind_io (read_io (\<lambda>d. Ok (if jo_undo J then dk_restore d else dk_published d))) (\<lambda>source.
                copy_version E source (doc J i) InSlots (slot J i) v md CopyFrozen))
          | None \<Rightarrow> read_io (\<lambda>d. case file_id_at (dk_slots d) (slot J i) of
                Inl err \<Rightarrow> Err err | Inr None \<Rightarrow> Ok () | Inr (Some _) \<Rightarrow> Err (Conflict (doc J i))))
       (then_io (checkpoint E SlotSynced)
       (bind_io (read_io (\<lambda>d. file_id_at (dk_slots d) (slot J i))) (\<lambda>at_slot.
          let J' = J\<lparr>jo_pending := Some \<lparr>pm_original = original, pm_proposed = at_slot\<rparr>\<rparr>
          in then_io (save_journal E J') (then_io (checkpoint E IntentSynced) (return_io J'))))))))"
  by (simp only: prepare_step_def Let_def case_prod_beta doc_def slot_def from_v_def to_v_def from_md_def to_md_def)

text \<open>A copy into a slot gives a new file of the version asked for, or finds the one of a killed run.\<close>

definition copy_made :: "pub_env \<Rightarrow> path \<Rightarrow> disk \<Rightarrow> disk \<Rightarrow> bool" where
  "copy_made E q d d' \<longleftrightarrow> dk_home d' = dk_home d \<and> dk_restore d' = dk_restore d \<and> dk_published d' = dk_published d
     \<and> dk_record d' = dk_record d \<and> dk_review d' = dk_review d \<and> (\<forall>q'. q' \<noteq> q \<longrightarrow> dk_slots d' q' = dk_slots d q')
     \<and> (dk_slots d' q = dk_slots d q \<and> dk_inode d' = dk_inode d
        \<or> dk_slots d q = None \<and> dk_inode d' = dk_inode d + 1
          \<and> map_option nd_id (dk_slots d' q) = Some \<lparr>fi_device = pe_device E, fi_inode = dk_inode d\<rparr>)"

lemma copied_version:
  "32768 + fp_mode v mod 512 = fp_mode v \<Longrightarrow> nd_version (copied_node E d v v x) = Some v"
  by (simp add: copied_node_def nd_version_def)

lemma write_into_slot:
  assumes "dk_slots d q = None" "32768 + fp_mode v mod 512 = fp_mode v" "q = slot_of u j"
  shows "wp (write_copy E InSlots q v v x) (\<lambda>_ d'. copy_made E q d d' \<and> stands (dk_slots d') q (Some v) (Some x)) (\<lambda>_ _. False) C d"
proof -
  let ?n = "copied_node E d v v x"
  have n: "stands (m(q \<mapsto> ?n)) q (Some v) (Some x)" for m
    using copied_version [OF assms(2)] by (simp add: stands_def) (simp add: copied_node_def)
  have made: "copy_made E q d (d\<lparr>dk_slots := (dk_slots d)(q \<mapsto> ?n), dk_inode := dk_inode d + 1\<rparr>)"
    using assms(1) by (simp add: copy_made_def copied_node_def)
  have mc: "meta_check (m(q \<mapsto> ?n)) q x = Ok ()" for m
    using stands_check(2) [OF n] assms(3) by (simp add: meta_check_opt_def)
  show ?thesis
    using copied_version [OF assms(2)] assms(1,3) n made mc stands_check(1) [OF n]
    by (simp add: write_copy_def store_copy_def set_area_def area_of_def Let_def)
qed

lemma copy_into_slot:
  assumes "calm (pe_hook E)" "stands source p (Some v) (Some x)" "32768 + fp_mode v mod 512 = fp_mode v"
    and "\<not> blocked source p" "q = slot_of u j" and "dk_slots d q = None \<or> stands (dk_slots d) q (Some v) (Some x)" "C d"
  shows "wp (copy_version E source p InSlots q v x CopyFrozen)
     (\<lambda>_ d'. copy_made E q d d' \<and> stands (dk_slots d') q (Some v) (Some x)) (\<lambda>_ _. False) C d"
proof -
  have src: "meta_check_if True source p x = Ok ()" "copy_source source p v = Ok v"
    using assms(2,4) by (auto simp: stands_Some meta_check_if_def meta_check_def meta_read_def copy_source_def)
  show ?thesis
  proof (cases "dk_slots d q")
    case None
    then have "prior_copy (dk_slots d) q v x CopyFrozen = Ok False"
      using assms(5) by (simp add: prior_copy_def file_id_at_def)
    moreover from None have "dk_slots (d\<lparr>dk_trace := t\<rparr>) q = None" for t by simp
    note write_into_slot [OF this assms(3,5)]
    then have "wp (write_copy E InSlots q v v x) (\<lambda>_ d'. copy_made E q d d' \<and> stands (dk_slots d') q (Some v) (Some x))
        (\<lambda>_ _. False) C (d\<lparr>dk_trace := t\<rparr>)" for t
      by (rule wp_mono) (simp_all add: copy_made_def)
    ultimately show ?thesis
      unfolding copy_version_def using src assms(1,7)
      by (simp add: area_of_def wp_calm)
  next
    case (Some n)
    with assms(6) have s: "stands (dk_slots d) q (Some v) (Some x)" by simp
    have "prior_copy (dk_slots d) q v x CopyFrozen = Ok True"
      using s stands_check [OF s] stands_id [OF s] Some assms(5)
      by (auto simp: prior_copy_def stands_Some meta_check_opt_def)
    moreover have "copy_made E q d d" by (simp add: copy_made_def)
    ultimately show ?thesis
      unfolding copy_version_def using src s by (simp add: area_of_def)
  qed
qed

lemma copy_made_touches: "copy_made E (slot J i) d d' \<Longrightarrow> touches J i d d'"
  by (simp add: copy_made_def touches_def)

lemma copy_made_fresh:
  assumes "fresh_ids E d" "copy_made E q d d'"
  shows "fresh_ids E d'"
  unfolding fresh_ids_def
proof (intro ballI impI)
  fix n
  assume n: "n \<in> ran (dk_home d') \<union> ran (dk_slots d')" "fi_device (nd_id n) = pe_device E"
  from n(1) consider "n \<in> ran (dk_home d) \<union> ran (dk_slots d)"
    | "dk_slots d' q = Some n" "dk_slots d q \<noteq> dk_slots d' q"
    using assms(2) unfolding copy_made_def ran_def by (smt (verit) Un_iff mem_Collect_eq)
  then show "fi_inode (nd_id n) < dk_inode d'"
  proof cases
    case 1 with n(2) assms show ?thesis by (fastforce simp: fresh_ids_def copy_made_def)
  next
    case 2 with assms(2) show ?thesis by (auto simp: copy_made_def)
  qed
qed

lemma steadyD:
  assumes "steady E task H J d"
  shows "batch_ok task J" "fresh_ids E d" "others_same J H (dk_home d)" "copies_ready J d"
    "j < changes_of J \<Longrightarrow> j \<notin> jo_kept J \<Longrightarrow> stage_at J d j"
  using assms by (simp_all add: steady_def)

lemma copy_of_target:
  assumes "copies_ready J d" "j < changes_of J" "j \<notin> jo_kept J" "to_v J j \<noteq> None"
  shows "stands (if jo_undo J then dk_restore d else dk_published d) (doc J j) (to_v J j) (to_md J j)"
    "\<not> blocked (if jo_undo J then dk_restore d else dk_published d) (doc J j)"
  using assms by (auto simp: copies_ready_def Let_def doc_def to_v_def to_md_def versions_of_def metas_of_def)

lemma same_pending: "jo_pending J = m \<Longrightarrow> J\<lparr>jo_pending := m\<rparr> = J"
  by (cases J) auto

lemma prepared_ids:
  assumes "batch_ok task J" "i < changes_of J" "fresh_ids E d" "waiting_at J d i" "copy_made E (slot J i) d d'"
    "stands (dk_slots d') (slot J i) (to_v J i) (to_md J i)"
  shows "map_option nd_id (dk_slots d' (slot J i)) \<noteq> map_option nd_id (dk_home d' (doc J i))"
proof -
  have home: "dk_home d' = dk_home d" using assms(5) by (simp add: copy_made_def)
  have st: "stands (dk_home d) (doc J i) (from_v J i) (from_md J i)" using assms(4) by (simp add: waiting_at_def)
  show ?thesis
  proof (cases "to_v J i")
    case None
    with batch_entry(2) [OF assms(1,2)] have "from_v J i \<noteq> None" by metis
    with stands_version [OF st] stands_version [OF assms(6)] None home show ?thesis by auto
  next
    case (Some v)
    with stands_version [OF assms(6)] obtain n where n: "dk_slots d' (slot J i) = Some n" by auto
    show ?thesis
    proof (cases "dk_slots d' (slot J i) = dk_slots d (slot J i)")
      case True with n assms(4) home show ?thesis by (auto simp: waiting_at_def)
    next
      case False
      with assms(5) n have new: "nd_id n = \<lparr>fi_device = pe_device E, fi_inode = dk_inode d\<rparr>"
        by (auto simp: copy_made_def)
      have "nd_id k \<noteq> nd_id n" if k: "dk_home d (doc J i) = Some k" for k
      proof -
        from k have "k \<in> ran (dk_home d)" by (rule ranI)
        with assms(3) have "fi_device (nd_id k) = pe_device E \<longrightarrow> fi_inode (nd_id k) < dk_inode d"
          unfolding fresh_ids_def by blast
        with new show ?thesis by auto
      qed
      with n home show ?thesis by (cases "dk_home d (doc J i)") auto
    qed
  qed
qed

lemma prepared_steady:
  assumes S: "steady E task H J d" and R: "recorded E J d"
    and i: "jo_next J < changes_of J" "jo_next J \<notin> jo_kept J" "jo_pending J = None"
    and C: "copy_made E (slot J (jo_next J)) d d'"
      "stands (dk_slots d') (slot J (jo_next J)) (to_v J (jo_next J)) (to_md J (jo_next J))"
    and m: "m = \<lparr>pm_original = map_option nd_id (dk_home d (doc J (jo_next J))),
      pm_proposed = map_option nd_id (dk_slots d' (slot J (jo_next J)))\<rparr>"
  shows "steady E task H J d'" "recorded E J d'" "steady E task H (J\<lparr>jo_pending := Some m\<rparr>) d'"
proof -
  let ?i = "jo_next J"
  note B = steadyD(1) [OF S]
  have W: "waiting_at J d ?i" using steadyD(5) [OF S i(1,2)] i(3) by (simp add: stage_at_def)
  note ids = prepared_ids [OF B i(1) steadyD(2) [OF S] W C]
  have F: "fresh_ids E d'" by (rule copy_made_fresh [OF steadyD(2) [OF S] C(1)])
  have T: "touches J ?i d d'" by (rule copy_made_touches [OF C(1)])
  have home: "dk_home d' = dk_home d" using C(1) by (simp add: copy_made_def)
  then have P: "parents_at J d' ?i" using W by (simp add: waiting_at_def parents_at_def)
  have W': "waiting_at J d' ?i"
    using W C(2) ids home P stands_version [OF C(2)] by (auto simp: waiting_at_def)
  have "steady E task H (J\<lparr>jo_pending := None\<rparr>) d'"
    by (rule steady_touch(1) [OF S refl i(1,2) T F]) (simp add: W')
  then show "steady E task H J d'" using same_pending [OF i(3)] by simp
  show "recorded E J d'" using R C(1) by (auto simp: recorded_def on_disk_def copy_made_def)
  have "moving_at J d' ?i m"
    using W C(2) ids P home by (auto simp: moving_at_def waiting_at_def m)
  then show "steady E task H (J\<lparr>jo_pending := Some m\<rparr>) d'"
    by (intro steady_touch(1) [OF S refl i(1,2) T F]) simp
qed

lemma prepare_wp:
  assumes calm: "calm (pe_hook E)" and S: "steady E task H J d" and R: "recorded E J d"
    and i: "jo_next J < changes_of J" "jo_next J \<notin> jo_kept J"
  shows "wp (prepare_step E J) (\<lambda>J' d'. \<exists>m. J' = J\<lparr>jo_pending := Some m\<rparr> \<and> steady E task H J' d' \<and> on_disk E J' d')
     (\<lambda>_ _. False) (resumable E task H J) d"
proof (cases "jo_pending J")
  case (Some m)
  from R Some have "on_disk E J d" by (auto simp: recorded_def dest: le_neq_implies_less)
  with S Some show ?thesis by (auto simp: prepare_step_alt Let_def same_pending intro!: exI [of _ m])
next
  case None
  let ?i = "jo_next J"
  let ?Q = "\<lambda>d'. copy_made E (slot J ?i) d d' \<and> stands (dk_slots d') (slot J ?i) (to_v J ?i) (to_md J ?i)"
  note B = steadyD(1) [OF S]
  have W: "waiting_at J d ?i" using steadyD(5) [OF S i] None by (simp add: stage_at_def)
  then have from_st: "stands (dk_home d) (doc J ?i) (from_v J ?i) (from_md J ?i)" and clear: "\<not> blocked (dk_home d) (doc J ?i)"
    by (simp_all add: waiting_at_def parents_clear)
  have res: "resumable E task H J d" by (rule recorded_resumable [OF S R])
  have copy: "wp (case to_v J ?i of
            Some v \<Rightarrow> bind_io (read_io (\<lambda>d. require MetadataMissing (to_md J ?i))) (\<lambda>md.
              bind_io (read_io (\<lambda>d. Ok (if jo_undo J then dk_restore d else dk_published d))) (\<lambda>source.
                copy_version E source (doc J ?i) InSlots (slot J ?i) v md CopyFrozen))
          | None \<Rightarrow> read_io (\<lambda>d. case file_id_at (dk_slots d) (slot J ?i) of
                Inl err \<Rightarrow> Err err | Inr None \<Rightarrow> Ok () | Inr (Some _) \<Rightarrow> Err (Conflict (doc J ?i))))
      (\<lambda>_. ?Q) (\<lambda>_ _. False) (resumable E task H J) d"
  proof (cases "to_v J ?i")
    case None
    with W have "dk_slots d (slot J ?i) = None" by (auto simp: waiting_at_def)
    with None batch_entry(4) [OF B i(1)] show ?thesis by (simp add: file_id_at_def copy_made_def)
  next
    case (Some v)
    with batch_entry(4) [OF B i(1)] obtain x where x: "to_md J ?i = Some x" by auto
    from copy_of_target [OF steadyD(4) [OF S] i] Some x
    have src: "stands (if jo_undo J then dk_restore d else dk_published d) (doc J ?i) (Some v) (Some x)"
      and clear: "\<not> blocked (if jo_undo J then dk_restore d else dk_published d) (doc J ?i)" by simp_all
    from W Some x have "dk_slots d (slot J ?i) = None \<or> stands (dk_slots d) (slot J ?i) (Some v) (Some x)"
      by (auto simp: waiting_at_def)
    from copy_into_slot [where C = "resumable E task H J", OF calm src batch_entry(5) [OF B i(1) Some] clear slot_def this res]
    show ?thesis using Some x by (simp add: require_def)
  qed
  have "wp (then_io (checkpoint E SlotSynced)
       (bind_io (read_io (\<lambda>d. file_id_at (dk_slots d) (slot J ?i))) (\<lambda>at_slot.
          let J' = J\<lparr>jo_pending := Some \<lparr>pm_original = map_option nd_id (dk_home d (doc J ?i)), pm_proposed = at_slot\<rparr>\<rparr>
          in then_io (save_journal E J') (then_io (checkpoint E IntentSynced) (return_io J')))))
      (\<lambda>J' d'. \<exists>m. J' = J\<lparr>jo_pending := Some m\<rparr> \<and> steady E task H J' d' \<and> on_disk E J' d')
      (\<lambda>_ _. False) (resumable E task H J) d'" if Q: "?Q d'" for d'
  proof -
    define m where "m = \<lparr>pm_original = map_option nd_id (dk_home d (doc J ?i)),
      pm_proposed = map_option nd_id (dk_slots d' (slot J ?i))\<rparr>"
    note st = prepared_steady [OF S R i None Q [THEN conjunct1] Q [THEN conjunct2] m_def]
    define d2 where "d2 = d'\<lparr>dk_trace := dk_trace d' @ [dk_home d'], dk_record := Some
        (cursor.truncate (J\<lparr>jo_pending := Some m\<rparr>), pe_digest_cursor E (cursor.truncate (J\<lparr>jo_pending := Some m\<rparr>)))\<rparr>"
    have s2: "steady E task H (J\<lparr>jo_pending := Some m\<rparr>) d2" using st(3) by (simp add: d2_def)
    have o2: "on_disk E (J\<lparr>jo_pending := Some m\<rparr>) d2"
      unfolding d2_def by (rule saved_on_disk) (use st(2) in simp_all)
    have "resumable E task H J d2"
      using recorded_resumable [OF s2 on_disk_recorded [OF o2]] by simp
    with s2 o2 have "wp (then_io (checkpoint E IntentSynced) (return_io (J\<lparr>jo_pending := Some m\<rparr>)))
        (\<lambda>J' d'. \<exists>m. J' = J\<lparr>jo_pending := Some m\<rparr> \<and> steady E task H J' d' \<and> on_disk E J' d')
        (\<lambda>_ _. False) (resumable E task H J) d2"
      by (auto intro!: wp_calm [OF calm] exI [of _ m])
    with recorded_resumable [OF st(1,2)] stands_id [OF Q [THEN conjunct2]] show ?thesis
      unfolding wp_then by (intro wp_calm [OF calm]) (simp_all add: Let_def m_def d2_def)
  qed
  with copy show ?thesis
    using None stands_check [OF from_st clear] by (simp add: prepare_step_alt Let_def wp_mono)
qed

section \<open>The second half of a step\<close>

text \<open>The directories above a document: found, or made.\<close>

definition dirs_made :: "pub_env \<Rightarrow> path set \<Rightarrow> disk \<Rightarrow> disk \<Rightarrow> bool" where
  "dirs_made E Q d d' \<longleftrightarrow> dk_slots d' = dk_slots d \<and> dk_restore d' = dk_restore d \<and> dk_published d' = dk_published d
     \<and> dk_record d' = dk_record d \<and> dk_review d' = dk_review d \<and> dk_inode d \<le> dk_inode d'
     \<and> (\<forall>q. dk_home d' q = dk_home d q \<or> dk_home d q = None \<and> q \<in> Q \<and> is_dir_at (dk_home d') q
          \<and> (\<exists>k < dk_inode d'. map_option nd_id (dk_home d' q) = Some \<lparr>fi_device = pe_device E, fi_inode = k\<rparr>))"

lemma dirs_made_refl [simp]: "dirs_made E Q d d"
  by (simp add: dirs_made_def)

lemma is_dir_new: "is_dir_at (m(q \<mapsto> new_dir E d)) q"
  by (simp add: is_dir_at_def new_dir_def)

lemma is_dir_keep: "is_dir_at m q \<Longrightarrow> m k = None \<Longrightarrow> is_dir_at (m(k \<mapsto> n)) q"
  by (auto simp: is_dir_at_def split: option.splits)

lemma dirs_made_new:
  assumes "dk_home d q = None" "dirs_made E Q (d\<lparr>dk_home := (dk_home d)(q \<mapsto> new_dir E d), dk_inode := dk_inode d + 1\<rparr>) d'"
  shows "dirs_made E (insert q Q) d d'"
proof -
  have q: "dk_home d' q = Some (new_dir E d)" "dk_inode d < dk_inode d'"
    using assms(2) by (auto simp: dirs_made_def dest: spec [of _ q])
  have "dk_home d' q' = dk_home d q' \<or> dk_home d q' = None \<and> q' \<in> insert q Q \<and> is_dir_at (dk_home d') q'
      \<and> (\<exists>k < dk_inode d'. map_option nd_id (dk_home d' q') = Some \<lparr>fi_device = pe_device E, fi_inode = k\<rparr>)" for q'
  proof (cases "q' = q")
    case True with q assms(1) show ?thesis by (auto simp: is_dir_at_def new_dir_def)
  next
    case False
    from assms(2) have "dk_home d' q' = ((dk_home d)(q \<mapsto> new_dir E d)) q' \<or> ((dk_home d)(q \<mapsto> new_dir E d)) q' = None \<and> q' \<in> Q
        \<and> is_dir_at (dk_home d') q'
        \<and> (\<exists>k < dk_inode d'. map_option nd_id (dk_home d' q') = Some \<lparr>fi_device = pe_device E, fi_inode = k\<rparr>)"
      unfolding dirs_made_def by simp
    with False show ?thesis by auto
  qed
  with assms(2) show ?thesis by (simp add: dirs_made_def)
qed

lemma open_dirs_wp:
  assumes "list_all (\<lambda>q. is_dir_at (dk_home d) q \<or> create \<and> dk_home d q = None) qs"
  shows "wp (open_dirs E p create qs) (\<lambda>_ d'. dirs_made E (set qs) d d' \<and> list_all (is_dir_at (dk_home d')) qs) (\<lambda>_ _. False) C d"
  using assms
proof (induction qs arbitrary: d)
  case (Cons q qs)
  have dir_after: "is_dir_at (dk_home d2) q" if "dirs_made E Q d1 d2" "is_dir_at (dk_home d1) q" for d1 d2 Q
    using that by (auto simp: dirs_made_def is_dir_at_def split: option.splits dest: spec [of _ q])
  show ?case
  proof (cases "is_dir_at (dk_home d) q")
    case True
    from Cons.prems have "list_all (\<lambda>q. is_dir_at (dk_home d) q \<or> create \<and> dk_home d q = None) qs" by simp
    from wp_mono [OF Cons.IH [OF this], where Q' = "\<lambda>_ d'. dirs_made E (set (q # qs)) d d' \<and> list_all (is_dir_at (dk_home d')) (q # qs)"
        and F' = "\<lambda>_ _. False" and C' = C]
    show ?thesis using True dir_after by (fastforce simp: dirs_made_def)
  next
    case False
    let ?d = "d\<lparr>dk_home := (dk_home d)(q \<mapsto> new_dir E d), dk_inode := dk_inode d + 1\<rparr>"
    from False Cons.prems have q: "create" "dk_home d q = None" by simp_all
    have "list_all (\<lambda>q. is_dir_at (dk_home ?d) q \<or> create \<and> dk_home ?d q = None) qs"
      using Cons.prems q is_dir_keep [where m = "dk_home d" and k = q, OF _ q(2)] is_dir_new by (auto simp: list_all_iff)
    then have "wp (open_dirs E p create qs) (\<lambda>_ d'. dirs_made E (set (q # qs)) d d' \<and> list_all (is_dir_at (dk_home d')) (q # qs))
        (\<lambda>_ _. False) C ?d"
    proof (rule wp_mono [OF Cons.IH])
      fix d'
      assume A: "dirs_made E (set qs) ?d d' \<and> list_all (is_dir_at (dk_home d')) qs"
      have "is_dir_at (dk_home ?d) q" using is_dir_new [of "dk_home d" q E d] by simp
      with A show "dirs_made E (set (q # qs)) d d' \<and> list_all (is_dir_at (dk_home d')) (q # qs)"
        using dirs_made_new [OF q(2), of E "set qs" d'] dir_after [of "set qs" ?d d'] by auto
    qed simp_all
    with False q show ?thesis by simp
  qed
qed simp

lemma dirs_made_touches: "dirs_made E (set (above (doc J i))) d d' \<Longrightarrow> touches J i d d'"
  unfolding dirs_made_def touches_def by (metis (no_types, lifting))

lemma dirs_made_fresh:
  assumes "fresh_ids E d" "dirs_made E Q d d'"
  shows "fresh_ids E d'"
  unfolding fresh_ids_def
proof (intro ballI impI)
  fix n
  assume n: "n \<in> ran (dk_home d') \<union> ran (dk_slots d')" "fi_device (nd_id n) = pe_device E"
  have mono: "dk_inode d \<le> dk_inode d'" using assms(2) by (simp add: dirs_made_def)
  from n(1) consider (old) "n \<in> ran (dk_home d) \<union> ran (dk_slots d)" | (new) q where "dk_home d' q = Some n" "dk_home d' q \<noteq> dk_home d q"
    using assms(2) unfolding dirs_made_def ran_def by (smt (verit) Un_iff mem_Collect_eq)
  then show "fi_inode (nd_id n) < dk_inode d'"
  proof cases
    case old with n(2) assms(1) mono show ?thesis unfolding fresh_ids_def by (metis less_le_trans)
  next
    case new
    with assms(2) have "\<exists>k < dk_inode d'. map_option nd_id (dk_home d' q) = Some \<lparr>fi_device = pe_device E, fi_inode = k\<rparr>"
      unfolding dirs_made_def by metis
    with new show ?thesis by auto
  qed
qed

lemma dirs_made_doc: "batch_ok task J \<Longrightarrow> i < changes_of J \<Longrightarrow> dirs_made E (set (above (doc J i))) d d' \<Longrightarrow> dk_home d' (doc J i) = dk_home d (doc J i)"
  unfolding dirs_made_def using batch_apart by metis

lemma moving_after_dirs:
  assumes S: "steady E task H J d" and R: "on_disk E J d" and i: "jo_next J < changes_of J" "jo_next J \<notin> jo_kept J"
    and m: "jo_pending J = Some m" and D: "dirs_made E (set (above (doc J (jo_next J)))) d d'"
  shows "steady E task H J d'" "on_disk E J d'"
proof -
  note B = steadyD(1) [OF S]
  have T: "touches J (jo_next J) d d'" by (rule dirs_made_touches [OF D])
  have M: "moving_at J d (jo_next J) m" using steadyD(5) [OF S i] m by (simp add: stage_at_def)
  have "dk_home d' (doc J (jo_next J)) = dk_home d (doc J (jo_next J))" "dk_slots d' = dk_slots d"
    using dirs_made_doc [OF B i(1) D] D by (simp_all add: dirs_made_def)
  with M touches_parents(1) [OF B T i(1) i(1)] have "moving_at J d' (jo_next J) m"
    using stands_cong [of "dk_home d'" "doc J (jo_next J)" "dk_home d" "doc J (jo_next J)"] by (simp add: moving_at_def)
  then have "steady E task H (J\<lparr>jo_pending := Some m\<rparr>) d'"
    by (intro steady_touch(1) [OF S refl i T dirs_made_fresh [OF steadyD(2) [OF S] D]]) simp
  then show "steady E task H J d'" using same_pending [OF m] by simp
  show "on_disk E J d'" using R D by (simp add: on_disk_def dirs_made_def)
qed

text \<open>The exchange itself, when both sides are as they should be.\<close>

definition swapped :: "path \<Rightarrow> path \<Rightarrow> disk \<Rightarrow> disk" where
  "swapped p s d = d\<lparr>dk_home := (dk_home d)(p := dk_slots d s), dk_slots := (dk_slots d)(s := dk_home d p)\<rparr>"

lemma swapped_simps [simp]:
  "dk_home (swapped p s d) q = (if q = p then dk_slots d s else dk_home d q)"
  "dk_slots (swapped p s d) q = (if q = s then dk_home d p else dk_slots d q)"
  "dk_restore (swapped p s d) = dk_restore d" "dk_published (swapped p s d) = dk_published d"
  "dk_record (swapped p s d) = dk_record d" "dk_review (swapped p s d) = dk_review d" "dk_inode (swapped p s d) = dk_inode d"
  "dk_trace (swapped p s d) = dk_trace d"
  by (simp_all add: swapped_def)

lemma exchange_wp:
  assumes "v \<noteq> w" "v = None \<longleftrightarrow> dk_home d p = None" "w = None \<longleftrightarrow> dk_slots d s = None" "Q () (swapped p s d)"
  shows "wp (exchange_names (v \<noteq> None) (w \<noteq> None) p s) Q F C d"
proof -
  have swap: "d\<lparr>dk_slots := a, dk_home := b\<rparr> = d\<lparr>dk_home := b, dk_slots := a\<rparr>" for a b by simp
  show ?thesis
    using assms by (cases v; cases w) (auto simp: exchange_names_def swapped_def swap)
qed

lemma swapped_fresh: "fresh_ids E d \<Longrightarrow> fresh_ids E (swapped p s d)"
  unfolding fresh_ids_def ran_def by (auto split: if_splits)

lemma swapped_touches: "touches J i d (swapped (doc J i) (slot J i) d)"
  by (simp add: touches_def)

lemma make_move_alt:
  "make_move E J m = (let i = jo_next J in
     bind_io (read_io (\<lambda>d. file_id_at (dk_home d) (doc J i))) (\<lambda>at_target.
     bind_io (read_io (\<lambda>d. file_id_at (dk_slots d) (slot J i))) (\<lambda>at_slot.
       if at_target = pm_original m \<and> at_slot = pm_proposed m
       then then_io (check_sides (doc J i) (slot J i) (from_v J i) (to_v J i) (from_md J i) (to_md J i))
         (then_io (checkpoint E BeforeRename)
         (then_io (exchange_names (from_v J i \<noteq> None) (to_v J i \<noteq> None) (doc J i) (slot J i))
           (checkpoint E NameChanged)))
       else if at_target \<noteq> pm_proposed m \<or> at_slot \<noteq> pm_original m then fail_io (Conflict (doc J i))
       else return_io ())))"
  by (simp only: make_move_def Let_def case_prod_beta doc_def slot_def from_v_def to_v_def from_md_def to_md_def)

lemma confirm_move_alt:
  "confirm_move E J m = (let i = jo_next J in
     then_io (checkpoint E DirectoriesSynced)
         (bind_io (read_io (\<lambda>d. file_id_at (dk_home d) (doc J i))) (\<lambda>at_target.
          bind_io (read_io (\<lambda>d. file_id_at (dk_slots d) (slot J i))) (\<lambda>at_slot.
            if at_target \<noteq> pm_proposed m \<or> at_slot \<noteq> pm_original m then fail_io (Conflict (doc J i))
            else then_io (read_io (\<lambda>d. check_version (dk_slots d) (slot J i) (from_v J i)))
              (then_io (read_io (\<lambda>d. check_version (dk_home d) (doc J i) (to_v J i)))
              (then_io (read_io (\<lambda>d. meta_check_opt (dk_slots d) (slot J i) (from_md J i)))
                (read_io (\<lambda>d. meta_check_opt (dk_home d) (doc J i) (to_md J i)))))))))"
  by (simp only: confirm_move_def Let_def case_prod_beta doc_def slot_def from_v_def to_v_def from_md_def to_md_def)

text \<open>The move finds its pending mark true of the disk, on either side of the exchange, and ends past it.\<close>

definition past_move :: "pub_env \<Rightarrow> string \<Rightarrow> tree \<Rightarrow> journal \<Rightarrow> disk \<Rightarrow> bool" where
  "past_move E task H J d \<longleftrightarrow> steady E task H J d \<and> on_disk E J d
     \<and> list_all (is_dir_at (dk_home d)) (above (doc J (jo_next J)))
     \<and> (\<exists>m. jo_pending J = Some m \<and> pm_original m \<noteq> pm_proposed m
        \<and> stands (dk_home d) (doc J (jo_next J)) (to_v J (jo_next J)) (to_md J (jo_next J))
        \<and> stands (dk_slots d) (slot J (jo_next J)) (from_v J (jo_next J)) (from_md J (jo_next J))
        \<and> map_option nd_id (dk_home d (doc J (jo_next J))) = pm_proposed m
        \<and> map_option nd_id (dk_slots d (slot J (jo_next J))) = pm_original m)"

lemma past_move_trace [simp]: "past_move E task H J (d\<lparr>dk_trace := t\<rparr>) = past_move E task H J d"
  by (simp add: past_move_def)

lemma past_resumable: "past_move E task H J d \<Longrightarrow> resumable E task H J d"
  unfolding past_move_def by (blast intro: recorded_resumable on_disk_recorded)

lemma swapped_past:
  assumes S: "steady E task H J d" and R: "on_disk E J d" and i: "i = jo_next J" "i < changes_of J" "i \<notin> jo_kept J"
    and m: "jo_pending J = Some m" "pm_original m \<noteq> pm_proposed m"
    and up: "list_all (is_dir_at (dk_home d)) (above (doc J i))"
    and sides: "stands (dk_home d) (doc J i) (from_v J i) (from_md J i)" "stands (dk_slots d) (slot J i) (to_v J i) (to_md J i)"
      "map_option nd_id (dk_home d (doc J i)) = pm_original m" "map_option nd_id (dk_slots d (slot J i)) = pm_proposed m"
  shows "past_move E task H J (swapped (doc J i) (slot J i) d)"
proof -
  let ?d = "swapped (doc J i) (slot J i) d"
  note B = steadyD(1) [OF S]
  have up': "list_all (is_dir_at (dk_home ?d)) (above (doc J i))"
    using touches_parents(2) [OF B swapped_touches i(2) i(2) up] .
  have st: "stands (dk_home ?d) (doc J i) (to_v J i) (to_md J i)" "stands (dk_slots ?d) (slot J i) (from_v J i) (from_md J i)"
    using sides(1,2) stands_cong [of "dk_home ?d" "doc J i" "dk_slots d" "slot J i"]
      stands_cong [of "dk_slots ?d" "slot J i" "dk_home d" "doc J i"] by simp_all
  have "parents_at J ?d i" using up' by (auto simp: parents_at_def list_all_iff)
  then have "moving_at J ?d i m" using st sides(3,4) m(2) by (simp add: moving_at_def)
  then have "steady E task H (J\<lparr>jo_pending := Some m\<rparr>) ?d"
    by (intro steady_touch(1) [OF S i swapped_touches swapped_fresh [OF steadyD(2) [OF S]]]) simp
  then show ?thesis using R up' st sides(3,4) m same_pending [OF m(1)] i(1) by (simp add: past_move_def on_disk_def)
qed

lemma make_move_wp:
  assumes calm: "calm (pe_hook E)" and S: "steady E task H J d" and R: "on_disk E J d"
    and i: "jo_next J < changes_of J" "jo_next J \<notin> jo_kept J" and m: "jo_pending J = Some m"
    and up: "list_all (is_dir_at (dk_home d)) (above (doc J (jo_next J)))"
  shows "wp (make_move E J m) (\<lambda>_. past_move E task H J) (\<lambda>_ _. False) (resumable E task H J) d"
proof -
  let ?i = "jo_next J"
  note B = steadyD(1) [OF S]
  have M: "moving_at J d ?i m" using steadyD(5) [OF S i] m by (simp add: stage_at_def)
  then have ne: "pm_original m \<noteq> pm_proposed m" by (simp add: moving_at_def)
  have res: "resumable E task H J d" by (rule recorded_resumable [OF S on_disk_recorded [OF R]])
  note clear = not_blocked_dirs [OF up]
  show ?thesis
  proof (cases "map_option nd_id (dk_home d (doc J ?i)) = pm_original m")
    case True
    with M ne have sides: "stands (dk_home d) (doc J ?i) (from_v J ?i) (from_md J ?i)" "stands (dk_slots d) (slot J ?i) (to_v J ?i) (to_md J ?i)"
      "map_option nd_id (dk_slots d (slot J ?i)) = pm_proposed m" by (auto simp: moving_at_def)
    have P: "past_move E task H J (swapped (doc J ?i) (slot J ?i) d')"
      if "d' = d\<lparr>dk_trace := t\<rparr>" for d' t
      using swapped_past [of E task H J d' ?i m] S R i m ne up sides True that by simp
    have "wp (exchange_names (from_v J ?i \<noteq> None) (to_v J ?i \<noteq> None) (doc J ?i) (slot J ?i))
        (\<lambda>_. wp (checkpoint E NameChanged) (\<lambda>_. past_move E task H J) (\<lambda>_ _. False) (resumable E task H J))
        (\<lambda>_ _. False) (resumable E task H J) (d\<lparr>dk_trace := dk_trace d @ [dk_home d]\<rparr>)"
      using batch_entry(2) [OF B i(1)] stands_version [OF sides(1)] stands_version [OF sides(2)] P [OF refl]
      by (intro exchange_wp) (simp_all add: wp_calm [OF calm] past_resumable)
    then show ?thesis
      using True sides stands_check [OF sides(1) clear] stands_check [OF sides(2)] stands_id [OF sides(1) clear] stands_id [OF sides(2)] res
      by (simp add: make_move_alt Let_def check_sides_def wp_calm [OF calm])
  next
    case False
    with M have sides: "stands (dk_home d) (doc J ?i) (to_v J ?i) (to_md J ?i)" "stands (dk_slots d) (slot J ?i) (from_v J ?i) (from_md J ?i)"
      "map_option nd_id (dk_home d (doc J ?i)) = pm_proposed m" "map_option nd_id (dk_slots d (slot J ?i)) = pm_original m"
      by (auto simp: moving_at_def)
    then have "past_move E task H J d" using S R up m ne by (simp add: past_move_def)
    with False sides ne stands_id [OF sides(1) clear] stands_id [OF sides(2)] show ?thesis
      by (simp add: make_move_alt Let_def)
  qed
qed

lemma confirm_move_wp:
  assumes calm: "calm (pe_hook E)" and P: "past_move E task H J d" and m: "jo_pending J = Some m"
  shows "wp (confirm_move E J m) (\<lambda>_. past_move E task H J) (\<lambda>_ _. False) (resumable E task H J) d"
proof -
  have clear: "\<not> blocked (dk_home d) (doc J (jo_next J))" by (rule not_blocked_dirs) (use P in \<open>simp add: past_move_def\<close>)
  from P m have sides: "stands (dk_home d) (doc J (jo_next J)) (to_v J (jo_next J)) (to_md J (jo_next J))"
    "stands (dk_slots d) (slot J (jo_next J)) (from_v J (jo_next J)) (from_md J (jo_next J))"
    "map_option nd_id (dk_home d (doc J (jo_next J))) = pm_proposed m"
    "map_option nd_id (dk_slots d (slot J (jo_next J))) = pm_original m" by (auto simp: past_move_def)
  show ?thesis
    using sides P past_resumable [OF P] stands_check [OF sides(1) clear] stands_check [OF sides(2)] stands_id [OF sides(1) clear] stands_id [OF sides(2)]
    by (simp add: confirm_move_alt Let_def wp_calm [OF calm])
qed

end
