(* ===== verification/Publication_Resume.thy ===== *)
theory Publication_Resume
  imports Publication_Recovery
begin

text \<open>
  The loop of a batch and its resumption: without the human, a batch that runs from a steady disk ends
  finished, or leaves, when it is killed, a disk from which another process goes on.
\<close>

section \<open>A whole step\<close>

lemma move_wp:
  assumes calm: "calm (pe_hook E)" and S: "steady E task H J d" and R: "on_disk E J d"
    and i: "jo_next J < changes_of J" "jo_next J \<notin> jo_kept J" and m: "jo_pending J = Some m"
  shows "wp (move_step E J) (\<lambda>_. past_move E task H J) (\<lambda>_ _. False) (resumable E task H J) d"
proof -
  let ?i = "jo_next J"
  note B = steadyD(1) [OF S]
  have "moving_at J d ?i m" using steadyD(5) [OF S i] m by (simp add: stage_at_def)
  then have "list_all (\<lambda>q. is_dir_at (dk_home d) q \<or> to_v J ?i \<noteq> None \<and> dk_home d q = None) (above (doc J ?i))"
    by (simp add: moving_at_def parents_at_def)
  from open_dirs_wp [OF this, where E = E and p = "doc J ?i" and C = "resumable E task H J"]
  have dirs: "wp (parent_dir E (doc J ?i) (to_v J ?i \<noteq> None)) (\<lambda>_ d'. dirs_made E (set (above (doc J ?i))) d d'
      \<and> list_all (is_dir_at (dk_home d')) (above (doc J ?i))) (\<lambda>_ _. False) (resumable E task H J) d"
    using batch_entry(1) [OF B i(1)] by (simp add: parent_dir_def)
  have alt: "move_step E J = bind_io (read_io (\<lambda>d. require IntentMissing (jo_pending J))) (\<lambda>m.
      then_io (parent_dir E (doc J ?i) (to_v J ?i \<noteq> None)) (then_io (make_move E J m) (confirm_move E J m)))"
    by (simp only: move_step_def Let_def doc_def to_v_def)
  have "wp (then_io (make_move E J m) (confirm_move E J m)) (\<lambda>_. past_move E task H J) (\<lambda>_ _. False) (resumable E task H J) d'"
    if "dirs_made E (set (above (doc J ?i))) d d'" "list_all (is_dir_at (dk_home d')) (above (doc J ?i))" for d'
    using make_move_wp [OF calm moving_after_dirs [OF S R i m that(1)] i m that(2)] confirm_move_wp [OF calm _ m]
    by (simp add: wp_mono)
  with dirs m show ?thesis by (simp add: alt require_def wp_mono)
qed

lemma next_entry_alt: "next_entry J = J\<lparr>jo_pending := None, jo_next := jo_next J + 1\<rparr>"
  by (cases J) (simp add: next_entry_def)

lemma past_next:
  assumes P: "past_move E task H J d" and i: "jo_next J < changes_of J" "jo_next J \<notin> jo_kept J"
  shows "steady E task H (next_entry J) d"
proof -
  from P have S: "steady E task H J d" and D: "done_at J d (jo_next J)" by (auto simp: past_move_def done_at_def)
  have "touches J (jo_next J) d d" by (simp add: touches_def)
  from steady_touch(2) [OF S refl i this steadyD(2) [OF S] D] show ?thesis by (simp add: next_entry_alt)
qed

text \<open>What cannot fail needs no handler.\<close>

lemma wp_catch_ok: "wp m Q (\<lambda>_ _. False) C d \<Longrightarrow> wp (catch_io m h) Q F C d"
  unfolding wp_catch by (erule wp_mono) simp_all

lemma step_wp:
  assumes calm: "calm (pe_hook E)" and S: "steady E task H J d" and R: "recorded E J d"
    and i: "jo_next J < changes_of J" "jo_next J \<notin> jo_kept J"
  shows "wp (pub_step E J) (\<lambda>J' d'. (\<exists>m. J' = J\<lparr>jo_pending := Some m\<rparr>) \<and> past_move E task H J' d')
     (\<lambda>_ _. False) (resumable E task H J) d"
proof -
  have "wp (then_io (move_step E J') (return_io J')) (\<lambda>J' d'. (\<exists>m. J' = J\<lparr>jo_pending := Some m\<rparr>) \<and> past_move E task H J' d')
      (\<lambda>_ _. False) (resumable E task H J) d'"
    if "J' = J\<lparr>jo_pending := Some m\<rparr>" "steady E task H J' d'" "on_disk E J' d'" for J' d' m
    using move_wp [OF calm that(2,3)] i that(1) by (auto elim!: wp_mono)
  then have "wp (catch_io (then_io (move_step E J') (return_io J')) (stop_on_conflict E J'))
      (\<lambda>J' d'. (\<exists>m. J' = J\<lparr>jo_pending := Some m\<rparr>) \<and> past_move E task H J' d') (\<lambda>_ _. False) (resumable E task H J) d'"
    if "\<exists>m. J' = J\<lparr>jo_pending := Some m\<rparr> \<and> steady E task H J' d' \<and> on_disk E J' d'" for J' d'
    using that by (blast intro: wp_catch_ok)
  then show ?thesis
    unfolding pub_step_def wp_bind
    by (intro wp_mono [OF wp_catch_ok [OF prepare_wp [OF calm S R i]]])
qed

section \<open>The loop\<close>

definition final_of :: "journal \<Rightarrow> journal" where
  "final_of J = J\<lparr>jo_state := (if jo_undo J then WRolledBack else WCommitted), jo_next := changes_of J, jo_pending := None\<rparr>"

text \<open>The whole batch is done and the journal says so.\<close>

definition finished :: "pub_env \<Rightarrow> string \<Rightarrow> tree \<Rightarrow> journal \<Rightarrow> disk \<Rightarrow> bool" where
  "finished E task H J d \<longleftrightarrow> steady E task H (J\<lparr>jo_pending := None, jo_next := changes_of J\<rparr>) d \<and> on_disk E (final_of J) d"

lemma finished_simps [simp]:
  "finished E task H J (d\<lparr>dk_trace := t\<rparr>) = finished E task H J d"
  "finished E task H (J\<lparr>jo_pending := m\<rparr>) d = finished E task H J d"
  "finished E task H (J\<lparr>jo_next := k\<rparr>) d = finished E task H J d"
  by (simp_all add: finished_def final_of_def)

lemma changed_simps [simp]:
  "journal_changed (J\<lparr>jo_state := s\<rparr>) = journal_changed J" "journal_changed (J\<lparr>jo_next := k\<rparr>) = journal_changed J"
  "journal_changed (J\<lparr>jo_pending := m\<rparr>) = journal_changed J"
  by (simp_all add: journal_changed_def)

lemma finish_wp:
  assumes calm: "calm (pe_hook E)" and S: "steady E task H J d" and R: "recorded E J d" and n: "jo_next J = changes_of J"
  shows "wp (pub_finish E J) (\<lambda>c d'. finished E task H J d' \<and> c = journal_changed J) (\<lambda>_ _. False)
     (\<lambda>d'. resumable E task H J d' \<or> finished E task H J d') d"
proof -
  have none: "jo_pending J = None" using steadyD(1) [OF S] n by (auto simp: batch_ok_def)
  define J' where "J' = J\<lparr>jo_state := (if jo_undo J then WRolledBack else WCommitted)\<rparr>"
  have J': "J' = final_of J" using none n by (cases J) (simp add: J'_def final_of_def)
  have "J = J\<lparr>jo_pending := None, jo_next := changes_of J\<rparr>" using none n by (cases J) simp
  with S have S': "steady E task H (J\<lparr>jo_pending := None, jo_next := changes_of J\<rparr>) d" by metis
  have F: "finished E task H J (d\<lparr>dk_record := Some (cursor.truncate J', pe_digest_cursor E (cursor.truncate J'))\<rparr>)"
    unfolding finished_def steady_record J' [symmetric] using S' saved_on_disk [OF R, of J'] by (simp add: J'_def)
  have "journal_changed J' = journal_changed J" by (simp add: J'_def)
  with F show ?thesis
    by (simp add: pub_finish_def Let_def J'_def [symmetric] wp_calm [OF calm])
qed

lemma skip_steady:
  assumes S: "steady E task H J d" and R: "recorded E J d" and i: "jo_next J < changes_of J" "jo_next J \<in> jo_kept J"
  shows "steady E task H (J\<lparr>jo_next := jo_next J + 1\<rparr>) d" "recorded E (J\<lparr>jo_next := jo_next J + 1\<rparr>) d"
proof -
  note B = steadyD(1) [OF S]
  have none: "jo_pending J = None" using B i by (auto simp: batch_ok_def)
  have "batch_ok task (J\<lparr>jo_next := jo_next J + 1\<rparr>)"
    using batch_next [OF B, of "jo_next J + 1"] i(1) none same_pending [OF none] by simp
  moreover have "stage_at (J\<lparr>jo_next := jo_next J + 1\<rparr>) d j" if "j < changes_of J" "j \<notin> jo_kept J" for j
    using steadyD(5) [OF S that] that(2) i(2) none by (auto simp: stage_at_def less_Suc_eq split: if_splits)
  ultimately show "steady E task H (J\<lparr>jo_next := jo_next J + 1\<rparr>) d" using S by (simp add: steady_def)
  from R obtain r where r: "r \<le> jo_next J" "{r..<jo_next J} \<subseteq> jo_kept J" "on_disk E (J\<lparr>jo_next := r\<rparr>) d"
    by (auto simp: recorded_def)
  then show "recorded E (J\<lparr>jo_next := jo_next J + 1\<rparr>) d"
    unfolding recorded_def using none i(2) by (intro exI [of _ r]) (auto simp: less_Suc_eq)
qed

lemma run_from_wp:
  assumes "calm (pe_hook E)" "steady E task H J d" "recorded E J d" "k = changes_of J - jo_next J"
  shows "wp (pub_run_from E k J) (\<lambda>c d'. finished E task H J d' \<and> c = journal_changed J) (\<lambda>_ _. False)
     (\<lambda>d'. resumable E task H J d' \<or> finished E task H J d') d"
  using assms(2-4)
proof (induction k arbitrary: J d)
  case 0
  have "jo_next J \<le> changes_of J" using steadyD(1) [OF 0(1)] by (simp add: batch_ok_def)
  with 0 show ?case using finish_wp [OF assms(1) 0(1,2)] by simp
next
  case (Suc k)
  then have i: "jo_next J < changes_of J" and k: "k = changes_of J - (jo_next J + 1)" by simp_all
  show ?case
  proof (cases "jo_next J \<in> jo_kept J")
    case True
    from Suc.IH [OF skip_steady [OF Suc.prems(1,2) i True]] k show ?thesis using True by simp
  next
    case False
    have "wp (then_io (save_journal E (next_entry J')) (then_io (checkpoint E StepRecorded) (pub_run_from E k (next_entry J'))))
        (\<lambda>c d'. finished E task H J d' \<and> c = journal_changed J) (\<lambda>_ _. False)
        (\<lambda>d'. resumable E task H J d' \<or> finished E task H J d') d'"
      if J': "J' = J\<lparr>jo_pending := Some m\<rparr>" and P: "past_move E task H J' d'" for J' d' m
    proof -
      define d2 where "d2 = d'\<lparr>dk_record := Some (cursor.truncate (next_entry J'), pe_digest_cursor E (cursor.truncate (next_entry J')))\<rparr>"
      have S2: "steady E task H (next_entry J') d2" using past_next [OF P] i False J' by (simp add: d2_def)
      have "on_disk E J' d'" using P by (simp add: past_move_def)
      then have O2: "on_disk E (next_entry J') d2"
        unfolding d2_def by (intro saved_on_disk [OF on_disk_recorded]) (simp_all add: next_entry_alt)
      have IH: "wp (pub_run_from E k (next_entry J')) (\<lambda>c d'. finished E task H J d' \<and> c = journal_changed J) (\<lambda>_ _. False)
        (\<lambda>d'. resumable E task H J d' \<or> finished E task H J d') (d2\<lparr>dk_trace := t\<rparr>)" for t
        using Suc.IH [of "next_entry J'" "d2\<lparr>dk_trace := t\<rparr>"] S2 on_disk_recorded [OF O2] k
        by (simp add: next_entry_alt J')
      have "resumable E task H J d2"
        using recorded_resumable [OF S2 on_disk_recorded [OF O2]] by (simp add: next_entry_alt J')
      with IH show ?thesis by (simp add: wp_calm [OF assms(1)] d2_def [symmetric])
    qed
    then show ?thesis
      using False by (auto intro!: wp_mono [OF step_wp [OF assms(1) Suc.prems(1,2) i False]])
  qed
qed

lemma run_wp:
  assumes "calm (pe_hook E)" "steady E task H J d" "recorded E J d"
  shows "wp (pub_run E J) (\<lambda>c d'. finished E task H J d' \<and> c = journal_changed J) (\<lambda>_ _. False)
     (\<lambda>d'. resumable E task H J d' \<or> finished E task H J d') d"
  unfolding pub_run_def by (rule run_from_wp [OF assms refl])

section \<open>Another process\<close>

lemma journal_back: "journal_of (cursor.truncate J) \<lparr>pf_review = jo_review J, pf_metadata = jo_metadata J\<rparr> = J"
  by (cases J) (simp add: journal_of_def cursor.defs journal.defs)

lemma read_back:
  assumes "on_disk E J d" "validate_review (jo_review J) = Ok ()" "length (jo_metadata J) = changes_of J"
    "list_all2 metadata_fits (ri_entries (jo_review J)) (jo_metadata J)" "journal_coherent task J"
  shows "read_journal E task d = Ok (Some J)"
proof -
  have "jo_review_hash (cursor.truncate J) = jo_review_hash J" by (cases J) (simp add: cursor.defs)
  with assms show ?thesis by (simp add: read_journal_def on_disk_def journal_back Let_def)
qed

lemma read_steady:
  assumes "steady E task H J d" "on_disk E J d"
  shows "read_journal E task d = Ok (Some J)"
proof -
  from steadyD(1) [OF assms(1)] have "journal_coherent task J"
    unfolding batch_ok_def journal_coherent_def Let_def by auto
  with steadyD(1) [OF assms(1)] show ?thesis
    by (intro read_back [OF assms(2)]) (simp_all only: batch_ok_def)
qed

lemma read_finished:
  assumes "finished E task H J d"
  shows "read_journal E task d = Ok (Some (final_of J))"
proof -
  from assms have B: "batch_ok task (J\<lparr>jo_pending := None, jo_next := changes_of J\<rparr>)" and D: "on_disk E (final_of J) d"
    by (simp_all add: finished_def steady_def)
  have keep: "jo_review (final_of J) = jo_review J" "jo_metadata (final_of J) = jo_metadata J" by (simp_all add: final_of_def)
  from B have "journal_coherent task (final_of J)"
    unfolding batch_ok_def journal_coherent_def Let_def final_of_def by auto
  with B D show ?thesis by (intro read_back) (simp_all add: batch_ok_def keep)
qed

lemma final_changed [simp]: "journal_changed (final_of J) = journal_changed J"
  by (simp add: final_of_def)

lemma recover_wp:
  assumes calm: "calm (pe_hook E)" and d: "resumable E task H J d \<or> finished E task H J d"
  shows "wp (pub_recover E task) (\<lambda>c d'. finished E task H J d' \<and> c = journal_changed J) (\<lambda>_ _. False)
     (\<lambda>d'. resumable E task H J d' \<or> finished E task H J d') d"
  using d
proof
  assume "resumable E task H J d"
  then obtain k m where S: "steady E task H (J\<lparr>jo_pending := m, jo_next := k\<rparr>) d" and O: "on_disk E (J\<lparr>jo_pending := m, jo_next := k\<rparr>) d"
    by (auto simp: resumable_def)
  have "jo_state J \<notin> {WCommitted, WRolledBack}" using steadyD(1) [OF S] by (auto simp: batch_ok_def)
  with run_wp [OF calm S on_disk_recorded [OF O]] read_steady [OF S O] show ?thesis
    by (simp add: pub_recover_def existing_journal_def require_def)
next
  assume F: "finished E task H J d"
  have "jo_state (final_of J) \<in> {WCommitted, WRolledBack}" by (simp add: final_of_def)
  with read_finished [OF F] F show ?thesis by (simp add: pub_recover_def existing_journal_def require_def)
qed

lemma resumable_hook [simp]: "resumable (E\<lparr>pe_hook := h\<rparr>) = resumable E"
  by (simp add: fun_eq_iff resumable_def)

lemma finished_hook [simp]: "finished (E\<lparr>pe_hook := h\<rparr>) = finished E"
  by (simp add: fun_eq_iff finished_def)

lemma returns_when_alive:
  assumes "keeps (\<lambda>_. True) (\<lambda>_. False) m" "wp m Q (\<lambda>_ _. False) C d"
  shows "\<exists>d' x. m d = (d', Returned x) \<and> Q x d'"
  using assms(2) keepsD [OF assms(1), of d]
  by (cases "m d"; cases "snd (m d)") (auto simp: wp_def split: outcome.splits)

text \<open>One process that is left alone ends the batch, whatever the processes before it did.\<close>

lemma recover_undisturbed:
  assumes "resumable E task H J d \<or> finished E task H J d"
  shows "\<exists>d'. pub_recover (E\<lparr>pe_hook := undisturbed\<rparr>) task d = (d', Returned (journal_changed J)) \<and> finished E task H J d'"
proof -
  have "calm (pe_hook (E\<lparr>pe_hook := undisturbed\<rparr>))" by (simp add: calm_def undisturbed_def)
  from recover_wp [OF this, of task H J d] assms
  have "wp (pub_recover (E\<lparr>pe_hook := undisturbed\<rparr>) task) (\<lambda>c d'. finished E task H J d' \<and> c = journal_changed J) (\<lambda>_ _. False)
      (\<lambda>d'. resumable E task H J d' \<or> finished E task H J d') d" by simp
  from returns_when_alive [OF alive.recover_kept this] show ?thesis by auto
qed

text \<open>Any number of processes may be killed on the way.\<close>

lemma recoveries_resumable:
  assumes "calm h" "resumable E task H J d \<or> finished E task H J d"
  shows "resumable E task H J (pub_life (E\<lparr>pe_hook := h\<rparr>) task (replicate n AskRecover) d)
    \<or> finished E task H J (pub_life (E\<lparr>pe_hook := h\<rparr>) task (replicate n AskRecover) d)"
  using assms(2)
proof (induction n arbitrary: d)
  case (Suc n)
  have "wp (pub_recover (E\<lparr>pe_hook := h\<rparr>) task) (\<lambda>c d'. finished E task H J d' \<and> c = journal_changed J) (\<lambda>_ _. False)
     (\<lambda>d'. resumable E task H J d' \<or> finished E task H J d') d"
    using recover_wp [of "E\<lparr>pe_hook := h\<rparr>" task H J d] assms(1) Suc.prems by simp
  then have "resumable E task H J (fst (pub_recover (E\<lparr>pe_hook := h\<rparr>) task d))
      \<or> finished E task H J (fst (pub_recover (E\<lparr>pe_hook := h\<rparr>) task d))"
    by (auto simp: wp_def split: prod.splits outcome.splits)
  from Suc.IH [OF this] show ?case by (simp add: pub_life_def)
qed (simp add: pub_life_def)

end
