(* ===== verification/Publication_Atomic.thy ===== *)
theory Publication_Atomic
  imports Publication_Resume
begin

text \<open>
  The two ends of a publication: what is verified before the first change makes the disk steady, and a
  finished batch is the publication asked for. The contract of publishing and of undoing, stated on
  the documents alone.
\<close>

section \<open>The contract\<close>

definition doc_paths :: "review_index \<Rightarrow> path set" where
  "doc_paths r = en_path ` set (ri_entries r)"

text \<open>Nothing else changes, but for directories on the way to a file.\<close>

definition elsewhere_same :: "review_index \<Rightarrow> tree \<Rightarrow> tree \<Rightarrow> bool" where
  "elsewhere_same r H h \<longleftrightarrow> (\<forall>q. q \<notin> doc_paths r \<longrightarrow>
     h q = H q \<or> H q = None \<and> is_dir_at h q \<and> (\<exists>e \<in> set (ri_entries r). q \<in> set (above (en_path e))))"

text \<open>Every file of the batch has its new version, with the metadata the program decides for it.\<close>

definition published :: "pub_env \<Rightarrow> publication_provenance option \<Rightarrow> review_index \<Rightarrow> disk \<Rightarrow> tree \<Rightarrow> bool" where
  "published E pv r d h \<longleftrightarrow> list_all (\<lambda>e. case entry_metadata E pv e d of
       Inl _ \<Rightarrow> False | Inr m \<Rightarrow> stands h (en_path e) (en_after e) (mp_after m)) (ri_entries r)
     \<and> elsewhere_same r (dk_home d) h"

text \<open>
  A disk a publication can start from: no journal, empty slots, new identities yet unused; modes of 16
  bits; existing files have existing directories above them.
\<close>

definition disk_ready :: "pub_env \<Rightarrow> review_index \<Rightarrow> disk \<Rightarrow> bool" where
  "disk_ready E r d \<longleftrightarrow> dk_record d = None \<and> dk_slots d = Map.empty \<and> fresh_ids E d
     \<and> list_all (\<lambda>e. list_all (\<lambda>v. fp_mode v < 65536) (entry_versions e)
          \<and> (dk_home d (en_path e) = None \<or> list_all (is_dir_at (dk_home d)) (above (en_path e)))) (ri_entries r)"

section \<open>Before the first change\<close>

text \<open>A file of the batch that is as expected, and whose two copies are.\<close>

definition unchanged_doc :: "disk \<Rightarrow> bool \<Rightarrow> entry \<times> meta_pair \<Rightarrow> bool" where
  "unchanged_doc d u em \<longleftrightarrow> is_ok (preflight_entry d u (fst em) (snd em))"

definition copied_doc :: "disk \<Rightarrow> entry \<times> meta_pair \<Rightarrow> bool" where
  "copied_doc d em \<longleftrightarrow> is_ok (preflight_copy (dk_restore d) (en_path (fst em)) (en_before (fst em)) (mp_before (snd em)))
     \<and> is_ok (preflight_copy (dk_published d) (en_path (fst em)) (en_after (fst em)) (mp_after (snd em)))"

text \<open>Preflight keeps exactly the files that have changed, and the rest is as it should be.\<close>

definition kept_exactly :: "disk \<Rightarrow> bool \<Rightarrow> nat \<Rightarrow> (entry \<times> meta_pair) list \<Rightarrow> nat set \<Rightarrow> nat set \<Rightarrow> bool" where
  "kept_exactly d u r xs K K' \<longleftrightarrow> K \<subseteq> K' \<and> K' \<subseteq> K \<union> {r..<r + length xs}
     \<and> (\<forall>j < length xs. (r + j \<notin> K' \<longrightarrow> unchanged_doc d u (xs ! j) \<and> copied_doc d (xs ! j))
          \<and> (r + j \<in> K' \<longrightarrow> r + j \<in> K \<or> \<not> unchanged_doc d u (xs ! j)))"

lemma kept_exactly_Cons:
  assumes "kept_exactly d u (r + 1) xs K1 K'" "K \<subseteq> K1" "K1 \<subseteq> insert r K"
    and "r \<notin> K1 \<longrightarrow> unchanged_doc d u x \<and> copied_doc d x" "r \<in> K1 \<longrightarrow> r \<in> K \<or> \<not> unchanged_doc d u x"
  shows "kept_exactly d u r (x # xs) K K'"
proof -
  from assms(1) have K': "K1 \<subseteq> K'" "K' \<subseteq> K1 \<union> {r + 1..<r + 1 + length xs}"
    and ih: "\<And>j. j < length xs \<Longrightarrow> (r + 1 + j \<notin> K' \<longrightarrow> unchanged_doc d u (xs ! j) \<and> copied_doc d (xs ! j))
       \<and> (r + 1 + j \<in> K' \<longrightarrow> r + 1 + j \<in> K1 \<or> \<not> unchanged_doc d u (xs ! j))"
    by (simp_all add: kept_exactly_def)
  have r: "r \<in> K' \<longleftrightarrow> r \<in> K1" using K' by auto
  have "(r + j \<notin> K' \<longrightarrow> unchanged_doc d u ((x # xs) ! j) \<and> copied_doc d ((x # xs) ! j))
      \<and> (r + j \<in> K' \<longrightarrow> r + j \<in> K \<or> \<not> unchanged_doc d u ((x # xs) ! j))" if "j < length (x # xs)" for j
  proof (cases j)
    case 0 with r assms(4,5) show ?thesis by simp
  next
    case (Suc i) with ih [of i] that assms(3) show ?thesis by auto
  qed
  moreover have "K1 \<union> {r + 1..<r + 1 + length xs} \<subseteq> K \<union> {r..<r + length (x # xs)}" using assms(3) by auto
  with K'(2) have "K' \<subseteq> K \<union> {r..<r + length (x # xs)}" by (rule subset_trans)
  ultimately show ?thesis using K'(1) assms(2) by (auto simp: kept_exactly_def)
qed

lemma preflight_spec:
  "preflight d u k r xs K = Ok K' \<Longrightarrow> kept_exactly d u r xs K K' \<and> (\<not> k \<longrightarrow> K' = K)"
proof (induction xs arbitrary: r K)
  case Nil then show ?case by (simp add: kept_exactly_def)
next
  case (Cons x xs)
  obtain e m where x: "x = (e, m)" by (cases x)
  show ?case
  proof (cases "r \<in> K")
    case True
    with Cons.prems x have "preflight d u k (r + 1) xs K = Ok K'" by simp
    from Cons.IH [OF this] True show ?thesis by (auto intro: kept_exactly_Cons)
  next
    case False
    show ?thesis
    proof (cases "preflight_entry d u e m")
      case (Inl err)
      with Cons.prems x False have k: "k" "preflight d u k (r + 1) xs (insert r K) = Ok K'" by (auto split: if_splits)
      have "\<not> unchanged_doc d u x" using Inl by (simp add: unchanged_doc_def x)
      with Cons.IH [OF k(2)] False k(1) show ?thesis by (auto intro!: kept_exactly_Cons [of d u r xs "insert r K"])
    next
      case (Inr y)
      with Cons.prems x False have "copied_doc d x" "preflight d u k (r + 1) xs K = Ok K'"
        by (auto simp: copied_doc_def split: sum.splits)
      with Cons.IH [of "r + 1" K] Inr False show ?thesis
        by (auto intro: kept_exactly_Cons simp: unchanged_doc_def x)
    qed
  qed
qed

lemma check_clear:
  assumes "check_version m p v = Ok x"
  shows "\<not> blocked m p" "v = None \<longleftrightarrow> m p = None" "v \<noteq> None \<Longrightarrow> \<not> is_dir_at m p"
  using assms by (cases v; auto simp: check_version_def inspect_file_def file_id_at_def is_dir_at_def nd_version_def
      split: option.splits sum.splits if_splits node_kind.splits)+

lemma check_stands:
  assumes "check_version m p v = Ok x" "meta_check_opt m p md = Ok ()" "v = None \<longleftrightarrow> md = None"
  shows "stands m p v md"
proof (cases v)
  case None
  with assms check_clear(2) [OF assms(1)] show ?thesis by simp
next
  case (Some w)
  with assms obtain y where "md = Some y" by auto
  with assms Some show ?thesis
    by (auto simp: stands_Some check_version_def inspect_file_def meta_check_opt_def meta_check_def meta_read_def
        split: option.splits sum.splits if_splits)
qed

lemma unchanged_stands:
  assumes "unchanged_doc d u (e, m)" "metadata_fits e m"
  shows "stands (dk_home d) (en_path e) (fst (versions_of e u)) (fst (metas_of m u))"
proof -
  from assms(1) obtain x where "check_version (dk_home d) (en_path e) (fst (versions_of e u)) = Ok x"
    "meta_check_opt (dk_home d) (en_path e) (fst (metas_of m u)) = Ok ()"
    by (auto simp: unchanged_doc_def preflight_entry_def split: sum.splits)
  then show ?thesis using assms(2) by (intro check_stands) (auto simp: versions_of_def metas_of_def metadata_fits_def)
qed

lemma copied_stands:
  assumes "is_ok (preflight_copy t p v md)" "v \<noteq> None"
  shows "stands t p v md" "\<not> blocked t p"
proof -
  from assms obtain x y where md: "md = Some x" and c: "check_version t p v = Ok y" "meta_check t p x = Ok ()"
    by (auto simp: preflight_copy_def split: option.splits sum.splits)
  show "stands t p v md" by (rule check_stands [OF c(1)]) (use c(2) md assms(2) in \<open>simp_all add: meta_check_opt_def\<close>)
  show "\<not> blocked t p" by (rule check_clear(1) [OF c(1)])
qed

lemma begin_steady:
  assumes B: "batch_ok task J" and J: "jo_next J = 0" "jo_pending J = None" and F: "fresh_ids E d"
    and K: "kept_exactly d (jo_undo J) 0 (zip (ri_entries (jo_review J)) (jo_metadata J)) K0 (jo_kept J)"
    and W: "\<And>j. j < changes_of J \<Longrightarrow> j \<notin> jo_kept J \<Longrightarrow> dk_slots d (slot J j) = None \<and> parents_at J d j"
    and U: "jo_undo J \<or> (\<forall>j. dk_slots d (slot_of True j) = None)"
  shows "steady E task (dk_home d) J d"
proof -
  let ?em = "\<lambda>j. (ri_entries (jo_review J) ! j, jo_metadata J ! j)"
  have len: "length (jo_metadata J) = changes_of J" using B unfolding batch_ok_def by (elim conjE)
  have fits: "list_all2 metadata_fits (ri_entries (jo_review J)) (jo_metadata J)"
    using B unfolding batch_ok_def by (elim conjE)
  have ok: "unchanged_doc d (jo_undo J) (?em j)" "copied_doc d (?em j)" if "j < changes_of J" "j \<notin> jo_kept J" for j
    using K that len by (auto simp: kept_exactly_def)
  have "stands (dk_home d) (doc J j) (from_v J j) (from_md J j)" if "j < changes_of J" "j \<notin> jo_kept J" for j
    using unchanged_stands [OF ok(1) [OF that] list_all2_nthD [OF fits that(1)]]
    by (simp add: doc_def from_v_def from_md_def)
  then have "stage_at J d j" if "j < changes_of J" "j \<notin> jo_kept J" for j
    using W [OF that] that J by (simp add: stage_at_def waiting_at_def)
  moreover have "copies_ready J d"
    unfolding copies_ready_def Let_def using ok(2) copied_stands unfolding copied_doc_def fst_conv snd_conv by blast
  moreover have "others_same J (dk_home d) (dk_home d)" by (simp add: others_same_def)
  ultimately show ?thesis using B F U by (simp add: steady_def)
qed

section \<open>Preparing the batch\<close>

text \<open>Until the journal is written the documents, the tree of the mission and the slots are as they were.\<close>

definition not_begun :: "pub_env \<Rightarrow> disk \<Rightarrow> disk \<Rightarrow> bool" where
  "not_begun E d d' \<longleftrightarrow> dk_home d' = dk_home d \<and> dk_work d' = dk_work d \<and> dk_slots d' = dk_slots d
     \<and> dk_record d' = dk_record d \<and> dk_inode d \<le> dk_inode d'"

lemma not_begun_refl [simp]: "not_begun E d d"
  by (simp add: not_begun_def)

lemma not_begun_fresh: "not_begun E d d' \<Longrightarrow> fresh_ids E d \<Longrightarrow> fresh_ids E d'"
  by (auto simp: not_begun_def fresh_ids_def dest: order.strict_trans2)

lemma not_begun_checkpoint [keep]: "calm (pe_hook E) \<Longrightarrow> keeps (not_begun E d) (not_begun E d) (checkpoint E c)"
  unfolding keeps_def by (intro allI impI, rule wp_calm) (simp_all add: not_begun_def)

lemma not_begun_write [keep]: "a \<noteq> InSlots \<Longrightarrow> keeps (not_begun E d) C (write_copy E a q w v md)"
  unfolding write_copy_def Let_def store_copy_def
  by (intro keep keeps_change) (auto simp: not_begun_def set_area_def split: area.split)

lemma not_begun_copy [keep]:
  "calm (pe_hook E) \<Longrightarrow> a \<noteq> InSlots \<Longrightarrow> keeps (not_begun E d) (not_begun E d) (copy_version E source p a q v md policy)"
  unfolding copy_version_def by (intro keep)

lemma entry_metadata_same:
  assumes "dk_home d' = dk_home d" "dk_work d' = dk_work d"
  shows "entry_metadata E pv e d' = entry_metadata E pv e d"
  by (simp only: entry_metadata_def assms)

lemma map_sum_Some: "map_sum id Some r = Ok x \<Longrightarrow> \<exists>y. x = Some y"
  by (cases r) auto

lemma entry_metadata_fits: "entry_metadata E pv e d = Ok m \<Longrightarrow> metadata_fits e m"
  by (auto simp: entry_metadata_def metadata_fits_def split: sum.splits option.splits dest!: map_sum_Some)

lemma not_begun_copy_opt [keep]:
  "calm (pe_hook E) \<Longrightarrow> a \<noteq> InSlots \<Longrightarrow> keeps (not_begun E d) (not_begun E d) (copy_opt E source p a v md policy)"
  unfolding copy_opt_def by (cases v) (auto intro!: keep)

lemma prepare_copies_wp:
  assumes calm: "calm (pe_hook E)" and "not_begun E d d'"
  shows "wp (prepare_copies E pv es)
     (\<lambda>ms d'. not_begun E d d' \<and> list_all2 (\<lambda>e m. entry_metadata E pv e d = Ok m) es ms)
     (\<lambda>_. not_begun E d) (not_begun E d) d'"
  using assms(2)
proof (induction es arbitrary: d')
  case (Cons e es)
  have same: "entry_metadata E pv e d' = entry_metadata E pv e d"
    using Cons.prems by (intro entry_metadata_same) (simp_all add: not_begun_def)
  show ?case
  proof (cases "entry_metadata E pv e d")
    case (Inl err) with same Cons.prems show ?thesis by simp
  next
    case (Inr m)
    let ?I = "not_begun E d"
    let ?c1 = "copy_opt E dk_home (en_path e) InRestore (en_before e) (mp_before m) CopyOriginal"
    let ?c2 = "copy_opt E dk_work (en_path e) InPublished (en_after e) (mp_after m) CopyProposed"
    let ?Q = "\<lambda>ms d'. ?I d' \<and> list_all2 (\<lambda>e m. entry_metadata E pv e d = Ok m) (e # es) (m # ms)"
    have rest: "wp (prepare_copies E pv es) ?Q (\<lambda>_. ?I) ?I d2" if "?I d2" for d2
      using Cons.IH [OF that] Inr by simp
    have c2: "wp ?c2 (\<lambda>_. wp (prepare_copies E pv es) ?Q (\<lambda>_. ?I) ?I) (\<lambda>_. ?I) ?I d2" if "?I d2" for d2
    proof -
      have "keeps ?I ?I ?c2" by (intro keep calm) simp
      from wp_mono [OF keepsD [OF this that] rest] show ?thesis by simp
    qed
    have "keeps ?I ?I ?c1" by (intro keep calm) simp
    from wp_mono [OF keepsD [OF this Cons.prems] c2]
    have "wp ?c1 (\<lambda>_. wp ?c2 (\<lambda>_. wp (prepare_copies E pv es) ?Q (\<lambda>_. ?I) ?I) (\<lambda>_. ?I) ?I) (\<lambda>_. ?I) ?I d'" by simp
    with Inr same show ?thesis by (simp add: wp_fun)
  qed
qed simp

section \<open>Publishing\<close>

text \<open>The journal a publication opens.\<close>

definition opens :: "pub_env \<Rightarrow> publication_provenance option \<Rightarrow> review_index \<Rightarrow> disk \<Rightarrow> journal \<Rightarrow> bool" where
  "opens E pv r d J \<longleftrightarrow> jo_review J = r \<and> \<not> jo_undo J \<and> jo_kept J = {}
     \<and> list_all2 (\<lambda>e m. entry_metadata E pv e d = Ok m) (ri_entries r) (jo_metadata J)"

lemma check_batch_ok:
  assumes "check_batch es d = Ok ()" "e \<in> set es"
  shows "\<exists>x y. check_version (dk_home d) (en_path e) (en_before e) = Ok x \<and> check_version (dk_work d) (en_path e) (en_after e) = Ok y"
  using assms by (induction es d rule: check_batch.induct) (auto split: sum.splits)

text \<open>No file of a verified batch is under another one: one of them would stand in the way.\<close>

lemma checked_apart:
  assumes "check_batch es d = Ok ()" "e \<in> set es" "f \<in> set es" "en_before e \<noteq> en_after e"
  shows "en_path e \<notin> set (above (en_path f))"
proof
  assume up: "en_path e \<in> set (above (en_path f))"
  obtain x y where e: "check_version (dk_home d) (en_path e) (en_before e) = Ok x" "check_version (dk_work d) (en_path e) (en_after e) = Ok y"
    using check_batch_ok [OF assms(1,2)] by blast
  obtain x' y' where f: "check_version (dk_home d) (en_path f) (en_before f) = Ok x'" "check_version (dk_work d) (en_path f) (en_after f) = Ok y'"
    using check_batch_ok [OF assms(1,3)] by blast
  have "dk_home d (en_path e) = None \<or> is_dir_at (dk_home d) (en_path e)" "dk_work d (en_path e) = None \<or> is_dir_at (dk_work d) (en_path e)"
    using check_clear(1) [OF f(1)] check_clear(1) [OF f(2)] up by (auto simp: blocked_def list_ex_iff)
  then have "en_before e = None" "en_after e = None"
    using check_clear(2,3) [OF e(1)] check_clear(2,3) [OF e(2)] by auto
  with assms(4) show False by simp
qed

text \<open>
  So a mission that replaces a document by a directory of the same name, or a directory by a document,
  is never published: the batch is refused before anything is prepared.
\<close>

lemma file_for_directory_refused:
  assumes "validate_review r = Ok ()" "dk_record d = None"
    and "e \<in> set (ri_entries r)" "f \<in> set (ri_entries r)" "en_path e \<in> set (above (en_path f))"
  shows "\<exists>err. pub_apply E task r now pv d = (d, Failed err)"
proof -
  have "validate_entries None 0 (ri_entries r) = Ok ()" using assms(1) by (simp add: validate_review_def split: if_splits)
  from valid_distinct [OF this] assms(3) have "en_before e \<noteq> en_after e" by (simp add: list_all_iff)
  then have "check_batch (ri_entries r) d \<noteq> Ok ()" using checked_apart [OF _ assms(3,4)] assms(5) by blast
  then obtain err where "check_batch (ri_entries r) d = Err err" by (cases "check_batch (ri_entries r) d") simp_all
  with assms(1,2) show ?thesis
    by (simp add: pub_apply_def bind_io_def then_io_def read_io_def lift_refusal_def read_journal_def fail_io_def)
qed

lemma opened_steady:
  assumes V: "validate_review r = Ok ()" and R: "disk_ready E r d" and CB: "check_batch (ri_entries r) d = Ok ()" and N: "not_begun E d d'"
    and M: "list_all2 (\<lambda>e m. entry_metadata E pv e d = Ok m) (ri_entries r) ms"
    and P: "preflight d' False False 0 (zip (ri_entries r) ms) {} = Ok K"
    and J: "J = new_journal E task \<lparr>pf_review = r, pf_metadata = ms\<rparr> now"
  shows "steady E task (dk_home d) J d'" "opens E pv r d J"
proof -
  have J': "jo_review J = r" "jo_metadata J = ms" "jo_kept J = {}" "\<not> jo_undo J" "jo_next J = 0" "jo_pending J = None"
    "jo_version J = 1" "jo_task J = task" "jo_state J = WApplying"
    by (simp_all add: J new_journal_def)
  from R have slots: "dk_slots d = Map.empty" and fresh: "fresh_ids E d"
    and es: "\<And>e. e \<in> set (ri_entries r) \<Longrightarrow> list_all (\<lambda>v. fp_mode v < 65536) (entry_versions e)
          \<and> (dk_home d (en_path e) = None \<or> list_all (is_dir_at (dk_home d)) (above (en_path e)))"
    by (simp_all add: disk_ready_def list_all_iff)
  have len: "length ms = length (ri_entries r)" using M by (simp add: list_all2_lengthD)
  have fits: "list_all2 metadata_fits (ri_entries r) ms" using M by (rule list_all2_mono) (rule entry_metadata_fits)
  have "validate_entries None 0 (ri_entries r) = Ok ()" using V by (simp add: validate_review_def split: if_splits)
  from valid_distinct [OF this] have change: "en_before e \<noteq> en_after e" if "e \<in> set (ri_entries r)" for e
    using that by (simp add: list_all_iff)
  have apart: "doc J j \<notin> set (above (doc J i))" if "i < changes_of J" "j < changes_of J" for i j
    using checked_apart [OF CB, of "ri_entries r ! j" "ri_entries r ! i"] change that by (simp add: doc_def J')
  have modes: "list_all (\<lambda>e. list_all (\<lambda>v. fp_mode v < 65536) (entry_versions e)) (ri_entries r)"
    using es by (simp add: list_all_iff)
  have B: "batch_ok task J"
    unfolding batch_ok_def using V len fits modes apart by (simp add: J')
  have home: "dk_home d' = dk_home d" and s': "dk_slots d' = Map.empty" using N slots by (simp_all add: not_begun_def)
  have parents: "parents_at J d' j" if "j < changes_of J" for j
  proof -
    have e: "ri_entries r ! j \<in> set (ri_entries r)" using that by (simp add: J')
    obtain x where x: "check_version (dk_home d) (doc J j) (en_before (ri_entries r ! j)) = Ok x"
      using check_batch_ok [OF CB e] by (auto simp: doc_def J')
    show ?thesis
    proof (cases "en_before (ri_entries r ! j)")
      case None
      then have "to_v J j \<noteq> None"
        using batch_entry(2) [OF B that] by (simp add: from_v_def to_v_def versions_of_def J')
      with check_clear(1) [OF x] show ?thesis by (auto simp: parents_at_def blocked_def list_ex_iff list_all_iff home)
    next
      case (Some v)
      with check_clear(2) [OF x] es [OF e] show ?thesis by (auto simp: parents_at_def list_all_iff home doc_def J')
    qed
  qed
  have "kept_exactly d' (jo_undo J) 0 (zip (ri_entries (jo_review J)) (jo_metadata J)) {} (jo_kept J)"
    using preflight_spec [OF P] by (auto simp: J')
  from begin_steady [OF B J'(5,6) not_begun_fresh [OF N fresh] this] parents s'
  have "steady E task (dk_home d') J d'" by (simp add: J')
  then show "steady E task (dk_home d) J d'" by (simp add: home)
  show "opens E pv r d J" using M by (simp add: opens_def J')
qed

lemma apply_wp:
  assumes calm: "calm (pe_hook E)" and R: "disk_ready E r d"
  shows "wp (pub_apply E task r now pv)
     (\<lambda>c d'. \<exists>J. opens E pv r d J \<and> finished E task (dk_home d) J d' \<and> c = journal_changed J)
     (\<lambda>_ d'. dk_home d' = dk_home d \<and> dk_record d' = None)
     (\<lambda>d'. dk_home d' = dk_home d \<and> dk_record d' = None
        \<or> (\<exists>J. opens E pv r d J \<and> (resumable E task (dk_home d) J d' \<or> finished E task (dk_home d) J d'))) d"
    (is "wp _ ?Q ?F ?C d")
proof -
  have none: "dk_record d = None" using R by (simp add: disk_ready_def)
  then have free: "dk_home d' = dk_home d \<and> dk_record d' = None" if "not_begun E d d'" for d'
    using that by (simp add: not_begun_def)
  define launch where "launch ms = (let m = \<lparr>pf_review = r, pf_metadata = ms\<rparr>; J = new_journal E task m now
             in if pe_too_large E m then fail_io (Invalid RecordTooLarge)
                else then_io (change_io (\<lambda>d. d\<lparr>dk_review := Some m\<rparr>))
                  (then_io (save_journal E J) (then_io (checkpoint E JournalStart) (pub_run E J))))" for ms
  have start: "wp (launch ms) ?Q ?F ?C d'"
    if V: "validate_review r = Ok ()" and CB: "check_batch (ri_entries r) d = Ok ()" and N: "not_begun E d d'" and M: "list_all2 (\<lambda>e m. entry_metadata E pv e d = Ok m) (ri_entries r) ms"
      and P: "preflight d' False False 0 (zip (ri_entries r) ms) {} = Ok K" for d' ms K
  proof -
    define J where "J = new_journal E task \<lparr>pf_review = r, pf_metadata = ms\<rparr> now"
    define d2 where "d2 = d'\<lparr>dk_review := Some \<lparr>pf_review = r, pf_metadata = ms\<rparr>,
        dk_record := Some (cursor.truncate J, pe_digest_cursor E (cursor.truncate J))\<rparr>"
    note O = opened_steady [OF V R CB N M P J_def]
    have S: "steady E task (dk_home d) J d2" using O(1) by (simp add: d2_def)
    have D: "on_disk E J d2" by (simp add: on_disk_def d2_def J_def new_journal_def)
    have run: "wp (pub_run E J) ?Q ?F ?C (d2\<lparr>dk_trace := t\<rparr>)" for t
    proof (rule wp_mono [OF run_wp [OF calm, of task "dk_home d" J]])
      show "steady E task (dk_home d) J (d2\<lparr>dk_trace := t\<rparr>)" "recorded E J (d2\<lparr>dk_trace := t\<rparr>)"
        using S on_disk_recorded [OF D] by simp_all
    qed (use O(2) in blast)+
    have C: "?C d2" using recorded_resumable [OF S on_disk_recorded [OF D]] O(2) by blast
    have "wp (then_io (checkpoint E JournalStart) (pub_run E J)) ?Q ?F ?C d2"
      unfolding wp_then by (rule wp_calm [OF calm]) (rule C, rule run)
    then show ?thesis using free [OF N] by (simp add: launch_def Let_def J_def [symmetric] d2_def)
  qed
  show ?thesis
  proof (cases "validate_review r")
    case (Inl e) with none show ?thesis by (simp add: pub_apply_def lift_refusal_def)
  next
    case (Inr u)
    have read: "read_journal E task d = Ok None" using none by (simp add: read_journal_def)
    show ?thesis
    proof (cases "check_batch (ri_entries r) d")
      case (Inl e) with Inr read none show ?thesis by (simp add: pub_apply_def lift_refusal_def)
    next
      case (Inr w)
      then have checked: "check_batch (ri_entries r) d = Ok ()" by simp
      note copies = prepare_copies_wp [where pv = pv and es = "ri_entries r", OF calm not_begun_refl, of d]
      have "wp (prepare_copies E pv (ri_entries r))
          (\<lambda>ms. wp (then_io (read_io (\<lambda>d. preflight d False False 0 (zip (ri_entries r) ms) {})) (launch ms)) ?Q ?F ?C) ?F ?C d"
      proof (rule wp_mono [OF copies])
        fix ms d'
        assume A: "not_begun E d d' \<and> list_all2 (\<lambda>e m. entry_metadata E pv e d = Ok m) (ri_entries r) ms"
        show "wp (then_io (read_io (\<lambda>d. preflight d False False 0 (zip (ri_entries r) ms) {})) (launch ms)) ?Q ?F ?C d'"
        proof (cases "preflight d' False False 0 (zip (ri_entries r) ms) {}")
          case (Inl e) with free [OF A [THEN conjunct1]] show ?thesis unfolding wp_then wp_read by simp
        next
          case (Inr K)
          with start [OF _ checked A [THEN conjunct1] A [THEN conjunct2] Inr] \<open>validate_review r = Ok u\<close>
          show ?thesis unfolding wp_then wp_read by simp
        qed
      qed (use free in blast)+
      with Inr read \<open>validate_review r = Ok u\<close> show ?thesis
        unfolding pub_apply_def launch_def [symmetric] by (simp add: lift_refusal_def)
    qed
  qed
qed

lemma docs_of_all: "jo_review J = r \<Longrightarrow> doc J ` {..<changes_of J} = doc_paths r"
  by (auto simp: doc_def doc_paths_def set_conv_nth)

lemma others_elsewhere:
  assumes "others_same J H h" "jo_review J = r" "jo_kept J = {}"
  shows "elsewhere_same r H h"
  unfolding elsewhere_same_def
proof (intro allI impI)
  fix q
  assume "q \<notin> doc_paths r"
  with docs_of_all [OF assms(2)] assms(3) have "q \<notin> doc J ` ({..<changes_of J} - jo_kept J)" by simp
  with assms(1) have "h q = H q \<or> H q = None \<and> is_dir_at h q \<and> (\<exists>j < changes_of J. q \<in> set (above (doc J j)))"
    unfolding others_same_def by blast
  moreover have "\<exists>e \<in> set (ri_entries r). q \<in> set (above (en_path e))" if "j < changes_of J" "q \<in> set (above (doc J j))" for j
    using that assms(2) by (auto simp: doc_def intro!: bexI [of _ "ri_entries r ! j"])
  ultimately show "h q = H q \<or> H q = None \<and> is_dir_at h q \<and> (\<exists>e \<in> set (ri_entries r). q \<in> set (above (en_path e)))" by blast
qed

lemma finished_done:
  assumes "finished E task H J d" "j < changes_of J" "j \<notin> jo_kept J"
  shows "done_at J d j"
proof -
  have "stage_at (J\<lparr>jo_pending := None, jo_next := changes_of J\<rparr>) d j"
    using assms unfolding finished_def steady_def by simp
  then show ?thesis using assms(2) by (simp add: stage_at_def)
qed

lemma all_changed: "jo_kept J = {} \<Longrightarrow> journal_changed J = index_diff (jo_review J)"
  by (simp add: journal_changed_def filter_True o_def case_prod_beta)

lemma finished_published:
  assumes O: "opens E pv r d J" and F: "finished E task (dk_home d) J d'"
  shows "published E pv r d (dk_home d')" "journal_changed J = index_diff r"
proof -
  from O have J: "jo_review J = r" "\<not> jo_undo J" "jo_kept J = {}"
    and M: "list_all2 (\<lambda>e m. entry_metadata E pv e d = Ok m) (ri_entries r) (jo_metadata J)" by (simp_all add: opens_def)
  have "case entry_metadata E pv (ri_entries r ! j) d of Inl _ \<Rightarrow> False
      | Inr m \<Rightarrow> stands (dk_home d') (en_path (ri_entries r ! j)) (en_after (ri_entries r ! j)) (mp_after m)"
    if j: "j < length (ri_entries r)" for j
    using finished_done [OF F, of j] list_all2_nthD [OF M j] j J
    by (simp add: done_at_def doc_def to_v_def to_md_def versions_of_def metas_of_def)
  then have "list_all (\<lambda>e. case entry_metadata E pv e d of Inl _ \<Rightarrow> False
      | Inr m \<Rightarrow> stands (dk_home d') (en_path e) (en_after e) (mp_after m)) (ri_entries r)"
    by (simp add: list_all_length)
  moreover have "others_same J (dk_home d) (dk_home d')" using F by (simp add: finished_def steady_def)
  ultimately show "published E pv r d (dk_home d')" using others_elsewhere J by (simp add: published_def)
  show "journal_changed J = index_diff r" using all_changed J by simp
qed

text \<open>C4. A publication is a transaction. From a ready disk, with the human leaving the documents alone and
  the process killed at any checkpoint or at none: if publishing returns, every file of the batch has
  its new version and metadata and nothing else has changed, and the reported differences are those of
  the batch; if it fails, the documents are as before and no journal is left; if it was killed, either
  the documents are as before and no journal is left, or after any number of further killed attempts
  one resumption that is not killed ends the whole batch.\<close>

theorem publication_is_a_transaction:
  assumes "calm (pe_hook E)" "disk_ready E r d" "pub_apply E task r now pv d = (d1, out)"
  shows "case out of
      Returned c \<Rightarrow> published E pv r d (dk_home d1) \<and> c = index_diff r
    | Failed e \<Rightarrow> dk_home d1 = dk_home d \<and> dk_record d1 = None
    | Killed \<Rightarrow> dk_home d1 = dk_home d \<and> dk_record d1 = None
        \<or> (\<forall>h n. calm h \<longrightarrow> (case pub_recover (E\<lparr>pe_hook := undisturbed\<rparr>) task
              (pub_life (E\<lparr>pe_hook := h\<rparr>) task (replicate n AskRecover) d1) of
            (d2, Returned c) \<Rightarrow> published E pv r d (dk_home d2) \<and> c = index_diff r | _ \<Rightarrow> False))"
proof -
  have later: "case pub_recover (E\<lparr>pe_hook := undisturbed\<rparr>) task (pub_life (E\<lparr>pe_hook := h\<rparr>) task (replicate n AskRecover) d1) of
      (d2, Returned c) \<Rightarrow> published E pv r d (dk_home d2) \<and> c = index_diff r | _ \<Rightarrow> False"
    if "opens E pv r d J" "resumable E task (dk_home d) J d1 \<or> finished E task (dk_home d) J d1" "calm h" for J h n
    using recover_undisturbed [OF recoveries_resumable [OF that(3,2)], of n] finished_published [OF that(1)] by auto
  note W = wp_run [OF apply_wp [OF assms(1,2)] assms(3)]
  show ?thesis
  proof (cases out)
    case Killed
    with W consider "dk_home d1 = dk_home d \<and> dk_record d1 = None"
      | J where "opens E pv r d J" "resumable E task (dk_home d) J d1 \<or> finished E task (dk_home d) J d1" by auto
    then show ?thesis
    proof cases
      case 1 then show ?thesis using Killed by simp
    next
      case 2 show ?thesis using Killed later [OF 2] by simp
    qed
  next
    case (Failed e) with W show ?thesis by simp
  next
    case (Returned c)
    with W obtain J where "opens E pv r d J" "finished E task (dk_home d) J d1" "c = journal_changed J" by auto
    with finished_published [OF this(1,2)] show ?thesis using Returned by simp
  qed
qed

text \<open>A process killed just after the exchange, before the step is recorded.\<close>

definition killed_late :: hook where
  "killed_late k c h = (if c = NameChanged then None else Some h)"

lemma small_ready: "disk_ready (env_with h) small_review small_disk"
  by (simp add: disk_ready_def small fresh_ids_def entry_versions_def above_def ran_def)

lemma env_hook: "(env_with g)\<lparr>pe_hook := h\<rparr> = env_with h"
  by (simp add: env_with_def)

lemma small_killed:
  "\<exists>d1. pub_apply (env_with killed_late) ''t'' small_review 7 None small_disk = (d1, Killed) \<and> dk_record d1 \<noteq> None"
proof -
  have "wp (pub_apply (env_with killed_late) ''t'' small_review 7 None) (\<lambda>_ _. False) (\<lambda>_ _. False)
      (\<lambda>d. dk_record d \<noteq> None) small_disk"
    unfolding pub_apply_def small_valid by (simp add: small run_defs killed_late_def)
  then show ?thesis by (auto simp: wp_def split: prod.splits outcome.splits)
qed

theorem publication_is_a_transaction_witness:
  "\<exists>d1. pub_apply (env_with killed_late) ''t'' small_review 7 None small_disk = (d1, Killed)
     \<and> (case pub_recover (env_with undisturbed) ''t'' (pub_life (env_with killed_late) ''t'' (replicate 2 AskRecover) d1) of
          (d2, Returned c) \<Rightarrow> published (env_with killed_late) None small_review small_disk (dk_home d2) \<and> c = index_diff small_review
        | _ \<Rightarrow> False)"
proof -
  obtain d1 where d1: "pub_apply (env_with killed_late) ''t'' small_review 7 None small_disk = (d1, Killed)" "dk_record d1 \<noteq> None"
    using small_killed by blast
  have "calm killed_late" by (simp add: calm_def killed_late_def)
  moreover have "calm (pe_hook (env_with killed_late))" by (simp add: calm_def killed_late_def env_with_def)
  ultimately show ?thesis
    using publication_is_a_transaction [OF _ small_ready d1(1)] d1 by (auto simp: env_hook dest: spec [of _ killed_late])
qed

end
