(* ===== verification/Publication_Undo.thy ===== *)
theory Publication_Undo
  imports Publication_Atomic
begin

text \<open>
  Undoing a publication: the files the human has changed since are kept, every other file of the batch
  goes back to its version of before; and a publication followed by its undoing gives back the
  documents as they were.
\<close>

section \<open>What an undoing keeps\<close>

definition undo_keeps :: "journal \<Rightarrow> disk \<Rightarrow> nat set" where
  "undo_keeps J d = jo_kept J \<union> set (filter (\<lambda>j. \<not> unchanged_doc d True (ri_entries (jo_review J) ! j, jo_metadata J ! j))
     [0..<changes_of J])"

text \<open>Every file that is not kept has its version and metadata of before; the kept ones are not touched.\<close>

definition undone :: "journal \<Rightarrow> nat set \<Rightarrow> tree \<Rightarrow> tree \<Rightarrow> bool" where
  "undone J K H h \<longleftrightarrow> list_all (\<lambda>j. let e = ri_entries (jo_review J) ! j in
       if j \<in> K then h (en_path e) = H (en_path e)
       else stands h (en_path e) (en_before e) (mp_before (jo_metadata J ! j))) [0..<changes_of J]
     \<and> elsewhere_same (jo_review J) H h"

text \<open>
  A disk an undoing can start from: no undoing yet, new identities unused; modes of 16 bits, no file of
  the batch under another one (publishing has verified it); existing files have directories above them.
\<close>

definition undo_ready :: "pub_env \<Rightarrow> journal \<Rightarrow> disk \<Rightarrow> bool" where
  "undo_ready E J d \<longleftrightarrow> (\<forall>j. dk_slots d (slot_of True j) = None) \<and> fresh_ids E d
     \<and> list_all (\<lambda>e. list_all (\<lambda>v. fp_mode v < 65536) (entry_versions e)
          \<and> list_all (\<lambda>q. q \<notin> doc_paths (jo_review J)) (above (en_path e))
          \<and> (dk_home d (en_path e) = None \<or> list_all (is_dir_at (dk_home d)) (above (en_path e))))
         (ri_entries (jo_review J))"

lemma journal_of_simps [simp]:
  "cursor.truncate (journal_of c m) = c" "jo_review (journal_of c m) = pf_review m"
  "jo_metadata (journal_of c m) = pf_metadata m" "jo_review_hash (journal_of c m) = jo_review_hash c"
  by (cases c; simp add: journal_of_def cursor.defs journal.defs)+

lemma read_journal_ok:
  assumes "read_journal E task d = Ok (Some J)"
  shows "validate_review (jo_review J) = Ok ()" "length (jo_metadata J) = changes_of J"
    "list_all2 metadata_fits (ri_entries (jo_review J)) (jo_metadata J)" "journal_coherent task J"
    "\<exists>c. dk_record d = Some (c, pe_digest_cursor E c) \<and> c = cursor.truncate J"
    "dk_review d = Some \<lparr>pf_review = jo_review J, pf_metadata = jo_metadata J\<rparr>"
    "jo_review_hash J = pe_digest_manifest E \<lparr>pf_review = jo_review J, pf_metadata = jo_metadata J\<rparr>"
proof -
  obtain c dg where rec: "dk_record d = Some (c, dg)" using assms by (cases "dk_record d") (simp_all add: read_journal_def, metis surj_pair)
  have dg: "dg = pe_digest_cursor E c" using assms by (simp add: read_journal_def rec split: if_splits)
  obtain m where m: "dk_review d = Some m" using assms by (cases "dk_review d") (simp_all add: read_journal_def rec dg)
  have hash: "jo_review_hash c = pe_digest_manifest E m" using assms by (simp add: read_journal_def rec dg m split: if_splits)
  define J' where "J' = journal_of c m"
  obtain u where u: "validate_review (jo_review J') = Ok u"
    using assms by (cases "validate_review (jo_review J')") (simp_all add: read_journal_def rec dg m hash Let_def J'_def [symmetric])
  with assms have "J' = J" and ok: "validate_review (jo_review J) = Ok ()" "length (jo_metadata J) = changes_of J"
    "list_all2 metadata_fits (ri_entries (jo_review J)) (jo_metadata J)" "journal_coherent task J"
    by (simp_all add: read_journal_def rec dg m hash Let_def J'_def [symmetric] split: if_splits)
  note r = rec [unfolded dg] m hash J'_def [unfolded \<open>J' = J\<close>]
  show "validate_review (jo_review J) = Ok ()" "length (jo_metadata J) = changes_of J"
    "list_all2 metadata_fits (ri_entries (jo_review J)) (jo_metadata J)" "journal_coherent task J" by (fact ok)+
  have c: "cursor.truncate J = c" "m = \<lparr>pf_review = jo_review J, pf_metadata = jo_metadata J\<rparr>" "jo_review_hash J = jo_review_hash c"
    unfolding r(4) by simp_all
  from r(1-3) c show "\<exists>c. dk_record d = Some (c, pe_digest_cursor E c) \<and> c = cursor.truncate J"
    "dk_review d = Some \<lparr>pf_review = jo_review J, pf_metadata = jo_metadata J\<rparr>"
    "jo_review_hash J = pe_digest_manifest E \<lparr>pf_review = jo_review J, pf_metadata = jo_metadata J\<rparr>" by simp_all
qed

section \<open>Undoing\<close>

definition undo_journal :: "journal \<Rightarrow> nat set \<Rightarrow> journal" where
  "undo_journal J K = J\<lparr>jo_kept := K, jo_undo := True, jo_next := 0, jo_pending := None, jo_state := WUndoing\<rparr>"

lemma undo_journal_simps [simp]:
  "jo_kept (undo_journal J K) = K" "jo_undo (undo_journal J K)" "jo_next (undo_journal J K) = 0"
  "jo_pending (undo_journal J K) = None" "jo_state (undo_journal J K) = WUndoing"
  "jo_review (undo_journal J K) = jo_review J" "jo_metadata (undo_journal J K) = jo_metadata J"
  "jo_version (undo_journal J K) = jo_version J" "jo_task (undo_journal J K) = jo_task J"
  "jo_review_hash (undo_journal J K) = jo_review_hash J" "doc (undo_journal J K) = doc J"
  by (simp_all add: undo_journal_def fun_eq_iff doc_def)

lemma undo_begins:
  assumes R: "read_journal E task d = Ok (Some J)" and U: "undo_ready E J d"
    and P: "preflight d True k 0 (zip (ri_entries (jo_review J)) (jo_metadata J)) (jo_kept J) = Ok K"
  shows "K = undo_keeps J d" "steady E task (dk_home d) (undo_journal J K) d"
proof -
  note J = read_journal_ok [OF R]
  let ?J = "undo_journal J K"
  have kept0: "\<forall>j \<in> jo_kept J. j < changes_of J" using J(4) by (simp add: journal_coherent_def Let_def)
  from preflight_spec [OF P] have KE: "kept_exactly d True 0 (zip (ri_entries (jo_review J)) (jo_metadata J)) (jo_kept J) K" by simp
  then have sub: "jo_kept J \<subseteq> K" "K \<subseteq> jo_kept J \<union> {0..<changes_of J}"
    and ex: "\<And>j. j < changes_of J \<Longrightarrow> j \<in> K \<longleftrightarrow> j \<in> jo_kept J \<or> \<not> unchanged_doc d True (ri_entries (jo_review J) ! j, jo_metadata J ! j)"
    using J(2) by (auto simp: kept_exactly_def)
  show K: "K = undo_keeps J d"
    using sub ex kept0 by (auto simp: undo_keeps_def)
  from U have es: "\<And>e. e \<in> set (ri_entries (jo_review J)) \<Longrightarrow> list_all (\<lambda>v. fp_mode v < 65536) (entry_versions e)
      \<and> list_all (\<lambda>q. q \<notin> doc_paths (jo_review J)) (above (en_path e))
      \<and> (dk_home d (en_path e) = None \<or> list_all (is_dir_at (dk_home d)) (above (en_path e)))"
    by (simp add: undo_ready_def list_all_iff)
  have apart: "doc J j \<notin> set (above (doc J i))" if "i < changes_of J" "j < changes_of J" for i j
  proof -
    have "doc J j \<in> doc_paths (jo_review J)" using that by (simp add: doc_def doc_paths_def)
    moreover have "list_all (\<lambda>q. q \<notin> doc_paths (jo_review J)) (above (doc J i))"
      using es [of "ri_entries (jo_review J) ! i"] that by (simp add: doc_def)
    ultimately show ?thesis by (auto simp: list_all_iff)
  qed
  have modes: "list_all (\<lambda>e. list_all (\<lambda>v. fp_mode v < 65536) (entry_versions e)) (ri_entries (jo_review J))"
    using es by (simp add: list_all_iff)
  have "K \<subseteq> {..<changes_of J}" using sub(2) kept0 by auto
  moreover have "jo_version J = 1" "jo_task J = task" using J(4) by (simp_all add: journal_coherent_def Let_def)
  ultimately have B: "batch_ok task ?J"
    unfolding batch_ok_def using J(1,2,3) apart modes by simp
  have slots: "dk_slots d (slot ?J j) = None" for j using U by (simp add: undo_ready_def slot_def)
  have parents: "parents_at ?J d j" if "j < changes_of J" "j \<notin> K" for j
  proof -
    let ?e = "ri_entries (jo_review J) ! j"
    have e: "?e \<in> set (ri_entries (jo_review J))" using that by simp
    have "unchanged_doc d True (?e, jo_metadata J ! j)" using ex [OF that(1)] that(2) by simp
    then obtain x where x: "check_version (dk_home d) (doc J j) (en_after ?e) = Ok x"
      by (auto simp: unchanged_doc_def preflight_entry_def versions_of_def doc_def split: sum.splits)
    show ?thesis
    proof (cases "en_after ?e")
      case None
      then have "en_before ?e \<noteq> None"
        using batch_entry(2) [OF B, of j] that by (simp add: from_v_def to_v_def versions_of_def)
      with check_clear(1) [OF x] show ?thesis
        by (auto simp: parents_at_def blocked_def list_ex_iff list_all_iff to_v_def versions_of_def)
    next
      case (Some v)
      with check_clear(2) [OF x] es [OF e] show ?thesis by (auto simp: parents_at_def list_all_iff doc_def)
    qed
  qed
  have "fresh_ids E d" using U by (simp add: undo_ready_def)
  from begin_steady [OF B _ _ this, of "jo_kept J"] KE slots parents
  show "steady E task (dk_home d) ?J d" by simp
qed

lemma undo_runs:
  assumes calm: "calm (pe_hook E)" and R: "read_journal E task d = Ok (Some J)" and U: "undo_ready E J d"
    and P: "preflight d True k 0 (zip (ri_entries (jo_review J)) (jo_metadata J)) (jo_kept J) = Ok K"
    and J: "jo_state J = WCommitted" "card K \<noteq> changes_of J"
  shows "wp (pub_undo E task k)
     (\<lambda>c d'. finished E task (dk_home d) (undo_journal J (undo_keeps J d)) d' \<and> c = journal_changed (undo_journal J (undo_keeps J d)))
     (\<lambda>_ _. False)
     (\<lambda>d'. resumable E task (dk_home d) (undo_journal J (undo_keeps J d)) d'
        \<or> finished E task (dk_home d) (undo_journal J (undo_keeps J d)) d') d"
    (is "wp _ ?Q ?F ?C d")
proof -
  note K = undo_begins(1) [OF R U P] and S = undo_begins(2) [OF R U P]
  define J' where "J' = undo_journal J K"
  define d2 where "d2 = d\<lparr>dk_record := Some (cursor.truncate J', pe_digest_cursor E (cursor.truncate J'))\<rparr>"
  have S2: "steady E task (dk_home d) J' d2" using S by (simp add: d2_def J'_def)
  have D: "on_disk E J' d2" using read_journal_ok(6,7) [OF R] by (simp add: on_disk_def d2_def J'_def)
  have run: "wp (pub_run E J') ?Q ?F ?C (d2\<lparr>dk_trace := t\<rparr>)" for t
  proof (rule wp_mono [OF run_wp [OF calm, of task "dk_home d" J']])
    show "steady E task (dk_home d) J' (d2\<lparr>dk_trace := t\<rparr>)" "recorded E J' (d2\<lparr>dk_trace := t\<rparr>)"
      using S2 on_disk_recorded [OF D] by simp_all
  qed (simp_all add: J'_def K)
  have C: "?C d2" using recorded_resumable [OF S2 on_disk_recorded [OF D]] by (simp add: J'_def K)
  have "wp (then_io (checkpoint E JournalStart) (pub_run E J')) ?Q ?F ?C d2"
    unfolding wp_then by (rule wp_calm [OF calm]) (rule C, rule run)
  with R P J show ?thesis
    by (simp add: pub_undo_def existing_journal_def require_def Let_def undo_journal_def [symmetric] J'_def [symmetric] d2_def)
qed

lemma undo_wp:
  assumes calm: "calm (pe_hook E)" and R: "read_journal E task d = Ok (Some J)" and U: "undo_ready E J d"
  shows "wp (pub_undo E task k)
     (\<lambda>c d'. finished E task (dk_home d) (undo_journal J (undo_keeps J d)) d' \<and> c = journal_changed (undo_journal J (undo_keeps J d)))
     (\<lambda>_ d'. d' = d)
     (\<lambda>d'. resumable E task (dk_home d) (undo_journal J (undo_keeps J d)) d'
        \<or> finished E task (dk_home d) (undo_journal J (undo_keeps J d)) d') d"
proof (cases "preflight d True k 0 (zip (ri_entries (jo_review J)) (jo_metadata J)) (jo_kept J)")
  case (Inl e) with R show ?thesis by (simp add: pub_undo_def existing_journal_def require_def)
next
  case (Inr K)
  show ?thesis
  proof (cases "jo_state J = WCommitted \<and> card K \<noteq> changes_of J")
    case True
    with undo_runs [OF calm R U Inr] show ?thesis by (blast intro: wp_mono)
  next
    case False with R Inr show ?thesis by (auto simp: pub_undo_def existing_journal_def require_def)
  qed
qed

lemma undo_finished_undone:
  assumes R: "read_journal E task d = Ok (Some J)" and U: "undo_ready E J d" and K: "K = undo_keeps J d"
    and F: "finished E task (dk_home d) (undo_journal J K) d'"
  shows "undone J K (dk_home d) (dk_home d')"
proof -
  let ?J = "undo_journal J K"
  have B: "batch_ok task (?J\<lparr>jo_pending := None, jo_next := changes_of J\<rparr>)"
    and O: "others_same ?J (dk_home d) (dk_home d')" using F by (simp_all add: finished_def steady_def)
  have kept: "dk_home d' (doc J j) = dk_home d (doc J j)" if j: "j < changes_of J" "j \<in> K" for j
  proof -
    have "doc J j \<notin> doc J ` ({..<changes_of J} - K)"
      using doc_inj [OF B, of j] j by auto
    with O have "dk_home d' (doc J j) = dk_home d (doc J j) \<or> (\<exists>i < changes_of J. doc J j \<in> set (above (doc J i)))"
      unfolding others_same_def by (auto dest: spec [of _ "doc J j"])
    then show ?thesis using batch_apart [OF B _, of _ j] j by auto
  qed
  have old: "stands (dk_home d') (doc J j) (en_before (ri_entries (jo_review J) ! j)) (mp_before (jo_metadata J ! j))"
    if "j < changes_of J" "j \<notin> K" for j
    using finished_done [OF F, of j] that by (simp add: done_at_def to_v_def to_md_def versions_of_def metas_of_def)
  have "elsewhere_same (jo_review J) (dk_home d) (dk_home d')"
    unfolding elsewhere_same_def
  proof (intro allI impI)
    fix q
    assume "q \<notin> doc_paths (jo_review J)"
    then have "q \<notin> doc ?J ` ({..<changes_of J} - K)" using docs_of_all [of J] by auto
    with O have "dk_home d' q = dk_home d q \<or> dk_home d q = None \<and> is_dir_at (dk_home d') q \<and> (\<exists>j < changes_of J. q \<in> set (above (doc J j)))"
      unfolding others_same_def by (auto dest: spec [of _ q])
    moreover have "\<exists>e \<in> set (ri_entries (jo_review J)). q \<in> set (above (en_path e))" if "j < changes_of J" "q \<in> set (above (doc J j))" for j
      using that by (auto simp: doc_def intro!: bexI [of _ "ri_entries (jo_review J) ! j"])
    ultimately show "dk_home d' q = dk_home d q \<or> dk_home d q = None \<and> is_dir_at (dk_home d') q
        \<and> (\<exists>e \<in> set (ri_entries (jo_review J)). q \<in> set (above (en_path e)))" by blast
  qed
  then show ?thesis using kept old by (simp add: undone_def Let_def list_all_iff doc_def)
qed

text \<open>C16. Undoing keeps what the human has changed since and restores the rest, as a transaction, while
  the human is away: nobody else changes the files during the undoing and its resumptions, and the
  process is killed at any checkpoint or at none. Then, if it returns, every file changed since the
  publication is untouched, every other file of the batch has its version and metadata of before,
  and nothing else has changed; if it fails nothing at all has changed; if it was killed, after any
  number of killed attempts one resumption that is not killed ends the whole undoing. A change made
  in the middle of the undoing is outside: it ends as a conflict, with files already restored.\<close>

theorem undo_is_a_transaction:
  assumes "calm (pe_hook E)" "read_journal E task d = Ok (Some J)" "undo_ready E J d"
    and "pub_undo E task keep_changed d = (d1, out)"
  shows "case out of
      Returned c \<Rightarrow> undone J (undo_keeps J d) (dk_home d) (dk_home d1)
    | Failed e \<Rightarrow> d1 = d
    | Killed \<Rightarrow> (\<forall>h n. calm h \<longrightarrow> (case pub_recover (E\<lparr>pe_hook := undisturbed\<rparr>) task
              (pub_life (E\<lparr>pe_hook := h\<rparr>) task (replicate n AskRecover) d1) of
            (d2, Returned c) \<Rightarrow> undone J (undo_keeps J d) (dk_home d) (dk_home d2) | _ \<Rightarrow> False))"
proof -
  let ?J = "undo_journal J (undo_keeps J d)"
  note W = wp_run [OF undo_wp [OF assms(1-3)] assms(4)]
  note F = undo_finished_undone [OF assms(2,3) refl]
  show ?thesis
  proof (cases out)
    case Killed
    with W have "resumable E task (dk_home d) ?J d1 \<or> finished E task (dk_home d) ?J d1" by simp
    then have "case pub_recover (E\<lparr>pe_hook := undisturbed\<rparr>) task (pub_life (E\<lparr>pe_hook := h\<rparr>) task (replicate n AskRecover) d1) of
        (d2, Returned c) \<Rightarrow> undone J (undo_keeps J d) (dk_home d) (dk_home d2) | _ \<Rightarrow> False" if "calm h" for h n
      using recover_undisturbed [OF recoveries_resumable [OF that], of E task "dk_home d" ?J d1 n] F by auto
    then show ?thesis using Killed by simp
  next
    case (Failed e) with W show ?thesis by simp
  next
    case (Returned c) with W F show ?thesis by simp
  qed
qed

section \<open>There and back\<close>

lemma preflight_all:
  "(\<And>j. j < length xs \<Longrightarrow> unchanged_doc d u (xs ! j) \<and> copied_doc d (xs ! j)) \<Longrightarrow> preflight d u k r xs K = Ok K"
proof (induction xs arbitrary: r)
  case (Cons x xs)
  obtain e m where x: "x = (e, m)" by (cases x)
  have "preflight d u k (r + 1) xs K = Ok K"
    by (rule Cons.IH) (use Cons.prems [of "Suc j" for j] in simp)
  then show ?case using Cons.prems [of 0] x by (auto simp: unchanged_doc_def copied_doc_def)
qed simp

lemma stands_unchanged:
  assumes "stands (dk_home d) (en_path e) (fst (versions_of e u)) (fst (metas_of m u))" "\<not> blocked (dk_home d) (en_path e)"
  shows "unchanged_doc d u (e, m)"
  using stands_check [OF assms] by (simp add: unchanged_doc_def preflight_entry_def)

lemma stands_copied: "v \<noteq> None \<longrightarrow> stands t p v md \<and> \<not> blocked t p \<Longrightarrow> preflight_copy t p v md = Ok ()"
  using stands_check [of t p v md]
  by (cases v) (auto simp: preflight_copy_def stands_Some meta_check_opt_def)

lemma finished_undo_ready:
  assumes F: "finished E task H J d" and J: "\<not> jo_undo J" "jo_kept J = {}"
  shows "undo_ready E (final_of J) d" "undo_keeps (final_of J) d = {}"
    "preflight d True k 0 (zip (ri_entries (jo_review J)) (jo_metadata J)) {} = Ok {}"
proof -
  have S: "steady E task H (J\<lparr>jo_pending := None, jo_next := changes_of J\<rparr>) d" using F by (simp add: finished_def)
  note B = steadyD(1) [OF S]
  have J': "jo_review (final_of J) = jo_review J" "jo_metadata (final_of J) = jo_metadata J" "jo_kept (final_of J) = {}" "doc (final_of J) = doc J"
    by (simp_all add: final_of_def J fun_eq_iff doc_def)
  have len: "length (jo_metadata J) = changes_of J" using B by (simp add: batch_ok_def)
  have fin: "done_at J d j" if "j < changes_of J" for j using finished_done [OF F that] J by simp
  have same: "unchanged_doc d True (ri_entries (jo_review J) ! j, jo_metadata J ! j)" if "j < changes_of J" for j
    using fin [OF that] J by (intro stands_unchanged)
      (simp_all add: done_at_def doc_def to_v_def to_md_def versions_of_def metas_of_def not_blocked_dirs)
  have "copies_ready J d" using S by (simp add: steady_def)
  then have copies: "copied_doc d (ri_entries (jo_review J) ! j, jo_metadata J ! j)" if "j < changes_of J" for j
    using that J stands_copied by (simp add: copied_doc_def copies_ready_def Let_def)
  show keeps: "undo_keeps (final_of J) d = {}" using same by (auto simp: undo_keeps_def J')
  have dirs: "list_all (is_dir_at (dk_home d)) (above (en_path e))" if "e \<in> set (ri_entries (jo_review J))" for e
    using that fin by (auto simp: in_set_conv_nth done_at_def doc_def)
  have modes: "list_all (\<lambda>e. list_all (\<lambda>v. fp_mode v < 65536) (entry_versions e)) (ri_entries (jo_review J))"
    using B unfolding batch_ok_def by simp
  have apart: "list_all (\<lambda>q. q \<notin> doc_paths (jo_review J)) (above (en_path e))" if "e \<in> set (ri_entries (jo_review J))" for e
  proof -
    from that obtain i where "i < changes_of J" "e = ri_entries (jo_review J) ! i" by (auto simp: in_set_conv_nth)
    moreover have "doc J j \<notin> set (above (doc J i))" if "j < changes_of J" for j
      using batch_apart [OF B, of i j] that \<open>i < changes_of J\<close> by simp
    ultimately show ?thesis
      unfolding list_all_iff docs_of_all [OF refl, symmetric] doc_def by auto
  qed
  show "undo_ready E (final_of J) d"
    using S J modes apart dirs unfolding undo_ready_def J' by (auto simp: steady_def list_all_iff)
  show "preflight d True k 0 (zip (ri_entries (jo_review J)) (jo_metadata J)) {} = Ok {}"
    by (rule preflight_all) (use same copies len in simp)
qed

text \<open>The documents of before: each file of the batch with its version and metadata, the rest untouched.\<close>

definition restored :: "review_index \<Rightarrow> disk \<Rightarrow> tree \<Rightarrow> bool" where
  "restored r d h \<longleftrightarrow> list_all (\<lambda>e. stands h (en_path e) (en_before e)
       (case en_before e of None \<Rightarrow> None | Some _ \<Rightarrow> Option.bind (dk_home d (en_path e)) nd_meta)) (ri_entries r)
     \<and> elsewhere_same r (dk_home d) h"

lemma metadata_before:
  "entry_metadata E pv e d = Ok m \<Longrightarrow> mp_before m = (case en_before e of None \<Rightarrow> None
    | Some _ \<Rightarrow> Option.bind (dk_home d (en_path e)) nd_meta)"
  by (cases "en_before e") (auto simp: entry_metadata_def meta_read_def split: sum.splits option.splits if_splits)

lemma opens_before:
  assumes "opens E pv r d J" "j < length (ri_entries r)"
  shows "mp_before (jo_metadata J ! j) = (case en_before (ri_entries r ! j) of None \<Rightarrow> None
    | Some _ \<Rightarrow> Option.bind (dk_home d (en_path (ri_entries r ! j))) nd_meta)"
proof -
  from assms have "entry_metadata E pv (ri_entries r ! j) d = Ok (jo_metadata J ! j)"
    by (auto simp: opens_def dest: list_all2_nthD)
  then show ?thesis by (rule metadata_before)
qed

lemma elsewhere_trans: "elsewhere_same r H h \<Longrightarrow> elsewhere_same r h g \<Longrightarrow> elsewhere_same r H g"
  unfolding elsewhere_same_def by (metis (no_types, lifting) is_dir_at_cong)

text \<open>C17. A publication can be undone. Whatever a publication has done, undoing it when the human has
  changed nothing since succeeds, gives every file of the batch back its version and its metadata of
  before, touches nothing else, and reports the same differences.\<close>

theorem publish_then_undo:
  assumes "calm (pe_hook E)" "disk_ready E r d" "ri_entries r \<noteq> []" "pub_apply E task r now pv d = (d1, Returned c)"
  shows "case pub_undo (E\<lparr>pe_hook := undisturbed\<rparr>) task keep_changed d1 of
    (d2, Returned c') \<Rightarrow> restored r d (dk_home d2) \<and> c' = c | _ \<Rightarrow> False"
proof -
  let ?E = "E\<lparr>pe_hook := undisturbed\<rparr>"
  have calm: "calm (pe_hook ?E)" by (simp add: calm_def undisturbed_def)
  from wp_run [OF apply_wp [OF assms(1,2)] assms(4)] obtain J where O: "opens E pv r d J" and F: "finished E task (dk_home d) J d1"
    and c: "c = journal_changed J" by auto
  from O have J: "jo_review J = r" "\<not> jo_undo J" "jo_kept J = {}" by (simp_all add: opens_def)
  have fin: "jo_review (final_of J) = r" "jo_metadata (final_of J) = jo_metadata J" "jo_kept (final_of J) = {}"
    "jo_state (final_of J) = WCommitted" by (simp_all add: final_of_def J)
  have R: "read_journal ?E task d1 = Ok (Some (final_of J))"
    using F by (intro read_finished [where H = "dk_home d"]) simp
  have F': "finished ?E task (dk_home d) J d1" using F by simp
  note ready = finished_undo_ready [OF F' J(2,3)]
  have P: "preflight d1 True keep_changed 0 (zip (ri_entries (jo_review (final_of J))) (jo_metadata (final_of J)))
      (jo_kept (final_of J)) = Ok {}" using ready(3) fin J by simp
  have ne: "card {} \<noteq> changes_of (final_of J)" using assms(3) by (simp add: fin)
  have "wp (pub_undo ?E task keep_changed) (\<lambda>c' d2. finished ?E task (dk_home d1) (undo_journal (final_of J) {}) d2
      \<and> c' = journal_changed (undo_journal (final_of J) {})) (\<lambda>_ _. False)
      (\<lambda>d2. resumable ?E task (dk_home d1) (undo_journal (final_of J) {}) d2
        \<or> finished ?E task (dk_home d1) (undo_journal (final_of J) {}) d2) d1"
    using undo_runs [OF calm R ready(1) P fin(4) ne] ready(2) by simp
  from returns_when_alive [OF alive.undo_kept this] obtain d2 where undo: "pub_undo ?E task keep_changed d1
      = (d2, Returned (journal_changed (undo_journal (final_of J) {})))"
    and F2: "finished ?E task (dk_home d1) (undo_journal (final_of J) {}) d2" by auto
  have same: "journal_changed (undo_journal (final_of J) {}) = c"
    using all_changed [of J] all_changed [of "undo_journal (final_of J) {}"] J fin c by simp
  have U: "undone (final_of J) {} (dk_home d1) (dk_home d2)"
    by (rule undo_finished_undone [OF R ready(1) _ F2]) (simp add: ready(2))
  have "elsewhere_same r (dk_home d) (dk_home d2)"
    using finished_published(1) [OF O F] U by (auto simp: published_def undone_def fin intro: elsewhere_trans)
  then have "restored r d (dk_home d2)"
    using U opens_before [OF O] by (simp add: restored_def undone_def fin Let_def list_all_length)
  then show ?thesis using undo same by simp
qed

lemma small_returns:
  "\<exists>d1 c. pub_apply (env_with undisturbed) ''t'' small_review 7 None small_disk = (d1, Returned c)"
proof -
  have "wp (pub_apply (env_with undisturbed) ''t'' small_review 7 None) (\<lambda>_ _. True) (\<lambda>_ _. False) (\<lambda>_. False) small_disk"
    unfolding pub_apply_def small_valid by (simp add: small run_defs)
  then show ?thesis by (auto simp: wp_def split: prod.splits outcome.splits)
qed

lemma small_calm: "calm (pe_hook (env_with undisturbed))"
  by (simp add: calm_def undisturbed_def env_with_def)

theorem publish_then_undo_witness:
  "\<exists>d1 c. pub_apply (env_with undisturbed) ''t'' small_review 7 None small_disk = (d1, Returned c)
     \<and> (case pub_undo (env_with undisturbed) ''t'' False d1 of
          (d2, Returned c') \<Rightarrow> restored small_review small_disk (dk_home d2) \<and> c' = c | _ \<Rightarrow> False)"
proof -
  obtain d1 c where d1: "pub_apply (env_with undisturbed) ''t'' small_review 7 None small_disk = (d1, Returned c)"
    using small_returns by blast
  have "ri_entries small_review \<noteq> []" by (simp add: small)
  from publish_then_undo [OF small_calm small_ready this d1, of False] d1 show ?thesis by (auto simp: env_hook)
qed

theorem undo_is_a_transaction_witness:
  "\<exists>d J. read_journal (env_with undisturbed) ''t'' d = Ok (Some J) \<and> jo_state J = WCommitted
     \<and> (case pub_undo (env_with undisturbed) ''t'' True d of
          (d1, Returned c) \<Rightarrow> undone J (undo_keeps J d) (dk_home d) (dk_home d1) | (d1, Failed e) \<Rightarrow> d1 = d | _ \<Rightarrow> True)"
proof -
  obtain d c where d: "pub_apply (env_with undisturbed) ''t'' small_review 7 None small_disk = (d, Returned c)"
    using small_returns by blast
  from wp_run [OF apply_wp [OF small_calm small_ready] d] obtain J
    where O: "opens (env_with undisturbed) None small_review small_disk J"
      and F: "finished (env_with undisturbed) ''t'' (dk_home small_disk) J d" by auto
  from O have J: "\<not> jo_undo J" "jo_kept J = {}" by (simp_all add: opens_def)
  have "jo_state (final_of J) = WCommitted" by (simp add: final_of_def J)
  with undo_is_a_transaction [OF small_calm read_finished [OF F] finished_undo_ready(1) [OF F J] surjective_pairing, of True]
    read_finished [OF F] show ?thesis
    by (intro exI [of _ d] exI [of _ "final_of J"]) (auto split: prod.split outcome.split)
qed

end
