(* ===== verification/Kept_File.thy ===== *)
theory Kept_File
  imports Prophet_Prelude
begin

text \<open>
  A file replaced at once, as the services keep theirs: the new content is written beside, under a
  temporary name, then renamed over the old one. \<open>kept\<close> is what is under the name and beside it; a
  write that fails or is cut leaves \<open>Torn\<close> beside. Each service adds how it prepares the place.
\<close>

section \<open>Replacing\<close>

datatype 'a stored = Whole 'a | Torn

record 'a kept =
  kp_main :: "'a stored option"
  kp_tmp :: "'a stored option"

text \<open>Where a replacement stops: at the removal of the leftover, at the opening, in the writing, at
  the synchronisation, at the renaming, or at the synchronisation of the folder (after it).\<close>

datatype save_fault = NoFault | RemoveFails | OpenFails | WriteFails | SyncFails | RenameFails | FolderFails

definition write_beside :: "save_fault \<Rightarrow> 'a kept \<Rightarrow> 'a \<Rightarrow> 'a kept \<times> bool" where
  "write_beside fault F x =
     (case fault of
        WriteFails \<Rightarrow> (F\<lparr>kp_tmp := Some Torn\<rparr>, False)
      | SyncFails \<Rightarrow> (F\<lparr>kp_tmp := Some (Whole x)\<rparr>, False)
      | RenameFails \<Rightarrow> (F\<lparr>kp_tmp := Some (Whole x)\<rparr>, False)
      | _ \<Rightarrow> (F\<lparr>kp_main := Some (Whole x), kp_tmp := None\<rparr>, True))"

lemma write_beside_main: "write_beside fault F x = (F', ok) \<Longrightarrow>
    kp_main F' = (if ok then Some (Whole x) else kp_main F)"
  by (auto simp: write_beside_def split: save_fault.splits)

end
