(* ===== verification/Presence.thy ===== *)
theory Presence
  imports Machine Kept_File
begin

text \<open>
  The proof that the human is there (\<^verbatim>\<open>crates/capd/src/presence.rs\<close>): a code only the human knows, of
  which the digest is kept, gives a ticket of ten minutes; five wrong codes lock the proof for five
  minutes. Key derivation (\<open>blake3\<close>) is a parameter, random bytes are arguments. The file that keeps
  the digest is written beside and renamed: \<open>kept\<close> is what is under its name and beside, a write that
  fails or is cut leaves \<open>Torn\<close> beside. An instant past year 9999 panics, \<open>None\<close>.
\<close>

section \<open>The file of the code\<close>

text \<open>\<open>create_new\<close> refuses a leftover that could not be removed.\<close>

definition ecrire :: "save_fault \<Rightarrow> 'a kept \<Rightarrow> 'a \<Rightarrow> 'a kept \<times> bool" where
  "ecrire fault F x =
     (if fault = RemoveFails \<and> kp_tmp F \<noteq> None then (F, False)
      else if fault = OpenFails then (F\<lparr>kp_tmp := None\<rparr>, False)
      else write_beside fault F x)"

lemma ecrire_main: "ecrire fault F x = (F', ok) \<Longrightarrow>
    kp_main F' = (if ok then Some (Whole x) else kp_main F)"
  by (auto simp: ecrire_def write_beside_def split: if_splits save_fault.splits)

lemma ecrire_NoFault [simp]: "ecrire NoFault F x = (F\<lparr>kp_main := Some (Whole x), kp_tmp := None\<rparr>, True)"
  by (simp add: ecrire_def write_beside_def)

section \<open>Data\<close>

definition LONGUEUR_MIN :: nat where
  "LONGUEUR_MIN = 6"

definition ECHECS_MAX :: nat where
  "ECHECS_MAX = 5"

definition VERROU :: int where
  "VERROU = seconds 300"

definition DUREE_DU_TICKET :: int where
  "DUREE_DU_TICKET = seconds 600"

definition CONTEXTE :: string where
  "CONTEXTE = ''prophet-os 2026-09-24 code d'approbation v1''"

definition TOURS :: nat where
  "TOURS = 50000"

datatype refus = NonDefini | Verrouille int | Faux nat | TicketInvalide | TropCourt | AncienRequis
  | Stockage

record kdf =
  kd_derive :: "string \<Rightarrow> string \<Rightarrow> string"
  kd_to_hex :: "string \<Rightarrow> string"
  kd_from_hex :: "string \<Rightarrow> string option"

record empreinte =
  em_v :: nat
  em_sel :: string
  em_empreinte :: string

record presence =
  ps_fichier :: bool
  ps_empreinte :: "empreinte option"
  ps_echecs :: nat
  ps_verrou :: "instant option"
  ps_tickets :: "(string, nat \<times> instant) amap"

definition deriver :: "kdf \<Rightarrow> string \<Rightarrow> string \<Rightarrow> string" where
  "deriver K sel code = (kd_derive K CONTEXTE ^^ TOURS) (kd_derive K CONTEXTE (sel @ '':'' @ code))"

definition hex_digit :: "nat \<Rightarrow> char" where
  "hex_digit n = (if n < 10 then char_of (48 + n) else char_of (87 + n))"

definition hex :: "string \<Rightarrow> string" where
  "hex octets = concat (map (\<lambda>b. [hex_digit (byte b div 16), hex_digit (byte b mod 16)]) octets)"

definition nouvelle :: "kdf \<Rightarrow> string \<Rightarrow> string \<Rightarrow> empreinte" where
  "nouvelle K sel_octets code = \<lparr>em_v = 1, em_sel = hex sel_octets,
     em_empreinte = kd_to_hex K (deriver K (hex sel_octets) code)\<rparr>"

definition correspond :: "kdf \<Rightarrow> empreinte \<Rightarrow> string \<Rightarrow> bool" where
  "correspond K E code \<longleftrightarrow> kd_from_hex K (em_empreinte E) = Some (deriver K (em_sel E) code)"

section \<open>Operations\<close>

text \<open>\<open>ouvrir\<close>: a file that is there but does not read stops the service, \<open>None\<close>.\<close>

definition ouvrir :: "empreinte kept \<Rightarrow> presence option" where
  "ouvrir F =
     (case kp_main F of
        Some Torn \<Rightarrow> None
      | Some (Whole E) \<Rightarrow> Some \<lparr>ps_fichier = True, ps_empreinte = Some E, ps_echecs = 0,
          ps_verrou = None, ps_tickets = []\<rparr>
      | None \<Rightarrow> Some \<lparr>ps_fichier = True, ps_empreinte = None, ps_echecs = 0, ps_verrou = None,
          ps_tickets = []\<rparr>)"

definition defini :: "presence \<Rightarrow> bool" where
  "defini P \<longleftrightarrow> ps_empreinte P \<noteq> None"

definition verrou_restant :: "presence \<Rightarrow> instant \<Rightarrow> int option" where
  "verrou_restant P maintenant =
     (case ps_verrou P of
        Some fin \<Rightarrow> if maintenant < fin then Some (max (whole_seconds (fin - maintenant)) 1) else None
      | None \<Rightarrow> None)"

definition comparer :: "kdf \<Rightarrow> presence \<Rightarrow> string \<Rightarrow> instant \<Rightarrow> (presence \<times> (refus + unit)) option" where
  "comparer K P code maintenant =
     (case ps_empreinte P of
        None \<Rightarrow> Some (P, Err NonDefini)
      | Some E \<Rightarrow>
          (case verrou_restant P maintenant of
             Some secondes \<Rightarrow> Some (P, Err (Verrouille secondes))
           | None \<Rightarrow>
               if correspond K E code then Some (P\<lparr>ps_echecs := 0, ps_verrou := None\<rparr>, Ok ())
               else if ECHECS_MAX \<le> ps_echecs P + 1
               then map_option (\<lambda>fin. (P\<lparr>ps_echecs := 0, ps_verrou := Some fin\<rparr>,
                        Err (Verrouille (whole_seconds VERROU)))) (datetime_add maintenant VERROU)
               else Some (P\<lparr>ps_echecs := ps_echecs P + 1\<rparr>,
                      Err (Faux (ECHECS_MAX - (ps_echecs P + 1))))))"

definition definir :: "kdf \<Rightarrow> save_fault \<Rightarrow> string \<Rightarrow> presence \<Rightarrow> empreinte kept \<Rightarrow> string \<Rightarrow> string option
    \<Rightarrow> bool \<Rightarrow> instant \<Rightarrow> (presence \<times> empreinte kept \<times> (refus + unit)) option" where
  "definir K fault sel_octets P F code ancien administrateur maintenant =
     (let poser = (\<lambda>P1.
            let E = nouvelle K sel_octets code;
                (F1, ok) = (if ps_fichier P1 then ecrire fault F E else (F, True))
            in if \<not> ok then (P1, F1, Err Stockage)
               else (P1\<lparr>ps_empreinte := Some E, ps_tickets := [], ps_echecs := 0, ps_verrou := None\<rparr>,
                     F1, Ok ()))
      in if chars_count code < LONGUEUR_MIN then Some (P, F, Err TropCourt)
         else if defini P \<and> \<not> administrateur
         then (case ancien of
                 None \<Rightarrow> Some (P, F, Err AncienRequis)
               | Some a \<Rightarrow>
                   (case comparer K P a maintenant of
                      None \<Rightarrow> None
                    | Some (P1, Inl e) \<Rightarrow> Some (P1, F, Err e)
                    | Some (P1, Inr _) \<Rightarrow> Some (poser P1)))
         else Some (poser P))"

definition current_tickets :: "presence \<Rightarrow> instant \<Rightarrow> presence" where
  "current_tickets P maintenant = P\<lparr>ps_tickets := retain (\<lambda>_ (_, fin). maintenant < fin) (ps_tickets P)\<rparr>"

definition prouver :: "kdf \<Rightarrow> string \<Rightarrow> presence \<Rightarrow> nat \<Rightarrow> string \<Rightarrow> instant
    \<Rightarrow> (presence \<times> (refus + string \<times> instant)) option" where
  "prouver K octets P uid code maintenant =
     (case comparer K P code maintenant of
        None \<Rightarrow> None
      | Some (P1, Inl e) \<Rightarrow> Some (P1, Err e)
      | Some (P1, Inr _) \<Rightarrow>
          let P2 = current_tickets P1 maintenant; ticket = hex octets
          in map_option (\<lambda>fin. (P2\<lparr>ps_tickets := AList.update ticket (uid, fin) (ps_tickets P2)\<rparr>,
                 Ok (ticket, fin))) (datetime_add maintenant DUREE_DU_TICKET))"

definition valider :: "presence \<Rightarrow> nat \<Rightarrow> string \<Rightarrow> instant \<Rightarrow> presence \<times> (refus + unit)" where
  "valider P uid ticket maintenant =
     (let P1 = current_tickets P maintenant
      in (P1, case map_of (ps_tickets P1) ticket of
                Some (proprietaire, _) \<Rightarrow> if proprietaire = uid then Ok () else Err TicketInvalide
              | None \<Rightarrow> Err TicketInvalide))"

section \<open>How the counter, the code and the tickets move\<close>

lemma verrou_restant_None: "verrou_restant P t = None \<longleftrightarrow> (\<forall>fin. ps_verrou P = Some fin \<longrightarrow> fin \<le> t)"
  by (auto simp: verrou_restant_def split: option.splits)

definition right_code :: "kdf \<Rightarrow> presence \<Rightarrow> string \<Rightarrow> bool" where
  "right_code K P code \<longleftrightarrow> (\<exists>E. ps_empreinte P = Some E \<and> correspond K E code)"

lemma comparer_Ok:
  "comparer K P code t = Some (P', Inr u) \<Longrightarrow>
     right_code K P code \<and> P' = P\<lparr>ps_echecs := 0, ps_verrou := None\<rparr>"
  by (auto simp: comparer_def right_code_def split: option.splits if_splits)

lemma comparer_frame:
  "comparer K P code t = Some (P', r) \<Longrightarrow> ps_empreinte P' = ps_empreinte P
     \<and> ps_tickets P' = ps_tickets P \<and> ps_fichier P' = ps_fichier P"
  by (auto simp: comparer_def split: option.splits if_splits)

text \<open>Every ticket after a proof was there before, or is the one the right code has just given.\<close>

lemma prouver_tickets:
  assumes "prouver K octets P uid code t = Some (P', r)" "map_of (ps_tickets P') k = Some (u, fin)"
    "distinct_keys (ps_tickets P)"
  shows "map_of (ps_tickets P) k = Some (u, fin)
     \<or> right_code K P code \<and> k = hex octets \<and> u = uid \<and> fin = t + DUREE_DU_TICKET"
proof (cases "comparer K P code t")
  case None
  then show ?thesis using assms(1) by (simp add: prouver_def)
next
  case (Some x)
  obtain P1 r1 where x: "x = (P1, r1)" by (cases x)
  note frame = comparer_frame [OF Some [unfolded x]]
  show ?thesis
  proof (cases r1)
    case (Inl e)
    then show ?thesis using assms(1,2) Some x frame by (auto simp: prouver_def)
  next
    case (Inr w)
    have "right_code K P code" using comparer_Ok Some Inr x by blast
    moreover have "k = hex octets \<and> (u, fin) = (uid, t + DUREE_DU_TICKET)
        \<or> map_of (ps_tickets (current_tickets P1 t)) k = Some (u, fin)"
      using assms(1,2) Some Inr x
      by (auto simp: prouver_def Let_def datetime_add_def split: if_splits)
    moreover have "map_of (ps_tickets (current_tickets P1 t)) k = Some v
        \<Longrightarrow> map_of (ps_tickets P) k = Some v" for v
      using assms(3) frame by (auto simp: current_tickets_def map_of_retain split: option.splits if_splits)
    ultimately show ?thesis by auto
  qed
qed

lemma prouver_frame:
  "prouver K octets P uid code t = Some (P', r) \<Longrightarrow> distinct_keys (ps_tickets P) \<Longrightarrow>
     ps_empreinte P' = ps_empreinte P \<and> distinct_keys (ps_tickets P') \<and> ps_fichier P' = ps_fichier P"
  by (auto simp: prouver_def current_tickets_def Let_def dest!: comparer_frame
      split: option.splits sum.splits)

lemma prouver_Ok:
  "prouver K octets P uid code t = Some (P', Ok x) \<Longrightarrow> right_code K P code"
  by (auto simp: prouver_def dest!: comparer_Ok split: option.splits sum.splits)

lemma valider_Ok:
  assumes "valider P uid k t = (P', Ok u)" "distinct_keys (ps_tickets P)"
  shows "\<exists>fin. map_of (ps_tickets P) k = Some (uid, fin) \<and> t < fin"
  using assms by (auto simp: valider_def Let_def current_tickets_def map_of_retain
      split: option.splits if_splits)

lemma valider_frame:
  assumes "valider P uid k t = (P', r)" "distinct_keys (ps_tickets P)"
  shows "ps_empreinte P' = ps_empreinte P" "distinct_keys (ps_tickets P')"
    "map_of (ps_tickets P') j = Some v \<Longrightarrow> map_of (ps_tickets P) j = Some v"
  using assms by (auto simp: valider_def Let_def current_tickets_def map_of_retain
      split: option.splits if_splits)

text \<open>A change of code empties the tickets; a refused change leaves them, and the code.\<close>

lemma definir_Ok:
  "definir K fault sel P F code ancien admin t = Some (P', F', Inr u) \<Longrightarrow>
     ps_empreinte P' = Some (nouvelle K sel code) \<and> ps_tickets P' = []"
  by (auto simp: definir_def Let_def split: if_splits option.splits sum.splits prod.splits)

lemma definir_Err:
  "definir K fault sel P F code ancien admin t = Some (P', F', Inl e) \<Longrightarrow>
     ps_empreinte P' = ps_empreinte P \<and> ps_tickets P' = ps_tickets P"
  by (auto simp: definir_def Let_def dest!: comparer_frame
      split: if_splits option.splits sum.splits prod.splits)

section \<open>Guessing the code\<close>

datatype presence_event =
    PvDefinir save_fault string string "string option" bool instant
  | PvProuver string nat string instant
  | PvValider nat string instant

datatype presence_out = PoDefini "refus + unit" | PoTicket "refus + string \<times> instant" | PoValide "refus + unit"

fun presence_step :: "kdf \<Rightarrow> presence \<times> empreinte kept \<Rightarrow> presence_event
    \<Rightarrow> ((presence \<times> empreinte kept) \<times> presence_out) option" where
  "presence_step K (P, F) (PvDefinir fault sel code ancien admin t) =
     map_option (\<lambda>(P', F', r). ((P', F'), PoDefini r)) (definir K fault sel P F code ancien admin t)"
| "presence_step K (P, F) (PvProuver octets uid code t) =
     map_option (\<lambda>(P', r). ((P', F), PoTicket r)) (prouver K octets P uid code t)"
| "presence_step K (P, F) (PvValider uid ticket t) =
     (case valider P uid ticket t of (P', r) \<Rightarrow> Some ((P', F), PoValide r))"

fun pv_time :: "presence_event \<Rightarrow> instant" where
  "pv_time (PvDefinir _ _ _ _ _ t) = t"
| "pv_time (PvProuver _ _ _ t) = t"
| "pv_time (PvValider _ _ t) = t"

text \<open>The code an event presents, and whether it is compared: a code is defined and nothing is locked.\<close>

fun presented :: "presence_event \<Rightarrow> string option" where
  "presented (PvDefinir _ _ code (Some a) False t) = (if chars_count code < LONGUEUR_MIN then None else Some a)"
| "presented (PvProuver _ _ code t) = Some code"
| "presented _ = None"

lemma presented_definir:
  "presented (PvDefinir fault sel code ancien admin t)
     = (if admin \<or> chars_count code < LONGUEUR_MIN then None else ancien)"
  by (cases ancien; cases admin) simp_all

fun administered :: "presence_event \<Rightarrow> bool" where
  "administered (PvDefinir _ _ _ _ admin _) = admin"
| "administered _ = False"

definition compared :: "presence \<Rightarrow> presence_event \<Rightarrow> bool" where
  "compared P e \<longleftrightarrow> presented e \<noteq> None \<and> defini P \<and> verrou_restant P (pv_time e) = None"

fun attempts :: "kdf \<Rightarrow> presence \<times> empreinte kept \<Rightarrow> presence_event list \<Rightarrow> nat" where
  "attempts K s [] = 0"
| "attempts K s (e # es) =
     (if compared (fst s) e then 1 else 0)
     + (case presence_step K s e of None \<Rightarrow> 0 | Some (s', _) \<Rightarrow> attempts K s' es)"

text \<open>How many wrong codes can still be compared between two instants.\<close>

definition allowance :: "nat \<Rightarrow> instant option \<Rightarrow> instant \<Rightarrow> instant \<Rightarrow> int" where
  "allowance e v t0 T =
     (case v of
        Some fin \<Rightarrow>
          if t0 < fin then (if T < fin then 0 else 5 * (1 + (T - fin) div VERROU))
          else 5 * (1 + (T - t0) div VERROU) - int e
      | None \<Rightarrow> 5 * (1 + (T - t0) div VERROU) - int e)"

lemma VERROU_pos: "0 < VERROU"
  by (simp add: VERROU_def seconds_def)

lemma allowance_later:
  assumes "t0 \<le> t1" "t1 \<le> T" "e < 5"
  shows "allowance e v t1 T \<le> allowance e v t0 T" "0 \<le> allowance e v t0 T"
proof -
  have mono: "(T - b) div VERROU \<le> (T - a) div VERROU" if "a \<le> b" for a b
    using that VERROU_pos by (intro zdiv_mono1) simp_all
  have pos: "0 \<le> (T - a) div VERROU" if "a \<le> T" for a
    using that VERROU_pos by (simp add: pos_imp_zdiv_nonneg_iff)
  show "allowance e v t1 T \<le> allowance e v t0 T"
    using assms mono [of t0 t1] mono [of "the v" t1]
    by (auto simp: allowance_def split: option.splits)
  show "0 \<le> allowance e v t0 T"
    using assms pos [of t0] pos [of "the v"] by (auto simp: allowance_def split: option.splits)
qed

lemma allowance_wrong:
  assumes "t \<le> T" "e < 5" "v = None \<or> (\<exists>fin. v = Some fin \<and> fin \<le> t)"
  shows "e + 1 < 5 \<Longrightarrow> 1 + allowance (e + 1) v t T = allowance e v t T"
    and "\<not> e + 1 < 5 \<Longrightarrow> 1 + allowance 0 (Some (t + VERROU)) t T \<le> allowance e v t T"
    and "1 \<le> allowance e v t T"
proof -
  have unlocked: "allowance f v t T = 5 * (1 + (T - t) div VERROU) - int f" for f
    using assms(3) by (auto simp: allowance_def)
  then show "e + 1 < 5 \<Longrightarrow> 1 + allowance (e + 1) v t T = allowance e v t T" by simp
  have "0 \<le> (T - t) div VERROU"
    using assms(1) VERROU_pos by (simp add: pos_imp_zdiv_nonneg_iff)
  with assms(2) unlocked show "1 \<le> allowance e v t T" by simp
  have "(T - (t + VERROU)) div VERROU = (T - t) div VERROU - 1"
    using VERROU_pos div_add_self1 [of VERROU "T - t - VERROU"] by (simp add: algebra_simps)
  then show "1 + allowance 0 (Some (t + VERROU)) t T \<le> allowance e v t T" if "\<not> e + 1 < 5"
    using that assms(2) unlocked [of e] VERROU_pos \<open>0 \<le> (T - t) div VERROU\<close>
    by (simp add: allowance_def)
qed

definition left :: "presence \<Rightarrow> instant \<Rightarrow> instant \<Rightarrow> int" where
  "left P t T = allowance (ps_echecs P) (ps_verrou P) t T"

lemma comparer_wrong:
  assumes "ps_empreinte P = Some E" "\<not> correspond K E code" "ps_echecs P < 5" "t \<le> T"
  shows "comparer K P code t = Some (P', r) \<Longrightarrow>
      (if verrou_restant P t = None then 1 else 0) + left P' t T \<le> left P t T
      \<and> ps_echecs P' < 5 \<and> (\<exists>e. r = Err e)"
    and "(if verrou_restant P t = None then 1 else 0) \<le> left P t T"
proof -
  note wrong = allowance_wrong [OF assms(4,3), of "ps_verrou P"]
  have free: "ps_verrou P = None \<or> (\<exists>fin. ps_verrou P = Some fin \<and> fin \<le> t)"
    if "verrou_restant P t = None" using that by (cases "ps_verrou P") (auto simp: verrou_restant_None)
  show "(if verrou_restant P t = None then 1 else 0) \<le> left P t T"
    using wrong(3) [OF free] allowance_later(2) [of t t T "ps_echecs P" "ps_verrou P"] assms
    by (simp add: left_def)
  assume "comparer K P code t = Some (P', r)"
  then show "(if verrou_restant P t = None then 1 else 0) + left P' t T \<le> left P t T
      \<and> ps_echecs P' < 5 \<and> (\<exists>e. r = Err e)"
    using assms wrong(1,2) [OF free]
    by (auto simp: comparer_def left_def ECHECS_MAX_def datetime_add_def split: option.splits if_splits)
qed

lemma prouver_wrong:
  assumes "ps_empreinte P = Some E" "\<not> correspond K E code"
    "prouver K octets P uid code t = Some (P', r)"
  obtains e where "comparer K P code t = Some (P', Inl e)"
proof -
  have "\<not> right_code K P code" using assms(1,2) by (simp add: right_code_def)
  with that assms(3) show ?thesis
    by (auto simp: prouver_def dest: comparer_Ok split: option.splits sum.splits)
qed

lemma presence_step_wrong:
  assumes "ps_empreinte P = Some E" "\<not> administered e"
    and "\<And>code. presented e = Some code \<Longrightarrow> \<not> correspond K E code"
    and "ps_echecs P < 5" "pv_time e \<le> T"
  shows "presence_step K (P, F) e = Some ((P', F'), out) \<Longrightarrow>
      (if compared P e then 1 else 0) + left P' (pv_time e) T \<le> left P (pv_time e) T
      \<and> ps_echecs P' < 5 \<and> ps_empreinte P' = Some E"
    and "(if compared P e then 1 else 0) \<le> left P (pv_time e) T"
proof -
  have nonneg: "0 \<le> left P (pv_time e) T"
    using allowance_later(2) assms(4,5) by (simp add: left_def)
  have wrong: "presented e = Some code \<Longrightarrow>
      (if compared P e then 1 else 0) \<le> left P (pv_time e) T" for code
    using comparer_wrong(2) [OF assms(1) assms(3) assms(4,5)] assms(1)
    by (auto simp: compared_def defini_def)
  then show "(if compared P e then 1 else 0) \<le> left P (pv_time e) T"
    using nonneg by (cases "presented e") (auto simp: compared_def)
  assume step: "presence_step K (P, F) e = Some ((P', F'), out)"
  show "(if compared P e then 1 else 0) + left P' (pv_time e) T \<le> left P (pv_time e) T
      \<and> ps_echecs P' < 5 \<and> ps_empreinte P' = Some E"
  proof (cases e)
    case (PvDefinir fault sel code ancien admin t)
    then show ?thesis
      using step assms comparer_wrong(1) [OF assms(1) assms(3) assms(4,5)]
      by (auto simp: compared_def definir_def defini_def Let_def presented_definir
          simp del: presented.simps dest: comparer_frame split: if_splits option.splits sum.splits prod.splits)
  next
    case (PvProuver octets uid code t)
    with step obtain r where "prouver K octets P uid code t = Some (P', r)" by auto
    moreover have "\<not> correspond K E code" using assms(3) PvProuver by simp
    ultimately obtain x where "comparer K P code t = Some (P', Inl x)"
      using prouver_wrong [OF assms(1)] by blast
    then show ?thesis
      using comparer_wrong(1) [OF assms(1) assms(3) assms(4,5)] assms(1) comparer_frame
      by (fastforce simp: PvProuver compared_def defini_def)
  next
    case (PvValider uid ticket t)
    then show ?thesis using step assms
      by (auto simp: compared_def valider_def current_tickets_def Let_def left_def)
  qed
qed

text \<open>
  C33. The code cannot be guessed by trying: of any sequence of proofs, changes of code and tickets
  presented without the right code between two instants, at most five codes per five minutes begun
  are compared with it at all, whatever the peers, the order and the faults of the disk.
\<close>

theorem guesses_bounded:
  assumes "ps_empreinte P = Some E" "ps_echecs P < ECHECS_MAX"
    and "ps_verrou P = None"
    and "\<And>e. e \<in> set es \<Longrightarrow> \<not> administered e"
    and "\<And>e code. e \<in> set es \<Longrightarrow> presented e = Some code \<Longrightarrow> \<not> correspond K E code"
    and "sorted (map pv_time es)" "\<And>e. e \<in> set es \<Longrightarrow> t0 \<le> pv_time e \<and> pv_time e \<le> T" "t0 \<le> T"
  shows "int (attempts K (P, F) es) \<le> 5 * (1 + (T - t0) div VERROU)"
proof -
  have "int (attempts K (P, F) es) \<le> left P t0 T"
    if "ps_empreinte P = Some E" "ps_echecs P < 5" "\<forall>e \<in> set es. \<not> administered e
      \<and> (\<forall>code. presented e = Some code \<longrightarrow> \<not> correspond K E code) \<and> t0 \<le> pv_time e \<and> pv_time e \<le> T"
      "sorted (map pv_time es)" "t0 \<le> T" for P F es t0
    using that
  proof (induction es arbitrary: P F t0)
    case Nil
    then show ?case using allowance_later(2) by (simp add: left_def)
  next
    case (Cons e es)
    have later: "left P (pv_time e) T \<le> left P t0 T"
      using Cons.prems allowance_later(1) by (simp add: left_def)
    note wrong = presence_step_wrong [of P E e K T]
    show ?case
    proof (cases "presence_step K (P, F) e")
      case None
      then show ?thesis using wrong(2) Cons.prems later by force
    next
      case (Some x)
      obtain P' F' out where x: "x = ((P', F'), out)" by (metis surj_pair)
      have "(if compared P e then 1 else 0) + left P' (pv_time e) T \<le> left P (pv_time e) T"
        and next_state: "ps_echecs P' < 5" "ps_empreinte P' = Some E"
        using wrong(1) [of F P' F' out] Some Cons.prems by (auto simp: x)
      moreover have "int (attempts K (P', F') es) \<le> left P' (pv_time e) T"
        using Cons.prems next_state by (intro Cons.IH) auto
      ultimately show ?thesis using later Some by (simp add: x split: if_splits)
    qed
  qed
  from this [of P es t0 F] assms show ?thesis
    by (simp add: left_def allowance_def ECHECS_MAX_def)
qed

text \<open>A derivation that keeps its input, for concrete runs; \<open>d0\<close> is a machine where the code is set.\<close>

definition plain_kdf :: kdf where
  "plain_kdf = \<lparr>kd_derive = (\<lambda>_ s. s), kd_to_hex = (\<lambda>s. s), kd_from_hex = Some\<rparr>"

lemma plain_kdf_correspond:
  "correspond plain_kdf (nouvelle plain_kdf sel code) c \<longleftrightarrow> c = code"
proof -
  have "((\<lambda>s. s) ^^ n) x = x" for n and x :: string
    by (induction n) simp_all
  then show ?thesis by (auto simp: correspond_def nouvelle_def plain_kdf_def deriver_def)
qed

definition locked_door :: presence where
  "locked_door = \<lparr>ps_fichier = True, ps_empreinte = Some (nouvelle plain_kdf ''s'' ''tulipe''),
     ps_echecs = 0, ps_verrou = None, ps_tickets = []\<rparr>"

definition six_tries :: "presence_event list" where
  "six_tries = map (PvProuver ''t'' 1000 ''devine'') [0, 1, 2, 3, 4, 5]"

theorem guesses_bounded_witness:
  "int (attempts plain_kdf (locked_door, \<lparr>kp_main = None, kp_tmp = None\<rparr>) six_tries) \<le> 5"
proof -
  have "int (attempts plain_kdf (locked_door, \<lparr>kp_main = None, kp_tmp = None\<rparr>) six_tries)
      \<le> 5 * (1 + (5 - 0) div VERROU)"
    by (rule guesses_bounded [where E = "nouvelle plain_kdf ''s'' ''tulipe''"])
      (auto simp: locked_door_def six_tries_def plain_kdf_correspond ECHECS_MAX_def)
  then show ?thesis by (simp add: VERROU_def seconds_def)
qed

end
