(* ===== verification/Utf8_Text.thy ===== *)
theory Utf8_Text
  imports Prophet_Prelude
begin

text \<open>
  What Rust's \<open>str\<close> does with text that comes from outside: which bytes are UTF-8, how
  \<open>from_utf8_lossy\<close> replaces the others, the characters of a text, searching and splitting by a
  string or by white space, and comparisons that ignore the case of ASCII letters. A text is the
  list of its bytes.
\<close>

section \<open>UTF-8\<close>

definition in_range :: "nat \<Rightarrow> nat \<Rightarrow> char \<Rightarrow> bool" where
  "in_range lo hi c \<longleftrightarrow> lo \<le> byte c \<and> byte c \<le> hi"

text \<open>The second byte that may follow a first byte of three or of four.\<close>

definition second_of_three :: "char \<Rightarrow> char \<Rightarrow> bool" where
  "second_of_three c d \<longleftrightarrow>
     (if byte c = 224 then in_range 160 191 d
      else if byte c = 237 then in_range 128 159 d
      else in_range 128 191 d)"

definition second_of_four :: "char \<Rightarrow> char \<Rightarrow> bool" where
  "second_of_four c d \<longleftrightarrow>
     (if byte c = 240 then in_range 144 191 d
      else if byte c = 244 then in_range 128 143 d
      else in_range 128 191 d)"

text \<open>How many more bytes the character begun by \<open>c\<close> takes of what follows, and whether it is whole.\<close>

fun take_ok :: "(char \<Rightarrow> bool) list \<Rightarrow> string \<Rightarrow> nat \<times> bool" where
  "take_ok [] s = (0, True)"
| "take_ok (p # ps) [] = (0, False)"
| "take_ok (p # ps) (c # s) =
     (if p c then case take_ok ps s of (n, ok) \<Rightarrow> (Suc n, ok) else (0, False))"

definition scalar_rest :: "char \<Rightarrow> string \<Rightarrow> nat \<times> bool" where
  "scalar_rest c s =
     (if byte c < 128 then (0, True)
      else if in_range 194 223 c then take_ok [is_continuation] s
      else if in_range 224 239 c then take_ok [second_of_three c, is_continuation] s
      else if in_range 240 244 c then take_ok [second_of_four c, is_continuation, is_continuation] s
      else (0, False))"

text \<open>A text cut in its characters and in the fragments that are none, in order.\<close>

function scalars :: "string \<Rightarrow> (string \<times> bool) list" where
  "scalars [] = []"
| "scalars (c # s) =
     (case scalar_rest c s of (n, ok) \<Rightarrow> (c # take n s, ok) # scalars (drop n s))"
  by pat_completeness auto
termination
  by (relation "measure length") auto

definition utf8_valid :: "string \<Rightarrow> bool" where
  "utf8_valid s \<longleftrightarrow> list_all snd (scalars s)"

definition from_utf8 :: "string \<Rightarrow> string option" where
  "from_utf8 s = (if utf8_valid s then Some s else None)"

definition REPLACEMENT :: string where
  "REPLACEMENT = [CHR 0xEF, CHR 0xBF, CHR 0xBD]"

definition from_utf8_lossy :: "string \<Rightarrow> string" where
  "from_utf8_lossy s = concat (map (\<lambda>(part, ok). if ok then part else REPLACEMENT) (scalars s))"

definition str_chars :: "string \<Rightarrow> string list" where
  "str_chars s = map fst (scalars s)"

section \<open>Searching and splitting\<close>

text \<open>\<open>str::find\<close>, as what precedes the first occurrence and what starts with it.\<close>

fun find_str :: "string \<Rightarrow> string \<Rightarrow> (string \<times> string) option" where
  "find_str p [] = (if p = [] then Some ([], []) else None)"
| "find_str p (c # s) =
     (if starts_with p (c # s) then Some ([], c # s)
      else map_option (\<lambda>(a, b). (c # a, b)) (find_str p s))"

definition split_once_str :: "string \<Rightarrow> string \<Rightarrow> (string \<times> string) option" where
  "split_once_str p s = map_option (\<lambda>(a, b). (a, drop (length p) b)) (find_str p s)"

text \<open>\<open>split("\r\n")\<close>.\<close>

fun split_crlf :: "string \<Rightarrow> string list" where
  "split_crlf [] = [[]]"
| "split_crlf [c] = [[c]]"
| "split_crlf (c # d # s) =
     (if c = CHR 0x0D \<and> d = CHR 0x0A then [] # split_crlf s
      else (case split_crlf (d # s) of [] \<Rightarrow> [[c]] | w # ws \<Rightarrow> (c # w) # ws))"

fun take_word :: "string \<Rightarrow> string \<times> string" where
  "take_word [] = ([], [])"
| "take_word (c # s) =
     (if strip_any white_space (c # s) \<noteq> None then ([], c # s)
      else case take_word s of (w, r) \<Rightarrow> (c # w, r))"

lemma take_word_length: "take_word s = (w, r) \<Longrightarrow> length w + length r = length s"
  by (induction s arbitrary: w) (auto split: if_splits prod.splits)

lemma take_word_progress:
  assumes "strip_any white_space s = None" "s \<noteq> []"
  shows "length (snd (take_word s)) < length s"
proof (cases s)
  case (Cons c t)
  then obtain w r where *: "take_word t = (w, r)" by (cases "take_word t")
  with take_word_length [OF *] assms(1) Cons show ?thesis by simp
qed (use assms(2) in simp)

lemma trim_by_done: "strip_any ps (trim_by ps s) = None"
proof (induction ps s rule: trim_by.induct)
  case (1 ps s)
  then show ?case by (subst trim_by.simps) (auto split: option.split simp: trim_by.simps)
qed

function split_whitespace :: "string \<Rightarrow> string list" where
  "split_whitespace s =
     (let t = trim_by white_space s
      in if t = [] then [] else fst (take_word t) # split_whitespace (snd (take_word t)))"
  by pat_completeness auto
termination
proof (relation "measure length", simp)
  fix s t :: string
  assume "t = trim_by white_space s" "t \<noteq> []"
  then have "length (snd (take_word t)) < length t" "length t \<le> length s"
    using take_word_progress [of t] trim_by_done length_trim_by by auto
  then show "(snd (take_word t), s) \<in> measure length" by simp
qed

declare split_whitespace.simps [simp del]

section \<open>Case of ASCII letters\<close>

definition to_ascii_uppercase :: "string \<Rightarrow> string" where
  "to_ascii_uppercase s = map (\<lambda>c. if is_ascii_lowercase c then char_of (byte c - 32) else c) s"

definition eq_ignore_case :: "string \<Rightarrow> string \<Rightarrow> bool" where
  "eq_ignore_case a b \<longleftrightarrow> to_ascii_lowercase a = to_ascii_lowercase b"

lemma eq_ignore_case_refl [simp]: "eq_ignore_case a a"
  by (simp add: eq_ignore_case_def)

section \<open>What holds of them\<close>

lemma scalars_concat: "concat (map fst (scalars s)) = s"
  by (induction s rule: scalars.induct) (auto split: prod.split)

lemma lossy_valid: "utf8_valid s \<Longrightarrow> from_utf8_lossy s = s"
proof -
  have "list_all snd ps \<Longrightarrow> concat (map (\<lambda>(part, ok). if ok then part else REPLACEMENT) ps) = concat (map fst ps)"
    for ps :: "(string \<times> bool) list"
    by (induction ps) auto
  then show "utf8_valid s \<Longrightarrow> from_utf8_lossy s = s"
    by (simp add: from_utf8_lossy_def utf8_valid_def scalars_concat)
qed

lemma take_ok_append: "take_ok ps s = (n, True) \<Longrightarrow> take_ok ps (s @ t) = (n, True)"
  by (induction ps s arbitrary: n rule: take_ok.induct) (auto split: if_splits prod.splits)

lemma take_ok_length: "take_ok ps s = (n, True) \<Longrightarrow> n \<le> length s"
  by (induction ps s arbitrary: n rule: take_ok.induct) (auto split: if_splits prod.splits)

lemma scalar_rest_append: "scalar_rest c s = (n, True) \<Longrightarrow> scalar_rest c (s @ t) = (n, True) \<and> n \<le> length s"
  by (auto simp: scalar_rest_def take_ok_append take_ok_length split: if_splits)

text \<open>Text goes on after whole characters as it would alone.\<close>

lemma scalars_append: "utf8_valid s \<Longrightarrow> scalars (s @ t) = scalars s @ scalars t"
proof (induction s rule: scalars.induct)
  case (2 c s)
  obtain n ok where r: "scalar_rest c s = (n, ok)" by fastforce
  with 2(2) have "ok" "utf8_valid (drop n s)" by (simp_all add: utf8_valid_def)
  with 2(1) [OF r [symmetric]] r scalar_rest_append [of c s n t] show ?case by simp
qed simp

lemma utf8_append: "utf8_valid s \<Longrightarrow> utf8_valid (s @ t) \<longleftrightarrow> utf8_valid t"
  by (simp add: utf8_valid_def [of "s @ t"] utf8_valid_def [of t] scalars_append) (simp add: utf8_valid_def)

lemma utf8_newline: "utf8_valid [CHR 0x0A]"
  by (simp add: utf8_valid_def scalar_rest_def byte_def)

lemma find_str_Some: "find_str p s = Some (a, b) \<Longrightarrow> s = a @ b \<and> starts_with p b"
  by (induction p s arbitrary: a rule: find_str.induct) (auto split: if_splits simp: starts_with_def)

lemma find_str_None: "find_str p s = None \<longleftrightarrow> \<not> contains_str p s"
  by (induction p s rule: find_str.induct) auto

lemma split_once_str_Some: "split_once_str p s = Some (a, b) \<Longrightarrow> s = a @ p @ b"
  by (auto simp: split_once_str_def str_simps dest!: find_str_Some)

lemma contains_prefix: "contains_str p s \<Longrightarrow> contains_str p (a @ s @ b)"
  unfolding contains_str_iff by (metis append.assoc)

text \<open>A line of a stream, with its line feed if it has one, and what is left.\<close>

fun take_line :: "string \<Rightarrow> string \<times> string" where
  "take_line [] = ([], [])"
| "take_line (c # s) =
     (if c = CHR 0x0A then ([c], s) else case take_line s of (l, r) \<Rightarrow> (c # l, r))"

lemma take_line_append: "take_line s = (l, r) \<Longrightarrow> s = l @ r"
  by (induction s arbitrary: l) (auto split: if_splits prod.splits)

end
