(* ===== verification/Revocations.thy ===== *)
theory Revocations
  imports Utf8_Text
begin

text \<open>
  The register of revocations (\<^verbatim>\<open>crates/capd/src/revocations.rs\<close>): one line per revoked subject,
  appended and synchronised; an unfinished last line is a write that was cut, and is removed when the
  register is opened. The file is read as UTF-8: what is not stops the opening. The file is its bytes, \<open>None\<close> when it does not exist. The text of a line is
  given by \<open>serde_json\<close>, the two functions of \<open>line_codec\<close>.
\<close>

record line_codec =
  lc_print :: "string \<Rightarrow> instant \<Rightarrow> string option"
  lc_parse :: "string \<Rightarrow> string option"

datatype open_fault = OpenFine | ReadFails | TruncateFails

datatype append_fault = AppendFine | AppendOpenFails | AppendTorn nat | AppendSyncFails | AppendFolderFails

section \<open>Opening and appending\<close>

definition text_of :: "string option \<Rightarrow> string" where
  "text_of fichier = (case fichier of Some t \<Rightarrow> t | None \<Rightarrow> [])"

text \<open>
  The loop over the lines: the subjects read and whether the unfinished last line was met.
\<close>

fun relire :: "line_codec \<Rightarrow> bool \<Rightarrow> string list \<Rightarrow> (string list \<times> bool) option" where
  "relire C complet [] = Some ([], False)"
| "relire C complet (ligne # lignes) =
     (if \<not> complet \<and> lignes = [] then Some ([], True)
      else (case lc_parse C ligne of
              None \<Rightarrow> None
            | Some sub \<Rightarrow> map_option (\<lambda>(subs, cut). (sub # subs, cut)) (relire C complet lignes)))"

text \<open>What is kept of an interrupted file: up to its last newline.\<close>

definition garde :: "string \<Rightarrow> string" where
  "garde texte = (case rsplit_once CHR 0x0A texte of Some (a, _) \<Rightarrow> a @ [CHR 0x0A] | None \<Rightarrow> [])"

definition ouvrir_registre :: "line_codec \<Rightarrow> open_fault \<Rightarrow> string option \<Rightarrow> string option \<times> string list option" where
  "ouvrir_registre C fault fichier =
     (if fault = ReadFails \<and> fichier \<noteq> None then (fichier, None)
      else
        let texte = text_of fichier
        in if \<not> utf8_valid texte then (fichier, None)
           else case relire C (ends_with [CHR 0x0A] texte) (split_terminator CHR 0x0A texte) of
             None \<Rightarrow> (fichier, None)
           | Some (sujets, False) \<Rightarrow> (fichier, Some sujets)
           | Some (sujets, True) \<Rightarrow>
               if fault = TruncateFails then (fichier, None) else (Some (garde texte), Some sujets))"

definition inscrire :: "line_codec \<Rightarrow> append_fault \<Rightarrow> string option \<Rightarrow> string \<Rightarrow> instant
    \<Rightarrow> string option \<times> bool" where
  "inscrire C fault fichier sujet maintenant =
     (if fault = AppendOpenFails then (fichier, False)
      else
        let avant = text_of fichier
        in case lc_print C sujet maintenant of
             None \<Rightarrow> (Some avant, False)
           | Some l \<Rightarrow>
               let ligne = l @ [CHR 0x0A]
               in case fault of
                    AppendTorn n \<Rightarrow> (Some (avant @ take n ligne), False)
                  | AppendSyncFails \<Rightarrow> (Some (avant @ ligne), False)
                  | AppendFolderFails \<Rightarrow> (Some (avant @ ligne), fichier \<noteq> None)
                  | _ \<Rightarrow> (Some (avant @ ligne), True))"

section \<open>A register is the list of its subjects\<close>

definition codec_ok :: "line_codec \<Rightarrow> bool" where
  "codec_ok C \<longleftrightarrow> (\<forall>s t l. lc_print C s t = Some l \<longrightarrow>
     lc_parse C l = Some s \<and> CHR 0x0A \<notin> set l \<and> utf8_valid l)"

text \<open>The lines of the subjects, each complete.\<close>

inductive registry_lines :: "line_codec \<Rightarrow> string \<Rightarrow> string list \<Rightarrow> bool" for C where
  empty: "registry_lines C [] []"
| line: "registry_lines C texte sujets \<Longrightarrow> lc_print C s t = Some l \<Longrightarrow>
     registry_lines C (texte @ l @ [CHR 0x0A]) (sujets @ [s])"

text \<open>A file lists subjects when it is their lines, then a piece of a line that was cut.\<close>

definition holds_subjects :: "line_codec \<Rightarrow> string option \<Rightarrow> string list \<Rightarrow> bool" where
  "holds_subjects C fichier sujets \<longleftrightarrow>
     (\<exists>texte bout. text_of fichier = texte @ bout
        \<and> registry_lines C texte sujets \<and> CHR 0x0A \<notin> set bout)"

lemma text_of_simps [simp]: "text_of None = []" "text_of (Some t) = t"
  by (simp_all add: text_of_def)

lemma holds_complete: "registry_lines C (text_of fichier) sujets \<Longrightarrow> holds_subjects C fichier sujets"
  unfolding holds_subjects_def by (metis append_Nil2 empty_iff list.set(1))

lemma str_split_snoc_lines:
  "CHR 0x0A \<notin> set l \<Longrightarrow> str_split CHR 0x0A (texte @ l @ [CHR 0x0A])
     = butlast (str_split CHR 0x0A texte) @ [last (str_split CHR 0x0A texte) @ l, []]"
proof (induction texte)
  case Nil
  then show ?case by (induction l) auto
next
  case (Cons x texte)
  then show ?case by (auto split: list.splits)
qed

lemma str_split_tail:
  "CHR 0x0A \<notin> set bout \<Longrightarrow> str_split CHR 0x0A (texte @ bout)
     = butlast (str_split CHR 0x0A texte) @ [last (str_split CHR 0x0A texte) @ bout]"
proof (induction texte)
  case Nil
  then show ?case by (induction bout) auto
next
  case (Cons x texte)
  then show ?case by (auto split: list.splits)
qed

lemma lists_split:
  assumes "codec_ok C" "registry_lines C texte sujets"
  shows "\<exists>ls. str_split CHR 0x0A texte = ls @ [[]] \<and> map (lc_parse C) ls = map Some sujets"
  using assms(2)
proof (induction)
  case empty
  then show ?case by (intro exI [of _ "[]"]) simp
next
  case (line texte sujets s t l)
  then obtain ls where ls: "str_split CHR 0x0A texte = ls @ [[]]"
    "map (lc_parse C) ls = map Some sujets" by blast
  have "lc_parse C l = Some s" "CHR 0x0A \<notin> set l"
    using assms(1) line(2) by (auto simp: codec_ok_def)
  then show ?case using ls by (intro exI [of _ "ls @ [l]"]) (simp add: str_split_snoc_lines)
qed

lemma lists_last: "registry_lines C texte sujets \<Longrightarrow> texte = [] \<or> last texte = CHR 0x0A"
  by (induction rule: registry_lines.induct) simp_all

lemma registry_utf8:
  assumes "codec_ok C" "registry_lines C texte sujets"
  shows "utf8_valid texte"
  using assms(2)
proof induction
  case empty
  show ?case by (simp add: utf8_valid_def)
next
  case line
  with assms(1) show ?case by (auto simp: codec_ok_def utf8_append utf8_newline)
qed

lemma relire_lines:
  "map (lc_parse C) ls = map Some sujets \<Longrightarrow> complet \<or> ls = [] \<Longrightarrow> relire C complet ls = Some (sujets, False)"
  by (induction ls arbitrary: sujets) (auto simp: Cons_eq_map_conv)

lemma relire_cut:
  "map (lc_parse C) ls = map Some sujets \<Longrightarrow> relire C False (ls @ [bout]) = Some (sujets, True)"
  by (induction ls arbitrary: sujets) (auto simp: Cons_eq_map_conv)

lemma ouvrir_complete:
  assumes "codec_ok C" "registry_lines C (text_of fichier) sujets" "fault \<noteq> ReadFails"
  shows "ouvrir_registre C fault fichier = (fichier, Some sujets)"
proof -
  obtain ls where ls: "str_split CHR 0x0A (text_of fichier) = ls @ [[]]"
    "map (lc_parse C) ls = map Some sujets"
    using lists_split [OF assms(1,2)] by blast
  moreover have "ends_with [CHR 0x0A] (text_of fichier) \<or> ls = []"
  proof (cases "text_of fichier = []")
    case True
    then show ?thesis using ls by simp
  next
    case False
    then have "text_of fichier = butlast (text_of fichier) @ [CHR 0x0A]"
      using lists_last [OF assms(2)] by (metis append_butlast_last_id)
    then show ?thesis by (auto simp: ends_with_iff)
  qed
  ultimately show ?thesis
    using assms(3) relire_lines [OF ls(2)] registry_utf8 [OF assms(1,2)]
    by (simp add: ouvrir_registre_def split_terminator_def Let_def)
qed

lemma ouvrir_cut:
  assumes "codec_ok C" "registry_lines C texte sujets" "text_of fichier = texte @ bout" "bout \<noteq> []"
    "CHR 0x0A \<notin> set bout" "utf8_valid (text_of fichier)"
  shows "ouvrir_registre C OpenFine fichier = (Some texte, Some sujets)"
proof -
  obtain ls where ls: "str_split CHR 0x0A texte = ls @ [[]]"
    "map (lc_parse C) ls = map Some sujets"
    using lists_split [OF assms(1,2)] by blast
  then have "str_split CHR 0x0A (texte @ bout) = ls @ [bout]"
    using str_split_tail [OF assms(5)] by simp
  moreover have "last (texte @ bout) \<noteq> CHR 0x0A"
    using assms(4,5) last_in_set by fastforce
  then have "\<not> ends_with [CHR 0x0A] (texte @ bout)"
    by (auto simp: ends_with_iff)
  moreover have "garde (texte @ bout) = texte"
  proof (cases "texte = []")
    case True
    then show ?thesis using assms(5) by (simp add: garde_def rsplit_once_None [THEN iffD2])
  next
    case False
    then have t: "texte = butlast texte @ [CHR 0x0A]"
      using lists_last [OF assms(2)] by (metis append_butlast_last_id)
    then have "texte @ bout = butlast texte @ CHR 0x0A # bout" by (metis append.assoc append_Cons append_Nil)
    with assms(5) have "rsplit_once CHR 0x0A (texte @ bout) = Some (butlast texte, bout)"
      by (simp add: rsplit_once_Some)
    with t show ?thesis by (simp add: garde_def)
  qed
  ultimately show ?thesis
    using assms(3,4,6) relire_cut [OF ls(2)]
    by (simp add: ouvrir_registre_def split_terminator_def Let_def)
qed

text \<open>Opening gives the subjects listed, and leaves a register of complete lines, unless the piece of a line
  at its end was cut inside a character.\<close>

lemma ouvrir_registre_ok:
  assumes "codec_ok C" "holds_subjects C fichier sujets" "utf8_valid (text_of fichier)"
  obtains fichier' where "ouvrir_registre C OpenFine fichier = (fichier', Some sujets)"
    "registry_lines C (text_of fichier') sujets"
proof -
  obtain texte bout where t: "text_of fichier = texte @ bout" "registry_lines C texte sujets"
    "CHR 0x0A \<notin> set bout"
    using assms(2) by (auto simp: holds_subjects_def)
  show thesis
  proof (cases "bout = []")
    case True
    then have "registry_lines C (text_of fichier) sujets" using t by simp
    with that ouvrir_complete [OF assms(1)] show thesis by blast
  next
    case False
    then show thesis
      using that [of "Some texte"] ouvrir_cut [OF assms(1) t(2,1)] t assms(3) by (simp add:)
  qed
qed

text \<open>
  Appending to complete lines lists the new subject when it succeeds; when it fails or is cut, the
  register still lists the subjects of before, and perhaps the new one.
\<close>

lemma inscrire_ok:
  assumes "registry_lines C (text_of fichier) sujets" "inscrire C fault fichier s t = (fichier', True)"
  shows "registry_lines C (text_of fichier') (sujets @ [s])"
  using assms registry_lines.line [OF assms(1)]
  by (auto simp: inscrire_def Let_def split: if_splits option.splits append_fault.splits)

lemma inscrire_failed:
  assumes "codec_ok C" "registry_lines C (text_of fichier) sujets" "inscrire C fault fichier s t = (fichier', ok)"
  shows "holds_subjects C fichier' sujets \<or> registry_lines C (text_of fichier') (sujets @ [s])"
proof (cases "lc_print C s t")
  case None
  then have "text_of fichier' = text_of fichier"
    using assms(3) by (auto simp: inscrire_def Let_def split: if_splits)
  then show ?thesis using assms(2) holds_complete by simp
next
  case (Some l)
  then have no_nl: "CHR 0x0A \<notin> set l" using assms(1) by (simp add: codec_ok_def)
  have whole: "registry_lines C (text_of fichier @ l @ [CHR 0x0A]) (sujets @ [s])"
    using registry_lines.line [OF assms(2) Some] .
  have torn: "holds_subjects C (Some (text_of fichier @ take n l)) sujets" for n
    unfolding holds_subjects_def using assms(2) no_nl
    by (intro exI [of _ "text_of fichier"] exI [of _ "take n l"]) (auto dest: in_set_takeD)
  have untouched: "holds_subjects C fichier sujets"
    using assms(2) holds_complete by blast
  have "fichier' = fichier \<or> fichier' = Some (text_of fichier @ l @ [CHR 0x0A])
      \<or> (\<exists>n. fichier' = Some (text_of fichier @ take n l))"
  proof (cases fault)
    case (AppendTorn n)
    then have "fichier' = Some (text_of fichier @ take n (l @ [CHR 0x0A]))"
      using assms(3) Some by (simp add: inscrire_def)
    then show ?thesis by (cases "n \<le> length l") (auto simp: take_append)
  qed (use assms(3) Some in \<open>auto simp: inscrire_def\<close>)
  then show ?thesis using whole torn untouched by (auto simp:)
qed

text \<open>After an append the register is UTF-8, unless the line was cut inside a character.\<close>

lemma inscrire_utf8:
  assumes "codec_ok C" "registry_lines C (text_of fichier) sujets" "inscrire C fault fichier s t = (fichier', ok)"
    and "\<not> utf8_valid (text_of fichier')"
  obtains n l where "fault = AppendTorn n" "lc_print C s t = Some l" "\<not> utf8_valid (take n l)"
proof -
  have before: "utf8_valid (text_of fichier)" by (rule registry_utf8 [OF assms(1,2)])
  have whole: "utf8_valid (l @ [CHR 0x0A])" if "lc_print C s t = Some l" for l
    using assms(1) that by (simp add: codec_ok_def utf8_append utf8_newline)
  show thesis
  proof (cases fault)
    case (AppendTorn n)
    then obtain l where l: "lc_print C s t = Some l" "fichier' = Some (text_of fichier @ take n (l @ [CHR 0x0A]))"
      using assms(3,4) before by (auto simp: inscrire_def Let_def split: option.splits)
    with assms(4) before have cut: "\<not> utf8_valid (take n (l @ [CHR 0x0A]))" by (simp add: utf8_append)
    then have "n \<le> length l"
    proof (rule contrapos_np)
      assume "\<not> n \<le> length l"
      then have "take n (l @ [CHR 0x0A]) = l @ [CHR 0x0A]" by simp
      with whole [OF l(1)] show "utf8_valid (take n (l @ [CHR 0x0A]))" by simp
    qed
    with cut have "\<not> utf8_valid (take n l)" by simp
    with AppendTorn l(1) show thesis by (rule that)
  qed (use assms(3,4) before whole in \<open>auto simp: inscrire_def Let_def utf8_append split: option.splits\<close>)
qed

end
