(* ===== verification/Ipc.thy ===== *)
theory Ipc
  imports Canon
begin

text \<open>
  Calls between services (\<^verbatim>\<open>crates/prophet-ipc/src\<close>): JSON-RPC messages, one per line on a Unix
  socket; the server answers each line, the client checks that the answer is the one to its request.
  The text of a message is written and read by \<open>serde_json\<close>, the two functions of \<open>wire\<close>; what the
  derived (de)serialisers do of the structs is written out. Sockets themselves are not modelled: a
  connection is the list of the lines it carries.
\<close>

section \<open>Errors\<close>

datatype error_code = EcParseError | EcInvalidRequest | EcMethodNotFound | EcInvalidParams
  | EcInternalError | EcUnauthorized | EcPolicyDenied | EcApprovalRequired | EcBudgetExceeded
  | EcSandboxError | EcNotFound | EcConflict

fun code_to_i32 :: "error_code \<Rightarrow> int" where
  "code_to_i32 EcParseError = - 32700"
| "code_to_i32 EcInvalidRequest = - 32600"
| "code_to_i32 EcMethodNotFound = - 32601"
| "code_to_i32 EcInvalidParams = - 32602"
| "code_to_i32 EcInternalError = - 32603"
| "code_to_i32 EcUnauthorized = - 32001"
| "code_to_i32 EcPolicyDenied = - 32002"
| "code_to_i32 EcApprovalRequired = - 32003"
| "code_to_i32 EcBudgetExceeded = - 32004"
| "code_to_i32 EcSandboxError = - 32005"
| "code_to_i32 EcNotFound = - 32006"
| "code_to_i32 EcConflict = - 32007"

definition code_try_from :: "int \<Rightarrow> int + error_code" where
  "code_try_from v =
     (if v = - 32700 then Ok EcParseError
      else if v = - 32600 then Ok EcInvalidRequest
      else if v = - 32601 then Ok EcMethodNotFound
      else if v = - 32602 then Ok EcInvalidParams
      else if v = - 32603 then Ok EcInternalError
      else if v = - 32001 then Ok EcUnauthorized
      else if v = - 32002 then Ok EcPolicyDenied
      else if v = - 32003 then Ok EcApprovalRequired
      else if v = - 32004 then Ok EcBudgetExceeded
      else if v = - 32005 then Ok EcSandboxError
      else if v = - 32006 then Ok EcNotFound
      else if v = - 32007 then Ok EcConflict
      else Err v)"

lemma code_roundtrip [simp]: "code_try_from (code_to_i32 c) = Ok c"
  by (cases c) (simp_all add: code_try_from_def)

lemma code_try_from_Ok: "code_try_from v = Ok c \<longleftrightarrow> v = code_to_i32 c"
proof
  assume "code_try_from v = Ok c"
  then show "v = code_to_i32 c" by (simp add: code_try_from_def split: if_splits)
qed simp

record ipc_error =
  ie_code :: error_code
  ie_message :: string
  ie_data :: "json option"

definition ipc_error_new :: "error_code \<Rightarrow> string \<Rightarrow> ipc_error" where
  "ipc_error_new c m = \<lparr>ie_code = c, ie_message = m, ie_data = None\<rparr>"

definition error_json :: "ipc_error \<Rightarrow> json" where
  "error_json e = JObj ([(''code'', JInt (code_to_i32 (ie_code e))), (''message'', JStr (ie_message e))]
     @ opt_field ''data'' id (ie_data e))"

text \<open>Reading an \<open>Option\<close> field: an absent key and \<open>null\<close> are \<open>None\<close>.\<close>

fun non_null :: "json option \<Rightarrow> json option" where
  "non_null (Some JNull) = None"
| "non_null x = x"

fun read_code :: "json option \<Rightarrow> error_code option" where
  "read_code (Some (JInt i)) = (case code_try_from i of Inr c \<Rightarrow> Some c | Inl _ \<Rightarrow> None)"
| "read_code _ = None"

definition read_error :: "json \<Rightarrow> ipc_error option" where
  "read_error j =
     (case (read_code (field ''code'' j), as_str (field ''message'' j)) of
        (Some c, Some m) \<Rightarrow> Some \<lparr>ie_code = c, ie_message = m, ie_data = non_null (field ''data'' j)\<rparr>
      | _ \<Rightarrow> None)"

section \<open>Requests and responses\<close>

definition JSONRPC_VERSION :: string where
  "JSONRPC_VERSION = ''2.0''"

definition MAX_MESSAGE_BYTES :: nat where
  "MAX_MESSAGE_BYTES = 8 * 1024 * 1024"

record ipc_request =
  iq_jsonrpc :: string
  iq_id :: json
  iq_method :: string
  iq_params :: json

definition ipc_request_new :: "json \<Rightarrow> string \<Rightarrow> json \<Rightarrow> ipc_request" where
  "ipc_request_new i m p = \<lparr>iq_jsonrpc = JSONRPC_VERSION, iq_id = i, iq_method = m, iq_params = p\<rparr>"

definition request_json :: "ipc_request \<Rightarrow> json" where
  "request_json q = JObj [(''jsonrpc'', JStr (iq_jsonrpc q)), (''id'', iq_id q),
     (''method'', JStr (iq_method q)), (''params'', iq_params q)]"

definition read_request :: "json \<Rightarrow> ipc_request option" where
  "read_request j =
     (case (as_str (field ''jsonrpc'' j), field ''id'' j, as_str (field ''method'' j)) of
        (Some v, Some i, Some m) \<Rightarrow> Some \<lparr>iq_jsonrpc = v, iq_id = i, iq_method = m,
          iq_params = (case field ''params'' j of Some p \<Rightarrow> p | None \<Rightarrow> JNull)\<rparr>
      | _ \<Rightarrow> None)"

record ipc_response =
  ir_jsonrpc :: string
  ir_id :: json
  ir_result :: "json option"
  ir_error :: "ipc_error option"

definition response_ok :: "json \<Rightarrow> json \<Rightarrow> ipc_response" where
  "response_ok i v = \<lparr>ir_jsonrpc = JSONRPC_VERSION, ir_id = i, ir_result = Some v, ir_error = None\<rparr>"

definition response_err :: "json \<Rightarrow> ipc_error \<Rightarrow> ipc_response" where
  "response_err i e = \<lparr>ir_jsonrpc = JSONRPC_VERSION, ir_id = i, ir_result = None, ir_error = Some e\<rparr>"

definition response_json :: "ipc_response \<Rightarrow> json" where
  "response_json r = JObj ([(''jsonrpc'', JStr (ir_jsonrpc r)), (''id'', ir_id r)]
     @ opt_field ''result'' id (ir_result r) @ opt_field ''error'' error_json (ir_error r))"

definition read_response :: "json \<Rightarrow> ipc_response option" where
  "read_response j =
     (case (as_str (field ''jsonrpc'' j), field ''id'' j) of
        (Some v, Some i) \<Rightarrow>
          (case non_null (field ''error'' j) of
             None \<Rightarrow> Some \<lparr>ir_jsonrpc = v, ir_id = i, ir_result = non_null (field ''result'' j),
                          ir_error = None\<rparr>
           | Some e \<Rightarrow>
               map_option (\<lambda>x. \<lparr>ir_jsonrpc = v, ir_id = i, ir_result = non_null (field ''result'' j),
                          ir_error = Some x\<rparr>) (read_error e))
      | _ \<Rightarrow> None)"

text \<open>The capability token travels in \<open>params._auth\<close> and is taken out before the handler.\<close>

definition extract_auth :: "json \<Rightarrow> json \<times> string option" where
  "extract_auth p =
     (case p of
        JObj m \<Rightarrow> (JObj (AList.delete ''_auth'' m), as_str (map_of m ''_auth''))
      | _ \<Rightarrow> (p, None))"

section \<open>The server\<close>

record peer =
  p_uid :: nat
  p_gid :: nat
  p_pid :: "int option"

record wire =
  w_print :: "json \<Rightarrow> string"
  w_parse :: "string \<Rightarrow> json option"

type_synonym 's handler = "peer \<Rightarrow> string option \<Rightarrow> string \<Rightarrow> json \<Rightarrow> 's \<Rightarrow> 's \<times> (ipc_error + json)"

text \<open>The messages of the transport itself; the text \<open>serde_json\<close> gives to a failure is a parameter.\<close>

definition dispatch :: "wire \<Rightarrow> string \<Rightarrow> 's handler \<Rightarrow> peer \<Rightarrow> string \<Rightarrow> 's \<Rightarrow> 's \<times> ipc_response" where
  "dispatch W serde_error H p line s =
     (case Option.bind (w_parse W line) read_request of
        None \<Rightarrow> (s, response_err JNull (ipc_error_new EcParseError serde_error))
      | Some q \<Rightarrow>
          if iq_jsonrpc q \<noteq> JSONRPC_VERSION
          then (s, response_err (iq_id q) (ipc_error_new EcInvalidRequest ''version jsonrpc inattendue''))
          else
            let (params, auth) = extract_auth (iq_params q)
            in case H p auth (iq_method q) params s of
                 (s', Inr v) \<Rightarrow> (s', response_ok (iq_id q) v)
               | (s', Inl e) \<Rightarrow> (s', response_err (iq_id q) e))"

fun handle_connection :: "wire \<Rightarrow> string \<Rightarrow> 's handler \<Rightarrow> peer \<Rightarrow> string list \<Rightarrow> 's \<Rightarrow> 's \<times> ipc_response list"
where
  "handle_connection W err H p [] s = (s, [])"
| "handle_connection W err H p (line # lines) s =
     (if trim line = [] then handle_connection W err H p lines s
      else
        let (s1, r) = (if MAX_MESSAGE_BYTES < length line
                       then (s, response_err JNull (ipc_error_new EcInvalidRequest ''message trop grand''))
                       else dispatch W err H p line s);
            (s2, rs) = handle_connection W err H p lines s1
        in (s2, r # rs))"

section \<open>The client\<close>

record client =
  cl_next_id :: nat
  cl_auth :: "string option"

definition client_connect :: client where
  "client_connect = \<lparr>cl_next_id = 1, cl_auth = None\<rparr>"

definition with_auth :: "client \<Rightarrow> string \<Rightarrow> client" where
  "with_auth c token = c\<lparr>cl_auth := Some token\<rparr>"

definition authenticated :: "string option \<Rightarrow> json \<Rightarrow> json" where
  "authenticated auth params =
     (case (auth, params) of
        (Some token, JObj m) \<Rightarrow> JObj (AList.update ''_auth'' (JStr token) m)
      | _ \<Rightarrow> params)"

text \<open>
  \<open>client_send\<close> is the line written (or the refusal to write it), \<open>client_receive\<close> what is made of
  the line read back; \<open>None\<close> is a connection that closes before an answer. \<open>AtomicU64::fetch_add\<close>
  wraps around.
\<close>

definition client_send :: "wire \<Rightarrow> client \<Rightarrow> string \<Rightarrow> json \<Rightarrow> client \<times> (ipc_error + string)" where
  "client_send W c method params =
     (let q = ipc_request_new (JInt (int (cl_next_id c))) method (authenticated (cl_auth c) params);
          line = w_print W (request_json q)
      in (c\<lparr>cl_next_id := (cl_next_id c + 1) mod 2 ^ 64\<rparr>,
          if MAX_MESSAGE_BYTES < length line + 1
          then Err (ipc_error_new EcInvalidParams (''requ'' @ [CHR 0xC3, CHR 0xAA] @ ''te trop grande''))
          else Ok line))"

text \<open>The texts the client gives to what it cannot read, and those of \<open>serde_json\<close> and of the system.\<close>

definition ambiguous_text :: string where
  "ambiguous_text = ''r'' @ [CHR 0xC3, CHR 0xA9] @ ''ponse non corr'' @ [CHR 0xC3, CHR 0xA9]
     @ ''l'' @ [CHR 0xC3, CHR 0xA9] @ ''e ou ambigu'' @ [CHR 0xC3, CHR 0xAB]"

definition closed_text :: string where
  "closed_text = ''connexion ferm'' @ [CHR 0xC3, CHR 0xA9] @ ''e''"

definition oversized_text :: string where
  "oversized_text = ''r'' @ [CHR 0xC3, CHR 0xA9] @ ''ponse tronqu'' @ [CHR 0xC3, CHR 0xA9]
     @ ''e ou trop grande''"

definition client_receive :: "wire \<Rightarrow> string \<Rightarrow> nat \<Rightarrow> string option \<Rightarrow> ipc_error + json" where
  "client_receive W serde_error sent_id answer =
     (case answer of
        None \<Rightarrow> Err (ipc_error_new EcInternalError closed_text)
      | Some line \<Rightarrow>
          if MAX_MESSAGE_BYTES < length line + 1
          then Err (ipc_error_new EcParseError oversized_text)
          else (case w_parse W line of
                  None \<Rightarrow> Err (ipc_error_new EcParseError serde_error)
                | Some body \<Rightarrow>
                    (case read_response body of
                       None \<Rightarrow> Err (ipc_error_new EcParseError serde_error)
                     | Some r \<Rightarrow>
                         if ir_jsonrpc r \<noteq> ''2.0'' \<or> ir_id r \<noteq> JInt (int sent_id)
                            \<or> (field ''result'' body \<noteq> None) = (field ''error'' body \<noteq> None)
                            \<or> (field ''error'' body \<noteq> None \<and> ir_error r = None)
                         then Err (ipc_error_new EcParseError ambiguous_text)
                         else (case ir_error r of
                                 Some e \<Rightarrow> Err e
                               | None \<Rightarrow> Ok (case ir_result r of Some v \<Rightarrow> v | None \<Rightarrow> JNull)))))"

section \<open>A call is the handler\<close>

definition plain_object :: "json \<Rightarrow> bool" where
  "plain_object p \<longleftrightarrow> (\<exists>m. p = JObj m \<and> ''_auth'' \<notin> fst ` set m)"

text \<open>What the text of JSON owes its callers, on the messages of one call.\<close>

definition wire_carries :: "wire \<Rightarrow> json \<Rightarrow> bool" where
  "wire_carries W j \<longleftrightarrow> w_parse W (w_print W j) = Some j \<and> trim (w_print W j) \<noteq> []
     \<and> length (w_print W j) < MAX_MESSAGE_BYTES"

definition error_norm :: "ipc_error \<Rightarrow> ipc_error" where
  "error_norm e = e\<lparr>ie_data := non_null (ie_data e)\<rparr>"

lemma read_request_json [simp]: "read_request (request_json q) = Some q"
  by (simp add: read_request_def request_json_def)

lemma read_error_json [simp]: "read_error (error_json e) = Some (error_norm e)"
  by (cases e) (simp add: read_error_def error_json_def error_norm_def opt_field_def split: option.splits)

lemma error_json_obj: "non_null (Some (error_json e)) = Some (error_json e)"
  by (simp add: error_json_def)

lemma extract_authenticated:
  assumes "plain_object p"
  shows "extract_auth (authenticated auth p) = (p, auth)"
proof -
  obtain m where p: "p = JObj m" and fresh: "''_auth'' \<notin> fst ` set m"
    using assms by (auto simp: plain_object_def)
  then have "map_of m ''_auth'' = None" by (simp add: map_of_eq_None_iff)
  with fresh show ?thesis
    by (cases auth) (simp_all add: p extract_auth_def authenticated_def delete_update_same)
qed

definition ipc_call :: "wire \<Rightarrow> string \<Rightarrow> 's handler \<Rightarrow> peer \<Rightarrow> client \<Rightarrow> string \<Rightarrow> json \<Rightarrow> 's
    \<Rightarrow> client \<times> 's \<times> (ipc_error + json)" where
  "ipc_call W err H p c method params s =
     (case client_send W c method params of
        (c', Inl e) \<Rightarrow> (c', s, Err e)
      | (c', Inr line) \<Rightarrow>
          (case handle_connection W err H p [line] s of
             (s', rs) \<Rightarrow> (c', s', client_receive W err (cl_next_id c)
               (case rs of [] \<Rightarrow> None | r # _ \<Rightarrow> Some (w_print W (response_json r))))))"

definition handler_response :: "json \<Rightarrow> ipc_error + json \<Rightarrow> ipc_response" where
  "handler_response i out = (case out of Inr v \<Rightarrow> response_ok i v | Inl e \<Rightarrow> response_err i e)"

definition client_view :: "ipc_error + json \<Rightarrow> ipc_error + json" where
  "client_view out = (case out of Inl e \<Rightarrow> Err (error_norm e) | Inr v \<Rightarrow> Ok v)"

lemma read_handler_response:
  "read_response (response_json (handler_response i out)) =
     Some (case out of Inr v \<Rightarrow> (response_ok i v)\<lparr>ir_result := non_null (Some v)\<rparr>
         | Inl e \<Rightarrow> response_err i (error_norm e))"
  by (simp add: handler_response_def read_response_def response_json_def response_ok_def
      response_err_def opt_field_def error_json_obj split: sum.split)

lemma handler_response_fields:
  "field ''result'' (response_json (handler_response i out)) = (case out of Inr v \<Rightarrow> Some v | Inl _ \<Rightarrow> None)"
  "field ''error'' (response_json (handler_response i out))
     = (case out of Inl e \<Rightarrow> Some (error_json e) | Inr _ \<Rightarrow> None)"
  by (simp_all add: handler_response_def response_json_def response_ok_def response_err_def
      opt_field_def split: sum.split)

lemma client_receive_response:
  fixes n out
  defines "j \<equiv> response_json (handler_response (JInt (int n)) out)"
  assumes "wire_carries W j"
  shows "client_receive W err n (Some (w_print W j)) = client_view out"
proof -
  have "\<not> MAX_MESSAGE_BYTES < length (w_print W j) + 1" "w_parse W (w_print W j) = Some j"
    using assms(2) by (simp_all add: wire_carries_def)
  moreover have "(case non_null (Some v) of Some w \<Rightarrow> w | None \<Rightarrow> JNull) = v" for v
    by (cases v) simp_all
  moreover note read = read_handler_response [of "JInt (int n)" out, folded j_def]
    and fields = handler_response_fields [of "JInt (int n)" out, folded j_def]
  ultimately show ?thesis
    by (simp add: client_receive_def read fields client_view_def response_ok_def response_err_def
        JSONRPC_VERSION_def split: sum.split)
qed

text \<open>
  A call through the socket is the handler itself: with a text of JSON that reads back and
  messages below the limit, the client gets the answer of the handler to the very method and
  parameters it gave, with its token and never anyone else's, and the identity the kernel attests.
\<close>

theorem call_is_handler:
  assumes "plain_object params"
    and "wire_carries W (request_json (ipc_request_new (JInt (int (cl_next_id c))) method
           (authenticated (cl_auth c) params)))"
    and "H p (cl_auth c) method params s = (s', out)"
    and "wire_carries W (response_json (handler_response (JInt (int (cl_next_id c))) out))"
  shows "ipc_call W err H p c method params s
     = (c\<lparr>cl_next_id := (cl_next_id c + 1) mod 2 ^ 64\<rparr>, s', client_view out)"
proof -
  let ?q = "ipc_request_new (JInt (int (cl_next_id c))) method (authenticated (cl_auth c) params)"
  have "dispatch W err H p (w_print W (request_json ?q)) s
      = (s', handler_response (JInt (int (cl_next_id c))) out)"
    using assms(2,3) extract_authenticated [OF assms(1), of "cl_auth c"]
    by (cases out) (simp_all add: dispatch_def wire_carries_def ipc_request_new_def
        handler_response_def)
  with assms(2) client_receive_response [OF assms(4)] show ?thesis
    by (simp add: ipc_call_def client_send_def Let_def wire_carries_def)
qed

text \<open>A service that answers its own name, called with a token, over a text that reads the two messages.\<close>

definition echo :: "nat handler" where
  "echo p auth method params n = (n + 1, Ok (JObj [(''method'', JStr method), (''uid'', JInt (int (p_uid p)))]))"

definition ping_query :: json where
  "ping_query = request_json (ipc_request_new (JInt 1) ''ping'' (JObj [(''_auth'', JStr ''t'')]))"

definition ping_reply :: json where
  "ping_reply = response_json (response_ok (JInt 1) (JObj [(''method'', JStr ''ping''), (''uid'', JInt 7)]))"

definition two_messages :: wire where
  "two_messages = \<lparr>w_print = show_json,
     w_parse = (\<lambda>s. find (\<lambda>j. show_json j = s) [ping_query, ping_reply])\<rparr>"

definition caller :: peer where
  "caller = \<lparr>p_uid = 7, p_gid = 7, p_pid = None\<rparr>"

lemma two_messages_carry:
  "wire_carries two_messages ping_query" "wire_carries two_messages ping_reply"
proof -
  have "w_parse two_messages (w_print two_messages ping_query) = Some ping_query"
    "w_parse two_messages (w_print two_messages ping_reply) = Some ping_reply"
    "trim (w_print two_messages ping_query) \<noteq> []" "trim (w_print two_messages ping_reply) \<noteq> []"
    "length (w_print two_messages ping_query) < 400" "length (w_print two_messages ping_reply) < 400"
    by code_simp+
  then show "wire_carries two_messages ping_query" "wire_carries two_messages ping_reply"
    by (simp_all add: wire_carries_def MAX_MESSAGE_BYTES_def)
qed

theorem call_is_handler_witness:
  "ipc_call two_messages ''serde'' echo caller (with_auth client_connect ''t'') ''ping'' (JObj []) 0
     = (\<lparr>cl_next_id = 2, cl_auth = Some ''t''\<rparr>, 1,
        Ok (JObj [(''method'', JStr ''ping''), (''uid'', JInt 7)]))"
  using call_is_handler [of "JObj []" two_messages "with_auth client_connect ''t''" "''ping''" echo caller 0 1
      "Ok (JObj [(''method'', JStr ''ping''), (''uid'', JInt 7)])" "''serde''"]
    two_messages_carry
  by (simp add: plain_object_def with_auth_def client_connect_def authenticated_def echo_def caller_def
      ping_query_def ping_reply_def handler_response_def client_view_def)

end
