(* ===== verification/Peers.thy ===== *)
theory Peers
  imports Ipc
begin

text \<open>
  Who a service talks to (\<^verbatim>\<open>crates/prophet-daemon/src/lib.rs\<close>): the kernel attests the user and the
  main group of a peer, the administrator declares the members of the system group in
  \<^verbatim>\<open>/etc/group\<close>. The two files are read at each question; they are the argument \<open>accounts\<close>.
  The texts of the refusals are for humans and not modelled.
\<close>

section \<open>Accounts\<close>

text \<open>The text of a file that cannot be read is \<open>None\<close>.\<close>

record accounts =
  ac_group :: "string option"
  ac_passwd :: "string option"

fun find_map :: "('a \<Rightarrow> 'b option) \<Rightarrow> 'a list \<Rightarrow> 'b option" where
  "find_map f [] = None"
| "find_map f (x # xs) = (case f x of Some y \<Rightarrow> Some y | None \<Rightarrow> find_map f xs)"

fun filter_map :: "('a \<Rightarrow> 'b option) \<Rightarrow> 'a list \<Rightarrow> 'b list" where
  "filter_map f [] = []"
| "filter_map f (x # xs) = (case f x of Some y \<Rightarrow> y # filter_map f xs | None \<Rightarrow> filter_map f xs)"

lemma set_filter_map [simp]: "y \<in> set (filter_map f xs) \<longleftrightarrow> (\<exists>x \<in> set xs. f x = Some y)"
  by (induction xs) (auto split: option.splits)

fun nth_field :: "nat \<Rightarrow> string list \<Rightarrow> string option" where
  "nth_field n [] = None"
| "nth_field 0 (f # fs) = Some f"
| "nth_field (Suc n) (f # fs) = nth_field n fs"

definition GROUPE_SYSTEME :: string where
  "GROUPE_SYSTEME = ''prophet-system''"

text \<open>The number in the third field of the first line of that name which has one.\<close>

definition number_of :: "string \<Rightarrow> string \<Rightarrow> nat option" where
  "number_of nom contenu =
     find_map (\<lambda>ligne.
        let champs = str_split CHR '':'' ligne
        in if nth_field 0 champs = Some nom then Option.bind (nth_field 2 champs) parse_u32 else None)
       (str_lines contenu)"

definition gid_du_groupe :: "accounts \<Rightarrow> string \<Rightarrow> nat option" where
  "gid_du_groupe ac nom = Option.bind (ac_group ac) (number_of nom)"

definition uid_de_l_utilisateur :: "accounts \<Rightarrow> string \<Rightarrow> nat option" where
  "uid_de_l_utilisateur ac nom = Option.bind (ac_passwd ac) (number_of nom)"

definition membres_declares :: "string \<Rightarrow> string \<Rightarrow> string \<Rightarrow> nat list" where
  "membres_declares nom groupes comptes =
     (case find_map (\<lambda>ligne.
              let champs = str_split CHR '':'' ligne
              in if nth_field 0 champs = Some nom
                 then Some (case nth_field 3 champs of Some f \<Rightarrow> f | None \<Rightarrow> []) else None)
             (str_lines groupes) of
        None \<Rightarrow> []
      | Some liste \<Rightarrow>
          filter_map (\<lambda>membre. number_of membre comptes)
            (filter (\<lambda>membre. membre \<noteq> []) (map trim (str_split CHR '','' liste))))"

definition text_or_empty :: "string option \<Rightarrow> string" where
  "text_or_empty t = (case t of Some s \<Rightarrow> s | None \<Rightarrow> [])"

definition membres_du_groupe :: "accounts \<Rightarrow> string \<Rightarrow> nat list" where
  "membres_du_groupe ac nom =
     membres_declares nom (text_or_empty (ac_group ac)) (text_or_empty (ac_passwd ac))"

section \<open>Classes and accesses\<close>

datatype classe = Soi | Service | Humain

datatype acces = Tous | Services | Humains

record pairs =
  pr_gid_systeme :: "nat option"
  pr_uid_propre :: nat
  pr_membres_figes :: "nat list option"

definition ROOT :: nat where
  "ROOT = 0"

definition detecter :: "accounts \<Rightarrow> nat \<Rightarrow> pairs" where
  "detecter ac uid_propre = \<lparr>pr_gid_systeme = gid_du_groupe ac GROUPE_SYSTEME,
     pr_uid_propre = uid_propre, pr_membres_figes = None\<rparr>"

definition classe_of :: "accounts \<Rightarrow> pairs \<Rightarrow> peer \<Rightarrow> classe option" where
  "classe_of ac P p =
     (if p_uid p = ROOT \<or> p_uid p = pr_uid_propre P then Some Soi
      else if pr_gid_systeme P = Some (p_gid p) then Some Service
      else if p_uid p \<in> set (case pr_membres_figes P of Some membres \<Rightarrow> membres
                             | None \<Rightarrow> membres_du_groupe ac GROUPE_SYSTEME)
           then Some Humain else None)"

definition autorise :: "accounts \<Rightarrow> pairs \<Rightarrow> peer \<Rightarrow> bool" where
  "autorise ac P p \<longleftrightarrow> classe_of ac P p \<noteq> None"

definition permet :: "accounts \<Rightarrow> pairs \<Rightarrow> peer \<Rightarrow> acces \<Rightarrow> bool" where
  "permet ac P p a =
     (case (classe_of ac P p, a) of
        (Some Soi, _) \<Rightarrow> True
      | (Some _, Tous) \<Rightarrow> True
      | (Some Service, Services) \<Rightarrow> True
      | (Some Humain, Humains) \<Rightarrow> True
      | _ \<Rightarrow> False)"

section \<open>What the services share\<close>

text \<open>An error is its code and its data: the text of a message is not modelled.\<close>

type_synonym service_error = "error_code \<times> json option"

abbreviation refused :: "error_code \<Rightarrow> service_error + 'a" where
  "refused c \<equiv> Err (c, None)"

definition texte :: "json \<Rightarrow> string \<Rightarrow> service_error + string" where
  "texte params nom =
     (case as_str (field nom params) of Some s \<Rightarrow> Ok s | None \<Rightarrow> refused EcInvalidParams)"

definition or_default :: "'a option \<Rightarrow> 'a \<Rightarrow> 'a" where
  "or_default x d = (case x of Some v \<Rightarrow> v | None \<Rightarrow> d)"

definition and_then :: "'e + 'a \<Rightarrow> ('a \<Rightarrow> 'e + 'b) \<Rightarrow> 'e + 'b" where
  "and_then r f = (case r of Inl e \<Rightarrow> Err e | Inr x \<Rightarrow> f x)"

section \<open>What the rule separates\<close>

lemma permet_Tous: "permet ac P p Tous \<longleftrightarrow> autorise ac P p"
  by (auto simp: permet_def autorise_def split: option.split classe.split)

lemma permet_Services:
  "permet ac P p Services \<longleftrightarrow> classe_of ac P p = Some Soi \<or> classe_of ac P p = Some Service"
  by (auto simp: permet_def split: option.split classe.split)

lemma permet_Humains:
  "permet ac P p Humains \<longleftrightarrow> classe_of ac P p = Some Soi \<or> classe_of ac P p = Some Humain"
  by (auto simp: permet_def split: option.split classe.split)

lemma permet_autorise: "permet ac P p a \<Longrightarrow> autorise ac P p"
  by (auto simp: permet_def autorise_def split: option.splits)

text \<open>Only root and the service itself open both what is for services and what is for the human.\<close>

lemma permet_separates:
  "permet ac P p Services \<Longrightarrow> permet ac P p Humains \<Longrightarrow> p_uid p = ROOT \<or> p_uid p = pr_uid_propre P"
  by (auto simp: permet_Services permet_Humains classe_of_def split: if_splits)

lemma classe_Humain:
  assumes "classe_of ac P p = Some Humain"
  shows "p_uid p \<noteq> ROOT" "p_uid p \<noteq> pr_uid_propre P" "pr_gid_systeme P \<noteq> Some (p_gid p)"
  using assms by (auto simp: classe_of_def split: if_splits)

end
