(* ===== verification/Capd_Service.thy ===== *)
theory Capd_Service
  imports Broker Presence Revocations Peers
begin

text \<open>
  The capability service (\<^verbatim>\<open>crates/capd/src/bin/prophet-capd.rs\<close>): the methods of the socket over the
  broker, the presence of the human, the register of revocations and the kept approval queue
  (\<open>charger\<close> and \<open>sauver\<close> of \<^verbatim>\<open>crates/capd/src/approvals.rs\<close>). A call is one step: the locks of the
  code are taken in one order and each method holds what it changes. Random bytes, identifiers, the
  clock and the faults of the disk come with the call; what \<open>serde\<close> derives to read a parameter is
  in \<open>capd_env\<close>. An error is its code and its data, its text is not modelled. \<open>None\<close> is a panic, or a
  loop over parents that does not end.
\<close>

section \<open>The kept queue\<close>

definition sauver :: "save_fault \<Rightarrow> approvals kept \<Rightarrow> approvals \<Rightarrow> approvals kept \<times> bool" where
  "sauver fault F A =
     (if fault = OpenFails then (F, False)
      else case write_beside fault F A of (F', ok) \<Rightarrow> (F', ok \<and> fault \<noteq> FolderFails))"

definition charger :: "approvals kept \<Rightarrow> approvals option" where
  "charger F =
     (case kp_main F of
        None \<Rightarrow> Some approvals_new
      | Some (Whole A) \<Rightarrow> Some A
      | Some Torn \<Rightarrow> None)"

section \<open>State, environment, calls\<close>

record capd =
  cd_broker :: broker
  cd_presence :: presence
  cd_code_file :: "empreinte kept"
  cd_queue_file :: "approvals kept"
  cd_registry :: "string option"

record capd_env =
  ce_crypto :: crypto
  ce_kdf :: kdf
  ce_codec :: line_codec
  ce_pairs :: pairs
  ce_public_key :: string
  ce_read_token :: "json \<Rightarrow> token option"
  ce_read_res :: "json \<Rightarrow> res option"
  ce_read_act :: "json \<Rightarrow> act option"
  ce_read_manifest :: "json \<Rightarrow> manifest option"
  ce_read_grants :: "json \<Rightarrow> grant list option"
  ce_read_context :: "json \<Rightarrow> check_context option"

record capd_call =
  cc_peer :: peer
  cc_accounts :: accounts
  cc_method :: string
  cc_params :: json
  cc_now :: instant
  cc_nonce :: string
  cc_id :: string
  cc_rule_id :: string
  cc_octets :: string
  cc_code_fault :: save_fault
  cc_queue_fault :: save_fault
  cc_registry_fault :: append_fault

datatype capd_answer = AnsValue json | AnsDecision decision | AnsApproval approval
  | AnsApprovals "approval list" | AnsRules "standing_rule list" | AnsToken token

section \<open>Reading the parameters\<close>

definition lire :: "(json \<Rightarrow> 'a option) \<Rightarrow> json \<Rightarrow> string \<Rightarrow> service_error + 'a" where
  "lire read params nom =
     (case Option.bind (field nom params) read of Some x \<Rightarrow> Ok x | None \<Rightarrow> refused EcInvalidParams)"

fun as_i64 :: "json option \<Rightarrow> int option" where
  "as_i64 (Some (JInt i)) = (if - (2 ^ 63) \<le> i \<and> i < 2 ^ 63 then Some i else None)"
| "as_i64 _ = None"

definition ttl_seconds :: "json \<Rightarrow> int" where
  "ttl_seconds params = or_default (as_i64 (field ''ttl_seconds'' params)) 1800"

definition narrow_u8 :: "nat \<Rightarrow> nat option" where
  "narrow_u8 n = (if n < 256 then Some n else None)"

definition demande :: "capd_env \<Rightarrow> json \<Rightarrow> service_error + check_request" where
  "demande E params =
     and_then (lire (ce_read_res E) params ''res'') (\<lambda>r.
     and_then (lire (ce_read_act E) params ''act'') (\<lambda>a.
     and_then (texte params ''target'') (\<lambda>target.
       let q = (check_request_new r a target)
             \<lparr>cr_sandbox_level := or_default (Option.bind (as_u64 (field ''sandbox_level'' params)) narrow_u8) 0,
              cr_irreversible := or_default (as_bool (field ''irreversible'' params)) False,
              cr_external := or_default (as_bool (field ''external'' params)) False\<rparr>
       in if field ''context'' params = None then Ok q
          else and_then (lire (ce_read_context E) params ''context'') (\<lambda>x.
                 Ok (q\<lparr>cr_context := x\<lparr>x_home := [], x_target := []\<rparr>\<rparr>)))))"

definition decision_of :: "string \<Rightarrow> service_error + human_decision" where
  "decision_of t =
     (if t = ''allow'' \<or> t = ''approve'' then Ok HAllow
      else if t = ''deny'' \<or> t = ''refuse'' then Ok HDeny
      else refused EcInvalidParams)"

definition narrow_u16 :: "nat \<Rightarrow> nat option" where
  "narrow_u16 n = (if n < 65536 then Some n else None)"

definition portee :: "json \<Rightarrow> service_error + approval_scope" where
  "portee params =
     (case as_str (field ''scope'' params) of
        None \<Rightarrow> Ok ScopeOnce
      | Some s \<Rightarrow>
          if s = ''once'' then Ok ScopeOnce
          else if s = ''task'' then Ok ScopeTask
          else if s = ''agent'' then
            Ok (ScopeAgent (or_default (narrow_u16 (or_default (as_u64 (field ''days'' params)) 7)) 7))
          else refused EcInvalidParams)"

fun refus_data :: "refus \<Rightarrow> json option" where
  "refus_data NonDefini = Some (JObj [(''presence'', JStr ''undefined'')])"
| "refus_data TicketInvalide = Some (JObj [(''presence'', JStr ''required'')])"
| "refus_data (Faux restants) =
     Some (JObj [(''presence'', JStr ''wrong''), (''remaining'', JInt (int restants))])"
| "refus_data (Verrouille secondes) =
     Some (JObj [(''presence'', JStr ''locked''), (''seconds'', JInt secondes)])"
| "refus_data TropCourt = Some (JObj [(''presence'', JStr ''too_short'')])"
| "refus_data AncienRequis = Some (JObj [(''presence'', JStr ''current_required'')])"
| "refus_data Stockage = None"

definition refus_de_presence :: "refus \<Rightarrow> service_error" where
  "refus_de_presence r = (if r = Stockage then EcInternalError else EcUnauthorized, refus_data r)"

text \<open>To whom each method opens.\<close>

definition acces_of :: "string \<Rightarrow> acces" where
  "acces_of methode =
     (if methode \<in> set [''cap.mint'', ''cap.delegate'', ''cap.check'', ''approval.request'',
           ''approval.explain'', ''approval.expire''] then Services
      else if methode \<in> set [''approval.resolve'', ''approval.presence'', ''approval.set_code''] then Humains
      else Tous)"

section \<open>The methods\<close>

type_synonym capd_result = "(capd \<times> (service_error + capd_answer)) option"

definition garder :: "capd_call \<Rightarrow> capd \<Rightarrow> capd" where
  "garder c s = s\<lparr>cd_queue_file :=
     fst (sauver (cc_queue_fault c) (cd_queue_file s) (br_approvals (cd_broker s)))\<rparr>"

text \<open>\<open>CapPanic\<close> stands for a panic of the code in the making of a token.\<close>

definition token_answer :: "capd \<Rightarrow> broker \<times> (broker_error + token) \<Rightarrow> capd_result" where
  "token_answer s out =
     (case out of
        (B, Inr t) \<Rightarrow> Some (s\<lparr>cd_broker := B\<rparr>, Ok (AnsToken t))
      | (B, Inl e) \<Rightarrow> if e = BrokerCap CapPanic then None
                     else Some (s\<lparr>cd_broker := B\<rparr>, refused EcPolicyDenied))"

definition cap_check :: "capd_env \<Rightarrow> capd \<Rightarrow> capd_call \<Rightarrow> capd_result" where
  "cap_check E s c =
     (case and_then (lire (ce_read_token E) (cc_params c) ''token'') (\<lambda>t.
           and_then (demande E (cc_params c)) (\<lambda>q. Ok (t, q))) of
        Inl e \<Rightarrow> Some (s, Err e)
      | Inr (t, q) \<Rightarrow>
          (case check (ce_crypto E) (cd_broker s) t q (cc_now c) of
             None \<Rightarrow> None
           | Some (B, Inl _) \<Rightarrow> Some (s\<lparr>cd_broker := B\<rparr>, refused EcInternalError)
           | Some (B, Inr d) \<Rightarrow> Some (s\<lparr>cd_broker := B\<rparr>, Ok (AnsDecision d))))"

definition approval_request_call :: "capd_env \<Rightarrow> capd \<Rightarrow> capd_call \<Rightarrow> capd_result" where
  "approval_request_call E s c =
     (case and_then (lire (ce_read_token E) (cc_params c) ''token'') (\<lambda>t.
           and_then (demande E (cc_params c)) (\<lambda>q.
           and_then (texte (cc_params c) ''summary'') (\<lambda>r. Ok (t, q, r)))) of
        Inl e \<Rightarrow> Some (s, Err e)
      | Inr (t, q, resume) \<Rightarrow>
          (case request_approval (cd_broker s) (cc_id c) t q resume (cc_now c) of
             None \<Rightarrow> None
           | Some (B, a) \<Rightarrow> Some (garder c (s\<lparr>cd_broker := B\<rparr>), Ok (AnsApproval a))))"

definition cap_mint :: "capd_env \<Rightarrow> capd \<Rightarrow> capd_call \<Rightarrow> capd_result" where
  "cap_mint E s c =
     (case and_then (lire (ce_read_manifest E) (cc_params c) ''manifest'') (\<lambda>m.
           and_then (lire (ce_read_grants E) (cc_params c) ''grants'') (\<lambda>g.
           and_then (texte (cc_params c) ''task'') (\<lambda>task.
           and_then (texte (cc_params c) ''user'') (\<lambda>user. Ok (m, g, task, user))))) of
        Inl e \<Rightarrow> Some (s, Err e)
      | Inr (m, g, task, user) \<Rightarrow>
          token_answer s (mint (ce_crypto E) (cd_broker s) m task user g (ttl_seconds (cc_params c))
            (cc_now c) (cc_nonce c)))"

definition cap_delegate :: "capd_env \<Rightarrow> capd \<Rightarrow> capd_call \<Rightarrow> capd_result" where
  "cap_delegate E s c =
     (case and_then (lire (ce_read_token E) (cc_params c) ''parent'') (\<lambda>t.
           and_then (lire (ce_read_grants E) (cc_params c) ''grants'') (\<lambda>g.
           and_then (texte (cc_params c) ''task'') (\<lambda>task. Ok (t, g, task)))) of
        Inl e \<Rightarrow> Some (s, Err e)
      | Inr (t, g, task) \<Rightarrow>
          Option.bind (delegate (ce_crypto E) (cd_broker s) t task g (ttl_seconds (cc_params c))
            (cc_now c) (cc_nonce c)) (token_answer s))"

definition approval_explain :: "capd \<Rightarrow> capd_call \<Rightarrow> capd_result" where
  "approval_explain s c =
     (case and_then (texte (cc_params c) ''id'') (\<lambda>i.
           and_then (texte (cc_params c) ''reason'') (\<lambda>m. Ok (i, m))) of
        Inl e \<Rightarrow> Some (s, Err e)
      | Inr (i, motif) \<Rightarrow>
          (case explain_approval (cd_broker s) i motif of
             (B, None) \<Rightarrow> Some (s\<lparr>cd_broker := B\<rparr>, refused EcNotFound)
           | (B, Some a) \<Rightarrow> Some (garder c (s\<lparr>cd_broker := B\<rparr>), Ok (AnsApproval a))))"

definition approval_status_call :: "capd \<Rightarrow> capd_call \<Rightarrow> capd_result" where
  "approval_status_call s c =
     (case texte (cc_params c) ''id'' of
        Inl e \<Rightarrow> Some (s, Err e)
      | Inr i \<Rightarrow>
          (case approval_status (cd_broker s) i of
             None \<Rightarrow> Some (s, refused EcNotFound)
           | Some a \<Rightarrow> Some (s, Ok (AnsApproval a))))"

text \<open>The proof a human owes before allowing: a ticket, else the code.\<close>

definition preuve :: "capd_env \<Rightarrow> capd \<Rightarrow> capd_call \<Rightarrow> (presence \<times> (refus + unit)) option" where
  "preuve E s c =
     (case (as_str (field ''ticket'' (cc_params c)), as_str (field ''code'' (cc_params c))) of
        (Some ticket, _) \<Rightarrow> Some (valider (cd_presence s) (p_uid (cc_peer c)) ticket (cc_now c))
      | (None, Some code) \<Rightarrow>
          map_option (\<lambda>(P, r). (P, map_sum id (\<lambda>_. ()) r))
            (prouver (ce_kdf E) (cc_octets c) (cd_presence s) (p_uid (cc_peer c)) code (cc_now c))
      | (None, None) \<Rightarrow>
          Some (cd_presence s, Err (if defini (cd_presence s) then TicketInvalide else NonDefini)))"

definition owes_proof :: "capd_env \<Rightarrow> capd_call \<Rightarrow> human_decision \<Rightarrow> bool" where
  "owes_proof E c d \<longleftrightarrow> d = HAllow \<and> classe_of (cc_accounts c) (ce_pairs E) (cc_peer c) = Some Humain"

definition resolve_call :: "capd \<Rightarrow> capd_call \<Rightarrow> string \<Rightarrow> human_decision \<Rightarrow> approval_scope \<Rightarrow> capd_result" where
  "resolve_call s c i d p =
     (case resolve (br_approvals (cd_broker s)) i (cc_rule_id c) d p (cc_now c) of
        None \<Rightarrow> None
      | Some (A, out) \<Rightarrow>
          let s1 = s\<lparr>cd_broker := (cd_broker s)\<lparr>br_approvals := A\<rparr>\<rparr>
          in case out of
               None \<Rightarrow> Some (s1, refused EcNotFound)
             | Some a \<Rightarrow> Some (garder c s1, Ok (AnsApproval a)))"

definition approval_resolve :: "capd_env \<Rightarrow> capd \<Rightarrow> capd_call \<Rightarrow> capd_result" where
  "approval_resolve E s c =
     (case and_then (texte (cc_params c) ''id'') (\<lambda>i.
           and_then (and_then (texte (cc_params c) ''decision'') decision_of) (\<lambda>d.
           and_then (portee (cc_params c)) (\<lambda>p. Ok (i, d, p)))) of
        Inl e \<Rightarrow> Some (s, Err e)
      | Inr (i, d, p) \<Rightarrow>
          if owes_proof E c d
          then (case preuve E s c of
                  None \<Rightarrow> None
                | Some (P, Inl r) \<Rightarrow> Some (s\<lparr>cd_presence := P\<rparr>, Err (refus_de_presence r))
                | Some (P, Inr _) \<Rightarrow> resolve_call (s\<lparr>cd_presence := P\<rparr>) c i d p)
          else resolve_call s c i d p)"

definition approval_presence :: "capd_env \<Rightarrow> capd \<Rightarrow> capd_call \<Rightarrow> capd_result" where
  "approval_presence E s c =
     (case texte (cc_params c) ''code'' of
        Inl e \<Rightarrow> Some (s, Err e)
      | Inr code \<Rightarrow>
          (case prouver (ce_kdf E) (cc_octets c) (cd_presence s) (p_uid (cc_peer c)) code (cc_now c) of
             None \<Rightarrow> None
           | Some (P, Inl r) \<Rightarrow> Some (s\<lparr>cd_presence := P\<rparr>, Err (refus_de_presence r))
           | Some (P, Inr (ticket, fin)) \<Rightarrow>
               Some (s\<lparr>cd_presence := P\<rparr>, Ok (AnsValue (JObj [(''ticket'', JStr ticket),
                 (''expires_in_s'', JInt (whole_seconds (fin - cc_now c)))])))))"

definition approval_set_code :: "capd_env \<Rightarrow> capd \<Rightarrow> capd_call \<Rightarrow> capd_result" where
  "approval_set_code E s c =
     (case texte (cc_params c) ''code'' of
        Inl e \<Rightarrow> Some (s, Err e)
      | Inr code \<Rightarrow>
          (case definir (ce_kdf E) (cc_code_fault c) (cc_octets c) (cd_presence s) (cd_code_file s) code
                  (as_str (field ''current'' (cc_params c)))
                  (classe_of (cc_accounts c) (ce_pairs E) (cc_peer c) = Some Soi) (cc_now c) of
             None \<Rightarrow> None
           | Some (P, F, Inl r) \<Rightarrow> Some (s\<lparr>cd_presence := P, cd_code_file := F\<rparr>, Err (refus_de_presence r))
           | Some (P, F, Inr _) \<Rightarrow>
               Some (s\<lparr>cd_presence := P, cd_code_file := F\<rparr>, Ok (AnsValue (JObj [(''defined'', JBool True)])))))"

definition code_status :: "capd \<Rightarrow> capd_call \<Rightarrow> capd_result" where
  "code_status s c = Some (s, Ok (AnsValue (JObj [(''defined'', JBool (defini (cd_presence s))),
     (''locked_s'', case verrou_restant (cd_presence s) (cc_now c) of Some n \<Rightarrow> JInt n | None \<Rightarrow> JNull)])))"

definition approval_expire :: "capd \<Rightarrow> capd_call \<Rightarrow> capd_result" where
  "approval_expire s c =
     (case expire (br_approvals (cd_broker s)) (cc_now c) of
        None \<Rightarrow> None
      | Some (A, perimees) \<Rightarrow>
          let s1 = s\<lparr>cd_broker := (cd_broker s)\<lparr>br_approvals := A\<rparr>\<rparr>
          in Some (if perimees = [] then s1 else garder c s1,
                   Ok (AnsValue (JObj [(''expired'', JInt (int (length perimees)))]))))"

definition cap_revoke :: "capd_env \<Rightarrow> capd \<Rightarrow> capd_call \<Rightarrow> capd_result" where
  "cap_revoke E s c =
     (case texte (cc_params c) ''subject'' of
        Inl e \<Rightarrow> Some (s, Err e)
      | Inr sujet \<Rightarrow>
          let nouveau = \<not> is_revoked (cd_broker s) sujet;
              s1 = garder c (s\<lparr>cd_broker := revoke (cd_broker s) sujet\<rparr>);
              (F, ok) = (if nouveau
                         then inscrire (ce_codec E) (cc_registry_fault c) (cd_registry s1) sujet (cc_now c)
                         else (cd_registry s1, True));
              s2 = s1\<lparr>cd_registry := F\<rparr>
          in Some (s2, if ok then Ok (AnsValue (JObj [(''revoked'', JStr sujet)]))
                       else refused EcInternalError))"

section \<open>The handler and the start of the service\<close>

definition capd_step :: "capd_env \<Rightarrow> capd \<Rightarrow> capd_call \<Rightarrow> capd_result" where
  "capd_step E s c =
     (let m = cc_method c in
      if m \<noteq> ''ping'' \<and> \<not> permet (cc_accounts c) (ce_pairs E) (cc_peer c) (acces_of m)
      then Some (s, refused EcUnauthorized)
      else if m = ''ping'' then Some (s, Ok (AnsValue (JStr ''pong'')))
      else if m = ''cap.public_key'' then Some (s, Ok (AnsValue (JObj [(''key'',
             JStr (''ed25519:'' @ k_b64_encode (ce_crypto E) (ce_public_key E)))])))
      else if m = ''cap.check'' then cap_check E s c
      else if m = ''approval.request'' then approval_request_call E s c
      else if m = ''cap.mint'' then cap_mint E s c
      else if m = ''cap.delegate'' then cap_delegate E s c
      else if m = ''approval.pending'' then Some (s, Ok (AnsApprovals (pending (br_approvals (cd_broker s)))))
      else if m = ''approval.rules'' then Some (s, Ok (AnsRules (q_rules (br_approvals (cd_broker s)))))
      else if m = ''approval.explain'' then approval_explain s c
      else if m = ''approval.status'' then approval_status_call s c
      else if m = ''approval.resolve'' then approval_resolve E s c
      else if m = ''approval.presence'' then approval_presence E s c
      else if m = ''approval.set_code'' then approval_set_code E s c
      else if m = ''approval.code_status'' then code_status s c
      else if m = ''approval.expire'' then approval_expire s c
      else if m = ''cap.revoke'' then cap_revoke E s c
      else Some (s, refused EcMethodNotFound))"

text \<open>\<open>main\<close>, on what is left of an earlier run; \<open>None\<close>: the service does not start.\<close>

definition capd_start :: "capd_env \<Rightarrow> engine \<Rightarrow> string \<Rightarrow> open_fault \<Rightarrow> empreinte kept \<Rightarrow> approvals kept
    \<Rightarrow> string option \<Rightarrow> capd option" where
  "capd_start E politiques maison fault code_file queue_file registry =
     (case ouvrir_registre (ce_codec E) fault registry of
        (_, None) \<Rightarrow> None
      | (registry', Some revoques) \<Rightarrow>
          let B = fold (\<lambda>sujet B. revoke B sujet) revoques
                    (with_policy (broker_new ''capd'' maison) politiques)
          in case (charger queue_file, ouvrir code_file) of
               (Some A, Some P) \<Rightarrow> Some \<lparr>cd_broker = restore_approvals B A, cd_presence = P,
                  cd_code_file = code_file, cd_queue_file = queue_file, cd_registry = registry'\<rparr>
             | _ \<Rightarrow> None)"

end
