(* ===== verification/Capd_Guard.thy ===== *)
theory Capd_Guard
  imports Capd_Service
begin

text \<open>
  What the capability service guards: a human's yes is backed by the code, and each class of peers
  has its methods and nothing else.
\<close>

section \<open>What each method changes\<close>

lemma run_append_one:
  "run step s (es @ [e]) =
     (case run step s es of
        None \<Rightarrow> None
      | Some (s', outs) \<Rightarrow> (case step s' e of None \<Rightarrow> None | Some (s'', out) \<Rightarrow> Some (s'', outs @ [out])))"
  by (induction es arbitrary: s) (auto split: option.splits)

lemma run_snocE:
  assumes "run step s (es @ [e]) = Some (s'', outs)"
  obtains s' outs' out where "run step s es = Some (s', outs')" "step s' e = Some (s'', out)"
    "outs = outs' @ [out]"
  using assms by (auto simp: run_append_one split: option.splits)

lemma capd_step_cases:
  assumes "capd_step E s c = Some (s', out)"
  obtains (unchanged) "s' = s" "(\<exists>e. out = Err e) \<or> cc_method c \<noteq> ''approval.resolve''"
    | (check) "cc_method c = ''cap.check''" "cap_check E s c = Some (s', out)"
        "permet (cc_accounts c) (ce_pairs E) (cc_peer c) Services"
    | (request) "cc_method c = ''approval.request''" "approval_request_call E s c = Some (s', out)"
        "permet (cc_accounts c) (ce_pairs E) (cc_peer c) Services"
    | (mint) "cc_method c = ''cap.mint''" "cap_mint E s c = Some (s', out)"
        "permet (cc_accounts c) (ce_pairs E) (cc_peer c) Services"
    | (delegate) "cc_method c = ''cap.delegate''" "cap_delegate E s c = Some (s', out)"
        "permet (cc_accounts c) (ce_pairs E) (cc_peer c) Services"
    | (explain) "cc_method c = ''approval.explain''" "approval_explain s c = Some (s', out)"
        "permet (cc_accounts c) (ce_pairs E) (cc_peer c) Services"
    | (resolve) "cc_method c = ''approval.resolve''" "approval_resolve E s c = Some (s', out)"
        "permet (cc_accounts c) (ce_pairs E) (cc_peer c) Humains"
    | (presence) "cc_method c = ''approval.presence''" "approval_presence E s c = Some (s', out)"
        "permet (cc_accounts c) (ce_pairs E) (cc_peer c) Humains"
    | (set_code) "cc_method c = ''approval.set_code''" "approval_set_code E s c = Some (s', out)"
        "permet (cc_accounts c) (ce_pairs E) (cc_peer c) Humains"
    | (expire) "cc_method c = ''approval.expire''" "approval_expire s c = Some (s', out)"
        "permet (cc_accounts c) (ce_pairs E) (cc_peer c) Services"
    | (revoke) "cc_method c = ''cap.revoke''" "cap_revoke E s c = Some (s', out)"
  using assms
  by (auto simp: capd_step_def Let_def acces_of_def approval_status_call_def code_status_def
      split: if_splits sum.splits option.splits)

lemma garder_frame [simp]:
  "cd_broker (garder c s) = cd_broker s" "cd_presence (garder c s) = cd_presence s"
  "cd_code_file (garder c s) = cd_code_file s" "cd_registry (garder c s) = cd_registry s"
  by (simp_all add: garder_def)

lemma revoke_frame [simp]:
  "br_issued (revoke B x) = br_issued B" "br_revoked (revoke B x) = insert x (br_revoked B)"
  by (simp_all add: revoke_def)

text \<open>The parts of the state a method does not name are as they were.\<close>

lemma check_frame:
  assumes "cap_check E s c = Some (s', out)"
  obtains V C where "s' = s\<lparr>cd_broker := (cd_broker s)\<lparr>br_verified := V, br_policy_cache := C\<rparr>\<rparr>"
proof -
  have "(\<exists>V C. s' = s\<lparr>cd_broker := (cd_broker s)\<lparr>br_verified := V, br_policy_cache := C\<rparr>\<rparr>)"
  proof (cases "s' = s")
    case True
    then show ?thesis
      by (intro exI [of _ "br_verified (cd_broker s)"] exI [of _ "br_policy_cache (cd_broker s)"]) simp
  next
    case False
    with assms obtain t q B r where B: "check (ce_crypto E) (cd_broker s) t q (cc_now c) = Some (B, r)"
      and s': "s' = s\<lparr>cd_broker := B\<rparr>"
      by (auto simp: cap_check_def split: sum.splits option.splits prod.splits)
    from B obtain V C where "B = (cd_broker s)\<lparr>br_verified := V, br_policy_cache := C\<rparr>"
      by (rule check_state)
    with s' show ?thesis by blast
  qed
  with that show thesis by blast
qed

text \<open>The effect of a step on the broker.\<close>

lemma resolve_call_effect:
  assumes "resolve_call s c i d p = Some (s', out)"
  shows "cd_presence s' = cd_presence s" "cd_code_file s' = cd_code_file s"
    "cd_registry s' = cd_registry s" "\<exists>A. cd_broker s' = (cd_broker s)\<lparr>br_approvals := A\<rparr>"
    "out = Ok (AnsApproval a) \<Longrightarrow> a_state a = Resolved d"
    "cd_queue_file s' = cd_queue_file s \<or>
       cd_queue_file s' = fst (sauver (cc_queue_fault c) (cd_queue_file s) (br_approvals (cd_broker s')))"
proof -
  obtain A r where A: "resolve (br_approvals (cd_broker s)) i (cc_rule_id c) d p (cc_now c) = Some (A, r)"
    using assms by (auto simp: resolve_call_def split: option.splits)
  show "cd_presence s' = cd_presence s" "cd_code_file s' = cd_code_file s"
    "cd_registry s' = cd_registry s" "\<exists>A. cd_broker s' = (cd_broker s)\<lparr>br_approvals := A\<rparr>"
    "cd_queue_file s' = cd_queue_file s \<or>
       cd_queue_file s' = fst (sauver (cc_queue_fault c) (cd_queue_file s) (br_approvals (cd_broker s')))"
    using assms by (auto simp: resolve_call_def A Let_def garder_def split: option.splits)
  assume "out = Ok (AnsApproval a)"
  then have "r = Some a" using assms by (auto simp: resolve_call_def A Let_def split: option.splits)
  with A show "a_state a = Resolved d" by (cases rule: resolve_cases) auto
qed

lemma approval_resolve_cases:
  assumes "approval_resolve E s c = Some (s', out)"
  obtains (bad) e where "s' = s" "out = Err e"
    | (free) i d p where "\<not> owes_proof E c d" "resolve_call s c i d p = Some (s', out)"
    | (unproved) P r where "preuve E s c = Some (P, Inl r)" "s' = s\<lparr>cd_presence := P\<rparr>"
        "out = Err (refus_de_presence r)"
    | (proved) i d p P where "owes_proof E c d" "preuve E s c = Some (P, Ok ())"
        "resolve_call (s\<lparr>cd_presence := P\<rparr>) c i d p = Some (s', out)"
proof (cases "\<exists>e. s' = s \<and> out = Err e")
  case True
  with that(1) show thesis by blast
next
  case False
  with assms obtain i d p where
    "(if owes_proof E c d
      then (case preuve E s c of
              None \<Rightarrow> None
            | Some (P, Inl r) \<Rightarrow> Some (s\<lparr>cd_presence := P\<rparr>, Err (refus_de_presence r))
            | Some (P, Inr _) \<Rightarrow> resolve_call (s\<lparr>cd_presence := P\<rparr>) c i d p)
      else resolve_call s c i d p) = Some (s', out)"
    by (auto simp: approval_resolve_def split: sum.splits)
  with that(2-4) show thesis by (auto split: if_splits option.splits sum.splits)
qed

section \<open>A human's yes\<close>

definition shows_code :: "capd_env \<Rightarrow> capd \<Rightarrow> capd_call \<Rightarrow> bool" where
  "shows_code E s c \<longleftrightarrow> (\<exists>code. as_str (field ''code'' (cc_params c)) = Some code
     \<and> right_code (ce_kdf E) (cd_presence s) code)"

text \<open>How tickets can change in a step: only the right code gives one, for its own account.\<close>

definition tickets_earned :: "capd_env \<Rightarrow> capd \<Rightarrow> capd_call \<Rightarrow> presence \<Rightarrow> bool" where
  "tickets_earned E s c P' \<longleftrightarrow> distinct_keys (ps_tickets P')
     \<and> (\<forall>k u fin. map_of (ps_tickets P') k = Some (u, fin) \<longrightarrow>
          ps_empreinte P' = ps_empreinte (cd_presence s)
          \<and> (map_of (ps_tickets (cd_presence s)) k = Some (u, fin)
             \<or> shows_code E s c \<and> u = p_uid (cc_peer c) \<and> fin = cc_now c + DUREE_DU_TICKET))"

lemma tickets_earned_same [simp]:
  "distinct_keys (ps_tickets (cd_presence s)) \<Longrightarrow> tickets_earned E s c (cd_presence s)"
  by (simp add: tickets_earned_def)

lemma prouver_earned:
  assumes "as_str (field ''code'' (cc_params c)) = Some code"
    and "prouver (ce_kdf E) (cc_octets c) (cd_presence s) (p_uid (cc_peer c)) code (cc_now c) = Some (P', r)"
    and "distinct_keys (ps_tickets (cd_presence s))"
  shows "tickets_earned E s c P'"
  using prouver_tickets [OF assms(2) _ assms(3)] prouver_frame [OF assms(2,3)] assms(1)
  by (fastforce simp: tickets_earned_def shows_code_def)

lemma preuve_earned:
  assumes "preuve E s c = Some (P', r)" "distinct_keys (ps_tickets (cd_presence s))"
  shows "tickets_earned E s c P'"
proof (cases "as_str (field ''ticket'' (cc_params c))")
  case (Some ticket)
  then have "valider (cd_presence s) (p_uid (cc_peer c)) ticket (cc_now c) = (P', r)"
    using assms(1) by (simp add: preuve_def)
  from valider_frame [OF this assms(2)] show ?thesis by (auto simp: tickets_earned_def)
next
  case None
  show ?thesis
  proof (cases "as_str (field ''code'' (cc_params c))")
    case (Some code)
    with None assms show ?thesis by (auto simp: preuve_def intro: prouver_earned)
  next
    case no_code: None
    with None assms show ?thesis by (auto simp: preuve_def)
  qed
qed

lemma set_code_earned:
  assumes "approval_set_code E s c = Some (s', out)" "distinct_keys (ps_tickets (cd_presence s))"
  shows "tickets_earned E s c (cd_presence s')"
proof (cases "s' = s")
  case True
  then show ?thesis using assms(2) by simp
next
  case False
  with assms obtain code ancien admin F r where
    d: "definir (ce_kdf E) (cc_code_fault c) (cc_octets c) (cd_presence s) (cd_code_file s) code
      ancien admin (cc_now c) = Some (cd_presence s', F, r)"
    by (auto simp: approval_set_code_def split: sum.splits option.splits prod.splits)
  then show ?thesis
    using definir_Ok definir_Err assms(2) by (cases r) (fastforce simp: tickets_earned_def)+
qed

lemma presence_only:
  assumes "capd_step E s c = Some (s', out)"
  shows "cd_presence s' = cd_presence s
    \<or> cc_method c \<in> {''approval.resolve'', ''approval.presence'', ''approval.set_code''}"
  using assms
proof (cases rule: capd_step_cases)
  case check
  then show ?thesis by (auto elim: check_frame)
qed (auto simp: approval_request_call_def cap_mint_def cap_delegate_def token_answer_def
    approval_explain_def approval_expire_def cap_revoke_def Let_def
    split: sum.splits option.splits prod.splits if_splits bind_splits)

lemma step_earned:
  assumes "capd_step E s c = Some (s', out)" "distinct_keys (ps_tickets (cd_presence s))"
  shows "tickets_earned E s c (cd_presence s')"
  using assms(1)
proof (cases rule: capd_step_cases)
  case resolve
  from resolve(2) show ?thesis
  proof (cases rule: approval_resolve_cases)
    case (free i d p)
    then show ?thesis using resolve_call_effect(1) assms(2) by fastforce
  next
    case (unproved P r)
    then show ?thesis using preuve_earned assms(2) by simp
  next
    case (proved i d p P)
    then show ?thesis using preuve_earned assms(2) resolve_call_effect(1) by fastforce
  qed (use assms(2) in simp)
next
  case presence
  then show ?thesis
    using assms(2) prouver_earned [of c _ E s]
    by (auto simp: approval_presence_def texte_def split: sum.splits option.splits)
next
  case set_code
  then show ?thesis using set_code_earned assms(2) by blast
next
  case unchanged
  then show ?thesis using assms(2) by simp
qed (use presence_only [OF assms(1)] assms(2) in auto)

text \<open>
  The code was shown by an account at a moment of a run from \<open>s0\<close>, and is still the code at the end.
\<close>

definition shown_in :: "capd_env \<Rightarrow> capd \<Rightarrow> capd_call list \<Rightarrow> nat \<Rightarrow> instant \<Rightarrow> empreinte option \<Rightarrow> bool" where
  "shown_in E s0 cs uid t code \<longleftrightarrow>
     (\<exists>pre c post s outs. cs = pre @ c # post \<and> run (capd_step E) s0 pre = Some (s, outs)
        \<and> shows_code E s c \<and> p_uid (cc_peer c) = uid \<and> cc_now c = t
        \<and> ps_empreinte (cd_presence s) = code)"

lemma shown_in_later: "shown_in E s0 cs uid t code \<Longrightarrow> shown_in E s0 (cs @ [c]) uid t code"
  unfolding shown_in_def by (metis append_Cons append_assoc)

lemma shown_now:
  assumes "run (capd_step E) s0 cs = Some (s, outs)" "shows_code E s c"
  shows "shown_in E s0 (cs @ [c]) (p_uid (cc_peer c)) (cc_now c) (ps_empreinte (cd_presence s))"
  unfolding shown_in_def
  by (rule exI [of _ cs], rule exI [of _ c], rule exI [of _ "[]"], rule exI [of _ s]) (simp add: assms)

lemma tickets_shown:
  assumes "run (capd_step E) s0 cs = Some (s, outs)" "ps_tickets (cd_presence s0) = []"
  shows "distinct_keys (ps_tickets (cd_presence s)) \<and>
    (\<forall>k u fin. map_of (ps_tickets (cd_presence s)) k = Some (u, fin) \<longrightarrow>
       shown_in E s0 cs u (fin - DUREE_DU_TICKET) (ps_empreinte (cd_presence s)))"
  using assms(1)
proof (induction cs arbitrary: s outs rule: rev_induct)
  case Nil
  with assms(2) show ?case by simp
next
  case (snoc c cs)
  then obtain s1 outs1 out where r: "run (capd_step E) s0 cs = Some (s1, outs1)"
    and step: "capd_step E s1 c = Some (s, out)"
    by (auto elim: run_snocE)
  note IH = snoc.IH [OF r]
  note earned = step_earned [OF step conjunct1 [OF IH], unfolded tickets_earned_def]
  have "shown_in E s0 (cs @ [c]) u (fin - DUREE_DU_TICKET) (ps_empreinte (cd_presence s))"
    if k: "map_of (ps_tickets (cd_presence s)) k = Some (u, fin)" for k u fin
  proof -
    have same: "ps_empreinte (cd_presence s) = ps_empreinte (cd_presence s1)"
      using earned k by blast
    consider "map_of (ps_tickets (cd_presence s1)) k = Some (u, fin)"
      | "shows_code E s1 c" "u = p_uid (cc_peer c)" "fin = cc_now c + DUREE_DU_TICKET"
      using earned k by blast
    then show ?thesis
    proof cases
      case 1
      then show ?thesis using IH same shown_in_later by metis
    next
      case 2
      then show ?thesis using shown_now [OF r] same by simp
    qed
  qed
  then show ?case using earned by blast
qed

lemma preuve_Ok:
  assumes "preuve E s c = Some (P, Ok u)" "distinct_keys (ps_tickets (cd_presence s))"
  shows "shows_code E s c
    \<or> (\<exists>k fin. map_of (ps_tickets (cd_presence s)) k = Some (p_uid (cc_peer c), fin) \<and> cc_now c < fin)"
proof (cases "as_str (field ''ticket'' (cc_params c))")
  case (Some ticket)
  then have "valider (cd_presence s) (p_uid (cc_peer c)) ticket (cc_now c) = (P, Ok u)"
    using assms(1) by (simp add: preuve_def)
  from valider_Ok [OF this assms(2)] show ?thesis by blast
next
  case None
  with assms(1) obtain code r where "as_str (field ''code'' (cc_params c)) = Some code"
    "prouver (ce_kdf E) (cc_octets c) (cd_presence s) (p_uid (cc_peer c)) code (cc_now c) = Some (P, r)"
    "map_sum id (\<lambda>_. ()) r = Ok u"
    by (auto simp: preuve_def split: option.splits)
  then show ?thesis
    by (cases r) (auto simp: shows_code_def dest: prouver_Ok)
qed

text \<open>
  C9. A program in the session of the human cannot say yes for the human: whenever the service, on
  any sequence of calls since its start, lets a peer of the human's class allow an approval, the
  right code was shown, in this call or in an earlier one of the same account less than ten minutes
  ago, and the code has not been changed since.
\<close>

theorem human_yes_needs_code:
  assumes "run (capd_step E) s0 cs = Some (s, outs)" "ps_tickets (cd_presence s0) = []"
    and "capd_step E s c = Some (s', Ok (AnsApproval a))" "cc_method c = ''approval.resolve''"
    and "a_state a = Resolved HAllow"
    and "classe_of (cc_accounts c) (ce_pairs E) (cc_peer c) = Some Humain"
  shows "\<exists>t. shown_in E s0 (cs @ [c]) (p_uid (cc_peer c)) t (ps_empreinte (cd_presence s))
     \<and> cc_now c < t + DUREE_DU_TICKET"
proof -
  have resolved: "approval_resolve E s c = Some (s', Ok (AnsApproval a))"
    using assms(3,4) by (cases rule: capd_step_cases) auto
  note tickets = tickets_shown [OF assms(1,2)]
  from resolved obtain P where "preuve E s c = Some (P, Ok ())"
  proof (cases rule: approval_resolve_cases)
    case (free i d p)
    then have "d = HAllow" using resolve_call_effect(5) [of s c i d p s' _ a] assms(5) by simp
    with free assms(6) show thesis by (simp add: owes_proof_def)
  qed auto
  then consider "shows_code E s c"
    | k fin where "map_of (ps_tickets (cd_presence s)) k = Some (p_uid (cc_peer c), fin)" "cc_now c < fin"
    using preuve_Ok tickets by blast
  then show ?thesis
  proof cases
    case 1
    then show ?thesis using shown_now [OF assms(1)]
      by (intro exI [of _ "cc_now c"]) (simp add: DUREE_DU_TICKET_def seconds_def)
  next
    case 2
    then show ?thesis
      using tickets shown_in_later by (intro exI [of _ "fin - DUREE_DU_TICKET"]) simp
  qed
qed

text \<open>A machine with a human (account 1000), one payment waiting, and the code already defined.\<close>

definition human :: peer where
  "human = \<lparr>p_uid = 1000, p_gid = 100, p_pid = None\<rparr>"

definition door_env :: capd_env where
  "door_env = \<lparr>ce_crypto = demo_crypto, ce_kdf = plain_kdf,
     ce_codec = \<lparr>lc_print = (\<lambda>s t. if CHR 0x0A \<in> set s \<or> \<not> utf8_valid s then None else Some s), lc_parse = Some\<rparr>,
     ce_pairs = \<lparr>pr_gid_systeme = Some 5, pr_uid_propre = 4, pr_membres_figes = Some [1000]\<rparr>,
     ce_public_key = ''k'', ce_read_token = (\<lambda>_. None), ce_read_res = (\<lambda>_. None),
     ce_read_act = (\<lambda>_. None), ce_read_manifest = (\<lambda>_. None), ce_read_grants = (\<lambda>_. None),
     ce_read_context = (\<lambda>_. None)\<rparr>"

definition waiting_payment :: approval where
  "waiting_payment = new_approval ''approval:1'' payment 0 1000"

definition door_state :: capd where
  "door_state = \<lparr>cd_broker = (broker_new ''capd'' ''/home/u'')
       \<lparr>br_approvals := approvals_new\<lparr>q_pending := [(''approval:1'', waiting_payment)]\<rparr>\<rparr>,
     cd_presence = locked_door, cd_code_file = \<lparr>kp_main = None, kp_tmp = None\<rparr>,
     cd_queue_file = \<lparr>kp_main = None, kp_tmp = None\<rparr>, cd_registry = None\<rparr>"

definition human_call :: "string \<Rightarrow> json \<Rightarrow> instant \<Rightarrow> capd_call" where
  "human_call m p now = \<lparr>cc_peer = human, cc_accounts = \<lparr>ac_group = None, ac_passwd = None\<rparr>,
     cc_method = m, cc_params = p, cc_now = now, cc_nonce = ''n'', cc_id = ''i'', cc_rule_id = ''r'',
     cc_octets = ''T'', cc_code_fault = NoFault, cc_queue_fault = NoFault,
     cc_registry_fault = AppendFine\<rparr>"

definition show_up :: capd_call where
  "show_up = human_call ''approval.presence'' (JObj [(''code'', JStr ''tulipe'')]) 0"

definition say_yes :: capd_call where
  "say_yes = human_call ''approval.resolve'' (JObj [(''id'', JStr ''approval:1''),
     (''decision'', JStr ''allow''), (''ticket'', JStr (hex ''T''))]) 60"

lemma locked_door_code: "prouver plain_kdf w P uid ''tulipe'' t =
    map_option (\<lambda>fin. (P\<lparr>ps_echecs := 0, ps_verrou := None,
        ps_tickets := AList.update (hex w) (uid, fin) (retain (\<lambda>_ (_, fin). t < fin) (ps_tickets P))\<rparr>,
        Ok (hex w, fin))) (datetime_add t DUREE_DU_TICKET)"
  if "ps_empreinte P = Some (nouvelle plain_kdf ''s'' ''tulipe'')" "ps_verrou P = None" for w P uid t
  using that by (simp add: prouver_def comparer_def verrou_restant_def plain_kdf_correspond
      current_tickets_def Let_def)

lemma human_class [simp]: "classe_of ac (ce_pairs door_env) human = Some Humain"
  by (simp add: classe_of_def door_env_def human_def ROOT_def)

lemma shown_up:
  obtains P where "run (capd_step door_env) door_state [show_up] = Some (door_state\<lparr>cd_presence := P\<rparr>,
      [Ok (AnsValue (JObj [(''ticket'', JStr (hex ''T'')), (''expires_in_s'', JInt 600)]))])"
    "ps_tickets P = [(hex ''T'', 1000, seconds 600)]"
    "ps_empreinte P = Some (nouvelle plain_kdf ''s'' ''tulipe'')"
proof -
  let ?P = "locked_door\<lparr>ps_tickets := [(hex ''T'', 1000, seconds 600)]\<rparr>"
  have "prouver plain_kdf ''T'' locked_door 1000 ''tulipe'' 0 = Some (?P, Ok (hex ''T'', seconds 600))"
    using locked_door_code [of locked_door "''T''" 1000 0]
    by (simp add: locked_door_def retain_def datetime_add_def datetime_min_def datetime_max_def
        DUREE_DU_TICKET_def seconds_def)
  moreover have "ce_kdf door_env = plain_kdf" "cd_presence door_state = locked_door" "p_uid human = 1000"
    by (simp_all add: door_env_def door_state_def human_def)
  ultimately have "approval_presence door_env door_state show_up = Some (door_state\<lparr>cd_presence := ?P\<rparr>,
      Ok (AnsValue (JObj [(''ticket'', JStr (hex ''T'')), (''expires_in_s'', JInt 600)])))"
    by (simp add: approval_presence_def show_up_def human_call_def texte_def seconds_def whole_seconds_def)
  then have "run (capd_step door_env) door_state [show_up] = Some (door_state\<lparr>cd_presence := ?P\<rparr>,
      [Ok (AnsValue (JObj [(''ticket'', JStr (hex ''T'')), (''expires_in_s'', JInt 600)]))])"
    by (simp add: capd_step_def show_up_def human_call_def acces_of_def permet_def)
  then show thesis by (rule that) (simp_all add: locked_door_def)
qed

theorem human_yes_needs_code_witness:
  "\<exists>s outs s' a t. run (capd_step door_env) door_state [show_up] = Some (s, outs)
     \<and> capd_step door_env s say_yes = Some (s', Ok (AnsApproval a)) \<and> a_state a = Resolved HAllow
     \<and> shown_in door_env door_state [show_up, say_yes] 1000 t (Some (nouvelle plain_kdf ''s'' ''tulipe''))
     \<and> 60 < t + DUREE_DU_TICKET"
proof -
  obtain P where P: "run (capd_step door_env) door_state [show_up] = Some (door_state\<lparr>cd_presence := P\<rparr>,
      [Ok (AnsValue (JObj [(''ticket'', JStr (hex ''T'')), (''expires_in_s'', JInt 600)]))])"
    "ps_tickets P = [(hex ''T'', 1000, seconds 600)]"
    "ps_empreinte P = Some (nouvelle plain_kdf ''s'' ''tulipe'')"
    by (rule shown_up)
  let ?s = "door_state\<lparr>cd_presence := P\<rparr>" and ?a = "waiting_payment\<lparr>a_state := Resolved HAllow\<rparr>"
  have shown: "preuve door_env ?s say_yes = Some (P, Ok ())"
    using P(2) by (simp add: preuve_def say_yes_def human_call_def valider_def current_tickets_def
        retain_def Let_def seconds_def human_def)
  have "owes_proof door_env say_yes HAllow"
    by (simp add: owes_proof_def say_yes_def human_call_def)
  moreover have "\<exists>s'. resolve_call ?s say_yes ''approval:1'' HAllow ScopeOnce = Some (s', Ok (AnsApproval ?a))"
    by (simp add: resolve_call_def resolve_def door_state_def approvals_new_def broker_new_def
        effective_scope_def waiting_payment_def Let_def)
  ultimately obtain s' where "approval_resolve door_env ?s say_yes = Some (s', Ok (AnsApproval ?a))"
    using shown by (auto simp: approval_resolve_def say_yes_def human_call_def texte_def and_then_def
        decision_of_def portee_def)
  then have step: "capd_step door_env ?s say_yes = Some (s', Ok (AnsApproval ?a))"
    by (simp add: capd_step_def say_yes_def human_call_def acces_of_def permet_def)
  obtain t where "shown_in door_env door_state ([show_up] @ [say_yes]) (p_uid (cc_peer say_yes)) t
      (ps_empreinte (cd_presence ?s)) \<and> cc_now say_yes < t + DUREE_DU_TICKET"
    using human_yes_needs_code [OF P(1) _ step]
    by (auto simp: door_state_def locked_door_def say_yes_def human_call_def)
  then show ?thesis using P step
    by (intro exI [of _ ?s] exI [of _ s'] exI [of _ ?a] exI [of _ t] exI)
      (simp add: say_yes_def human_call_def human_def)
qed

section \<open>Each class its methods\<close>

lemma request_grows:
  assumes "request A i r now = Some (A', a)"
  shows "q_rules A' = q_rules A" "q_resolved A' = q_resolved A" "set (q_once A') \<subseteq> set (q_once A)"
  using assms by (cases rule: request_cases; auto simp: AList.delete_eq)+

lemma take_expired_frame:
  "q_rules (fst (take_expired is A)) = q_rules A \<and> q_resolved (fst (take_expired is A)) = q_resolved A
     \<and> q_once (fst (take_expired is A)) = q_once A"
  by (induction "is" A rule: take_expired.induct) (auto simp: Let_def split: option.splits prod.splits)

lemma expire_grows:
  assumes "expire A now = Some (A', out)"
  shows "q_rules A' = q_rules A" "set (q_resolved A') \<subseteq> set (q_resolved A)" "set (q_once A') \<subseteq> set (q_once A)"
proof -
  obtain horizon where "A' = fst (take_expired
      (map fst (filter (\<lambda>(_, a). a_expires a \<le> now) (q_pending A)))
      (A\<lparr>q_resolved := retain (\<lambda>_ a. horizon < a_created a) (q_resolved A),
         q_once := retain (\<lambda>_ a. horizon < a_created a) (q_once A)\<rparr>))"
    using assms by (auto simp: expire_def Let_def split: option.splits) (metis fst_conv)
  then show "q_rules A' = q_rules A" "set (q_resolved A') \<subseteq> set (q_resolved A)"
    "set (q_once A') \<subseteq> set (q_once A)"
    by (auto simp: take_expired_frame set_retain)
qed

text \<open>What a decision of the human leaves: a rule, a decision to consume, a decision to read.\<close>

definition decided_more :: "approvals \<Rightarrow> approvals \<Rightarrow> bool" where
  "decided_more A A' \<longleftrightarrow> \<not> (set (q_rules A') \<subseteq> set (q_rules A) \<and> set (q_resolved A') \<subseteq> set (q_resolved A)
     \<and> set (q_once A') \<subseteq> set (q_once A))"

lemma explain_grows:
  "explain A i m = (A', out) \<Longrightarrow> q_rules A' = q_rules A \<and> q_resolved A' = q_resolved A \<and> q_once A' = q_once A"
  by (auto simp: explain_def Let_def split: if_splits option.splits)

lemma step_decides:
  assumes "capd_step E s c = Some (s', out)" "cc_method c \<noteq> ''approval.resolve''"
  shows "\<not> decided_more (br_approvals (cd_broker s)) (br_approvals (cd_broker s'))"
  using assms(1)
proof (cases rule: capd_step_cases)
  case unchanged
  then show ?thesis by (simp add: decided_more_def)
next
  case check
  from check(2) show ?thesis by (rule check_frame) (simp add: decided_more_def)
next
  case request
  then have "s' = s \<or> (\<exists>r A a. request (br_approvals (cd_broker s)) (cc_id c) r (cc_now c) = Some (A, a)
      \<and> br_approvals (cd_broker s') = A)"
    by (auto simp: approval_request_call_def request_approval_def split: sum.splits option.splits)
  then show ?thesis using request_grows unfolding decided_more_def by (metis order_refl)
next
  case mint
  then show ?thesis
    by (auto simp: cap_mint_def token_answer_def decided_more_def split: sum.splits prod.splits if_splits
        elim!: mint_cases)
next
  case delegate
  then show ?thesis
    by (auto simp: cap_delegate_def token_answer_def decided_more_def
        split: sum.splits prod.splits if_splits bind_splits elim!: delegate_cases)
next
  case explain
  then show ?thesis
    by (auto simp: approval_explain_def explain_approval_def decided_more_def dest: explain_grows
        split: sum.splits prod.splits option.splits)
next
  case expire
  then show ?thesis
    by (auto simp: approval_expire_def decided_more_def Let_def expire_grows
        intro: expire_grows(2,3) [THEN subsetD] split: option.splits if_splits)
next
  case revoke
  then show ?thesis
    by (auto simp: cap_revoke_def Let_def decided_more_def revoke_def clear_task_rules_def
        split: sum.splits prod.splits)
qed (use assms presence_only [OF assms(1)] in \<open>auto simp: decided_more_def approval_presence_def
      approval_set_code_def split: sum.splits option.splits prod.splits\<close>)

lemma step_issues:
  assumes "capd_step E s c = Some (s', out)"
    "cc_method c \<noteq> ''cap.mint''" "cc_method c \<noteq> ''cap.delegate''"
  shows "br_issued (cd_broker s') = br_issued (cd_broker s)"
  using assms(1)
proof (cases rule: capd_step_cases)
  case check
  from check(2) show ?thesis by (rule check_frame) simp
next
  case resolve
  from resolve(2) show ?thesis
  proof (cases rule: approval_resolve_cases)
    case (free i d p)
    then show ?thesis using resolve_call_effect(4) by fastforce
  next
    case (proved i d p P)
    then show ?thesis using resolve_call_effect(4) by fastforce
  qed simp_all
qed (use assms(2,3) in \<open>auto simp: approval_request_call_def request_approval_def approval_explain_def
      explain_approval_def approval_expire_def cap_revoke_def approval_presence_def
      approval_set_code_def Let_def split: sum.splits option.splits prod.splits if_splits\<close>)

lemma step_revokes:
  assumes "capd_step E s c = Some (s', out)"
  shows "br_revoked (cd_broker s') =
    (if cc_method c = ''cap.revoke'' \<and> autorise (cc_accounts c) (ce_pairs E) (cc_peer c)
     then br_revoked (cd_broker s) \<union> set_option (as_str (field ''subject'' (cc_params c)))
     else br_revoked (cd_broker s))"
proof (cases "cc_method c = ''cap.revoke''")
  case True
  then show ?thesis
    using assms by (auto simp: capd_step_def acces_of_def permet_Tous cap_revoke_def texte_def Let_def
        split: if_splits option.splits sum.splits prod.splits)
next
  case False
  from assms show ?thesis
  proof (cases rule: capd_step_cases)
    case check
    from check(2) show ?thesis using False by (auto elim: check_frame)
  next
    case resolve
    from resolve(2) show ?thesis using False
      by (cases rule: approval_resolve_cases) (use resolve_call_effect(4) in fastforce)+
  next
    case mint
    then show ?thesis
      by (auto simp: cap_mint_def token_answer_def split: sum.splits prod.splits if_splits elim!: mint_cases)
  next
    case delegate
    then show ?thesis
      by (auto simp: cap_delegate_def token_answer_def
          split: sum.splits prod.splits if_splits bind_splits elim!: delegate_cases)
  qed (use False in \<open>auto simp: approval_request_call_def request_approval_def approval_explain_def
        explain_approval_def approval_expire_def approval_presence_def
        approval_set_code_def Let_def split: sum.splits option.splits prod.splits if_splits\<close>)
qed

text \<open>
  C34. The classes of peers are apart: only the services (and root and the service itself) make new
  tokens, only the human (and those) decides approvals or touches the code, a peer that is not
  admitted changes nothing and gets nothing but \<open>pong\<close>, and nobody undoes a revocation.
\<close>

theorem classes_apart:
  assumes "capd_step E s c = Some (s', out)"
    and "class = classe_of (cc_accounts c) (ce_pairs E) (cc_peer c)"
  shows "(br_issued (cd_broker s') \<noteq> br_issued (cd_broker s) \<longrightarrow> class \<in> {Some Soi, Some Service})
    \<and> (decided_more (br_approvals (cd_broker s)) (br_approvals (cd_broker s'))
        \<or> cd_presence s' \<noteq> cd_presence s \<longrightarrow> class \<in> {Some Soi, Some Humain})
    \<and> (class = None \<longrightarrow> s' = s \<and> out \<in> {refused EcUnauthorized, Ok (AnsValue (JStr ''pong''))})
    \<and> br_revoked (cd_broker s) \<subseteq> br_revoked (cd_broker s')"
proof (intro conjI)
  show "br_issued (cd_broker s') \<noteq> br_issued (cd_broker s) \<longrightarrow> class \<in> {Some Soi, Some Service}"
    using assms step_issues [OF assms(1)]
    by (cases rule: capd_step_cases) (auto simp: permet_Services)
  show "decided_more (br_approvals (cd_broker s)) (br_approvals (cd_broker s'))
      \<or> cd_presence s' \<noteq> cd_presence s \<longrightarrow> class \<in> {Some Soi, Some Humain}"
    using assms step_decides [OF assms(1)] presence_only [OF assms(1)]
    by (cases rule: capd_step_cases) (auto simp: permet_Humains decided_more_def)
  show "class = None \<longrightarrow> s' = s \<and> out \<in> {refused EcUnauthorized, Ok (AnsValue (JStr ''pong''))}"
    using assms by (auto simp: capd_step_def permet_def Let_def split: if_splits)
  show "br_revoked (cd_broker s) \<subseteq> br_revoked (cd_broker s')"
    using step_revokes [OF assms(1)] by auto
qed

theorem classes_apart_witness:
  "\<exists>s' out. capd_step door_env door_state
       (human_call ''cap.revoke'' (JObj [(''subject'', JStr ''task:1'')]) 0) = Some (s', out)
     \<and> br_issued (cd_broker s') = br_issued (cd_broker door_state)
     \<and> br_revoked (cd_broker door_state) \<subseteq> br_revoked (cd_broker s')"
proof -
  let ?c = "human_call ''cap.revoke'' (JObj [(''subject'', JStr ''task:1'')]) 0"
  have "capd_step door_env door_state ?c \<noteq> None"
    by (simp add: capd_step_def human_call_def acces_of_def permet_def cap_revoke_def texte_def Let_def
        split: prod.split)
  then obtain s' out where step: "capd_step door_env door_state ?c = Some (s', out)" by auto
  note apart = classes_apart [OF step refl]
  have "br_issued (cd_broker s') = br_issued (cd_broker door_state)"
    using apart by (simp add: human_call_def)
  moreover have "br_revoked (cd_broker door_state) \<subseteq> br_revoked (cd_broker s')" using apart by blast
  ultimately show ?thesis using step by blast
qed

end
