(* ===== verification/Capd_Restart.thy ===== *)
theory Capd_Restart
  imports Capd_Guard
begin

text \<open>
  What survives the service: the register of revocations and the code, across any run and any crash;
  and two ways a confirmed revocation is lost when the disk fails.
\<close>

section \<open>Restarting\<close>

text \<open>
  What is on the disk agrees with the memory: the register lists the revoked subjects in whole lines,
  the code file is the code, the kept queue is whole.
\<close>

definition revoked_listed :: "line_codec \<Rightarrow> capd \<Rightarrow> bool" where
  "revoked_listed C s \<longleftrightarrow> (\<exists>sujets. registry_lines C (text_of (cd_registry s)) sujets
     \<and> set sujets = br_revoked (cd_broker s))"

definition files_whole :: "capd \<Rightarrow> bool" where
  "files_whole s \<longleftrightarrow> ps_fichier (cd_presence s)
     \<and> kp_main (cd_code_file s) = map_option Whole (ps_empreinte (cd_presence s))
     \<and> kp_main (cd_queue_file s) \<noteq> Some Torn"

lemma sauver_whole: "kp_main F \<noteq> Some Torn \<Longrightarrow> kp_main (fst (sauver fault F A)) \<noteq> Some Torn"
  by (auto simp: sauver_def write_beside_def split: prod.splits save_fault.splits if_splits)

lemma garder_whole: "files_whole s \<Longrightarrow> files_whole (garder c s)"
  by (simp add: files_whole_def garder_def sauver_whole)

lemma definir_file:
  assumes "definir K fault sel P F code ancien admin t = Some (P', F', r)" "ps_fichier P"
    "kp_main F = map_option Whole (ps_empreinte P)"
  shows "ps_fichier P' \<and> kp_main F' = map_option Whole (ps_empreinte P')"
proof -
  have frame: "ps_fichier P1 \<and> ps_empreinte P1 = ps_empreinte P"
    if "comparer K P a t = Some (P1, x)" for a P1 x
    using comparer_frame [OF that] assms(2) by simp
  show ?thesis
    using assms
    by (auto simp: definir_def Let_def dest!: ecrire_main frame
        split: if_splits option.splits sum.splits prod.splits)
qed

definition resaved :: "approvals kept \<Rightarrow> approvals kept \<Rightarrow> bool" where
  "resaved F F' \<longleftrightarrow> F' = F \<or> (\<exists>fault A. F' = fst (sauver fault F A))"

lemma resaved_same [simp]: "resaved F F"
  by (simp add: resaved_def)

lemma resaved_garder [simp]: "resaved (cd_queue_file s) (cd_queue_file (garder c s))"
  unfolding resaved_def garder_def by auto

lemma resaved_garder_broker [simp]:
  "resaved (cd_queue_file s) (cd_queue_file (garder c (s\<lparr>cd_broker := B\<rparr>)))"
  using resaved_garder [of "s\<lparr>cd_broker := B\<rparr>" c] by simp

lemma resaved_whole: "resaved F F' \<Longrightarrow> kp_main F \<noteq> Some Torn \<Longrightarrow> kp_main F' \<noteq> Some Torn"
  unfolding resaved_def using sauver_whole by blast

lemma queue_file_step:
  assumes "capd_step E s c = Some (s', out)"
    "cc_method c \<notin> {''approval.resolve'', ''approval.presence'', ''approval.set_code''}"
  shows "cd_code_file s' = cd_code_file s \<and> resaved (cd_queue_file s) (cd_queue_file s')"
  using assms(1)
proof (cases rule: capd_step_cases)
  case check
  from check(2) show ?thesis by (rule check_frame) simp
next
  case request
  then show ?thesis
    by (auto simp: approval_request_call_def split: sum.splits option.splits)
next
  case mint
  then show ?thesis
    by (auto simp: cap_mint_def token_answer_def split: sum.splits prod.splits if_splits)
next
  case delegate
  then show ?thesis
    by (auto simp: cap_delegate_def token_answer_def split: sum.splits prod.splits if_splits bind_splits)
next
  case explain
  then show ?thesis
    by (auto simp: approval_explain_def split: sum.splits prod.splits option.splits)
next
  case expire
  then show ?thesis
    by (auto simp: approval_expire_def Let_def split: option.splits if_splits)
next
  case revoke
  then show ?thesis
    by (auto simp: cap_revoke_def Let_def split: sum.splits prod.splits)
qed (use assms(2) in auto)

lemma step_files:
  assumes "capd_step E s c = Some (s', out)" "files_whole s" "distinct_keys (ps_tickets (cd_presence s))"
  shows "files_whole s'"
proof -
  have new_code: "files_whole t" if t: "approval_set_code E s c = Some (t, r)" for t r
  proof (cases "t = s")
    case True
    then show ?thesis using assms(2) by simp
  next
    case False
    with t obtain code ancien admin P F x where
      d: "definir (ce_kdf E) (cc_code_fault c) (cc_octets c) (cd_presence s) (cd_code_file s) code
        ancien admin (cc_now c) = Some (P, F, x)"
      and t: "t = s\<lparr>cd_presence := P, cd_code_file := F\<rparr>"
      by (auto simp: approval_set_code_def split: sum.splits option.splits prod.splits)
    from definir_file [OF d] assms(2) show ?thesis by (simp add: files_whole_def t)
  qed
  have keep: "files_whole (s\<lparr>cd_presence := P\<rparr>)"
    if "ps_empreinte P = ps_empreinte (cd_presence s)" "ps_fichier P = ps_fichier (cd_presence s)" for P
    using that assms(2) by (simp add: files_whole_def)
  have proof_kept: "ps_empreinte P = ps_empreinte (cd_presence s) \<and> ps_fichier P = ps_fichier (cd_presence s)"
    if "preuve E s c = Some (P, r)" for P r
    using that
    by (auto simp: preuve_def valider_def current_tickets_def Let_def
        dest: prouver_frame [OF _ assms(3)] split: option.splits)
  have resolve_kept: "files_whole t" if "resolve_call u c i d p = Some (t, r)" "files_whole u" for u i d p t r
    using that by (auto simp: resolve_call_def Let_def files_whole_def resaved_whole [OF resaved_garder_broker]
        split: option.splits)
  from assms(1) show ?thesis
  proof (cases rule: capd_step_cases)
    case unchanged
    with assms(2) show ?thesis by simp
  next
    case check
    from check(2) show ?thesis by (rule check_frame) (use assms(2) in \<open>simp add: files_whole_def\<close>)
  next
    case resolve
    from resolve(2) show ?thesis
    proof (cases rule: approval_resolve_cases)
      case (free i d p)
      then show ?thesis using resolve_kept assms(2) by blast
    next
      case (unproved P r)
      then show ?thesis using keep proof_kept by blast
    next
      case (proved i d p P)
      then show ?thesis using keep proof_kept resolve_kept by blast
    qed (use assms(2) in simp)
  next
    case presence
    then show ?thesis using keep assms(2)
      by (auto simp: approval_presence_def dest: prouver_frame [OF _ assms(3)]
          split: sum.splits option.splits prod.splits)
  next
    case set_code
    then show ?thesis using new_code by blast
  qed (use presence_only [OF assms(1)] queue_file_step [OF assms(1)] assms(2) resaved_whole
      in \<open>auto simp: files_whole_def\<close>)
qed

text \<open>No revocation of a run was answered with the failure of its registration.\<close>

definition all_registered :: "capd_call list \<Rightarrow> (service_error + capd_answer) list \<Rightarrow> bool" where
  "all_registered cs outs \<longleftrightarrow>
     (\<forall>(c, out) \<in> set (zip cs outs). cc_method c = ''cap.revoke'' \<longrightarrow> out \<noteq> refused EcInternalError)"

lemma revoke_register:
  assumes "cap_revoke E s c = Some (s', out)"
  obtains (bad) e where "s' = s" "out = Err e" "e \<noteq> (EcInternalError, None)"
    | (known) sujet where "sujet \<in> br_revoked (cd_broker s)" "cd_registry s' = cd_registry s"
        "br_revoked (cd_broker s') = br_revoked (cd_broker s)"
        "out = Ok (AnsValue (JObj [(''revoked'', JStr sujet)]))"
    | (fresh) sujet ok where
        "texte (cc_params c) ''subject'' = Ok sujet"
        "inscrire (ce_codec E) (cc_registry_fault c) (cd_registry s) sujet (cc_now c) = (cd_registry s', ok)"
        "br_revoked (cd_broker s') = insert sujet (br_revoked (cd_broker s))"
        "ok \<longleftrightarrow> out \<noteq> refused EcInternalError"
proof (cases "texte (cc_params c) ''subject''")
  case (Inl e)
  then have "e = (EcInvalidParams, None)" by (auto simp: texte_def split: option.splits)
  then show thesis using that(1) assms Inl by (auto simp: cap_revoke_def)
next
  case (Inr sujet)
  show thesis
  proof (cases "sujet \<in> br_revoked (cd_broker s)")
    case True
    then show thesis using that(2) assms Inr
      by (auto simp: cap_revoke_def is_revoked_def Let_def insert_absorb)
  next
    case False
    then show thesis using that(3) assms Inr
      by (auto simp: cap_revoke_def is_revoked_def Let_def split: prod.splits if_splits)
  qed
qed

lemma registry_only:
  assumes "capd_step E s c = Some (s', out)" "cc_method c \<noteq> ''cap.revoke''"
  shows "cd_registry s' = cd_registry s"
  using assms(1)
proof (cases rule: capd_step_cases)
  case check
  from check(2) show ?thesis by (rule check_frame) simp
next
  case resolve
  from resolve(2) show ?thesis
    by (cases rule: approval_resolve_cases) (use resolve_call_effect(3) in fastforce)+
next
  case mint
  then show ?thesis
    by (auto simp: cap_mint_def token_answer_def split: sum.splits prod.splits if_splits)
next
  case delegate
  then show ?thesis
    by (auto simp: cap_delegate_def token_answer_def split: sum.splits prod.splits if_splits bind_splits)
qed (use assms(2) in \<open>auto simp: approval_request_call_def approval_explain_def approval_expire_def
      approval_presence_def approval_set_code_def Let_def
      split: sum.splits option.splits prod.splits if_splits\<close>)

lemma step_listed:
  assumes "capd_step E s c = Some (s', out)" "revoked_listed (ce_codec E) s"
    "cc_method c = ''cap.revoke'' \<longrightarrow> out \<noteq> refused EcInternalError"
  shows "revoked_listed (ce_codec E) s'"
proof (cases "cap_revoke E s c = Some (s', out) \<and> cc_method c = ''cap.revoke''")
  case True
  then have "cap_revoke E s c = Some (s', out)" "out \<noteq> refused EcInternalError" using assms(3) by auto
  then show ?thesis
  proof (cases rule: revoke_register)
    case (fresh sujet ok)
    then show ?thesis using assms(2) inscrire_ok True assms(3)
      by (fastforce simp: revoked_listed_def)
  qed (use assms(2) in \<open>auto simp: revoked_listed_def\<close>)
next
  case False
  have "cd_registry s' = cd_registry s \<and> br_revoked (cd_broker s') = br_revoked (cd_broker s)"
  proof (cases "cc_method c = ''cap.revoke''")
    case True
    from assms(1) show ?thesis by (cases rule: capd_step_cases) (use True False in auto)
  qed (use registry_only [OF assms(1)] step_revokes [OF assms(1)] in auto)
  then show ?thesis using assms(2) by (simp add: revoked_listed_def)
qed

lemma registry_changes:
  assumes "capd_step E s c = Some (s', out)"
  shows "cc_method c = ''cap.revoke'' \<and> cap_revoke E s c = Some (s', out)
    \<or> cd_registry s' = cd_registry s \<and> br_revoked (cd_broker s') = br_revoked (cd_broker s)"
proof (cases "cc_method c = ''cap.revoke''")
  case True
  with assms show ?thesis by (cases rule: capd_step_cases) auto
qed (use registry_only [OF assms] step_revokes [OF assms] in auto)

lemma run_keeps_files:
  assumes "run (capd_step E) s0 cs = Some (s, outs)" "all_registered cs outs"
    and "ps_tickets (cd_presence s0) = []" "revoked_listed (ce_codec E) s0" "files_whole s0"
  shows "revoked_listed (ce_codec E) s \<and> files_whole s"
  using assms(1,2)
proof (induction cs arbitrary: s outs rule: rev_induct)
  case Nil
  with assms(4,5) show ?case by simp
next
  case (snoc c cs)
  then obtain s1 outs1 out where r: "run (capd_step E) s0 cs = Some (s1, outs1)"
    and step: "capd_step E s1 c = Some (s, out)" and outs: "outs = outs1 @ [out]"
    by (auto elim: run_snocE)
  have "length outs1 = length cs" using run_length [OF r] .
  with snoc.prems(2) outs have "all_registered cs outs1"
    "cc_method c = ''cap.revoke'' \<longrightarrow> out \<noteq> refused EcInternalError"
    by (auto simp: all_registered_def)
  with snoc.IH [OF r] step_listed [OF step] step_files [OF step] tickets_shown [OF r assms(3)]
  show ?case by blast
qed

lemma fold_revoke:
  "br_revoked (fold (\<lambda>x B. revoke B x) xs B) = br_revoked B \<union> set xs"
  by (induction xs arbitrary: B) auto

lemma start_from_files:
  assumes "codec_ok (ce_codec E)" "holds_subjects (ce_codec E) registry sujets"
    and "kp_main queue_file \<noteq> Some Torn" "kp_main code_file = map_option Whole code"
    and "utf8_valid (text_of registry)"
  obtains s where "capd_start E politiques maison OpenFine code_file queue_file registry = Some s"
    "br_revoked (cd_broker s) = set sujets" "ps_empreinte (cd_presence s) = code"
    "revoked_listed (ce_codec E) s" "files_whole s" "ps_tickets (cd_presence s) = []"
proof -
  obtain registry' where r: "ouvrir_registre (ce_codec E) OpenFine registry = (registry', Some sujets)"
    "registry_lines (ce_codec E) (text_of registry') sujets"
    using ouvrir_registre_ok [OF assms(1,2,5)] .
  have "charger queue_file \<noteq> None"
    using assms(3) by (simp add: charger_def split: option.splits stored.splits)
  then obtain A where A: "charger queue_file = Some A" by blast
  obtain P where P: "ouvrir code_file = Some P" "ps_empreinte P = code" "ps_tickets P = []" "ps_fichier P"
    using assms(4) by (cases code) (auto simp: ouvrir_def)
  let ?B = "fold (\<lambda>sujet B. revoke B sujet) sujets (with_policy (broker_new ''capd'' maison) politiques)"
  have revoked: "br_revoked ?B = set sujets"
    by (simp add: fold_revoke with_policy_def broker_new_def)
  let ?s = "\<lparr>cd_broker = restore_approvals ?B A, cd_presence = P, cd_code_file = code_file,
      cd_queue_file = queue_file, cd_registry = registry'\<rparr>"
  show thesis
  proof (rule that [of ?s])
    show "capd_start E politiques maison OpenFine code_file queue_file registry = Some ?s"
      by (simp add: capd_start_def r(1) A P(1) Let_def)
    show "revoked_listed (ce_codec E) ?s"
      using r(2) revoked by (auto simp: revoked_listed_def restore_approvals_def)
    show "files_whole ?s" using P assms(3,4) by (simp add: files_whole_def)
  qed (simp_all add: revoked restore_approvals_def P)
qed

lemma start_reads_text: "capd_start E politiques maison fault code_file queue_file registry = Some s \<Longrightarrow>
    utf8_valid (text_of registry)"
  by (auto simp: capd_start_def ouvrir_registre_def utf8_valid_def Let_def split: prod.splits option.splits if_splits)

text \<open>
  C10. What was revoked stays revoked across a crash. The service starts on what an earlier one left,
  serves any calls none of which was told that its revocation could not be registered, and is killed
  in the middle of one more call, a revocation half written included. If its register is text, it
  starts again, with every revoked subject revoked, no subject nobody asked to revoke, and the same
  code. If it is not, it does not start: then the last call was a revocation whose line was cut inside
  a character of more than one byte.
\<close>

theorem revocations_survive:
  assumes "codec_ok (ce_codec E)" "holds_subjects (ce_codec E) registry sujets"
    and "kp_main queue_file \<noteq> Some Torn" "kp_main code_file = map_option Whole code"
    and "capd_start E politiques maison OpenFine code_file queue_file registry = Some s0"
    and "run (capd_step E) s0 cs = Some (s, outs)" "all_registered cs outs"
    and "capd_step E s c = Some (s', out)"
  shows "if utf8_valid (text_of (cd_registry s'))
    then \<exists>s''. capd_start E politiques maison OpenFine (cd_code_file s') (cd_queue_file s') (cd_registry s')
        = Some s''
     \<and> br_revoked (cd_broker s) \<subseteq> br_revoked (cd_broker s'')
     \<and> br_revoked (cd_broker s'') \<subseteq> br_revoked (cd_broker s')
     \<and> ps_empreinte (cd_presence s'') = ps_empreinte (cd_presence s')
    else capd_start E politiques maison OpenFine (cd_code_file s') (cd_queue_file s') (cd_registry s') = None
     \<and> cc_method c = ''cap.revoke''
     \<and> (\<exists>n sujet l. cc_registry_fault c = AppendTorn n \<and> texte (cc_params c) ''subject'' = Ok sujet
          \<and> lc_print (ce_codec E) sujet (cc_now c) = Some l \<and> \<not> utf8_valid (take n l))"
proof -
  have s0: "revoked_listed (ce_codec E) s0" "files_whole s0" "ps_tickets (cd_presence s0) = []"
    using start_from_files [OF assms(1-4) start_reads_text [OF assms(5)], of politiques maison] assms(5) by auto
  note kept = run_keeps_files [OF assms(6,7) s0(3,1,2)]
  note tickets = tickets_shown [OF assms(6) s0(3)]
  have files: "files_whole s'" using step_files [OF assms(8)] kept tickets by blast
  obtain sujets1 where listed: "registry_lines (ce_codec E) (text_of (cd_registry s)) sujets1"
    "set sujets1 = br_revoked (cd_broker s)"
    using kept by (auto simp: revoked_listed_def)
  obtain sujets' where held: "holds_subjects (ce_codec E) (cd_registry s') sujets'"
    "br_revoked (cd_broker s) \<subseteq> set sujets'" "set sujets' \<subseteq> br_revoked (cd_broker s')"
  proof (cases "cc_method c = ''cap.revoke'' \<and> cap_revoke E s c = Some (s', out)")
    case True
    then have "cap_revoke E s c = Some (s', out)" by blast
    then show thesis
    proof (cases rule: revoke_register)
      case (fresh sujet ok)
      from inscrire_failed [OF assms(1) listed(1) fresh(2)] show thesis
      proof
        assume "holds_subjects (ce_codec E) (cd_registry s') sujets1"
        then show thesis using that listed(2) fresh(3) by auto
      next
        assume "registry_lines (ce_codec E) (text_of (cd_registry s')) (sujets1 @ [sujet])"
        then show thesis
          by (intro that [OF holds_complete]) (use listed(2) fresh(3) in auto)
      qed
    qed (use that [OF holds_complete] listed in auto)
  next
    case False
    then show thesis using that [OF holds_complete] listed registry_changes [OF assms(8)] by auto
  qed
  have code_file: "kp_main (cd_code_file s') = map_option Whole (ps_empreinte (cd_presence s'))"
    and queue_file: "kp_main (cd_queue_file s') \<noteq> Some Torn"
    using files by (simp_all add: files_whole_def)
  show ?thesis
  proof (cases "utf8_valid (text_of (cd_registry s'))")
    case True
    obtain s'' where s'': "capd_start E politiques maison OpenFine (cd_code_file s') (cd_queue_file s')
        (cd_registry s') = Some s''" "br_revoked (cd_broker s'') = set sujets'"
      "ps_empreinte (cd_presence s'') = ps_empreinte (cd_presence s')"
      by (rule start_from_files [OF assms(1) held(1) queue_file code_file True])
    have "br_revoked (cd_broker s) \<subseteq> br_revoked (cd_broker s'')
        \<and> br_revoked (cd_broker s'') \<subseteq> br_revoked (cd_broker s')"
      using held(2,3) by (simp add: s''(2))
    with s''(1,3) show ?thesis unfolding if_P [OF True] by blast
  next
    case False
    have before: "utf8_valid (text_of (cd_registry s))" by (rule registry_utf8 [OF assms(1) listed(1)])
    have revoking: "cc_method c = ''cap.revoke''" "cap_revoke E s c = Some (s', out)"
      using registry_changes [OF assms(8)] False before by auto
    from revoking(2) have "\<exists>n sujet l. cc_registry_fault c = AppendTorn n \<and> texte (cc_params c) ''subject'' = Ok sujet
        \<and> lc_print (ce_codec E) sujet (cc_now c) = Some l \<and> \<not> utf8_valid (take n l)"
    proof (cases rule: revoke_register)
      case (fresh sujet ok)
      from inscrire_utf8 [OF assms(1) listed(1) fresh(2) False] fresh(1) show ?thesis by blast
    qed (use False before in auto)
    with False revoking(1) show ?thesis using start_reads_text by fastforce
  qed
qed

text \<open>A revocation confirmed, then one cut after two bytes: the service starts again with the first.\<close>

definition revoke_call :: "string \<Rightarrow> append_fault \<Rightarrow> capd_call" where
  "revoke_call sujet fault =
     (human_call ''cap.revoke'' (JObj [(''subject'', JStr sujet)]) 0)\<lparr>cc_registry_fault := fault\<rparr>"

definition fresh_start :: "capd option" where
  "fresh_start = capd_start door_env default_engine ''/home/u'' OpenFine \<lparr>kp_main = None, kp_tmp = None\<rparr>
     \<lparr>kp_main = None, kp_tmp = None\<rparr> None"

lemma revoke_call_step:
  "capd_step door_env s (revoke_call sujet fault) = cap_revoke door_env s (revoke_call sujet fault)"
  by (simp add: capd_step_def revoke_call_def human_call_def acces_of_def permet_def)

lemma door_codec: "codec_ok (ce_codec door_env)"
  by (simp add: codec_ok_def door_env_def)

lemma subjects_text [simp]: "utf8_valid ''task:1''" "utf8_valid ''task:2''" "utf8_valid ''ta''"
  by code_simp+

lemma door_print: "lc_print (ce_codec door_env) sujet t
    = (if CHR 0x0A \<in> set sujet \<or> \<not> utf8_valid sujet then None else Some sujet)"
  by (simp add: door_env_def)

theorem revocations_survive_witness:
  "\<exists>s0 s outs s' out s''. fresh_start = Some s0
     \<and> run (capd_step door_env) s0 [revoke_call ''task:1'' AppendFine] = Some (s, outs)
     \<and> capd_step door_env s (revoke_call ''task:2'' (AppendTorn 2)) = Some (s', out)
     \<and> capd_start door_env default_engine ''/home/u'' OpenFine (cd_code_file s') (cd_queue_file s')
         (cd_registry s') = Some s''
     \<and> ''task:1'' \<in> br_revoked (cd_broker s'')"
proof -
  have held: "holds_subjects (ce_codec door_env) None []"
    by (rule holds_complete) (simp add: registry_lines.empty)
  obtain s0 where s0: "fresh_start = Some s0" "br_revoked (cd_broker s0) = {}"
    using start_from_files [OF door_codec held, of "\<lparr>kp_main = None, kp_tmp = None\<rparr>"
        "\<lparr>kp_main = None, kp_tmp = None\<rparr>" None default_engine "''/home/u''"]
    by (auto simp: fresh_start_def utf8_valid_def)
  let ?c = "revoke_call ''task:1'' AppendFine" and ?d = "revoke_call ''task:2'' (AppendTorn 2)"
  have fields: "cc_params ?c = JObj [(''subject'', JStr ''task:1'')]" "cc_registry_fault ?c = AppendFine"
    "cc_params ?d = JObj [(''subject'', JStr ''task:2'')]" "cc_registry_fault ?d = AppendTorn 2"
    "cc_method ?d = ''cap.revoke''"
    by (simp_all add: revoke_call_def human_call_def)
  have keeps: "cd_broker (garder c s) = cd_broker s" "cd_registry (garder c s) = cd_registry s" for c s
    by (simp_all add: garder_def)
  obtain F ok where F: "inscrire (ce_codec door_env) AppendFine (cd_registry s0) ''task:1'' (cc_now ?c) = (F, ok)"
    by fastforce
  have ok: "ok" using F by (auto simp: inscrire_def door_print)
  define s where "s = garder ?c (s0\<lparr>cd_broker := revoke (cd_broker s0) ''task:1''\<rparr>)\<lparr>cd_registry := F\<rparr>"
  have s: "cap_revoke door_env s0 ?c = Some (s, Ok (AnsValue (JObj [(''revoked'', JStr ''task:1'')])))"
    using s0(2) F ok by (simp add: cap_revoke_def fields texte_def is_revoked_def Let_def s_def keeps)
  then have r: "run (capd_step door_env) s0 [?c] = Some (s, [Ok (AnsValue (JObj [(''revoked'', JStr ''task:1'')]))])"
    by (simp add: revoke_call_step)
  have revoked: "''task:1'' \<in> br_revoked (cd_broker s)" by (simp add: s_def keeps revoke_def)
  have "capd_step door_env s ?d \<noteq> None"
    unfolding revoke_call_step
    by (simp add: cap_revoke_def fields texte_def Let_def split: prod.splits)
  then obtain s' out where s': "capd_step door_env s ?d = Some (s', out)" by auto
  have cut: "utf8_valid (take 2 ''task:2'')" by simp
  have "\<not> (\<exists>n sujet l. cc_registry_fault ?d = AppendTorn n \<and> texte (cc_params ?d) ''subject'' = Ok sujet
      \<and> lc_print (ce_codec door_env) sujet (cc_now ?d) = Some l \<and> \<not> utf8_valid (take n l))"
    unfolding fields texte_def using cut by (auto simp: door_print split: if_splits)
  then obtain s'' where "capd_start door_env default_engine ''/home/u'' OpenFine (cd_code_file s')
      (cd_queue_file s') (cd_registry s') = Some s''" "''task:1'' \<in> br_revoked (cd_broker s'')"
    using revocations_survive [OF door_codec held _ _ s0(1) [unfolded fresh_start_def] r _ s', of None] revoked
    by (auto simp: all_registered_def split: if_splits)
  with s0(1) r s' show ?thesis by blast
qed

section \<open>Two ways a confirmed revocation is lost\<close>

text \<open>
  A revocation whose registration failed has revoked in memory; asking again finds the subject
  revoked, registers nothing, and is answered as a success.
\<close>

lemma revocation_retry_unwritten:
  assumes "cc_method c = ''cap.revoke''" "texte (cc_params c) ''subject'' = Ok sujet"
    and "autorise (cc_accounts c) (ce_pairs E) (cc_peer c)" "sujet \<notin> br_revoked (cd_broker s)"
    and "cc_registry_fault c = AppendOpenFails"
  shows "\<exists>s2. run (capd_step E) s [c, c] =
      Some (s2, [refused EcInternalError, Ok (AnsValue (JObj [(''revoked'', JStr sujet)]))])
    \<and> sujet \<in> br_revoked (cd_broker s2) \<and> cd_registry s2 = cd_registry s"
proof -
  have "capd_step E u c = cap_revoke E u c" for u
    using assms(1,3) by (simp add: capd_step_def acces_of_def permet_Tous)
  then show ?thesis
    using assms(2,4,5) by (simp add: cap_revoke_def is_revoked_def inscrire_def Let_def)
qed

text \<open>
  A line cut by a failing disk stays at the end of the register while the service runs: the next
  revocation is glued to it, is confirmed, and the service does not start again.
\<close>

lemma glued_line_stops_service:
  assumes "registry_lines C (text_of fichier) sujets" "codec_ok C"
    and "lc_print C a t = Some la" "0 < n" "n \<le> length la"
    and "lc_print C b t' = Some lb" "lc_parse C (take n la @ lb) = None"
    and "inscrire C (AppendTorn n) fichier a t = (f1, ok1)" "inscrire C AppendFine f1 b t' = (f2, ok2)"
  shows "\<not> ok1 \<and> ok2 \<and> ouvrir_registre C OpenFine f2 = (f2, None)"
proof -
  obtain ls where ls: "str_split CHR 0x0A (text_of fichier) = ls @ [[]]"
    "map (lc_parse C) ls = map Some sujets"
    using lists_split [OF assms(2,1)] by blast
  have no_nl: "CHR 0x0A \<notin> set (take n la @ lb)"
    using assms(2,3,6) by (auto simp: codec_ok_def dest: in_set_takeD)
  have f2: "f2 = Some (text_of fichier @ (take n la @ lb) @ [CHR 0x0A])" "\<not> ok1" "ok2"
    using assms(3,5,6,8,9) by (auto simp: inscrire_def)
  have "split_terminator CHR 0x0A (text_of f2) = ls @ [take n la @ lb]"
    unfolding f2 using str_split_snoc_lines [OF no_nl] ls(1) by (simp add: split_terminator_def butlast_append)
  moreover have "ends_with [CHR 0x0A] (text_of f2)"
    unfolding f2 ends_with_iff by (metis append_assoc text_of_simps(2))
  moreover have "relire C True (ls @ [take n la @ lb]) = None"
    using ls(2) assms(7) by (induction ls arbitrary: sujets) (auto simp: Cons_eq_map_conv)
  ultimately show ?thesis using f2(2,3) by (auto simp: ouvrir_registre_def Let_def)
qed

end
