(* ===== verification/Vault.thy ===== *)
theory Vault
  imports Peers Kept_File Utf8_Text Machine
begin

text \<open>
  The vault of secrets (\<^verbatim>\<open>crates/vault/src/lib.rs\<close>) and its service
  (\<^verbatim>\<open>crates/vault/src/bin/prophet-vault.rs\<close>): references, entries encrypted under one key, the file
  replaced at once, the key file, and the methods of the socket with the one account that obtains
  values. The cipher and base64 are parameters; the twelve bytes of a nonce and the fault of the
  disk come with each call. \<open>None\<close> is a panic: a nonce read from the file whose length is not twelve.
\<close>

section \<open>References\<close>

definition SECRET_PREFIX :: string where
  "SECRET_PREFIX = ''prophet-secret:''"

datatype secret_ref = SecretRef string

text \<open>The derived order is that of the text.\<close>

instantiation secret_ref :: linorder
begin

fun less_eq_secret_ref :: "secret_ref \<Rightarrow> secret_ref \<Rightarrow> bool" where
  "less_eq_secret_ref (SecretRef a) (SecretRef b) = (a \<le> b)"

fun less_secret_ref :: "secret_ref \<Rightarrow> secret_ref \<Rightarrow> bool" where
  "less_secret_ref (SecretRef a) (SecretRef b) = (a < b)"

instance
proof
  fix x y z :: secret_ref
  show "(x < y) = (x \<le> y \<and> \<not> y \<le> x)" by (cases x; cases y) auto
  show "x \<le> x" by (cases x) simp
  show "x \<le> y \<Longrightarrow> y \<le> z \<Longrightarrow> x \<le> z" by (cases x; cases y; cases z) auto
  show "x \<le> y \<Longrightarrow> y \<le> x \<Longrightarrow> x = y" by (cases x; cases y) auto
  show "x \<le> y \<or> y \<le> x" by (cases x; cases y) auto
qed

end

definition secret_ref_new :: "string \<Rightarrow> secret_ref" where
  "secret_ref_new name = SecretRef (SECRET_PREFIX @ name)"

fun secret_ref_str :: "secret_ref \<Rightarrow> string" where
  "secret_ref_str (SecretRef s) = s"

fun secret_ref_name :: "secret_ref \<Rightarrow> string" where
  "secret_ref_name (SecretRef s) = (case strip_prefix SECRET_PREFIX s of Some n \<Rightarrow> n | None \<Rightarrow> s)"

definition secret_ref_parse :: "string \<Rightarrow> secret_ref option" where
  "secret_ref_parse text = map_option secret_ref_new (strip_prefix SECRET_PREFIX text)"

section \<open>Entries, key, file\<close>

datatype vault_error = VaultIo | VaultFormat | VaultDecrypt | VaultBadKey | VaultUnknown string

record secret_info =
  si_name :: string
  si_domains :: "string list"
  si_header :: string
  si_description :: string

record entry =
  en_info :: secret_info
  en_nonce :: string
  en_ciphertext :: string

record vault_crypto =
  vc_encode :: "string \<Rightarrow> string"
  vc_decode :: "string \<Rightarrow> string option"
  vc_encrypt :: "string \<Rightarrow> string \<Rightarrow> string \<Rightarrow> string option"
  vc_decrypt :: "string \<Rightarrow> string \<Rightarrow> string \<Rightarrow> string option"

type_synonym entries = "(string, entry) amap"

record vault =
  va_key :: string
  va_entries :: entries
  va_file :: "entries kept"

text \<open>\<open>OpenFails\<close> is also the folder that cannot be made, \<open>SyncFails\<close> the mode that cannot be set;
  nothing is removed or synchronised here.\<close>

definition vault_save :: "save_fault \<Rightarrow> vault \<Rightarrow> vault \<times> (vault_error + unit)" where
  "vault_save fault V =
     (if fault = OpenFails then (V, Err VaultIo)
      else case write_beside fault (va_file V) (va_entries V) of (F, ok) \<Rightarrow>
        (V\<lparr>va_file := F\<rparr>, if ok then Ok () else Err VaultIo))"

datatype key_fault = KeyFine | KeyRefused | KeyCut nat | KeyModeFails

definition KEY_LENGTH :: nat where
  "KEY_LENGTH = 32"

text \<open>What is in the key file and the key: \<open>random\<close> are the thirty-two bytes drawn.\<close>

definition load_or_create_key ::
    "vault_crypto \<Rightarrow> key_fault \<Rightarrow> string \<Rightarrow> string option \<Rightarrow> string option \<times> (vault_error + string)" where
  "load_or_create_key C fault random file =
     (case file of
        Some raw \<Rightarrow>
          (file, case vc_decode C (trim raw) of
             None \<Rightarrow> Err VaultBadKey
           | Some bytes \<Rightarrow> if length bytes = KEY_LENGTH then Ok bytes else Err VaultBadKey)
      | None \<Rightarrow>
          (case fault of
             KeyRefused \<Rightarrow> (None, Err VaultIo)
           | KeyCut n \<Rightarrow> (Some (take n (vc_encode C random)), Err VaultIo)
           | KeyModeFails \<Rightarrow> (Some (vc_encode C random), Err VaultIo)
           | KeyFine \<Rightarrow> (Some (vc_encode C random), Ok random)))"

definition vault_open :: "vault_crypto \<Rightarrow> key_fault \<Rightarrow> string \<Rightarrow> string option \<Rightarrow> entries kept
    \<Rightarrow> string option \<times> (vault_error + vault)" where
  "vault_open C fault random key_file F =
     (case load_or_create_key C fault random key_file of
        (K, Inl e) \<Rightarrow> (K, Err e)
      | (K, Inr key) \<Rightarrow>
          (K, case kp_main F of
             None \<Rightarrow> Ok \<lparr>va_key = key, va_entries = [], va_file = F\<rparr>
           | Some (Whole es) \<Rightarrow> Ok \<lparr>va_key = key, va_entries = es, va_file = F\<rparr>
           | Some Torn \<Rightarrow> Err VaultFormat))"

section \<open>Operations\<close>

text \<open>The entry is in memory before the file is written, whether the writing succeeds or not.\<close>

definition vault_put :: "vault_crypto \<Rightarrow> save_fault \<Rightarrow> string \<Rightarrow> vault \<Rightarrow> secret_info \<Rightarrow> string
    \<Rightarrow> vault \<times> (vault_error + secret_ref)" where
  "vault_put C fault nonce V info val =
     (case vc_encrypt C (va_key V) nonce val of
        None \<Rightarrow> (V, Err VaultDecrypt)
      | Some ciphertext \<Rightarrow>
          (case vault_save fault (V\<lparr>va_entries := bt_insert (si_name info)
                  \<lparr>en_info = info, en_nonce = vc_encode C nonce, en_ciphertext = vc_encode C ciphertext\<rparr>
                  (va_entries V)\<rparr>) of
             (V', Inl e) \<Rightarrow> (V', Err e)
           | (V', Inr _) \<Rightarrow> (V', Ok (secret_ref_new (si_name info)))))"

definition vault_list :: "vault \<Rightarrow> secret_info list" where
  "vault_list V = map (\<lambda>(_, e). en_info e) (va_entries V)"

definition vault_info :: "vault \<Rightarrow> string \<Rightarrow> secret_info option" where
  "vault_info V name = map_option en_info (map_of (va_entries V) name)"

definition NONCE_LENGTH :: nat where
  "NONCE_LENGTH = 12"

definition decrypt_entry :: "vault_crypto \<Rightarrow> string \<Rightarrow> entry \<Rightarrow> (vault_error + string) option" where
  "decrypt_entry C key e =
     (case (vc_decode C (en_nonce e), vc_decode C (en_ciphertext e)) of
        (Some nonce, Some ciphertext) \<Rightarrow>
          if length nonce \<noteq> NONCE_LENGTH then None
          else Some (case Option.bind (vc_decrypt C key nonce ciphertext) from_utf8 of
                 Some val \<Rightarrow> Ok val | None \<Rightarrow> Err VaultDecrypt)
      | _ \<Rightarrow> Some (Err VaultDecrypt))"

definition vault_reveal :: "vault_crypto \<Rightarrow> vault \<Rightarrow> string \<Rightarrow> (vault_error + string) option" where
  "vault_reveal C V name =
     (case map_of (va_entries V) name of
        None \<Rightarrow> Some (Err (VaultUnknown name))
      | Some e \<Rightarrow> decrypt_entry C (va_key V) e)"

definition vault_delete :: "save_fault \<Rightarrow> vault \<Rightarrow> string \<Rightarrow> vault \<times> (vault_error + bool)" where
  "vault_delete fault V name =
     (if contains_key name (va_entries V)
      then (case vault_save fault (V\<lparr>va_entries := AList.delete name (va_entries V)\<rparr>) of
              (V', Inl e) \<Rightarrow> (V', Err e)
            | (V', Inr _) \<Rightarrow> (V', Ok True))
      else (V, Ok False))"

definition vault_rotate :: "vault_crypto \<Rightarrow> save_fault \<Rightarrow> string \<Rightarrow> vault \<Rightarrow> string \<Rightarrow> string
    \<Rightarrow> vault \<times> (vault_error + unit)" where
  "vault_rotate C fault nonce V name val =
     (case vault_info V name of
        None \<Rightarrow> (V, Err (VaultUnknown name))
      | Some info \<Rightarrow>
          (case vault_put C fault nonce V info val of
             (V', Inl e) \<Rightarrow> (V', Err e)
           | (V', Inr _) \<Rightarrow> (V', Ok ())))"

definition domain_allows :: "string \<Rightarrow> string \<Rightarrow> bool" where
  "domain_allows pattern host \<longleftrightarrow>
     pattern = host
     \<or> (case strip_prefix ''*.'' pattern of
          Some suffix \<Rightarrow> host = suffix \<or> ends_with (''.'' @ suffix) host
        | None \<Rightarrow> False)"

definition allowed_for :: "vault \<Rightarrow> string \<Rightarrow> string \<Rightarrow> bool" where
  "allowed_for V name host \<longleftrightarrow>
     (case map_of (va_entries V) name of
        None \<Rightarrow> False
      | Some e \<Rightarrow> list_ex (\<lambda>pattern. domain_allows pattern host) (si_domains (en_info e)))"

section \<open>The service\<close>

record vault_env =
  ve_crypto :: vault_crypto
  ve_pairs :: pairs
  ve_uid_du_proxy :: "nat option"
  ve_read_info :: "json \<Rightarrow> secret_info option"

record vault_call =
  vl_peer :: peer
  vl_accounts :: accounts
  vl_method :: string
  vl_params :: json
  vl_nonce :: string
  vl_fault :: save_fault

type_synonym vault_result = "(vault \<times> (service_error + json)) option"

definition info_json :: "secret_info \<Rightarrow> json" where
  "info_json i = JObj [(''name'', JStr (si_name i)), (''domains'', JArr (map JStr (si_domains i))),
     (''header'', JStr (si_header i)), (''description'', JStr (si_description i))]"

definition put_call :: "vault_env \<Rightarrow> vault \<Rightarrow> vault_call \<Rightarrow> vault_result" where
  "put_call E V c =
     (case Option.bind (field ''info'' (vl_params c)) (ve_read_info E) of
        None \<Rightarrow> Some (V, refused EcInvalidParams)
      | Some info \<Rightarrow>
          (case texte (vl_params c) ''value'' of
             Inl e \<Rightarrow> Some (V, Err e)
           | Inr val \<Rightarrow>
               (case vault_put (ve_crypto E) (vl_fault c) (vl_nonce c) V info val of
                  (V', Inl _) \<Rightarrow> Some (V', refused EcInternalError)
                | (V', Inr r) \<Rightarrow> Some (V', Ok (JObj [(''ref'', JStr (secret_ref_str r))])))))"

definition delete_call :: "vault \<Rightarrow> vault_call \<Rightarrow> vault_result" where
  "delete_call V c =
     (case texte (vl_params c) ''name'' of
        Inl e \<Rightarrow> Some (V, Err e)
      | Inr name \<Rightarrow>
          (case vault_delete (vl_fault c) V name of
             (V', Inl _) \<Rightarrow> Some (V', refused EcInternalError)
           | (V', Inr gone) \<Rightarrow> Some (V', Ok (JObj [(''deleted'', JBool gone)]))))"

definition rotate_call :: "vault_env \<Rightarrow> vault \<Rightarrow> vault_call \<Rightarrow> vault_result" where
  "rotate_call E V c =
     (case and_then (texte (vl_params c) ''name'') (\<lambda>n.
           and_then (texte (vl_params c) ''value'') (\<lambda>v. Ok (n, v))) of
        Inl e \<Rightarrow> Some (V, Err e)
      | Inr (name, val) \<Rightarrow>
          (case vault_rotate (ve_crypto E) (vl_fault c) (vl_nonce c) V name val of
             (V', Inl _) \<Rightarrow> Some (V', refused EcNotFound)
           | (V', Inr _) \<Rightarrow> Some (V', Ok (JObj [(''rotated'', JStr name)]))))"

definition allowed_call :: "vault \<Rightarrow> vault_call \<Rightarrow> vault_result" where
  "allowed_call V c =
     (case and_then (texte (vl_params c) ''name'') (\<lambda>n.
           and_then (texte (vl_params c) ''host'') (\<lambda>h. Ok (n, h))) of
        Inl e \<Rightarrow> Some (V, Err e)
      | Inr (name, host) \<Rightarrow> Some (V, Ok (JObj [(''allowed'', JBool (allowed_for V name host))])))"

definition use_call :: "vault_env \<Rightarrow> vault \<Rightarrow> vault_call \<Rightarrow> vault_result" where
  "use_call E V c =
     (if ve_uid_du_proxy E \<noteq> Some (p_uid (vl_peer c)) then Some (V, refused EcUnauthorized)
      else case texte (vl_params c) ''name'' of
        Inl e \<Rightarrow> Some (V, Err e)
      | Inr name \<Rightarrow>
          (case vault_reveal (ve_crypto E) V name of
             None \<Rightarrow> None
           | Some (Inl _) \<Rightarrow> Some (V, refused EcNotFound)
           | Some (Inr val) \<Rightarrow> Some (V, Ok (JObj [(''value'', JStr val)]))))"

definition vault_step :: "vault_env \<Rightarrow> vault \<Rightarrow> vault_call \<Rightarrow> vault_result" where
  "vault_step E V c =
     (let m = vl_method c in
      if m \<noteq> ''ping'' \<and> \<not> autorise (vl_accounts c) (ve_pairs E) (vl_peer c)
      then Some (V, refused EcUnauthorized)
      else if m = ''ping'' then Some (V, Ok (JStr ''pong''))
      else if m = ''secrets.list_refs'' then Some (V, Ok (JArr (map info_json (vault_list V))))
      else if m = ''vault.put'' then put_call E V c
      else if m = ''vault.delete'' then delete_call V c
      else if m = ''vault.rotate'' then rotate_call E V c
      else if m = ''secrets.allowed_for'' then allowed_call V c
      else if m = ''secrets.use'' \<or> m = ''vault.reveal'' then use_call E V c
      else Some (V, refused EcMethodNotFound))"

end
