(* ===== verification/Egress_Request.thy ===== *)
theory Egress_Request
  imports Vault Cap_Pattern F64
begin

text \<open>
  What the exit proxy reads and judges by itself (\<^verbatim>\<open>crates/egress/src\<close>: \<^verbatim>\<open>proxy.rs\<close>, \<^verbatim>\<open>detect.rs\<close>,
  \<^verbatim>\<open>policy.rs\<close>, \<^verbatim>\<open>inject.rs\<close>): the request of a client, the signs of an exfiltration, the policy used
  off line, the hosts to which a \<open>POST\<close> is a question, and the reference to a secret in a header. The
  text that explains a signal or a refusal is not modelled. Whether a host is a literal address is
  the parser of the standard library, written out for both families.
\<close>

section \<open>Requests\<close>

type_synonym headers = "(string \<times> string) list"

record http_request =
  hr_method :: string
  hr_target :: string
  hr_host :: string
  hr_headers :: headers
  hr_body :: string

definition strip_port :: "string \<Rightarrow> string" where
  "strip_port host =
     (case rsplit_once CHR '':'' host of
        Some (h, port) \<Rightarrow> if list_all is_ascii_digit port then h else host
      | None \<Rightarrow> host)"

definition header :: "string \<Rightarrow> headers \<Rightarrow> string option" where
  "header name hs = map_option snd (List.find (\<lambda>(n, _). eq_ignore_case n name) hs)"

definition host_from :: "string \<Rightarrow> headers \<Rightarrow> string option" where
  "host_from target hs =
     (case split_once_str ''://'' target of
        Some (_, rest) \<Rightarrow> Some (strip_port (hd (str_split CHR ''/'' rest)))
      | None \<Rightarrow>
          if CHR '':'' \<in> set target \<and> \<not> starts_with ''/'' target then Some (strip_port target)
          else map_option strip_port (header ''host'' hs))"

definition header_lines :: "string list \<Rightarrow> headers" where
  "header_lines ls = List.map_filter
     (\<lambda>l. map_option (\<lambda>(n, v). (trim n, trim v)) (split_once CHR '':'' l)) (takeWhile (\<lambda>l. l \<noteq> []) ls)"

text \<open>\<open>None\<close> is \<open>BadRequest\<close>.\<close>

definition parse_request :: "string \<Rightarrow> http_request option" where
  "parse_request raw =
     (let ls = split_crlf raw; hs = header_lines (tl ls)
      in case split_whitespace (hd ls) of
           method # target # _ \<Rightarrow>
             map_option (\<lambda>host. \<lparr>hr_method = method, hr_target = target, hr_host = host,
               hr_headers = hs, hr_body = []\<rparr>) (host_from target hs)
         | _ \<Rightarrow> None)"

definition without_scheme :: "string \<Rightarrow> string" where
  "without_scheme target = (case split_once_str ''://'' target of Some (_, rest) \<Rightarrow> rest | None \<Rightarrow> target)"

definition request_path :: "http_request \<Rightarrow> string" where
  "request_path r =
     (let path = (case find_str ''/'' (without_scheme (hr_target r)) of Some (_, p) \<Rightarrow> p | None \<Rightarrow> ''/'')
      in hd (str_split CHR ''?'' path))"

section \<open>Signs of an exfiltration\<close>

datatype signal = SecretPattern string | UnusualVolume nat | HighEntropyPayload double | OversizedUrl nat

definition SECRET_PATTERNS :: "(string \<times> string) list" where
  "SECRET_PATTERNS =
    [(''cl'' @ [CHR 0xC3, CHR 0xA9] @ '' Anthropic'', ''sk-ant-''),
     (''cl'' @ [CHR 0xC3, CHR 0xA9] @ '' OpenAI'', ''sk-proj-''),
     (''jeton GitHub'', ''ghp_''),
     (''jeton GitHub (app)'', ''github_pat_''),
     (''cl'' @ [CHR 0xC3, CHR 0xA9] @ '' AWS'', ''AKIA''),
     (''cl'' @ [CHR 0xC3, CHR 0xA9] @ '' priv'' @ [CHR 0xC3, CHR 0xA9] @ ''e'', ''-----BEGIN''),
     (''jeton Slack'', ''xoxb-''),
     (''jeton Google'', ''ya29.'')]"

record thresholds =
  th_volume_bytes :: nat
  th_url_length :: nat
  th_entropy_ratio :: double
  th_entropy_min_bytes :: nat

definition default_thresholds :: thresholds where
  "default_thresholds = \<lparr>th_volume_bytes = 1000000, th_url_length = 2000,
     th_entropy_ratio = fl (95 / 100), th_entropy_min_bytes = 512\<rparr>"

definition encoded_char :: "string \<Rightarrow> bool" where
  "encoded_char c \<longleftrightarrow>
     (case c of [b] \<Rightarrow> is_ascii_alphanumeric b \<or> b \<in> set ''+/='' | _ \<Rightarrow> False)"

definition encoded_ratio :: "string \<Rightarrow> double" where
  "encoded_ratio text =
     (let chars = str_chars text
      in if chars = [] then 0
         else fl (f64_of_nat (length (filter encoded_char chars)) / f64_of_nat (length chars)))"

definition join_lines :: "string list \<Rightarrow> string" where
  "join_lines ls = (case ls of [] \<Rightarrow> [] | l # ls' \<Rightarrow> l @ concat (map (\<lambda>x. CHR 0x0A # x) ls'))"

definition header_text :: "headers \<Rightarrow> string" where
  "header_text hs = join_lines (map (\<lambda>(k, v). k @ '': '' @ v) hs)"

definition inspect :: "thresholds \<Rightarrow> http_request \<Rightarrow> signal list" where
  "inspect T r =
     (let body_text = from_utf8_lossy (hr_body r);
          heads = header_text (hr_headers r);
          ratio = encoded_ratio body_text
      in List.map_filter (\<lambda>(family, pattern).
             if contains_str pattern (hr_target r) \<or> contains_str pattern heads
                \<or> contains_str pattern body_text
             then Some (SecretPattern family) else None) SECRET_PATTERNS
         @ (if th_volume_bytes T < length (hr_body r) then [UnusualVolume (length (hr_body r))] else [])
         @ (if th_url_length T < length (hr_target r) then [OversizedUrl (length (hr_target r))] else [])
         @ (if th_entropy_min_bytes T \<le> length (hr_body r) \<and> th_entropy_ratio T \<le> ratio
               \<and> 16 \<le> length (remdups (take 4096 (str_chars body_text)))
            then [HighEntropyPayload ratio] else []))"

fun is_secret_pattern :: "signal \<Rightarrow> bool" where
  "is_secret_pattern (SecretPattern _) = True"
| "is_secret_pattern _ = False"

definition should_block :: "signal list \<Rightarrow> bool" where
  "should_block signals \<longleftrightarrow> list_ex is_secret_pattern signals"

definition should_escalate :: "signal list \<Rightarrow> bool" where
  "should_escalate signals \<longleftrightarrow> signals \<noteq> [] \<and> \<not> should_block signals"

section \<open>Hosts to which a question is posted\<close>

definition query_pattern :: "string \<Rightarrow> unit + string option" where
  "query_pattern raw =
     (let pattern = trim raw
      in if pattern = [] then Ok None
         else if pattern = ''*'' \<or> starts_with ''driver:'' pattern then Err ()
         else case validate Domain pattern of Inl _ \<Rightarrow> Err () | Inr _ \<Rightarrow> Ok (Some pattern))"

fun query_patterns :: "string list \<Rightarrow> unit + string list" where
  "query_patterns [] = Ok []"
| "query_patterns (raw # raws) =
     (case query_pattern raw of
        Inl e \<Rightarrow> Err e
      | Inr p \<Rightarrow> map_sum id (\<lambda>ps. (case p of Some x \<Rightarrow> x # ps | None \<Rightarrow> ps)) (query_patterns raws))"

definition query_hosts_parse :: "string \<Rightarrow> unit + string list" where
  "query_hosts_parse text = query_patterns (str_split CHR '','' text)"

definition query_covers :: "string list \<Rightarrow> string \<Rightarrow> bool" where
  "query_covers hosts host \<longleftrightarrow> list_ex (\<lambda>p. matches Domain p host []) hosts"

definition MUTATING_METHODS :: "string list" where
  "MUTATING_METHODS = [''POST'', ''PUT'', ''PATCH'', ''DELETE'']"

definition is_mutating :: "string \<Rightarrow> string \<Rightarrow> string list \<Rightarrow> bool" where
  "is_mutating method host hosts \<longleftrightarrow>
     (let m = to_ascii_uppercase method
      in m \<in> set MUTATING_METHODS \<and> \<not> (m = ''POST'' \<and> query_covers hosts host))"

section \<open>Literal addresses\<close>

text \<open>The parser of the standard library: what is read and what is left.\<close>

fun read_digits :: "(char \<Rightarrow> bool) \<Rightarrow> nat \<Rightarrow> string \<Rightarrow> string \<times> string" where
  "read_digits p 0 s = ([], s)"
| "read_digits p (Suc n) [] = ([], [])"
| "read_digits p (Suc n) (c # s) =
     (if p c then case read_digits p n s of (ds, r) \<Rightarrow> (c # ds, r) else ([], c # s))"

definition read_octet :: "string \<Rightarrow> string option" where
  "read_octet s =
     (case read_digits is_ascii_digit 4 s of (ds, r) \<Rightarrow>
        if ds \<noteq> [] \<and> length ds \<le> 3 \<and> (length ds > 1 \<longrightarrow> hd ds \<noteq> CHR ''0'') \<and> digits_value 0 ds < 256
        then Some r else None)"

fun read_ipv4 :: "nat \<Rightarrow> string \<Rightarrow> string option" where
  "read_ipv4 0 s = Some s"
| "read_ipv4 (Suc n) s =
     Option.bind (read_octet s) (\<lambda>r.
       if n = 0 then Some r else Option.bind (strip_prefix ''.'' r) (read_ipv4 n))"

definition is_hex :: "char \<Rightarrow> bool" where
  "is_hex c \<longleftrightarrow> is_ascii_digit c \<or> in_range 97 102 c \<or> in_range 65 70 c"

definition read_group :: "string \<Rightarrow> string option" where
  "read_group s =
     (case read_digits is_hex 5 s of (ds, r) \<Rightarrow> if ds \<noteq> [] \<and> length ds \<le> 4 then Some r else None)"

text \<open>Groups of sixteen bits separated by colons, the last two of which may be an IPv4 address: how
  many were read, whether the last two were one, and what is left.\<close>

fun read_groups :: "nat \<Rightarrow> nat \<Rightarrow> string \<Rightarrow> nat \<times> bool \<times> string" where
  "read_groups 0 i s = (i, False, s)"
| "read_groups (Suc n) i s =
     (case (if i = 0 then Some s else strip_prefix '':'' s) of
        None \<Rightarrow> (i, False, s)
      | Some t \<Rightarrow>
          (case (if n = 0 then None else read_ipv4 4 t) of
             Some r \<Rightarrow> (i + 2, True, r)
           | None \<Rightarrow>
               (case read_group t of
                  None \<Rightarrow> (i, False, s)
                | Some r \<Rightarrow> read_groups n (Suc i) r)))"

definition read_ipv6 :: "string \<Rightarrow> string option" where
  "read_ipv6 s =
     (case read_groups 8 0 s of (head, v4, r) \<Rightarrow>
        if head = 8 then Some r
        else if v4 then None
        else Option.bind (strip_prefix ''::'' r) (\<lambda>t. Some (snd (snd (read_groups (7 - head) 0 t)))))"

definition is_ip_addr :: "string \<Rightarrow> bool" where
  "is_ip_addr s \<longleftrightarrow>
     (case read_ipv4 4 s of Some r \<Rightarrow> r = [] | None \<Rightarrow> read_ipv6 s = Some [])"

definition is_literal_address :: "string \<Rightarrow> bool" where
  "is_literal_address host \<longleftrightarrow>
     (let bare = trim_end_matches CHR '']'' (dropWhile (\<lambda>c. c = CHR ''['') host)
      in is_ip_addr bare \<or> is_ip_addr (hd (str_split CHR '':'' bare)))"

section \<open>The policy used off line\<close>

datatype exit_refusal = HostNotAllowed | MethodNotAllowed | VolumeExceeded | ExfiltrationSuspected | LiteralAddress

datatype verdict = VAllow | VDeny exit_refusal | VNeedsApproval

record exit_policy =
  ep_allowed_hosts :: "string list"
  ep_allowed_methods :: "string list"
  ep_max_bytes_out :: "nat option"
  ep_approval_for_mutations :: bool

definition host_allowed :: "exit_policy \<Rightarrow> string \<Rightarrow> bool" where
  "host_allowed P host \<longleftrightarrow>
     list_ex (\<lambda>p. \<not> starts_with ''driver:'' p \<and> matches Domain p host []) (ep_allowed_hosts P)"

definition exit_evaluate :: "exit_policy \<Rightarrow> string \<Rightarrow> string \<Rightarrow> nat \<Rightarrow> verdict" where
  "exit_evaluate P host method bytes_out =
     (if is_literal_address host then VDeny LiteralAddress
      else if \<not> host_allowed P host then VDeny HostNotAllowed
      else if ep_allowed_methods P \<noteq> []
              \<and> \<not> list_ex (\<lambda>m. eq_ignore_case m (to_ascii_uppercase method)) (ep_allowed_methods P)
           then VDeny MethodNotAllowed
      else if (case ep_max_bytes_out P of Some n \<Rightarrow> n < bytes_out | None \<Rightarrow> False) then VDeny VolumeExceeded
      else if ep_approval_for_mutations P \<and> to_ascii_uppercase method \<in> set MUTATING_METHODS
           then VNeedsApproval
      else VAllow)"

text \<open>The proxy of the library, with its two counters; the trace names neither header nor body.\<close>

record exit_proxy =
  px_policy :: exit_policy
  px_task :: string
  px_requests :: nat
  px_bytes_out :: nat

record request_log =
  lg_task :: string
  lg_host :: string
  lg_method :: string
  lg_path :: string
  lg_bytes_out :: nat
  lg_verdict :: verdict
  lg_signals :: "signal list"

definition exit_verdict :: "exit_policy \<Rightarrow> http_request \<Rightarrow> signal list \<Rightarrow> verdict" where
  "exit_verdict P r signals =
     (if should_block signals then VDeny ExfiltrationSuspected
      else case exit_evaluate P (hr_host r) (hr_method r) (length (hr_body r)) of
        VAllow \<Rightarrow> if should_escalate signals then VNeedsApproval else VAllow
      | v \<Rightarrow> v)"

definition proxy_evaluate :: "exit_proxy \<Rightarrow> http_request \<Rightarrow> exit_proxy \<times> request_log" where
  "proxy_evaluate P r =
     (let signals = inspect default_thresholds r;
          v = exit_verdict (px_policy P) r signals;
          bytes = length (hr_body r)
      in (P\<lparr>px_requests := add64 (px_requests P) 1,
            px_bytes_out := if v = VAllow then add64 (px_bytes_out P) bytes else px_bytes_out P\<rparr>,
          \<lparr>lg_task = px_task P, lg_host = hr_host r, lg_method = hr_method r, lg_path = request_path r,
            lg_bytes_out = bytes, lg_verdict = v, lg_signals = signals\<rparr>))"

section \<open>References to secrets\<close>

record reference =
  rf_prefix :: string
  rf_name :: string
  rf_suffix :: string

definition name_char :: "char \<Rightarrow> bool" where
  "name_char c \<longleftrightarrow> is_ascii_alphanumeric c \<or> c \<in> set ''-_.''"

text \<open>The first reference of the value; the name ends at the first character that cannot be in one.\<close>

definition reference_dans :: "string \<Rightarrow> reference option" where
  "reference_dans val =
     (case find_str SECRET_PREFIX val of
        None \<Rightarrow> None
      | Some (prefix, rest) \<Rightarrow>
          let text = SECRET_PREFIX @ takeWhile name_char (drop (length SECRET_PREFIX) rest)
          in map_option (\<lambda>r. \<lparr>rf_prefix = prefix, rf_name = secret_ref_name r,
               rf_suffix = drop (length text) rest\<rparr>) (secret_ref_parse text))"

definition remplacer_par :: "reference \<Rightarrow> string \<Rightarrow> string" where
  "remplacer_par r val = rf_prefix r @ val @ rf_suffix r"

section \<open>Substitution in process\<close>

text \<open>The injector of the library, over a vault it holds; \<open>None\<close> is the panic of \<open>reveal\<close>.\<close>

datatype injection_error = InjUnknown string | InjWrongHost string string | InjUnreadable

fun injection_error_of :: "vault_error \<Rightarrow> injection_error" where
  "injection_error_of (VaultUnknown name) = InjUnknown name"
| "injection_error_of _ = InjUnreadable"

definition substitute_value :: "vault_crypto \<Rightarrow> vault \<Rightarrow> string \<Rightarrow> string
    \<Rightarrow> (injection_error + string) option" where
  "substitute_value C V host val =
     (case reference_dans val of
        None \<Rightarrow> Some (Ok val)
      | Some f \<Rightarrow>
          if vault_info V (rf_name f) = None then Some (Err (InjUnknown (rf_name f)))
          else if \<not> allowed_for V (rf_name f) host then Some (Err (InjWrongHost (rf_name f) host))
          else map_option (map_sum injection_error_of (remplacer_par f)) (vault_reveal C V (rf_name f)))"

fun inject :: "vault_crypto \<Rightarrow> vault \<Rightarrow> string \<Rightarrow> headers \<Rightarrow> (injection_error + headers) option" where
  "inject C V host [] = Some (Ok [])"
| "inject C V host ((name, val) # hs) =
     (case substitute_value C V host val of
        None \<Rightarrow> None
      | Some (Inl e) \<Rightarrow> Some (Err e)
      | Some (Inr v) \<Rightarrow> map_option (map_sum id ((#) (name, v))) (inject C V host hs))"

end
