(* ===== verification/Egress.thy ===== *)
theory Egress
  imports Egress_Request
begin

text \<open>
  The exit proxy in service (\<^verbatim>\<open>crates/egress/src/bin/prophet-egress.rs\<close>): one request from the socket
  of a task to the network, as the list of what the proxy does, in order: it asks \<^verbatim>\<open>capd\<close>, asks the
  vault, joins a host, sends bytes, answers, writes to the journal. What the others answer, which
  hosts can be joined and where a connection breaks are in \<open>network\<close>. The task that writes to the
  journal is started by the code and not waited for: \<open>Journaled\<close> is that start. Texts of answers, TLS
  itself and the bytes of the answers made by the proxy are not modelled.
\<close>

section \<open>What the proxy does and meets\<close>

datatype exit_event =
    AskedCapd string bool json
  | AskedVault string string
  | Connected string nat
  | Secured string
  | Sent string
  | Tunnelled string
  | Relayed string
  | Answered nat string
  | Journaled string string json

text \<open>The upstream answers, or its connection breaks after some bytes.\<close>

datatype upstream = UpAnswers string | UpBreaks nat

record network =
  nt_input :: string
  nt_capd :: "json \<Rightarrow> ipc_error + json"
  nt_vault_up :: bool
  nt_vault :: "nat \<Rightarrow> string \<Rightarrow> json \<Rightarrow> ipc_error + json"
  nt_joins :: "string \<Rightarrow> nat \<Rightarrow> bool"
  nt_server_name :: "string \<Rightarrow> bool"
  nt_tls :: "string \<Rightarrow> bool"
  nt_upstream :: upstream
  nt_client_reads :: bool

record exit_env =
  ex_decode64 :: "string \<Rightarrow> string option"
  ex_read_json :: "string \<Rightarrow> json option"
  ex_query_hosts :: "string list"

section \<open>Reading the request\<close>

definition ENTETE_JETON :: string where
  "ENTETE_JETON = ''proxy-authorization''"

definition PREFIXE :: string where
  "PREFIXE = ''Prophet ''"

definition TETE_MAX :: nat where
  "TETE_MAX = 65536"

definition CORPS_MAX :: nat where
  "CORPS_MAX = 8388608"

text \<open>The head up to its empty line and what follows it; \<open>None\<close> where the input ends first, is not
  UTF-8 or is too long: the connection is closed.\<close>

function lire_la_tete :: "string \<Rightarrow> string \<Rightarrow> (string \<times> string) option" where
  "lire_la_tete brut input =
     (let (ligne, reste) = take_line input; lu = brut @ ligne
      in if ligne = [] \<or> \<not> utf8_valid ligne then None
         else if ligne = [CHR 0x0D, CHR 0x0A] \<or> ligne = [CHR 0x0A] then Some (lu, reste)
         else if TETE_MAX < length lu then None
         else lire_la_tete lu reste)"
  by pat_completeness auto
termination
  by (relation "measure (\<lambda>(brut, input). length input)")
    (auto dest!: take_line_append [OF sym])

declare lire_la_tete.simps [simp del]

lemma exceeds_TETE_MAX [code_unfold]: "TETE_MAX < n \<longleftrightarrow> 65536 < int n"
  by (simp add: TETE_MAX_def)

definition header_count :: "string \<Rightarrow> headers \<Rightarrow> nat" where
  "header_count name hs = length (filter (\<lambda>(n, _). eq_ignore_case n name) hs)"

definition cadrage_ambigu :: "headers \<Rightarrow> bool" where
  "cadrage_ambigu hs \<longleftrightarrow> 1 < header_count ''content-length'' hs \<or> 0 < header_count ''transfer-encoding'' hs"

definition longueur_du_corps :: "headers \<Rightarrow> nat" where
  "longueur_du_corps hs = or_default (Option.bind (header ''content-length'' hs) parse_u64) 0"

definition jeton :: "exit_env \<Rightarrow> headers \<Rightarrow> json option" where
  "jeton X hs = Option.bind (header ENTETE_JETON hs) (\<lambda>brut.
     Option.bind (strip_prefix PREFIXE brut) (\<lambda>encode.
     Option.bind (ex_decode64 X encode) (ex_read_json X)))"

definition entetes_sortants :: "headers \<Rightarrow> headers" where
  "entetes_sortants hs = filter (\<lambda>(n, _). \<not> eq_ignore_case n ENTETE_JETON) hs"

definition cible_relative :: "string \<Rightarrow> string" where
  "cible_relative target =
     (case find_str ''/'' (without_scheme target) of Some (_, p) \<Rightarrow> p | None \<Rightarrow> ''/'')"

definition port_de :: "string \<Rightarrow> nat \<Rightarrow> nat" where
  "port_de target defaut =
     (case rsplit_once CHR '':'' (hd (str_split CHR ''/'' (without_scheme target))) of
        Some (_, port) \<Rightarrow> or_default (parse_u16 port) defaut
      | None \<Rightarrow> defaut)"

text \<open>The body, once the framing is clear and the length within bounds; else what was answered.\<close>

definition lire_le_corps :: "http_request \<Rightarrow> string \<Rightarrow> exit_event list + http_request \<times> string" where
  "lire_le_corps r reste =
     (if hr_method r = ''CONNECT'' then Ok (r, reste)
      else if cadrage_ambigu (hr_headers r) then Err [Answered 400 ''AmbiguousFraming'']
      else let attendu = longueur_du_corps (hr_headers r)
           in if CORPS_MAX < attendu then Err [Answered 413 ''BodyTooLarge'']
              else if length reste < attendu then Err []
              else Ok (r\<lparr>hr_body := take attendu reste\<rparr>, drop attendu reste))"

section \<open>Asking, substituting, writing to the journal\<close>

definition check_params :: "json \<Rightarrow> string \<Rightarrow> bool \<Rightarrow> json" where
  "check_params t host mutating = JObj [(''token'', t), (''res'', JStr ''net''), (''act'', JStr ''egress''),
     (''target'', JStr host), (''external'', JBool mutating), (''irreversible'', JBool mutating)]"

definition journaliser :: "string option \<Rightarrow> string \<Rightarrow> json \<Rightarrow> exit_event list" where
  "journaliser mission kind payload =
     (case mission of None \<Rightarrow> [] | Some m \<Rightarrow> [Journaled m kind payload])"

definition host_param :: "string \<Rightarrow> string \<Rightarrow> json" where
  "host_param name host = JObj [(''name'', JStr name), (''host'', JStr host)]"

text \<open>One header: its value with the secret the vault gives, after the vault has allowed this host.\<close>

definition substitute_one :: "network \<Rightarrow> nat \<Rightarrow> string \<Rightarrow> reference \<Rightarrow> exit_event list \<times> (unit + string)" where
  "substitute_one N n host f =
     (case nt_vault N n ''secrets.allowed_for'' (host_param (rf_name f) host) of
        Inl _ \<Rightarrow> ([AskedVault ''secrets.allowed_for'' (rf_name f)], Err ())
      | Inr permis \<Rightarrow>
          if field ''allowed'' permis \<noteq> Some (JBool True)
          then ([AskedVault ''secrets.allowed_for'' (rf_name f)], Err ())
          else ([AskedVault ''secrets.allowed_for'' (rf_name f), AskedVault ''secrets.use'' (rf_name f)],
                case nt_vault N (n + 1) ''secrets.use'' (JObj [(''name'', JStr (rf_name f))]) of
                  Inl _ \<Rightarrow> Err ()
                | Inr rendu \<Rightarrow>
                    (case as_str (field ''value'' rendu) of
                       None \<Rightarrow> Err () | Some v \<Rightarrow> Ok (remplacer_par f v))))"

fun substitute_all :: "network \<Rightarrow> nat \<Rightarrow> string \<Rightarrow> headers \<Rightarrow> exit_event list \<times> (unit + headers)" where
  "substitute_all N n host [] = ([], Ok [])"
| "substitute_all N n host ((nom, val) # hs) =
     (case reference_dans val of
        None \<Rightarrow> (case substitute_all N n host hs of (evs, r) \<Rightarrow> (evs, map_sum id ((#) (nom, val)) r))
      | Some f \<Rightarrow>
          (case substitute_one N n host f of
             (evs, Inl e) \<Rightarrow> (evs, Err e)
           | (evs, Inr v) \<Rightarrow>
               (case substitute_all N (n + 2) host hs of (evs', r) \<Rightarrow>
                  (evs @ evs', map_sum id ((#) (nom, v)) r))))"

definition has_reference :: "headers \<Rightarrow> bool" where
  "has_reference hs \<longleftrightarrow> list_ex (\<lambda>(_, v). reference_dans v \<noteq> None) hs"

definition substituer :: "network \<Rightarrow> string \<Rightarrow> headers \<Rightarrow> exit_event list \<times> (unit + headers)" where
  "substituer N host hs =
     (if \<not> has_reference hs then ([], Ok hs)
      else if \<not> nt_vault_up N then ([], Err ())
      else substitute_all N 0 host hs)"

section \<open>Relaying\<close>

record bilan =
  bl_sortis :: nat
  bl_recus :: nat
  bl_statut :: "nat option"

definition bilan_502 :: bilan where
  "bilan_502 = \<lparr>bl_sortis = 0, bl_recus = 0, bl_statut = Some 502\<rparr>"

text \<open>An answer made by the proxy instead of the upstream; no balance when the client has gone.\<close>

definition gave_up :: "network \<Rightarrow> string \<Rightarrow> exit_event list \<times> bilan option" where
  "gave_up N code = ([Answered 502 code], if nt_client_reads N then Some bilan_502 else None)"

definition status_of :: "string \<Rightarrow> nat option" where
  "status_of statut =
     (case split_whitespace (from_utf8_lossy statut) of _ # code # _ \<Rightarrow> parse_u16 code | _ \<Rightarrow> None)"

definition request_head :: "http_request \<Rightarrow> string" where
  "request_head r = hr_method r @ '' '' @ cible_relative (hr_target r) @ '' HTTP/1.1'' @ [CHR 0x0D, CHR 0x0A]
     @ concat (map (\<lambda>(n, v). n @ '': '' @ v @ [CHR 0x0D, CHR 0x0A]) (entetes_sortants (hr_headers r)))
     @ [CHR 0x0D, CHR 0x0A]"

definition transmettre :: "network \<Rightarrow> http_request \<Rightarrow> exit_event list \<times> bilan option" where
  "transmettre N r =
     (let brut = request_head r @ hr_body r
      in case nt_upstream N of
           UpBreaks n \<Rightarrow> ([Sent (take n brut)], None)
         | UpAnswers answer \<Rightarrow>
             if nt_client_reads N
             then ([Sent brut, Relayed answer], Some \<lparr>bl_sortis = length brut, bl_recus = length answer,
                     bl_statut = status_of (fst (take_line answer))\<rparr>)
             else ([Sent brut], None))"

definition is_https :: "string \<Rightarrow> bool" where
  "is_https target \<longleftrightarrow> starts_with ''https://'' target"

definition after :: "exit_event list \<Rightarrow> exit_event list \<times> 'a \<Rightarrow> exit_event list \<times> 'a" where
  "after evs out = (evs @ fst out, snd out)"

definition relayer_http :: "network \<Rightarrow> http_request \<Rightarrow> exit_event list \<times> bilan option" where
  "relayer_http N r =
     (let port = port_de (hr_target r) (if is_https (hr_target r) then 443 else 80); host = hr_host r
      in if \<not> nt_joins N host port then gave_up N ''Unreachable''
         else after [Connected host port]
           (if \<not> is_https (hr_target r) then transmettre N r
            else if \<not> nt_server_name N host then gave_up N ''BadServerName''
            else if \<not> nt_tls N host then gave_up N ''TlsFailed''
            else after [Secured host] (transmettre N r)))"

definition relayer_tunnel :: "network \<Rightarrow> http_request \<Rightarrow> string \<Rightarrow> exit_event list \<times> bilan option" where
  "relayer_tunnel N r reste =
     (let port = port_de (hr_target r) 443; host = hr_host r
      in if \<not> nt_joins N host port then gave_up N ''Unreachable''
         else if \<not> nt_client_reads N then ([Connected host port], None)
         else after [Connected host port]
           (case nt_upstream N of
              UpAnswers answer \<Rightarrow> ([Tunnelled reste, Relayed answer],
                Some \<lparr>bl_sortis = length reste, bl_recus = length answer, bl_statut = Some 200\<rparr>)
            | UpBreaks n \<Rightarrow> ([Tunnelled (take n reste)],
                Some \<lparr>bl_sortis = 0, bl_recus = 0, bl_statut = Some 200\<rparr>)))"

definition opt_int :: "nat option \<Rightarrow> json" where
  "opt_int n = (case n of Some k \<Rightarrow> JInt (int k) | None \<Rightarrow> JNull)"

definition journaliser_la_sortie :: "string option \<Rightarrow> http_request \<Rightarrow> bilan \<Rightarrow> exit_event list" where
  "journaliser_la_sortie mission r b =
     journaliser mission ''net.request''
       (JObj [(''host'', JStr (hr_host r)),
          (''port'', JInt (int (port_de (hr_target r)
             (if hr_method r = ''CONNECT'' \<or> is_https (hr_target r) then 443 else 80)))),
          (''method'', JStr (hr_method r)), (''bytes_out'', JInt (int (bl_sortis b))),
          (''bytes_in'', JInt (int (bl_recus b))), (''status'', opt_int (bl_statut b))])"

section \<open>One request\<close>

definition with_journal :: "string option \<Rightarrow> http_request \<Rightarrow> exit_event list \<times> bilan option \<Rightarrow> exit_event list" where
  "with_journal mission r out =
     fst out @ (case snd out of Some b \<Rightarrow> journaliser_la_sortie mission r b | None \<Rightarrow> [])"

definition relayer :: "network \<Rightarrow> string option \<Rightarrow> http_request \<Rightarrow> string \<Rightarrow> exit_event list" where
  "relayer N mission r reste =
     (if hr_method r = ''CONNECT''
      then if has_reference (hr_headers r) then [Answered 400 ''InjectionImpossible'']
           else with_journal mission r (relayer_tunnel N r reste)
      else case substituer N (hr_host r) (hr_headers r) of
             (evs, Inl _) \<Rightarrow> evs @ [Answered 403 ''SecretRefused'']
           | (evs, Inr hs) \<Rightarrow>
               let r' = r\<lparr>hr_headers := hs\<rparr> in evs @ with_journal mission r' (relayer_http N r'))"

definition REFUSE :: string where
  "REFUSE = ''refus'' @ [CHR 0xC3, CHR 0xA9]"

definition refused_by_capd :: "string option \<Rightarrow> http_request \<Rightarrow> json \<Rightarrow> exit_event list" where
  "refused_by_capd mission r decision =
     (let motif = or_default (as_str (field ''reason'' decision)) REFUSE
      in (if motif \<in> {''bad_signature'', ''unknown_version'', ''BadSignature'', ''UnknownVersion''} then []
          else journaliser mission ''net.deny''
                 (JObj [(''host'', JStr (hr_host r)), (''reason'', JStr motif)]))
         @ [Answered 403 motif])"

definition trancher :: "exit_env \<Rightarrow> network \<Rightarrow> http_request \<Rightarrow> string \<Rightarrow> exit_event list" where
  "trancher X N r reste =
     (case jeton X (hr_headers r) of
        None \<Rightarrow> [Answered 407 ''Unauthorized'']
      | Some t \<Rightarrow>
          let mutating = is_mutating (hr_method r) (hr_host r) (ex_query_hosts X);
              mission = as_str (field ''sub'' t)
          in AskedCapd (hr_host r) mutating t #
             (case nt_capd N (check_params t (hr_host r) mutating) of
                Inl _ \<Rightarrow> [Answered 503 ''BrokerUnavailable'']
              | Inr decision \<Rightarrow>
                  if field ''decision'' decision \<noteq> Some (JStr ''allow'') then refused_by_capd mission r decision
                  else if should_block (inspect default_thresholds r)
                  then journaliser mission ''net.exfil_suspected'' (JObj [(''host'', JStr (hr_host r))])
                       @ [Answered 403 ''ExfiltrationSuspected'']
                  else relayer N mission r reste))"

definition servir :: "exit_env \<Rightarrow> network \<Rightarrow> exit_event list" where
  "servir X N =
     (case lire_la_tete [] (nt_input N) of
        None \<Rightarrow> []
      | Some (tete, reste) \<Rightarrow>
          (case parse_request tete of
             None \<Rightarrow> [Answered 400 ''BadRequest'']
           | Some r \<Rightarrow>
               (case lire_le_corps r reste of
                  Inl evs \<Rightarrow> evs
                | Inr (r', reste') \<Rightarrow> trancher X N r' reste')))"

end
