(* ===== verification/Vault_Safe.thy ===== *)
theory Vault_Safe
  imports Vault
begin

text \<open>
  What the vault keeps: its answers to anyone but the proxy do not depend on any value, stored or
  given in the same run (two runs that differ in values only cannot be told apart), and a secret put
  with success is found again after a restart, whatever the other calls and the faults of the disk.
  Also what a failed removal leaves.
\<close>

section \<open>Two runs an observer cannot tell apart\<close>

definition seen :: "('e \<Rightarrow> bool) \<Rightarrow> 'e list \<Rightarrow> 'o list \<Rightarrow> 'o list" where
  "seen sees es outs = map snd (filter (\<lambda>(e, _). sees e) (zip es outs))"

lemma seen_simps [simp]:
  "seen sees [] outs = []"
  "seen sees (e # es) (out # outs) = (if sees e then out # seen sees es outs else seen sees es outs)"
  by (simp_all add: seen_def)

locale noninterference =
  fixes step :: "'s \<Rightarrow> 'e \<Rightarrow> ('s \<times> 'o) option"
    and same :: "'s \<Rightarrow> 's \<Rightarrow> bool"
    and same_event :: "'e \<Rightarrow> 'e \<Rightarrow> bool"
    and sees :: "'e \<Rightarrow> bool"
  assumes step_same: "same s t \<Longrightarrow> same_event e f \<Longrightarrow> step s e = Some (s', out) \<Longrightarrow>
      step t f = Some (t', out') \<Longrightarrow> same s' t' \<and> (sees e \<longrightarrow> out = out')"
    and sees_same: "same_event e f \<Longrightarrow> sees e = sees f"
begin

lemma runs_same:
  "list_all2 same_event es fs \<Longrightarrow> same s t \<Longrightarrow> run step s es = Some (s', outs) \<Longrightarrow>
   run step t fs = Some (t', outs') \<Longrightarrow> same s' t' \<and> seen sees es outs = seen sees fs outs'"
proof (induction arbitrary: s t outs outs' rule: list_all2_induct)
  case (Cons e es f fs)
  obtain s1 out o1 where 1: "step s e = Some (s1, out)" "run step s1 es = Some (s', o1)" "outs = out # o1"
    using Cons.prems(2) by (rule run_ConsE)
  obtain t1 out' o2 where 2: "step t f = Some (t1, out')" "run step t1 fs = Some (t', o2)" "outs' = out' # o2"
    using Cons.prems(3) by (rule run_ConsE)
  have "same s1 t1 \<and> (sees e \<longrightarrow> out = out')"
    using step_same [OF Cons.prems(1) Cons.hyps(1) 1(1) 2(1)] .
  with Cons.IH [OF _ 1(2) 2(2)] sees_same [OF Cons.hyps(1)] show ?case by (simp add: 1(3) 2(3))
qed simp

end

section \<open>The values are invisible\<close>

definition public_entries :: "entries \<Rightarrow> (string \<times> secret_info) list" where
  "public_entries es = map (\<lambda>(k, e). (k, en_info e)) es"

definition alike :: "vault \<Rightarrow> vault \<Rightarrow> bool" where
  "alike V W \<longleftrightarrow> public_entries (va_entries V) = public_entries (va_entries W)"

definition encrypts :: "vault_crypto \<Rightarrow> json \<Rightarrow> bool" where
  "encrypts C params \<longleftrightarrow>
     (\<forall>key nonce v. field ''value'' params = Some (JStr v) \<longrightarrow> vc_encrypt C key nonce v \<noteq> None)"

text \<open>Two calls that differ in the nonce and the value only.\<close>

definition alike_call :: "vault_crypto \<Rightarrow> vault_call \<Rightarrow> vault_call \<Rightarrow> bool" where
  "alike_call C c d \<longleftrightarrow>
     vl_peer c = vl_peer d \<and> vl_accounts c = vl_accounts d \<and> vl_method c = vl_method d
     \<and> vl_fault c = vl_fault d
     \<and> (\<forall>n. n \<noteq> ''value'' \<longrightarrow> field n (vl_params c) = field n (vl_params d))
     \<and> (as_str (field ''value'' (vl_params c)) = None) = (as_str (field ''value'' (vl_params d)) = None)
     \<and> encrypts C (vl_params c) \<and> encrypts C (vl_params d)"

definition not_proxy :: "vault_env \<Rightarrow> vault_call \<Rightarrow> bool" where
  "not_proxy E c \<longleftrightarrow> ve_uid_du_proxy E \<noteq> Some (p_uid (vl_peer c))"

lemma public_insert: "public_entries (bt_insert k e es) = bt_insert k (en_info e) (public_entries es)"
  by (induction k e es rule: bt_insert.induct) (auto simp: public_entries_def)

lemma public_delete: "public_entries (AList.delete k es) = AList.delete k (public_entries es)"
  by (induction es) (auto simp: public_entries_def)

lemma public_map_of: "map_of (public_entries es) k = map_option en_info (map_of es k)"
  by (simp add: public_entries_def map_of_map_snd)

lemma saved_entries: "va_entries (fst (vault_save fault V)) = va_entries V"
  by (simp add: vault_save_def split: prod.split)

definition save_fails :: "save_fault \<Rightarrow> bool" where
  "save_fails fault \<longleftrightarrow> fault \<in> {OpenFails, WriteFails, SyncFails, RenameFails}"

lemma saved_outcome: "vault_save fault V = (V', out) \<Longrightarrow>
    V' = fst (vault_save fault V) \<and> out = (if save_fails fault then Err VaultIo else Ok ())"
  by (cases fault) (auto simp: vault_save_def write_beside_def save_fails_def)

lemma alike_info: "alike V W \<Longrightarrow> vault_info V name = vault_info W name"
  unfolding alike_def vault_info_def by (metis public_map_of)

lemma alike_list: "alike V W \<Longrightarrow> vault_list V = vault_list W"
proof -
  have "vault_list V = map snd (public_entries (va_entries V))" for V
    by (induction "va_entries V") (auto simp: vault_list_def public_entries_def)
  then show "alike V W \<Longrightarrow> vault_list V = vault_list W" by (simp add: alike_def)
qed

lemma alike_contains: "alike V W \<Longrightarrow> contains_key k (va_entries V) = contains_key k (va_entries W)"
  unfolding alike_def contains_key_def by (metis option.map_disc_iff public_map_of)

lemma allowed_for_info: "allowed_for V name host \<longleftrightarrow>
    (case vault_info V name of None \<Rightarrow> False
     | Some i \<Rightarrow> list_ex (\<lambda>pattern. domain_allows pattern host) (si_domains i))"
  by (simp add: allowed_for_def vault_info_def split: option.split)

lemma alike_saved: "alike (fst (vault_save f V)) (fst (vault_save g W)) = alike V W"
  by (simp add: alike_def saved_entries)

lemma encrypted: "encrypts C p \<Longrightarrow> as_str (field ''value'' p) = Some v \<Longrightarrow>
    \<exists>x. vc_encrypt C key nonce v = Some x"
  by (cases "field ''value'' p") (auto simp: encrypts_def elim!: as_str.elims)

definition entry_of :: "vault_crypto \<Rightarrow> secret_info \<Rightarrow> string \<Rightarrow> string \<Rightarrow> entry" where
  "entry_of C i nonce ciphertext =
     \<lparr>en_info = i, en_nonce = vc_encode C nonce, en_ciphertext = vc_encode C ciphertext\<rparr>"

definition with_entry :: "vault \<Rightarrow> entry \<Rightarrow> vault" where
  "with_entry V e = V\<lparr>va_entries := bt_insert (si_name (en_info e)) e (va_entries V)\<rparr>"

definition without_entry :: "vault \<Rightarrow> string \<Rightarrow> vault" where
  "without_entry V k = V\<lparr>va_entries := AList.delete k (va_entries V)\<rparr>"

lemma put_eq:
  assumes "vc_encrypt C (va_key V) n v = Some x"
  shows "vault_put C f n V i v = (fst (vault_save f (with_entry V (entry_of C i n x))),
     if save_fails f then Err VaultIo else Ok (secret_ref_new (si_name i)))"
proof -
  have "with_entry V (entry_of C i n x) = V\<lparr>va_entries := bt_insert (si_name i) (entry_of C i n x) (va_entries V)\<rparr>"
    by (simp add: with_entry_def entry_of_def)
  then show ?thesis
    unfolding vault_put_def assms
    by (auto simp: entry_of_def [symmetric] split: prod.split sum.split if_splits dest!: saved_outcome)
qed

lemma delete_eq:
  "vault_delete f V k =
     (if contains_key k (va_entries V)
      then (fst (vault_save f (without_entry V k)), if save_fails f then Err VaultIo else Ok True)
      else (V, Ok False))"
  unfolding vault_delete_def
  by (auto simp: without_entry_def [symmetric] split: prod.split sum.split if_splits dest!: saved_outcome)

lemma put_alike:
  assumes "alike V W" "\<exists>x. vc_encrypt C (va_key V) n v = Some x" "\<exists>y. vc_encrypt C (va_key W) m w = Some y"
  obtains V' W' r where "vault_put C f n V i v = (V', r)" "vault_put C f m W i w = (W', r)" "alike V' W'"
proof -
  obtain x y where x: "vc_encrypt C (va_key V) n v = Some x" and y: "vc_encrypt C (va_key W) m w = Some y"
    using assms(2,3) by blast
  have "alike (with_entry V (entry_of C i n x)) (with_entry W (entry_of C i m y))"
    using assms(1) by (simp add: alike_def with_entry_def entry_of_def public_insert)
  then show ?thesis using that put_eq [OF x] put_eq [OF y] by (simp add: alike_saved)
qed

lemma delete_alike:
  assumes "alike V W"
  obtains V' W' r where "vault_delete f V k = (V', r)" "vault_delete f W k = (W', r)" "alike V' W'"
proof -
  have "alike (without_entry V k) (without_entry W k)"
    using assms by (simp add: alike_def without_entry_def public_delete)
  then show ?thesis
    using that assms alike_contains [OF assms, of k]
    by (cases "contains_key k (va_entries W)") (simp_all add: delete_eq alike_saved)
qed

lemma texte_same:
  assumes "alike_call C c d" "n \<noteq> ''value''"
  shows "texte (vl_params c) n = texte (vl_params d) n"
  using assms by (simp add: alike_call_def texte_def)

lemma value_same:
  assumes "alike_call C c d"
  obtains e where "texte (vl_params c) ''value'' = Err e" "texte (vl_params d) ''value'' = Err e"
  | v w where "texte (vl_params c) ''value'' = Ok v" "texte (vl_params d) ''value'' = Ok w"
      "\<And>key nonce. \<exists>x. vc_encrypt C key nonce v = Some x" "\<And>key nonce. \<exists>x. vc_encrypt C key nonce w = Some x"
proof (cases "as_str (field ''value'' (vl_params c))")
  case None
  then show ?thesis using assms that(1) by (simp add: alike_call_def texte_def)
next
  case (Some v)
  then obtain w where w: "as_str (field ''value'' (vl_params d)) = Some w"
    using assms by (auto simp: alike_call_def)
  have "\<exists>x. vc_encrypt C key nonce v = Some x" "\<exists>x. vc_encrypt C key nonce w = Some x" for key nonce
    using assms Some w encrypted by (auto simp: alike_call_def)
  then show ?thesis using that(2) [of v w] Some w by (simp add: texte_def)
qed

text \<open>What a method answers, apart from the value: the two steps side by side.\<close>

definition together :: "vault_result \<Rightarrow> vault_result \<Rightarrow> bool" where
  "together r q \<longleftrightarrow> (\<exists>V W out. r = Some (V, out) \<and> q = Some (W, out) \<and> alike V W)"

lemma put_call_same:
  assumes "alike V W" "alike_call (ve_crypto E) c d"
  shows "together (put_call E V c) (put_call E W d)"
proof -
  have info: "field ''info'' (vl_params c) = field ''info'' (vl_params d)" and f: "vl_fault c = vl_fault d"
    using assms(2) by (auto simp: alike_call_def)
  from assms(2) show ?thesis
  proof (cases rule: value_same)
    case (1 e)
    then show ?thesis using assms(1) info
      by (auto simp: put_call_def together_def split: option.split)
  next
    case (2 v w)
    show ?thesis
    proof (cases "Option.bind (field ''info'' (vl_params d)) (ve_read_info E)")
      case None
      then show ?thesis using assms(1) info by (simp add: put_call_def together_def)
    next
      case (Some i)
      obtain V' W' r where "vault_put (ve_crypto E) (vl_fault c) (vl_nonce c) V i v = (V', r)"
        "vault_put (ve_crypto E) (vl_fault c) (vl_nonce d) W i w = (W', r)" "alike V' W'"
        by (rule put_alike [OF assms(1) 2(3,4)])
      then show ?thesis using Some 2(1,2) info f
        by (simp add: put_call_def together_def split: sum.split)
    qed
  qed
qed

lemma rotate_call_same:
  assumes "alike V W" "alike_call (ve_crypto E) c d"
  shows "together (rotate_call E V c) (rotate_call E W d)"
proof -
  have name: "texte (vl_params c) ''name'' = texte (vl_params d) ''name''" and f: "vl_fault c = vl_fault d"
    using assms(2) texte_same [OF assms(2)] by (auto simp: alike_call_def)
  from assms(2) show ?thesis
  proof (cases rule: value_same)
    case (1 e)
    then show ?thesis using assms(1) name
      by (auto simp: rotate_call_def and_then_def together_def split: sum.split)
  next
    case (2 v w)
    show ?thesis
    proof (cases "texte (vl_params d) ''name''")
      case (Inl e)
      then show ?thesis using assms(1) name by (simp add: rotate_call_def and_then_def together_def)
    next
      case name': (Inr n)
      show ?thesis
      proof (cases "vault_info W n")
        case None
        then show ?thesis using assms(1) name name' 2(1,2) alike_info [OF assms(1)]
          by (simp add: rotate_call_def vault_rotate_def and_then_def together_def)
      next
        case (Some i)
        obtain V' W' r where "vault_put (ve_crypto E) (vl_fault c) (vl_nonce c) V i v = (V', r)"
          "vault_put (ve_crypto E) (vl_fault c) (vl_nonce d) W i w = (W', r)" "alike V' W'"
          by (rule put_alike [OF assms(1) 2(3,4)])
        then show ?thesis using Some 2(1,2) name name' f alike_info [OF assms(1)]
          by (simp add: rotate_call_def vault_rotate_def and_then_def together_def split: sum.split)
      qed
    qed
  qed
qed

lemma delete_call_same:
  assumes "alike V W" "alike_call C c d"
  shows "together (delete_call V c) (delete_call W d)"
proof (cases "texte (vl_params c) ''name''")
  case (Inl e)
  then show ?thesis using assms texte_same [OF assms(2), of "''name''"]
    by (simp add: delete_call_def together_def)
next
  case (Inr name)
  have "texte (vl_params d) ''name'' = Ok name" "vl_fault c = vl_fault d"
    using assms(2) texte_same [OF assms(2), of "''name''"] Inr by (auto simp: alike_call_def)
  moreover obtain V' W' r where "vault_delete (vl_fault c) V name = (V', r)"
    "vault_delete (vl_fault c) W name = (W', r)" "alike V' W'"
    by (rule delete_alike [OF assms(1)])
  ultimately show ?thesis using Inr by (simp add: delete_call_def together_def split: sum.split)
qed

lemma allowed_call_same:
  assumes "alike V W" "alike_call C c d"
  shows "together (allowed_call V c) (allowed_call W d)"
  using assms(1) texte_same [OF assms(2), of "''name''"] texte_same [OF assms(2), of "''host''"]
    alike_info [OF assms(1)]
  by (auto simp: allowed_call_def and_then_def together_def allowed_for_info split: sum.split)

lemma use_call_state: "use_call E V c = Some (V', out) \<Longrightarrow> V' = V"
  by (auto simp: use_call_def split: if_splits sum.splits option.splits)

lemma step_alike:
  assumes "alike V W" "alike_call (ve_crypto E) c d" "not_proxy E c"
  shows "together (vault_step E V c) (vault_step E W d)"
proof -
  have same: "vl_peer d = vl_peer c" "vl_accounts d = vl_accounts c" "vl_method d = vl_method c"
    using assms(2) by (auto simp: alike_call_def)
  have "use_call E V c = Some (V, refused EcUnauthorized)" "use_call E W d = Some (W, refused EcUnauthorized)"
    using assms(3) same by (auto simp: use_call_def not_proxy_def)
  then show ?thesis
    using assms(1) put_call_same [OF assms(1,2)] rotate_call_same [OF assms(1,2)]
      delete_call_same [OF assms(1,2)] allowed_call_same [OF assms(1,2)] alike_list [OF assms(1)]
    by (simp add: vault_step_def Let_def same) (simp add: together_def)
qed

lemma step_alike_any:
  assumes "alike V W" "alike_call (ve_crypto E) c d"
    and "vault_step E V c = Some (V', out)" "vault_step E W d = Some (W', out')"
  shows "alike V' W' \<and> (not_proxy E c \<longrightarrow> out = out')"
proof (cases "vl_method c = ''secrets.use'' \<or> vl_method c = ''vault.reveal''")
  case False
  have same: "vl_peer d = vl_peer c" "vl_accounts d = vl_accounts c" "vl_method d = vl_method c"
    using assms(2) by (auto simp: alike_call_def)
  have "together (vault_step E V c) (vault_step E W d)"
    using False assms(1) put_call_same [OF assms(1,2)] rotate_call_same [OF assms(1,2)]
      delete_call_same [OF assms(1,2)] allowed_call_same [OF assms(1,2)] alike_list [OF assms(1)]
    by (simp add: vault_step_def Let_def same) (simp add: together_def)
  then show ?thesis using assms(3,4) by (simp add: together_def)
next
  case True
  have same: "vl_method d = vl_method c" using assms(2) by (simp add: alike_call_def)
  have "V' = V" "W' = W" using True assms(3,4) same
    by (auto simp: vault_step_def Let_def dest!: use_call_state split: if_splits)
  then show ?thesis using step_alike [OF assms(1,2)] assms by (auto simp: together_def)
qed

interpretation blind: noninterference "vault_step E" alike "alike_call (ve_crypto E)" "not_proxy E" for E
proof
  show "alike s t \<Longrightarrow> alike_call (ve_crypto E) e f \<Longrightarrow> vault_step E s e = Some (s', out) \<Longrightarrow>
      vault_step E t f = Some (t', out') \<Longrightarrow> alike s' t' \<and> (not_proxy E e \<longrightarrow> out = out')" for s t e f s' out t' out'
    by (rule step_alike_any)
  show "alike_call (ve_crypto E) e f \<Longrightarrow> not_proxy E e = not_proxy E f" for e f
    by (simp add: alike_call_def not_proxy_def)
qed

text \<open>
  C15. The values are invisible to everyone but the exit proxy. Take two vaults that hold the same
  secrets with other values, even under other keys, and two sequences of calls that differ in the
  values given only: every peer but the proxy's account reads the same answers in both, whatever the
  proxy does in between and the faults of the disk, and the vaults still differ in values only. No
  call of such a peer makes the service panic.
\<close>

theorem values_invisible:
  assumes "alike V W" "list_all2 (alike_call (ve_crypto E)) cs ds"
    and "run (vault_step E) V cs = Some (V', outs)" "run (vault_step E) W ds = Some (W', outs')"
  shows "alike V' W' \<and> seen (not_proxy E) cs outs = seen (not_proxy E) ds outs'
    \<and> (\<forall>c. not_proxy E c \<and> encrypts (ve_crypto E) (vl_params c) \<longrightarrow> vault_step E V' c \<noteq> None)"
proof (intro conjI allI impI)
  show "alike V' W'" "seen (not_proxy E) cs outs = seen (not_proxy E) ds outs'"
    using blind.runs_same [OF assms(2,1,3,4)] by auto
  fix c
  assume c: "not_proxy E c \<and> encrypts (ve_crypto E) (vl_params c)"
  then have "alike_call (ve_crypto E) c c" by (simp add: alike_call_def)
  moreover have "alike V' V'" by (simp add: alike_def)
  ultimately show "vault_step E V' c \<noteq> None"
    using step_alike c by (fastforce simp: together_def)
qed

section \<open>A secret survives\<close>

definition box_ok :: "vault_crypto \<Rightarrow> bool" where
  "box_ok C \<longleftrightarrow>
     (\<forall>x. vc_decode C (vc_encode C x) = Some x) \<and> (\<forall>x. trim (vc_encode C x) = vc_encode C x)
     \<and> (\<forall>key nonce v x. vc_encrypt C key nonce v = Some x \<longrightarrow> vc_decrypt C key nonce x = Some v)"

text \<open>The secret a call replaces or removes.\<close>

definition subject_of :: "vault_env \<Rightarrow> vault_call \<Rightarrow> string option" where
  "subject_of E c =
     (if vl_method c = ''vault.put''
      then map_option si_name (Option.bind (field ''info'' (vl_params c)) (ve_read_info E))
      else if vl_method c \<in> {''vault.delete'', ''vault.rotate''} then as_str (field ''name'' (vl_params c))
      else None)"

definition vault_inv :: "vault \<Rightarrow> bool" where
  "vault_inv V \<longleftrightarrow> sorted (map fst (va_entries V)) \<and> (\<forall>(k, e) \<in> set (va_entries V). si_name (en_info e) = k)"

definition keeps_entry :: "string \<Rightarrow> entry \<Rightarrow> vault \<Rightarrow> bool" where
  "keeps_entry name e V \<longleftrightarrow> map_of (va_entries V) name = Some e
     \<and> (\<exists>es. kp_main (va_file V) = Some (Whole es) \<and> map_of es name = Some e)"

lemma decrypt_entry_of:
  "box_ok C \<Longrightarrow> vc_encrypt C key nonce val = Some x \<Longrightarrow> length nonce = NONCE_LENGTH \<Longrightarrow>
     utf8_valid val \<Longrightarrow> decrypt_entry C key (entry_of C i nonce x) = Some (Ok val)"
  by (simp add: box_ok_def decrypt_entry_def entry_of_def from_utf8_def)

lemma saved_file: "va_key (fst (vault_save fault V)) = va_key V
    \<and> kp_main (va_file (fst (vault_save fault V))) =
        (if save_fails fault then kp_main (va_file V) else Some (Whole (va_entries V)))"
  by (cases fault) (simp_all add: vault_save_def write_beside_def save_fails_def)

lemma keeps_saved: "map_of (va_entries V) name = Some e \<Longrightarrow> keeps_entry name e V' \<Longrightarrow>
    va_file V = va_file V' \<Longrightarrow> keeps_entry name e (fst (vault_save fault V))"
  using saved_file [of fault V] saved_entries [of fault V] by (auto simp: keeps_entry_def)

lemma inv_saved: "vault_inv V \<Longrightarrow> vault_inv (fst (vault_save fault V))"
  by (simp add: vault_inv_def saved_entries)

lemma set_bt_insert: "set (bt_insert k v m) \<subseteq> insert (k, v) (set m)"
  by (induction k v m rule: bt_insert.induct) auto

lemma inv_with: "vault_inv V \<Longrightarrow> vault_inv (with_entry V e)"
  using set_bt_insert [of "si_name (en_info e)" e "va_entries V"]
  by (auto simp: vault_inv_def with_entry_def)

lemma sorted_delete: "sorted (map fst m) \<Longrightarrow> sorted (map fst (AList.delete k m))"
  by (induction m) (auto simp: AList.delete_eq)

lemma inv_without: "vault_inv V \<Longrightarrow> vault_inv (without_entry V k)"
  using sorted_delete [of "va_entries V" k] by (auto simp: vault_inv_def without_entry_def AList.delete_eq)

text \<open>What putting and removing do to the vault, whatever they answer.\<close>

lemma put_cases:
  assumes "vault_put C fault nonce V i val = (V', out)"
  obtains "V' = V" | x where "V' = fst (vault_save fault (with_entry V (entry_of C i nonce x)))"
proof (cases "vc_encrypt C (va_key V) nonce val")
  case None
  then show ?thesis using that(1) assms by (simp add: vault_put_def)
next
  case (Some x)
  show ?thesis using assms put_eq [OF Some] by (intro that(2) [of x]) simp
qed

lemma delete_cases:
  assumes "vault_delete fault V k = (V', out)"
  obtains "V' = V" | "V' = fst (vault_save fault (without_entry V k))"
  using assms that by (auto simp: delete_eq split: if_splits)

lemma put_keeps:
  assumes "vault_inv V" "vault_put C fault nonce V i val = (V', out)"
  shows "vault_inv V' \<and> va_key V' = va_key V
    \<and> (si_name i \<noteq> name \<longrightarrow> keeps_entry name e V \<longrightarrow> keeps_entry name e V')"
  using assms(2)
proof (cases rule: put_cases)
  case (2 x)
  have "vault_inv V'" "va_key V' = va_key V"
    using 2 inv_saved inv_with assms(1) saved_file by (auto simp: with_entry_def)
  moreover have "keeps_entry name e V'" if "si_name i \<noteq> name" "keeps_entry name e V"
    unfolding 2 by (rule keeps_saved [OF _ that(2)])
      (use that assms(1) in \<open>auto simp: with_entry_def entry_of_def keeps_entry_def vault_inv_def\<close>)
  ultimately show ?thesis by blast
qed (use assms in simp)

lemma delete_keeps:
  assumes "vault_inv V" "vault_delete fault V k = (V', out)"
  shows "vault_inv V' \<and> va_key V' = va_key V
    \<and> (k \<noteq> name \<longrightarrow> keeps_entry name e V \<longrightarrow> keeps_entry name e V')"
  using assms(2)
proof (cases rule: delete_cases)
  case 2
  have "vault_inv V'" "va_key V' = va_key V"
    using 2 inv_saved inv_without assms(1) saved_file by (auto simp: without_entry_def)
  moreover have "keeps_entry name e V'" if "k \<noteq> name" "keeps_entry name e V"
    unfolding 2 by (rule keeps_saved [OF _ that(2)])
      (use that in \<open>auto simp: without_entry_def keeps_entry_def\<close>)
  ultimately show ?thesis by blast
qed (use assms in simp)

lemma info_named: "vault_inv V \<Longrightarrow> vault_info V k = Some i \<Longrightarrow> si_name i = k"
  by (auto simp: vault_inv_def vault_info_def dest!: map_of_SomeD)

lemma rotate_keeps:
  assumes "vault_inv V" "vault_rotate C fault nonce V k val = (V', out)"
  shows "vault_inv V' \<and> va_key V' = va_key V
    \<and> (k \<noteq> name \<longrightarrow> keeps_entry name e V \<longrightarrow> keeps_entry name e V')"
proof (cases "vault_info V k")
  case None
  then show ?thesis using assms by (simp add: vault_rotate_def)
next
  case (Some i)
  obtain out' where "vault_put C fault nonce V i val = (V', out')"
    using assms(2) Some by (auto simp: vault_rotate_def split: prod.splits sum.splits)
  from put_keeps [OF assms(1) this] info_named [OF assms(1) Some] show ?thesis by blast
qed

lemma vault_step_keeps:
  assumes "vault_inv V" "vault_step E V c = Some (V', out)"
  shows "vault_inv V' \<and> va_key V' = va_key V
    \<and> (subject_of E c \<noteq> Some name \<longrightarrow> keeps_entry name e V \<longrightarrow> keeps_entry name e V')"
proof -
  consider "V' = V" | (put) i val r where "vl_method c = ''vault.put''"
      "Option.bind (field ''info'' (vl_params c)) (ve_read_info E) = Some i"
      "vault_put (ve_crypto E) (vl_fault c) (vl_nonce c) V i val = (V', r)"
    | (delete) k r where "vl_method c = ''vault.delete''" "as_str (field ''name'' (vl_params c)) = Some k"
      "vault_delete (vl_fault c) V k = (V', r)"
    | (rotate) k val r where "vl_method c = ''vault.rotate''" "as_str (field ''name'' (vl_params c)) = Some k"
      "vault_rotate (ve_crypto E) (vl_fault c) (vl_nonce c) V k val = (V', r)"
    using assms(2)
    by (auto simp: vault_step_def Let_def put_call_def delete_call_def rotate_call_def allowed_call_def
        and_then_def texte_def dest: use_call_state split: if_splits option.splits sum.splits prod.splits)
  then show ?thesis
  proof cases
    case put
    then show ?thesis using put_keeps [OF assms(1) put(3)] by (auto simp: subject_of_def)
  next
    case delete
    then show ?thesis using delete_keeps [OF assms(1) delete(3)] by (auto simp: subject_of_def)
  next
    case rotate
    then show ?thesis using rotate_keeps [OF assms(1) rotate(3)] by (auto simp: subject_of_def)
  qed (use assms in simp)
qed

text \<open>
  C36. A secret put with success is not lost: after any calls that do not put, rotate or remove that
  secret, with any faults of the disk, in memory and after a restart of the service alike, the vault
  gives back the very value, its description and the same hosts. The cipher must undo itself, base64
  too, and a nonce has its twelve bytes.
\<close>

theorem secret_survives:
  assumes crypto: "box_ok (ve_crypto E)" and V: "vault_inv V" "length (va_key V) = KEY_LENGTH"
    and put: "vault_put (ve_crypto E) fault nonce V info val = (V1, Ok r)"
    and sizes: "utf8_valid val" "length nonce = NONCE_LENGTH"
    and calls: "run (vault_step E) V1 cs = Some (V2, outs)" "\<forall>c \<in> set cs. subject_of E c \<noteq> Some (si_name info)"
    and key: "K = Some (vc_encode (ve_crypto E) (va_key V))"
  shows "\<exists>V3. vault_open (ve_crypto E) kf random K (va_file V2) = (K, Ok V3)
     \<and> vault_reveal (ve_crypto E) V3 (si_name info) = Some (Ok val)
     \<and> vault_reveal (ve_crypto E) V2 (si_name info) = Some (Ok val)
     \<and> vault_info V3 (si_name info) = Some info
     \<and> (\<forall>host. allowed_for V3 (si_name info) host = list_ex (\<lambda>p. domain_allows p host) (si_domains info))"
proof -
  let ?C = "ve_crypto E" and ?n = "si_name info"
  from put obtain x where x: "vc_encrypt ?C (va_key V) nonce val = Some x"
    by (cases "vc_encrypt ?C (va_key V) nonce val") (auto simp: vault_put_def)
  let ?e = "entry_of ?C info nonce x"
  have V1: "V1 = fst (vault_save fault (with_entry V ?e))" and ok: "\<not> save_fails fault"
    using put by (auto simp: put_eq [OF x] split: if_splits)
  have W: "vault_inv (with_entry V ?e)" "map_of (va_entries (with_entry V ?e)) ?n = Some ?e"
    "va_key (with_entry V ?e) = va_key V"
    using inv_with [OF V(1), of ?e] V(1) by (simp_all add: with_entry_def entry_of_def vault_inv_def)
  then have start: "vault_inv V1" "va_key V1 = va_key V" "keeps_entry ?n ?e V1"
    unfolding V1 keeps_entry_def by (simp_all add: inv_saved saved_file saved_entries ok)
  from calls start have "vault_inv V2 \<and> va_key V2 = va_key V \<and> keeps_entry ?n ?e V2"
  proof (induction cs arbitrary: V1 outs)
    case (Cons c cs)
    obtain V' out outs' where step: "vault_step E V1 c = Some (V', out)" "run (vault_step E) V' cs = Some (V2, outs')"
      using Cons.prems(1) by (rule run_ConsE)
    from vault_step_keeps [OF Cons.prems(3) step(1), of ?n ?e] Cons.prems Cons.IH [OF step(2)] show ?case by simp
  qed simp
  then obtain es where V2: "kp_main (va_file V2) = Some (Whole es)" "map_of es ?n = Some ?e"
    "map_of (va_entries V2) ?n = Some ?e" "va_key V2 = va_key V"
    by (auto simp: keeps_entry_def)
  let ?V3 = "\<lparr>va_key = va_key V, va_entries = es, va_file = va_file V2\<rparr>"
  have "vault_open ?C kf random K (va_file V2) = (K, Ok ?V3)"
    using crypto V(2) V2(1) by (simp add: vault_open_def load_or_create_key_def key box_ok_def)
  moreover have "decrypt_entry ?C (va_key V) ?e = Some (Ok val)"
    by (rule decrypt_entry_of [OF crypto x sizes(2,1)])
  ultimately show ?thesis
    using V2 by (intro exI [of _ ?V3]) (simp add: vault_reveal_def vault_info_def allowed_for_def, simp add: entry_of_def)
qed

text \<open>A removal that could not be written holds in memory only: asked again, it answers that there
  is nothing to remove, and the secret is back after a restart.\<close>

lemma deleted_secret_returns:
  assumes "keeps_entry name e V"
  shows "\<exists>V1 es. vault_delete RenameFails V name = (V1, Err VaultIo)
     \<and> vault_delete NoFault V1 name = (V1, Ok False)
     \<and> kp_main (va_file V1) = Some (Whole es) \<and> map_of es name = Some e"
proof -
  let ?V1 = "fst (vault_save RenameFails (without_entry V name))"
  have "contains_key name (va_entries V)" using assms by (simp add: keeps_entry_def contains_key_def)
  moreover have "\<not> contains_key name (va_entries ?V1)"
    by (simp add: saved_entries without_entry_def contains_key_def)
  moreover have "kp_main (va_file ?V1) = kp_main (va_file V)"
    using saved_file [of RenameFails "without_entry V name"] by (simp add: without_entry_def save_fails_def)
  ultimately show ?thesis using assms by (simp add: delete_eq save_fails_def keeps_entry_def)
qed

section \<open>A vault on which the properties are computed\<close>

definition boxed :: vault_crypto where
  "boxed = \<lparr>vc_encode = (\<lambda>x. CHR ''<'' # x @ [CHR ''>'']),
     vc_decode = (\<lambda>x. case x of c # r \<Rightarrow> if r \<noteq> [] then Some (butlast r) else None | [] \<Rightarrow> None),
     vc_encrypt = (\<lambda>key nonce v. Some (rev v)), vc_decrypt = (\<lambda>key nonce x. Some (rev x))\<rparr>"

definition box_env :: vault_env where
  "box_env = \<lparr>ve_crypto = boxed,
     ve_pairs = \<lparr>pr_gid_systeme = Some 42, pr_uid_propre = 5, pr_membres_figes = Some []\<rparr>,
     ve_uid_du_proxy = Some 7,
     ve_read_info = (\<lambda>j. map_option (\<lambda>n. \<lparr>si_name = n, si_domains = [''api.github.com''],
        si_header = ''Authorization'', si_description = []\<rparr>) (as_str (field ''name'' j)))\<rparr>"

definition empty_box :: vault where
  "empty_box = \<lparr>va_key = replicate KEY_LENGTH CHR ''k'', va_entries = [],
     va_file = \<lparr>kp_main = None, kp_tmp = None\<rparr>\<rparr>"

definition box_call :: "nat \<Rightarrow> string \<Rightarrow> json \<Rightarrow> save_fault \<Rightarrow> vault_call" where
  "box_call uid method params fault = \<lparr>vl_peer = \<lparr>p_uid = uid, p_gid = 42, p_pid = None\<rparr>,
     vl_accounts = \<lparr>ac_group = Some [], ac_passwd = Some []\<rparr>, vl_method = method, vl_params = params,
     vl_nonce = replicate NONCE_LENGTH CHR ''n'', vl_fault = fault\<rparr>"

definition box_put :: "string \<Rightarrow> vault_call" where
  "box_put val = box_call 9 ''vault.put''
     (JObj [(''info'', JObj [(''name'', JStr ''github'')]), (''value'', JStr val)]) NoFault"

definition box_use :: vault_call where
  "box_use = box_call 7 ''secrets.use'' (JObj [(''name'', JStr ''github'')]) NoFault"

definition box_list :: vault_call where
  "box_list = box_call 9 ''secrets.list_refs'' (JObj []) NoFault"

lemma box_runs:
  "map_option snd (run (vault_step box_env) empty_box [box_put ''one'', box_use, box_list]) =
     Some [Ok (JObj [(''ref'', JStr ''prophet-secret:github'')]), Ok (JObj [(''value'', JStr ''one'')]),
       Ok (JArr [info_json \<lparr>si_name = ''github'', si_domains = [''api.github.com''],
          si_header = ''Authorization'', si_description = []\<rparr>])]"
  "map_option snd (run (vault_step box_env) empty_box [box_put ''two'', box_use, box_list]) =
     Some [Ok (JObj [(''ref'', JStr ''prophet-secret:github'')]), Ok (JObj [(''value'', JStr ''two'')]),
       Ok (JArr [info_json \<lparr>si_name = ''github'', si_domains = [''api.github.com''],
          si_header = ''Authorization'', si_description = []\<rparr>])]"
  by code_simp+

lemma box_calls_alike:
  "list_all2 (alike_call (ve_crypto box_env)) [box_put ''one'', box_use, box_list]
     [box_put ''two'', box_use, box_list]"
  by (auto simp: alike_call_def encrypts_def box_env_def boxed_def box_put_def box_use_def box_list_def
      box_call_def)

theorem values_invisible_witness:
  "\<exists>V' W' outs outs'. run (vault_step box_env) empty_box [box_put ''one'', box_use, box_list] = Some (V', outs)
     \<and> run (vault_step box_env) empty_box [box_put ''two'', box_use, box_list] = Some (W', outs')
     \<and> outs \<noteq> outs' \<and> alike V' W'
     \<and> seen (not_proxy box_env) [box_put ''one'', box_use, box_list] outs =
        seen (not_proxy box_env) [box_put ''two'', box_use, box_list] outs'"
proof -
  obtain V' outs where 1: "run (vault_step box_env) empty_box [box_put ''one'', box_use, box_list] = Some (V', outs)"
    using box_runs(1) by fastforce
  obtain W' outs' where 2: "run (vault_step box_env) empty_box [box_put ''two'', box_use, box_list] = Some (W', outs')"
    using box_runs(2) by fastforce
  have "outs \<noteq> outs'" using box_runs by (simp add: 1 2 del: run.simps)
  moreover have "alike empty_box empty_box" by (simp add: alike_def)
  ultimately show ?thesis using values_invisible [OF _ box_calls_alike 1 2] 1 2 by blast
qed

lemma boxed_laws: "box_ok boxed"
proof -
  have "strip_any white_space (CHR ''<'' # s) = None" for s
    by (simp add: white_space_def)
  moreover have "strip_any (map rev white_space) (CHR ''>'' # s) = None" for s
    by (simp add: white_space_def)
  ultimately have "trim (CHR ''<'' # x @ [CHR ''>'']) = CHR ''<'' # x @ [CHR ''>'']" for x
    by (simp add: trim_def trim_by.simps)
  then show ?thesis by (simp add: box_ok_def boxed_def)
qed

theorem secret_survives_witness:
  "\<exists>V1 V2 V3 outs. vault_put boxed NoFault (replicate NONCE_LENGTH CHR ''n'') empty_box
        \<lparr>si_name = ''github'', si_domains = [''api.github.com''], si_header = ''Authorization'',
          si_description = []\<rparr> ''one'' = (V1, Ok (secret_ref_new ''github''))
     \<and> run (vault_step box_env) V1 [box_use, box_list] = Some (V2, outs)
     \<and> vault_open boxed KeyFine [] (Some (vc_encode boxed (va_key empty_box))) (va_file V2) =
         (Some (vc_encode boxed (va_key empty_box)), Ok V3)
     \<and> vault_reveal boxed V3 ''github'' = Some (Ok ''one'')"
proof -
  let ?i = "\<lparr>si_name = ''github'', si_domains = [''api.github.com''], si_header = ''Authorization'',
    si_description = []\<rparr>"
  obtain V1 where put: "vault_put (ve_crypto box_env) NoFault (replicate NONCE_LENGTH CHR ''n'') empty_box ?i ''one''
      = (V1, Ok (secret_ref_new ''github''))"
    by (simp add: vault_put_def box_env_def boxed_def vault_save_def write_beside_def)
  have "map_option snd (run (vault_step box_env) (fst (vault_put (ve_crypto box_env) NoFault
      (replicate NONCE_LENGTH CHR ''n'') empty_box ?i ''one'')) [box_use, box_list]) \<noteq> None"
    by code_simp
  then have "run (vault_step box_env) V1 [box_use, box_list] \<noteq> None"
    unfolding put by (simp del: run.simps)
  then obtain V2 outs where r: "run (vault_step box_env) V1 [box_use, box_list] = Some (V2, outs)" by auto
  have env: "box_ok (ve_crypto box_env)" "ve_crypto box_env = boxed"
    using boxed_laws by (simp_all add: box_env_def)
  have box: "vault_inv empty_box" "length (va_key empty_box) = KEY_LENGTH"
    by (simp_all add: empty_box_def vault_inv_def)
  have sizes: "utf8_valid ''one''" "length (replicate NONCE_LENGTH CHR ''n'') = NONCE_LENGTH"
    by code_simp+
  have others: "\<forall>c \<in> set [box_use, box_list]. subject_of box_env c \<noteq> Some (si_name ?i)"
    by (simp add: subject_of_def box_use_def box_list_def box_call_def)
  obtain V3 where "vault_open boxed KeyFine [] (Some (vc_encode boxed (va_key empty_box))) (va_file V2) =
      (Some (vc_encode boxed (va_key empty_box)), Ok V3)" "vault_reveal boxed V3 ''github'' = Some (Ok ''one'')"
    using secret_survives [OF env(1) box put sizes r others refl, of KeyFine "[]"] by (auto simp: env(2))
  then show ?thesis using put r env(2) by auto
qed

end
