(* ===== verification/Egress_Guard.thy ===== *)
theory Egress_Guard
  imports Egress Vault_Safe Capd_Guard
begin

text \<open>
  What leaves the machine: only to the host \<^verbatim>\<open>capd\<close> allowed for the token of the request, and without a
  known secret; with the capability service behind the proxy, only under a live signed grant for
  that host and never for a method that changes a remote state; with the vault behind it, a secret
  only to the hosts declared for it. Then requests that show what the rules do not stop.
\<close>

section \<open>One exit\<close>

fun leaves :: "exit_event \<Rightarrow> bool" where
  "leaves (Connected h p) = True"
| "leaves (Secured h) = True"
| "leaves (Sent bytes) = True"
| "leaves (Tunnelled bytes) = True"
| "leaves _ = False"

text \<open>The request read from the client, its token, and what \<^verbatim>\<open>capd\<close> said of them.\<close>

definition mutating :: "exit_env \<Rightarrow> http_request \<Rightarrow> bool" where
  "mutating X r = is_mutating (hr_method r) (hr_host r) (ex_query_hosts X)"

definition approved :: "exit_env \<Rightarrow> network \<Rightarrow> http_request \<Rightarrow> string \<Rightarrow> json \<Rightarrow> json \<Rightarrow> bool" where
  "approved X N r reste t decision \<longleftrightarrow>
     (\<exists>tete suite r0. lire_la_tete [] (nt_input N) = Some (tete, suite) \<and> parse_request tete = Some r0
        \<and> lire_le_corps r0 suite = Ok (r, reste))
     \<and> jeton X (hr_headers r) = Some t
     \<and> nt_capd N (check_params t (hr_host r) (mutating X r)) = Ok decision
     \<and> field ''decision'' decision = Some (JStr ''allow'')"

definition clean :: "http_request \<Rightarrow> bool" where
  "clean r \<longleftrightarrow> (\<forall>(family, p) \<in> set SECRET_PATTERNS. \<not> contains_str p (hr_target r)
     \<and> \<not> contains_str p (header_text (hr_headers r)) \<and> \<not> contains_str p (from_utf8_lossy (hr_body r)))"

text \<open>Where an exit goes and what its bytes are.\<close>

fun exit_ok :: "network \<Rightarrow> http_request \<Rightarrow> string \<Rightarrow> exit_event \<Rightarrow> bool" where
  "exit_ok N r reste (Connected h p) = (h = hr_host r)"
| "exit_ok N r reste (Secured h) = (h = hr_host r)"
| "exit_ok N r reste (Sent bytes) =
     (hr_method r \<noteq> ''CONNECT'' \<and> (\<exists>evs hs cut. substituer N (hr_host r) (hr_headers r) = (evs, Ok hs)
        \<and> request_head (r\<lparr>hr_headers := hs\<rparr>) @ hr_body r = bytes @ cut))"
| "exit_ok N r reste (Tunnelled bytes) =
     (hr_method r = ''CONNECT'' \<and> \<not> has_reference (hr_headers r) \<and> (\<exists>cut. reste = bytes @ cut))"
| "exit_ok N r reste _ = True"

lemma in_map_filter: "x \<in> set xs \<Longrightarrow> f x = Some y \<Longrightarrow> y \<in> set (List.map_filter f xs)"
  by (force simp: List.map_filter_def)

lemma not_blocked_clean: "\<not> should_block (inspect T r) \<longleftrightarrow> clean r"
proof
  assume blocked: "\<not> should_block (inspect T r)"
  have "should_block (inspect T r)" if p: "(family, p) \<in> set SECRET_PATTERNS"
    and found: "contains_str p (hr_target r) \<or> contains_str p (header_text (hr_headers r))
      \<or> contains_str p (from_utf8_lossy (hr_body r))" for family p
  proof -
    have "SecretPattern family \<in> set (inspect T r)"
      using in_map_filter [OF p, of "\<lambda>(family, pattern).
          if contains_str pattern (hr_target r) \<or> contains_str pattern (header_text (hr_headers r))
             \<or> contains_str pattern (from_utf8_lossy (hr_body r))
          then Some (SecretPattern family) else None"] found
      unfolding inspect_def Let_def by simp
    then show ?thesis by (force simp: should_block_def list_ex_iff)
  qed
  with blocked show "clean r" by (auto simp: clean_def)
next
  assume clean: "clean r"
  show "\<not> should_block (inspect T r)"
  proof
    assume "should_block (inspect T r)"
    then obtain x where "x \<in> set (inspect T r)" "is_secret_pattern x"
      by (auto simp: should_block_def list_ex_iff)
    then show False
      using clean by (auto simp: inspect_def Let_def List.map_filter_def clean_def split: if_splits)
  qed
qed

lemma substitute_inside:
  "substitute_all N n host hs = (evs, out) \<Longrightarrow> e \<in> set evs \<Longrightarrow> \<not> leaves e"
proof (induction N n host hs arbitrary: evs out rule: substitute_all.induct)
  case (2 N n host nom val hs)
  have one: "substitute_one N n host f = (ev, r) \<Longrightarrow> e \<in> set ev \<Longrightarrow> \<not> leaves e" for f ev r
    by (auto simp: substitute_one_def split: sum.splits if_splits)
  show ?case
    using 2 one by (fastforce split: option.splits prod.splits sum.splits)
qed simp

lemma substituer_inside: "substituer N host hs = (evs, out) \<Longrightarrow> e \<in> set evs \<Longrightarrow> \<not> leaves e"
  using substitute_inside by (auto simp: substituer_def split: if_splits)

lemma journaled_inside: "e \<in> set (journaliser_la_sortie mission r b) \<Longrightarrow> \<not> leaves e"
  by (auto simp: journaliser_la_sortie_def journaliser_def split: option.splits)

lemma transmettre_ok:
  assumes "e \<in> set (fst (transmettre N r))" "leaves e"
  shows "\<exists>bytes cut. e = Sent bytes \<and> request_head r @ hr_body r = bytes @ cut"
  using assms append_take_drop_id [of _ "request_head r @ hr_body r"]
  by (auto simp: transmettre_def Let_def simp del: take_append split: upstream.splits if_splits)
    (metis append_take_drop_id)

lemma relayer_http_ok:
  assumes "e \<in> set (fst (relayer_http N r))" "leaves e"
  shows "(\<exists>p. e = Connected (hr_host r) p) \<or> e = Secured (hr_host r)
    \<or> (\<exists>bytes cut. e = Sent bytes \<and> request_head r @ hr_body r = bytes @ cut)"
  using assms transmettre_ok [of e N r]
  by (auto simp: relayer_http_def Let_def gave_up_def after_def split: if_splits)

lemma relayer_tunnel_ok:
  assumes "e \<in> set (fst (relayer_tunnel N r reste))" "leaves e"
  shows "(\<exists>p. e = Connected (hr_host r) p) \<or> (\<exists>bytes cut. e = Tunnelled bytes \<and> reste = bytes @ cut)"
  using assms
  by (auto simp: relayer_tunnel_def Let_def gave_up_def after_def split: if_splits upstream.splits)
    (metis append_take_drop_id)

lemma relayer_ok:
  assumes "e \<in> set (relayer N mission r reste)" "leaves e"
  shows "exit_ok N r reste e"
proof (cases "hr_method r = ''CONNECT''")
  case True
  then have "\<not> has_reference (hr_headers r)" "e \<in> set (fst (relayer_tunnel N r reste))"
    using assms journaled_inside by (auto simp: relayer_def with_journal_def split: if_splits option.splits)
  with relayer_tunnel_ok [OF this(2) assms(2)] True show ?thesis by auto
next
  case False
  obtain evs out where sub: "substituer N (hr_host r) (hr_headers r) = (evs, out)" by fastforce
  then obtain hs where hs: "out = Ok hs" "e \<in> set (fst (relayer_http N (r\<lparr>hr_headers := hs\<rparr>)))"
    using assms journaled_inside substituer_inside [OF sub] False
    by (auto simp: relayer_def with_journal_def Let_def split: sum.splits option.splits)
  from relayer_http_ok [OF this(2) assms(2)] show ?thesis using sub hs(1) False by auto
qed

lemma body_inside: "lire_le_corps r suite = Err evs \<Longrightarrow> e \<in> set evs \<Longrightarrow> \<not> leaves e"
  by (auto simp: lire_le_corps_def Let_def split: if_splits)

lemma servir_leaves:
  assumes "e \<in> set (servir X N)" "leaves e"
  obtains r reste t decision where "approved X N r reste t decision" "clean r"
    "servir X N = AskedCapd (hr_host r) (mutating X r) t # relayer N (as_str (field ''sub'' t)) r reste"
    "exit_ok N r reste e"
proof -
  from assms obtain tete suite where h1: "lire_la_tete [] (nt_input N) = Some (tete, suite)"
    by (cases "lire_la_tete [] (nt_input N)") (auto simp: servir_def)
  with assms obtain r0 where h2: "parse_request tete = Some r0"
    by (cases "parse_request tete") (auto simp: servir_def)
  note head = h1 h2
  with assms obtain r reste where body: "lire_le_corps r0 suite = Ok (r, reste)"
    using body_inside [of r0 suite] by (auto simp: servir_def split: sum.splits)
  note read = head body
  have out: "servir X N = trancher X N r reste" by (simp add: servir_def head body)
  from assms out obtain t where t: "jeton X (hr_headers r) = Some t"
    by (auto simp: trancher_def split: option.splits)
  from assms out t obtain d where d: "nt_capd N (check_params t (hr_host r) (mutating X r)) = Ok d"
    "field ''decision'' d = Some (JStr ''allow'')" "\<not> should_block (inspect default_thresholds r)"
    by (auto simp: trancher_def Let_def mutating_def refused_by_capd_def journaliser_def
        split: sum.splits if_splits option.splits)
  then have run: "servir X N = AskedCapd (hr_host r) (mutating X r) t # relayer N (as_str (field ''sub'' t)) r reste"
    unfolding out trancher_def Let_def t by (simp add: mutating_def)
  have "e \<in> set (relayer N (as_str (field ''sub'' t)) r reste)" using assms run by auto
  from relayer_ok [OF this assms(2)] show thesis
    using that [OF _ d(3) [unfolded not_blocked_clean] run] read t d(1,2) by (auto simp: approved_def)
qed

text \<open>And a request that is approved and clean is relayed.\<close>

lemma servir_approved:
  assumes "approved X N r reste t decision" "clean r"
  shows "servir X N = AskedCapd (hr_host r) (mutating X r) t # relayer N (as_str (field ''sub'' t)) r reste"
proof -
  have "\<not> should_block (inspect default_thresholds r)" using assms(2) by (simp add: not_blocked_clean)
  then show ?thesis
    using assms(1) by (auto simp: approved_def servir_def trancher_def Let_def mutating_def)
qed

text \<open>
  C35. Nothing leaves unapproved. Whatever the client sends and whoever answers, a connection, a byte
  sent or a tunnel in the trace of a request comes after the question to \<^verbatim>\<open>capd\<close> on the very host
  joined, with the token of the request and its effect, and the answer was to allow; no pattern of a
  known secret is in the target, the headers or the body; the bytes are those of the request that
  was judged, with the secrets put in last, and a tunnel carries no reference.
\<close>

theorem nothing_leaves_unapproved:
  assumes "e \<in> set (servir X N)" "leaves e"
  shows "\<exists>r reste t decision. approved X N r reste t decision \<and> clean r \<and> exit_ok N r reste e
    \<and> (\<exists>evs. servir X N = AskedCapd (hr_host r) (mutating X r) t # evs \<and> e \<in> set evs)"
  using assms
proof (cases rule: servir_leaves)
  case (1 r reste t decision)
  moreover have "e \<noteq> AskedCapd (hr_host r) (mutating X r) t" using assms(2) by auto
  ultimately show ?thesis using assms(1) by auto
qed

section \<open>With the capability service behind it\<close>

fun deny_name :: "deny_reason \<Rightarrow> string" where
  "deny_name Expired = ''expired''"
| "deny_name BadSignature = ''bad_signature''"
| "deny_name RevokedParent = ''revoked_parent''"
| "deny_name PolicyDenied = ''policy_denied''"
| "deny_name NoGrant = ''no_grant''"
| "deny_name ConstraintViolated = ''constraint_violated''"
| "deny_name ApprovalRequiredDeny = ''approval_required''"
| "deny_name UnknownVersion = ''unknown_version''"

text \<open>A decision as it is sent; the text of a rule is an argument.\<close>

fun decision_json :: "(deny_rule \<Rightarrow> string) \<Rightarrow> decision \<Rightarrow> json" where
  "decision_json text (Allow i) = JObj [(''decision'', JStr ''allow''), (''grant'', JInt (int i))]"
| "decision_json text (Deny reason rule) = JObj ([(''decision'', JStr ''deny''), (''reason'', JStr (deny_name reason))]
     @ (case rule of Some x \<Rightarrow> [(''rule'', JStr (text x))] | None \<Rightarrow> []))"

definition behind_capd :: "capd_env \<Rightarrow> (deny_rule \<Rightarrow> string) \<Rightarrow> capd \<Rightarrow> capd_call \<Rightarrow> network \<Rightarrow> bool" where
  "behind_capd E text s c N \<longleftrightarrow> (\<forall>p j. nt_capd N p = Ok j \<longrightarrow>
     (\<exists>s' d. capd_step E s (c\<lparr>cc_method := ''cap.check'', cc_params := p\<rparr>) = Some (s', Ok (AnsDecision d))
        \<and> j = decision_json text d))"

definition reads_net :: "capd_env \<Rightarrow> bool" where
  "reads_net E \<longleftrightarrow> ce_read_res E (JStr ''net'') = Some ResNet \<and> ce_read_act E (JStr ''egress'') = Some ActEgress"

lemma decision_allow: "field ''decision'' (decision_json text d) = Some (JStr ''allow'') \<longleftrightarrow> is_allow d"
  by (cases d) auto

definition exit_request :: "string \<Rightarrow> bool \<Rightarrow> check_request" where
  "exit_request host m = (check_request_new ResNet ActEgress host)\<lparr>cr_irreversible := m, cr_external := m\<rparr>"

lemma demande_exit: "reads_net E \<Longrightarrow> demande E (check_params t host m) = Ok (exit_request host m)"
  by (simp add: reads_net_def demande_def check_params_def lire_def texte_def Peers.and_then_def or_default_def
      Let_def exit_request_def check_request_new_def)

lemma capd_allows:
  assumes "reads_net E"
    and "capd_step E s (c\<lparr>cc_method := ''cap.check'', cc_params := check_params jt host m\<rparr>) = Some (s', Ok (AnsDecision (Allow i)))"
  obtains t B where "ce_read_token E jt = Some t"
    "check (ce_crypto E) (cd_broker s) t (exit_request host m) (cc_now c) = Some (B, Ok (Allow i))"
proof -
  from assms(2) have "cap_check E s (c\<lparr>cc_method := ''cap.check'', cc_params := check_params jt host m\<rparr>)
      = Some (s', Ok (AnsDecision (Allow i)))"
    by (auto simp: capd_step_def Let_def split: if_splits)
  then show ?thesis
    using that demande_exit [OF assms(1)]
    by (auto simp: cap_check_def Peers.and_then_def lire_def check_params_def split: sum.splits option.splits prod.splits)
qed

text \<open>
  C11. An exit needs a live grant. With the capability service as it is modelled behind the proxy and
  the shipped policies, whatever leaves was asked with a token whose digest the broker's key signed,
  that is neither revoked nor expired, and one of whose grants is a network exit whose domain covers
  the very host joined, without a need of approval; and the method is not one that changes a remote
  state, unless the administrator named the host.
\<close>

theorem exit_needs_grant:
  assumes "behind_capd E text s c N" "reads_net E"
    and "broker_inv (ce_crypto E) (cd_broker s)" "br_policy (cd_broker s) = default_engine"
    and "e \<in> set (servir X N)" "leaves e"
  shows "\<exists>r reste jt d t g. approved X N r reste jt d \<and> exit_ok N r reste e
    \<and> ce_read_token E jt = Some t
    \<and> (\<exists>h. token_digest (ce_crypto E) t = Ok h \<and> verified_digest (ce_crypto E) h)
    \<and> t_sub t \<notin> br_revoked (cd_broker s) \<and> cc_now c < t_exp t
    \<and> g \<in> set (t_grants t) \<and> g_res g = ResNet \<and> g_act g = ActEgress
    \<and> domain_matches (g_pattern g) (hr_host r) \<and> \<not> needs_approval g \<and> \<not> mutating X r"
  using assms(5,6)
proof (cases rule: servir_leaves)
  case (1 r reste jt decision)
  from 1(1) have ask: "nt_capd N (check_params jt (hr_host r) (mutating X r)) = Ok decision"
    "field ''decision'' decision = Some (JStr ''allow'')"
    by (auto simp: approved_def)
  then obtain s' i where "capd_step E s (c\<lparr>cc_method := ''cap.check'',
      cc_params := check_params jt (hr_host r) (mutating X r)\<rparr>) = Some (s', Ok (AnsDecision (Allow i)))"
    using assms(1) decision_allow unfolding behind_capd_def by (metis is_allow.elims(2))
  then obtain t B where t: "ce_read_token E jt = Some t" "check (ce_crypto E) (cd_broker s) t
      (exit_request (hr_host r) (mutating X r)) (cc_now c) = Some (B, Ok (Allow i))"
    by (rule capd_allows [OF assms(2)])
  from allowed_facts [OF assms(3,4) t(2)]
  have "grant_accepts (t_grants t ! i) (ResNet, ActEgress, context_for (cd_broker s) (exit_request (hr_host r) (mutating X r)))"
    "i < length (t_grants t)" "\<not> mutating X r" "t_sub t \<notin> br_revoked (cd_broker s)" "cc_now c < t_exp t"
    "\<exists>h. token_digest (ce_crypto E) t = Ok h \<and> verified_digest (ce_crypto E) h"
    by (auto simp: exit_request_def check_request_new_def)
  moreover from this(1) have "g_res (t_grants t ! i) = ResNet" "g_act (t_grants t ! i) = ActEgress"
    "domain_matches (g_pattern (t_grants t ! i)) (hr_host r)" "\<not> needs_approval (t_grants t ! i)"
    by (simp_all add: grant_accepts_def candidate.simps matches_def context_for_def exit_request_def
        check_request_new_def)
  ultimately show ?thesis using 1(1,4) t(1) nth_mem by blast
qed

section \<open>With the vault behind it\<close>

text \<open>What the proxy relies on of whoever holds the secrets: at the \<open>n\<close>-th question it allows a host,
  at the next it gives a value.\<close>

locale secret_oracle =
  fixes ask :: "nat \<Rightarrow> string \<Rightarrow> json \<Rightarrow> ipc_error + json"
    and permits :: "nat \<Rightarrow> string \<Rightarrow> string \<Rightarrow> bool"
    and gives :: "nat \<Rightarrow> string \<Rightarrow> string \<Rightarrow> bool"
  assumes allowed: "ask n ''secrets.allowed_for'' (host_param name host) = Ok j \<Longrightarrow>
      field ''allowed'' j = Some (JBool True) \<Longrightarrow> permits n name host"
    and given: "ask n ''secrets.use'' (JObj [(''name'', JStr name)]) = Ok j \<Longrightarrow>
      as_str (field ''value'' j) = Some v \<Longrightarrow> gives n name v"
begin

text \<open>A header as it leaves: unchanged, or with the value of a secret permitted for the host.\<close>

definition filled :: "string \<Rightarrow> string \<times> string \<Rightarrow> string \<times> string \<Rightarrow> bool" where
  "filled host old new \<longleftrightarrow> fst new = fst old \<and>
     (case reference_dans (snd old) of
        None \<Rightarrow> snd new = snd old
      | Some f \<Rightarrow> \<exists>n v. permits n (rf_name f) host \<and> gives (n + 1) (rf_name f) v \<and> snd new = remplacer_par f v)"

lemma substitute_filled:
  "nt_vault N = ask \<Longrightarrow> substitute_all N n host hs = (evs, Ok out) \<Longrightarrow> list_all2 (filled host) hs out"
proof (induction hs arbitrary: n evs out)
  case (Cons h hs)
  obtain nom val where h: "h = (nom, val)" by (cases h)
  show ?case
  proof (cases "reference_dans val")
    case None
    then obtain ev o2 where "substitute_all N n host hs = (ev, Ok o2)" "out = (nom, val) # o2"
      using Cons.prems(2) by (auto simp: h split: prod.splits) (metis (no_types, lifting) map_sum.simps sum.exhaust sum.inject(2) sum.simps(4))
    then show ?thesis using Cons.IH [OF Cons.prems(1)] None by (auto simp: h filled_def)
  next
    case (Some f)
    then obtain ev v ev' o2 where one: "substitute_one N n host f = (ev, Ok v)"
      and rest: "substitute_all N (n + 2) host hs = (ev', Ok o2)" "out = (nom, v) # o2"
      using Cons.prems(2)
      by (auto simp: h split: prod.splits sum.splits) (metis (no_types, lifting) map_sum.simps sum.exhaust sum.inject(2) sum.simps(4))
    from one have "\<exists>w. permits n (rf_name f) host \<and> gives (n + 1) (rf_name f) w \<and> v = remplacer_par f w"
      using allowed [of n "rf_name f" host] given [of "n + 1" "rf_name f"]
      by (auto simp: substitute_one_def Cons.prems(1) split: sum.splits if_splits option.splits)
    with Cons.IH [OF Cons.prems(1) rest(1)] Some show ?thesis by (auto simp: h filled_def rest(2))
  qed
qed simp

lemma substituer_filled:
  assumes "nt_vault N = ask" "substituer N host hs = (evs, Ok out)"
  shows "list_all2 (filled host) hs out"
proof (cases "has_reference hs")
  case True
  then show ?thesis using assms substitute_filled by (auto simp: substituer_def split: if_splits)
next
  case False
  then have "out = hs" "\<forall>h \<in> set hs. reference_dans (snd h) = None"
    using assms(2) by (auto simp: substituer_def has_reference_def list_ex_iff)
  then show ?thesis by (auto simp: filled_def list_all2_same)
qed

end

text \<open>The vault, in whatever state it is at each question: \<open>Vs n\<close>.\<close>

definition vault_view :: "vault_env \<Rightarrow> (nat \<Rightarrow> vault) \<Rightarrow> vault_call \<Rightarrow> nat \<Rightarrow> string \<Rightarrow> json \<Rightarrow> ipc_error + json" where
  "vault_view E Vs c n m p =
     (case vault_step E (Vs n) (c\<lparr>vl_method := m, vl_params := p\<rparr>) of
        None \<Rightarrow> Err (ipc_error_new EcInternalError [])
      | Some (_, Inl e) \<Rightarrow> Err (ipc_error_new (fst e) [])
      | Some (_, Inr j) \<Rightarrow> Ok j)"

interpretation vault_oracle: secret_oracle "vault_view E Vs c" "\<lambda>n name host. allowed_for (Vs n) name host"
    "\<lambda>n name v. vault_reveal (ve_crypto E) (Vs n) name = Some (Ok v)" for E Vs c
proof
  fix n name host j
  assume "vault_view E Vs c n ''secrets.allowed_for'' (host_param name host) = Ok j"
    "field ''allowed'' j = Some (JBool True)"
  then show "allowed_for (Vs n) name host"
    by (auto simp: vault_view_def vault_step_def Let_def allowed_call_def Peers.and_then_def texte_def host_param_def
        split: if_splits)
next
  fix n name j v
  assume "vault_view E Vs c n ''secrets.use'' (JObj [(''name'', JStr name)]) = Ok j"
    "as_str (field ''value'' j) = Some v"
  then show "vault_reveal (ve_crypto E) (Vs n) name = Some (Ok v)"
    by (auto simp: vault_view_def vault_step_def Let_def use_call_def texte_def split: if_splits option.splits sum.splits)
qed

text \<open>The two substitutions agree: asking the service, as the account of the proxy, gives the headers
  that the injector of the library gives over the same vault, and fails where it fails.\<close>

definition proxy_peer :: "vault_env \<Rightarrow> vault_call \<Rightarrow> bool" where
  "proxy_peer E c \<longleftrightarrow> autorise (vl_accounts c) (ve_pairs E) (vl_peer c) \<and> ve_uid_du_proxy E = Some (p_uid (vl_peer c))"

lemma view_allowed: "proxy_peer E c \<Longrightarrow>
    vault_view E Vs c n ''secrets.allowed_for'' (host_param name host) =
      Ok (JObj [(''allowed'', JBool (allowed_for (Vs n) name host))])"
  by (simp add: proxy_peer_def vault_view_def vault_step_def Let_def allowed_call_def Peers.and_then_def texte_def
      host_param_def)

lemma view_use: "proxy_peer E c \<Longrightarrow>
    vault_view E Vs c n ''secrets.use'' (JObj [(''name'', JStr name)]) =
      (case vault_reveal (ve_crypto E) (Vs n) name of
         Some (Inr v) \<Rightarrow> Ok (JObj [(''value'', JStr v)])
       | Some (Inl _) \<Rightarrow> Err (ipc_error_new EcNotFound [])
       | None \<Rightarrow> Err (ipc_error_new EcInternalError []))"
  by (simp add: proxy_peer_def vault_view_def vault_step_def Let_def use_call_def texte_def
      split: option.split sum.split)

lemma allowed_known: "allowed_for V name host \<Longrightarrow> vault_info V name \<noteq> None"
  by (auto simp: allowed_for_info split: option.splits)

lemma substitute_one_agrees:
  assumes "proxy_peer E c" "nt_vault N = vault_view E (\<lambda>_. V) c" "reference_dans val = Some f"
  shows "snd (substitute_one N n host f) = Ok v \<longleftrightarrow> substitute_value (ve_crypto E) V host val = Some (Ok v)"
  using allowed_known [of V "rf_name f" host]
  by (simp add: substitute_one_def substitute_value_def assms view_allowed view_use map_sum_def
      split: option.split sum.split) auto

lemma map_sum_Ok: "map_sum id g r = Ok y \<longleftrightarrow> (\<exists>x. r = Ok x \<and> y = g x)"
  by (cases r) auto

lemma substitutions_agree:
  assumes "proxy_peer E c" "nt_vault N = vault_view E (\<lambda>_. V) c"
  shows "snd (substitute_all N n host hs) = Ok out \<longleftrightarrow> inject (ve_crypto E) V host hs = Some (Ok out)"
proof (induction hs arbitrary: n out)
  case (Cons h hs)
  obtain nom val where h: "h = (nom, val)" by (cases h)
  show ?case
  proof (cases "reference_dans val")
    case None
    then show ?thesis using Cons.IH [of n]
      by (auto simp: h substitute_value_def case_prod_beta map_sum_Ok)
  next
    case (Some f)
    note one = substitute_one_agrees [OF assms Some, of n host]
    show ?thesis
    proof (cases "snd (substitute_one N n host f)")
      case (Inl e)
      then have "substitute_value (ve_crypto E) V host val \<noteq> Some (Ok w)" for w
        using one [of w] by simp
      with Inl Some show ?thesis by (auto simp: h split: prod.split option.splits sum.splits)
    next
      case (Inr v)
      then obtain ev where "substitute_one N n host f = (ev, Ok v)" by (metis prod.collapse)
      moreover have "substitute_value (ve_crypto E) V host val = Some (Ok v)" using one [of v] Inr by blast
      ultimately show ?thesis using Some Cons.IH [of "n + 2"]
        by (auto simp: h case_prod_beta map_sum_Ok)
    qed
  qed
qed simp

text \<open>
  C14. A secret leaves only to its hosts. With the vault as it is modelled behind the proxy, changing
  as it may between two questions, every byte sent is the request of the client in which each header
  is unchanged or has its reference replaced by the value the vault holds under that name, which
  answered just before that this secret may go to the very host joined. No header sent bears the name
  under which the proxy reads the capability token; a copy of the token elsewhere in the request is
  sent like any other text.
\<close>

theorem secrets_to_their_hosts:
  assumes "nt_vault N = vault_view E Vs c" "Sent bytes \<in> set (servir X N)"
  shows "\<exists>r reste t decision hs cut. approved X N r reste t decision
    \<and> request_head (r\<lparr>hr_headers := hs\<rparr>) @ hr_body r = bytes @ cut
    \<and> list_all2 (\<lambda>old new. fst new = fst old \<and> (case reference_dans (snd old) of
        None \<Rightarrow> snd new = snd old
      | Some f \<Rightarrow> \<exists>n v. allowed_for (Vs n) (rf_name f) (hr_host r)
          \<and> vault_reveal (ve_crypto E) (Vs (n + 1)) (rf_name f) = Some (Ok v)
          \<and> snd new = remplacer_par f v)) (hr_headers r) hs
    \<and> (\<forall>h \<in> set (entetes_sortants hs). \<not> eq_ignore_case (fst h) ENTETE_JETON)"
proof -
  have "leaves (Sent bytes)" by simp
  with assms(2) show ?thesis
  proof (cases rule: servir_leaves)
    case (1 r reste t decision)
    then obtain evs hs cut where hs: "substituer N (hr_host r) (hr_headers r) = (evs, Ok hs)"
      "request_head (r\<lparr>hr_headers := hs\<rparr>) @ hr_body r = bytes @ cut"
      by auto
    have "\<forall>h \<in> set (entetes_sortants hs). \<not> eq_ignore_case (fst h) ENTETE_JETON"
      by (auto simp: entetes_sortants_def)
    with 1(1) hs(2) vault_oracle.substituer_filled [OF assms(1) hs(1)] show ?thesis
      unfolding vault_oracle.filled_def by blast
  qed
qed

section \<open>Requests on which it is computed\<close>

definition CRLF :: string where
  "CRLF = [CHR 0x0D, CHR 0x0A]"

definition http_text :: "string list \<Rightarrow> string" where
  "http_text ls = concat (map (\<lambda>l. l @ CRLF) ls)"

definition plain_env :: exit_env where
  "plain_env = \<lparr>ex_decode64 = Some, ex_read_json = (\<lambda>s. Some (JObj [(''sub'', JStr s)])), ex_query_hosts = []\<rparr>"

text \<open>Everything is allowed and can be joined, the vault is down, the upstream says 200.\<close>

definition open_net :: "string list \<Rightarrow> network" where
  "open_net ls = \<lparr>nt_input = http_text ls, nt_capd = (\<lambda>_. Ok (JObj [(''decision'', JStr ''allow'')])),
     nt_vault_up = False, nt_vault = (\<lambda>_ _ _. Err (ipc_error_new EcNotFound [])), nt_joins = (\<lambda>_ _. True),
     nt_server_name = (\<lambda>_. True), nt_tls = (\<lambda>_. True), nt_upstream = UpAnswers (http_text [''HTTP/1.1 200 OK'']),
     nt_client_reads = True\<rparr>"

definition plain_get :: "string list" where
  "plain_get = [''GET http://a.fr/x HTTP/1.1'', ''Proxy-Authorization: Prophet t'', []]"

lemma no_body:
  assumes "hr_method r \<noteq> ''CONNECT''" "\<not> cadrage_ambigu (hr_headers r)" "header ''content-length'' (hr_headers r) = None"
  shows "lire_le_corps r suite = Ok (r\<lparr>hr_body := []\<rparr>, suite)"
  using assms by (simp add: lire_le_corps_def longueur_du_corps_def or_default_def)

text \<open>A request without body or reference, to a plain host, leaves at once.\<close>

definition plain_request :: "string list \<Rightarrow> http_request \<Rightarrow> json \<Rightarrow> bool" where
  "plain_request ls r t \<longleftrightarrow> lire_la_tete [] (http_text ls) = Some (http_text ls, [])
     \<and> parse_request (http_text ls) = Some r \<and> jeton plain_env (hr_headers r) = Some t \<and> clean r
     \<and> hr_method r \<noteq> ''CONNECT'' \<and> \<not> cadrage_ambigu (hr_headers r)
     \<and> header ''content-length'' (hr_headers r) = None \<and> hr_body r = [] \<and> \<not> is_https (hr_target r)"

lemma plain_approved:
  assumes "plain_request ls r t" "nt_input N = http_text ls"
    and "nt_capd N (check_params t (hr_host r) (mutating plain_env r)) = Ok d"
    and "field ''decision'' d = Some (JStr ''allow'')"
  shows "approved plain_env N r [] t d \<and> servir plain_env N = AskedCapd (hr_host r) (mutating plain_env r) t #
      relayer N (as_str (field ''sub'' t)) r []"
proof -
  have "lire_le_corps r suite = Ok (r, suite)" for suite
    using no_body [of r suite] assms(1) by (simp add: plain_request_def)
  then have "approved plain_env N r [] t d"
    using assms by (auto simp: plain_request_def approved_def)
  with servir_approved [OF this] assms(1) show ?thesis by (simp add: plain_request_def)
qed

lemma open_exit:
  assumes "plain_request ls r t" "\<not> has_reference (hr_headers r)"
  shows "filter leaves (servir plain_env (open_net ls)) =
     [Connected (hr_host r) (port_de (hr_target r) 80), Sent (request_head r)]"
proof -
  have "servir plain_env (open_net ls) = AskedCapd (hr_host r) (mutating plain_env r) t #
      relayer (open_net ls) (as_str (field ''sub'' t)) r []"
    using plain_approved [OF assms(1), of "open_net ls"] by (auto simp: open_net_def)
  moreover have "filter leaves (journaliser_la_sortie m r b) = []" for m r b
    using journaled_inside by (auto simp: filter_empty_conv)
  ultimately show ?thesis
    using assms by (simp add: plain_request_def relayer_def substituer_def with_journal_def relayer_http_def
        transmettre_def after_def open_net_def Let_def)
qed

definition token_header :: "string \<times> string" where
  "token_header = (''Proxy-Authorization'', ''Prophet t'')"

definition get_request :: "string \<Rightarrow> string \<Rightarrow> headers \<Rightarrow> http_request" where
  "get_request target host hs = \<lparr>hr_method = ''GET'', hr_target = target, hr_host = host,
     hr_headers = token_header # hs, hr_body = []\<rparr>"

lemma plain_get_request:
  "plain_request plain_get (get_request ''http://a.fr/x'' ''a.fr'' []) (JObj [(''sub'', JStr ''t'')])"
  unfolding plain_request_def by (intro conjI; code_simp)

lemma plain_exit:
  "filter leaves (servir plain_env (open_net plain_get)) =
     [Connected ''a.fr'' 80, Sent (http_text [''GET /x HTTP/1.1'', []])]"
  by (rule open_exit [OF plain_get_request, THEN trans]) code_simp+

theorem nothing_leaves_unapproved_witness:
  "\<exists>r reste t decision. approved plain_env (open_net plain_get) r reste t decision \<and> clean r
     \<and> Connected ''a.fr'' 80 \<in> set (servir plain_env (open_net plain_get)) \<and> hr_host r = ''a.fr''"
proof -
  have "Connected ''a.fr'' 80 \<in> set (filter leaves (servir plain_env (open_net plain_get)))"
    unfolding plain_exit by simp
  then have e: "Connected ''a.fr'' 80 \<in> set (servir plain_env (open_net plain_get))" "leaves (Connected ''a.fr'' 80)"
    by auto
  from nothing_leaves_unapproved [OF e] obtain r reste t decision where
    "approved plain_env (open_net plain_get) r reste t decision" "clean r"
    "exit_ok (open_net plain_get) r reste (Connected ''a.fr'' 80)"
    by blast
  with e(1) show ?thesis by auto
qed

text \<open>A service with a token for one host, and the vault of one secret, behind the proxy.\<close>

definition net_token :: token where
  "net_token = (case token_build demo_crypto
       (sales_builder\<lparr>b_grants := [grant_new ResNet ActEgress ''a.fr'']\<rparr>) 0 ''n'' of
     Inr t \<Rightarrow> t | Inl _ \<Rightarrow> sales_token)"

definition net_env :: capd_env where
  "net_env = door_env\<lparr>ce_read_token := (\<lambda>_. Some net_token), ce_read_res := (\<lambda>_. Some ResNet),
     ce_read_act := (\<lambda>_. Some ActEgress)\<rparr>"

definition net_call :: capd_call where
  "net_call = (human_call ''cap.check'' JNull 10)\<lparr>cc_peer := \<lparr>p_uid = 77, p_gid = 5, p_pid = None\<rparr>\<rparr>"

definition net_state :: capd where
  "net_state = \<lparr>cd_broker = broker_new ''capd'' ''/home/u'',
     cd_presence = \<lparr>ps_fichier = True, ps_empreinte = None, ps_echecs = 0, ps_verrou = None, ps_tickets = []\<rparr>,
     cd_code_file = \<lparr>kp_main = None, kp_tmp = None\<rparr>, cd_queue_file = \<lparr>kp_main = None, kp_tmp = None\<rparr>,
     cd_registry = None\<rparr>"

definition granted_net :: network where
  "granted_net = (open_net plain_get)\<lparr>nt_capd := (\<lambda>p.
     case capd_step net_env net_state (net_call\<lparr>cc_method := ''cap.check'', cc_params := p\<rparr>) of
       Some (_, Inr (AnsDecision d)) \<Rightarrow> Ok (decision_json (\<lambda>_. []) d)
     | _ \<Rightarrow> Err (ipc_error_new EcInternalError []))\<rparr>"

lemma granted_behind: "behind_capd net_env (\<lambda>_. []) net_state net_call granted_net"
  unfolding behind_capd_def granted_net_def
  by (auto split: option.splits prod.splits sum.splits capd_answer.splits)

lemma granted_allows:
  "nt_capd granted_net (check_params (JObj [(''sub'', JStr ''t'')]) ''a.fr'' False) = Ok (decision_json (\<lambda>_. []) (Allow 0))"
  by code_simp

theorem exit_needs_grant_witness:
  "\<exists>r reste jt d t g. approved plain_env granted_net r reste jt d \<and> ce_read_token net_env jt = Some t
     \<and> g \<in> set (t_grants t) \<and> g_res g = ResNet \<and> domain_matches (g_pattern g) (hr_host r)
     \<and> Connected ''a.fr'' 80 \<in> set (servir plain_env granted_net)"
proof -
  let ?r = "get_request ''http://a.fr/x'' ''a.fr'' []" and ?t = "JObj [(''sub'', JStr ''t'')]"
  have r: "hr_host ?r = ''a.fr''" "\<not> mutating plain_env ?r" by code_simp+
  have "nt_input granted_net = http_text plain_get" by (simp add: granted_net_def open_net_def)
  from plain_approved [OF plain_get_request this] granted_allows r
  have run: "servir plain_env granted_net = AskedCapd (hr_host ?r) (mutating plain_env ?r) ?t #
      relayer granted_net (as_str (field ''sub'' ?t)) ?r []"
    by simp
  have "hr_method ?r \<noteq> ''CONNECT''" "\<not> has_reference (hr_headers ?r)" "port_de (hr_target ?r) 80 = 80"
    "\<not> is_https (hr_target ?r)"
    by code_simp+
  then have e: "Connected ''a.fr'' 80 \<in> set (servir plain_env granted_net)" "leaves (Connected ''a.fr'' 80)"
    unfolding run using r(1)
    by (auto simp: relayer_def substituer_def with_journal_def relayer_http_def after_def granted_net_def open_net_def
      Let_def)
  have "reads_net net_env" "broker_inv (ce_crypto net_env) (cd_broker net_state)"
    "br_policy (cd_broker net_state) = default_engine"
    by (simp_all add: reads_net_def net_env_def net_state_def broker_inv_new) (simp add: broker_new_def)
  from exit_needs_grant [OF granted_behind this e] e(1) show ?thesis by blast
qed

definition filled_box :: vault where
  "filled_box = fst (vault_put boxed NoFault (replicate NONCE_LENGTH CHR ''n'') empty_box
     \<lparr>si_name = ''github'', si_domains = [''api.github.com''], si_header = ''Authorization'', si_description = []\<rparr>
     ''one'')"

definition secret_get :: "string list" where
  "secret_get = [''GET http://api.github.com/x HTTP/1.1'', ''Proxy-Authorization: Prophet t'',
     ''Authorization: Bearer prophet-secret:github'', []]"

definition vault_net :: network where
  "vault_net = (open_net secret_get)\<lparr>nt_vault_up := True, nt_vault := vault_view box_env (\<lambda>_. filled_box) box_use\<rparr>"

theorem secrets_to_their_hosts_witness:
  "\<exists>r reste t decision hs cut. approved plain_env vault_net r reste t decision
     \<and> Sent (http_text [''GET /x HTTP/1.1'', ''Authorization: Bearer one'', []]) \<in> set (servir plain_env vault_net)
     \<and> request_head (r\<lparr>hr_headers := hs\<rparr>) @ hr_body r =
         http_text [''GET /x HTTP/1.1'', ''Authorization: Bearer one'', []] @ cut"
proof -
  let ?h = "[(''Authorization'', ''Bearer prophet-secret:github'')]"
  let ?r = "get_request ''http://api.github.com/x'' ''api.github.com'' ?h" and ?t = "JObj [(''sub'', JStr ''t'')]"
  let ?b = "http_text [''GET /x HTTP/1.1'', ''Authorization: Bearer one'', []]"
  have "plain_request secret_get ?r ?t"
    unfolding plain_request_def by (intro conjI; code_simp)
  moreover have "nt_input vault_net = http_text secret_get" "nt_capd vault_net p = Ok (JObj [(''decision'', JStr ''allow'')])" for p
    by (simp_all add: vault_net_def open_net_def)
  ultimately have run: "servir plain_env vault_net = AskedCapd (hr_host ?r) (mutating plain_env ?r) ?t #
      relayer vault_net (as_str (field ''sub'' ?t)) ?r []"
    using plain_approved by simp
  have sub: "snd (substituer vault_net ''api.github.com'' (hr_headers ?r)) =
      Ok [token_header, (''Authorization'', ''Bearer one'')]"
    by code_simp
  have r: "hr_host ?r = ''api.github.com''" "hr_method ?r \<noteq> ''CONNECT''" "hr_body ?r = []" "\<not> is_https (hr_target ?r)"
    "request_head (?r\<lparr>hr_headers := [token_header, (''Authorization'', ''Bearer one'')]\<rparr>) = ?b"
    by code_simp+
  obtain evs where "substituer vault_net (hr_host ?r) (hr_headers ?r) = (evs, Ok [token_header, (''Authorization'', ''Bearer one'')])"
    using sub r(1) by (metis prod.collapse)
  then have e: "Sent ?b \<in> set (servir plain_env vault_net)"
    unfolding run using r
    by (simp add: relayer_def with_journal_def relayer_http_def after_def transmettre_def vault_net_def open_net_def Let_def)
  have "nt_vault vault_net = vault_view box_env (\<lambda>_. filled_box) box_use" by (simp add: vault_net_def)
  from secrets_to_their_hosts [OF this e] e show ?thesis by blast
qed

section \<open>What the rules do not stop\<close>

definition LF :: string where
  "LF = [CHR 0x0A]"

text \<open>A line feed alone hides a header from the check of the framing and is sent as it is.\<close>

lemma bare_line_feed_hides_framing:
  "filter leaves (servir plain_env (open_net [''GET http://a.fr/x HTTP/1.1'', ''Proxy-Authorization: Prophet t'',
       ''X: a'' @ LF @ ''Transfer-Encoding: chunked'', []])) =
     [Connected ''a.fr'' 80,
      Sent (http_text [''GET /x HTTP/1.1'', ''X: a'' @ LF @ ''Transfer-Encoding: chunked'', []])]"
proof -
  have "plain_request [''GET http://a.fr/x HTTP/1.1'', ''Proxy-Authorization: Prophet t'',
       ''X: a'' @ LF @ ''Transfer-Encoding: chunked'', []]
     (get_request ''http://a.fr/x'' ''a.fr'' [(''X'', ''a'' @ LF @ ''Transfer-Encoding: chunked'')])
     (JObj [(''sub'', JStr ''t'')])"
    unfolding plain_request_def by (intro conjI; code_simp)
  then show ?thesis by (rule open_exit [THEN trans]) code_simp+
qed

text \<open>The same scheme in capitals goes in clear.\<close>

lemma upper_case_scheme_in_clear:
  "filter leaves (servir plain_env (open_net [''GET HTTPS://a.fr/x HTTP/1.1'', ''Proxy-Authorization: Prophet t'', []])) =
     [Connected ''a.fr'' 80, Sent (http_text [''GET /x HTTP/1.1'', []])]"
proof -
  have "plain_request [''GET HTTPS://a.fr/x HTTP/1.1'', ''Proxy-Authorization: Prophet t'', []]
     (get_request ''HTTPS://a.fr/x'' ''a.fr'' []) (JObj [(''sub'', JStr ''t'')])"
    unfolding plain_request_def by (intro conjI; code_simp)
  then show ?thesis by (rule open_exit [THEN trans]) code_simp+
qed

text \<open>The host judged and joined is that of the target; the server is asked for another.\<close>

lemma other_host_named:
  "filter leaves (servir plain_env (open_net [''GET http://a.fr/x HTTP/1.1'', ''Proxy-Authorization: Prophet t'',
       ''Host: b.fr'', []])) =
     [Connected ''a.fr'' 80, Sent (http_text [''GET /x HTTP/1.1'', ''Host: b.fr'', []])]"
proof -
  have "plain_request [''GET http://a.fr/x HTTP/1.1'', ''Proxy-Authorization: Prophet t'', ''Host: b.fr'', []]
     (get_request ''http://a.fr/x'' ''a.fr'' [(''Host'', ''b.fr'')]) (JObj [(''sub'', JStr ''t'')])"
    unfolding plain_request_def by (intro conjI; code_simp)
  then show ?thesis by (rule open_exit [THEN trans]) code_simp+
qed

text \<open>The policy of the library refuses a literal address, the service joins it.\<close>

lemma literal_address_leaves:
  "exit_evaluate \<lparr>ep_allowed_hosts = [''*''], ep_allowed_methods = [], ep_max_bytes_out = None,
       ep_approval_for_mutations = True\<rparr> ''127.0.0.1'' ''GET'' 0 = VDeny LiteralAddress
   \<and> filter leaves (servir plain_env (open_net [''GET http://127.0.0.1/x HTTP/1.1'',
       ''Proxy-Authorization: Prophet t'', []])) =
       [Connected ''127.0.0.1'' 80, Sent (http_text [''GET /x HTTP/1.1'', []])]"
proof
  show "exit_evaluate \<lparr>ep_allowed_hosts = [''*''], ep_allowed_methods = [], ep_max_bytes_out = None,
      ep_approval_for_mutations = True\<rparr> ''127.0.0.1'' ''GET'' 0 = VDeny LiteralAddress"
    by code_simp
  have "plain_request [''GET http://127.0.0.1/x HTTP/1.1'', ''Proxy-Authorization: Prophet t'', []]
     (get_request ''http://127.0.0.1/x'' ''127.0.0.1'' []) (JObj [(''sub'', JStr ''t'')])"
    unfolding plain_request_def by (intro conjI; code_simp)
  then show "filter leaves (servir plain_env (open_net [''GET http://127.0.0.1/x HTTP/1.1'',
      ''Proxy-Authorization: Prophet t'', []])) =
      [Connected ''127.0.0.1'' 80, Sent (http_text [''GET /x HTTP/1.1'', []])]"
    by (rule open_exit [THEN trans]) code_simp+
qed

text \<open>A client that does not read its answer leaves no trace of an exit that took place.\<close>

lemma client_gone_no_trace:
  assumes "\<not> nt_client_reads N"
  shows "(\<exists>bytes. Sent bytes \<in> set (fst (transmettre N r)))
    \<and> Journaled mission ''net.request'' payload \<notin> set (servir X N)"
proof
  show "\<exists>bytes. Sent bytes \<in> set (fst (transmettre N r))"
    using assms by (auto simp: transmettre_def Let_def split: upstream.split)
  have none: "snd (relayer_http N r) = None" "snd (relayer_tunnel N r reste) = None" for r reste
    using assms by (auto simp: relayer_http_def relayer_tunnel_def transmettre_def gave_up_def after_def Let_def
        split: upstream.splits)
  have http: "Journaled m k p \<notin> set (fst (relayer_http N r))" "Journaled m k p \<notin> set (fst (relayer_tunnel N r reste))"
    for m k p r reste
    using assms by (auto simp: relayer_http_def relayer_tunnel_def transmettre_def gave_up_def after_def Let_def
        split: upstream.splits)
  have sub: "Journaled m k p \<notin> set (fst (substitute_all N n host hs))" for m k p n host hs
    by (induction N n host hs rule: substitute_all.induct)
      (fastforce simp: substitute_one_def split: option.splits prod.splits sum.splits if_splits)+
  have sub': "Journaled m k p \<notin> set evs" if "substituer N host hs = (evs, out)" for m k p host hs evs out
    using that sub [of m k p 0 host hs] by (auto simp: substituer_def split: if_splits)
  have "Journaled m k p \<notin> set (relayer N mission' r reste)" for m k p mission' r reste
    using none http by (auto simp: relayer_def with_journal_def Let_def dest: sub' [OF sym]
        split: if_splits sum.splits prod.splits)
  then show "Journaled mission ''net.request'' payload \<notin> set (servir X N)"
    by (auto simp: servir_def lire_le_corps_def trancher_def refused_by_capd_def journaliser_def Let_def
        split: option.splits sum.splits if_splits)
qed

end
