(* ===== verification/Mcp_Registry.thy ===== *)
theory Mcp_Registry
  imports Broker Ledger_Event Peers Utf8_Text
begin

text \<open>
  The registry of tools (\<^verbatim>\<open>crates/mcp-system/src/registry.rs\<close>, \<^verbatim>\<open>protocol.rs\<close>): the one way from a
  call of an agent to the code of a tool. The trait objects of the code are arguments: the authority
  and the journal are the fields of \<open>services\<close>, over a world of type \<open>'w\<close> that they change, a tool is
  a record of functions. A routine gives the world it leaves, the list of what the registry did, in
  order, and how it ended. \<open>NeverReturns\<close> is a panic, or a wait without end, in what it calls. The
  texts of errors are not modelled, except the scopes and the approval they name.
\<close>

section \<open>Descriptions and results\<close>

record tool_meta =
  tm_requires :: string
  tm_irreversible :: bool
  tm_external :: bool
  tm_sandbox_level_min :: "nat option"

record tool_context =
  tc_token :: token
  tc_task :: string
  tc_home :: string
  tc_workdir :: string
  tc_sandbox_level :: nat
  tc_step :: nat

datatype error_code = CodePolicyDenied | CodeApprovalRequired | CodeNotFound | CodeSandboxError
  | CodeBudgetExceeded | CodeInvalid | CodeInternal

fun error_code_as_str :: "error_code \<Rightarrow> string" where
  "error_code_as_str CodePolicyDenied = ''PolicyDenied''"
| "error_code_as_str CodeApprovalRequired = ''ApprovalRequired''"
| "error_code_as_str CodeNotFound = ''NotFound''"
| "error_code_as_str CodeSandboxError = ''SandboxError''"
| "error_code_as_str CodeBudgetExceeded = ''BudgetExceeded''"
| "error_code_as_str CodeInvalid = ''Invalid''"
| "error_code_as_str CodeInternal = ''Internal''"

text \<open>What the text of an error names: the scopes of the token, the identifier and summary of a
  request to the human.\<close>

record error_detail =
  ed_scopes :: "string list"
  ed_approval :: "(string \<times> string) option"

definition plain :: error_detail where
  "plain = \<lparr>ed_scopes = [], ed_approval = None\<rparr>"

datatype call_result = CrStructured json | CrText string | CrError error_code error_detail

fun is_error :: "call_result \<Rightarrow> bool" where
  "is_error (CrError _ _) = True"
| "is_error _ = False"

text \<open>The member \<^verbatim>\<open>code\<close> of the structured content, for the journal.\<close>

fun result_code :: "call_result \<Rightarrow> string option" where
  "result_code (CrStructured v) = as_str (field ''code'' v)"
| "result_code (CrText _) = None"
| "result_code (CrError c _) = Some (error_code_as_str c)"

section \<open>Tools, services, routines\<close>

text \<open>The code of a tool, seen from the registry: it ends, or it asks for one more path on the way,
  some time after its start.\<close>

datatype tool_code = Return call_result | AskPath int act string "bool \<Rightarrow> tool_code"

record tool =
  tl_meta :: "tool_meta option"
  tl_target :: "json \<Rightarrow> tool_context \<Rightarrow> string option"
  tl_effects :: "json \<Rightarrow> tool_meta \<Rightarrow> bool \<times> bool"
  tl_code :: "json \<Rightarrow> tool_context \<Rightarrow> tool_code"

text \<open>The default of \<open>Tool::effects\<close>.\<close>

definition default_effects :: "json \<Rightarrow> tool_meta \<Rightarrow> bool \<times> bool" where
  "default_effects args meta = (tm_irreversible meta, tm_external meta)"

type_synonym tools = "(string, tool) amap"

text \<open>The authority, the journal (\<open>False\<close>: the event was not taken), the clock in milliseconds, a pause
  of half a second during which the others go on; the texts third-party code makes of a value.\<close>

record 'w services =
  sv_check :: "'w \<Rightarrow> token \<Rightarrow> check_request \<Rightarrow> instant \<Rightarrow> ('w \<times> decision) option"
  sv_request :: "'w \<Rightarrow> token \<Rightarrow> check_request \<Rightarrow> string \<Rightarrow> instant \<Rightarrow> ('w \<times> approval option) option"
  sv_status :: "'w \<Rightarrow> string \<Rightarrow> approval option"
  sv_explain :: "'w \<Rightarrow> string \<Rightarrow> string \<Rightarrow> 'w"
  sv_record :: "'w \<Rightarrow> draft \<Rightarrow> 'w \<times> bool"
  sv_clock :: "'w \<Rightarrow> nat"
  sv_pause :: "'w \<Rightarrow> 'w"
  sv_text :: "json \<Rightarrow> string"
  sv_blake3 :: "string \<Rightarrow> string"
  sv_debug :: "string \<Rightarrow> string"
  sv_result_digest :: "call_result \<Rightarrow> string"

datatype tool_event =
    Judged token check_request instant decision
  | AskedHuman token check_request "approval option"
  | Recorded draft bool
  | Ran string json tool_context

datatype 'a ending = Gives 'a | JournalFailed | NeverReturns

type_synonym ('w, 'a) routine = "'w \<Rightarrow> 'w \<times> tool_event list \<times> 'a ending"

definition give :: "'a \<Rightarrow> ('w, 'a) routine" where
  "give a w = (w, [], Gives a)"

definition then_do :: "('w, 'a) routine \<Rightarrow> ('a \<Rightarrow> ('w, 'b) routine) \<Rightarrow> ('w, 'b) routine" where
  "then_do m f w =
     (case m w of
        (w1, es, Gives a) \<Rightarrow> (case f a w1 of (w2, es2, r) \<Rightarrow> (w2, es @ es2, r))
      | (w1, es, JournalFailed) \<Rightarrow> (w1, es, JournalFailed)
      | (w1, es, NeverReturns) \<Rightarrow> (w1, es, NeverReturns))"

definition judge :: "'w services \<Rightarrow> token \<Rightarrow> check_request \<Rightarrow> instant \<Rightarrow> ('w, decision) routine" where
  "judge S t q now w =
     (case sv_check S w t q now of
        None \<Rightarrow> (w, [], NeverReturns)
      | Some (w', d) \<Rightarrow> (w', [Judged t q now d], Gives d))"

definition ask_human :: "'w services \<Rightarrow> token \<Rightarrow> check_request \<Rightarrow> string \<Rightarrow> instant
    \<Rightarrow> ('w, approval option) routine" where
  "ask_human S t q summary now w =
     (case sv_request S w t q summary now of
        None \<Rightarrow> (w, [], NeverReturns)
      | Some (w', a) \<Rightarrow> (w', [AskedHuman t q a], Gives a))"

definition record_event :: "'w services \<Rightarrow> draft \<Rightarrow> ('w, unit) routine" where
  "record_event S d w =
     (case sv_record S w d of (w', ok) \<Rightarrow> (w', [Recorded d ok], if ok then Gives () else JournalFailed))"

section \<open>Events\<close>

definition actor_mcp :: "string \<Rightarrow> string" where
  "actor_mcp name = ''mcp:'' @ name"

definition of_task :: "tool_context \<Rightarrow> draft \<Rightarrow> draft" where
  "of_task C d = d\<lparr>d_task := Some (tc_task C), d_step := Some (tc_step C)\<rparr>"

definition opt_str :: "string option \<Rightarrow> json" where
  "opt_str x = (case x of None \<Rightarrow> JNull | Some s \<Rightarrow> JStr s)"

definition digest :: "'w services \<Rightarrow> json \<Rightarrow> string" where
  "digest S v = ''blake3:'' @ sv_blake3 S (sv_text S v)"

definition call_draft :: "'w services \<Rightarrow> string \<Rightarrow> tool_meta \<Rightarrow> string option \<Rightarrow> json \<Rightarrow> tool_context \<Rightarrow> instant
    \<Rightarrow> draft" where
  "call_draft S name meta target args C now =
     of_task C (draft_new now (actor_mcp name) ToolCall
       (JObj [(''tool'', JStr name), (''target'', opt_str target), (''args_digest'', JStr (digest S args)),
          (''args_size'', JInt (int (length (sv_text S args)))), (''requires'', JStr (tm_requires meta))]))"

fun deny_debug :: "deny_reason \<Rightarrow> string" where
  "deny_debug Expired = ''Expired''"
| "deny_debug BadSignature = ''BadSignature''"
| "deny_debug RevokedParent = ''RevokedParent''"
| "deny_debug PolicyDenied = ''PolicyDenied''"
| "deny_debug NoGrant = ''NoGrant''"
| "deny_debug ConstraintViolated = ''ConstraintViolated''"
| "deny_debug ApprovalRequiredDeny = ''ApprovalRequired''"
| "deny_debug UnknownVersion = ''UnknownVersion''"

fun rule_text :: "deny_rule \<Rightarrow> string" where
  "rule_text (GrantRule i) = ''grant#'' @ show_nat i"
| "rule_text (ActionRule s) = s"

text \<open>The rule of a refusal by the human, in UTF-8.\<close>

definition HUMAN_RULE :: string where
  "HUMAN_RULE = ''d'' @ [CHR 0xC3, CHR 0xA9] @ ''cision humaine''"

definition deny_draft :: "'w services \<Rightarrow> string \<Rightarrow> tool_meta \<Rightarrow> deny_reason \<Rightarrow> deny_rule option \<Rightarrow> tool_context
    \<Rightarrow> instant \<Rightarrow> draft" where
  "deny_draft S name meta reason rule C now =
     of_task C (draft_new now ''capd'' PolicyDeny
       (JObj [(''res'', JStr (sv_debug S (tm_requires meta))), (''act'', JStr ''call''), (''tool'', JStr name),
          (''reason'', JStr (deny_debug reason)), (''rule'', opt_str (map_option rule_text rule))]))"

definition asked_draft :: "string \<Rightarrow> approval \<Rightarrow> tool_context \<Rightarrow> instant \<Rightarrow> draft" where
  "asked_draft name a C now =
     of_task C (draft_new now ''capd'' ApprovalRequested
       (JObj [(''approval'', JStr (a_id a)), (''tool'', JStr name), (''action'', JStr (a_action a)),
          (''target'', JStr (a_target a)), (''summary'', JStr (a_summary a))]))"

definition result_draft :: "'w services \<Rightarrow> string \<Rightarrow> call_result \<Rightarrow> tool_context \<Rightarrow> instant \<Rightarrow> draft" where
  "result_draft S name r C now =
     of_task C (draft_new now (actor_mcp name) ToolResult
       (JObj [(''tool'', JStr name), (''ok'', JBool (\<not> is_error r)), (''error_code'', opt_str (result_code r)),
          (''result_digest'', JStr (sv_result_digest S r))]))"

definition record_result :: "'w services \<Rightarrow> string \<Rightarrow> call_result \<Rightarrow> tool_context \<Rightarrow> instant
    \<Rightarrow> ('w, call_result) routine" where
  "record_result S name r C now =
     then_do (record_event S (result_draft S name r C now)) (\<lambda>_. give r)"

section \<open>Where a mission may act\<close>

fun trim_end_str :: "string \<Rightarrow> string \<Rightarrow> nat \<Rightarrow> string" where
  "trim_end_str suffix s 0 = s"
| "trim_end_str suffix s (Suc n) =
     (case strip_suffix suffix s of None \<Rightarrow> s | Some s' \<Rightarrow> trim_end_str suffix s' n)"

text \<open>\<open>trim_end_matches\<close> with a text: it strips at most as many times as there are characters.\<close>

definition trim_end_text :: "string \<Rightarrow> string \<Rightarrow> string" where
  "trim_end_text suffix s = trim_end_str suffix s (length s)"

definition scope_of :: "string \<Rightarrow> grant \<Rightarrow> string" where
  "scope_of home g =
     (let pattern = trim_end_text ''/*'' (trim_end_text ''/**'' (g_pattern g))
      in case strip_prefix home pattern of
           Some rest \<Rightarrow> if home \<noteq> [] then ''~'' @ rest else pattern
         | None \<Rightarrow> pattern)"

fun push_new :: "string list \<Rightarrow> string list \<Rightarrow> string list" where
  "push_new acc [] = acc"
| "push_new acc (x # xs) = push_new (if x \<in> set acc then acc else acc @ [x]) xs"

definition with_scopes :: "error_detail \<Rightarrow> tool_context \<Rightarrow> error_detail" where
  "with_scopes e C =
     (let home = trim_end_matches CHR ''/'' (tc_home C)
      in e\<lparr>ed_scopes := push_new []
           (map (scope_of home) (filter (\<lambda>g. g_res g = ResFs) (t_grants (tc_token C))))\<rparr>)"

section \<open>Authorising a call\<close>

definition parse_requires :: "string \<Rightarrow> (res \<times> act) option" where
  "parse_requires requires = (case parse_capability_key requires of Inl _ \<Rightarrow> None | Inr p \<Rightarrow> Some p)"

definition required_level_for :: "string \<Rightarrow> nat option \<Rightarrow> nat" where
  "required_level_for program requested =
     (let base = (if is_safe_utility program then 0 else 2)
      in case requested of None \<Rightarrow> base | Some asked \<Rightarrow> max asked base)"

definition with_effects :: "bool \<times> bool \<Rightarrow> check_request \<Rightarrow> check_request" where
  "with_effects e q = q\<lparr>cr_irreversible := fst e, cr_external := snd e\<rparr>"

definition call_request :: "string \<Rightarrow> tool \<Rightarrow> tool_meta \<Rightarrow> json \<Rightarrow> tool_context \<Rightarrow> check_request" where
  "call_request name tool meta args C = with_effects (tl_effects tool args meta)
     ((check_request_new ResTool ActCall name)\<lparr>cr_sandbox_level := tc_sandbox_level C\<rparr>)"

text \<open>\<open>v as u8\<close> keeps the low byte.\<close>

definition resource_level :: "res \<Rightarrow> act \<Rightarrow> string \<Rightarrow> json \<Rightarrow> tool_context \<Rightarrow> nat" where
  "resource_level r a target args C =
     (if (r, a) = (ResProc, ActExec)
      then max (tc_sandbox_level C)
             (required_level_for target (map_option (\<lambda>v. v mod 256) (as_u64 (field ''level'' args))))
      else tc_sandbox_level C)"

definition resource_request :: "res \<Rightarrow> act \<Rightarrow> string \<Rightarrow> tool \<Rightarrow> tool_meta \<Rightarrow> json \<Rightarrow> tool_context
    \<Rightarrow> check_request" where
  "resource_request r a target tool meta args C = with_effects (tl_effects tool args meta)
     ((check_request_new r a target)\<lparr>cr_sandbox_level := resource_level r a target args C\<rparr>)"

definition admissible :: "tool_meta \<Rightarrow> res \<times> act \<Rightarrow> tool_context \<Rightarrow> bool" where
  "admissible meta ra C \<longleftrightarrow> tc_task C = t_sub (tc_token C) \<and> tc_sandbox_level C \<le> 2
     \<and> (case tm_sandbox_level_min meta of None \<Rightarrow> True | Some m \<Rightarrow> m \<le> tc_sandbox_level C)
     \<and> (fst ra = ResTool \<longrightarrow> snd ra = ActCall)"

definition authorize :: "'w services \<Rightarrow> tools \<Rightarrow> string \<Rightarrow> tool_meta \<Rightarrow> json \<Rightarrow> tool_context \<Rightarrow> instant
    \<Rightarrow> ('w, decision \<times> check_request option) routine" where
  "authorize S T name meta args C now =
     (case parse_requires (tm_requires meta) of
        None \<Rightarrow> give (deny PolicyDenied, None)
      | Some (r, a) \<Rightarrow>
          if \<not> admissible meta (r, a) C then give (deny PolicyDenied, None)
          else case map_of T name of
              None \<Rightarrow> give (deny PolicyDenied, None)
            | Some tool \<Rightarrow>
                (let cq = call_request name tool meta args C
                 in then_do (judge S (tc_token C) cq now) (\<lambda>d.
                      if \<not> is_allow d then give (d, Some cq)
                      else if r = ResTool then give (d, None)
                      else case tl_target tool args C of
                          None \<Rightarrow> give (deny PolicyDenied, None)
                        | Some target \<Rightarrow>
                            if trim target = [] then give (deny PolicyDenied, None)
                            else let q = resource_request r a target tool meta args C
                                 in then_do (judge S (tc_token C) q now) (\<lambda>d. give (d, Some q)))))"

section \<open>Asking the human\<close>

definition summary_of :: "string \<Rightarrow> check_request \<Rightarrow> string" where
  "summary_of name q =
     (if cr_res q = ResTool then ''Appeler '' @ name else name @ '' sur '' @ cr_target q)"

text \<open>\<open>Ok\<close>: a decision; \<open>Err\<close>: the result to give back, the human has not decided.\<close>

definition approbation :: "'w services \<Rightarrow> string \<Rightarrow> check_request \<Rightarrow> tool_context \<Rightarrow> instant
    \<Rightarrow> ('w, call_result + decision) routine" where
  "approbation S name q C now =
     then_do (ask_human S (tc_token C) q (summary_of name q) now) (\<lambda>answer.
       case answer of
         None \<Rightarrow> give (Ok (deny PolicyDenied))
       | Some a \<Rightarrow>
           (case a_state a of
              Resolved HAllow \<Rightarrow> give (Ok (Allow 0))
            | Resolved HDeny \<Rightarrow> give (Ok (Deny PolicyDenied (Some (ActionRule HUMAN_RULE))))
            | ExpiredState \<Rightarrow> give (Ok (Deny PolicyDenied (Some (ActionRule HUMAN_RULE))))
            | Pending \<Rightarrow>
                then_do (record_event S (asked_draft name a C now)) (\<lambda>_.
                then_do (record_result S name
                    (CrError CodeApprovalRequired (plain\<lparr>ed_approval := Some (a_id a, a_summary a)\<rparr>)) C now)
                  (\<lambda>r. give (Err r)))))"

text \<open>A refusal for want of a human decision is put to the human; the rest stands.\<close>

definition settle :: "'w services \<Rightarrow> string \<Rightarrow> decision \<Rightarrow> check_request option \<Rightarrow> tool_context \<Rightarrow> instant
    \<Rightarrow> ('w, call_result + decision) routine" where
  "settle S name d q C now =
     (case (d, q) of
        (Deny ApprovalRequiredDeny _, Some q) \<Rightarrow> approbation S name q C now
      | _ \<Rightarrow> give (Ok d))"

text \<open>\<open>approval.wait\<close>: the state of a request, at most \<^verbatim>\<open>timeout_s\<close> seconds later.\<close>

partial_function (option) wait_loop ::
    "'w services \<Rightarrow> string \<Rightarrow> nat \<Rightarrow> nat \<Rightarrow> 'w \<Rightarrow> ('w \<times> (string \<times> approval) option) option" where
  "wait_loop S i started timeout w =
     (case sv_status S w i of
        None \<Rightarrow> Some (w, None)
      | Some a \<Rightarrow>
          (case a_state a of
             Pending \<Rightarrow>
               if timeout * 1000 \<le> sv_clock S w - started then Some (w, Some (''pending'', a))
               else wait_loop S i started timeout (sv_pause S w)
           | Resolved HAllow \<Rightarrow> Some (w, Some (''allowed'', a))
           | Resolved HDeny \<Rightarrow> Some (w, Some (''denied'', a))
           | ExpiredState \<Rightarrow> Some (w, Some (''expired'', a))))"

declare wait_loop.simps [code]

definition wait_timeout :: "json \<Rightarrow> nat" where
  "wait_timeout args = min 45 (max 1 (or_default (as_u64 (field ''timeout_s'' args)) 45))"

definition join_reason :: "'w services \<Rightarrow> string \<Rightarrow> json \<Rightarrow> 'w \<Rightarrow> 'w" where
  "join_reason S i args w =
     (case as_str (field ''reason'' args) of
        Some motif \<Rightarrow> if trim motif = [] then w else sv_explain S w i motif
      | None \<Rightarrow> w)"

definition attendre_approbation :: "'w services \<Rightarrow> json \<Rightarrow> ('w, call_result) routine" where
  "attendre_approbation S args w =
     (case as_str (field ''id'' args) of
        None \<Rightarrow> give (CrError CodeInvalid plain) w
      | Some i \<Rightarrow>
          if i = [] then give (CrError CodeInvalid plain) w
          else let w1 = join_reason S i args w
               in case wait_loop S i (sv_clock S w1) (wait_timeout args) w1 of
                    None \<Rightarrow> (w1, [], NeverReturns)
                  | Some (w2, None) \<Rightarrow> give (CrError CodeNotFound plain) w2
                  | Some (w2, Some (etat, a)) \<Rightarrow>
                      give (CrStructured (JObj [(''id'', JStr i), (''state'', JStr etat),
                        (''summary'', JStr (a_summary a)), (''reason'', opt_str (a_reason a))])) w2)"

section \<open>Running the code of a tool\<close>

definition saturating_add :: "instant \<Rightarrow> int \<Rightarrow> instant" where
  "saturating_add t d = max datetime_min (min datetime_max (t + d))"

definition permits_path :: "'w services \<Rightarrow> string \<Rightarrow> tool_context \<Rightarrow> instant \<Rightarrow> act \<Rightarrow> string
    \<Rightarrow> ('w, bool) routine" where
  "permits_path S name C now a path =
     (let at_level = (\<lambda>q. q\<lparr>cr_sandbox_level := tc_sandbox_level C\<rparr>)
      in then_do (judge S (tc_token C) (at_level (check_request_new ResTool ActCall name)) now) (\<lambda>d.
           if \<not> is_allow d then give False
           else then_do (judge S (tc_token C) (at_level (check_request_new ResFs a path)) now)
                  (\<lambda>d. give (is_allow d))))"

primrec run_code :: "'w services \<Rightarrow> string \<Rightarrow> tool_context \<Rightarrow> instant \<Rightarrow> tool_code
    \<Rightarrow> ('w, call_result) routine" where
  "run_code S name C now (Return r) = give r"
| "run_code S name C now (AskPath elapsed a path k) =
     then_do (permits_path S name C (saturating_add now elapsed) a path) (\<lambda>b. run_code S name C now (k b))"

definition start_tool :: "string \<Rightarrow> json \<Rightarrow> tool_context \<Rightarrow> ('w, unit) routine" where
  "start_tool name args C w = (w, [Ran name args C], Gives ())"

section \<open>A call\<close>

definition on_files :: "check_request option \<Rightarrow> bool" where
  "on_files q = (case q of None \<Rightarrow> False | Some q \<Rightarrow> cr_res q = ResFs)"

definition refuse :: "'w services \<Rightarrow> string \<Rightarrow> tool_meta \<Rightarrow> bool \<Rightarrow> deny_reason \<Rightarrow> deny_rule option
    \<Rightarrow> tool_context \<Rightarrow> instant \<Rightarrow> ('w, call_result) routine" where
  "refuse S name meta files reason rule C now =
     then_do (record_event S (deny_draft S name meta reason rule C now)) (\<lambda>_.
       let code = (if reason = ApprovalRequiredDeny then CodeApprovalRequired else CodePolicyDenied)
       in record_result S name
            (CrError code (if files \<and> code = CodePolicyDenied then with_scopes plain C else plain)) C now)"

definition run_tool :: "'w services \<Rightarrow> string \<Rightarrow> tool \<Rightarrow> json \<Rightarrow> tool_context \<Rightarrow> instant
    \<Rightarrow> ('w, call_result) routine" where
  "run_tool S name tool args C now =
     then_do (start_tool name args C) (\<lambda>_.
     then_do (run_code S name C now (tl_code tool args C)) (\<lambda>r. record_result S name r C now))"

definition controlled :: "'w services \<Rightarrow> tools \<Rightarrow> string \<Rightarrow> tool \<Rightarrow> tool_meta \<Rightarrow> json \<Rightarrow> tool_context
    \<Rightarrow> instant \<Rightarrow> ('w, call_result) routine" where
  "controlled S T name tool meta args C now =
     then_do (authorize S T name meta args C now) (\<lambda>(d, q).
     then_do (settle S name d q C now) (\<lambda>out.
       case out of
         Inl r \<Rightarrow> give r
       | Inr (Deny reason rule) \<Rightarrow>
           refuse S name meta (on_files q) reason rule C now
       | Inr (Allow _) \<Rightarrow> run_tool S name tool args C now))"

definition call_recorded :: "'w services \<Rightarrow> tools \<Rightarrow> string \<Rightarrow> json \<Rightarrow> tool_context \<Rightarrow> instant
    \<Rightarrow> ('w, call_result) routine" where
  "call_recorded S T name args C now =
     (case map_of T name of
        None \<Rightarrow> give (CrError CodeNotFound plain)
      | Some tool \<Rightarrow>
          (case tl_meta tool of
             None \<Rightarrow> give (CrError CodeInternal plain)
           | Some meta \<Rightarrow>
               then_do (record_event S (call_draft S name meta (tl_target tool args C) args C now)) (\<lambda>_.
                 if name = ''approval.wait''
                 then then_do (attendre_approbation S args) (\<lambda>r. record_result S name r C now)
                 else controlled S T name tool meta args C now)))"

definition journal_error :: call_result where
  "journal_error = CrError CodeInternal plain"

text \<open>The latch of the registry: after a failure of the journal, no call goes further.\<close>

fun call :: "'w services \<Rightarrow> tools \<Rightarrow> string \<Rightarrow> json \<Rightarrow> tool_context \<Rightarrow> instant
    \<Rightarrow> bool \<times> 'w \<Rightarrow> (bool \<times> 'w) \<times> tool_event list \<times> call_result option" where
  "call S T name args C now (True, w) = ((True, w), [], Some journal_error)"
| "call S T name args C now (False, w) =
     (case call_recorded S T name args C now w of
        (w', es, Gives r) \<Rightarrow> ((False, w'), es, Some r)
      | (w', es, JournalFailed) \<Rightarrow> ((True, w'), es, Some journal_error)
      | (w', es, NeverReturns) \<Rightarrow> ((False, w'), es, None))"

section \<open>What a task sees\<close>

definition visible_for :: "tools \<Rightarrow> token \<Rightarrow> string list" where
  "visible_for T t = filter (\<lambda>name. list_ex (\<lambda>g. g_res g = ResTool \<and> g_act g = ActCall
     \<and> matches Name (g_pattern g) name []) (t_grants t)) (map fst T)"

text \<open>Registering twice under a name is a panic.\<close>

definition tools_register :: "tools \<Rightarrow> string \<Rightarrow> tool \<Rightarrow> tools option" where
  "tools_register T name tool =
     (if contains_key name T then None else Some (bt_insert name tool T))"

section \<open>The broker and a memory behind the registry\<close>

text \<open>\<open>Mutex<Broker>\<close> as the authority and \<open>MemoryJournal\<close> as the journal. Identifiers are numbered;
  \<open>others\<close> is what the others do to the broker during a pause.\<close>

record broker_world =
  bw_broker :: broker
  bw_events :: "draft list"
  bw_next :: nat
  bw_clock :: nat

definition broker_check :: "crypto \<Rightarrow> broker_world \<Rightarrow> token \<Rightarrow> check_request \<Rightarrow> instant
    \<Rightarrow> (broker_world \<times> decision) option" where
  "broker_check K w t q now =
     (case check K (bw_broker w) t q now of
        None \<Rightarrow> None
      | Some (B, Inl _) \<Rightarrow> Some (w\<lparr>bw_broker := B\<rparr>, deny PolicyDenied)
      | Some (B, Inr d) \<Rightarrow> Some (w\<lparr>bw_broker := B\<rparr>, d))"

definition broker_request :: "(nat \<Rightarrow> string) \<Rightarrow> broker_world \<Rightarrow> token \<Rightarrow> check_request \<Rightarrow> string \<Rightarrow> instant
    \<Rightarrow> (broker_world \<times> approval option) option" where
  "broker_request ident w t q summary now =
     (case request_approval (bw_broker w) (ident (bw_next w)) t q summary now of
        None \<Rightarrow> None
      | Some (B, a) \<Rightarrow> Some (w\<lparr>bw_broker := B, bw_next := bw_next w + 1\<rparr>, Some a))"

definition broker_explain :: "broker_world \<Rightarrow> string \<Rightarrow> string \<Rightarrow> broker_world" where
  "broker_explain w i reason = w\<lparr>bw_broker := fst (explain_approval (bw_broker w) i reason)\<rparr>"

definition memory_record :: "broker_world \<Rightarrow> draft \<Rightarrow> broker_world \<times> bool" where
  "memory_record w d = (w\<lparr>bw_events := bw_events w @ [d]\<rparr>, True)"

record texts =
  tx_text :: "json \<Rightarrow> string"
  tx_blake3 :: "string \<Rightarrow> string"
  tx_debug :: "string \<Rightarrow> string"
  tx_result_digest :: "call_result \<Rightarrow> string"

definition broker_services :: "crypto \<Rightarrow> (nat \<Rightarrow> string) \<Rightarrow> (broker \<Rightarrow> broker) \<Rightarrow> texts
    \<Rightarrow> broker_world services" where
  "broker_services K ident others X = \<lparr>sv_check = broker_check K, sv_request = broker_request ident,
     sv_status = (\<lambda>w. approval_status (bw_broker w)), sv_explain = broker_explain,
     sv_record = memory_record, sv_clock = bw_clock,
     sv_pause = (\<lambda>w. w\<lparr>bw_broker := others (bw_broker w), bw_clock := bw_clock w + 500\<rparr>),
     sv_text = tx_text X, sv_blake3 = tx_blake3 X, sv_debug = tx_debug X,
     sv_result_digest = tx_result_digest X\<rparr>"

end
