(* ===== verification/Mcp_Session.thy ===== *)
theory Mcp_Session
  imports Mcp_Registry
begin

text \<open>
  Who calls the registry: a session of a client over lines of JSON-RPC
  (\<^verbatim>\<open>crates/mcp-system/src/server.rs\<close>) and the executor of a native task (\<^verbatim>\<open>native.rs\<close>). Reading a
  line as JSON is third-party code: \<open>rd_json\<close>; the clock is \<open>rd_now\<close>. Replies keep their identifier,
  their code and what they carry, not the text of errors. Faults of the output stream are not
  modelled.
\<close>

section \<open>A session\<close>

definition MAX_INPUT_BYTES :: nat where
  "MAX_INPUT_BYTES = 1048576"

datatype phase = PhaseNew | AwaitingInitialized | PhaseReady

record 'w session =
  ss_services :: "'w services"
  ss_tools :: tools
  ss_context :: tool_context
  ss_read :: "string \<Rightarrow> json option"
  ss_now :: "'w \<Rightarrow> instant"

datatype session_value = InitializeResult | ToolList "string list" | ToolResultOf call_result | EmptyObject

datatype rpc_reply = RpcError json int | RpcResult json session_value

text \<open>No answer is due; an answer; the call never returned.\<close>

datatype handled = NoReply | Replies rpc_reply | Hangs

type_synonym 'w session_state = "phase \<times> bool \<times> 'w"

definition is_string :: "json \<Rightarrow> bool" where
  "is_string v \<longleftrightarrow> as_str (Some v) \<noteq> None"

fun is_integer :: "json \<Rightarrow> bool" where
  "is_integer (JInt _) = True"
| "is_integer _ = False"

fun is_object :: "json \<Rightarrow> bool" where
  "is_object (JObj _) = True"
| "is_object _ = False"

definition field_holds :: "(json \<Rightarrow> bool) \<Rightarrow> json option \<Rightarrow> bool" where
  "field_holds P v = (case v of None \<Rightarrow> False | Some x \<Rightarrow> P x)"

text \<open>\<open>params["clientInfo"][k]\<close>: a missing member reads as null.\<close>

definition client_info :: "string \<Rightarrow> json \<Rightarrow> json option" where
  "client_info k params = Option.bind (field ''clientInfo'' params) (field k)"

definition initialize_ok :: "json \<Rightarrow> bool" where
  "initialize_ok params \<longleftrightarrow> field_holds is_string (field ''protocolVersion'' params)
     \<and> field_holds is_object (field ''capabilities'' params)
     \<and> field_holds is_string (client_info ''name'' params)
     \<and> field_holds is_string (client_info ''version'' params)"

definition handle_notification :: "string \<Rightarrow> 'w session_state
    \<Rightarrow> 'w session_state \<times> tool_event list \<times> handled" where
  "handle_notification method st =
     ((if method = ''notifications/initialized'' \<and> fst st = AwaitingInitialized
       then (PhaseReady, snd st) else st), [], NoReply)"

definition tools_call :: "'w session \<Rightarrow> json \<Rightarrow> json \<Rightarrow> instant \<Rightarrow> 'w session_state
    \<Rightarrow> 'w session_state \<times> tool_event list \<times> handled" where
  "tools_call E i params now st =
     (let name = or_default (as_str (field ''name'' params)) [];
          args = or_default (field ''arguments'' params) (JObj [])
      in if name = [] \<or> \<not> is_object args then (st, [], Replies (RpcError i (- 32602)))
         else case call (ss_services E) (ss_tools E) name args (ss_context E) now (snd st) of
             (rw, es, None) \<Rightarrow> ((fst st, rw), es, Hangs)
           | (rw, es, Some r) \<Rightarrow> ((fst st, rw), es, Replies (RpcResult i (ToolResultOf r))))"

definition handle_request :: "'w session \<Rightarrow> json \<Rightarrow> string \<Rightarrow> json \<Rightarrow> instant \<Rightarrow> 'w session_state
    \<Rightarrow> 'w session_state \<times> tool_event list \<times> handled" where
  "handle_request E i method params now st =
     (if method = ''initialize'' then
        (if fst st \<noteq> PhaseNew then (st, [], Replies (RpcError i (- 32600)))
         else if \<not> initialize_ok params then (st, [], Replies (RpcError i (- 32602)))
         else ((AwaitingInitialized, snd st), [], Replies (RpcResult i InitializeResult)))
      else if method \<in> {''tools/list'', ''tools/call''} \<and> fst st \<noteq> PhaseReady then
        (st, [], Replies (RpcError i (- 32002)))
      else if method = ''tools/list'' then
        (if field ''cursor'' params \<noteq> None then (st, [], Replies (RpcError i (- 32602)))
         else (st, [], Replies (RpcResult i (ToolList (visible_for (ss_tools E) (tc_token (ss_context E)))))))
      else if method = ''tools/call'' then tools_call E i params now st
      else if method = ''ping'' then (st, [], Replies (RpcResult i EmptyObject))
      else (st, [], Replies (RpcError i (- 32601))))"

definition bad_id :: "json option \<Rightarrow> bool" where
  "bad_id i = (case i of None \<Rightarrow> False | Some v \<Rightarrow> \<not> is_string v \<and> \<not> is_integer v)"

definition handle :: "'w session \<Rightarrow> string \<Rightarrow> instant \<Rightarrow> 'w session_state
    \<Rightarrow> 'w session_state \<times> tool_event list \<times> handled" where
  "handle E line now st =
     (if MAX_INPUT_BYTES < length line then (st, [], Replies (RpcError JNull (- 32600)))
      else case ss_read E line of
          None \<Rightarrow> (st, [], Replies (RpcError JNull (- 32700)))
        | Some message \<Rightarrow>
            let i = field ''id'' message; method = or_default (as_str (field ''method'' message)) []
            in if \<not> is_object message \<or> as_str (field ''jsonrpc'' message) \<noteq> Some ''2.0'' \<or> method = []
                  \<or> bad_id i
               then (st, [], Replies (RpcError JNull (- 32600)))
               else let params = or_default (field ''params'' message) (JObj [])
                 in if \<not> is_object params
                    then (st, [], case i of None \<Rightarrow> NoReply | Some i \<Rightarrow> Replies (RpcError i (- 32602)))
                    else case i of
                        None \<Rightarrow> handle_notification method st
                      | Some i \<Rightarrow> handle_request E i method params now st)"

section \<open>The loop of the service\<close>

datatype serve_end = Finished | MessageTooLong | NoEndOfLine | LineNotUtf8 | CallHangs

text \<open>A stream of bytes up to its end: the replies written, and how the loop ended.\<close>

function serve :: "'w session \<Rightarrow> string \<Rightarrow> 'w session_state
    \<Rightarrow> 'w session_state \<times> tool_event list \<times> rpc_reply list \<times> serve_end" where
  "serve E input st =
     (let (bytes, rest) = take_line input
      in if bytes = [] then (st, [], [], Finished)
         else if MAX_INPUT_BYTES < length bytes then (st, [], [], MessageTooLong)
         else if last bytes \<noteq> CHR 0x0A then (st, [], [], NoEndOfLine)
         else if \<not> utf8_valid bytes then (st, [], [], LineNotUtf8)
         else if trim bytes = [] then serve E rest st
         else case handle E bytes (ss_now E (snd (snd st))) st of
             (st1, es, Hangs) \<Rightarrow> (st1, es, [], CallHangs)
           | (st1, es, NoReply) \<Rightarrow>
               (case serve E rest st1 of (st2, es2, out, e) \<Rightarrow> (st2, es @ es2, out, e))
           | (st1, es, Replies r) \<Rightarrow>
               (case serve E rest st1 of (st2, es2, out, e) \<Rightarrow> (st2, es @ es2, r # out, e)))"
  by pat_completeness auto
termination
  by (relation "measure (\<lambda>(E, input, st). length input)")
    (auto dest!: take_line_append [OF sym])

declare serve.simps [simp del]

lemma exceeds_MAX_INPUT [code_unfold]: "MAX_INPUT_BYTES < n \<longleftrightarrow> 1048576 < int n"
  by (simp add: MAX_INPUT_BYTES_def)

section \<open>The executor of a native task\<close>

datatype executor_answer = CounterExhausted | FromTool bool call_result | ToolHangs

text \<open>The counter of calls and that of steps are \<open>u32\<close>; the number of the call is used up even when
  its step cannot be counted.\<close>

definition executor_call :: "'w services \<Rightarrow> tools \<Rightarrow> tool_context \<Rightarrow> string \<Rightarrow> json \<Rightarrow> instant
    \<Rightarrow> nat \<times> bool \<times> 'w \<Rightarrow> (nat \<times> bool \<times> 'w) \<times> tool_event list \<times> executor_answer" where
  "executor_call S T C name args now st =
     (let (n, rw) = st
      in if 2 ^ 32 \<le> n + 1 then (st, [], CounterExhausted)
         else if 2 ^ 32 \<le> tc_step C + n then ((n + 1, rw), [], CounterExhausted)
         else case call S T name args (C\<lparr>tc_step := tc_step C + n\<rparr>) now rw of
             (rw', es, None) \<Rightarrow> ((n + 1, rw'), es, ToolHangs)
           | (rw', es, Some r) \<Rightarrow> ((n + 1, rw'), es, FromTool (\<not> is_error r) r))"

end
