(* ===== verification/Mcp_Guard.thy ===== *)
theory Mcp_Guard
  imports Mcp_Session
begin

text \<open>
  What the registry of tools promises (\<open>Mcp_Registry\<close>, \<open>Mcp_Session\<close>): no code of a tool runs before its
  checks and its event, whoever the authority is; with the broker as the authority, what that says of
  the token; and what a yes of the human leaves unchecked.
\<close>

section \<open>Routines and what they do\<close>

definition emits :: "('w, 'a) routine \<Rightarrow> (tool_event \<Rightarrow> bool) \<Rightarrow> bool" where
  "emits m P \<longleftrightarrow> (\<forall>w w' es r. m w = (w', es, r) \<longrightarrow> (\<forall>e \<in> set es. P e))"

named_theorems emit \<open>what the routines of the registry do\<close>

lemma emitsD: "emits m P \<Longrightarrow> m w = (w', es, r) \<Longrightarrow> e \<in> set es \<Longrightarrow> P e"
  unfolding emits_def by blast

lemma emits_all: "m w = (w', es, r) \<Longrightarrow> emits m P \<Longrightarrow> \<forall>e \<in> set es. P e"
  unfolding emits_def by blast

lemma emits_give [emit]: "emits (give a) P"
  by (simp add: emits_def give_def)

lemma emits_then [emit]: "emits m P \<Longrightarrow> (\<And>a. emits (f a) P) \<Longrightarrow> emits (then_do m f) P"
  unfolding emits_def then_do_def by (auto split: prod.splits ending.splits; blast)

lemma emits_judge [emit]: "(\<And>d. P (Judged t q now d)) \<Longrightarrow> emits (judge S t q now) P"
  by (auto simp: emits_def judge_def split: option.splits)

lemma emits_ask [emit]: "(\<And>a. P (AskedHuman t q a)) \<Longrightarrow> emits (ask_human S t q s now) P"
  by (auto simp: emits_def ask_human_def split: option.splits)

lemma emits_record [emit]: "(\<And>ok. P (Recorded d ok)) \<Longrightarrow> emits (record_event S d) P"
  by (auto simp: emits_def record_event_def split: prod.splits)

lemma emits_record_result [emit]: "(\<And>d ok. P (Recorded d ok)) \<Longrightarrow> emits (record_result S name r C now) P"
  unfolding record_result_def by (intro emit)

lemma emits_if [emit]: "emits m P \<Longrightarrow> emits m' P \<Longrightarrow> emits (if b then m else m') P"
  by simp

lemma emits_option [emit]:
  "emits m P \<Longrightarrow> (\<And>x. emits (f x) P) \<Longrightarrow> emits (case v of None \<Rightarrow> m | Some x \<Rightarrow> f x) P"
  by (cases v) simp_all

lemma emits_prod [emit]: "(\<And>a b. emits (f a b) P) \<Longrightarrow> emits (case v of (a, b) \<Rightarrow> f a b) P"
  by (cases v) simp

lemma emits_authorize [emit]:
  assumes "\<And>t q d. P (Judged t q now d)"
  shows "emits (authorize S T name meta args C now) P"
  unfolding authorize_def Let_def by (intro emit assms)

lemma emits_approbation [emit]:
  assumes "\<And>t q a. P (AskedHuman t q a)" "\<And>d ok. P (Recorded d ok)"
  shows "emits (approbation S name q C now) P"
  unfolding approbation_def
  by (intro emit assms) (auto split: approval_state.splits human_decision.splits intro!: emit assms)

lemma emits_settle [emit]:
  assumes "\<And>t q a. P (AskedHuman t q a)" "\<And>d ok. P (Recorded d ok)"
  shows "emits (settle S name d q C now) P"
  unfolding settle_def
  by (auto split: decision.splits deny_reason.splits option.splits intro!: emit assms)

lemma emits_permits [emit]:
  assumes "\<And>t q n d. P (Judged t q n d)"
  shows "emits (permits_path S name C now a path) P"
  unfolding permits_path_def Let_def by (intro emit assms)

lemma emits_code [emit]:
  assumes "\<And>t q n d. P (Judged t q n d)"
  shows "emits (run_code S name C now code) P"
  by (induction code) (auto intro!: emit assms)

lemma emits_refuse [emit]:
  "(\<And>d ok. P (Recorded d ok)) \<Longrightarrow> emits (refuse S name meta files reason rule C now) P"
  unfolding refuse_def Let_def by (intro emit)

lemma emits_wait [emit]: "emits (attendre_approbation S args) P"
  by (auto simp: emits_def attendre_approbation_def give_def Let_def split: option.splits if_splits)

text \<open>Nothing that reached an end with a value lost its place: the events of both halves in order.\<close>

lemma then_do_cases:
  assumes "then_do m f w = (w', es, r)"
  obtains (go) w1 es1 a es2 where "m w = (w1, es1, Gives a)" "f a w1 = (w', es2, r)" "es = es1 @ es2"
    | (stop) "m w = (w', es, JournalFailed)" "r = JournalFailed"
    | (hang) "m w = (w', es, NeverReturns)" "r = NeverReturns"
  using assms unfolding then_do_def by (auto split: prod.splits ending.splits)

lemma give_iff [simp]: "give a w = (w', es, r) \<longleftrightarrow> w' = w \<and> es = [] \<and> r = Gives a"
  by (auto simp: give_def)

lemma judge_iff: "judge S t q now w = (w', es, r) \<longleftrightarrow>
    (case sv_check S w t q now of None \<Rightarrow> w' = w \<and> es = [] \<and> r = NeverReturns
     | Some (w1, d) \<Rightarrow> w' = w1 \<and> es = [Judged t q now d] \<and> r = Gives d)"
  by (auto simp: judge_def split: option.splits)

section \<open>Before the code of a tool\<close>

fun is_run :: "tool_event \<Rightarrow> bool" where
  "is_run (Ran _ _ _) = True"
| "is_run _ = False"

text \<open>The authority allowed a request; it wanted a human, who said yes to that very request.\<close>

definition allowed_in :: "tool_event list \<Rightarrow> token \<Rightarrow> check_request \<Rightarrow> instant \<Rightarrow> bool" where
  "allowed_in es t q now \<longleftrightarrow> (\<exists>d. is_allow d \<and> Judged t q now d \<in> set es)"

definition waived_in :: "tool_event list \<Rightarrow> token \<Rightarrow> check_request \<Rightarrow> instant \<Rightarrow> bool" where
  "waived_in es t q now \<longleftrightarrow> (\<exists>rule. Judged t q now (Deny ApprovalRequiredDeny rule) \<in> set es)
     \<and> (\<exists>a. AskedHuman t q (Some a) \<in> set es \<and> a_state a = Resolved HAllow)"

definition cleared_in :: "tool_event list \<Rightarrow> token \<Rightarrow> check_request \<Rightarrow> instant \<Rightarrow> bool" where
  "cleared_in es t q now \<longleftrightarrow> allowed_in es t q now \<or> waived_in es t q now"

lemma in_more: "allowed_in es t q n \<Longrightarrow> set es \<subseteq> set es' \<Longrightarrow> allowed_in es' t q n"
  "waived_in es t q n \<Longrightarrow> set es \<subseteq> set es' \<Longrightarrow> waived_in es' t q n"
  unfolding allowed_in_def waived_in_def by blast+

definition aims_at :: "tool \<Rightarrow> json \<Rightarrow> tool_context \<Rightarrow> string \<Rightarrow> bool" where
  "aims_at tool args C target \<longleftrightarrow> tl_target tool args C = Some target \<and> trim target \<noteq> []"

text \<open>What must have happened before a tool runs.\<close>

definition entitled :: "'w services \<Rightarrow> tools \<Rightarrow> tool_event list \<Rightarrow> string \<Rightarrow> json \<Rightarrow> tool_context \<Rightarrow> instant
    \<Rightarrow> bool" where
  "entitled S T es name args C now \<longleftrightarrow> (\<exists>tool meta r a.
     map_of T name = Some tool \<and> tl_meta tool = Some meta
   \<and> parse_requires (tm_requires meta) = Some (r, a) \<and> admissible meta (r, a) C
   \<and> Recorded (call_draft S name meta (tl_target tool args C) args C now) True \<in> set es
   \<and> cleared_in es (tc_token C) (call_request name tool meta args C) now
   \<and> (r = ResTool \<or> waived_in es (tc_token C) (call_request name tool meta args C) now
      \<or> (\<exists>target. aims_at tool args C target
           \<and> cleared_in es (tc_token C) (resource_request r a target tool meta args C) now)))"

lemma authorize_allow:
  assumes "authorize S T name meta args C now w = (w', es, Gives (Allow i, q))" "map_of T name = Some tool"
  shows "\<exists>r a. parse_requires (tm_requires meta) = Some (r, a) \<and> admissible meta (r, a) C
    \<and> allowed_in es (tc_token C) (call_request name tool meta args C) now
    \<and> (r = ResTool \<or> (\<exists>target. aims_at tool args C target
         \<and> allowed_in es (tc_token C) (resource_request r a target tool meta args C) now))"
  using assms
  by (auto simp: authorize_def Let_def deny_def allowed_in_def aims_at_def judge_iff
      elim!: then_do_cases split: option.splits if_splits prod.splits)

lemma authorize_ask:
  assumes "authorize S T name meta args C now w = (w', es, Gives (Deny ApprovalRequiredDeny rule, Some q))"
    and "map_of T name = Some tool"
  shows "\<exists>r a. parse_requires (tm_requires meta) = Some (r, a) \<and> admissible meta (r, a) C
    \<and> Judged (tc_token C) q now (Deny ApprovalRequiredDeny rule) \<in> set es
    \<and> (q = call_request name tool meta args C
       \<or> (allowed_in es (tc_token C) (call_request name tool meta args C) now
          \<and> (\<exists>target. aims_at tool args C target \<and> q = resource_request r a target tool meta args C)))"
  using assms
  by (auto simp: authorize_def Let_def deny_def allowed_in_def aims_at_def judge_iff
      elim!: then_do_cases split: option.splits if_splits prod.splits)

lemma settle_allow:
  assumes "settle S name d q C now w = (w', es, Gives (Inr (Allow i)))"
  shows "(\<exists>j. d = Allow j) \<or> (\<exists>rule q' a. d = Deny ApprovalRequiredDeny rule \<and> q = Some q'
    \<and> AskedHuman (tc_token C) q' (Some a) \<in> set es \<and> a_state a = Resolved HAllow)"
  using assms
  by (auto simp: settle_def approbation_def deny_def ask_human_def record_result_def elim!: then_do_cases
      split: option.splits decision.splits deny_reason.splits approval_state.splits human_decision.splits
        if_splits prod.splits)

text \<open>What is left once a tool has started: checks and events.\<close>

fun is_check_or_record :: "tool_event \<Rightarrow> bool" where
  "is_check_or_record (Judged _ _ _ _) = True"
| "is_check_or_record (Recorded _ _) = True"
| "is_check_or_record _ = False"

lemma record_event_iff: "record_event S d w = (w', es, r) \<longleftrightarrow>
    (\<exists>ok. sv_record S w d = (w', ok) \<and> es = [Recorded d ok] \<and> r = (if ok then Gives () else JournalFailed))"
  by (auto simp: record_event_def split: prod.splits)

lemma record_result_ends:
  assumes "record_result S name x C now w = (w', es, r)"
  shows "\<exists>ok. es = [Recorded (result_draft S name x C now) ok] \<and> (\<forall>y. r = Gives y \<longrightarrow> y = x \<and> ok)"
  using assms unfolding record_result_def
  by (auto simp: record_event_iff elim!: then_do_cases split: if_splits)

lemma run_tool_events:
  assumes "run_tool S name tool args C now w = (w', es, r)"
  shows "\<exists>post. es = Ran name args C # post \<and> (\<forall>e \<in> set post. is_check_or_record e)
    \<and> (\<forall>x. r = Gives x \<longrightarrow> last es = Recorded (result_draft S name x C now) True)"
  using assms unfolding run_tool_def
proof (cases rule: then_do_cases)
  case (go w1 es1 a es2)
  then have es: "es = Ran name args C # es2" by (auto simp: start_tool_def)
  have rest: "\<forall>e \<in> set es2. is_check_or_record e"
    using go(2) by (rule emits_all) (simp add: emit)
  from go(2) have "\<forall>x. r = Gives x \<longrightarrow> es2 \<noteq> [] \<and> last es2 = Recorded (result_draft S name x C now) True"
    by (cases rule: then_do_cases) (auto dest!: record_result_ends)
  with es rest show ?thesis by auto
qed (auto simp: start_tool_def)

lemma refuse_ends:
  assumes "refuse S name meta f reason rule C now w = (w', es, Gives x)"
  shows "last es = Recorded (result_draft S name x C now) True"
  using assms unfolding refuse_def Let_def
  by (cases rule: then_do_cases) (auto dest!: record_result_ends)

lemma settle_ends:
  assumes "settle S name d q C now w = (w', es, Gives (Inl x))"
  shows "es \<noteq> [] \<and> last es = Recorded (result_draft S name x C now) True"
  using assms unfolding settle_def approbation_def
  by (auto elim!: then_do_cases dest!: record_result_ends
      split: option.splits decision.splits deny_reason.splits approval_state.splits human_decision.splits)

text \<open>A decision that lets a tool run was made on the requests of this very call.\<close>

definition permitted :: "tool_event list \<Rightarrow> string \<Rightarrow> tool \<Rightarrow> tool_meta \<Rightarrow> json \<Rightarrow> tool_context \<Rightarrow> instant
    \<Rightarrow> bool" where
  "permitted es name tool meta args C now \<longleftrightarrow> (\<exists>r a.
     parse_requires (tm_requires meta) = Some (r, a) \<and> admissible meta (r, a) C
   \<and> cleared_in es (tc_token C) (call_request name tool meta args C) now
   \<and> (r = ResTool \<or> waived_in es (tc_token C) (call_request name tool meta args C) now
      \<or> (\<exists>target. aims_at tool args C target
           \<and> cleared_in es (tc_token C) (resource_request r a target tool meta args C) now)))"

lemma permission:
  assumes au: "authorize S T name meta args C now w = (w1, es1, Gives (d, q))"
    and se: "settle S name d q C now w1 = (w2, es3, Gives (Inr (Allow i)))"
    and tool: "map_of T name = Some tool"
  shows "permitted (es1 @ es3) name tool meta args C now"
  using settle_allow [OF se]
proof (elim disjE exE conjE)
  fix j
  assume "d = Allow j"
  with authorize_allow [OF au [unfolded this] tool] show ?thesis
    unfolding permitted_def cleared_in_def by (fastforce dest: in_more(1) [of es1 _ _ _ "es1 @ es3"])
next
  fix rule q' a
  assume a: "d = Deny ApprovalRequiredDeny rule" "q = Some q'"
    "AskedHuman (tc_token C) q' (Some a) \<in> set es3" "a_state a = Resolved HAllow"
  from authorize_ask [OF au [unfolded a(1,2)] tool] obtain r' a'
    where ra: "parse_requires (tm_requires meta) = Some (r', a')" "admissible meta (r', a') C"
      "Judged (tc_token C) q' now (Deny ApprovalRequiredDeny rule) \<in> set es1"
      "q' = call_request name tool meta args C
         \<or> (allowed_in es1 (tc_token C) (call_request name tool meta args C) now
            \<and> (\<exists>target. aims_at tool args C target \<and> q' = resource_request r' a' target tool meta args C))"
    by blast
  have "waived_in (es1 @ es3) (tc_token C) q' now" using ra(3) a(3,4) by (auto simp: waived_in_def)
  with ra show ?thesis
    unfolding permitted_def cleared_in_def by (fastforce dest: in_more(1) [of es1 _ _ _ "es1 @ es3"])
qed

text \<open>A first half that never runs the code of a tool.\<close>

lemma then_do_quiet:
  assumes "then_do m f w = (w', es, r)" "emits m P"
  obtains (kept) "\<forall>e \<in> set es. P e"
    | (go) w1 es1 a es2 where "m w = (w1, es1, Gives a)" "f a w1 = (w', es2, r)" "es = es1 @ es2"
      "\<forall>e \<in> set es1. P e"
  using assms(1)
proof (cases rule: then_do_cases)
  case (go w1 es1 a es2)
  with assms(2) that(2) show ?thesis by (metis emits_all)
qed (metis assms(2) emits_all that(1))+

text \<open>The controlled part of a call: the code of the tool has not run, or it has, after its checks.\<close>

lemma controlled_cases:
  assumes "controlled S T name tool meta args C now w = (w', es, r)" "map_of T name = Some tool"
  obtains (kept) "\<forall>e \<in> set es. \<not> is_run e"
    | (ran) pre post where "es = pre @ Ran name args C # post" "\<forall>e \<in> set pre. \<not> is_run e"
      "\<forall>e \<in> set post. is_check_or_record e" "permitted pre name tool meta args C now"
      "\<forall>x. r = Gives x \<longrightarrow> last (Ran name args C # post) = Recorded (result_draft S name x C now) True"
proof -
  have quiet: "emits (authorize S T name meta args C now) (\<lambda>e. \<not> is_run e)"
    "emits (settle S name d q C now) (\<lambda>e. \<not> is_run e)" for d q
    by (simp_all add: emit)
  from assms(1) show ?thesis unfolding controlled_def
  proof (cases rule: then_do_quiet [OF _ quiet(1), consumes 1, case_names kept go])
  case (go w1 es1 dq es2)
  note first = this
  obtain d q where dq: "dq = (d, q)" by (cases dq)
  from first(2) show ?thesis
    unfolding dq prod.case
  proof (cases rule: then_do_quiet [OF _ quiet(2), consumes 1, case_names kept go])
    case (go w2 es3 out es4)
    show ?thesis
    proof (cases "\<exists>i. out = Inr (Allow i)")
      case True
      then obtain i where i: "out = Inr (Allow i)" ..
      with go(2) have "run_tool S name tool args C now w2 = (w', es4, r)" by simp
      from run_tool_events [OF this] obtain post
        where post: "es4 = Ran name args C # post" "\<forall>e \<in> set post. is_check_or_record e"
          "\<forall>x. r = Gives x \<longrightarrow> last es4 = Recorded (result_draft S name x C now) True" by blast
      show ?thesis
        by (rule ran [of "es1 @ es3" post])
          (use post first(3,4) go(3,4) permission [OF first(1) [unfolded dq] go(1) [unfolded i] assms(2)] in auto)
    next
      case False
      have "\<forall>e \<in> set es4. \<not> is_run e"
        using go(2)
        by (rule emits_all) (use False in \<open>auto split: sum.splits decision.splits intro!: emit\<close>)
      with kept first(3,4) go(3,4) show ?thesis by auto
    qed
    qed (use first(3,4) kept in auto)
  qed (rule kept)
qed

lemma entitled_iff: "entitled S T es name args C now \<longleftrightarrow> (\<exists>tool meta.
     map_of T name = Some tool \<and> tl_meta tool = Some meta
   \<and> Recorded (call_draft S name meta (tl_target tool args C) args C now) True \<in> set es
   \<and> permitted es name tool meta args C now)"
  by (auto simp: entitled_def permitted_def)

lemma permitted_more:
  assumes "permitted es name tool meta args C now" "set es \<subseteq> set es'"
  shows "permitted es' name tool meta args C now"
proof -
  have "waived_in es t q n \<Longrightarrow> waived_in es' t q n" "cleared_in es t q n \<Longrightarrow> cleared_in es' t q n" for t q n
    using in_more assms(2) unfolding cleared_in_def by blast+
  with assms(1) show ?thesis unfolding permitted_def by blast
qed

lemma call_recorded_cases:
  assumes "call_recorded S T name args C now w = (w', es, r)"
  obtains (kept) "\<forall>e \<in> set es. \<not> is_run e"
    | (ran) pre post where "es = pre @ Ran name args C # post" "\<forall>e \<in> set pre. \<not> is_run e"
      "\<forall>e \<in> set post. is_check_or_record e" "entitled S T pre name args C now"
      "\<forall>x. r = Gives x \<longrightarrow> last (Ran name args C # post) = Recorded (result_draft S name x C now) True"
proof (cases "map_of T name")
  case None
  with assms kept show ?thesis by (simp add: call_recorded_def)
next
  case (Some tool)
  show ?thesis
  proof (cases "tl_meta tool")
    case None
    with assms Some kept show ?thesis by (simp add: call_recorded_def)
  next
    case meta: (Some meta)
    let ?draft = "call_draft S name meta (tl_target tool args C) args C now"
    from assms Some meta have *: "then_do (record_event S ?draft) (\<lambda>_.
        if name = ''approval.wait''
        then then_do (attendre_approbation S args) (\<lambda>r. record_result S name r C now)
        else controlled S T name tool meta args C now) w = (w', es, r)"
      by (simp add: call_recorded_def)
    have quiet: "emits (record_event S ?draft) (\<lambda>e. \<not> is_run e)" by (simp add: emit)
    from * show ?thesis
    proof (cases rule: then_do_quiet [OF _ quiet, consumes 1, case_names kept go])
      case (go w1 es1 u es2)
      then have es1: "es1 = [Recorded ?draft True]" by (auto simp: record_event_iff split: if_splits)
      show ?thesis
      proof (cases "name = ''approval.wait''")
        case True
        with go(2) have "\<forall>e \<in> set es2. \<not> is_run e"
          by (simp only: if_True) (erule emits_all, simp add: emit)
        with kept go(3) es1 show ?thesis by simp
      next
        case False
        with go(2) have "controlled S T name tool meta args C now w1 = (w', es2, r)" by simp
        then show ?thesis
        proof (cases rule: controlled_cases [OF _ Some, consumes 1, case_names kept ran])
          case ended: kept
          with kept go(3) es1 show ?thesis by simp
        next
          case started: (ran pre post)
          show ?thesis
            by (rule ran [of "es1 @ pre" post])
              (use started go(3) es1 Some meta permitted_more [OF started(4), of "es1 @ pre"]
                in \<open>auto simp: entitled_iff\<close>)
        qed
      qed
    qed (rule kept)
  qed
qed

section \<open>A failure of the journal\<close>

text \<open>A routine fails with the journal exactly when an event was not taken, and then at once.\<close>

fun unkept :: "tool_event \<Rightarrow> bool" where
  "unkept (Recorded _ ok) = (\<not> ok)"
| "unkept _ = False"

definition stops :: "('w, 'a) routine \<Rightarrow> bool" where
  "stops m \<longleftrightarrow> (\<forall>w w' es r. m w = (w', es, r) \<longrightarrow>
     (if r = JournalFailed then \<exists>pre d. es = pre @ [Recorded d False] \<and> (\<forall>e \<in> set pre. \<not> unkept e)
      else \<forall>e \<in> set es. \<not> unkept e))"

named_theorems stop \<open>the routines of the registry stop with the journal\<close>

lemma stopsD: "stops m \<Longrightarrow> m w = (w', es, r) \<Longrightarrow>
     (if r = JournalFailed then \<exists>pre d. es = pre @ [Recorded d False] \<and> (\<forall>e \<in> set pre. \<not> unkept e)
      else \<forall>e \<in> set es. \<not> unkept e)"
  unfolding stops_def by blast

lemma stops_give [stop]: "stops (give a)"
  by (simp add: stops_def)

lemma stops_judge [stop]: "stops (judge S t q now)"
  by (auto simp: stops_def judge_def split: option.splits)

lemma stops_ask [stop]: "stops (ask_human S t q s now)"
  by (auto simp: stops_def ask_human_def split: option.splits)

lemma stops_record [stop]: "stops (record_event S d)"
  by (auto simp: stops_def record_event_iff)

lemma stops_start [stop]: "stops (start_tool name args C)"
  by (auto simp: stops_def start_tool_def)

lemma stops_then [stop]:
  assumes "stops m" "\<And>a. stops (f a)"
  shows "stops (then_do m f)"
  unfolding stops_def
proof (intro allI impI)
  fix w w' es r
  assume "then_do m f w = (w', es, r)"
  then show "if r = JournalFailed then \<exists>pre d. es = pre @ [Recorded d False] \<and> (\<forall>e \<in> set pre. \<not> unkept e)
      else \<forall>e \<in> set es. \<not> unkept e"
  proof (cases rule: then_do_cases)
    case (go w1 es1 a es2)
    from stopsD [OF assms(1) go(1)] have quiet: "\<forall>e \<in> set es1. \<not> unkept e" by simp
    from stopsD [OF assms(2) go(2)] show ?thesis
    proof (cases "r = JournalFailed")
      case True
      with stopsD [OF assms(2) go(2)] obtain pre d
        where "es2 = pre @ [Recorded d False]" "\<forall>e \<in> set pre. \<not> unkept e" by auto
      with quiet True go(3) show ?thesis by (auto intro!: exI [of _ "es1 @ pre"])
    qed (use quiet go(3) in auto)
  qed (use stopsD [OF assms(1)] in force)+
qed

lemma stops_if [stop]: "stops m \<Longrightarrow> stops m' \<Longrightarrow> stops (if b then m else m')"
  by simp

lemma stops_option [stop]: "stops m \<Longrightarrow> (\<And>x. stops (f x)) \<Longrightarrow> stops (case v of None \<Rightarrow> m | Some x \<Rightarrow> f x)"
  by (cases v) simp_all

lemma stops_prod [stop]: "(\<And>a b. stops (f a b)) \<Longrightarrow> stops (case v of (a, b) \<Rightarrow> f a b)"
  by (cases v) simp

lemma stops_record_result [stop]: "stops (record_result S name r C now)"
  unfolding record_result_def by (intro stop)

lemma stops_wait [stop]: "stops (attendre_approbation S args)"
  by (auto simp: stops_def attendre_approbation_def Let_def split: option.splits if_splits)

lemma stops_code [stop]: "stops (run_code S name C now code)"
  by (induction code) (auto simp: permits_path_def Let_def intro!: stop)

lemma stops_approbation [stop]: "stops (approbation S name q C now)"
  unfolding approbation_def
  by (intro stop) (auto split: approval_state.splits human_decision.splits intro!: stop)

lemma stops_controlled [stop]: "stops (controlled S T name tool meta args C now)"
  unfolding controlled_def authorize_def settle_def refuse_def run_tool_def Let_def
  by (intro stop) (auto split: decision.splits deny_reason.splits option.splits sum.splits intro!: stop)

lemma stops_call_recorded: "stops (call_recorded S T name args C now)"
  unfolding call_recorded_def by (intro stop)

text \<open>A sequence of calls on one registry; one that never returns is the last.\<close>

type_synonym tool_call = "string \<times> json \<times> tool_context \<times> instant"

fun calls :: "'w services \<Rightarrow> tools \<Rightarrow> tool_call list \<Rightarrow> bool \<times> 'w
    \<Rightarrow> (bool \<times> 'w) \<times> tool_event list \<times> call_result list" where
  "calls S T [] st = (st, [], [])"
| "calls S T ((name, args, C, now) # cs) st =
     (case call S T name args C now st of
        (st1, es, None) \<Rightarrow> (st1, es, [])
      | (st1, es, Some r) \<Rightarrow> (case calls S T cs st1 of (st2, es2, rs) \<Rightarrow> (st2, es @ es2, r # rs)))"

lemma calls_latched: "calls S T cs (True, w) = ((True, w), [], map (\<lambda>_. journal_error) cs)"
  by (induction cs) auto

lemma call_stops:
  assumes "call S T name args C now (False, w) = ((failed, w'), es, out)"
  shows "if failed then out = Some journal_error \<and> (\<exists>pre d. es = pre @ [Recorded d False] \<and> (\<forall>e \<in> set pre. \<not> unkept e))
    else \<forall>e \<in> set es. \<not> unkept e"
proof -
  obtain w1 es1 r where c: "call_recorded S T name args C now w = (w1, es1, r)"
    by (metis prod_cases3)
  with stopsD [OF stops_call_recorded c] assms show ?thesis
    by (cases r) auto
qed

lemma calls_stop:
  assumes "calls S T cs (False, w) = ((failed, w'), es, outs)"
  shows "if failed then (\<exists>pre d. es = pre @ [Recorded d False] \<and> (\<forall>e \<in> set pre. \<not> unkept e))
      \<and> (\<exists>n. n < length outs \<and> length outs = length cs
           \<and> (\<forall>i. n \<le> i \<longrightarrow> i < length outs \<longrightarrow> outs ! i = journal_error))
    else \<forall>e \<in> set es. \<not> unkept e"
  using assms
proof (induction cs arbitrary: w es outs)
  case (Cons c cs)
  obtain name args C now where c: "c = (name, args, C, now)" by (cases c)
  obtain f1 w1 es1 out where one: "call S T name args C now (False, w) = ((f1, w1), es1, out)"
    by (metis prod.exhaust)
  note first = call_stops [OF one]
  show ?case
  proof (cases out)
    case None
    with Cons.prems c one first show ?thesis by auto
  next
    case (Some r)
    obtain f2 w2 es2 rs where rest: "calls S T cs (f1, w1) = ((f2, w2), es2, rs)"
      by (metis prod.exhaust)
    with Cons.prems c one Some have eqs: "failed = f2" "w' = w2" "es = es1 @ es2" "outs = r # rs" by auto
    show ?thesis
    proof (cases f1)
      case True
      with rest calls_latched [of S T cs w1] have "f2" "es2 = []" "rs = map (\<lambda>_. journal_error) cs" by auto
      with first True Some eqs show ?thesis
        by (auto simp: nth_Cons' intro!: exI [of _ 0])
    next
      case False
      with Cons.IH [of w1 es2 rs] rest eqs
      have IH: "if failed then (\<exists>pre d. es2 = pre @ [Recorded d False] \<and> (\<forall>e \<in> set pre. \<not> unkept e))
          \<and> (\<exists>n. n < length rs \<and> length rs = length cs
             \<and> (\<forall>i. n \<le> i \<longrightarrow> i < length rs \<longrightarrow> rs ! i = journal_error))
        else \<forall>e \<in> set es2. \<not> unkept e" by simp
      show ?thesis
      proof (cases failed)
        case True
        with IH obtain pre d n where "es2 = pre @ [Recorded d False]" "\<forall>e \<in> set pre. \<not> unkept e"
          "n < length rs" "length rs = length cs" "\<forall>i. n \<le> i \<longrightarrow> i < length rs \<longrightarrow> rs ! i = journal_error"
          by auto
        with True False first eqs show ?thesis
          by (auto simp: nth_Cons' intro!: exI [of _ "es1 @ pre"] exI [of _ "Suc n"])
      qed (use IH False first eqs in auto)
    qed
  qed
qed simp

end
