(* ===== verification/Mcp_Safe.thy ===== *)
theory Mcp_Safe
  imports Mcp_Guard
begin

text \<open>
  The promises of the registry of tools. An authority is an interface: what it has found out when it
  does not plainly refuse, what the human has said when an approval comes back. The broker provides it,
  and the checks of \<open>Mcp_Guard\<close> become facts on tokens, grants and decisions of the human.
\<close>

section \<open>The interface of an authority\<close>

text \<open>An event that shows no more than what the authority vouches for.\<close>

fun backed :: "(token \<Rightarrow> check_request \<Rightarrow> instant \<Rightarrow> bool) \<Rightarrow> (token \<Rightarrow> check_request \<Rightarrow> bool) \<Rightarrow> tool_event
    \<Rightarrow> bool" where
  "backed fit said_yes (Judged t q n d) \<longleftrightarrow> (heard d \<longrightarrow> fit t q n)"
| "backed fit said_yes (AskedHuman t q (Some a)) \<longleftrightarrow> (a_state a = Resolved HAllow \<longrightarrow> said_yes t q)"
| "backed fit said_yes (AskedHuman t q None) \<longleftrightarrow> True"
| "backed fit said_yes (Recorded d ok) \<longleftrightarrow> True"
| "backed fit said_yes (Ran name args C) \<longleftrightarrow> True"

definition secure :: "('w \<Rightarrow> bool) \<Rightarrow> (tool_event \<Rightarrow> bool) \<Rightarrow> ('w, 'a) routine \<Rightarrow> ('w \<Rightarrow> bool) \<Rightarrow> bool" where
  "secure P E m Q \<longleftrightarrow> (\<forall>w w' es r. P w \<longrightarrow> m w = (w', es, r) \<longrightarrow>
     (\<forall>e \<in> set es. E e) \<and> ((\<exists>a. r = Gives a) \<longrightarrow> Q w'))"

lemma secureD: "secure P E m Q \<Longrightarrow> P w \<Longrightarrow> m w = (w', es, r) \<Longrightarrow>
    (\<forall>e \<in> set es. E e) \<and> ((\<exists>a. r = Gives a) \<longrightarrow> Q w')"
  unfolding secure_def by blast

lemma secure_give: "(\<And>w. P w \<Longrightarrow> Q w) \<Longrightarrow> secure P E (give a) Q"
  by (simp add: secure_def)

lemma secure_then:
  assumes "secure P E m Q" "\<And>a. secure Q E (f a) R"
  shows "secure P E (then_do m f) R"
  unfolding secure_def
proof (intro allI impI)
  fix w w' es r
  assume "P w" "then_do m f w = (w', es, r)"
  from this(2) show "(\<forall>e \<in> set es. E e) \<and> ((\<exists>a. r = Gives a) \<longrightarrow> R w')"
    by (cases rule: then_do_cases)
      (use secureD [OF assms(1) \<open>P w\<close>] secureD [OF assms(2)] in fastforce)+
qed

lemma secure_cases:
  "secure P E m Q \<Longrightarrow> secure P E m' Q \<Longrightarrow> secure P E (if b then m else m') Q"
  "secure P E m Q \<Longrightarrow> (\<And>x. secure P E (f x) Q) \<Longrightarrow> secure P E (case v of None \<Rightarrow> m | Some x \<Rightarrow> f x) Q"
  "(\<And>a c. secure P E (g a c) Q) \<Longrightarrow> secure P E (case p of (a, c) \<Rightarrow> g a c) Q"
  by (simp_all split: option.splits prod.splits)

text \<open>The invariant has two stages: before the human is asked, and after.\<close>

locale authority =
  fixes S :: "'w services" and inv :: "bool \<Rightarrow> 'w \<Rightarrow> bool"
    and fit :: "token \<Rightarrow> check_request \<Rightarrow> instant \<Rightarrow> bool" and said_yes :: "token \<Rightarrow> check_request \<Rightarrow> bool"
  assumes check_vouches: "inv b w \<Longrightarrow> sv_check S w t q n = Some (w', d) \<Longrightarrow>
      inv b w' \<and> (heard d \<longrightarrow> fit t q n)"
    and human_vouches: "inv True w \<Longrightarrow> sv_request S w t q s n = Some (w', a) \<Longrightarrow>
      inv False w' \<and> (\<forall>x. a = Some x \<longrightarrow> a_state x = Resolved HAllow \<longrightarrow> said_yes t q)"
    and record_keeps: "inv b w \<Longrightarrow> inv b (fst (sv_record S w dr))"
    and later: "inv True w \<Longrightarrow> inv False w"
begin

abbreviation safe :: "bool \<Rightarrow> ('w, 'a) routine \<Rightarrow> bool \<Rightarrow> bool" where
  "safe b m b' \<equiv> secure (inv b) (backed fit said_yes) m (inv b')"

lemma safe_judge: "safe b (judge S t q n) b"
  using check_vouches by (fastforce simp: secure_def judge_def split: option.splits)

lemma safe_ask: "safe True (ask_human S t q s n) False"
  by (auto simp: secure_def ask_human_def split: option.splits dest!: human_vouches)
    (metis backed.simps(2,3) option.exhaust)

lemma safe_record: "safe b (record_event S d) b"
  by (auto simp: secure_def record_event_iff) (metis fst_conv record_keeps)

lemma safe_record_result: "safe b (record_result S name r C n) b"
  unfolding record_result_def by (intro secure_then [OF safe_record] secure_give)

lemmas safe_intros = secure_cases secure_give safe_judge safe_record safe_record_result
  secure_then [OF safe_judge] secure_then [OF safe_record] secure_then [OF safe_record_result]

lemma safe_authorize: "safe b (authorize S T name meta args C n) b"
  unfolding authorize_def Let_def by (intro safe_intros)

lemma safe_approbation: "safe True (approbation S name q C n) False"
  unfolding approbation_def
  by (intro secure_then [OF safe_ask])
    (auto split: option.splits approval_state.splits human_decision.splits intro!: safe_intros)

lemma safe_settle: "safe True (settle S name d q C n) False"
  unfolding settle_def
  by (auto split: decision.splits deny_reason.splits option.splits
      intro!: safe_approbation secure_give later)

lemma safe_code: "safe b (run_code S name C n code) b"
  by (induction code)
    (auto simp: permits_path_def Let_def intro!: safe_intros secure_then [where Q = "inv b"])

lemma safe_run_tool: "safe False (run_tool S name tool args C n) False"
  unfolding run_tool_def
  by (intro secure_then [where Q = "inv False"] safe_code safe_record_result)
    (auto simp: secure_def start_tool_def)

lemma safe_refuse: "safe b (refuse S name meta f reason rule C n) b"
  unfolding refuse_def Let_def by (intro safe_intros)

lemma safe_controlled: "safe True (controlled S T name tool meta args C n) False"
  unfolding controlled_def
  by (rule secure_then [OF safe_authorize], rule secure_cases(3), rule secure_then [OF safe_settle])
    (auto split: sum.splits decision.splits intro!: secure_give safe_refuse safe_run_tool)

text \<open>Whatever the registry did in a call, its authority backs it.\<close>

lemma call_backed:
  assumes "inv True w" "call S T name args C n (False, w) = (st, es, out)" "e \<in> set es"
  shows "backed fit said_yes e"
proof -
  obtain w1 es1 r where c: "call_recorded S T name args C n w = (w1, es1, r)"
    by (metis prod_cases3)
  with assms(2) have es: "es = es1" by (cases r) auto
  have "\<forall>e \<in> set es1. backed fit said_yes e"
  proof (cases "\<exists>tool meta. map_of T name = Some tool \<and> tl_meta tool = Some meta")
    case False
    with c show ?thesis by (auto simp: call_recorded_def split: option.splits)
  next
    case True
    then obtain tool meta where t: "map_of T name = Some tool" "tl_meta tool = Some meta" by blast
    show ?thesis
    proof (cases "name = ''approval.wait''")
      case True
      have "emits (call_recorded S T name args C n) (backed fit said_yes)"
        by (simp add: call_recorded_def t [unfolded True] True) (intro emits_then emits_record; simp add: emit)
      from emits_all [OF c this] show ?thesis .
    next
      case False
      have "safe True (call_recorded S T name args C n) False"
        by (simp add: call_recorded_def t False) (intro secure_then [OF safe_record] safe_controlled)
      from secureD [OF this assms(1) c] show ?thesis by blast
    qed
  qed
  with es assms(3) show ?thesis by simp
qed

lemma cleared_fits:
  assumes "inv True w" "call S T name args C n (False, w) = (st, pre @ post, out)"
  shows "cleared_in pre t q m \<Longrightarrow> fit t q m" "waived_in pre t q m \<Longrightarrow> said_yes t q"
proof -
  note backing = call_backed [OF assms]
  show "fit t q m" if "cleared_in pre t q m"
    using that backing [of "Judged t q m _"] unfolding cleared_in_def allowed_in_def waived_in_def
    by (fastforce simp: heard_def)
  show "said_yes t q" if "waived_in pre t q m"
    using that backing [of "AskedHuman t q _"] unfolding waived_in_def by fastforce
qed

end

section \<open>The broker as the authority\<close>

text \<open>A token the key of the broker signed, valid, live and with no revoked ancestor.\<close>

definition genuine :: "crypto \<Rightarrow> (string, token) amap \<Rightarrow> string set \<Rightarrow> token \<Rightarrow> instant \<Rightarrow> bool" where
  "genuine K I R t now \<longleftrightarrow> token_validate t = Ok () \<and> (\<exists>h. token_digest K t = Ok h \<and> verified_digest K h)
     \<and> t_sub t \<notin> R \<and> (\<exists>ts. lineage I (t_parent t) ts \<and> (\<forall>u \<in> set ts. t_sub u \<notin> R)) \<and> now < t_exp t"

text \<open>A grant of the token names the action and covers the target.\<close>

definition in_grant :: "string \<Rightarrow> token \<Rightarrow> res \<Rightarrow> act \<Rightarrow> string \<Rightarrow> bool" where
  "in_grant home t r a target \<longleftrightarrow>
     (\<exists>g \<in> set (t_grants t). g_res g = r \<and> g_act g = a \<and> matches (family_of r) (g_pattern g) target home)"

definition broker_fit :: "crypto \<Rightarrow> string \<Rightarrow> (string, token) amap \<Rightarrow> string set \<Rightarrow> token \<Rightarrow> check_request
    \<Rightarrow> instant \<Rightarrow> bool" where
  "broker_fit K home I R t q now \<longleftrightarrow> genuine K I R t now
     \<and> (cr_context q = default_context \<longrightarrow> in_grant home t (cr_res q) (cr_act q) (cr_target q))
     \<and> (cr_res q \<in> {ResFs, ResProc} \<longrightarrow> \<not> is_sensitive_path (cr_target q) home)"

text \<open>A decision of the human for the action on this target: a standing rule, or one to use once.\<close>

definition human_allows :: "approvals \<Rightarrow> token \<Rightarrow> check_request \<Rightarrow> bool" where
  "human_allows A t q \<longleftrightarrow>
     (\<exists>rule \<in> set (q_rules A). sr_decision rule = HAllow \<and> sr_action rule = action_name (cr_res q) (cr_act q)
        \<and> sr_target rule = cr_target q \<and> \<not> cr_irreversible q
        \<and> (sr_task rule = Some (t_sub t) \<or> sr_agent rule = Some (t_agent t)))
   \<or> (\<exists>(i, a) \<in> set (q_once A). a_state a = Resolved HAllow \<and> a_task a = t_sub t
        \<and> a_action a = action_name (cr_res q) (cr_act q) \<and> a_target a = cr_target q)"

definition broker_stage :: "crypto \<Rightarrow> string \<Rightarrow> (string, token) amap \<Rightarrow> string set \<Rightarrow> approvals \<Rightarrow> bool
    \<Rightarrow> broker_world \<Rightarrow> bool" where
  "broker_stage K home I R A fresh w \<longleftrightarrow> broker_inv K (bw_broker w)
     \<and> br_policy (bw_broker w) = default_engine \<and> br_home (bw_broker w) = home
     \<and> br_issued (bw_broker w) = I \<and> br_revoked (bw_broker w) = R
     \<and> (fresh \<longrightarrow> br_approvals (bw_broker w) = A)"

lemma decide_names_grant:
  assumes "decide B t q = d" "heard d" "cr_context q = default_context"
  shows "in_grant (br_home B) t (cr_res q) (cr_act q) (cr_target q)"
proof -
  let ?x = "context_for B q"
  have x: "x_target ?x = cr_target q" "x_home ?x = br_home B"
    using assms(3) by (simp_all add: context_for_def default_context_def)
  have "heard (find_grant t (cr_res q) (cr_act q) ?x)"
    using assms(1,2) by (cases "find_grant t (cr_res q) (cr_act q) ?x")
      (auto simp: decide_def Let_def split: if_splits)
  then show ?thesis
  proof (cases rule: find_grant_cases [of t "cr_res q" "cr_act q" ?x])
    case (first pre g post)
    from deciding_candidate [OF first(3)] first(1) x show ?thesis
      by (auto simp: in_grant_def candidate.simps)
  qed (auto simp: deny_def split: if_splits)
qed

lemma broker_fits:
  assumes "broker_stage K home I R A b w" "broker_check K w t q n = Some (w', d)"
  shows "broker_stage K home I R A b w' \<and> (heard d \<longrightarrow> broker_fit K home I R t q n)"
proof -
  let ?B = "bw_broker w"
  from assms(2) obtain B' r where c: "check K ?B t q n = Some (B', r)" "w' = w\<lparr>bw_broker := B'\<rparr>"
    "d = (case r of Inl _ \<Rightarrow> deny PolicyDenied | Inr d \<Rightarrow> d)"
    by (auto simp: broker_check_def split: option.splits sum.splits)
  from c(1) obtain V C where B': "B' = ?B\<lparr>br_verified := V, br_policy_cache := C\<rparr>" by (rule check_state)
  from assms(1) check_inv [OF _ c(1)] have "broker_stage K home I R A b w'"
    by (simp add: broker_stage_def c(2) B')
  moreover have "broker_fit K home I R t q n" if "heard d"
  proof -
    from that c(3) have r: "r = Ok d" by (cases r) (auto simp: deny_def)
    from assms(1) heard_facts [OF _ _ c(1) [unfolded r] that] decide_names_grant [OF _ that, of ?B t q]
    show ?thesis by (auto simp: broker_stage_def broker_fit_def genuine_def)
  qed
  ultimately show ?thesis by blast
qed

lemma broker_asks:
  assumes "broker_stage K home I R A True w" "broker_request ident w t q s n = Some (w', a)"
  shows "broker_stage K home I R A False w'
    \<and> (\<forall>x. a = Some x \<longrightarrow> a_state x = Resolved HAllow \<longrightarrow> human_allows A t q)"
proof -
  let ?r = "\<lparr>rq_task = t_sub t, rq_agent = t_agent t, rq_action = action_name (cr_res q) (cr_act q),
            rq_target = cr_target q, rq_summary = s, rq_irreversible = cr_irreversible q,
            rq_external = cr_external q\<rparr>"
  from assms(1) have A: "br_approvals (bw_broker w) = A" and inv: "broker_inv K (bw_broker w)"
    by (simp_all add: broker_stage_def)
  from assms(2) A obtain A' x where rq: "request A (ident (bw_next w)) ?r n = Some (A', x)" "a = Some x"
    "w' = w\<lparr>bw_broker := (bw_broker w)\<lparr>br_approvals := A'\<rparr>, bw_next := bw_next w + 1\<rparr>"
    by (auto simp: broker_request_def request_approval_def Let_def split: option.splits)
  from rq(1) A have "broker_step K (bw_broker w) ((bw_broker w)\<lparr>br_approvals := A'\<rparr>)"
    by (intro step_queue [of _ "EvRequest (ident (bw_next w)) ?r n" _ "OutApproval x"]) simp
  from broker.inv_preserved [OF this inv] assms(1) rq(3) have "broker_stage K home I R A False w'"
    by (simp add: broker_stage_def)
  moreover have "human_allows A t q" if "a_state x = Resolved HAllow"
    using rq(1)
  proof (cases rule: request_cases)
    case (rule rule expiry)
    with that have "sr_decision rule = HAllow" "\<not> cr_irreversible q" by auto
    with rule(2,3) show ?thesis
      by (auto simp: human_allows_def rule_covers_def new_approval_def split: if_splits option.splits)
  next
    case (once j b expiry)
    with that show ?thesis
      by (auto simp: human_allows_def same_action_def new_approval_def)
  next
    case (queued expiry)
    with that show ?thesis by (simp add: new_approval_def)
  qed
  ultimately show ?thesis using rq(2) by simp
qed

interpretation brokered: authority "broker_services K ident others X" "broker_stage K home I R A"
    "broker_fit K home I R" "human_allows A" for K ident others X home I R A
proof unfold_locales
  fix b w t q n w' d
  assume "broker_stage K home I R A b w" "sv_check (broker_services K ident others X) w t q n = Some (w', d)"
  then show "broker_stage K home I R A b w' \<and> (heard d \<longrightarrow> broker_fit K home I R t q n)"
    by (intro broker_fits) (simp_all add: broker_services_def)
next
  fix w t q s n w' a
  assume "broker_stage K home I R A True w"
    "sv_request (broker_services K ident others X) w t q s n = Some (w', a)"
  then show "broker_stage K home I R A False w'
      \<and> (\<forall>x. a = Some x \<longrightarrow> a_state x = Resolved HAllow \<longrightarrow> human_allows A t q)"
    by (intro broker_asks) (simp_all add: broker_services_def)
qed (auto simp: broker_stage_def broker_services_def memory_record_def)

section \<open>A small registry\<close>

definition reader :: tool where
  "reader = \<lparr>tl_meta = Some \<lparr>tm_requires = ''fs.read'', tm_irreversible = False, tm_external = False,
       tm_sandbox_level_min = None\<rparr>,
     tl_target = (\<lambda>args C. as_str (field ''path'' args)), tl_effects = default_effects,
     tl_code = (\<lambda>args C. AskPath 5 ActRead ''/home/u/ventes/q4.csv''
       (\<lambda>b. Return (CrStructured (JObj [(''more'', JBool b)]))))\<rparr>"

definition demo_tools :: tools where
  "demo_tools = [(''fs.read'', reader)]"

definition demo_texts :: texts where
  "demo_texts = \<lparr>tx_text = (\<lambda>v. ''v''), tx_blake3 = id, tx_debug = id, tx_result_digest = (\<lambda>r. ''r'')\<rparr>"

definition read_args :: json where
  "read_args = JObj [(''path'', JStr ''/home/u/ventes/q3.csv'')]"

definition agent_minted :: "broker \<times> (broker_error + token)" where
  "agent_minted = mint demo_crypto demo_broker
     (sales_manifest\<lparr>m_capabilities := [(''tool.call'', [''fs.*'']), (''fs.read'', [''~/ventes/**''])]\<rparr>)
     ''task:01'' ''u'' [grant_new ResTool ActCall ''fs.read'', grant_new ResFs ActRead ''~/ventes/**''] 1800 0 ''n''"

definition agent_context :: "token \<Rightarrow> tool_context" where
  "agent_context t = \<lparr>tc_token = t, tc_task = ''task:01'', tc_home = ''/home/u'', tc_workdir = ''/w'',
     tc_sandbox_level = 0, tc_step = 1\<rparr>"

definition demo_services :: "broker_world services" where
  "demo_services = broker_services demo_crypto show_nat (\<lambda>B. B) demo_texts"

definition agent_world :: broker_world where
  "agent_world = \<lparr>bw_broker = fst agent_minted, bw_events = [], bw_next = 0, bw_clock = 0\<rparr>"

definition agent_token :: token where
  "agent_token = (case snd agent_minted of Inr t \<Rightarrow> t | Inl _ \<Rightarrow> sales_token)"

definition agent_call :: "(bool \<times> broker_world) \<times> tool_event list \<times> call_result option" where
  "agent_call = call demo_services demo_tools ''fs.read'' read_args (agent_context agent_token) 10 (False, agent_world)"

lemma agent_call_runs:
  obtains w' es e where "agent_call = ((False, w'), es, Some (CrStructured (JObj [(''more'', JBool True)])))"
    "e \<in> set es" "is_run e"
proof -
  have ev: "list_ex is_run (fst (snd agent_call)) \<and> \<not> fst (fst agent_call)
    \<and> snd (snd agent_call) = Some (CrStructured (JObj [(''more'', JBool True)]))"
    by code_simp
  obtain failed w' es out where c: "agent_call = ((failed, w'), es, out)" by (metis prod.exhaust)
  from ev have "list_ex is_run es \<and> \<not> failed \<and> out = Some (CrStructured (JObj [(''more'', JBool True)]))"
    unfolding c by simp
  with that c show ?thesis by (auto simp: list_ex_iff)
qed

section \<open>Properties\<close>

text \<open>
  C12. Complete mediation. Whoever the authority and the journal are, if the code of a tool runs in a
  call, it is the tool of that name, once, and before it the event of the call was taken by the
  journal, the task of the call is that of its token, its level is enough, and for the call of this
  tool, and for the resource it aims at, the authority allowed the very request, or it wanted a human
  who said yes to it (a yes to the call is enough for both). After it there are only checks and
  events, and a result is given back only once its own event was taken.
\<close>

theorem tools_run_mediated:
  assumes "call S T name args C now (False, w) = ((failed, w'), es, out)" "e \<in> set es" "is_run e"
  shows "\<exists>pre post. es = pre @ Ran name args C # post \<and> entitled S T pre name args C now
    \<and> (\<forall>e \<in> set pre. \<not> is_run e) \<and> (\<forall>e \<in> set post. is_check_or_record e)
    \<and> (\<forall>r. out = Some r \<longrightarrow> \<not> failed \<longrightarrow> last es = Recorded (result_draft S name r C now) True)"
proof -
  obtain w1 es1 r where c: "call_recorded S T name args C now w = (w1, es1, r)"
    by (metis prod_cases3)
  with assms(1) have "es = es1 \<and> (\<forall>x. out = Some x \<longrightarrow> \<not> failed \<longrightarrow> r = Gives x)"
    by (cases r) auto
  then have eqs: "es = es1" "\<forall>x. out = Some x \<longrightarrow> \<not> failed \<longrightarrow> r = Gives x" by blast+
  from c show ?thesis
  proof (cases rule: call_recorded_cases)
    case kept
    with assms(2,3) eqs(1) have False by simp
    then show ?thesis ..
  next
    case (ran pre post)
    then have "last es = last (Ran name args C # post)" by (simp add: eqs(1))
    with ran(5) eqs(2) have "\<forall>r. out = Some r \<longrightarrow> \<not> failed \<longrightarrow>
        last es = Recorded (result_draft S name r C now) True" by metis
    with ran(1-4) eqs(1) show ?thesis by blast
  qed
qed

theorem tools_run_mediated_witness:
  "\<exists>st es out pre post. call demo_services demo_tools ''fs.read'' read_args (agent_context agent_token) 10
       (False, agent_world) = (st, es, out)
     \<and> es = pre @ Ran ''fs.read'' read_args (agent_context agent_token) # post
     \<and> entitled demo_services demo_tools pre ''fs.read'' read_args (agent_context agent_token) 10
     \<and> last es = Recorded (result_draft demo_services ''fs.read'' (CrStructured (JObj [(''more'', JBool True)]))
          (agent_context agent_token) 10) True"
proof -
  obtain w' es e where c: "agent_call = ((False, w'), es, Some (CrStructured (JObj [(''more'', JBool True)])))"
    "e \<in> set es" "is_run e" by (rule agent_call_runs)
  from tools_run_mediated [OF c(1) [unfolded agent_call_def] c(2,3)] c(1) show ?thesis
    unfolding agent_call_def by fastforce
qed

text \<open>
  C37. A journal that does not take an event stops the tools. In any sequence of calls on one
  registry, an event is refused exactly when the registry is shut at the end; it is then the last
  thing done, whatever the calls that follow: no check, no question to the human, no tool; and from
  the call that met it on, every call answers that the action may have taken place.
\<close>

theorem journal_failure_stops_tools:
  assumes "calls S T cs (False, w) = ((failed, w'), es, outs)"
  shows "((\<exists>e \<in> set es. unkept e) \<longleftrightarrow> failed)
    \<and> (failed \<longrightarrow> (\<exists>pre d. es = pre @ [Recorded d False] \<and> (\<forall>e \<in> set pre. \<not> unkept e))
        \<and> (\<exists>n < length outs. length outs = length cs
             \<and> (\<forall>i. n \<le> i \<longrightarrow> i < length outs \<longrightarrow> outs ! i = journal_error)))"
  using calls_stop [OF assms] by (cases failed) auto

text \<open>An authority that allows everything, with a journal that takes one event.\<close>

definition full_journal :: "nat services" where
  "full_journal = \<lparr>sv_check = (\<lambda>w t q n. Some (w, Allow 0)), sv_request = (\<lambda>w t q s n. Some (w, None)),
     sv_status = (\<lambda>w i. None), sv_explain = (\<lambda>w i m. w), sv_record = (\<lambda>w d. (w + 1, w < 1)),
     sv_clock = id, sv_pause = id, sv_text = (\<lambda>v. ''v''), sv_blake3 = id, sv_debug = id,
     sv_result_digest = (\<lambda>r. ''r'')\<rparr>"

definition two_reads :: "tool_call list" where
  "two_reads = [(''fs.read'', read_args, agent_context sales_token, 10),
     (''fs.read'', read_args, agent_context sales_token, 20)]"

lemma two_reads_shut: "case calls full_journal demo_tools two_reads (False, 0) of ((failed, w), es, outs) \<Rightarrow>
    failed \<and> outs = [journal_error, journal_error] \<and> length (filter is_run es) = 1"
  by code_simp

theorem journal_failure_stops_tools_witness:
  "\<exists>w es d pre. calls full_journal demo_tools two_reads (False, 0)
       = ((True, w), es, [journal_error, journal_error])
     \<and> es = pre @ [Recorded d False] \<and> length (filter is_run es) = 1"
proof -
  from two_reads_shut obtain w es where c: "calls full_journal demo_tools two_reads (False, 0)
       = ((True, w), es, [journal_error, journal_error])" "length (filter is_run es) = 1"
    by (auto split: prod.splits)
  with journal_failure_stops_tools [OF c(1)] show ?thesis by auto
qed

text \<open>
  C13. With the broker behind the registry, a tool that runs in a call was called with a token the
  broker signed, valid, live, with no revoked ancestor and of the task of the call; the tool is one the
  token makes visible; and the resource of the call is covered by a grant of the token for that very
  action and is not a sensitive path, unless the tool declares none, or the human had allowed the call
  of this tool, by a decision to use once or a standing rule, which never covers an irreversible call.
\<close>

theorem tool_needs_signed_grant:
  assumes "broker_inv K (bw_broker w)" "br_policy (bw_broker w) = default_engine"
    and "call (broker_services K ident others X) T name args C now (False, w) = (st, es, out)"
    and "e \<in> set es" "is_run e"
  shows "\<exists>tool meta r a. map_of T name = Some tool \<and> tl_meta tool = Some meta
    \<and> parse_requires (tm_requires meta) = Some (r, a) \<and> admissible meta (r, a) C
    \<and> genuine K (br_issued (bw_broker w)) (br_revoked (bw_broker w)) (tc_token C) now
    \<and> name \<in> set (visible_for T (tc_token C))
    \<and> (r = ResTool
       \<or> human_allows (br_approvals (bw_broker w)) (tc_token C) (call_request name tool meta args C)
       \<or> (\<exists>target. aims_at tool args C target \<and> in_grant (br_home (bw_broker w)) (tc_token C) r a target
            \<and> (r \<in> {ResFs, ResProc} \<longrightarrow> \<not> is_sensitive_path target (br_home (bw_broker w)))))"
proof -
  let ?S = "broker_services K ident others X" and ?B = "bw_broker w"
  obtain w1 es1 r1 where c: "call_recorded ?S T name args C now w = (w1, es1, r1)"
    by (metis prod_cases3)
  with assms(3) have es: "es = es1" by (cases r1) auto
  from c obtain pre post where ran: "es = pre @ Ran name args C # post" "entitled ?S T pre name args C now"
    by (cases rule: call_recorded_cases) (use assms(4,5) es in auto)
  have stage: "broker_stage K (br_home ?B) (br_issued ?B) (br_revoked ?B) (br_approvals ?B) True w"
    using assms(1,2) by (simp add: broker_stage_def)
  note facts = brokered.cleared_fits [OF stage, of ident others X T name args C now st pre "Ran name args C # post" out]
  note facts = facts [OF assms(3) [unfolded ran(1)]]
  have shape: "cr_res (call_request name tool meta args C) = ResTool" "cr_act (call_request name tool meta args C) = ActCall"
    "cr_target (call_request name tool meta args C) = name"
    "cr_context (call_request name tool meta args C) = default_context"
    "cr_res (resource_request r a target tool meta args C) = r"
    "cr_act (resource_request r a target tool meta args C) = a"
    "cr_target (resource_request r a target tool meta args C) = target"
    "cr_context (resource_request r a target tool meta args C) = default_context" for tool meta r a target
    by (simp_all add: call_request_def resource_request_def with_effects_def check_request_new_def)
  from ran(2) obtain tool meta r a where t: "map_of T name = Some tool" "tl_meta tool = Some meta"
    "parse_requires (tm_requires meta) = Some (r, a)" "admissible meta (r, a) C"
    "cleared_in pre (tc_token C) (call_request name tool meta args C) now"
    "r = ResTool \<or> waived_in pre (tc_token C) (call_request name tool meta args C) now
      \<or> (\<exists>target. aims_at tool args C target
           \<and> cleared_in pre (tc_token C) (resource_request r a target tool meta args C) now)"
    unfolding entitled_def by blast
  from facts(1) [OF t(5)] have fit: "genuine K (br_issued ?B) (br_revoked ?B) (tc_token C) now"
    "in_grant (br_home ?B) (tc_token C) ResTool ActCall name"
    by (simp_all add: broker_fit_def shape)
  from t(1) have "name \<in> fst ` set T" by (rule map_of_SomeD [THEN image_eqI [rotated]]) simp
  with fit(2) have "name \<in> set (visible_for T (tc_token C))"
    by (auto simp: visible_for_def in_grant_def list_ex_iff matches_def)
  moreover from t(6) have "r = ResTool
       \<or> human_allows (br_approvals ?B) (tc_token C) (call_request name tool meta args C)
       \<or> (\<exists>target. aims_at tool args C target \<and> in_grant (br_home ?B) (tc_token C) r a target
            \<and> (r \<in> {ResFs, ResProc} \<longrightarrow> \<not> is_sensitive_path target (br_home ?B)))"
    using facts(1) [of "tc_token C" "resource_request r a _ tool meta args C" now] facts(2)
    by (fastforce simp: broker_fit_def shape)
  ultimately show ?thesis using t(1-4) fit(1) by blast
qed

lemma agent_world_ok: "broker_inv demo_crypto (bw_broker agent_world)"
  "br_policy (bw_broker agent_world) = default_engine"
proof -
  obtain B r where m: "agent_minted = (B, r)" by fastforce
  have "broker_inv demo_crypto B"
    by (rule mint_inv [OF broker_inv_new m [unfolded agent_minted_def demo_broker_def]])
      (simp add: digest_agrees_def broker_new_def)
  moreover have "br_policy B = default_engine"
    using m unfolding agent_minted_def demo_broker_def by (auto elim!: mint_cases simp: broker_new_def)
  ultimately show "broker_inv demo_crypto (bw_broker agent_world)"
    "br_policy (bw_broker agent_world) = default_engine" by (simp_all add: agent_world_def m)
qed

theorem tool_needs_signed_grant_witness:
  "genuine demo_crypto (br_issued (fst agent_minted)) (br_revoked (fst agent_minted)) agent_token 10
    \<and> ''fs.read'' \<in> set (visible_for demo_tools agent_token)"
proof -
  obtain w' es e where c: "agent_call = ((False, w'), es, Some (CrStructured (JObj [(''more'', JBool True)])))"
    "e \<in> set es" "is_run e" by (rule agent_call_runs)
  from tool_needs_signed_grant [OF agent_world_ok c(1) [unfolded agent_call_def demo_services_def] c(2,3)]
  show ?thesis by (auto simp: agent_world_def agent_context_def)
qed

end
