(* ===== verification/Mcp_Clients.thy ===== *)
theory Mcp_Clients
  imports Mcp_Safe
begin

text \<open>
  The callers of the registry: the wait for a decision of the human ends and tells what was decided, a
  session serves tools after its handshake only, and a yes of the human to the call of a tool stands
  for the resource it aims at.
\<close>

section \<open>Waiting for the human\<close>

fun wait_answer :: "approval_state \<Rightarrow> string" where
  "wait_answer Pending = ''pending''"
| "wait_answer (Resolved HAllow) = ''allowed''"
| "wait_answer (Resolved HDeny) = ''denied''"
| "wait_answer ExpiredState = ''expired''"

lemma wait_loop_ends:
  assumes "\<And>w. sv_clock S w + 500 \<le> sv_clock S (sv_pause S w)"
    and "started \<le> sv_clock S w" "timeout * 1000 \<le> sv_clock S w - started + 500 * k"
  shows "\<exists>n \<le> k. wait_loop S i started timeout w =
      Some ((sv_pause S ^^ n) w, map_option (\<lambda>a. (wait_answer (a_state a), a)) (sv_status S ((sv_pause S ^^ n) w) i))
    \<and> (\<forall>a. sv_status S ((sv_pause S ^^ n) w) i = Some a \<longrightarrow> a_state a = Pending \<longrightarrow>
         started + timeout * 1000 \<le> sv_clock S ((sv_pause S ^^ n) w))"
  using assms(2,3)
proof (induction k arbitrary: w)
  case 0
  then show ?case
    by (subst wait_loop.simps)
      (auto split: option.splits approval_state.splits human_decision.splits)
next
  case (Suc k)
  show ?case
  proof (cases "\<exists>a. sv_status S w i = Some a \<and> a_state a = Pending \<and> \<not> timeout * 1000 \<le> sv_clock S w - started")
    case False
    then show ?thesis
      using Suc.prems
      by (intro exI [of _ 0], subst wait_loop.simps)
        (auto split: option.splits approval_state.splits human_decision.splits)
  next
    case True
    then have step: "wait_loop S i started timeout w = wait_loop S i started timeout (sv_pause S w)"
      by (subst wait_loop.simps) auto
    from assms(1) [of w] Suc.prems have "started \<le> sv_clock S (sv_pause S w)"
      "timeout * 1000 \<le> sv_clock S (sv_pause S w) - started + 500 * k"
      by (simp_all add: algebra_simps)
    from Suc.IH [OF this] obtain n where "n \<le> k" "wait_loop S i started timeout (sv_pause S w) =
        Some ((sv_pause S ^^ n) (sv_pause S w),
          map_option (\<lambda>a. (wait_answer (a_state a), a)) (sv_status S ((sv_pause S ^^ n) (sv_pause S w)) i))"
      "\<forall>a. sv_status S ((sv_pause S ^^ n) (sv_pause S w)) i = Some a \<longrightarrow> a_state a = Pending \<longrightarrow>
         started + timeout * 1000 \<le> sv_clock S ((sv_pause S ^^ n) (sv_pause S w))"
      by blast
    with step show ?thesis by (intro exI [of _ "Suc n"]) (simp add: funpow_swap1)
  qed
qed

text \<open>
  C38. The wait for a decision ends, and does not make one up. Where a pause lasts at least half a
  second, \<^verbatim>\<open>approval.wait\<close> returns after at most ninety pauses, has done nothing the journal would have
  to show, and answers with the state of the request at that moment: allowed or denied as the human
  decided, or still pending, and then only once the time asked for has gone by.
\<close>

theorem approval_wait_ends:
  assumes "\<And>w. sv_clock S w + 500 \<le> sv_clock S (sv_pause S w)"
    and "as_str (field ''id'' args) = Some i" "i \<noteq> []"
  shows "\<exists>n \<le> 90. let w1 = join_reason S i args w; w' = (sv_pause S ^^ n) w1
    in attendre_approbation S args w = (w', [], Gives (case sv_status S w' i of
           None \<Rightarrow> CrError CodeNotFound plain
         | Some a \<Rightarrow> CrStructured (JObj [(''id'', JStr i), (''state'', JStr (wait_answer (a_state a))),
             (''summary'', JStr (a_summary a)), (''reason'', opt_str (a_reason a))])))
     \<and> (\<forall>a. sv_status S w' i = Some a \<longrightarrow> a_state a = Pending \<longrightarrow>
          sv_clock S w1 + wait_timeout args * 1000 \<le> sv_clock S w')"
proof -
  let ?w = "join_reason S i args w"
  have t: "wait_timeout args * 1000 \<le> sv_clock S ?w - sv_clock S ?w + 500 * 90"
    by (simp add: wait_timeout_def)
  from wait_loop_ends [OF assms(1) order_refl t, of i]
  obtain n where "n \<le> 90" "wait_loop S i (sv_clock S ?w) (wait_timeout args) ?w =
      Some ((sv_pause S ^^ n) ?w, map_option (\<lambda>a. (wait_answer (a_state a), a)) (sv_status S ((sv_pause S ^^ n) ?w) i))"
    "\<forall>a. sv_status S ((sv_pause S ^^ n) ?w) i = Some a \<longrightarrow> a_state a = Pending \<longrightarrow>
         sv_clock S ?w + wait_timeout args * 1000 \<le> sv_clock S ((sv_pause S ^^ n) ?w)"
    by blast
  then show ?thesis
    using assms(2,3)
    by (intro exI [of _ n]) (auto simp: attendre_approbation_def Let_def give_def split: option.splits)
qed

text \<open>A clock in the world; the human says yes after a second.\<close>

definition waiting :: "nat services" where
  "waiting = full_journal\<lparr>sv_pause := (\<lambda>w. w + 500), sv_status := (\<lambda>w i.
     Some ((new_approval i payment 0 0)\<lparr>a_state := (if w < 1000 then Pending else Resolved HAllow)\<rparr>))\<rparr>"

definition wait_args :: json where
  "wait_args = JObj [(''id'', JStr ''a1''), (''timeout_s'', JInt 2)]"

theorem approval_wait_ends_witness:
  "\<exists>n \<le> 90. attendre_approbation waiting wait_args 0 = ((sv_pause waiting ^^ n) 0, [],
     Gives (CrStructured (JObj [(''id'', JStr ''a1''), (''state'', JStr ''allowed''),
       (''summary'', JStr ''87 EUR''), (''reason'', JNull)])))"
proof -
  have ev: "attendre_approbation waiting wait_args 0 = (1000, [],
     Gives (CrStructured (JObj [(''id'', JStr ''a1''), (''state'', JStr ''allowed''),
       (''summary'', JStr ''87 EUR''), (''reason'', JNull)])))" by code_simp
  have "join_reason waiting ''a1'' wait_args 0 = 0" by code_simp
  moreover have "sv_clock waiting w + 500 \<le> sv_clock waiting (sv_pause waiting w)" for w
    by (simp add: waiting_def full_journal_def)
  ultimately obtain n where "n \<le> 90" "fst (attendre_approbation waiting wait_args 0) = (sv_pause waiting ^^ n) 0"
    using approval_wait_ends [of waiting wait_args "''a1''" 0] by (auto simp: wait_args_def Let_def)
  with ev show ?thesis by auto
qed

section \<open>Sessions\<close>

fun is_initialize_reply :: "rpc_reply \<Rightarrow> bool" where
  "is_initialize_reply (RpcResult _ InitializeResult) = True"
| "is_initialize_reply _ = False"

fun is_call_reply :: "rpc_reply \<Rightarrow> bool" where
  "is_call_reply (RpcResult _ (ToolResultOf _)) = True"
| "is_call_reply _ = False"

fun is_tool_reply :: "rpc_reply \<Rightarrow> bool" where
  "is_tool_reply (RpcResult _ (ToolResultOf _)) = True"
| "is_tool_reply (RpcResult _ (ToolList _)) = True"
| "is_tool_reply _ = False"

definition runs :: "tool_event list \<Rightarrow> nat" where
  "runs es = length (filter is_run es)"

lemma runs_simps [simp]: "runs [] = 0" "runs (a @ b) = runs a + runs b"
  by (simp_all add: runs_def)

lemma call_runs_once: "call S T name args C now rw = (rw', es, out) \<Longrightarrow> runs es \<le> 1"
proof (cases rw)
  case (Pair failed w)
  assume c: "call S T name args C now rw = (rw', es, out)"
  show ?thesis
  proof (cases failed)
    case True
    with c Pair show ?thesis by auto
  next
    case False
    obtain w1 es1 r where r: "call_recorded S T name args C now w = (w1, es1, r)" by (metis prod_cases3)
    with c Pair False have "es = es1" by (cases r) auto
    with r show ?thesis
    proof (cases rule: call_recorded_cases)
      case kept
      with \<open>es = es1\<close> show ?thesis by (simp add: runs_def filter_empty_conv)
    next
      case (ran pre post)
      have "\<forall>e \<in> set post. \<not> is_run e" using ran(3) by (metis is_check_or_record.simps(4) is_run.elims(2))
      with ran(1,2) \<open>es = es1\<close> show ?thesis by (simp add: runs_def filter_empty_conv)
    qed
  qed
qed

text \<open>What one message does to a session, by its phase.\<close>

lemma handle_step:
  assumes "handle E line now (ph, rw) = ((ph', rw'), es, out)"
  shows "(ph \<noteq> PhaseReady \<longrightarrow> es = [] \<and> (\<forall>r. out = Replies r \<longrightarrow> \<not> is_tool_reply r) \<and> out \<noteq> Hangs)
    \<and> (ph = PhaseNew \<longrightarrow> ph' \<noteq> PhaseNew \<longrightarrow> (\<exists>r. out = Replies r \<and> is_initialize_reply r))
    \<and> (ph = PhaseNew \<longrightarrow> ph' \<noteq> PhaseReady)
    \<and> (ph \<noteq> PhaseNew \<longrightarrow> ph' \<noteq> PhaseNew \<and> (\<forall>r. out = Replies r \<longrightarrow> \<not> is_initialize_reply r))
    \<and> (ph = PhaseNew \<longrightarrow> (\<exists>r. out = Replies r \<and> is_initialize_reply r) \<longrightarrow> ph' \<noteq> PhaseNew)
    \<and> runs es \<le> (case out of NoReply \<Rightarrow> 0 | Replies r \<Rightarrow> if is_call_reply r then 1 else 0 | Hangs \<Rightarrow> 1)"
  using assms
  by (auto dest!: call_runs_once simp: handle_def handle_notification_def handle_request_def tools_call_def Let_def
      split: if_splits option.splits prod.splits)

lemma serve_cases:
  assumes "serve E input st = (st', es, replies, how)"
  obtains (stop) "st' = st" "es = []" "replies = []" "how \<noteq> CallHangs"
    | (skip) rest where "length rest < length input" "serve E rest st = (st', es, replies, how)"
    | (hang) line where "handle E line (ss_now E (snd (snd st))) st = (st', es, Hangs)" "replies = []"
        "how = CallHangs"
    | (silent) line rest st1 es1 es2 where "length rest < length input"
        "handle E line (ss_now E (snd (snd st))) st = (st1, es1, NoReply)"
        "serve E rest st1 = (st', es2, replies, how)" "es = es1 @ es2"
    | (answered) line rest st1 es1 es2 r out where "length rest < length input"
        "handle E line (ss_now E (snd (snd st))) st = (st1, es1, Replies r)"
        "serve E rest st1 = (st', es2, out, how)" "es = es1 @ es2" "replies = r # out"
proof -
  obtain line rest where l: "take_line input = (line, rest)" by (cases "take_line input")
  obtain st1 es1 r where h: "handle E line (ss_now E (snd (snd st))) st = (st1, es1, r)"
    by (metis prod_cases3)
  show ?thesis
  proof (cases "line = [] \<or> MAX_INPUT_BYTES < length line \<or> last line \<noteq> CHR 0x0A \<or> \<not> utf8_valid line")
    case True
    with assms l show ?thesis
      by (intro stop) (auto simp: serve.simps [of E input st] split: if_splits)
  next
    case False
    with take_line_append [OF l] have less: "length rest < length input" by simp
    have eq: "serve E input st = (if trim line = [] then serve E rest st
         else case r of Hangs \<Rightarrow> (st1, es1, [], CallHangs)
           | NoReply \<Rightarrow> (case serve E rest st1 of (st2, es2, out, e) \<Rightarrow> (st2, es1 @ es2, out, e))
           | Replies r \<Rightarrow> (case serve E rest st1 of (st2, es2, out, e) \<Rightarrow> (st2, es1 @ es2, r # out, e)))"
      using False by (subst serve.simps) (simp add: l h split: handled.splits)
    obtain st2 es2 out e where rest: "serve E rest st1 = (st2, es2, out, e)" by (metis prod_cases4)
    from assms eq h rest skip [OF less] hang [of line] silent [OF less, of line] answered [OF less, of line]
    show ?thesis
      by (auto split: if_splits handled.splits)
  qed
qed

lemma serve_discipline:
  assumes "serve E input (ph, rw) = (st', es, replies, how)"
  shows "runs es \<le> length (filter is_call_reply replies) + (if how = CallHangs then 1 else 0)
    \<and> length (filter is_initialize_reply replies) \<le> (if ph = PhaseNew then 1 else 0)
    \<and> (ph = PhaseNew \<longrightarrow> (\<forall>pre r post. replies = pre @ r # post \<longrightarrow> is_tool_reply r \<longrightarrow>
         (\<exists>x \<in> set pre. is_initialize_reply x)))
    \<and> (ph = PhaseNew \<longrightarrow> how = CallHangs \<longrightarrow> (\<exists>x \<in> set replies. is_initialize_reply x))"
  using assms
proof (induction "length input" arbitrary: input ph rw es replies rule: less_induct)
  case less
  from less.prems show ?case
  proof (cases rule: serve_cases)
    case stop
    then show ?thesis by simp
  next
    case (skip rest)
    from less.hyps [OF skip(1) skip(2)] show ?thesis .
  next
    case (hang line)
    obtain ph1 rw1 where "st' = (ph1, rw1)" by (cases st')
    with handle_step [OF hang(1) [unfolded this]] hang(2,3) show ?thesis by auto
  next
    case (silent line rest st1 es1 es2)
    obtain ph1 rw1 where st1: "st1 = (ph1, rw1)" by (cases st1)
    from handle_step [OF silent(2) [unfolded st1]]
      less.hyps [OF silent(1) silent(3) [unfolded st1]] silent(4)
    show ?thesis by (cases "ph = PhaseNew") auto
  next
    case (answered line rest st1 es1 es2 r out)
    obtain ph1 rw1 where st1: "st1 = (ph1, rw1)" by (cases st1)
    note one = handle_step [OF answered(2) [unfolded st1]]
    note rest = less.hyps [OF answered(1) answered(3) [unfolded st1]]
    show ?thesis
    proof (cases "ph = PhaseNew")
      case True
      show ?thesis
      proof (cases "ph1 = PhaseNew")
        case new: True
        with one rest True answered(4,5) show ?thesis by (auto simp: Cons_eq_append_conv)
      next
        case False
        with one rest True answered(4,5) show ?thesis by (auto simp: Cons_eq_append_conv)
      qed
    next
      case False
      with one rest answered(4,5) show ?thesis by auto
    qed
  qed
qed

text \<open>
  C39. A session serves tools after its handshake only. Over any stream of bytes from its start, the
  code of a tool runs at most once for each answer to a call (and once more when the last call never
  returns), the handshake is answered at most once, and no tool is listed or called before it: every
  such answer comes after that of the handshake. A notification, a message without identifier, a
  line too long, unfinished or not UTF-8 runs nothing.
\<close>

theorem session_serves_after_handshake:
  assumes "serve E input (PhaseNew, rw) = (st, es, replies, how)"
  shows "runs es \<le> length (filter is_call_reply replies) + (if how = CallHangs then 1 else 0)
    \<and> length (filter is_initialize_reply replies) \<le> 1
    \<and> (\<forall>pre r post. replies = pre @ r # post \<longrightarrow> is_tool_reply r \<longrightarrow> (\<exists>x \<in> set pre. is_initialize_reply x))
    \<and> (0 < runs es \<longrightarrow> (\<exists>x \<in> set replies. is_initialize_reply x))"
proof -
  note facts = serve_discipline [OF assms]
  have "\<exists>x \<in> set replies. is_initialize_reply x" if "0 < runs es"
  proof (cases "how = CallHangs")
    case False
    with facts that have "filter is_call_reply replies \<noteq> []" by auto
    then obtain r where r: "r \<in> set replies" "is_call_reply r" by (auto simp: filter_empty_conv)
    from r(1) obtain pre post where "replies = pre @ r # post" by (auto simp: in_set_conv_decomp)
    moreover have "is_tool_reply r" using r(2) by (cases r rule: is_call_reply.cases) auto
    ultimately show ?thesis using facts by fastforce
  qed (use facts in simp)
  with facts show ?thesis by auto
qed

text \<open>A client that calls too early, then shakes hands, then calls; the lines are numbers.\<close>

definition rpc :: "json option \<Rightarrow> string \<Rightarrow> json \<Rightarrow> json" where
  "rpc i method params = JObj ((''jsonrpc'', JStr ''2.0'') # (case i of None \<Rightarrow> [] | Some i \<Rightarrow> [(''id'', i)])
     @ [(''method'', JStr method), (''params'', params)])"

definition demo_client :: "(string \<times> json) list" where
  "demo_client =
    (let call = JObj [(''name'', JStr ''fs.read''), (''arguments'', read_args)]
     in [([CHR ''1'', CHR 0x0A], rpc (Some (JInt 1)) ''tools/call'' call),
       ([CHR ''2'', CHR 0x0A], rpc (Some (JInt 2)) ''initialize'' (JObj [(''protocolVersion'', JStr ''x''),
          (''capabilities'', JObj []), (''clientInfo'', JObj [(''name'', JStr ''c''), (''version'', JStr ''1'')])])),
       ([CHR ''3'', CHR 0x0A], rpc None ''notifications/initialized'' (JObj [])),
       ([CHR ''4'', CHR 0x0A], rpc (Some (JInt 4)) ''tools/call'' call)])"

definition demo_session :: "nat session" where
  "demo_session = \<lparr>ss_services = full_journal\<lparr>sv_record := (\<lambda>w d. (w + 1, True))\<rparr>, ss_tools = demo_tools,
     ss_context = agent_context sales_token, ss_read = map_of demo_client, ss_now = (\<lambda>w. 10)\<rparr>"

lemma demo_stream:
  "case serve demo_session (concat (map fst demo_client)) (PhaseNew, False, 0) of (st, es, replies, how) \<Rightarrow>
     runs es = 1 \<and> how = Finished \<and> map is_call_reply replies = [False, False, True]
     \<and> hd replies = RpcError (JInt 1) (- 32002)"
  by code_simp

theorem session_serves_after_handshake_witness:
  "\<exists>st es replies. serve demo_session (concat (map fst demo_client)) (PhaseNew, False, 0) = (st, es, replies, Finished)
     \<and> runs es = 1 \<and> (\<exists>x \<in> set replies. is_initialize_reply x)"
proof -
  obtain st es replies how where s: "serve demo_session (concat (map fst demo_client)) (PhaseNew, False, 0)
      = (st, es, replies, how)" by (metis prod_cases4)
  with demo_stream have "runs es = 1" "how = Finished" by simp_all
  with session_serves_after_handshake [OF s] s show ?thesis by (cases st) auto
qed

end
