(* ===== verification/Mcp_Tools.thy ===== *)
theory Mcp_Tools
  imports Mcp_Registry Egress
begin

text \<open>
  What some tools tell the registry, and the tool that goes out to the network
  (\<^verbatim>\<open>crates/mcp-system/src/tools\<close>: \<^verbatim>\<open>http.rs\<close>, \<^verbatim>\<open>web.rs\<close>, \<^verbatim>\<open>system.rs\<close>): the request it writes to
  the socket of the exit proxy and how it reads what comes back. The socket gives chunks of bytes, or an
  error; base64 and the JSON of a token are third-party code.
\<close>

section \<open>Metadata, targets and effects\<close>

definition fetch_meta :: tool_meta where
  "fetch_meta = \<lparr>tm_requires = ''net.egress'', tm_irreversible = False, tm_external = True,
     tm_sandbox_level_min = None\<rparr>"

text \<open>Up to the first \<open>/\<close>, \<open>?\<close> or \<open>#\<close>, without user and port.\<close>

definition host_of :: "string \<Rightarrow> string option" where
  "host_of url =
     (case split_once_str ''://'' url of
        None \<Rightarrow> None
      | Some (_, rest) \<Rightarrow>
          let authority = takeWhile (\<lambda>c. c \<notin> {CHR ''/'', CHR ''?'', CHR ''#''}) rest;
              host = strip_port (case rsplit_once CHR ''@'' authority of None \<Rightarrow> authority | Some (_, h) \<Rightarrow> h)
          in if host = [] then None else Some host)"

definition fetch_target :: "json \<Rightarrow> tool_context \<Rightarrow> string option" where
  "fetch_target args C = Option.bind (as_str (field ''url'' args)) host_of"

definition fetch_method :: "json \<Rightarrow> string" where
  "fetch_method args = to_ascii_uppercase (or_default (as_str (field ''method'' args)) ''GET'')"

definition fetch_effects :: "json \<Rightarrow> tool_meta \<Rightarrow> bool \<times> bool" where
  "fetch_effects args meta =
     (if fetch_method args \<in> {''GET'', ''HEAD''} then (False, False) else (True, True))"

definition web_act_meta :: tool_meta where
  "web_act_meta = \<lparr>tm_requires = ''ui.act'', tm_irreversible = False, tm_external = True,
     tm_sandbox_level_min = None\<rparr>"

definition web_act_target :: "json \<Rightarrow> tool_context \<Rightarrow> string option" where
  "web_act_target args C = Some ''browser''"

definition web_act_effects :: "json \<Rightarrow> tool_meta \<Rightarrow> bool \<times> bool" where
  "web_act_effects args meta =
     (if as_str (field ''action'' args) = Some ''submit'' then (False, True) else (False, False))"

definition exec_meta :: tool_meta where
  "exec_meta = \<lparr>tm_requires = ''proc.exec'', tm_irreversible = False, tm_external = False,
     tm_sandbox_level_min = Some 0\<rparr>"

definition exec_target :: "json \<Rightarrow> tool_context \<Rightarrow> string option" where
  "exec_target args C = as_str (field ''program'' args)"

definition exec_effects :: "json \<Rightarrow> tool_meta \<Rightarrow> bool \<times> bool" where
  "exec_effects args meta = (False, False)"

section \<open>The request written to the proxy\<close>

definition DEFAULT_MAX_BYTES :: nat where
  "DEFAULT_MAX_BYTES = 262144"

definition HARD_MAX_BYTES :: nat where
  "HARD_MAX_BYTES = 1048576"

record fetch_env =
  fe_socket :: bool
  fe_token_json :: "token \<Rightarrow> string option"
  fe_base64 :: "string \<Rightarrow> string"

definition CRLF :: string where
  "CRLF = [CHR 0x0D, CHR 0x0A]"

definition method_ok :: "string \<Rightarrow> bool" where
  "method_ok m \<longleftrightarrow> list_all (\<lambda>c. is_ascii_uppercase c \<or> c = CHR ''-'') m \<and> m \<noteq> [] \<and> length m \<le> 16"

definition max_bytes_of :: "json \<Rightarrow> nat" where
  "max_bytes_of args =
     min HARD_MAX_BYTES (max 1 (or_default (as_u64 (field ''max_bytes'' args)) DEFAULT_MAX_BYTES))"

definition fetch_text :: "string \<Rightarrow> string \<Rightarrow> string \<Rightarrow> string \<Rightarrow> string \<Rightarrow> string" where
  "fetch_text method url host token body =
     method @ '' '' @ url @ '' HTTP/1.1'' @ CRLF @ ''Host: '' @ host @ CRLF
     @ ''Proxy-Authorization: Prophet '' @ token @ CRLF @ ''User-Agent: prophet-agent'' @ CRLF
     @ ''Accept: text/html, application/json, text/plain;q=0.9, */*;q=0.5'' @ CRLF
     @ ''Connection: close'' @ CRLF
     @ (if body \<noteq> [] \<or> method \<in> {''POST'', ''PUT'', ''PATCH''}
        then ''Content-Length: '' @ show_nat (length body) @ CRLF else [])
     @ CRLF @ body"

text \<open>An error, or the text to send and the bound of the answer.\<close>

definition fetch_request :: "fetch_env \<Rightarrow> json \<Rightarrow> tool_context \<Rightarrow> call_result + string \<times> nat" where
  "fetch_request E args C =
     (case as_str (field ''url'' args) of
        None \<Rightarrow> Err (CrError CodeInvalid plain)
      | Some url \<Rightarrow>
          (case host_of url of
             None \<Rightarrow> Err (CrError CodeInvalid plain)
           | Some host \<Rightarrow>
               if \<not> starts_with ''http://'' url \<and> \<not> starts_with ''https://'' url
               then Err (CrError CodeInvalid plain)
               else if \<not> method_ok (fetch_method args) then Err (CrError CodeInvalid plain)
               else if \<not> fe_socket E then Err (CrError CodeSandboxError plain)
               else case fe_token_json E (tc_token C) of
                   None \<Rightarrow> Err (CrError CodeInternal plain)
                 | Some t \<Rightarrow>
                     Ok (fetch_text (fetch_method args) url host (fe_base64 E t)
                           (or_default (as_str (field ''body'' args)) []), max_bytes_of args)))"

section \<open>The answer of the proxy\<close>

text \<open>Chunks up to the limit; an error after some bytes ends the reading, one before them is an error.\<close>

fun read_chunks :: "nat \<Rightarrow> string \<Rightarrow> string option list \<Rightarrow> (string \<times> bool) option" where
  "read_chunks limit raw [] = Some (raw, False)"
| "read_chunks limit raw (None # cs) = (if raw = [] then None else Some (raw, False))"
| "read_chunks limit raw (Some c # cs) =
     (if c = [] then Some (raw, False)
      else let raw' = raw @ c in if limit \<le> length raw' then Some (raw', True) else read_chunks limit raw' cs)"

fun hex_digit :: "char \<Rightarrow> nat option" where
  "hex_digit c =
     (if is_ascii_digit c then Some (byte c - 48)
      else if 97 \<le> byte c \<and> byte c \<le> 102 then Some (byte c - 87)
      else if 65 \<le> byte c \<and> byte c \<le> 70 then Some (byte c - 55) else None)"

fun hex_value :: "nat \<Rightarrow> string \<Rightarrow> nat option" where
  "hex_value acc [] = Some acc"
| "hex_value acc (c # s) = (case hex_digit c of None \<Rightarrow> None | Some d \<Rightarrow> hex_value (acc * 16 + d) s)"

text \<open>\<open>usize::from_str_radix(s, 16)\<close>: an optional \<open>+\<close>, at least a digit, less than 2 to the 64.\<close>

definition parse_hex :: "string \<Rightarrow> nat option" where
  "parse_hex s =
     (let digits = (case s of c # cs \<Rightarrow> if c = CHR ''+'' \<and> cs \<noteq> [] then cs else s | [] \<Rightarrow> [])
      in if digits = [] then None
         else Option.bind (hex_value 0 digits) (\<lambda>n. if n < 2 ^ 64 then Some n else None))"

text \<open>The size of a chunk: its line up to a \<open>;\<close>.\<close>

definition chunk_size :: "string \<Rightarrow> nat option" where
  "chunk_size line = parse_hex (trim (hd (str_split CHR '';'' (from_utf8_lossy line))))"

function dechunk :: "string \<Rightarrow> string" where
  "dechunk data =
     (if data = [] then []
      else case find_str CRLF data of
          None \<Rightarrow> []
        | Some (line, rest) \<Rightarrow>
            (case chunk_size line of
               None \<Rightarrow> []
             | Some n \<Rightarrow>
                 if n = 0 then []
                 else take n (drop 2 rest) @ dechunk (drop (n + 2) (drop 2 rest))))"
  by pat_completeness auto
termination
proof (relation "measure length", simp)
  fix data line rest :: string and x n
  assume "data \<noteq> []" "find_str CRLF data = Some x" "(line, rest) = x"
  then have "data = line @ rest" "rest \<noteq> []"
    using find_str_Some [of CRLF data line rest] by (auto simp: CRLF_def starts_with_def)
  then show "(drop (n + 2) (drop 2 rest), data) \<in> measure length"
    by (cases rest) auto
qed

declare dechunk.simps [simp del]

record response =
  rs_status :: nat
  rs_reason :: string
  rs_headers :: headers
  rs_body :: string
  rs_truncated :: bool

definition EMPTY_LINE :: string where
  "EMPTY_LINE = CRLF @ CRLF"

definition status_parts :: "string \<Rightarrow> (nat \<times> string) option" where
  "status_parts line =
     (case split_once CHR '' '' line of
        None \<Rightarrow> None
      | Some (_, rest) \<Rightarrow>
          let (code, reason) = (case split_once CHR '' '' rest of None \<Rightarrow> (rest, []) | Some p \<Rightarrow> p)
          in map_option (\<lambda>n. (n, trim reason)) (parse_u16 code))"

definition is_chunked :: "headers \<Rightarrow> bool" where
  "is_chunked hs \<longleftrightarrow> list_ex (\<lambda>(n, v). eq_ignore_case n ''transfer-encoding''
     \<and> contains_str ''chunked'' (to_ascii_lowercase v)) hs"

definition framed_body :: "headers \<Rightarrow> bool \<Rightarrow> string \<Rightarrow> string" where
  "framed_body hs truncated body =
     (if is_chunked hs \<and> \<not> truncated then dechunk body
      else case Option.bind (header ''content-length'' hs) parse_u64 of
          Some n \<Rightarrow> take n body | None \<Rightarrow> body)"

definition parse_response :: "string \<Rightarrow> bool \<Rightarrow> response option" where
  "parse_response raw truncated =
     (case find_str EMPTY_LINE raw of
        None \<Rightarrow> None
      | Some (head, rest) \<Rightarrow>
          let ls = split_crlf (from_utf8_lossy head);
              hs = List.map_filter (\<lambda>l. map_option (\<lambda>(n, v). (trim n, trim v)) (split_once CHR '':'' l)) (tl ls)
          in case status_parts (hd ls) of
               None \<Rightarrow> None
             | Some (code, reason) \<Rightarrow>
                 Some \<lparr>rs_status = code, rs_reason = reason, rs_headers = hs,
                   rs_body = framed_body hs truncated (drop 4 rest), rs_truncated = truncated\<rparr>)"

definition proxy_code :: "nat \<Rightarrow> error_code" where
  "proxy_code code =
     (if code \<in> {403, 407} then CodePolicyDenied
      else if code \<in> {400, 413} then CodeInvalid
      else if code = 502 then CodeNotFound
      else CodeSandboxError)"

definition into_result :: "response \<Rightarrow> nat \<Rightarrow> call_result" where
  "into_result r max_bytes =
     (if rs_reason r = ''Prophet'' then CrError (proxy_code (rs_status r)) plain
      else let body = take max_bytes (rs_body r)
           in CrStructured (JObj [(''status'', JInt (int (rs_status r))),
                (''content_type'', JStr (or_default (header ''content-type'' (rs_headers r)) [])),
                (''body'', JStr (from_utf8_lossy body)), (''bytes'', JInt (int (length body))),
                (''truncated'', JBool (max_bytes < length (rs_body r) \<or> rs_truncated r))]))"

text \<open>The whole tool, with what the socket gives back for the text it is sent: \<open>None\<close> when it cannot be
  joined or written to.\<close>

definition fetch_call :: "fetch_env \<Rightarrow> (string \<Rightarrow> string option list option) \<Rightarrow> json \<Rightarrow> tool_context
    \<Rightarrow> call_result" where
  "fetch_call E socket args C =
     (case fetch_request E args C of
        Inl e \<Rightarrow> e
      | Inr (text, max_bytes) \<Rightarrow>
          (case Option.bind (socket text) (\<lambda>cs.
                Option.bind (read_chunks (max_bytes + 65536) [] cs) (\<lambda>(raw, cut). parse_response raw cut)) of
             None \<Rightarrow> CrError CodeSandboxError plain
           | Some r \<Rightarrow> into_result r max_bytes))"

definition fetch_tool :: "fetch_env \<Rightarrow> (string \<Rightarrow> string option list option) \<Rightarrow> tool" where
  "fetch_tool E socket = \<lparr>tl_meta = Some fetch_meta, tl_target = fetch_target, tl_effects = fetch_effects,
     tl_code = (\<lambda>args C. Return (fetch_call E socket args C))\<rparr>"

definition web_act_tool :: "(json \<Rightarrow> tool_context \<Rightarrow> call_result) \<Rightarrow> tool" where
  "web_act_tool act = \<lparr>tl_meta = Some web_act_meta, tl_target = web_act_target, tl_effects = web_act_effects,
     tl_code = (\<lambda>args C. Return (act args C))\<rparr>"

end
