(* ===== verification/Ascii_Text.thy ===== *)
theory Ascii_Text
  imports Utf8_Text
begin

text \<open>
  Visible ASCII text, for which the operations on UTF-8 of \<open>Utf8_Text\<close> and \<open>Prophet_Prelude\<close> are those
  on characters: no white space to trim or to split at, nothing to replace.
\<close>

definition visible :: "char \<Rightarrow> bool" where
  "visible c \<longleftrightarrow> 33 \<le> byte c \<and> byte c \<le> 126"

definition visible_text :: "string \<Rightarrow> bool" where
  "visible_text s \<longleftrightarrow> list_all visible s"

lemma visible_text_simps [simp]: "visible_text []" "visible_text (c # s) \<longleftrightarrow> visible c \<and> visible_text s"
  "visible_text (s @ t) \<longleftrightarrow> visible_text s \<and> visible_text t"
  by (simp_all add: visible_text_def)

lemma visible_text_in: "visible_text s \<Longrightarrow> c \<in> set s \<Longrightarrow> visible c"
  by (simp add: visible_text_def list_all_iff)

lemma visible_not [simp]: "\<not> visible CHR 0x0A" "\<not> visible CHR 0x0D" "\<not> visible CHR '' ''"
  by (simp_all add: visible_def byte_def)

lemma strip_any_None: "strip_any ps s = None \<longleftrightarrow> (\<forall>p \<in> set ps. p = [] \<or> \<not> starts_with p s)"
  by (induction ps s rule: strip_any.induct) (auto simp: starts_with_def split: option.splits)

lemma white_ends: "\<forall>p \<in> set white_space. p \<noteq> [] \<and> \<not> visible (hd p) \<and> \<not> visible (last p)"
  by (simp add: white_space_def visible_def byte_def)

lemma no_visible_head:
  assumes "\<forall>p \<in> set ps. p \<noteq> [] \<and> \<not> visible (hd p)" "visible c"
  shows "strip_any ps (c # s) = None"
  unfolding strip_any_None
proof
  fix p
  assume "p \<in> set ps"
  with assms(1) have "p \<noteq> []" "\<not> visible (hd p)" by blast+
  with assms(2) show "p = [] \<or> \<not> starts_with p (c # s)"
    by (cases p) (auto simp: starts_with_iff)
qed

lemma no_white_first: "visible c \<Longrightarrow> strip_any white_space (c # s) = None"
  by (rule no_visible_head) (use white_ends in blast)

lemma no_white_last: "visible c \<Longrightarrow> strip_any (map rev white_space) (c # s) = None"
  by (rule no_visible_head) (use white_ends in \<open>simp add: hd_rev\<close>)

lemma trim_by_stop: "strip_any ps s = None \<Longrightarrow> trim_by ps s = s"
  by (subst trim_by.simps) simp

lemma trim_visible: "visible a \<Longrightarrow> visible b \<Longrightarrow> trim (a # s @ [b]) = a # s @ [b]"
  by (simp add: trim_def trim_by_stop no_white_first no_white_last)

lemma trim_one: "visible a \<Longrightarrow> trim [a] = [a]"
  by (simp add: trim_def trim_by_stop no_white_first no_white_last)

lemma trim_visible_text: "visible_text s \<Longrightarrow> trim s = s"
proof (cases s)
  case Nil
  then show ?thesis by (simp add: trim_def trim_by.simps white_space_def)
next
  case (Cons a t)
  assume "visible_text s"
  then show ?thesis
    using Cons by (cases t rule: rev_cases) (simp_all add: trim_one trim_visible)
qed

lemma space_is_white: "strip_any white_space (CHR '' '' # s) = Some s"
  by (simp add: white_space_def)

lemma trim_by_space: "trim_by white_space (CHR '' '' # s) = trim_by white_space s"
  by (subst trim_by.simps) (simp add: space_is_white)

lemma trim_space: "trim (CHR '' '' # s) = trim s"
  by (simp add: trim_def trim_by_space)

lemma take_word_visible: "visible_text w \<Longrightarrow> take_word (w @ CHR '' '' # s) = (w, CHR '' '' # s)"
proof (induction w)
  case Nil
  show ?case by (simp add: space_is_white)
next
  case (Cons c w)
  then show ?case by (simp add: no_white_first)
qed

lemma take_word_all: "visible_text w \<Longrightarrow> take_word w = (w, [])"
  by (induction w) (simp_all add: no_white_first)

lemma split_whitespace_word:
  assumes "visible_text w" "w \<noteq> []"
  shows "split_whitespace (w @ CHR '' '' # s) = w # split_whitespace s"
proof -
  obtain c t where w: "w = c # t" using assms(2) by (cases w) auto
  have "trim_by white_space (w @ CHR '' '' # s) = w @ CHR '' '' # s"
    using assms(1) w by (intro trim_by_stop) (simp add: no_white_first)
  then have "split_whitespace (w @ CHR '' '' # s) = w # split_whitespace (CHR '' '' # s)"
    using assms by (subst split_whitespace.simps) (simp add: take_word_visible)
  also have "split_whitespace (CHR '' '' # s) = split_whitespace s"
    by (subst (1 2) split_whitespace.simps) (simp only: trim_by_space)
  finally show ?thesis .
qed

lemma split_whitespace_Nil: "split_whitespace [] = []"
  using white_ends by (subst split_whitespace.simps) (simp add: trim_by_stop strip_any_None starts_with_iff)

lemma split_whitespace_last:
  assumes "visible_text w" "w \<noteq> []"
  shows "split_whitespace w = [w]"
proof -
  obtain c t where w: "w = c # t" using assms(2) by (cases w) auto
  then have "trim_by white_space w = w" using assms(1) by (intro trim_by_stop) (simp add: no_white_first)
  with assms show ?thesis
    by (subst split_whitespace.simps) (simp add: take_word_all split_whitespace_Nil)
qed

lemma split_crlf_line: "CHR 0x0D \<notin> set l \<Longrightarrow> split_crlf (l @ [CHR 0x0D, CHR 0x0A] @ s) = l # split_crlf s"
proof (induction l)
  case (Cons c l)
  show ?case
  proof (cases l)
    case Nil
    with Cons show ?thesis by simp
  next
    case (Cons d m)
    with Cons.IH Cons.prems show ?thesis by auto
  qed
qed simp

lemma hd_str_split: "hd (str_split c s) = takeWhile (\<lambda>x. x \<noteq> c) s"
  by (induction s) (auto split: list.splits)

lemma scalars_ascii: "\<forall>c \<in> set s. byte c < 128 \<Longrightarrow> scalars s = map (\<lambda>c. ([c], True)) s"
  by (induction s) (auto simp: scalar_rest_def)

section \<open>Decimal numbers\<close>

lemma digits_value_snoc: "digits_value a (s @ [c]) = digits_value a s * 10 + (byte c - 48)"
  by (induction s arbitrary: a) simp_all

lemma byte_digit: "n < 10 \<Longrightarrow> byte (char_of (48 + n)) = 48 + n"
  by (simp add: byte_def)

lemma show_nat_value [simp]: "digits_value 0 (show_nat n) = n"
proof (induction n rule: show_nat.induct)
  case (1 n)
  then show ?case
    by (subst show_nat.simps) (simp add: digits_value_snoc byte_digit)
qed

lemma show_nat_digits: "list_all is_ascii_digit (show_nat n) \<and> show_nat n \<noteq> []"
proof (induction n rule: show_nat.induct)
  case (1 n)
  then show ?case
    by (subst (1 2) show_nat.simps) (auto simp: byte_digit is_ascii_digit_def [of "char_of _"])
qed

lemma show_nat_length: "n < 10 ^ k \<Longrightarrow> 0 < k \<Longrightarrow> length (show_nat n) \<le> k"
proof (induction n arbitrary: k rule: show_nat.induct)
  case (1 n)
  show ?case
  proof (cases "n < 10")
    case True
    with 1(3) show ?thesis by (subst show_nat.simps) simp
  next
    case False
    then obtain j where k: "k = Suc j" "0 < j"
      using 1(2,3) by (cases k; cases "k - 1") auto
    with 1(2) have "n div 10 < 10 ^ j" by (simp add: less_mult_imp_div_less)
    from 1(1) [OF False this k(2)] False k show ?thesis by (subst show_nat.simps) simp
  qed
qed

lemma digit_visible: "is_ascii_digit c \<Longrightarrow> visible c"
  by (auto simp: is_ascii_digit_def visible_def)

lemma show_nat_visible: "visible_text (show_nat n)"
  using show_nat_digits [of n] by (auto simp: visible_text_def list_all_iff intro: digit_visible)

lemma parse_shown: "n < b \<Longrightarrow> parse_unsigned b (show_nat n) = Some n"
proof -
  assume "n < b"
  obtain c s where *: "show_nat n = c # s" "is_ascii_digit c"
    using show_nat_digits [of n] by (cases "show_nat n") auto
  then have "c \<noteq> CHR ''+''" by (auto simp: is_ascii_digit_def byte_def)
  with * \<open>n < b\<close> show_nat_digits [of n] show_nat_value [of n] show ?thesis
    by (simp add: parse_unsigned_def)
qed

end
