(* ===== verification/Mcp_Fetch.thy ===== *)
theory Mcp_Fetch
  imports Mcp_Tools Mcp_Safe Ascii_Text
begin

text \<open>
  The tool that goes out to the network and the exit proxy speak to each other: what \<open>Mcp_Tools\<close> writes
  to the socket is what \<open>Egress\<close> reads there. The lemmas are on texts made of lines that end with CR LF.
  The last section holds concrete runs at the limits of this agreement and of the two checks of a call.
\<close>

section \<open>Lines\<close>

definition printable :: "char \<Rightarrow> bool" where
  "printable c \<longleftrightarrow> visible c \<or> c = CHR '' ''"

definition printable_text :: "string \<Rightarrow> bool" where
  "printable_text s \<longleftrightarrow> list_all printable s"

lemma printable_text_simps [simp]: "printable_text []"
  "printable_text (c # s) \<longleftrightarrow> printable c \<and> printable_text s"
  "printable_text (s @ t) \<longleftrightarrow> printable_text s \<and> printable_text t"
  by (simp_all add: printable_text_def)

lemma visible_printable: "visible_text s \<Longrightarrow> printable_text s"
  by (auto simp: visible_text_def printable_text_def printable_def list_all_iff)

lemma printable_clean: "printable_text s \<Longrightarrow> CHR 0x0D \<notin> set s \<and> CHR 0x0A \<notin> set s"
  by (auto simp: printable_text_def printable_def list_all_iff dest: visible_not [THEN notE])

lemma printable_ascii: "printable_text s \<Longrightarrow> c \<in> set s \<Longrightarrow> byte c < 128"
  by (auto simp: printable_text_def printable_def list_all_iff visible_def byte_def)

definition crlf_lines :: "string list \<Rightarrow> string" where
  "crlf_lines ls = concat (map (\<lambda>l. l @ CRLF) ls)"

lemma crlf_lines_simps [simp]: "crlf_lines [] = []" "crlf_lines (l # ls) = l @ CRLF @ crlf_lines ls"
  by (simp_all add: crlf_lines_def)

lemma split_crlf_lines: "\<forall>l \<in> set ls. printable_text l \<Longrightarrow> split_crlf (crlf_lines ls @ s) = ls @ split_crlf s"
proof (induction ls)
  case (Cons l ls)
  then show ?case
    using split_crlf_line [of l "crlf_lines ls @ s"] printable_clean [of l] by (simp add: CRLF_def)
qed simp

lemma take_line_crlf: "CHR 0x0A \<notin> set l \<Longrightarrow> take_line (l @ CRLF @ s) = (l @ CRLF, s)"
  by (induction l) (auto simp: CRLF_def)

lemma utf8_line: "printable_text l \<Longrightarrow> utf8_valid (l @ CRLF)"
  using printable_ascii [of l]
  by (subst utf8_valid_def, subst scalars_ascii) (auto simp: CRLF_def byte_def list_all_iff)

lemma lire_ligne:
  assumes "printable_text l" "l \<noteq> []" "length (brut @ l @ CRLF) \<le> TETE_MAX"
  shows "lire_la_tete brut (l @ CRLF @ s) = lire_la_tete (brut @ l @ CRLF) s"
proof -
  obtain c t where l: "l = c # t" "c \<noteq> CHR 0x0D" "c \<noteq> CHR 0x0A"
    using assms(2) printable_clean [OF assms(1)] by (cases l) auto
  then show ?thesis
    using assms(3) utf8_line [OF assms(1)] take_line_crlf [of l s] printable_clean [OF assms(1)]
    by (subst lire_la_tete.simps) (simp add: Let_def CRLF_def)
qed

lemma lire_lignes:
  assumes "\<forall>l \<in> set ls. printable_text l \<and> l \<noteq> []" "length (brut @ crlf_lines ls) \<le> TETE_MAX"
  shows "lire_la_tete brut (crlf_lines ls @ CRLF @ s) = Some (brut @ crlf_lines ls @ CRLF, s)"
  using assms
proof (induction ls arbitrary: brut)
  case Nil
  have "take_line (CRLF @ s) = (CRLF, s)" "utf8_valid CRLF"
    using take_line_crlf [of "[]" s] utf8_line [of "[]"] by simp_all
  then show ?case by (subst lire_la_tete.simps) (simp add: Let_def, simp add: CRLF_def)
next
  case (Cons l ls)
  then show ?case
    using lire_ligne [of l brut "crlf_lines ls @ CRLF @ s"] by simp
qed

section \<open>Headers\<close>

definition header_line :: "string \<times> string \<Rightarrow> string" where
  "header_line h = fst h @ '': '' @ snd h"

text \<open>A name without colon, a value with no space at its ends.\<close>

definition plain_header :: "string \<times> string \<Rightarrow> bool" where
  "plain_header h \<longleftrightarrow> visible_text (fst h) \<and> CHR '':'' \<notin> set (fst h) \<and> printable_text (snd h)
     \<and> snd h \<noteq> [] \<and> visible (hd (snd h)) \<and> visible (last (snd h))"

lemma trim_ends: "s \<noteq> [] \<Longrightarrow> visible (hd s) \<Longrightarrow> visible (last s) \<Longrightarrow> trim s = s"
  by (cases s, simp, cases "tl s" rule: rev_cases) (auto simp: trim_one trim_visible)

lemma header_lines_map:
  "\<forall>h \<in> set hs. plain_header h \<Longrightarrow> header_lines (map header_line hs @ [] # ls) = hs"
proof (induction hs)
  case Nil
  then show ?case by (simp add: header_lines_def map_filter_simps)
next
  case (Cons h hs)
  then have h: "plain_header h" by simp
  then have "split_once CHR '':'' (header_line h) = Some (fst h, CHR '' '' # snd h)"
    by (simp add: split_once_Some header_line_def plain_header_def)
  moreover have "trim (fst h) = fst h" "trim (CHR '' '' # snd h) = snd h" "header_line h \<noteq> []"
    using h by (simp_all add: plain_header_def trim_visible_text trim_space trim_ends header_line_def)
  ultimately show ?case
    using Cons by (simp add: header_lines_def map_filter_simps)
qed

lemma header_line_printable: "plain_header h \<Longrightarrow> printable_text (header_line h) \<and> header_line h \<noteq> []"
  by (auto simp: plain_header_def header_line_def printable_def visible_def byte_def intro: visible_printable)

lemma parse_request_lines:
  assumes "visible_text m" "m \<noteq> []" "visible_text target" "target \<noteq> []" "\<forall>h \<in> set hs. plain_header h"
    and "host_from target hs = Some host"
  shows "parse_request (crlf_lines ((m @ '' '' @ target @ '' HTTP/1.1'') # map header_line hs) @ CRLF)
    = Some \<lparr>hr_method = m, hr_target = target, hr_host = host, hr_headers = hs, hr_body = []\<rparr>"
proof -
  let ?l = "m @ '' '' @ target @ '' HTTP/1.1''"
  have "printable_text ?l"
    using assms by (auto simp: printable_def visible_def byte_def intro: visible_printable)
  then have "split_crlf (crlf_lines (?l # map header_line hs) @ CRLF) = (?l # map header_line hs) @ [[], []]"
    using assms(5) header_line_printable
    by (subst split_crlf_lines) (auto simp: CRLF_def)
  moreover have "split_whitespace ?l = [m, target, ''HTTP/1.1'']"
    using assms(1-4) split_whitespace_word [of m "target @ '' HTTP/1.1''"]
      split_whitespace_word [of target "''HTTP/1.1''"] split_whitespace_last [of "''HTTP/1.1''"]
    by (simp add: visible_def byte_def)
  ultimately show ?thesis
    using header_lines_map [OF assms(5), of "[[]]"] assms(6) by (simp add: parse_request_def)
qed

section \<open>The request of the tool\<close>

text \<open>An address of visible characters whose authority, up to the first slash, names no user and is not
  cut by a query or a fragment.\<close>

definition plain_url :: "string \<Rightarrow> bool" where
  "plain_url url \<longleftrightarrow> visible_text url
     \<and> (case split_once_str ''://'' url of None \<Rightarrow> False
        | Some (_, rest) \<Rightarrow>
            list_all (\<lambda>c. c \<notin> {CHR ''@'', CHR ''?'', CHR ''#''}) (takeWhile (\<lambda>c. c \<noteq> CHR ''/'') rest))"

lemma takeWhile_agrees:
  assumes "\<forall>x \<in> set (takeWhile P xs). Q x" "\<And>x. \<not> P x \<Longrightarrow> \<not> Q x"
  shows "takeWhile Q xs = takeWhile P xs"
  using assms(1)
proof (induction xs)
  case (Cons x xs)
  then show ?case using assms(2) [of x] by (cases "P x") simp_all
qed simp

lemma strip_port_part: "set (strip_port h) \<subseteq> set h \<and> length (strip_port h) \<le> length h"
proof (cases "rsplit_once CHR '':'' h")
  case (Some p)
  then obtain a b where "p = (a, b)" "h = a @ CHR '':'' # b"
    using rsplit_once_Some by (cases p) blast
  with Some show ?thesis by (auto simp: strip_port_def)
qed (simp add: strip_port_def)

lemma plain_url_host:
  assumes "plain_url url" "host_of url = Some host"
  shows "host_from url hs = Some host" "visible_text host" "host \<noteq> []" "length host \<le> length url"
proof -
  obtain scheme rest where url: "split_once_str ''://'' url = Some (scheme, rest)" "url = scheme @ ''://'' @ rest"
    using assms(1) split_once_str_Some [of "''://''" url] by (auto simp: plain_url_def split: option.splits)
  let ?a = "takeWhile (\<lambda>c. c \<noteq> CHR ''/'') rest"
  have clean: "\<forall>c \<in> set ?a. c \<notin> {CHR ''@'', CHR ''?'', CHR ''#''}"
    using assms(1) url(1) by (simp add: plain_url_def list_all_iff)
  then have "takeWhile (\<lambda>c. c \<notin> {CHR ''/'', CHR ''?'', CHR ''#''}) rest = ?a"
    by (intro takeWhile_agrees) (simp_all, use set_takeWhileD in fastforce)
  moreover have "rsplit_once CHR ''@'' ?a = None"
    using clean by (auto simp: rsplit_once_None)
  ultimately have host: "host = strip_port ?a" "host \<noteq> []"
    using assms(2) url(1) by (auto simp: host_of_def Let_def split: if_splits)
  then show "host_from url hs = Some host" "host \<noteq> []"
    by (simp_all add: host_from_def url(1) hd_str_split)
  from host strip_port_part [of ?a] have "set host \<subseteq> set url" "length host \<le> length rest"
    using url(2) set_takeWhileD length_takeWhile_le [of "\<lambda>c. c \<noteq> CHR ''/''" rest] by (fastforce, simp)
  with assms(1) url(2) show "visible_text host" "length host \<le> length url"
    by (auto simp: plain_url_def visible_text_def list_all_iff)
qed

definition fetch_headers :: "string \<Rightarrow> string \<Rightarrow> string \<Rightarrow> string \<Rightarrow> headers" where
  "fetch_headers method host token body =
     [(''Host'', host), (''Proxy-Authorization'', ''Prophet '' @ token), (''User-Agent'', ''prophet-agent''),
      (''Accept'', ''text/html, application/json, text/plain;q=0.9, */*;q=0.5''), (''Connection'', ''close'')]
     @ (if body \<noteq> [] \<or> method \<in> {''POST'', ''PUT'', ''PATCH''}
        then [(''Content-Length'', show_nat (length body))] else [])"

lemma fetch_text_lines: "fetch_text method url host token body
    = crlf_lines ((method @ '' '' @ url @ '' HTTP/1.1'') # map header_line (fetch_headers method host token body))
      @ CRLF @ body"
  by (simp add: fetch_text_def fetch_headers_def header_line_def)

lemma fixed_headers:
  "plain_header (''User-Agent'', ''prophet-agent'')"
  "plain_header (''Accept'', ''text/html, application/json, text/plain;q=0.9, */*;q=0.5'')"
  "plain_header (''Connection'', ''close'')"
  by code_simp+

lemma shown_header: "CHR '':'' \<notin> set n \<Longrightarrow> visible_text n \<Longrightarrow> visible_text v \<Longrightarrow> v \<noteq> [] \<Longrightarrow> plain_header (n, v)"
  by (simp add: plain_header_def visible_printable) (simp add: visible_text_def list_all_iff)

lemma names_visible: "visible_text ''Host''" "visible_text ''Content-Length''" "visible_text ''Proxy-Authorization''"
  "printable_text ''Prophet ''" "visible CHR ''P''"
  by code_simp+

lemma token_header: "visible_text token \<Longrightarrow> token \<noteq> [] \<Longrightarrow> plain_header (''Proxy-Authorization'', ''Prophet '' @ token)"
  using names_visible(3-5) visible_printable [of token]
  by (auto simp: plain_header_def visible_text_def list_all_iff simp del: append.simps)

lemma fetch_headers_plain:
  assumes "visible_text host" "host \<noteq> []" "visible_text token" "token \<noteq> []"
  shows "\<forall>h \<in> set (fetch_headers m host token body). plain_header h"
  using assms fixed_headers token_header shown_header [of "''Host''" host]
    shown_header [of "''Content-Length''" "show_nat (length body)"] names_visible show_nat_digits show_nat_visible
  by (auto simp: fetch_headers_def simp del: visible_text_simps)

lemma method_visible: "method_ok m \<Longrightarrow> visible_text m \<and> m \<noteq> [] \<and> length m \<le> 16"
  by (auto simp: method_ok_def visible_text_def list_all_iff visible_def is_ascii_uppercase_def byte_def)

lemma fixed_lengths: "length (crlf_lines (map header_line (fetch_headers m host token body)))
    \<le> length host + length token + (if body \<noteq> [] then length (show_nat (length body)) else 1) + 200"
  by (simp add: fetch_headers_def header_line_def CRLF_def) (simp add: show_nat.simps)

lemma fetch_headers_read:
  shows "header ''content-length'' (fetch_headers m host token body)
      = (if body \<noteq> [] \<or> m \<in> {''POST'', ''PUT'', ''PATCH''} then Some (show_nat (length body)) else None)"
    and "header ENTETE_JETON (fetch_headers m host token body) = Some (''Prophet '' @ token)"
    and "\<not> cadrage_ambigu (fetch_headers m host token body)"
proof -
  have names: "eq_ignore_case ''Content-Length'' ''content-length''" "\<not> eq_ignore_case ''Host'' ''content-length''"
    "\<not> eq_ignore_case ''Proxy-Authorization'' ''content-length''" "\<not> eq_ignore_case ''User-Agent'' ''content-length''"
    "\<not> eq_ignore_case ''Accept'' ''content-length''" "\<not> eq_ignore_case ''Connection'' ''content-length''"
    "\<not> eq_ignore_case ''Content-Length'' ''transfer-encoding''" "\<not> eq_ignore_case ''Host'' ''transfer-encoding''"
    "\<not> eq_ignore_case ''Proxy-Authorization'' ''transfer-encoding''"
    "\<not> eq_ignore_case ''User-Agent'' ''transfer-encoding''" "\<not> eq_ignore_case ''Accept'' ''transfer-encoding''"
    "\<not> eq_ignore_case ''Connection'' ''transfer-encoding''"
    "\<not> eq_ignore_case ''Host'' ''proxy-authorization''" "eq_ignore_case ''Proxy-Authorization'' ''proxy-authorization''"
    by code_simp+
  show "header ''content-length'' (fetch_headers m host token body)
      = (if body \<noteq> [] \<or> m \<in> {''POST'', ''PUT'', ''PATCH''} then Some (show_nat (length body)) else None)"
    "header ENTETE_JETON (fetch_headers m host token body) = Some (''Prophet '' @ token)"
    "\<not> cadrage_ambigu (fetch_headers m host token body)"
    by (simp_all add: header_def fetch_headers_def names ENTETE_JETON_def cadrage_ambigu_def header_count_def)
qed

text \<open>What the proxy does with what the tool has sent.\<close>

lemma servir_fetch:
  assumes "method_ok m" "plain_url url" "host_of url = Some host" "visible_text token" "token \<noteq> []"
    and "2 * length url + length token \<le> 65000" "length body \<le> CORPS_MAX"
    and "nt_input N = fetch_text m url host token body"
  shows "servir X N = trancher X N \<lparr>hr_method = m, hr_target = url, hr_host = host,
      hr_headers = fetch_headers m host token body, hr_body = (if m = ''CONNECT'' then [] else body)\<rparr>
    (if m = ''CONNECT'' then body else [])"
proof -
  let ?hs = "fetch_headers m host token body"
  let ?ls = "(m @ '' '' @ url @ '' HTTP/1.1'') # map header_line ?hs"
  note host = plain_url_host [OF assms(2,3)]
  have url: "visible_text url" "url \<noteq> []"
    using assms(2) by (auto simp: plain_url_def split_once_str_def)
  note m = method_visible [OF assms(1)]
  note plain = fetch_headers_plain [OF host(2,3) assms(4,5), of m body]
  have "printable_text (m @ '' '' @ url @ '' HTTP/1.1'')"
    using m url(1) by (auto simp: printable_def visible_def byte_def intro: visible_printable)
  then have lines: "\<forall>l \<in> set ?ls. printable_text l \<and> l \<noteq> []"
    using header_line_printable plain by auto
  have n: "length body < 10 ^ 8" using assms(7) by (simp add: CORPS_MAX_def)
  then have "length (crlf_lines ?ls) \<le> TETE_MAX"
    using fixed_lengths [of m host token body] show_nat_length [of "length body" 8] m host(4) assms(6)
    by (simp add: TETE_MAX_def CRLF_def split: if_splits)
  with lire_lignes [OF lines, of "[]" body] assms(8)
  have "lire_la_tete [] (nt_input N) = Some (crlf_lines ?ls @ CRLF, body)"
    by (simp add: fetch_text_lines)
  moreover have "parse_request (crlf_lines ?ls @ CRLF)
      = Some \<lparr>hr_method = m, hr_target = url, hr_host = host, hr_headers = ?hs, hr_body = []\<rparr>"
    using m url plain host(1) by (intro parse_request_lines) auto
  moreover have "longueur_du_corps ?hs = length body"
    using n by (auto simp: longueur_du_corps_def fetch_headers_read parse_u64_def parse_shown or_default_def)
  ultimately show ?thesis
    using assms(7) by (simp add: servir_def lire_le_corps_def fetch_headers_read)
qed

text \<open>
  C40. The two ends of an exit agree. When the tool has a request to send, for an address of visible
  characters whose authority names no user and ends at a slash, and within the bounds of the proxy on a
  head and a body, then the proxy that reads its text asks the capability service first, about the very
  host the registry had judged and with the token of the task; it calls the request mutating only if
  the registry had taken it for irreversible and external; and it judges the method, the address and the
  body of the tool, every byte, with nothing left unread, except that the body of a \<open>CONNECT\<close> is what
  goes through the tunnel.
\<close>

theorem fetch_reaches_proxy:
  assumes "fetch_request E args C = Ok (text, bound)" "as_str (field ''url'' args) = Some url" "plain_url url"
    and "fe_token_json E (tc_token C) = Some t" "visible_text (fe_base64 E t)" "fe_base64 E t \<noteq> []"
    and "ex_decode64 X (fe_base64 E t) = Some t" "ex_read_json X t = Some j"
    and "2 * length url + length (fe_base64 E t) \<le> 65000"
    and "or_default (as_str (field ''body'' args)) [] = body" "length body \<le> CORPS_MAX"
    and "nt_input N = text"
  shows "\<exists>host r mutating evs. fetch_target args C = Some host
    \<and> servir X N = AskedCapd host mutating j # evs
    \<and> (mutating \<longrightarrow> fetch_effects args meta = (True, True))
    \<and> servir X N = trancher X N r (if hr_method r = ''CONNECT'' then body else [])
    \<and> jeton X (hr_headers r) = Some j \<and> hr_method r = fetch_method args \<and> hr_target r = url \<and> hr_host r = host
    \<and> hr_body r = (if hr_method r = ''CONNECT'' then [] else body)"
proof -
  from assms(1,2,4,10) obtain host where h: "host_of url = Some host" "method_ok (fetch_method args)"
    "text = fetch_text (fetch_method args) url host (fe_base64 E t) body"
    by (auto simp: fetch_request_def split: option.splits if_splits)
  let ?hs = "fetch_headers (fetch_method args) host (fe_base64 E t) body"
  let ?r = "\<lparr>hr_method = fetch_method args, hr_target = url, hr_host = host, hr_headers = ?hs,
    hr_body = (if fetch_method args = ''CONNECT'' then [] else body)\<rparr>"
  let ?mut = "is_mutating (fetch_method args) host (ex_query_hosts X)"
  have s: "servir X N = trancher X N ?r (if fetch_method args = ''CONNECT'' then body else [])"
    using assms h by (intro servir_fetch) simp_all
  have j: "jeton X ?hs = Some j"
    using assms(7,8) by (simp add: jeton_def fetch_headers_read PREFIXE_def strip_prefix_Some)
  then obtain evs where "servir X N = AskedCapd host ?mut j # evs"
    unfolding s by (simp add: trancher_def Let_def)
  moreover have "?mut \<longrightarrow> fetch_effects args meta = (True, True)"
    by (auto simp: is_mutating_def fetch_effects_def MUTATING_METHODS_def to_ascii_uppercase_def
        is_ascii_lowercase_def byte_def)
  moreover have "fetch_target args C = Some host"
    using assms(2) h(1) by (simp add: fetch_target_def)
  ultimately show ?thesis
    using s j by (intro exI [of _ host] exI [of _ ?r] exI [of _ ?mut] exI [of _ evs]) simp
qed

section \<open>A small exit\<close>

text \<open>A token reads as its nonce, base64 as itself, and no one is on the network.\<close>

definition tool_env :: fetch_env where
  "tool_env = \<lparr>fe_socket = True, fe_token_json = (\<lambda>t. Some (t_nonce t)), fe_base64 = id\<rparr>"

definition exit_side :: exit_env where
  "exit_side = \<lparr>ex_decode64 = Some, ex_read_json = (\<lambda>s. Some (JObj [(''sub'', JStr s)])), ex_query_hosts = []\<rparr>"

definition lone_net :: "string \<Rightarrow> network" where
  "lone_net text = \<lparr>nt_input = text, nt_capd = (\<lambda>_. Ok (JObj [(''decision'', JStr ''allow'')])),
     nt_vault_up = False, nt_vault = (\<lambda>_ _ _. Err (ipc_error_new EcNotFound [])), nt_joins = (\<lambda>_ _. True),
     nt_server_name = (\<lambda>_. True), nt_tls = (\<lambda>_. True), nt_upstream = UpBreaks 0, nt_client_reads = True\<rparr>"

definition api_url :: string where
  "api_url = ''https://api.test:8443/v1?q=1''"

definition delete_args :: json where
  "delete_args = JObj [(''url'', JStr api_url), (''method'', JStr ''delete''), (''body'', JStr ''all'')]"

lemma delete_fields: "as_str (field ''url'' delete_args) = Some api_url"
  "as_str (field ''body'' delete_args) = Some ''all''" "field ''max_bytes'' delete_args = None"
  "fetch_method delete_args = ''DELETE''" "host_of api_url = Some ''api.test''" "plain_url api_url"
  "method_ok ''DELETE''" "starts_with ''https://'' api_url" "length api_url = 28"
  "is_mutating ''DELETE'' ''api.test'' []"
  by code_simp+

lemma delete_sent: "fetch_request tool_env delete_args (agent_context sales_token)
    = Ok (fetch_text ''DELETE'' api_url ''api.test'' ''n'' ''all'', 262144)"
  by (simp add: fetch_request_def delete_fields tool_env_def max_bytes_of_def or_default_def HARD_MAX_BYTES_def
      DEFAULT_MAX_BYTES_def agent_context_def sales_token_def)

theorem fetch_reaches_proxy_witness:
  "\<exists>sent r evs. fetch_request tool_env delete_args (agent_context sales_token) = Ok (sent, 262144)
     \<and> servir exit_side (lone_net sent) = AskedCapd ''api.test'' True (JObj [(''sub'', JStr ''n'')]) # evs
     \<and> servir exit_side (lone_net sent) = trancher exit_side (lone_net sent) r []
     \<and> hr_method r = ''DELETE'' \<and> hr_target r = api_url \<and> hr_body r = ''all''"
proof -
  let ?N = "lone_net (fetch_text ''DELETE'' api_url ''api.test'' ''n'' ''all'')"
  let ?j = "JObj [(''sub'', JStr ''n'')]"
  have env: "fe_token_json tool_env (tc_token (agent_context sales_token)) = Some ''n''"
    "visible_text (fe_base64 tool_env ''n'')" "fe_base64 tool_env ''n'' \<noteq> []"
    "ex_decode64 exit_side (fe_base64 tool_env ''n'') = Some ''n''" "ex_read_json exit_side ''n'' = Some ?j"
    "2 * length api_url + length (fe_base64 tool_env ''n'') \<le> 65000"
    "or_default (as_str (field ''body'' delete_args)) [] = ''all''" "length ''all'' \<le> CORPS_MAX"
    "nt_input ?N = fetch_text ''DELETE'' api_url ''api.test'' ''n'' ''all''"
    by (simp_all add: tool_env_def exit_side_def lone_net_def agent_context_def sales_token_def delete_fields
        or_default_def CORPS_MAX_def visible_def byte_def)
  obtain host r m evs where f: "fetch_target delete_args (agent_context sales_token) = Some host"
    "servir exit_side ?N = AskedCapd host m ?j # evs"
    "servir exit_side ?N = trancher exit_side ?N r (if hr_method r = ''CONNECT'' then ''all'' else [])"
    "jeton exit_side (hr_headers r) = Some ?j" "hr_method r = fetch_method delete_args"
    "hr_target r = api_url" "hr_host r = host" "hr_body r = (if hr_method r = ''CONNECT'' then [] else ''all'')"
    using fetch_reaches_proxy [OF delete_sent delete_fields(1,6) env, of undefined] by blast
  from f(1) have h: "host = ''api.test''" by (simp add: fetch_target_def delete_fields)
  from f(3) have "servir exit_side ?N = trancher exit_side ?N r []" by (simp add: f(5) delete_fields)
  moreover have "ex_query_hosts exit_side = []" by (simp add: exit_side_def)
  moreover from calculation f(2) have m by (simp add: trancher_def Let_def f(4,5,7) h delete_fields)
  ultimately show ?thesis
    using f(2,5,6,8) delete_sent unfolding h delete_fields
    by (intro exI [of _ "fetch_text ''DELETE'' api_url ''api.test'' ''n'' ''all''"] exI [of _ r] exI [of _ evs]) simp
qed

section \<open>Limits\<close>

text \<open>The address is not checked for spaces or ends of lines: it can write headers of its own, here one the
  tool never sends, with a reference to a secret that the proxy replaces for this host.\<close>

definition writing_args :: json where
  "writing_args = JObj [(''url'', JStr (''http://api.test/ HTTP/1.1'' @ CRLF @ ''X-Key: prophet-secret:k'' @ CRLF @ ''X:''))]"

lemma url_writes_headers:
  "case as_str (field ''url'' writing_args) of None \<Rightarrow> False | Some url \<Rightarrow>
     host_of url = Some ''api.test'' \<and> starts_with ''http://'' url
     \<and> (case parse_request (fetch_text (fetch_method writing_args) url ''api.test'' ''n'' []) of
          None \<Rightarrow> False
        | Some r \<Rightarrow> hr_host r = ''api.test'' \<and> has_reference (hr_headers r)
            \<and> header ''x-key'' (hr_headers r) = Some ''prophet-secret:k'')"
  by code_simp

text \<open>Away from plain addresses, the host the registry judges is not the one the proxy asks for and joins.\<close>

lemma hosts_differ:
  "host_of ''http://api.test?q=1'' = Some ''api.test''"
  "host_from ''http://api.test?q=1'' [] = Some ''api.test?q=1''"
  "host_of ''http://u@api.test/'' = Some ''api.test''"
  "host_from ''http://u@api.test/'' [] = Some ''u@api.test''"
  by code_simp+

text \<open>
  A human who is asked about the call of a tool is not asked about its resource, and the answer is taken
  for both. A token may call \<open>web.act\<close> and nothing else; submitting has an effect outside, so the
  first check, of the call, asks the human, by the name of the tool alone. After the yes, the form is
  submitted without a grant for the browser; without the effect, the same token is refused.
\<close>

definition browser_tools :: tools where
  "browser_tools = [(''web.act'', web_act_tool (\<lambda>args C. CrText ''ok''))]"

definition submit_args :: json where
  "submit_args = JObj [(''action'', JStr ''submit'')]"

definition click_args :: json where
  "click_args = JObj [(''action'', JStr ''click'')]"

definition caller_minted :: "broker \<times> (broker_error + token)" where
  "caller_minted = mint demo_crypto demo_broker
     (sales_manifest\<lparr>m_capabilities := [(''tool.call'', [''web.*''])]\<rparr>)
     ''task:01'' ''u'' [grant_new ResTool ActCall ''web.act''] 1800 0 ''n''"

definition caller :: tool_context where
  "caller = agent_context (case snd caller_minted of Inr t \<Rightarrow> t | Inl _ \<Rightarrow> sales_token)"

definition caller_world :: broker_world where
  "caller_world = \<lparr>bw_broker = fst caller_minted, bw_events = [], bw_next = 0, bw_clock = 0\<rparr>"

text \<open>A first call, the answer of the human to the request it has made, a second call.\<close>

definition submitted :: "json \<Rightarrow> call_result option \<times> bool \<times> call_result option \<times> bool" where
  "submitted args =
     (case call demo_services browser_tools ''web.act'' args caller 10 (False, caller_world) of
        ((failed, w), es, out) \<Rightarrow>
          let B = bw_broker w; A = br_approvals B;
              A' = (case resolve A ''0'' ''r'' HAllow ScopeOnce 11 of Some (A', _) \<Rightarrow> A' | None \<Rightarrow> A)
          in case call demo_services browser_tools ''web.act'' args caller 12
                 (failed, w\<lparr>bw_broker := B\<lparr>br_approvals := A'\<rparr>\<rparr>) of
               (_, es', out') \<Rightarrow> (out, list_ex is_run es, out', list_ex is_run es'))"

lemma submit_needs_no_grant: "case submitted submit_args of (out, r1, out', r2) \<Rightarrow> \<not> r1 \<and> r2 \<and> out' = Some (CrText ''ok'')"
  by code_simp

lemma click_needs_grant: "case submitted click_args of (out, r1, out', r2) \<Rightarrow> \<not> r1 \<and> \<not> r2"
  by code_simp

end
