(* ===== verification/Spec2Isabelle.thy ===== *)
theory Spec2Isabelle
  imports Missions Ledger_History Publication_Undo Capd_Restart Egress_Guard Mcp_Clients Mcp_Fetch
begin

text \<open>
  Prophet OS runs agents on a machine that belongs to a human. An agent gets no ambient authority: a
  capability token says what one task may do, a broker checks every use of it, the human is asked for
  what cannot be undone, an append-only journal keeps what happened, and the files of the human
  change only when the work of a mission is published, as a whole, and can be undone. This library
  models those parts from the Rust sources under \<^verbatim>\<open>src/crates\<close> and proves what they promise.

  \<^bold>\<open>Parts and theories.\<close> Every theory opens with a text on its own conventions.

  \<^item> Shared vocabulary. \<open>Prophet_Prelude\<close>: results (\<open>Ok\<close>/\<open>Err\<close> as a sum), association maps for
    \<open>HashMap\<close> and \<open>BTreeMap\<close>, instants, strings as UTF-8 byte sequences with the operations of Rust's
    \<open>str\<close> the sources call. \<open>Utf8_Text\<close>: bytes that come from outside, read as text. \<open>Ascii_Text\<close>:
    the same on visible ASCII, where it is plain. \<open>F64\<close>: finite \<open>f64\<close> values as rationals rounded
    after every operation. \<open>Kept_File\<close>: a file replaced at once. \<open>Coverage\<close> and \<open>Machine\<close>: the
    locales below.
  \<^item> What is signed and what is allowed (\<^verbatim>\<open>prophet-types/src\<close>). \<open>Canon\<close>: canonical serialisation
    (\<^verbatim>\<open>canon.rs\<close>). \<open>Cap_Pattern\<close>: grant patterns per resource family, matching and covering
    (\<^verbatim>\<open>pattern.rs\<close>). \<open>Cap_Token\<close>: constraints, grants, tokens and delegation (\<^verbatim>\<open>cap.rs\<close>).
    \<open>Manifest\<close>: agent manifests and their validation (\<^verbatim>\<open>manifest.rs\<close>).
  \<^item> The broker (\<^verbatim>\<open>capd/src\<close>). \<open>Policy\<close>: policy rules over an engine that is a parameter
    (\<^verbatim>\<open>policy.rs\<close>). \<open>Approvals\<close>: the queue of questions to the human (\<^verbatim>\<open>approvals.rs\<close>). \<open>Broker\<close>:
    mint, delegate, revoke and check (\<^verbatim>\<open>broker.rs\<close>).
  \<^item> Services and their callers. \<open>Ipc\<close>: a call from one service to another, from the client to the
    handler and back (\<^verbatim>\<open>prophet-ipc/src\<close>). \<open>Peers\<close>: who a caller is and what is open to it
    (\<^verbatim>\<open>prophet-daemon/src/lib.rs\<close>).
  \<^item> The capability service (\<^verbatim>\<open>capd/src\<close>). \<open>Presence\<close>: the code that proves the human is there
    (\<^verbatim>\<open>presence.rs\<close>). \<open>Revocations\<close>: the register of revoked subjects (\<^verbatim>\<open>revocations.rs\<close>).
    \<open>Capd_Service\<close>: the socket over the broker, the presence, the register and the kept queue
    (\<^verbatim>\<open>bin/prophet-capd.rs\<close>). \<open>Capd_Guard\<close>: who can do what. \<open>Capd_Restart\<close>: what a crash leaves.
  \<^item> What leaves the machine. \<open>Vault\<close>: the secrets and their service (\<^verbatim>\<open>vault/src\<close>). \<open>Vault_Safe\<close>: the
    values are invisible and survive. \<open>Egress_Request\<close>: what the exit proxy reads and judges by itself
    (\<^verbatim>\<open>egress/src\<close>: \<^verbatim>\<open>proxy.rs\<close>, \<^verbatim>\<open>detect.rs\<close>, \<^verbatim>\<open>policy.rs\<close>, \<^verbatim>\<open>inject.rs\<close>). \<open>Egress\<close>: one request through
    the service (\<^verbatim>\<open>egress/src/bin/prophet-egress.rs\<close>). \<open>Egress_Guard\<close>: what leaves, with the capability
    service and the vault behind the proxy, and what the rules do not stop.
  \<^item> The tools of an agent (\<^verbatim>\<open>mcp-system/src\<close>). \<open>Mcp_Registry\<close>: the one way from a call to the code of
    a tool (\<^verbatim>\<open>registry.rs\<close>, \<^verbatim>\<open>protocol.rs\<close>). \<open>Mcp_Session\<close>: a client over lines of JSON, and a native
    task (\<^verbatim>\<open>server.rs\<close>, \<^verbatim>\<open>native.rs\<close>). \<open>Mcp_Tools\<close>: the tool that goes out to the network, and what
    two others declare (\<^verbatim>\<open>tools/http.rs\<close>, \<^verbatim>\<open>web.rs\<close>, \<^verbatim>\<open>system.rs\<close>). \<open>Mcp_Guard\<close>, \<open>Mcp_Safe\<close>,
    \<open>Mcp_Clients\<close>: complete mediation, the broker behind the registry, and its callers. \<open>Mcp_Fetch\<close>:
    the network tool in front of the exit proxy, and what the two checks of a call leave open.
  \<^item> The journal. \<open>Ledger_Event\<close>: sealing an event into the hash chain (\<^verbatim>\<open>prophet-types/src/ledger.rs\<close>).
    \<open>Ledger_Store\<close>: the daily files, their index and reopening (\<^verbatim>\<open>ledger/src/store.rs\<close>, \<^verbatim>\<open>seal.rs\<close>,
    \<^verbatim>\<open>subscribe.rs\<close>). \<open>Ledger_History\<close>: its refinement to one list that only grows.
  \<^item> Missions (\<^verbatim>\<open>agentd/src\<close>, \<^verbatim>\<open>providers/src/selection.rs\<close>). \<open>Task_Life\<close>: states and budgets of a
    task (\<^verbatim>\<open>task.rs\<close>, \<^verbatim>\<open>budget.rs\<close>). \<open>Selection\<close>: the driver a task gets. \<open>Runtime\<close>: the whole of
    \<^verbatim>\<open>runtime.rs\<close>, planning, starting, running, reviewing, publishing, taking back. \<open>Mission_Worker\<close>:
    the copy of a mission a worker charges and concludes (\<^verbatim>\<open>local.rs\<close>). \<open>Mission_Service\<close>: the service
    around the runtime, its launches, its workers, its cancellations, its state file and its start
    after a stop (\<^verbatim>\<open>bin/prophet-agentd.rs\<close>). \<open>Runtime_Life\<close>, \<open>Mission_Run\<close>: the invariants of the
    runtime and its loop over a driver. \<open>Service_Restart\<close>: what the state file gives back.
    \<open>Service_Life\<close>: the steps of the service and their invariant. \<open>Missions\<close>: what it all promises.
  \<^item> The work of a mission (\<^verbatim>\<open>sfs/src\<close>). \<open>Sfs_Diff\<close>: what a mission changed (\<^verbatim>\<open>diff.rs\<close>,
    \<^verbatim>\<open>review.rs\<close>). \<open>Workspace_Types\<close>: the types shared with the runtime. \<open>Publication\<close>: the batch that
    writes the work into the documents, with its journal, its recovery and its undoing
    (\<^verbatim>\<open>publication.rs\<close>, \<^verbatim>\<open>publication_metadata.rs\<close>). \<open>Publication_Safe\<close>, \<open>Publication_Recovery\<close>,
    \<open>Publication_Resume\<close>, \<open>Publication_Atomic\<close>, \<open>Publication_Undo\<close>: its guarantees.

  \<^bold>\<open>How the parts meet.\<close> The broker decides with the grants of \<open>Cap_Token\<close>, which decide with the
  patterns of \<open>Cap_Pattern\<close>; it asks the policy engine, then the approval queue. The runtime plans a
  mission against a manifest, chooses a driver, has the broker mint the token of the mission, writes
  its events for the journal, and guards publication by the state of the task. The service around it
  hands a copy of a mission to each worker, writes the copy back as the worker goes, and saves the
  whole after every step; started again, it takes the missions it finds and ends those that were in
  progress. The capability
  service holds the broker, and lets the human decide only against the proof of \<open>Presence\<close>. The exit
  proxy asks that service for every request and the vault for every secret: \<open>exit_needs_grant\<close> and
  \<open>secrets_to_their_hosts\<close> put the modelled services behind the modelled proxy, so that a byte sent
  is traced back to a grant of a signed token and to the hosts a secret was declared for. The registry
  of tools asks the broker before the code of a tool runs, and the human through the approval queue:
  \<open>tool_needs_signed_grant\<close> traces a tool that ran back to a grant or to a decision of the human. What the network
  tool writes is what the proxy reads (\<open>fetch_reaches_proxy\<close>), for an address with no user and no query
  before its first slash; \<open>hosts_differ\<close> shows the others, \<open>submit_needs_no_grant\<close> a human's yes that
  stands for a grant.

  \<^bold>\<open>State and errors.\<close> A struct is a record with the fields of the source, an enumeration a datatype
  with its constructors. An operation that changes state takes it and returns it updated. A
  \<open>Result\<close> is a sum, a panic or an unwinding error is \<open>None\<close> or its own constructor. Integers whose
  width matters are bounded as the code bounds them (checked, saturating or wrapping arithmetic is
  written out); the counters that cannot overflow in a run are naturals. Time is an argument.

  \<^bold>\<open>Interfaces.\<close> \<open>coverage\<close> and \<open>coverage_order\<close> are the contract of a comparison of permissions
  (what covers allows at least as much, and covering is transitive); patterns, constraints and grants
  interpret it, and delegation rests on it alone. \<open>machine\<close>, \<open>growing_machine\<close>,
  \<open>accounting_machine\<close>, \<open>transition\<close> and \<open>growing_transition\<close> are services that keep an invariant,
  never lose what they hold, or pay each answer with a request; the journal, the approval queue, the
  broker, tasks and the service of missions interpret them. \<open>policy_contract\<close> is the behaviour of Cedar the broker relies
  on, interpreted on the default engine. \<open>driver_loop\<close> is what one pass of the loop over a driver keeps.
  \<open>disk_law\<close> is a property kept by every single write of a publication, hence by all of it, killed or not.
  \<open>noninterference\<close> is a service two of whose runs an observer cannot tell apart, interpreted on the
  vault for everyone but the proxy. \<open>secret_oracle\<close> is what the proxy relies on of whoever holds the
  secrets, interpreted on the vault in any sequence of states. \<open>authority\<close> is what the registry of
  tools relies on of whoever judges its requests, interpreted on the broker.

  \<^bold>\<open>Lemma groups.\<close> \<open>wp\<close> in \<open>Publication_Safe\<close> is a weakest precondition with three outcomes: return,
  error, killed process. The publication theories state each routine once as a \<open>_wp\<close> lemma
  and compose them. The runtime theories prove one frame lemma per operation, then one induction over
  sequences of operations, and so do those of the capability service and of the vault; for the
  service of missions, whose workers and whose stops interleave, the frame is \<open>advances\<close>, what a step
  may do to a mission, shown of every step and closed under sequences. The theories
  of the exit reason on the trace of a request, cut at the question to the capability service. Those
  of the registry compose one rule per construct of its routines: what a routine can do (\<open>emit\<close>), where
  it stops (\<open>stop\<close>), what its authority backs (\<open>secure\<close>).

  \<^bold>\<open>Bounds and fuel.\<close> No definition recurses on fuel that could run out: the batch recurses on the
  entries that are left, the loop over a driver on the finite list of what the driver answers (the
  theorems on it say how it ends when that list is long enough), the ancestry of a token on the
  depth the code bounds. A walk that could meet a cycle in an ill-formed index counts its steps, and
  the invariant shows the count is enough. A request read from a socket is consumed line by line, on
  what is left of it.

  \<^bold>\<open>The disk.\<close> A publication works on files and directories of the documents and of its own folder.
  The process can be killed at every checkpoint, between two operations on the disk; the human can
  change documents at the same points. A write that was synchronised survives; the loss of
  writes that were not is outside the model. Theorems name what they ask of the human and of the
  disk: \<open>calm\<close> (nobody else changes the documents), \<open>disk_ready\<close> and \<open>undo_ready\<close> (what the preflight verifies,
  and nodes the process may use). \<open>nothing_of_the_human_lost\<close> asks nothing of either. The services
  keep their files by replacement (\<open>Kept_File\<close>) or by appending lines (\<open>Revocations\<close>, \<open>Ledger_Store\<close>);
  each call says where the writing stops. What is written as JSON is read back as the documentation of
  \<^verbatim>\<open>serde_json\<close> has it, no further: a float may come back as another (the feature that prevents it is
  not enabled), and a text nested deeper than a hundred levels may be refused. So the journal is asked to read back only
  the events whose payload holds no float (\<open>plain_payload\<close>; \<open>float_payload_breaks_chain\<close> shows what a float
  does to the chain), and the state file gives back missions up to their floats (\<open>float_drift\<close>). A register
  that is not UTF-8 keeps its service from starting.

  \<^bold>\<open>Parameters.\<close> Signatures and hashes (\<open>crypto\<close>), key derivation, the cipher and base64 of the vault,
  Cedar, the drivers, the network, the clock and random bytes and identifiers are arguments; so is what
  \<^verbatim>\<open>serde\<close> derives to read a parameter of a call. What is asked of them is a premise of the theorem that needs it (a hash without
  collision on the inputs at hand, a signature that only its key makes), with a witness on a concrete
  instance.

  \<^bold>\<open>Not modelled.\<close> The sockets themselves, the text of JSON outside the signed bytes, threads and locks
  (each operation is one atomic step, as under the locks of the code), TLS, logging and the texts of
  errors, rendering and the user interfaces, the model providers, the sandbox of the kernel, the
  measurements and the supervision of services. Of the tools offered to agents, the one to the network
  is modelled whole; of the agent service, its runtime, the copies of its workers, its state file, its
  launches and its cancellations, and not the methods of its socket, the preparation and the delegation
  of missions, nor the pilot; of the workspaces, what the runtime and the publication use of them.
\<close>

end
